(* ===== verification/Hitz_Prelude.thy ===== *)
theory Hitz_Prelude
  imports Main "HOL-Library.Word"
begin

text \<open>
  Shared ground of the development: the machine integers of the Rust sources, the pieces of the
  Rust core library the sources call (checked and saturating arithmetic, little- and big-endian
  byte conversion, slice access), the result type for code that can panic, and the generic lemmas
  about them.
\<close>

unbundle bit_operations_syntax

section \<open>Machine integers\<close>

type_synonym u8 = "8 word"
type_synonym u16 = "16 word"
type_synonym u32 = "32 word"
type_synonym u64 = "64 word"
type_synonym bytes = "u8 list"

text \<open>
  Collections: \<open>rust_defs\<close> holds the definitions of the core-library functions, for proofs and
  witnesses that evaluate them; \<open>rust_len\<close> the length facts of the byte-string functions.
\<close>

named_theorems rust_defs
named_theorems rust_len

definition checked_add :: "'a::len word \<Rightarrow> 'a word \<Rightarrow> 'a word option" where
  [rust_defs]: "checked_add a b = (if unat a + unat b < 2 ^ LENGTH('a) then Some (a + b) else None)"

definition checked_sub :: "'a::len word \<Rightarrow> 'a word \<Rightarrow> 'a word option" where
  [rust_defs]: "checked_sub a b = (if b \<le> a then Some (a - b) else None)"

definition checked_mul :: "'a::len word \<Rightarrow> 'a word \<Rightarrow> 'a word option" where
  [rust_defs]: "checked_mul a b = (if unat a * unat b < 2 ^ LENGTH('a) then Some (a * b) else None)"

definition saturating_add :: "'a::len word \<Rightarrow> 'a word \<Rightarrow> 'a word" where
  [rust_defs]: "saturating_add a b = (if unat a + unat b < 2 ^ LENGTH('a) then a + b else - 1)"

lemma checked_add_Some_iff:
  "checked_add a b = Some c \<longleftrightarrow> unat a + unat b < 2 ^ LENGTH('a) \<and> c = a + b"
  for a b c :: "'a::len word"
  by (auto simp: checked_add_def)

lemma checked_add_None_iff:
  "checked_add a b = None \<longleftrightarrow> 2 ^ LENGTH('a) \<le> unat a + unat b" for a b :: "'a::len word"
  by (auto simp: checked_add_def)

lemma unat_add_nowrap:
  "unat a + unat b < 2 ^ LENGTH('a) \<Longrightarrow> unat (a + b) = unat a + unat b" for a b :: "'a::len word"
  by (simp add: unat_word_ariths)

lemma unat_mult_nowrap:
  "unat a * unat b < 2 ^ LENGTH('a) \<Longrightarrow> unat (a * b) = unat a * unat b" for a b :: "'a::len word"
  by (simp add: unat_word_ariths)

lemma checked_add_unat:
  "checked_add a b = Some c \<Longrightarrow> unat c = unat a + unat b" for a b c :: "'a::len word"
  by (auto simp: checked_add_Some_iff unat_add_nowrap)

lemma saturating_add_unat:
  "unat (saturating_add a b) = min (unat a + unat b) (2 ^ LENGTH('a) - 1)"
  for a b :: "'a::len word"
proof (cases "unat a + unat b < 2 ^ LENGTH('a)")
  case True
  then show ?thesis by (simp add: saturating_add_def unat_add_nowrap)
next
  case False
  have "unat (- 1 :: 'a word) = 2 ^ LENGTH('a) - 1"
    by (simp add: unsigned_minus_1_eq_mask mask_eq_exp_minus_1)
  with False show ?thesis by (simp add: saturating_add_def)
qed

lemma unat_of_nat_eq [simp]:
  "n < 2 ^ LENGTH('a) \<Longrightarrow> unat (of_nat n :: 'a::len word) = n"
  by (simp add: unat_of_nat)

lemma unat_add_of_nat:
  "unat a + k < 2 ^ LENGTH('a) \<Longrightarrow> unat (a + of_nat k) = unat a + k" for a :: "'a::len word"
  by (subst unat_add_nowrap) simp_all

lemma saturating_add_of_nat:
  "unat a + k < 2 ^ LENGTH('a) \<Longrightarrow> saturating_add a (of_nat k) = a + of_nat k" for a :: "'a::len word"
  by (simp add: saturating_add_def)

lemma checked_add_of_nat:
  "k < 2 ^ LENGTH('a) \<Longrightarrow>
     checked_add a (of_nat k) = (if unat a + k < 2 ^ LENGTH('a) then Some (a + of_nat k) else None)"
  for a :: "'a::len word"
  by (simp add: checked_add_def)

lemma unat_u64_less: "unat (a :: u64) < 18446744073709551616"
  using unsigned_less [of a, where 'a = nat] by simp

lemma unat_u32_less: "unat (a :: u32) < 4294967296"
  using unsigned_less [of a, where 'a = nat] by simp

lemma unat_u16_less: "unat (a :: u16) < 65536"
  using unsigned_less [of a, where 'a = nat] by simp

lemma unat_u8_less: "unat (a :: u8) < 256"
  using unsigned_less [of a, where 'a = nat] by simp

lemma unat_ucast_up:
  "LENGTH('a) \<le> LENGTH('b) \<Longrightarrow> unat (ucast (a :: 'a::len word) :: 'b::len word) = unat a"
  by (simp add: unsigned_ucast_eq unsigned_take_bit_eq take_bit_nat_eq_self less_le_trans [OF unsigned_less])

section \<open>Results of fallible code\<close>

text \<open>
  A \<open>Result\<close> of the sources is \<open>'e + 'a\<close> with \<open>Inl\<close> for \<open>Err\<close>. Code that can also panic (an
  arithmetic overflow under overflow checks, a failed \<open>assert!\<close>, a slice index out of range)
  returns an \<open>outcome\<close>, in which the panic is a value of its own.
\<close>

datatype ('e, 'a) outcome = Ok 'a | Err 'e | Panic

fun outcome_bind :: "('e, 'a) outcome \<Rightarrow> ('a \<Rightarrow> ('e, 'b) outcome) \<Rightarrow> ('e, 'b) outcome" where
  "outcome_bind (Ok x) f = f x"
| "outcome_bind (Err e) f = Err e"
| "outcome_bind Panic f = Panic"

lemma outcome_bind_Ok_iff:
  "outcome_bind r f = Ok y \<longleftrightarrow> (\<exists>x. r = Ok x \<and> f x = Ok y)"
  by (cases r) auto

text \<open>\<open>a + b\<close> in a build with overflow checks, and \<open>ok_or\<close> on an option.\<close>

definition add_checked_panic :: "'a::len word \<Rightarrow> 'a word \<Rightarrow> ('e, 'a word) outcome" where
  [rust_defs]: "add_checked_panic a b = (case checked_add a b of Some c \<Rightarrow> Ok c | None \<Rightarrow> Panic)"

definition ok_or :: "'a option \<Rightarrow> 'e \<Rightarrow> ('e, 'a) outcome" where
  [rust_defs]: "ok_or r e = (case r of Some x \<Rightarrow> Ok x | None \<Rightarrow> Err e)"

definition of_result :: "'e + 'a \<Rightarrow> ('e, 'a) outcome" where
  [rust_defs]: "of_result r = (case r of Inl e \<Rightarrow> Err e | Inr x \<Rightarrow> Ok x)"

definition is_ok :: "'e + 'a \<Rightarrow> bool" where
  [rust_defs]: "is_ok r = (case r of Inl e \<Rightarrow> False | Inr x \<Rightarrow> True)"

definition map_err :: "('e \<Rightarrow> 'f) \<Rightarrow> 'e + 'a \<Rightarrow> 'f + 'a" where
  [rust_defs]: "map_err f r = (case r of Inl e \<Rightarrow> Inl (f e) | Inr x \<Rightarrow> Inr x)"

lemma map_err_simps [simp]:
  "map_err f (Inl e) = Inl (f e)" "map_err f (Inr x) = Inr x"
  by (simp_all add: map_err_def)

lemma map_err_Inr_iff [simp]: "map_err f r = Inr x \<longleftrightarrow> r = Inr x"
  by (cases r) (simp_all add: map_err_def)

section \<open>Byte order\<close>

text \<open>
  \<open>le_bytes n w\<close> is \<open>w.to_le_bytes()\<close> for an integer of \<open>n\<close> bytes, \<open>of_le_bytes\<close> is
  \<open>from_le_bytes\<close>; the big-endian versions reverse the byte string.
\<close>

fun le_bytes :: "nat \<Rightarrow> 'a::len word \<Rightarrow> bytes" where
  "le_bytes 0 w = []"
| "le_bytes (Suc n) w = ucast w # le_bytes n (drop_bit 8 w)"

fun of_le_bytes :: "bytes \<Rightarrow> 'a::len word" where
  "of_le_bytes [] = 0"
| "of_le_bytes (b # bs) = ucast b OR push_bit 8 (of_le_bytes bs)"

definition be_bytes :: "nat \<Rightarrow> 'a::len word \<Rightarrow> bytes" where
  [rust_defs]: "be_bytes n w = rev (le_bytes n w)"

definition of_be_bytes :: "bytes \<Rightarrow> 'a::len word" where
  [rust_defs]: "of_be_bytes bs = of_le_bytes (rev bs)"

lemma length_le_bytes [simp, rust_len]: "length (le_bytes n w) = n"
  by (induction n arbitrary: w) auto

lemma length_be_bytes [simp, rust_len]: "length (be_bytes n w) = n"
  by (simp add: be_bytes_def)

lemma le_bytes_nth:
  "i < n \<Longrightarrow> le_bytes n w ! i = ucast (drop_bit (8 * i) w)"
proof (induction n arbitrary: w i)
  case (Suc n)
  then show ?case by (cases i) (simp_all add: add.commute)
qed simp

lemma bit_of_le_bytes:
  "bit (of_le_bytes bs :: 'a::len word) k \<longleftrightarrow>
     k < LENGTH('a) \<and> k div 8 < length bs \<and> bit (bs ! (k div 8)) (k mod 8)"
proof (induction bs arbitrary: k)
  case (Cons b bs)
  show ?case
  proof (cases "k < 8")
    case True
    then show ?thesis by (auto simp: bit_simps dest: bit_imp_le_length)
  next
    case False
    then have "(k - 8) div 8 = k div 8 - 1" "(k - 8) mod 8 = k mod 8" "0 < k div 8"
      by (simp_all add: le_div_geq le_mod_geq)
    moreover from this have "k div 8 - 1 < length bs \<longleftrightarrow> k div 8 < length (b # bs)"
      by simp linarith
    moreover have "\<not> bit b k"
      using False by (auto dest: bit_imp_le_length)
    ultimately show ?thesis using False
      by (auto simp: bit_simps Cons nth_Cons' intro: less_imp_diff_less)
  qed
qed simp

lemma of_le_bytes_le_bytes:
  "LENGTH('a) \<le> 8 * n \<Longrightarrow> of_le_bytes (le_bytes n w) = w" for w :: "'a::len word"
  by (rule bit_word_eqI) (auto simp: bit_of_le_bytes le_bytes_nth bit_simps)

lemma le_bytes_of_le_bytes:
  assumes "length bs = n" and "8 * n \<le> LENGTH('a)"
  shows "le_bytes n (of_le_bytes bs :: 'a::len word) = bs"
proof (rule nth_equalityI)
  show "length (le_bytes n (of_le_bytes bs :: 'a word)) = length bs"
    using assms by simp
next
  fix i assume "i < length (le_bytes n (of_le_bytes bs :: 'a word))"
  then have i: "i < n" by simp
  show "le_bytes n (of_le_bytes bs :: 'a word) ! i = bs ! i"
  proof (rule bit_word_eqI)
    fix k assume "k < LENGTH(8)"
    then have k: "k < 8" by simp
    then have "8 * i + k < LENGTH('a)" using assms(2) i by linarith
    with k i assms(1) show "bit (le_bytes n (of_le_bytes bs :: 'a word) ! i) k = bit (bs ! i) k"
      by (simp add: le_bytes_nth bit_simps bit_of_le_bytes)
  qed
qed

lemma of_le_bytes_inj:
  assumes "of_le_bytes xs = (of_le_bytes ys :: 'a::len word)"
    and "length xs = n" "length ys = n" "8 * n \<le> LENGTH('a)"
  shows "xs = ys"
  by (metis assms le_bytes_of_le_bytes)

lemma of_be_bytes_be_bytes:
  "LENGTH('a) \<le> 8 * n \<Longrightarrow> of_be_bytes (be_bytes n w) = w" for w :: "'a::len word"
  by (simp add: of_be_bytes_def be_bytes_def of_le_bytes_le_bytes)

lemma be_bytes_of_be_bytes:
  "length bs = n \<Longrightarrow> 8 * n \<le> LENGTH('a) \<Longrightarrow> be_bytes n (of_be_bytes bs :: 'a::len word) = bs"
  by (simp add: of_be_bytes_def be_bytes_def le_bytes_of_le_bytes)

lemma le_bytes_inj:
  "LENGTH('a) \<le> 8 * n \<Longrightarrow> le_bytes n v = le_bytes n w \<longleftrightarrow> v = w" for v w :: "'a::len word"
  by (metis of_le_bytes_le_bytes)

section \<open>Slices\<close>

text \<open>
  \<open>get_range xs a b\<close> is \<open>xs.get(a..b)\<close>; \<open>copy_at xs off ys\<close> is
  \<open>xs[off..off + ys.len()].copy_from_slice(ys)\<close> for a range inside \<open>xs\<close>.
\<close>

definition get_range :: "'a list \<Rightarrow> nat \<Rightarrow> nat \<Rightarrow> 'a list option" where
  [rust_defs]: "get_range xs a b = (if a \<le> b \<and> b \<le> length xs then Some (take (b - a) (drop a xs)) else None)"

definition copy_at :: "'a list \<Rightarrow> nat \<Rightarrow> 'a list \<Rightarrow> 'a list" where
  [rust_defs]: "copy_at xs off ys = take off xs @ ys @ drop (off + length ys) xs"

lemma length_copy_at [simp, rust_len]:
  "off + length ys \<le> length xs \<Longrightarrow> length (copy_at xs off ys) = length xs"
  by (simp add: copy_at_def)

lemma nth_copy_at:
  "off + length ys \<le> length xs \<Longrightarrow> i < length xs \<Longrightarrow>
   copy_at xs off ys ! i = (if off \<le> i \<and> i < off + length ys then ys ! (i - off) else xs ! i)"
  by (auto simp: copy_at_def nth_append)

lemma take_drop_copy_at_same:
  "off + length ys \<le> length xs \<Longrightarrow> take (length ys) (drop off (copy_at xs off ys)) = ys"
  by (simp add: copy_at_def)

lemma take_drop_copy_at_other:
  assumes "off + length ys \<le> length xs" and "a + n \<le> off \<or> off + length ys \<le> a"
  shows "take n (drop a (copy_at xs off ys)) = take n (drop a xs)"
  by (rule nth_equalityI) (use assms in \<open>auto simp: nth_copy_at\<close>)

lemma take_drop_eq_map_nth:
  "a + n \<le> length xs \<Longrightarrow> take n (drop a xs) = map (\<lambda>i. xs ! (a + i)) [0..<n]"
  by (rule nth_equalityI) auto

lemma length_le_1_cases: "length xs \<le> 1 \<Longrightarrow> xs = [] \<or> (\<exists>x. xs = [x])"
  by (cases xs) auto

end
