(* ===== verification/Rust_Fmt.thy ===== *)
theory Rust_Fmt
  imports Hitz_Prelude
begin

text \<open>
  Integer formatting and parsing of the Rust core library, as far as the sources use it:
  \<open>{}\<close>, \<open>{:x}\<close>, \<open>{:#x}\<close> and \<open>{:08x}\<close> on unsigned integers, \<open>u8::from_str_radix\<close>, \<open>str::parse::<u8>\<close>
  and \<open>str::split\<close> on an ASCII separator. Strings are their UTF-8 bytes, as \<open>char\<close> lists.
\<close>

definition digit_char :: "nat \<Rightarrow> char" where
  "digit_char d = (if d < 10 then char_of (48 + d) else char_of (87 + d))"

fun show_radix :: "nat \<Rightarrow> nat \<Rightarrow> string" where
  "show_radix r n =
     (if n < r \<or> r < 2 then [digit_char n] else show_radix r (n div r) @ [digit_char (n mod r)])"

declare show_radix.simps [simp del]

definition show_dec :: "nat \<Rightarrow> string" where
  [rust_defs]: "show_dec n = show_radix 10 n"

definition show_hex :: "nat \<Rightarrow> string" where
  [rust_defs]: "show_hex n = show_radix 16 n"

definition show_hex_alt :: "nat \<Rightarrow> string" where
  [rust_defs]: "show_hex_alt n = ''0x'' @ show_hex n"

definition pad_zero :: "nat \<Rightarrow> string \<Rightarrow> string" where
  [rust_defs]: "pad_zero w s = replicate (w - length s) (CHR ''0'') @ s"

definition ascii_bytes :: "string \<Rightarrow> bytes" where
  [rust_defs]: "ascii_bytes s = map (\<lambda>c. of_nat (of_char c)) s"

lemma length_ascii_bytes [simp, rust_len]: "length (ascii_bytes s) = length s"
  by (simp add: ascii_bytes_def)

section \<open>Digits\<close>

text \<open>The value of an ASCII digit in the given radix; letters in either case.\<close>

definition digit_val :: "nat \<Rightarrow> char \<Rightarrow> nat option" where
  "digit_val r c =
     (let k = of_char c :: nat;
          v = (if 48 \<le> k \<and> k \<le> 57 then Some (k - 48)
               else if 97 \<le> k \<and> k \<le> 122 then Some (k - 87)
               else if 65 \<le> k \<and> k \<le> 90 then Some (k - 55) else None) in
      case v of Some d \<Rightarrow> if d < r then Some d else None | None \<Rightarrow> None)"

fun parse_digits :: "nat \<Rightarrow> nat \<Rightarrow> nat \<Rightarrow> string \<Rightarrow> nat option" where
  "parse_digits r bnd acc [] = Some acc"
| "parse_digits r bnd acc (c # cs) =
     (case digit_val r c of
        None \<Rightarrow> None
      | Some d \<Rightarrow> if acc * r + d < bnd then parse_digits r bnd (acc * r + d) cs else None)"

text \<open>
  \<open>from_str_radix\<close> of an unsigned type with values below \<open>bnd\<close>: an empty string or a lone sign is an
  error, one leading plus sign is skipped, every other character is a digit and the value fits.
\<close>

definition from_str_radix :: "nat \<Rightarrow> nat \<Rightarrow> string \<Rightarrow> nat option" where
  "from_str_radix r bnd s =
     (case s of
        [] \<Rightarrow> None
      | c # cs \<Rightarrow> if c = CHR ''+'' then (if cs = [] then None else parse_digits r bnd 0 cs)
                  else parse_digits r bnd 0 s)"

fun split_on :: "char \<Rightarrow> string \<Rightarrow> string list" where
  "split_on c [] = [[]]"
| "split_on c (x # xs) =
     (if x = c then [] # split_on c xs
      else (case split_on c xs of [] \<Rightarrow> [[x]] | p # ps \<Rightarrow> (x # p) # ps))"

lemma digit_val_digit_char:
  assumes "d < r" "r \<le> 16"
  shows "digit_val r (digit_char d) = Some d"
proof (cases "d < 10")
  case True
  then have "of_char (digit_char d) = (48 + d :: nat)"
    by (simp add: digit_char_def)
  with True assms show ?thesis by (simp add: digit_val_def)
next
  case False
  then have "of_char (digit_char d) = (87 + d :: nat)"
    using assms by (simp add: digit_char_def)
  with False assms show ?thesis by (simp add: digit_val_def)
qed

lemma parse_digits_append:
  "parse_digits r bnd acc (xs @ ys) =
     (case parse_digits r bnd acc xs of None \<Rightarrow> None | Some a \<Rightarrow> parse_digits r bnd a ys)"
  by (induction xs arbitrary: acc) (auto split: option.splits)

lemma parse_digits_show_radix:
  assumes "1 < r" "r \<le> 16" "n < bnd"
  shows "parse_digits r bnd 0 (show_radix r n) = Some n"
  using assms
proof (induction r n rule: show_radix.induct)
  case (1 r n)
  show ?case
  proof (cases "n < r")
    case True
    with "1.prems" show ?thesis
      by (simp add: show_radix.simps digit_val_digit_char)
  next
    case False
    have "n div r < bnd" using "1.prems" by (meson div_le_dividend le_less_trans)
    with "1.IH" False "1.prems" have "parse_digits r bnd 0 (show_radix r (n div r)) = Some (n div r)"
      by simp
    moreover have "n div r * r + n mod r = n" by simp
    ultimately show ?thesis using False "1.prems"
      by (subst show_radix.simps) (simp add: parse_digits_append digit_val_digit_char)
  qed
qed

lemma show_radix_ne_Nil [simp]: "show_radix r n \<noteq> []"
  by (subst show_radix.simps) simp

lemma show_radix_hd_not_plus:
  assumes "1 < r" "r \<le> 16"
  shows "hd (show_radix r n) \<noteq> CHR ''+''"
  using assms
proof (induction r n rule: show_radix.induct)
  case (1 r n)
  have "digit_char d \<noteq> CHR ''+''" if "d < r" for d
  proof
    assume "digit_char d = CHR ''+''"
    moreover have "digit_val r (digit_char d) = Some d"
      using that "1.prems" by (simp add: digit_val_digit_char)
    ultimately show False by (simp add: digit_val_def)
  qed
  with 1 show ?case by (subst show_radix.simps) simp
qed

lemma from_str_radix_show:
  "1 < r \<Longrightarrow> r \<le> 16 \<Longrightarrow> n < bnd \<Longrightarrow> from_str_radix r bnd (show_radix r n) = Some n"
  using show_radix_hd_not_plus [of r n] parse_digits_show_radix [of r n bnd]
  by (cases "show_radix r n") (auto simp: from_str_radix_def)

lemma length_show_radix_le:
  "1 < r \<Longrightarrow> n < r ^ k \<Longrightarrow> 0 < k \<Longrightarrow> length (show_radix r n) \<le> k"
proof (induction k arbitrary: n)
  case (Suc k)
  show ?case
  proof (cases "n < r")
    case True
    then show ?thesis by (simp add: show_radix.simps)
  next
    case False
    then have "k \<noteq> 0" using Suc.prems(2) by (metis power_one_right One_nat_def)
    moreover have "n div r < r ^ k"
      using Suc.prems by (simp add: less_mult_imp_div_less mult.commute)
    ultimately show ?thesis using Suc.IH [of "n div r"] Suc.prems False
      by (subst show_radix.simps) simp
  qed
qed simp

lemma length_pad_zero: "length s \<le> w \<Longrightarrow> length (pad_zero w s) = w"
  by (simp add: pad_zero_def)

lemma parse_digits_zeros: "0 < bnd \<Longrightarrow> 1 < r \<Longrightarrow> parse_digits r bnd 0 (replicate k (CHR ''0'')) = Some 0"
  by (induction k) (auto simp: digit_val_def)

lemma parse_pad_zero:
  "1 < r \<Longrightarrow> r \<le> 16 \<Longrightarrow> n < bnd \<Longrightarrow> parse_digits r bnd 0 (pad_zero w (show_radix r n)) = Some n"
  by (simp add: pad_zero_def parse_digits_append parse_digits_zeros parse_digits_show_radix)

lemma split_on_ne_Nil [simp]: "split_on c xs \<noteq> []"
  by (induction xs) (auto split: list.splits)

lemma split_on_append_sep:
  "c \<notin> set p \<Longrightarrow> split_on c (p @ c # ys) = p # split_on c ys"
  by (induction p) auto

lemma split_on_no_sep: "c \<notin> set p \<Longrightarrow> split_on c p = [p]"
  by (induction p) auto

end
