(* ===== verification/Hal_Types.thy ===== *)
theory Hal_Types
  imports Rust_Fmt
begin

text \<open>
  The hardware abstraction layer \<open>hitz-hal\<close>: the error type and its messages, the newtypes'
  arithmetic (\<open>Gpa\<close>, \<open>MemSizeMiB\<close>, \<open>MacAddress\<close>), the register files, the vCPU exit records, and the
  trait \<open>GuestMemAccess\<close> through which every device reaches guest memory. The trait is a record of
  operations (a trait object), its contract is the locale \<open>guest_mem\<close>.
\<close>

section \<open>Errors\<close>

datatype HalError =
    CreatePartition string
  | SetupPartition string
  | MapMemory u64 nat string
  | UnmapMemory u64 string
  | CreateVcpu u32 string
  | VcpuRun string
  | VcpuCancel string
  | RegisterAccess string
  | InterruptRequest string
  | GuestMem u64 string
  | InjectInterrupt string
  | NotAvailable string
  | Platform u32 string

fun hal_error_to_string :: "HalError \<Rightarrow> string" where
  "hal_error_to_string (CreatePartition s) = ''failed to create partition: '' @ s"
| "hal_error_to_string (SetupPartition s) = ''failed to set partition property: '' @ s"
| "hal_error_to_string (MapMemory gpa n s) =
     ''failed to map guest memory at GPA '' @ show_hex_alt (unat gpa) @ '', size '' @ show_hex_alt n @ '': '' @ s"
| "hal_error_to_string (UnmapMemory gpa s) =
     ''failed to unmap guest memory at GPA '' @ show_hex_alt (unat gpa) @ '': '' @ s"
| "hal_error_to_string (CreateVcpu i s) = ''failed to create vCPU '' @ show_dec (unat i) @ '': '' @ s"
| "hal_error_to_string (VcpuRun s) = ''vCPU run failed: '' @ s"
| "hal_error_to_string (VcpuCancel s) = ''failed to cancel vCPU: '' @ s"
| "hal_error_to_string (RegisterAccess s) = ''register access failed: '' @ s"
| "hal_error_to_string (InterruptRequest s) = ''interrupt request failed: '' @ s"
| "hal_error_to_string (GuestMem gpa s) = ''guest memory access at GPA '' @ show_hex_alt (unat gpa) @ '': '' @ s"
| "hal_error_to_string (InjectInterrupt s) = ''interrupt injection failed: '' @ s"
| "hal_error_to_string (NotAvailable s) = ''hypervisor not available: '' @ s"
| "hal_error_to_string (Platform c s) = ''platform error (code '' @ show_hex_alt (unat c) @ ''): '' @ s"

section \<open>Newtypes\<close>

text \<open>
  \<open>Gpa\<close> and the other newtypes wrap one integer; the model uses the integer itself and keeps their
  operations. \<open>offset\<close> and \<open>as_bytes\<close> use plain operators, which panic on overflow in a checked build.
\<close>

definition gpa_offset :: "u64 \<Rightarrow> u64 \<Rightarrow> u64 option" where
  "gpa_offset a n = checked_add a n"

definition page_base :: "u64 \<Rightarrow> u64" where
  "page_base a = a AND NOT 0xFFF"

definition page_offset :: "u64 \<Rightarrow> u64" where
  "page_offset a = a AND 0xFFF"

definition mem_size_as_bytes :: "u64 \<Rightarrow> u64 option" where
  "mem_size_as_bytes mib =
     (case checked_mul mib 1024 of None \<Rightarrow> None | Some k \<Rightarrow> checked_mul k 1024)"

lemma and_not_plus_and: "(a AND NOT c) + (a AND c) = a" for a c :: "'a::len word"
proof -
  have "(a AND NOT c) + (a AND c) = (a AND NOT c) OR (a AND c)"
    by (rule disjunctive_add_eq_or) (auto simp: bit_eq_iff bit_simps)
  also have "\<dots> = a"
    by (auto simp: bit_eq_iff bit_simps)
  finally show ?thesis .
qed

lemma page_base_offset: "page_base a + page_offset a = a"
  unfolding page_base_def page_offset_def by (rule and_not_plus_and)

section \<open>Registers and exits\<close>

record StandardRegs =
  rip :: u64
  rflags :: u64
  rax :: u64
  rbx :: u64
  rcx :: u64
  rdx :: u64
  rsi :: u64
  rdi :: u64
  rsp :: u64
  rbp :: u64
  r8 :: u64
  r9 :: u64
  r10 :: u64
  r11 :: u64
  r12 :: u64
  r13 :: u64
  r14 :: u64
  r15 :: u64

definition standard_regs_default :: StandardRegs where
  "standard_regs_default = \<lparr>rip = 0, rflags = 0, rax = 0, rbx = 0, rcx = 0, rdx = 0, rsi = 0, rdi = 0,
     rsp = 0, rbp = 0, r8 = 0, r9 = 0, r10 = 0, r11 = 0, r12 = 0, r13 = 0, r14 = 0, r15 = 0\<rparr>"

record SegmentDescriptor =
  seg_base :: u64
  seg_limit :: u32
  seg_selector :: u16
  seg_type :: u8
  seg_present :: u8
  seg_dpl :: u8
  seg_db :: u8
  seg_granularity :: u8
  seg_long_mode :: u8
  seg_s :: u8

record DescriptorTable =
  dt_base :: u64
  dt_limit :: u16

record SpecialRegs =
  cr0 :: u64
  cr3 :: u64
  cr4 :: u64
  efer :: u64
  seg_cs :: SegmentDescriptor
  seg_ds :: SegmentDescriptor
  seg_es :: SegmentDescriptor
  seg_fs :: SegmentDescriptor
  seg_gs :: SegmentDescriptor
  seg_ss :: SegmentDescriptor
  seg_tr :: SegmentDescriptor
  seg_ldt :: SegmentDescriptor
  dt_gdt :: DescriptorTable
  dt_idt :: DescriptorTable

text \<open>The array fields \<open>data: [u8; 8]\<close>, \<open>instruction_bytes: [u8; 16]\<close> and \<open>data: [u8; 4]\<close> are byte lists of
  that length.\<close>

record MmioExit =
  mmio_gpa :: u64
  mmio_data :: bytes
  mmio_len :: u8
  mmio_is_write :: bool
  mmio_instruction_len :: u8
  mmio_instruction_bytes :: bytes
  mmio_instruction_byte_count :: u8

record IoPortExit =
  io_port :: u16
  io_data :: bytes
  io_len :: u8
  io_is_write :: bool
  io_instruction_len :: u8

datatype VcpuExit =
    ExitMmio MmioExit
  | ExitIoPort IoPortExit
  | ExitHalt
  | ExitInterruptWindow
  | ExitCanceled
  | ExitShutdown
  | ExitUnknown u32

section \<open>Guest memory access\<close>

text \<open>
  A \<open>&dyn GuestMemAccess\<close> over memories of type \<open>'m\<close>. \<open>read_guest M m a n\<close> fills a buffer of \<open>n\<close> bytes;
  \<open>write_guest\<close> takes \<open>&self\<close> but changes the memory behind it, so the model returns the new memory.
\<close>

record 'm GuestMemAccess =
  read_guest :: "'m \<Rightarrow> u64 \<Rightarrow> nat \<Rightarrow> HalError + bytes"
  write_guest :: "'m \<Rightarrow> u64 \<Rightarrow> bytes \<Rightarrow> HalError + 'm"

text \<open>Writing and dropping the result (\<open>let _ = mem.write_guest(..)\<close>).\<close>

definition write_guest_ignore :: "'m GuestMemAccess \<Rightarrow> 'm \<Rightarrow> u64 \<Rightarrow> bytes \<Rightarrow> 'm" where
  "write_guest_ignore M m a bs = (case write_guest M m a bs of Inl e \<Rightarrow> m | Inr m' \<Rightarrow> m')"

text \<open>
  The contract: \<open>mapped m a n\<close> says that the \<open>n\<close> bytes from \<open>a\<close> on are backed, \<open>byte_at\<close> gives their
  contents. A read returns the contents, a write replaces exactly the bytes it covers, neither
  changes what is mapped, and an access that is not mapped fails.
\<close>

locale guest_mem =
  fixes M :: "'m GuestMemAccess"
    and minv :: "'m \<Rightarrow> bool"
    and mapped :: "'m \<Rightarrow> u64 \<Rightarrow> nat \<Rightarrow> bool"
    and byte_at :: "'m \<Rightarrow> u64 \<Rightarrow> u8"
  assumes mapped_bound: "minv m \<Longrightarrow> mapped m a n \<Longrightarrow> 0 < n \<Longrightarrow> unat a + n < 2 ^ 64"
    and mapped_part: "minv m \<Longrightarrow> mapped m a n \<Longrightarrow> i + k \<le> n \<Longrightarrow> mapped m (a + of_nat i) k"
    and read_mapped: "minv m \<Longrightarrow> mapped m a n \<Longrightarrow>
          read_guest M m a n = Inr (map (\<lambda>i. byte_at m (a + of_nat i)) [0..<n])"
    and read_unmapped: "minv m \<Longrightarrow> \<not> mapped m a n \<Longrightarrow> \<exists>e. read_guest M m a n = Inl e"
    and write_mapped: "minv m \<Longrightarrow> mapped m a (length bs) \<Longrightarrow>
          \<exists>m'. write_guest M m a bs = Inr m' \<and> minv m' \<and> mapped m' = mapped m \<and>
            (\<forall>x. byte_at m' x =
               (if unat a \<le> unat x \<and> unat x < unat a + length bs then bs ! (unat x - unat a) else byte_at m x))"
    and write_unmapped: "minv m \<Longrightarrow> \<not> mapped m a (length bs) \<Longrightarrow> \<exists>e. write_guest M m a bs = Inl e"
begin

lemma mapped_zero: "minv m \<Longrightarrow> mapped m a n \<Longrightarrow> mapped m a 0"
  using mapped_part [of m a n 0 0] by simp

lemma read_Inr_iff:
  "minv m \<Longrightarrow> read_guest M m a n = Inr bs \<longleftrightarrow>
     mapped m a n \<and> bs = map (\<lambda>i. byte_at m (a + of_nat i)) [0..<n]"
  using read_mapped read_unmapped by (cases "mapped m a n") fastforce+

lemma read_length: "minv m \<Longrightarrow> read_guest M m a n = Inr bs \<Longrightarrow> length bs = n"
  by (simp add: read_Inr_iff)

lemma write_Inr:
  assumes "minv m" "write_guest M m a bs = Inr m'"
  shows "minv m'" "mapped m' = mapped m" "mapped m a (length bs)"
    "byte_at m' x = (if unat a \<le> unat x \<and> unat x < unat a + length bs then bs ! (unat x - unat a) else byte_at m x)"
  using write_mapped [OF assms(1), of a bs] write_unmapped [OF assms(1), of a bs] assms(2)
  by (cases "mapped m a (length bs)"; force)+

lemma write_ignore_keeps:
  assumes "minv m"
  shows "minv (write_guest_ignore M m a bs)" "mapped (write_guest_ignore M m a bs) = mapped m"
  using write_Inr [OF assms, of a bs] assms
  by (auto simp: write_guest_ignore_def split: sum.splits)

lemma byte_at_write_ignore:
  assumes "minv m"
  shows "byte_at (write_guest_ignore M m a bs) x =
    (if mapped m a (length bs) \<and> unat a \<le> unat x \<and> unat x < unat a + length bs
     then bs ! (unat x - unat a) else byte_at m x)"
  using write_mapped [OF assms, of a bs] write_unmapped [OF assms, of a bs]
  by (cases "mapped m a (length bs)") (auto simp: write_guest_ignore_def)

text \<open>Reading back what was written, and reading beside it.\<close>

lemma unat_offset:
  assumes "minv m" "mapped m a n" "i < n"
  shows "unat (a + of_nat i) = unat a + i"
proof -
  have "unat a + n < 2 ^ 64" using mapped_bound assms by force
  with assms(3) show ?thesis by (subst unat_add_nowrap) simp_all
qed

lemma read_after_write:
  assumes "minv m" "write_guest M m a bs = Inr m'"
  shows "read_guest M m' a (length bs) = Inr bs"
proof -
  note w = write_Inr [OF assms]
  have "map (\<lambda>i. byte_at m' (a + of_nat i)) [0..<length bs] = bs"
    by (rule nth_equalityI) (auto simp: w(4) unat_offset [OF assms(1) w(3)])
  then show ?thesis using w by (simp add: read_mapped)
qed

lemma read_beside_write:
  assumes "minv m" "write_guest M m a bs = Inr m'" "mapped m x n"
    and "unat x + n \<le> unat a \<or> unat a + length bs \<le> unat x"
  shows "read_guest M m' x n = read_guest M m x n"
proof -
  note w = write_Inr [OF assms(1,2)]
  have "map (\<lambda>i. byte_at m' (x + of_nat i)) [0..<n] = map (\<lambda>i. byte_at m (x + of_nat i)) [0..<n]"
    using assms(4) by (auto simp: w(4) unat_offset [OF assms(1,3)])
  with w assms(1,3) show ?thesis by (simp add: read_mapped)
qed

lemma read_beside_write_ignore:
  assumes "minv m" "mapped m x n" "unat x + n \<le> unat a \<or> unat a + length bs \<le> unat x"
  shows "read_guest M (write_guest_ignore M m a bs) x n = read_guest M m x n"
proof (cases "write_guest M m a bs")
  case (Inr m')
  with read_beside_write [OF assms(1) Inr assms(2,3)] show ?thesis
    by (simp add: write_guest_ignore_def)
qed (simp add: write_guest_ignore_def)

end

end
