(* ===== verification/Boot_Types.thy ===== *)
theory Boot_Types
  imports Hal_Types
begin

text \<open>
  Shared types of the boot crate \<open>hitz-boot\<close>: its errors with their messages, the chunks written into
  guest memory, and the trait \<open>GuestMemWriter\<close> through which the loaders reach guest memory, with its
  contract \<open>mem_writer\<close>. The guest memory of the VMM provides the trait.
\<close>

datatype BootError =
    InvalidElf string
  | LoadSegment u64 nat string
  | WriteFailed string
  | InvalidBootParams string
  | InvalidPageTableConfig string

fun boot_error_to_string :: "BootError \<Rightarrow> string" where
  "boot_error_to_string (InvalidElf s) = ''invalid ELF: '' @ s"
| "boot_error_to_string (LoadSegment gpa n reason) =
     ''failed to load segment at GPA '' @ show_hex_alt (unat gpa) @ '', size '' @ show_dec n @ '': '' @ reason"
| "boot_error_to_string (WriteFailed s) = ''write to guest memory failed: '' @ s"
| "boot_error_to_string (InvalidBootParams s) = ''invalid boot params: '' @ s"
| "boot_error_to_string (InvalidPageTableConfig s) = ''invalid page table config: '' @ s"

record MemWrite =
  mw_gpa :: u64
  mw_data :: bytes

record 'm GuestMemWriter =
  write_bytes :: "'m \<Rightarrow> u64 \<Rightarrow> bytes \<Rightarrow> BootError + 'm"
  write_zeroes_at :: "'m \<Rightarrow> u64 \<Rightarrow> nat \<Rightarrow> BootError + 'm"

text \<open>A successful write replaces exactly the bytes it covers; filling with zeros is writing zeros.\<close>

locale mem_writer =
  fixes W :: "'m GuestMemWriter"
    and winv :: "'m \<Rightarrow> bool"
    and byte_at :: "'m \<Rightarrow> u64 \<Rightarrow> u8"
  assumes write_bytes_ok: "winv m \<Longrightarrow> write_bytes W m a bs = Inr m' \<Longrightarrow>
      winv m' \<and> unat a + length bs \<le> 2 ^ 64 \<and>
      (\<forall>x. byte_at m' x =
         (if unat a \<le> unat x \<and> unat x < unat a + length bs then bs ! (unat x - unat a) else byte_at m x))"
    and write_zeroes_ok: "winv m \<Longrightarrow> write_zeroes_at W m a n = Inr m' \<Longrightarrow>
      winv m' \<and> unat a + n \<le> 2 ^ 64 \<and>
      (\<forall>x. byte_at m' x = (if unat a \<le> unat x \<and> unat x < unat a + n then 0 else byte_at m x))"

end
