(* ===== verification/Rust_Search.thy ===== *)
theory Rust_Search
  imports Hitz_Prelude
begin

text \<open>
  The two search routines of Rust's slice type that the sources rely on: \<open>binary_search_by\<close>
  (guest memory regions) and \<open>partition_point\<close> (the MMIO bus). The loop is the one of the standard
  library: it halves \<open>sz\<close> and moves \<open>base\<close> up unless the probe compares \<open>Greater\<close>. The lemmas state
  what the library documents for a slice that is ordered with respect to the comparator.
\<close>

datatype ordering = Less | Equal | Greater

fun ordering_rank :: "ordering \<Rightarrow> nat" where
  "ordering_rank Less = 0"
| "ordering_rank Equal = 1"
| "ordering_rank Greater = 2"

lemma ordering_rank_simps [simp]:
  "ordering_rank c = 0 \<longleftrightarrow> c = Less" "2 \<le> ordering_rank c \<longleftrightarrow> c = Greater"
  "ordering_rank c = Suc 0 \<longleftrightarrow> c = Equal" "ordering_rank c \<le> 2"
  by (cases c; simp)+

function search_base :: "('a \<Rightarrow> ordering) \<Rightarrow> 'a list \<Rightarrow> nat \<Rightarrow> nat \<Rightarrow> nat" where
  "search_base f xs base sz =
     (if 1 < sz then
        let half = sz div 2; mid = base + half in
        search_base f xs (if f (xs ! mid) = Greater then base else mid) (sz - half)
      else base)"
  by pat_completeness auto
termination
  by (relation "measure (\<lambda>(f, xs, base, sz). sz)") auto

declare search_base.simps [simp del]

text \<open>\<open>Inr i\<close> is \<open>Ok(i)\<close>, \<open>Inl i\<close> is \<open>Err(i)\<close>.\<close>

definition binary_search_by :: "('a \<Rightarrow> ordering) \<Rightarrow> 'a list \<Rightarrow> nat + nat" where
  "binary_search_by f xs =
     (if xs = [] then Inl 0
      else let base = search_base f xs 0 (length xs); cmp = f (xs ! base) in
        if cmp = Equal then Inr base else Inl (base + (if cmp = Less then 1 else 0)))"

definition partition_point :: "('a \<Rightarrow> bool) \<Rightarrow> 'a list \<Rightarrow> nat" where
  "partition_point p xs =
     (case binary_search_by (\<lambda>x. if p x then Less else Greater) xs of Inl i \<Rightarrow> i | Inr i \<Rightarrow> i)"

text \<open>A slice is ordered for \<open>f\<close> when \<open>f\<close> goes from \<open>Less\<close> over \<open>Equal\<close> to \<open>Greater\<close> along it.\<close>

definition ordered_for :: "('a \<Rightarrow> ordering) \<Rightarrow> 'a list \<Rightarrow> bool" where
  "ordered_for f xs = sorted (map (\<lambda>x. ordering_rank (f x)) xs)"

lemma ordered_forD:
  "ordered_for f xs \<Longrightarrow> i \<le> j \<Longrightarrow> j < length xs \<Longrightarrow>
   ordering_rank (f (xs ! i)) \<le> ordering_rank (f (xs ! j))"
  unfolding ordered_for_def by (auto simp: sorted_iff_nth_mono)

lemma search_base_bounds:
  "0 < sz \<Longrightarrow> base \<le> search_base f xs base sz \<and> search_base f xs base sz < base + sz"
proof (induction f xs base sz rule: search_base.induct)
  case (1 f xs base sz)
  show ?case
  proof (cases "1 < sz")
    case True
    with "1.IH" [OF True refl refl] show ?thesis
      by (subst (1 2) search_base.simps) (auto simp: Let_def split: if_splits)
  qed (use "1.prems" in \<open>auto simp: search_base.simps\<close>)
qed

text \<open>Past the position found every element compares \<open>Greater\<close>; the position itself does not unless
  it is where the search started.\<close>

lemma search_base_split:
  assumes "ordered_for f xs" "0 < sz" "base + sz \<le> length xs"
    and "\<And>j. base + sz \<le> j \<Longrightarrow> j < length xs \<Longrightarrow> f (xs ! j) = Greater"
  shows "(\<forall>j. search_base f xs base sz < j \<and> j < length xs \<longrightarrow> f (xs ! j) = Greater) \<and>
         (search_base f xs base sz = base \<or> f (xs ! search_base f xs base sz) \<noteq> Greater)"
  using assms
proof (induction f xs base sz rule: search_base.induct)
  case (1 f xs base sz)
  show ?case
  proof (cases "1 < sz")
    case True
    let ?mid = "base + sz div 2"
    have mid: "?mid < length xs" using True "1.prems"(3) by linarith
    show ?thesis
    proof (cases "f (xs ! ?mid) = Greater")
      case G: True
      have gt: "f (xs ! j) = Greater" if "base + (sz - sz div 2) \<le> j" "j < length xs" for j
      proof -
        have "?mid \<le> j" using that(1) by linarith
        then show ?thesis using ordered_forD [OF "1.prems"(1) _ that(2), of ?mid] G by simp
      qed
      from "1.IH" [OF True refl refl] "1.prems" True G gt show ?thesis
        by (subst (1 2 3) search_base.simps) (simp add: Let_def)
    next
      case NG: False
      have "search_base f xs ?mid (sz - sz div 2) = ?mid \<longrightarrow>
            f (xs ! search_base f xs ?mid (sz - sz div 2)) \<noteq> Greater"
        using NG by simp
      with "1.IH" [OF True refl refl] "1.prems" True NG show ?thesis
        by (subst (1 2 3) search_base.simps) (auto simp: Let_def)
    qed
  next
    case False
    with "1.prems" have "sz = 1" by simp
    with "1.prems"(4) show ?thesis by (subst (1 2 3) search_base.simps) simp
  qed
qed

lemma binary_search_by_cases:
  assumes "ordered_for f xs"
  shows "case binary_search_by f xs of
           Inr i \<Rightarrow> i < length xs \<and> f (xs ! i) = Equal
         | Inl i \<Rightarrow> i \<le> length xs \<and> (\<forall>j<i. f (xs ! j) = Less) \<and>
                     (\<forall>j. i \<le> j \<and> j < length xs \<longrightarrow> f (xs ! j) = Greater)"
proof (cases "xs = []")
  case False
  define b where "b = search_base f xs 0 (length xs)"
  have b: "b < length xs"
    using search_base_bounds [of "length xs" 0 f xs] False by (simp add: b_def)
  have after: "\<And>j. b < j \<Longrightarrow> j < length xs \<Longrightarrow> f (xs ! j) = Greater"
    and at: "b = 0 \<or> f (xs ! b) \<noteq> Greater"
    using search_base_split [OF assms, of "length xs" 0] False by (auto simp: b_def)
  have before: "f (xs ! j) = Less" if "f (xs ! b) = Less" "j \<le> b" for j
    using ordered_forD [OF assms that(2) b] that(1) by simp
  show ?thesis
  proof (cases "f (xs ! b)")
    case Less
    then show ?thesis using False b after before
      by (auto simp: binary_search_by_def b_def [symmetric] Let_def less_Suc_eq_le)
  next
    case Equal
    then show ?thesis using False b by (simp add: binary_search_by_def b_def [symmetric])
  next
    case Greater
    with at have "b = 0" by simp
    with Greater after have "\<forall>j<length xs. f (xs ! j) = Greater" by (metis gr0I)
    with Greater False \<open>b = 0\<close> show ?thesis
      by (auto simp: binary_search_by_def b_def [symmetric])
  qed
qed (simp add: binary_search_by_def)

lemma binary_search_by_Inr:
  "ordered_for f xs \<Longrightarrow> binary_search_by f xs = Inr i \<Longrightarrow> i < length xs \<and> f (xs ! i) = Equal"
  using binary_search_by_cases [of f xs] by simp

lemma binary_search_by_Inl:
  assumes "ordered_for f xs" "binary_search_by f xs = Inl i"
  shows "i \<le> length xs" "j < i \<Longrightarrow> f (xs ! j) = Less"
    "i \<le> j \<Longrightarrow> j < length xs \<Longrightarrow> f (xs ! j) = Greater"
  using binary_search_by_cases [OF assms(1)] assms(2) by simp_all

lemma binary_search_by_Inl_no_match:
  "ordered_for f xs \<Longrightarrow> binary_search_by f xs = Inl i \<Longrightarrow> x \<in> set xs \<Longrightarrow> f x \<noteq> Equal"
  by (metis binary_search_by_Inl(2,3) in_set_conv_nth le_less_linear ordering.distinct(1,5))

lemma partition_point_split:
  assumes "sorted_wrt (\<lambda>x y. p y \<longrightarrow> p x) xs"
  shows "partition_point p xs \<le> length xs"
    and "j < partition_point p xs \<Longrightarrow> p (xs ! j)"
    and "partition_point p xs \<le> j \<Longrightarrow> j < length xs \<Longrightarrow> \<not> p (xs ! j)"
proof -
  let ?f = "\<lambda>x. if p x then Less else Greater"
  have ord: "ordered_for ?f xs"
    using assms unfolding ordered_for_def by (auto simp: sorted_wrt_map elim: sorted_wrt_mono_rel [rotated])
  obtain i where i: "binary_search_by ?f xs = Inl i"
    using binary_search_by_Inr [OF ord] by (cases "binary_search_by ?f xs") (fastforce split: if_splits)+
  note facts = binary_search_by_Inl [OF ord i]
  show "partition_point p xs \<le> length xs"
    using facts(1) i by (simp add: partition_point_def)
  show "j < partition_point p xs \<Longrightarrow> p (xs ! j)"
    using facts(2) [of j] i by (simp add: partition_point_def split: if_splits)
  show "partition_point p xs \<le> j \<Longrightarrow> j < length xs \<Longrightarrow> \<not> p (xs ! j)"
    using facts(3) [of j] i by (auto simp: partition_point_def split: if_splits)
qed

end
