(* ===== verification/Guest_Memory.thy ===== *)
theory Guest_Memory
  imports Hal_Types Rust_Search
begin

text \<open>
  Guest physical memory, \<open>hitz-vmm/src/memory.rs\<close>: a list of host blocks, each mapped at a guest
  physical address, kept sorted and disjoint by \<open>add_region\<close>; address resolution by binary search
  (\<open>find_region\<close>) and the byte-level accessors on top of it. A region's host pointer stands for the
  block it owns, so the model stores the block's bytes in the region and a resolved pointer is the
  pair of region index and offset. The operating system's allocator is a parameter \<open>valloc\<close>.

  \<open>gm_inv\<close> is the well-formedness invariant; \<open>gm_mapped\<close> and \<open>gm_byte\<close> are the abstract memory, a
  partial byte map. The interpretation \<open>gm\<close> shows that \<open>GuestMemory\<close> implements the contract
  \<open>guest_mem\<close> of the trait \<open>GuestMemAccess\<close>.
\<close>

section \<open>Model\<close>

datatype MemError =
    InvalidSize u64 nat
  | AllocFailed u64 nat
  | NotMapped u64 nat
  | OutOfBounds u64 nat
  | MemHal HalError

fun mem_error_to_string :: "MemError \<Rightarrow> string" where
  "mem_error_to_string (InvalidSize gpa n) =
     ''invalid size '' @ show_dec n @ '' bytes at GPA '' @ show_hex_alt (unat gpa)"
| "mem_error_to_string (AllocFailed gpa n) =
     ''allocation failed for '' @ show_dec n @ '' bytes at GPA '' @ show_hex_alt (unat gpa)"
| "mem_error_to_string (NotMapped gpa n) =
     ''GPA '' @ show_hex_alt (unat gpa) @ '' + '' @ show_dec n @ '' bytes is not mapped''"
| "mem_error_to_string (OutOfBounds gpa n) =
     ''GPA '' @ show_hex_alt (unat gpa) @ '' + '' @ show_dec n @ '' overflows region boundary''"
| "mem_error_to_string (MemHal e) = ''HAL error: '' @ hal_error_to_string e"

record GuestRegion =
  gpa_start :: u64
  region_size :: nat
  region_block :: bytes

record GuestMemory =
  regions :: "GuestRegion list"

abbreviation region_end :: "GuestRegion \<Rightarrow> nat" where
  "region_end r \<equiv> unat (gpa_start r) + region_size r"

definition guest_memory_new :: GuestMemory where
  "guest_memory_new = \<lparr>regions = []\<rparr>"

text \<open>\<open>align_up\<close> on \<open>usize\<close>; \<open>align\<close> is a power of two. Sizes are \<open>usize\<close> values, below \<open>2 ^ 64\<close>.\<close>

definition align_up :: "nat \<Rightarrow> nat \<Rightarrow> nat option" where
  "align_up v align =
     (if v + (align - 1) < 2 ^ 64
      then Some (unat ((of_nat (v + (align - 1)) :: u64) AND NOT (of_nat (align - 1)))) else None)"

definition page_size :: nat where
  "page_size = 4096"

definition overlaps :: "u64 \<Rightarrow> u64 \<Rightarrow> GuestRegion \<Rightarrow> bool" where
  "overlaps gpa gpa_end existing =
     (let existing_end = saturating_add (gpa_start existing) (of_nat (region_size existing)) in
      gpa < existing_end \<and> gpa_start existing < gpa_end)"

definition key_ordering :: "u64 \<Rightarrow> u64 \<Rightarrow> ordering" where
  "key_ordering k s = (if s < k then Less else if s = k then Equal else Greater)"

definition insert_at :: "nat \<Rightarrow> 'a \<Rightarrow> 'a list \<Rightarrow> 'a list" where
  "insert_at i x xs = take i xs @ x # drop i xs"

text \<open>
  \<open>valloc n\<close> is \<open>virtual_alloc\<close>: a zeroed block of \<open>n\<close> bytes, or nothing. The four exits are the
  size overflow, the end-address overflow, an overlap with an existing region and a failed allocation.
\<close>

definition add_region :: "(nat \<Rightarrow> bytes option) \<Rightarrow> GuestMemory \<Rightarrow> u64 \<Rightarrow> nat \<Rightarrow> MemError + GuestMemory" where
  "add_region valloc m gpa sz =
     (case align_up sz page_size of
        None \<Rightarrow> Inl (InvalidSize gpa sz)
      | Some aligned_size \<Rightarrow>
          (case checked_add gpa (of_nat aligned_size) of
             None \<Rightarrow> Inl (InvalidSize gpa aligned_size)
           | Some gpa_end \<Rightarrow>
               if list_ex (overlaps gpa gpa_end) (regions m)
               then Inl (MemHal (MapMemory gpa aligned_size ''region overlaps with an existing memory region''))
               else (case valloc aligned_size of
                       None \<Rightarrow> Inl (AllocFailed gpa aligned_size)
                     | Some block \<Rightarrow>
                         let region = \<lparr>gpa_start = gpa, region_size = aligned_size, region_block = block\<rparr>;
                             pos = (case binary_search_by (\<lambda>r. key_ordering gpa (gpa_start r)) (regions m) of
                                      Inr i \<Rightarrow> i | Inl i \<Rightarrow> i) in
                         Inr (m\<lparr>regions := insert_at pos region (regions m)\<rparr>))))"

definition region_ordering :: "u64 \<Rightarrow> GuestRegion \<Rightarrow> ordering" where
  "region_ordering addr r =
     (let start = gpa_start r; stop = saturating_add start (of_nat (region_size r)) in
      if addr < start then Greater else if stop \<le> addr then Less else Equal)"

text \<open>
  The resolved pointer \<open>(idx, offset)\<close> and the bytes that remain in the region from there.
\<close>

definition find_region :: "GuestMemory \<Rightarrow> u64 \<Rightarrow> nat \<Rightarrow> MemError + ((nat \<times> nat) \<times> nat)" where
  "find_region m addr len =
     (if 2 ^ 64 \<le> unat addr + len then Inl (OutOfBounds addr len)
      else case binary_search_by (region_ordering addr) (regions m) of
             Inl i \<Rightarrow> Inl (NotMapped addr len)
           | Inr idx \<Rightarrow>
               let region = regions m ! idx; offset = unat (addr - gpa_start region) in
               if region_size region < offset then Inl (OutOfBounds addr len)
               else let remaining = region_size region - offset in
                    if remaining < len then Inl (OutOfBounds addr len)
                    else Inr ((idx, offset), remaining))"

definition gpa_to_hva :: "GuestMemory \<Rightarrow> u64 \<Rightarrow> (nat \<times> nat) option" where
  "gpa_to_hva m gpa = (case find_region m gpa 1 of Inl e \<Rightarrow> None | Inr (hva, remaining) \<Rightarrow> Some hva)"

definition write_block :: "GuestMemory \<Rightarrow> nat \<times> nat \<Rightarrow> bytes \<Rightarrow> GuestMemory" where
  "write_block m hva data =
     m\<lparr>regions := (regions m)[fst hva := (regions m ! fst hva)
        \<lparr>region_block := copy_at (region_block (regions m ! fst hva)) (snd hva) data\<rparr>]\<rparr>"

definition write_slice :: "GuestMemory \<Rightarrow> u64 \<Rightarrow> bytes \<Rightarrow> MemError + GuestMemory" where
  "write_slice m gpa data =
     (if data = [] then Inr m
      else case find_region m gpa (length data) of
             Inl e \<Rightarrow> Inl e
           | Inr (hva, remaining) \<Rightarrow> Inr (write_block m hva data))"

definition read_slice :: "GuestMemory \<Rightarrow> u64 \<Rightarrow> nat \<Rightarrow> MemError + bytes" where
  "read_slice m gpa len =
     (if len = 0 then Inr []
      else case find_region m gpa len of
             Inl e \<Rightarrow> Inl e
           | Inr (hva, remaining) \<Rightarrow>
               Inr (take len (drop (snd hva) (region_block (regions m ! fst hva)))))"

text \<open>The integer accessors use native byte order, which is little-endian on x86-64.\<close>

definition write_u64 :: "GuestMemory \<Rightarrow> u64 \<Rightarrow> u64 \<Rightarrow> MemError + GuestMemory" where
  "write_u64 m gpa v = write_slice m gpa (le_bytes 8 v)"

definition write_u32 :: "GuestMemory \<Rightarrow> u64 \<Rightarrow> u32 \<Rightarrow> MemError + GuestMemory" where
  "write_u32 m gpa v = write_slice m gpa (le_bytes 4 v)"

definition read_u64 :: "GuestMemory \<Rightarrow> u64 \<Rightarrow> MemError + u64" where
  "read_u64 m gpa = (case read_slice m gpa 8 of Inl e \<Rightarrow> Inl e | Inr buf \<Rightarrow> Inr (of_le_bytes buf))"

definition read_u32 :: "GuestMemory \<Rightarrow> u64 \<Rightarrow> MemError + u32" where
  "read_u32 m gpa = (case read_slice m gpa 4 of Inl e \<Rightarrow> Inl e | Inr buf \<Rightarrow> Inr (of_le_bytes buf))"

definition gm_access :: "GuestMemory GuestMemAccess" where
  "gm_access =
     \<lparr>read_guest = (\<lambda>m gpa len. map_err (\<lambda>e. GuestMem gpa (mem_error_to_string e)) (read_slice m gpa len)),
      write_guest = (\<lambda>m gpa data. map_err (\<lambda>e. GuestMem gpa (mem_error_to_string e)) (write_slice m gpa data))\<rparr>"

text \<open>\<open>write_zeroes\<close> of the boot crate's \<open>GuestMemWriter\<close>, in chunks of a page; an error leaves the chunks
  before it written.\<close>

definition chunk_size :: nat where
  "chunk_size = 4096"

function write_zeroes_slices :: "GuestMemory \<Rightarrow> u64 \<Rightarrow> nat \<Rightarrow> GuestMemory \<times> MemError option" where
  "write_zeroes_slices m gpa len =
     (if len = 0 then (m, None)
      else let chunk = min len chunk_size in
        case write_slice m gpa (replicate chunk 0) of
          Inl e \<Rightarrow> (m, Some e)
        | Inr m' \<Rightarrow> write_zeroes_slices m' (saturating_add gpa (of_nat chunk)) (len - chunk))"
  by pat_completeness auto
termination
  by (relation "measure (\<lambda>(m, gpa, len). len)") (auto simp: chunk_size_def)

declare write_zeroes_slices.simps [simp del]

section \<open>Invariant and abstract memory\<close>

definition region_ok :: "GuestRegion \<Rightarrow> bool" where
  "region_ok r \<longleftrightarrow> length (region_block r) = region_size r \<and> 0 < region_size r \<and>
     region_size r mod page_size = 0 \<and> region_end r < 2 ^ 64"

definition gm_inv :: "GuestMemory \<Rightarrow> bool" where
  "gm_inv m \<longleftrightarrow> list_all region_ok (regions m) \<and>
     sorted_wrt (\<lambda>r s. region_end r \<le> unat (gpa_start s)) (regions m)"

definition covers :: "GuestRegion \<Rightarrow> u64 \<Rightarrow> nat \<Rightarrow> bool" where
  "covers r a n \<longleftrightarrow> unat (gpa_start r) \<le> unat a \<and> unat a + n \<le> region_end r"

definition gm_mapped :: "GuestMemory \<Rightarrow> u64 \<Rightarrow> nat \<Rightarrow> bool" where
  "gm_mapped m a n \<longleftrightarrow> n = 0 \<or> list_ex (\<lambda>r. covers r a n) (regions m)"

definition gm_byte :: "GuestMemory \<Rightarrow> u64 \<Rightarrow> u8" where
  "gm_byte m a =
     (case find (\<lambda>r. covers r a 1) (regions m) of
        None \<Rightarrow> 0
      | Some r \<Rightarrow> region_block r ! (unat a - unat (gpa_start r)))"

lemma gm_inv_nth:
  assumes "gm_inv m" "i < length (regions m)"
  shows "region_ok (regions m ! i)"
  using assms by (simp add: gm_inv_def list_all_length)

lemma gm_inv_disjoint:
  assumes "gm_inv m" "i < j" "j < length (regions m)"
  shows "region_end (regions m ! i) \<le> unat (gpa_start (regions m ! j))"
  using assms by (simp add: gm_inv_def sorted_wrt_iff_nth_less)

lemma covers_unique:
  assumes "gm_inv m" "i < length (regions m)" "j < length (regions m)"
    and "covers (regions m ! i) a (Suc n)" "covers (regions m ! j) a (Suc k)"
  shows "i = j"
proof (rule ccontr)
  assume "i \<noteq> j"
  then consider "i < j" | "j < i" by linarith
  then show False
  proof cases
    case 1
    from gm_inv_disjoint [OF assms(1) 1 assms(3)] assms(4,5) show False by (simp add: covers_def)
  next
    case 2
    from gm_inv_disjoint [OF assms(1) 2 assms(2)] assms(4,5) show False by (simp add: covers_def)
  qed
qed

lemma gm_byte_nth:
  assumes "gm_inv m" "i < length (regions m)" "covers (regions m ! i) a 1"
  shows "gm_byte m a = region_block (regions m ! i) ! (unat a - unat (gpa_start (regions m ! i)))"
proof -
  have "\<not> covers (regions m ! j) a 1" if "j < i" for j
    using covers_unique [OF assms(1,2), of j a 0 0] assms(2,3) that by auto
  then have "find (\<lambda>r. covers r a 1) (regions m) = Some (regions m ! i)"
    unfolding find_Some_iff using assms(2,3) by blast
  then show ?thesis by (simp add: gm_byte_def)
qed

section \<open>Address resolution\<close>

lemma unat_region_stop:
  "region_ok r \<Longrightarrow> unat (saturating_add (gpa_start r) (of_nat (region_size r))) = region_end r"
  by (simp add: region_ok_def saturating_add_unat)

lemma region_ordering_unat:
  "region_ok r \<Longrightarrow> region_ordering a r =
     (if unat a < unat (gpa_start r) then Greater else if region_end r \<le> unat a then Less else Equal)"
  by (simp add: region_ordering_def Let_def word_less_nat_alt word_le_nat_alt unat_region_stop)

lemma region_ordering_Equal:
  "region_ok r \<Longrightarrow> region_ordering a r = Equal \<longleftrightarrow> covers r a 1"
  by (auto simp: region_ordering_unat covers_def)

lemma regions_ordered:
  assumes "gm_inv m"
  shows "ordered_for (region_ordering a) (regions m)"
proof -
  have "ordering_rank (region_ordering a (regions m ! i)) \<le> ordering_rank (region_ordering a (regions m ! j))"
    if ij: "i < j" "j < length (regions m)" for i j
  proof -
    have "region_ok (regions m ! i)" "region_ok (regions m ! j)"
      using gm_inv_nth [OF assms] ij by auto
    with gm_inv_disjoint [OF assms ij] show ?thesis
      by (simp add: region_ordering_unat)
  qed
  then show ?thesis by (simp add: ordered_for_def sorted_wrt_iff_nth_less)
qed

lemma find_region_Inr:
  assumes inv: "gm_inv m" and len: "0 < len"
  shows "find_region m a len = Inr ((i, off), rem) \<longleftrightarrow>
    i < length (regions m) \<and> covers (regions m ! i) a len \<and>
    off = unat a - unat (gpa_start (regions m ! i)) \<and> rem = region_end (regions m ! i) - unat a"
    (is "?L \<longleftrightarrow> ?R")
proof (cases "binary_search_by (region_ordering a) (regions m)")
  case (Inl k)
  have "\<not> covers (regions m ! i) a len" if "i < length (regions m)"
    using binary_search_by_Inl_no_match [OF regions_ordered [OF inv] Inl, of "regions m ! i"]
      region_ordering_Equal [OF gm_inv_nth [OF inv that], of a] that len
    by (auto simp: covers_def)
  with Inl show ?thesis by (auto simp: find_region_def)
next
  case (Inr k)
  have k: "k < length (regions m)" and "region_ordering a (regions m ! k) = Equal"
    using binary_search_by_Inr [OF regions_ordered [OF inv] Inr] by auto
  then have c: "covers (regions m ! k) a 1"
    using region_ordering_Equal [OF gm_inv_nth [OF inv k]] by simp
  have ok: "region_ok (regions m ! k)" by (rule gm_inv_nth [OF inv k])
  have off: "unat (a - gpa_start (regions m ! k)) = unat a - unat (gpa_start (regions m ! k))"
    using c by (simp add: covers_def unat_sub word_le_nat_alt)
  have uniq: "i = k" if "i < length (regions m)" "covers (regions m ! i) a len"
    using covers_unique [OF inv that(1) k, of a "len - 1" 0] that(2) c len by simp
  have bound: "unat a + len < 2 ^ 64" if "covers (regions m ! k) a len"
    using that ok by (auto simp: covers_def region_ok_def)
  show ?thesis
    using Inr c ok uniq bound k
    by (auto simp: find_region_def Let_def off covers_def region_ok_def)
qed

lemma find_region_ok_iff:
  assumes "gm_inv m" "0 < len"
  shows "(\<exists>r. find_region m a len = Inr r) \<longleftrightarrow> gm_mapped m a len"
  using find_region_Inr [OF assms] assms(2)
  by (auto simp: gm_mapped_def list_ex_length)

lemma find_region_err:
  assumes "gm_inv m" "0 < len" "\<not> gm_mapped m a len"
  shows "find_region m a len =
    (if unat a + len < 2 ^ 64 \<and> \<not> gm_mapped m a 1 then Inl (NotMapped a len) else Inl (OutOfBounds a len))"
proof -
  obtain e where e: "find_region m a len = Inl e"
    using find_region_ok_iff [OF assms(1,2)] assms(3) by (cases "find_region m a len") blast+
  have "gm_mapped m a 1 \<longleftrightarrow> (\<exists>i. binary_search_by (region_ordering a) (regions m) = Inr i)"
  proof (cases "binary_search_by (region_ordering a) (regions m)")
    case (Inl i)
    then show ?thesis
      using binary_search_by_Inl_no_match [OF regions_ordered [OF assms(1)] Inl]
        region_ordering_Equal gm_inv_nth [OF assms(1)]
      by (fastforce simp: gm_mapped_def list_ex_length in_set_conv_nth)
  next
    case (Inr i)
    then show ?thesis
      using binary_search_by_Inr [OF regions_ordered [OF assms(1)] Inr]
        region_ordering_Equal gm_inv_nth [OF assms(1)]
      by (auto simp: gm_mapped_def list_ex_length)
  qed
  with e show ?thesis
    by (auto simp: find_region_def Let_def split: sum.splits if_splits)
qed

section \<open>Reads and writes\<close>

lemma read_slice_mapped:
  assumes "gm_inv m" "gm_mapped m a n"
  shows "read_slice m a n = Inr (map (\<lambda>i. gm_byte m (a + of_nat i)) [0..<n])"
proof (cases "n = 0")
  case False
  then obtain i where i: "i < length (regions m)" "covers (regions m ! i) a n"
    using assms(2) by (auto simp: gm_mapped_def list_ex_length)
  let ?r = "regions m ! i" and ?off = "unat a - unat (gpa_start (regions m ! i))"
  have ok: "region_ok ?r" by (rule gm_inv_nth [OF assms(1) i(1)])
  have "gm_byte m (a + of_nat k) = region_block ?r ! (?off + k)" if "k < n" for k
  proof -
    have u: "unat (a + of_nat k) = unat a + k"
      using that i(2) ok by (subst unat_add_nowrap) (auto simp: covers_def region_ok_def)
    then have "covers ?r (a + of_nat k) 1"
      using that i(2) by (simp add: covers_def)
    from gm_byte_nth [OF assms(1) i(1) this] u i(2) show ?thesis
      by (simp add: covers_def)
  qed
  moreover have "?off + n \<le> length (region_block ?r)"
    using i(2) ok by (auto simp: covers_def region_ok_def)
  ultimately have "take n (drop ?off (region_block ?r)) = map (\<lambda>k. gm_byte m (a + of_nat k)) [0..<n]"
    by (simp add: take_drop_eq_map_nth)
  moreover have "find_region m a n = Inr ((i, ?off), region_end ?r - unat a)"
    using find_region_Inr [OF assms(1)] False i by simp
  ultimately show ?thesis using False by (simp add: read_slice_def)
qed (simp add: read_slice_def)

lemma read_slice_unmapped:
  "gm_inv m \<Longrightarrow> \<not> gm_mapped m a n \<Longrightarrow> read_slice m a n =
     Inl (if unat a + n < 2 ^ 64 \<and> \<not> gm_mapped m a 1 then NotMapped a n else OutOfBounds a n)"
  using find_region_err [of m n a]
  by (cases "n = 0") (auto simp: read_slice_def gm_mapped_def [of m a 0])

lemma write_block_regions:
  assumes "gm_inv m" "i < length (regions m)" "covers (regions m ! i) a (length data)"
  defines "m' \<equiv> write_block m (i, unat a - unat (gpa_start (regions m ! i))) data"
  shows "gm_inv m'" "gm_mapped m' = gm_mapped m"
    and "length (regions m') = length (regions m)"
    and "gpa_start (regions m' ! j) = gpa_start (regions m ! j)"
    and "region_size (regions m' ! j) = region_size (regions m ! j)"
    and "region_block (regions m' ! j) =
           (if j = i then copy_at (region_block (regions m ! i)) (unat a - unat (gpa_start (regions m ! i))) data
            else region_block (regions m ! j))"
proof -
  have "region_ok (regions m ! i)" by (rule gm_inv_nth [OF assms(1,2)])
  with assms(3) have fits: "unat a - unat (gpa_start (regions m ! i)) + length data \<le> length (region_block (regions m ! i))"
    by (auto simp: covers_def region_ok_def)
  show len: "length (regions m') = length (regions m)" by (simp add: m'_def write_block_def)
  show st: "gpa_start (regions m' ! j) = gpa_start (regions m ! j)" for j
    using assms(2) by (cases "j = i") (simp_all add: m'_def write_block_def)
  show sz: "region_size (regions m' ! j) = region_size (regions m ! j)" for j
    using assms(2) by (cases "j = i") (simp_all add: m'_def write_block_def)
  show bl: "region_block (regions m' ! j) =
           (if j = i then copy_at (region_block (regions m ! i)) (unat a - unat (gpa_start (regions m ! i))) data
            else region_block (regions m ! j))" for j
    using assms(2) by (simp add: m'_def write_block_def)
  show "gm_mapped m' = gm_mapped m"
    by (auto simp: fun_eq_iff gm_mapped_def list_ex_length covers_def len st sz)
  have "region_ok (regions m' ! j)" if "j < length (regions m)" for j
    using gm_inv_nth [OF assms(1) that] fits by (auto simp: region_ok_def st sz bl)
  then show "gm_inv m'"
    using assms(1) by (simp add: gm_inv_def list_all_length sorted_wrt_iff_nth_less len st sz)
qed

lemma write_slice_mapped:
  assumes inv: "gm_inv m" and map: "gm_mapped m a (length data)"
  shows "\<exists>m'. write_slice m a data = Inr m' \<and> gm_inv m' \<and> gm_mapped m' = gm_mapped m \<and>
    (\<forall>x. gm_byte m' x = (if unat a \<le> unat x \<and> unat x < unat a + length data
                          then data ! (unat x - unat a) else gm_byte m x))"
proof (cases "data = []")
  case False
  then obtain i where i: "i < length (regions m)" "covers (regions m ! i) a (length data)"
    using map by (auto simp: gm_mapped_def list_ex_length)
  let ?r = "regions m ! i" and ?off = "unat a - unat (gpa_start (regions m ! i))"
  define m' where "m' = write_block m (i, ?off) data"
  note w = write_block_regions [OF inv i, folded m'_def]
  have "find_region m a (length data) = Inr ((i, ?off), region_end ?r - unat a)"
    using find_region_Inr [OF inv] False i by simp
  then have run: "write_slice m a data = Inr m'"
    using False by (simp add: write_slice_def m'_def)
  have ok: "region_ok ?r" by (rule gm_inv_nth [OF inv i(1)])
  then have fits: "?off + length data \<le> length (region_block ?r)"
    using i(2) by (auto simp: covers_def region_ok_def)
  have "gm_byte m' x = (if unat a \<le> unat x \<and> unat x < unat a + length data
                          then data ! (unat x - unat a) else gm_byte m x)" for x
  proof (cases "list_ex (\<lambda>r. covers r x 1) (regions m)")
    case True
    then obtain j where j: "j < length (regions m)" "covers (regions m ! j) x 1"
      by (auto simp: list_ex_length)
    have j': "j < length (regions m')" "covers (regions m' ! j) x 1"
      using j by (auto simp: w covers_def)
    note b = gm_byte_nth [OF inv j] gm_byte_nth [OF w(1) j']
    show ?thesis
    proof (cases "j = i")
      case eq: True
      have "unat x - unat (gpa_start ?r) < length (region_block ?r)"
        using j ok eq by (auto simp: covers_def region_ok_def)
      then show ?thesis
        using b eq fits i(2) j(2) by (auto simp: w nth_copy_at covers_def)
    next
      case neq: False
      have "\<not> covers ?r x 1" using covers_unique [OF inv i(1) j(1), of x 0 0] neq j by auto
      then have "\<not> (unat a \<le> unat x \<and> unat x < unat a + length data)"
        using i(2) by (auto simp: covers_def)
      with b neq show ?thesis by (auto simp: w)
    qed
  next
    case False
    then have none: "find (\<lambda>r. covers r x 1) (regions m) = None"
      by (simp add: find_None_iff list_ex_iff)
    have "\<not> list_ex (\<lambda>r. covers r x 1) (regions m')"
      using False by (simp add: list_ex_length w covers_def)
    then have none': "find (\<lambda>r. covers r x 1) (regions m') = None"
      by (simp add: find_None_iff list_ex_iff)
    have "\<not> covers ?r x 1" using False i(1) by (auto simp: list_ex_length)
    then have "\<not> (unat a \<le> unat x \<and> unat x < unat a + length data)"
      using i(2) by (auto simp: covers_def)
    with none none' show ?thesis by (auto simp: gm_byte_def)
  qed
  with run w show ?thesis by blast
qed (use inv in \<open>auto simp: write_slice_def\<close>)

lemma write_slice_unmapped:
  "gm_inv m \<Longrightarrow> \<not> gm_mapped m a (length data) \<Longrightarrow> write_slice m a data =
     Inl (if unat a + length data < 2 ^ 64 \<and> \<not> gm_mapped m a 1 then NotMapped a (length data)
          else OutOfBounds a (length data))"
  using find_region_err [of m "length data" a]
  by (auto simp: write_slice_def gm_mapped_def [of m a 0] gm_mapped_def [of m a "Suc 0"])

text \<open>\<open>GuestMemory\<close> implements the contract of \<open>GuestMemAccess\<close>.\<close>

lemma gm_mapped_bound: "gm_inv m \<Longrightarrow> gm_mapped m a n \<Longrightarrow> 0 < n \<Longrightarrow> unat a + n < 2 ^ 64"
  by (auto simp: gm_mapped_def list_ex_length covers_def region_ok_def dest!: gm_inv_nth)

lemma gm_mapped_part:
  assumes "gm_inv m" "gm_mapped m a n" "i + k \<le> n"
  shows "gm_mapped m (a + of_nat i) k"
proof (cases "k = 0")
  case False
  with assms obtain r where r: "r \<in> set (regions m)" "covers r a n"
    by (auto simp: gm_mapped_def list_ex_iff)
  have "unat a + n < 2 ^ 64" using gm_mapped_bound assms False by simp
  then have "unat (a + of_nat i) = unat a + i"
    using assms(3) by (subst unat_add_nowrap) simp_all
  with r assms(3) show ?thesis
    by (auto simp: gm_mapped_def list_ex_iff covers_def intro!: bexI [of _ r])
qed (simp add: gm_mapped_def)

interpretation gm: guest_mem gm_access gm_inv gm_mapped gm_byte
proof unfold_locales
  fix m a n i k and bs :: bytes
  assume inv: "gm_inv m"
  show "gm_mapped m a n \<Longrightarrow> 0 < n \<Longrightarrow> unat a + n < 2 ^ 64" by (rule gm_mapped_bound [OF inv])
  show "gm_mapped m a n \<Longrightarrow> i + k \<le> n \<Longrightarrow> gm_mapped m (a + of_nat i) k" by (rule gm_mapped_part [OF inv])
  show "gm_mapped m a n \<Longrightarrow> read_guest gm_access m a n = Inr (map (\<lambda>i. gm_byte m (a + of_nat i)) [0..<n])"
    using read_slice_mapped [OF inv] by (simp add: gm_access_def)
  show "\<not> gm_mapped m a n \<Longrightarrow> \<exists>e. read_guest gm_access m a n = Inl e"
    using read_slice_unmapped [OF inv] by (simp add: gm_access_def)
  show "gm_mapped m a (length bs) \<Longrightarrow>
    \<exists>m'. write_guest gm_access m a bs = Inr m' \<and> gm_inv m' \<and> gm_mapped m' = gm_mapped m \<and>
      (\<forall>x. gm_byte m' x = (if unat a \<le> unat x \<and> unat x < unat a + length bs
                            then bs ! (unat x - unat a) else gm_byte m x))"
    using write_slice_mapped [OF inv] by (simp add: gm_access_def)
  show "\<not> gm_mapped m a (length bs) \<Longrightarrow> \<exists>e. write_guest gm_access m a bs = Inl e"
    using write_slice_unmapped [OF inv] by (simp add: gm_access_def)
qed

section \<open>Growing the memory\<close>

lemma unat_and_not_mask: "unat (w AND NOT (mask n)) = unat w div 2 ^ n * 2 ^ n" for w :: "'a::len word"
proof -
  have m: "unat (w AND mask n) = unat w mod 2 ^ n"
    by (simp add: unsigned_take_bit_eq flip: take_bit_eq_mask) (simp add: take_bit_eq_mod)
  have "w AND NOT (mask n) = w - (w AND mask n)"
    using and_not_plus_and [of w "mask n"] by (simp add: algebra_simps)
  moreover have "w AND mask n \<le> w"
    by (simp add: word_le_nat_alt m)
  ultimately have "unat (w AND NOT (mask n)) = unat w - unat w mod 2 ^ n"
    by (simp add: unat_sub m)
  then show ?thesis by (simp add: minus_mod_eq_div_mult)
qed

definition aligned_len :: "nat \<Rightarrow> nat" where
  "aligned_len n = (n + 4095) div 4096 * 4096"

lemma align_up_page:
  "align_up n page_size = (if n + 4095 < 2 ^ 64 then Some (aligned_len n) else None)"
proof -
  have "(4095 :: u64) = mask 12" by (simp add: mask_eq_exp_minus_1)
  then have "unat ((of_nat (n + 4095) :: u64) AND NOT 4095) = aligned_len n" if "n + 4095 < 2 ^ 64"
    using that unat_of_nat_eq [of "n + 4095", where 'a = 64]
    by (simp only: unat_and_not_mask) (simp add: aligned_len_def)
  then show ?thesis by (simp add: align_up_def page_size_def)
qed

lemma aligned_len_bounds: "n \<le> aligned_len n" "aligned_len n < n + 4096" "aligned_len n mod page_size = 0"
  by (simp_all add: aligned_len_def page_size_def)

lemma aligned_len_less: "n + 4095 < 2 ^ 64 \<Longrightarrow> aligned_len n < 2 ^ 64"
  by (simp add: aligned_len_def)

lemma sorted_wrt_insert_at:
  assumes "sorted_wrt R xs" "\<And>j. j < i \<Longrightarrow> j < length xs \<Longrightarrow> R (xs ! j) y"
    "\<And>j. i \<le> j \<Longrightarrow> j < length xs \<Longrightarrow> R y (xs ! j)"
  shows "sorted_wrt R (insert_at i y xs)"
proof -
  have "sorted_wrt R (take i xs @ drop i xs)" using assms(1) by simp
  then show ?thesis using assms(2,3)
    by (auto simp: insert_at_def sorted_wrt_append in_set_conv_nth simp del: append_take_drop_id)
qed

lemma set_insert_at: "set (insert_at i y xs) = insert y (set xs)"
proof -
  have "set (take i xs) \<union> set (drop i xs) = set xs"
    by (metis append_take_drop_id set_append)
  then show ?thesis by (auto simp: insert_at_def)
qed

definition disjoint_from :: "u64 \<Rightarrow> nat \<Rightarrow> GuestRegion \<Rightarrow> bool" where
  "disjoint_from gpa n r \<longleftrightarrow> unat gpa + n \<le> unat (gpa_start r) \<or> region_end r \<le> unat gpa"

lemma overlaps_iff:
  "region_ok r \<Longrightarrow> overlaps gpa e r \<longleftrightarrow> \<not> disjoint_from gpa (unat e - unat gpa) r"
  if "gpa \<le> e"
  using that by (auto simp: overlaps_def Let_def disjoint_from_def word_less_nat_alt word_le_nat_alt unat_region_stop)

lemma insert_pos:
  assumes inv: "gm_inv m" and n: "0 < n" and dis: "list_all (disjoint_from gpa n) (regions m)"
  defines "pos \<equiv> (case binary_search_by (\<lambda>r. key_ordering gpa (gpa_start r)) (regions m) of
                      Inr i \<Rightarrow> i | Inl i \<Rightarrow> i)"
  shows "j < pos \<Longrightarrow> j < length (regions m) \<Longrightarrow> region_end (regions m ! j) \<le> unat gpa"
    and "pos \<le> j \<Longrightarrow> j < length (regions m) \<Longrightarrow> unat gpa + n \<le> unat (gpa_start (regions m ! j))"
proof -
  let ?f = "\<lambda>r. key_ordering gpa (gpa_start r)"
  have d: "disjoint_from gpa n (regions m ! j)" "region_ok (regions m ! j)" if "j < length (regions m)" for j
    using that dis gm_inv_nth [OF inv] by (simp_all add: list_all_length)
  have "ordering_rank (?f (regions m ! i)) \<le> ordering_rank (?f (regions m ! j))"
    if "i < j" "j < length (regions m)" for i j
    using gm_inv_disjoint [OF inv that] d [of i] that
    by (auto simp: key_ordering_def word_less_nat_alt region_ok_def word_unat_eq_iff)
  then have ord: "ordered_for ?f (regions m)"
    by (auto simp: ordered_for_def sorted_wrt_iff_nth_less sorted_wrt_map)
  have "?f (regions m ! j) \<noteq> Equal" if "j < length (regions m)" for j
    using d [OF that] n by (auto simp: key_ordering_def disjoint_from_def region_ok_def split: if_splits)
  then obtain p where p: "binary_search_by ?f (regions m) = Inl p"
    using binary_search_by_Inr [OF ord] by (cases "binary_search_by ?f (regions m)") auto
  then have pos: "pos = p" by (simp add: pos_def)
  show "region_end (regions m ! j) \<le> unat gpa" if "j < pos" "j < length (regions m)"
    using binary_search_by_Inl(2) [OF ord p, of j] that d [of j]
    by (auto simp: pos key_ordering_def disjoint_from_def word_less_nat_alt split: if_splits)
  show "unat gpa + n \<le> unat (gpa_start (regions m ! j))" if "pos \<le> j" "j < length (regions m)"
    using binary_search_by_Inl(3) [OF ord p, of j] that d [of j]
    by (auto simp: pos key_ordering_def disjoint_from_def word_less_nat_alt region_ok_def split: if_splits)
qed

text \<open>What the allocator promises: \<open>VirtualAlloc\<close> commits zeroed pages and rejects a size of zero.\<close>

definition virtual_alloc_law :: "(nat \<Rightarrow> bytes option) \<Rightarrow> bool" where
  "virtual_alloc_law valloc \<longleftrightarrow> (\<forall>n b. valloc n = Some b \<longrightarrow> 0 < n \<and> b = replicate n 0)"

lemma gm_byte_in:
  assumes "gm_inv m" "r \<in> set (regions m)" "covers r a 1"
  shows "gm_byte m a = region_block r ! (unat a - unat (gpa_start r))"
  using assms gm_byte_nth by (metis in_set_conv_nth)

lemma add_region_grows:
  assumes inv: "gm_inv m" and law: "virtual_alloc_law valloc" and run: "add_region valloc m gpa sz = Inr m'"
  shows "gm_inv m'"
    and "gm_mapped m' a 1 \<longleftrightarrow> gm_mapped m a 1 \<or> unat gpa \<le> unat a \<and> unat a < unat gpa + aligned_len sz"
    and "gm_byte m' a = gm_byte m a"
    and "gm_mapped m a k \<Longrightarrow> gm_mapped m' a k" and "gm_mapped m' gpa (aligned_len sz)"
    and "unat gpa + aligned_len sz < 2 ^ 64"
proof -
  let ?n = "aligned_len sz"
  let ?pos = "case binary_search_by (\<lambda>r. key_ordering gpa (gpa_start r)) (regions m) of Inr i \<Rightarrow> i | Inl i \<Rightarrow> i"
  let ?new = "\<lparr>gpa_start = gpa, region_size = ?n, region_block = replicate ?n 0\<rparr>"
  have sz: "sz + 4095 < 2 ^ 64"
    using run by (simp add: add_region_def align_up_page split: if_splits)
  from aligned_len_less [OF sz] have u: "unat (of_nat ?n :: u64) = ?n" by simp
  have bound: "unat gpa + ?n < 2 ^ 64"
    using run u sz by (simp add: add_region_def align_up_page checked_add_def split: if_splits)
  then have e: "unat (gpa + of_nat ?n) = unat gpa + ?n"
    using u by (subst unat_add_nowrap) simp_all
  have "\<not> list_ex (overlaps gpa (gpa + of_nat ?n)) (regions m)"
    using run u sz bound by (simp add: add_region_def align_up_page checked_add_def split: if_splits)
  moreover have "gpa \<le> gpa + of_nat ?n" by (simp add: word_le_nat_alt e)
  ultimately have dis: "list_all (disjoint_from gpa ?n) (regions m)"
    using overlaps_iff [of gpa "gpa + of_nat ?n"] gm_inv_nth [OF inv] e
    by (auto simp: list_ex_length list_all_length)
  obtain b where "valloc ?n = Some b"
    using run u sz bound \<open>\<not> list_ex _ _\<close>
    by (auto simp: add_region_def align_up_page checked_add_def split: if_splits option.splits)
  moreover from this law have n: "0 < ?n" and "b = replicate ?n 0"
    by (auto simp: virtual_alloc_law_def)
  ultimately have m': "m' = m\<lparr>regions := insert_at ?pos ?new (regions m)\<rparr>"
    using run u sz bound \<open>\<not> list_ex _ _\<close>
    by (simp add: add_region_def align_up_page checked_add_def Let_def)
  then have regs: "set (regions m') = insert ?new (set (regions m))" by (simp add: set_insert_at)
  note ps = insert_pos [OF inv n dis]
  have "region_ok ?new" using n bound by (simp add: region_ok_def aligned_len_bounds)
  moreover have "sorted_wrt (\<lambda>r s. region_end r \<le> unat (gpa_start s)) (regions m')"
    using inv ps unfolding m' by (auto simp: gm_inv_def intro!: sorted_wrt_insert_at)
  ultimately show inv': "gm_inv m'"
    using inv regs by (simp add: gm_inv_def list_all_iff)
  show m1: "gm_mapped m' a 1 \<longleftrightarrow> gm_mapped m a 1 \<or> unat gpa \<le> unat a \<and> unat a < unat gpa + ?n" for a
    by (auto simp: gm_mapped_def list_ex_iff regs covers_def)
  show "gm_mapped m a k \<Longrightarrow> gm_mapped m' a k" for a
    by (auto simp: gm_mapped_def list_ex_iff regs)
  show "gm_mapped m' gpa ?n" by (auto simp: gm_mapped_def list_ex_iff regs covers_def)
  show "unat gpa + ?n < 2 ^ 64" by (rule bound)
  show "gm_byte m' a = gm_byte m a" for a
  proof (cases "\<exists>r\<in>set (regions m). covers r a 1")
    case True
    then obtain r where r: "r \<in> set (regions m)" "covers r a 1" by blast
    then show ?thesis using gm_byte_in [OF inv r] gm_byte_in [OF inv', of r a] regs by simp
  next
    case False
    then have old: "gm_byte m a = 0"
      by (auto simp: gm_byte_def find_None_iff split: option.splits dest: find_Some_iff [THEN iffD1])
    show ?thesis
    proof (cases "covers ?new a 1")
      case c: True
      have "gm_byte m' a = replicate ?n 0 ! (unat a - unat gpa)"
        using gm_byte_in [OF inv' _ c] regs by simp
      with c old show ?thesis by (simp add: covers_def less_diff_conv2)
    next
      case c: False
      have "find (\<lambda>r. covers r a 1) (regions m') = None"
        using False c by (auto simp: find_None_iff regs)
      with old show ?thesis by (simp add: gm_byte_def)
    qed
  qed
qed

lemma add_region_errors:
  assumes "gm_inv m" "sz < 2 ^ 64"
  defines "n \<equiv> aligned_len sz"
  shows "add_region valloc m gpa sz = Inl e \<longleftrightarrow>
    (if 2 ^ 64 \<le> sz + 4095 then e = InvalidSize gpa sz
     else if 2 ^ 64 \<le> unat gpa + n then e = InvalidSize gpa n
     else if \<not> list_all (disjoint_from gpa n) (regions m)
          then e = MemHal (MapMemory gpa n ''region overlaps with an existing memory region'')
     else valloc n = None \<and> e = AllocFailed gpa n)"
proof (cases "sz + 4095 < 2 ^ 64 \<and> unat gpa + n < 2 ^ 64")
  case True
  then have "unat (of_nat n :: u64) = n" using aligned_len_less [of sz] by (simp add: n_def)
  moreover from this have en: "unat (gpa + of_nat n) = unat gpa + n"
    using True by (subst unat_add_nowrap) simp_all
  moreover from en have "gpa \<le> gpa + of_nat n" by (simp add: word_le_nat_alt)
  then have "list_ex (overlaps gpa (gpa + of_nat n)) (regions m) \<longleftrightarrow> \<not> list_all (disjoint_from gpa n) (regions m)"
    using overlaps_iff [of gpa "gpa + of_nat n"] gm_inv_nth [OF assms(1)] en
    by (auto simp: list_ex_length list_all_length)
  ultimately show ?thesis using True
    by (auto simp: add_region_def align_up_page checked_add_def Let_def n_def split: option.splits)
next
  case False
  moreover have "unat (of_nat n :: u64) = n" if "sz + 4095 < 2 ^ 64"
    using aligned_len_less [of sz] that by (simp add: n_def)
  ultimately show ?thesis
    by (auto simp: add_region_def align_up_page checked_add_def n_def)
qed

section \<open>Zeroing and typed access\<close>

lemma write_zeroes_mapped:
  assumes "gm_inv m" "gm_mapped m a n"
  shows "\<exists>m'. write_zeroes_slices m a n = (m', None) \<and> gm_inv m' \<and> gm_mapped m' = gm_mapped m \<and>
    (\<forall>x. gm_byte m' x = (if unat a \<le> unat x \<and> unat x < unat a + n then 0 else gm_byte m x))"
  using assms
proof (induction m a n rule: write_zeroes_slices.induct)
  case (1 m a n)
  show ?case
  proof (cases "n = 0")
    case False
    let ?c = "min n chunk_size"
    have c: "?c \<le> n" "0 < ?c" using False by (simp_all add: chunk_size_def)
    have "gm_mapped m a ?c" using gm_mapped_part [OF "1.prems", of 0 ?c] by simp
    then obtain m1 where m1: "write_slice m a (replicate ?c 0) = Inr m1" "gm_inv m1" "gm_mapped m1 = gm_mapped m"
      "\<And>x. gm_byte m1 x = (if unat a \<le> unat x \<and> unat x < unat a + ?c then replicate ?c 0 ! (unat x - unat a)
                          else gm_byte m x)"
      using write_slice_mapped [OF "1.prems"(1), of a "replicate ?c 0"] by auto
    have bound: "unat a + n < 2 ^ 64" using gm_mapped_bound "1.prems" False by simp
    then have "unat a + ?c < 2 ^ LENGTH(64)" using c by simp
    note next_a = saturating_add_of_nat [OF this] unat_add_of_nat [OF this]
    have "gm_mapped m1 (a + of_nat ?c) (n - ?c)"
      using gm_mapped_part [OF "1.prems", of ?c "n - ?c"] c m1(3) by simp
    then obtain m2 where m2: "write_zeroes_slices m1 (a + of_nat ?c) (n - ?c) = (m2, None)" "gm_inv m2"
      "gm_mapped m2 = gm_mapped m1"
      "\<And>x. gm_byte m2 x = (if unat a + ?c \<le> unat x \<and> unat x < unat a + ?c + (n - ?c) then 0 else gm_byte m1 x)"
      using "1.IH" [OF False refl m1(1)] m1(2) next_a by auto
    have "write_zeroes_slices m a n = (m2, None)"
      using False m1(1) m2(1) next_a by (simp add: write_zeroes_slices.simps [of m a n] Let_def)
    moreover have "gm_byte m2 x = (if unat a \<le> unat x \<and> unat x < unat a + n then 0 else gm_byte m x)" for x
    proof -
      have "replicate ?c (0 :: u8) ! (unat x - unat a) = 0" if "unat a \<le> unat x" "unat x < unat a + ?c"
        using that by (intro nth_replicate) linarith
      then show ?thesis using c by (auto simp: m1(4) m2(4))
    qed
    ultimately show ?thesis using m1(3) m2(2,3) by auto
  qed (use "1.prems" in \<open>auto simp: write_zeroes_slices.simps\<close>)
qed

text \<open>Regions that no write can reach keep their contents: the accessors never touch a byte outside
  the range they were given.\<close>

lemma write_slice_ok:
  assumes "gm_inv m" "write_slice m a data = Inr m'"
  shows "gm_inv m'" "gm_mapped m' = gm_mapped m" "gm_mapped m a (length data)"
    "gm_byte m' x = (if unat a \<le> unat x \<and> unat x < unat a + length data
                     then data ! (unat x - unat a) else gm_byte m x)"
  using gm.write_Inr [OF assms(1), of a data m'] assms(2) by (simp_all add: gm_access_def)

lemma read_slice_write_slice:
  assumes "gm_inv m" "write_slice m a data = Inr m'"
  shows "read_slice m' a (length data) = Inr data"
  using gm.read_after_write [OF assms(1), of a data m'] assms(2) by (simp add: gm_access_def)

lemma read_slice_beside_write:
  assumes "gm_inv m" "write_slice m a data = Inr m'" "unat x + n \<le> unat a \<or> unat a + length data \<le> unat x"
  shows "read_slice m' x n = read_slice m x n"
proof (cases "gm_mapped m x n")
  case True
  then show ?thesis
    using gm.read_beside_write [OF assms(1), of a data m' x n] assms(2,3)
    by (simp add: gm_access_def) (cases "read_slice m x n"; cases "read_slice m' x n"; simp add: read_slice_mapped [OF assms(1)])
next
  case False
  with read_slice_unmapped [OF assms(1) False] read_slice_unmapped [OF write_slice_ok(1) [OF assms(1,2)]]
    write_slice_ok(2) [OF assms(1,2)]
  show ?thesis by simp
qed

section \<open>Properties\<close>

text \<open>A memory of two pages, for the witnesses here and in the device theories.\<close>

definition demo_mem :: GuestMemory where
  "demo_mem = \<lparr>regions = [\<lparr>gpa_start = 0x1000, region_size = 8192, region_block = replicate 8192 0\<rparr>]\<rparr>"

lemma demo_mem_inv [simp]: "gm_inv demo_mem"
  by (simp add: gm_inv_def demo_mem_def region_ok_def page_size_def)

lemma demo_mem_mapped:
  "gm_mapped demo_mem a n \<longleftrightarrow> n = 0 \<or> 0x1000 \<le> unat a \<and> unat a + n \<le> 0x3000"
  by (simp add: gm_mapped_def demo_mem_def covers_def)

text \<open>C6: a write to guest memory refines the abstract byte map: it succeeds exactly when one region
  backs the whole range, then changes exactly the bytes of the range, keeps the invariant and the
  mapping, and is read back; otherwise nothing is written and the error tells an unmapped address
  from a range that leaves its region or the address space.\<close>

theorem write_slice_refines:
  assumes "gm_inv m"
  shows "case write_slice m a data of
      Inr m' \<Rightarrow> gm_mapped m a (length data) \<and> gm_inv m' \<and> gm_mapped m' = gm_mapped m \<and>
        read_slice m' a (length data) = Inr data \<and>
        (\<forall>x. gm_byte m' x = (if unat a \<le> unat x \<and> unat x < unat a + length data
                              then data ! (unat x - unat a) else gm_byte m x))
    | Inl e \<Rightarrow> \<not> gm_mapped m a (length data) \<and>
        e = (if unat a + length data < 2 ^ 64 \<and> \<not> gm_mapped m a 1 then NotMapped a (length data)
             else OutOfBounds a (length data))"
proof (cases "write_slice m a data")
  case (Inl e)
  then have "\<not> gm_mapped m a (length data)" using write_slice_mapped [OF assms, of a data] by auto
  with Inl write_slice_unmapped [OF assms this] show ?thesis by simp
next
  case (Inr m')
  from write_slice_ok(1-3) [OF assms Inr] write_slice_ok(4) [OF assms Inr] read_slice_write_slice [OF assms Inr]
  show ?thesis by (simp add: Inr)
qed

theorem write_slice_refines_witness:
  "gm_inv demo_mem \<and> (\<exists>m'. write_slice demo_mem 0x1FFE [1, 2, 3, 4] = Inr m' \<and> gm_byte m' 0x2000 = 3)"
proof -
  obtain m' where m': "write_slice demo_mem 0x1FFE [1, 2, 3, 4] = Inr m'"
    using write_slice_mapped [OF demo_mem_inv, of "0x1FFE" "[1, 2, 3, 4]"] by (auto simp: demo_mem_mapped)
  from write_slice_refines [OF demo_mem_inv, of "0x1FFE" "[1, 2, 3, 4]"] m'
  show ?thesis by simp
qed

text \<open>C7: a read returns the bytes of the abstract map for a backed range and the same error
  classification as a write otherwise, so address resolution by binary search finds a region
  exactly when one contains the range.\<close>

theorem read_slice_refines:
  assumes "gm_inv m"
  shows "read_slice m a n =
    (if gm_mapped m a n then Inr (map (\<lambda>i. gm_byte m (a + of_nat i)) [0..<n])
     else Inl (if unat a + n < 2 ^ 64 \<and> \<not> gm_mapped m a 1 then NotMapped a n else OutOfBounds a n))"
  using read_slice_mapped [OF assms] read_slice_unmapped [OF assms] by simp

theorem read_slice_refines_witness:
  "read_slice demo_mem 0x1000 2 = Inr [0, 0] \<and> read_slice demo_mem 0x2FFF 2 = Inl (OutOfBounds 0x2FFF 2) \<and>
   read_slice demo_mem 0x4000 2 = Inl (NotMapped 0x4000 2)"
proof -
  have "gm_byte demo_mem 0x1000 = 0" "gm_byte demo_mem 0x1001 = 0"
    by (simp_all add: gm_byte_def demo_mem_def covers_def)
  then show ?thesis
    by (simp add: read_slice_refines [OF demo_mem_inv] demo_mem_mapped upt_conv_Cons)
qed



text \<open>\<open>write_zeroes\<close> clears a backed range of any length, chunk by chunk, and nothing else.\<close>

theorem write_zeroes_correct:
  assumes "gm_inv m" "gm_mapped m a n"
  shows "\<exists>m'. write_zeroes_slices m a n = (m', None) \<and> gm_inv m' \<and> gm_mapped m' = gm_mapped m \<and>
    (\<forall>x. gm_byte m' x = (if unat a \<le> unat x \<and> unat x < unat a + n then 0 else gm_byte m x))"
  by (rule write_zeroes_mapped [OF assms])

theorem write_zeroes_correct_witness:
  "gm_mapped demo_mem 0x1100 5000 \<and>
   (\<exists>m'. write_zeroes_slices demo_mem 0x1100 5000 = (m', None) \<and> gm_byte m' 0x2000 = 0)"
proof -
  have "gm_mapped demo_mem 0x1100 5000" by (simp add: demo_mem_mapped)
  with write_zeroes_correct [OF demo_mem_inv this] show ?thesis by force
qed

end
