(* ===== verification/Boot_Writer.thy ===== *)
theory Boot_Writer
  imports Boot_Types Guest_Memory
begin

text \<open>
  Guest memory as the \<open>GuestMemWriter\<close> of the boot crate (\<open>hitz-vmm/src/memory.rs\<close>), and the proof that it
  satisfies the contract \<open>mem_writer\<close>.
\<close>

definition gm_writer :: "GuestMemory GuestMemWriter" where
  "gm_writer =
     \<lparr>write_bytes = (\<lambda>m gpa data. map_err (\<lambda>e. WriteFailed (mem_error_to_string e)) (write_slice m gpa data)),
      write_zeroes_at = (\<lambda>m gpa len. case write_zeroes_slices m gpa len of
         (m', None) \<Rightarrow> Inr m' | (m', Some e) \<Rightarrow> Inl (WriteFailed (mem_error_to_string e)))\<rparr>"

lemma write_zeroes_ok_bytes:
  assumes "gm_inv m" "write_zeroes_slices m a n = (m', None)"
  shows "gm_inv m' \<and> gm_mapped m' = gm_mapped m \<and> unat a + n \<le> 2 ^ 64 \<and>
    (\<forall>x. gm_byte m' x = (if unat a \<le> unat x \<and> unat x < unat a + n then 0 else gm_byte m x))"
  using assms
proof (induction m a n rule: write_zeroes_slices.induct)
  case (1 m a n)
  show ?case
  proof (cases "n = 0")
    case True
    then show ?thesis using "1.prems" unat_u64_less [of a] by (auto simp: write_zeroes_slices.simps)
  next
    case False
    let ?c = "min n chunk_size"
    have c: "?c \<le> n" "0 < ?c" using False by (simp_all add: chunk_size_def)
    obtain m1 where m1: "write_slice m a (replicate ?c 0) = Inr m1"
      and rest: "write_zeroes_slices m1 (saturating_add a (of_nat ?c)) (n - ?c) = (m', None)"
      using "1.prems"(2) False by (auto simp: write_zeroes_slices.simps [of m a n] Let_def split: sum.splits)
    note ok = write_slice_ok [OF "1.prems"(1) m1]
    have "gm_mapped m a ?c" using ok(3) by simp
    then have "unat a + ?c < 2 ^ LENGTH(64)" using gm_mapped_bound [OF "1.prems"(1), of a ?c] c by simp
    note nx = saturating_add_of_nat [OF this] unat_add_of_nat [OF this]
    have IH: "gm_inv m'" "gm_mapped m' = gm_mapped m1" "unat a + ?c + (n - ?c) \<le> 2 ^ 64"
      "\<And>x. gm_byte m' x = (if unat a + ?c \<le> unat x \<and> unat x < unat a + ?c + (n - ?c) then 0 else gm_byte m1 x)"
      using "1.IH" [OF False refl m1 ok(1) rest] nx by simp_all
    have "gm_byte m' x = (if unat a \<le> unat x \<and> unat x < unat a + n then 0 else gm_byte m x)" for x
    proof -
      have "replicate ?c (0 :: u8) ! (unat x - unat a) = 0" if "unat a \<le> unat x" "unat x < unat a + ?c"
        using that by (intro nth_replicate) linarith
      then show ?thesis using c ok(4) by (auto simp: IH(4))
    qed
    with IH ok(2) c show ?thesis by simp
  qed
qed

interpretation gmw: mem_writer gm_writer gm_inv gm_byte
proof unfold_locales
  fix m m' a n and bs :: bytes
  assume inv: "gm_inv m"
  show "gm_inv m' \<and> unat a + length bs \<le> 2 ^ 64 \<and>
      (\<forall>x. gm_byte m' x = (if unat a \<le> unat x \<and> unat x < unat a + length bs then bs ! (unat x - unat a) else gm_byte m x))"
    if w: "write_bytes gm_writer m a bs = Inr m'"
  proof -
    have "write_slice m a bs = Inr m'" using w by (simp add: gm_writer_def)
    note ok = write_slice_ok [OF inv this]
    have "unat a + length bs \<le> 2 ^ 64"
      using gm_mapped_bound [OF inv ok(3)] unat_u64_less [of a] by (cases "bs = []") auto
    with ok show ?thesis by blast
  qed
  show "gm_inv m' \<and> unat a + n \<le> 2 ^ 64 \<and>
      (\<forall>x. gm_byte m' x = (if unat a \<le> unat x \<and> unat x < unat a + n then 0 else gm_byte m x))"
    if "write_zeroes_at gm_writer m a n = Inr m'"
    using write_zeroes_ok_bytes [OF inv, of a n m'] that by (auto simp: gm_writer_def split: prod.splits option.splits)
qed

end
