(* ===== verification/Elf_Loader.thy ===== *)
theory Elf_Loader
  imports Boot_Writer
begin

text \<open>
  The loaders of \<open>hitz-boot\<close>: the ELF64 kernel loader (\<open>loader.rs\<close>) and the placement of the initramfs
  (\<open>initramfs.rs\<close>), writing through a \<open>GuestMemWriter\<close>. Plain additions on sizes and addresses are
  checked: an overflow is a panic. When a loader fails, the guest memory is given up with it, so
  an error carries no memory.
\<close>

section \<open>Model\<close>

definition ELF_MAGIC :: bytes where
  "ELF_MAGIC = [0x7F, 0x45, 0x4C, 0x46]"

record Elf64Header =
  eh_entry :: u64
  eh_phoff :: u64
  eh_phentsize :: u16
  eh_phnum :: u16

record Elf64Phdr =
  ph_ty :: u32
  ph_offset :: u64
  ph_paddr :: u64
  ph_filesz :: u64
  ph_memsz :: u64

text \<open>\<open>read_u16\<close>, \<open>read_u32\<close> and \<open>read_u64\<close> differ in the width \<open>n\<close> only.\<close>

definition read_le :: "nat \<Rightarrow> bytes \<Rightarrow> u64 \<Rightarrow> (BootError, 'a::len word) outcome" where
  "read_le n data offset =
     outcome_bind (add_checked_panic offset (of_nat n)) (\<lambda>stop.
     case get_range data (unat offset) (unat stop) of
       None \<Rightarrow> Err (InvalidElf (''truncated at offset '' @ show_hex_alt (unat offset)))
     | Some bs \<Rightarrow> Ok (of_le_bytes bs))"

definition parse_elf_header :: "bytes \<Rightarrow> (BootError, Elf64Header) outcome" where
  "parse_elf_header data =
     (if length data < 64
      then Err (InvalidElf (''file too small ('' @ show_dec (length data) @ '' bytes, need at least 64)''))
      else if take 4 data \<noteq> ELF_MAGIC then Err (InvalidElf ''bad ELF magic'')
      else if data ! 4 \<noteq> 2 then Err (InvalidElf (''not ELF64 (class = '' @ show_dec (unat (data ! 4)) @ '')''))
      else if data ! 5 \<noteq> 1 then Err (InvalidElf (''not little-endian (data = '' @ show_dec (unat (data ! 5)) @ '')''))
      else
        outcome_bind (read_le 2 data 18 :: (BootError, u16) outcome) (\<lambda>machine.
        if machine \<noteq> 62 then Err (InvalidElf (''not x86_64 (e_machine = '' @ show_dec (unat machine) @ '')''))
        else
          outcome_bind (read_le 8 data 24) (\<lambda>entry.
          outcome_bind (read_le 8 data 32) (\<lambda>phoff.
          outcome_bind (read_le 2 data 54) (\<lambda>phentsize.
          outcome_bind (read_le 2 data 56) (\<lambda>phnum.
          Ok \<lparr>eh_entry = entry, eh_phoff = phoff, eh_phentsize = phentsize, eh_phnum = phnum\<rparr>))))))"

definition parse_program_header :: "bytes \<Rightarrow> u64 \<Rightarrow> (BootError, Elf64Phdr) outcome" where
  "parse_program_header data base =
     outcome_bind (add_checked_panic base 56) (\<lambda>stop.
     if length data < unat stop
     then Err (InvalidElf (''program header at '' @ show_hex_alt (unat base) @ '' extends past end of file''))
     else
       outcome_bind (read_le 4 data base) (\<lambda>ty.
       outcome_bind (read_le 8 data (base + 8)) (\<lambda>offset.
       outcome_bind (read_le 8 data (base + 24)) (\<lambda>paddr.
       outcome_bind (read_le 8 data (base + 32)) (\<lambda>filesz.
       outcome_bind (read_le 8 data (base + 40)) (\<lambda>memsz.
       Ok \<lparr>ph_ty = ty, ph_offset = offset, ph_paddr = paddr, ph_filesz = filesz, ph_memsz = memsz\<rparr>))))))"

record KernelLoadResult =
  kernel_load :: u64
  kernel_end :: u64
  entry_point :: u64

text \<open>The body of the loop for a \<open>PT_LOAD\<close> header: the writes, then the bounds.\<close>

definition segment_overflow :: BootError where
  "segment_overflow = InvalidElf ''segment offset overflow''"

definition load_file_part :: "'m GuestMemWriter \<Rightarrow> bytes \<Rightarrow> Elf64Phdr \<Rightarrow> 'm \<Rightarrow> (BootError, 'm) outcome" where
  "load_file_part W elf ph m =
     (if 0 < ph_filesz ph then
        outcome_bind (ok_or (checked_add (ph_offset ph) (ph_filesz ph)) segment_overflow) (\<lambda>stop.
        outcome_bind (ok_or (get_range elf (unat (ph_offset ph)) (unat stop))
            (LoadSegment (ph_paddr ph) (unat (ph_filesz ph)) ''segment data extends past end of file'')) (\<lambda>data.
        of_result (write_bytes W m (ph_paddr ph) data)))
      else Ok m)"

definition load_bss_part :: "'m GuestMemWriter \<Rightarrow> Elf64Phdr \<Rightarrow> 'm \<Rightarrow> (BootError, 'm) outcome" where
  "load_bss_part W ph m =
     (if ph_filesz ph < ph_memsz ph then
        outcome_bind (ok_or (checked_add (ph_paddr ph) (ph_filesz ph)) segment_overflow) (\<lambda>bss_start.
        outcome_bind (ok_or (checked_sub (ph_memsz ph) (ph_filesz ph)) segment_overflow) (\<lambda>bss_len.
        of_result (write_zeroes_at W m bss_start (unat bss_len))))
      else Ok m)"

type_synonym 'm load_state = "'m \<times> u64 option \<times> u64 \<times> bool"

definition load_segment :: "'m GuestMemWriter \<Rightarrow> bytes \<Rightarrow> Elf64Phdr \<Rightarrow> 'm load_state \<Rightarrow> (BootError, 'm load_state) outcome" where
  "load_segment W elf ph st =
     (case st of (m, min_addr, max_addr, loaded_any) \<Rightarrow>
      outcome_bind (load_file_part W elf ph m) (\<lambda>m.
      outcome_bind (load_bss_part W ph m) (\<lambda>m.
      outcome_bind (ok_or (checked_add (ph_paddr ph) (ph_memsz ph)) segment_overflow) (\<lambda>seg_end.
      Ok (m, Some (case min_addr of None \<Rightarrow> ph_paddr ph | Some c \<Rightarrow> min c (ph_paddr ph)),
          if max_addr < seg_end then seg_end else max_addr, True)))))"

definition header_at :: "bytes \<Rightarrow> Elf64Header \<Rightarrow> nat \<Rightarrow> (BootError, Elf64Phdr) outcome" where
  "header_at elf hdr i =
     outcome_bind (ok_or (checked_add (eh_phoff hdr) (of_nat i * ucast (eh_phentsize hdr)))
       (InvalidElf ''program header offset overflow'')) (\<lambda>off. parse_program_header elf off)"

fun load_segments ::
  "'m GuestMemWriter \<Rightarrow> bytes \<Rightarrow> Elf64Header \<Rightarrow> nat list \<Rightarrow> 'm load_state \<Rightarrow> (BootError, 'm load_state) outcome" where
  "load_segments W elf hdr [] st = Ok st"
| "load_segments W elf hdr (i # is) st =
     outcome_bind (header_at elf hdr i) (\<lambda>ph.
     if ph_ty ph \<noteq> 1 then load_segments W elf hdr is st
     else outcome_bind (load_segment W elf ph st) (load_segments W elf hdr is))"

definition load_elf :: "bytes \<Rightarrow> 'm GuestMemWriter \<Rightarrow> 'm \<Rightarrow> (BootError, 'm \<times> KernelLoadResult) outcome" where
  "load_elf elf W m =
     outcome_bind (parse_elf_header elf) (\<lambda>hdr.
     outcome_bind (load_segments W elf hdr [0..<unat (eh_phnum hdr)] (m, None, 0, False)) (\<lambda>(m, min_addr, max_addr, loaded_any).
     if \<not> loaded_any then Err (InvalidElf ''no PT_LOAD segments found'')
     else outcome_bind (ok_or min_addr (InvalidElf ''unreachable'')) (\<lambda>load.
       Ok (m, \<lparr>kernel_load = load, kernel_end = max_addr, entry_point = eh_entry hdr\<rparr>))))"

record InitramfsLoadResult =
  initramfs_gpa :: u64
  initramfs_size :: u64

definition load_initramfs ::
  "bytes \<Rightarrow> u64 \<Rightarrow> u64 \<Rightarrow> 'm GuestMemWriter \<Rightarrow> 'm \<Rightarrow> (BootError, 'm \<times> InitramfsLoadResult) outcome" where
  "load_initramfs data kend ram_size W m =
     (if data = [] then Err (InvalidBootParams ''initramfs data is empty'')
      else
        outcome_bind (add_checked_panic kend 0xFFF) (\<lambda>up.
        let gpa = up AND NOT 0xFFF in
        outcome_bind (add_checked_panic gpa (of_nat (length data))) (\<lambda>end_gpa.
        if ram_size < end_gpa
        then Err (InvalidBootParams (''initramfs at '' @ show_hex_alt (unat gpa) @ '' + '' @ show_hex_alt (length data) @
               '' bytes exceeds RAM size '' @ show_hex_alt (unat ram_size)))
        else outcome_bind (of_result (write_bytes W m gpa data)) (\<lambda>m.
          Ok (m, \<lparr>initramfs_gpa = gpa, initramfs_size = of_nat (length data)\<rparr>)))))"

section \<open>What loading means\<close>

text \<open>
  The loadable program headers of a file, and the memory after a segment is placed: its file part,
  then zeros up to its size in memory.
\<close>

definition pt_loads :: "bytes \<Rightarrow> Elf64Header \<Rightarrow> nat list \<Rightarrow> Elf64Phdr list" where
  "pt_loads elf hdr is = filter (\<lambda>ph. ph_ty ph = 1)
     (List.map_filter (\<lambda>i. case header_at elf hdr i of Ok ph \<Rightarrow> Some ph | _ \<Rightarrow> None) is)"

definition put_segment :: "bytes \<Rightarrow> (u64 \<Rightarrow> u8) \<Rightarrow> Elf64Phdr \<Rightarrow> u64 \<Rightarrow> u8" where
  "put_segment elf mem ph x =
     (let k = unat x - unat (ph_paddr ph) in
      if unat (ph_paddr ph) \<le> unat x \<and> k < max (unat (ph_filesz ph)) (unat (ph_memsz ph))
      then (if k < unat (ph_filesz ph) then elf ! (unat (ph_offset ph) + k) else 0)
      else mem x)"

definition bounds_of :: "Elf64Phdr list \<Rightarrow> u64 option \<Rightarrow> u64 \<Rightarrow> bool \<Rightarrow> bool" where
  "bounds_of segs mn mx l \<longleftrightarrow> l = (segs \<noteq> []) \<and> mn = (if segs = [] then None else Some (Min (ph_paddr ` set segs))) \<and>
     unat mx = Max (insert 0 ((\<lambda>ph. unat (ph_paddr ph) + unat (ph_memsz ph)) ` set segs))"

lemma ok_or_Ok_iff: "ok_or r e = Ok x \<longleftrightarrow> r = Some x"
  by (simp add: ok_or_def split: option.split)

lemma of_result_Ok_iff: "of_result r = Ok x \<longleftrightarrow> r = Inr x"
  by (simp add: of_result_def split: sum.split)

lemmas outcome_iffs = outcome_bind_Ok_iff ok_or_Ok_iff of_result_Ok_iff

context mem_writer
begin

lemma load_file_part_ok:
  assumes "winv m" "load_file_part W elf ph m = Ok m'"
  shows "winv m' \<and> (\<forall>x. byte_at m' x =
    (if unat (ph_paddr ph) \<le> unat x \<and> unat x < unat (ph_paddr ph) + unat (ph_filesz ph)
     then elf ! (unat (ph_offset ph) + (unat x - unat (ph_paddr ph))) else byte_at m x))"
proof (cases "0 < ph_filesz ph")
  case True
  then obtain stop data where s: "checked_add (ph_offset ph) (ph_filesz ph) = Some stop"
    "get_range elf (unat (ph_offset ph)) (unat stop) = Some data" "write_bytes W m (ph_paddr ph) data = Inr m'"
    using assms(2) by (auto simp: load_file_part_def outcome_iffs)
  have "unat stop = unat (ph_offset ph) + unat (ph_filesz ph)" using checked_add_unat [OF s(1)] .
  with s(2) have d: "data = take (unat (ph_filesz ph)) (drop (unat (ph_offset ph)) elf)"
    and l: "unat (ph_offset ph) + unat (ph_filesz ph) \<le> length elf"
    by (auto simp: get_range_def split: if_splits)
  then have "length data = unat (ph_filesz ph)" by simp
  with write_bytes_ok [OF assms(1) s(3)] l show ?thesis by (auto simp: d)
next
  case False
  then have "unat (ph_filesz ph) = 0" "m' = m" using assms(2) by (auto simp: load_file_part_def word_less_nat_alt unat_eq_0)
  with assms(1) show ?thesis by auto
qed

lemma load_bss_part_ok:
  assumes "winv m" "load_bss_part W ph m = Ok m'"
  shows "winv m' \<and> (\<forall>x. byte_at m' x =
    (if unat (ph_paddr ph) + unat (ph_filesz ph) \<le> unat x \<and> unat x < unat (ph_paddr ph) + unat (ph_memsz ph)
     then 0 else byte_at m x))"
proof (cases "ph_filesz ph < ph_memsz ph")
  case True
  then obtain st n where s: "checked_add (ph_paddr ph) (ph_filesz ph) = Some st" "checked_sub (ph_memsz ph) (ph_filesz ph) = Some n"
    "write_zeroes_at W m st (unat n) = Inr m'"
    using assms(2) by (auto simp: load_bss_part_def outcome_iffs)
  have "unat st = unat (ph_paddr ph) + unat (ph_filesz ph)" using checked_add_unat [OF s(1)] .
  moreover have "unat n = unat (ph_memsz ph) - unat (ph_filesz ph)"
    using s(2) by (auto simp: checked_sub_def unat_sub split: if_splits)
  moreover have "unat (ph_filesz ph) \<le> unat (ph_memsz ph)" using True by (simp add: word_less_nat_alt)
  ultimately show ?thesis using write_zeroes_ok [OF assms(1) s(3)] by auto
next
  case False
  then have "m' = m" "unat (ph_memsz ph) \<le> unat (ph_filesz ph)"
    using assms(2) by (auto simp: load_bss_part_def word_less_nat_alt)
  with assms(1) show ?thesis by auto
qed

lemma load_segment_ok:
  assumes "winv m" "load_segment W elf ph (m, mn, mx, l) = Ok st"
  shows "\<exists>m'. st = (m', Some (case mn of None \<Rightarrow> ph_paddr ph | Some c \<Rightarrow> min c (ph_paddr ph)),
      max mx (ph_paddr ph + ph_memsz ph), True) \<and> winv m' \<and> byte_at m' = put_segment elf (byte_at m) ph \<and>
    unat (ph_paddr ph + ph_memsz ph) = unat (ph_paddr ph) + unat (ph_memsz ph)"
proof -
  obtain m1 m2 e where s: "load_file_part W elf ph m = Ok m1" "load_bss_part W ph m1 = Ok m2"
    "checked_add (ph_paddr ph) (ph_memsz ph) = Some e"
    and st: "st = (m2, Some (case mn of None \<Rightarrow> ph_paddr ph | Some c \<Rightarrow> min c (ph_paddr ph)), if mx < e then e else mx, True)"
    using assms(2) by (auto simp: load_segment_def outcome_iffs)
  have e: "e = ph_paddr ph + ph_memsz ph" "unat e = unat (ph_paddr ph) + unat (ph_memsz ph)"
    using s(3) checked_add_unat [OF s(3)] by (auto simp: checked_add_Some_iff)
  note f = load_file_part_ok [OF assms(1) s(1)]
  note b = load_bss_part_ok [OF conjunct1 [OF f] s(2)]
  have "byte_at m2 = put_segment elf (byte_at m) ph"
  proof
    fix x show "byte_at m2 x = put_segment elf (byte_at m) ph x"
      using f b by (auto simp: put_segment_def Let_def)
  qed
  moreover have "(if mx < e then e else mx) = max mx e" by (auto simp: max_def)
  ultimately show ?thesis using b e st by auto
qed

lemma load_segments_ok:
  assumes "winv m" "bounds_of S mn mx l" "load_segments W elf hdr is (m, mn, mx, l) = Ok (m', mn', mx', l')"
  shows "winv m' \<and> bounds_of (S @ pt_loads elf hdr is) mn' mx' l' \<and>
    byte_at m' = foldl (put_segment elf) (byte_at m) (pt_loads elf hdr is)"
  using assms
proof (induction "is" arbitrary: m mn mx l S)
  case (Cons i "is")
  from Cons.prems(3) obtain ph where h: "header_at elf hdr i = Ok ph"
    by (auto simp: outcome_iffs)
  show ?case
  proof (cases "ph_ty ph = 1")
    case False
    then have "load_segments W elf hdr is (m, mn, mx, l) = Ok (m', mn', mx', l')"
      using Cons.prems(3) h by simp
    moreover have "pt_loads elf hdr (i # is) = pt_loads elf hdr is"
      using h False by (simp add: pt_loads_def List.map_filter_simps)
    ultimately show ?thesis using Cons.IH [OF Cons.prems(1,2)] by simp
  next
    case True
    then obtain st where ls: "load_segment W elf ph (m, mn, mx, l) = Ok st"
      and rest: "load_segments W elf hdr is st = Ok (m', mn', mx', l')"
      using Cons.prems(3) h by (auto simp: outcome_iffs)
    obtain m1 where st: "st = (m1, Some (case mn of None \<Rightarrow> ph_paddr ph | Some c \<Rightarrow> min c (ph_paddr ph)),
        max mx (ph_paddr ph + ph_memsz ph), True)" "winv m1" "byte_at m1 = put_segment elf (byte_at m) ph"
      and e: "unat (ph_paddr ph + ph_memsz ph) = unat (ph_paddr ph) + unat (ph_memsz ph)"
      using load_segment_ok [OF Cons.prems(1) ls] by blast
    have um: "unat (max a b) = max (unat a) (unat b)" for a b :: u64 by (simp add: max_def word_le_nat_alt)
    have "bounds_of (S @ [ph]) (Some (case mn of None \<Rightarrow> ph_paddr ph | Some c \<Rightarrow> min c (ph_paddr ph)))
        (max mx (ph_paddr ph + ph_memsz ph)) True"
      using Cons.prems(2) e by (cases "S = []") (auto simp: bounds_of_def um min.commute max.commute Max_insert)
    moreover have "pt_loads elf hdr (i # is) = ph # pt_loads elf hdr is"
      using h True by (simp add: pt_loads_def List.map_filter_simps)
    ultimately show ?thesis using Cons.IH [where S = "S @ [ph]", OF st(2) _ rest [unfolded st(1)]] st(3) by simp
  qed
qed (simp add: pt_loads_def List.map_filter_simps)

lemma load_elf_ok:
  assumes "winv m" "load_elf elf W m = Ok (m', r)"
  shows "winv m' \<and> (\<exists>hdr. parse_elf_header elf = Ok hdr \<and>
    (let segs = pt_loads elf hdr [0..<unat (eh_phnum hdr)] in
     segs \<noteq> [] \<and> byte_at m' = foldl (put_segment elf) (byte_at m) segs \<and>
     kernel_load r = Min (ph_paddr ` set segs) \<and>
     unat (kernel_end r) = Max ((\<lambda>ph. unat (ph_paddr ph) + unat (ph_memsz ph)) ` set segs) \<and>
     entry_point r = eh_entry hdr))"
proof -
  obtain hdr mn mx l where hdr: "parse_elf_header elf = Ok hdr"
    and ls: "load_segments W elf hdr [0..<unat (eh_phnum hdr)] (m, None, 0, False) = Ok (m', mn, mx, l)"
    and r: "l" "mn = Some (kernel_load r)" "kernel_end r = mx" "entry_point r = eh_entry hdr"
    using assms(2) by (auto simp: load_elf_def outcome_iffs split: if_splits)
  let ?segs = "pt_loads elf hdr [0..<unat (eh_phnum hdr)]"
  have "bounds_of [] None 0 False" by (simp add: bounds_of_def)
  from load_segments_ok [OF assms(1) this ls]
  have k: "winv m'" "bounds_of ?segs mn mx l" "byte_at m' = foldl (put_segment elf) (byte_at m) ?segs" by simp_all
  then have "?segs \<noteq> []" "kernel_load r = Min (ph_paddr ` set ?segs)"
    "unat mx = Max (insert 0 ((\<lambda>ph. unat (ph_paddr ph) + unat (ph_memsz ph)) ` set ?segs))"
    using r by (auto simp: bounds_of_def split: if_splits)
  then show ?thesis using hdr k(1,3) r by (auto simp: Let_def)
qed

end

section \<open>Properties\<close>

text \<open>C24: loading a kernel. When \<open>load_elf\<close> succeeds, guest memory is the old memory with the loadable
  segments of the file placed over it in order, each with its file bytes followed by zeros up to
  its size in memory, and with nothing else changed; the reported range runs from the lowest
  segment address to the highest segment end, and the entry point is the header's.\<close>

theorem elf_load_correct:
  assumes "mem_writer W winv byte_at" "winv m" "load_elf elf W m = Ok (m', r)"
  shows "\<exists>hdr. parse_elf_header elf = Ok hdr \<and>
    (let segs = pt_loads elf hdr [0..<unat (eh_phnum hdr)] in
     segs \<noteq> [] \<and> byte_at m' = foldl (put_segment elf) (byte_at m) segs \<and>
     kernel_load r = Min (ph_paddr ` set segs) \<and>
     unat (kernel_end r) = Max ((\<lambda>ph. unat (ph_paddr ph) + unat (ph_memsz ph)) ` set segs) \<and>
     entry_point r = eh_entry hdr)"
  using mem_writer.load_elf_ok [OF assms] by blast

definition demo_elf :: bytes where
  "demo_elf = ELF_MAGIC @ [2, 1, 1, 0, 0, 0, 0, 0, 0, 0, 0, 0, 2, 0, 62, 0, 1, 0, 0, 0] @
     [0x00, 0x10, 0, 0, 0, 0, 0, 0] @ [64, 0, 0, 0, 0, 0, 0, 0] @ [0, 0, 0, 0, 0, 0, 0, 0] @ [0, 0, 0, 0] @
     [64, 0] @ [56, 0] @ [1, 0] @ [0, 0, 0, 0, 0, 0] @
     [1, 0, 0, 0, 5, 0, 0, 0] @ [120, 0, 0, 0, 0, 0, 0, 0] @ [0, 0, 0, 0, 0, 0, 0, 0] @ [0x00, 0x10, 0, 0, 0, 0, 0, 0] @
     [2, 0, 0, 0, 0, 0, 0, 0] @ [4, 0, 0, 0, 0, 0, 0, 0] @ [0, 0, 0, 0, 0, 0, 0, 0] @ [0xAA, 0xBB]"

definition demo_phdr :: Elf64Phdr where
  "demo_phdr = \<lparr>ph_ty = 1, ph_offset = 120, ph_paddr = 0x1000, ph_filesz = 2, ph_memsz = 4\<rparr>"

definition demo_hdr :: Elf64Header where
  "demo_hdr = \<lparr>eh_entry = 0x1000, eh_phoff = 64, eh_phentsize = 56, eh_phnum = 1\<rparr>"

lemma demo_elf_headers: "parse_elf_header demo_elf = Ok demo_hdr" "header_at demo_elf demo_hdr 0 = Ok demo_phdr"
  by (simp_all add: parse_elf_header_def header_at_def parse_program_header_def read_le_def demo_elf_def ELF_MAGIC_def
    add_checked_panic_def checked_add_def get_range_def ok_or_def demo_hdr_def demo_phdr_def)

lemma demo_elf_segments: "pt_loads demo_elf demo_hdr [0..<unat (eh_phnum demo_hdr)] = [demo_phdr]"
  using demo_elf_headers(2) by (simp add: pt_loads_def List.map_filter_simps demo_hdr_def demo_phdr_def)

lemma demo_elf_loads: "\<exists>m' r. load_elf demo_elf gm_writer demo_mem = Ok (m', r)"
proof -
  obtain m1 where m1: "write_slice demo_mem 0x1000 [0xAA, 0xBB] = Inr m1" "gm_inv m1" "gm_mapped m1 = gm_mapped demo_mem"
    using write_slice_mapped [OF demo_mem_inv, of "0x1000" "[0xAA, 0xBB]"] by (auto simp: demo_mem_mapped)
  have "gm_mapped m1 0x1002 2" unfolding m1(3) by (simp add: demo_mem_mapped)
  then obtain m2 where m2: "write_zeroes_slices m1 0x1002 2 = (m2, None)"
    using write_zeroes_mapped [OF m1(2)] by blast
  have data: "get_range demo_elf 120 122 = Some [0xAA, 0xBB]"
    by (simp add: get_range_def demo_elf_def ELF_MAGIC_def)
  have f: "load_file_part gm_writer demo_elf demo_phdr demo_mem = Ok m1"
    using data m1(1) by (simp add: load_file_part_def demo_phdr_def checked_add_def ok_or_def gm_writer_def of_result_def)
  have b: "load_bss_part gm_writer demo_phdr m1 = Ok m2"
    using m2 by (simp add: load_bss_part_def demo_phdr_def checked_add_def checked_sub_def ok_or_def gm_writer_def of_result_def)
  have e: "checked_add (ph_paddr demo_phdr) (ph_memsz demo_phdr) = Some 0x1004"
    by (simp add: demo_phdr_def checked_add_def)
  have n: "[0..<unat (eh_phnum demo_hdr)] = [0]" "ph_ty demo_phdr = 1" by (simp_all add: demo_hdr_def demo_phdr_def)
  show ?thesis
    using demo_elf_headers n f b e by (simp add: load_elf_def load_segment_def ok_or_def)
qed

theorem elf_load_correct_witness:
  "\<exists>m' r. load_elf demo_elf gm_writer demo_mem = Ok (m', r) \<and> kernel_load r = 0x1000 \<and> unat (kernel_end r) = 0x1004 \<and>
     entry_point r = 0x1000 \<and> gm_byte m' 0x1001 = 0xBB \<and> gm_byte m' 0x1002 = 0"
proof -
  obtain m' r where l: "load_elf demo_elf gm_writer demo_mem = Ok (m', r)" using demo_elf_loads by blast
  have "demo_elf ! 121 = 0xBB" by (simp add: demo_elf_def ELF_MAGIC_def)
  then have "kernel_load r = 0x1000 \<and> unat (kernel_end r) = 0x1004 \<and> entry_point r = 0x1000 \<and>
      gm_byte m' 0x1001 = 0xBB \<and> gm_byte m' 0x1002 = 0"
    using elf_load_correct [OF gmw.mem_writer_axioms demo_mem_inv l] demo_elf_headers(1)
    by (auto simp: demo_elf_segments Let_def) (simp_all add: put_segment_def demo_phdr_def demo_hdr_def)
  with l show ?thesis by blast
qed

lemma align_4096:
  fixes a :: u64
  assumes "unat a + 0xFFF < 2 ^ 64"
  shows "unat ((a + 0xFFF) AND NOT 0xFFF) = (unat a + 0xFFF) div 4096 * 4096"
proof -
  have m: "(0xFFF :: u64) = mask 12" by (simp add: mask_eq_exp_minus_1)
  have "unat (a + 0xFFF) = unat a + 0xFFF" using assms by (simp add: unat_word_ariths)
  then show ?thesis
    unfolding m by (simp add: unat_and_not_mask)
qed

text \<open>Placing the initramfs. A non-empty archive that fits goes to the first page boundary at or
  above the end of the kernel, ends within RAM, and is written there and nowhere else; the reported
  address and size are the ones used. It is refused when it is empty, when it would end beyond RAM,
  or when the write fails, and the unchecked additions panic exactly when they leave 64 bits.\<close>

theorem initramfs_placement:
  assumes "mem_writer W winv byte_at" "winv m" "length data < 2 ^ 64"
  shows "let g = (unat kend + 0xFFF) div 4096 * 4096 in
    case load_initramfs data kend ram W m of
      Ok (m', r) \<Rightarrow> unat (initramfs_gpa r) = g \<and> unat (initramfs_size r) = length data \<and>
        unat kend \<le> g \<and> g < unat kend + 4096 \<and> g + length data \<le> unat ram \<and>
        (\<forall>x. byte_at m' x = (if g \<le> unat x \<and> unat x < g + length data then data ! (unat x - g) else byte_at m x))
    | Err e \<Rightarrow> data = [] \<or> unat ram < g + length data \<or> write_bytes W m (of_nat g) data = Inl e
    | Panic \<Rightarrow> data \<noteq> [] \<and> (2 ^ 64 \<le> unat kend + 0xFFF \<or> 2 ^ 64 \<le> g + length data)"
proof -
  define g where "g = (unat kend + 0xFFF) div 4096 * 4096"
  have "(unat kend + 0xFFF) mod 4096 < 4096" by simp
  then have g: "unat kend \<le> g" "g < unat kend + 4096"
    unfolding g_def using div_mult_mod_eq [of "unat kend + 0xFFF" 4096] by linarith+
  let ?l = "of_nat (length data) :: u64"
  have l: "unat ?l = length data" using assms(3) by (intro unat_of_nat_eq) simp
  consider "data = []" | "data \<noteq> []" "2 ^ 64 \<le> unat kend + 0xFFF"
    | "data \<noteq> []" "unat kend + 0xFFF < 2 ^ 64" "2 ^ 64 \<le> g + length data"
    | "data \<noteq> []" "unat kend + 0xFFF < 2 ^ 64" "g + length data < 2 ^ 64" by linarith
  then show ?thesis
  proof cases
    case 4
    define a where "a = (kend + 0xFFF) AND NOT 0xFFF"
    have a: "unat a = g" using align_4096 [OF 4(2)] by (simp add: a_def g_def)
    moreover have "g < 2 ^ LENGTH(64)" using 4(3) by simp
    ultimately have ag: "a = of_nat g" by (simp only: word_unat_eq_iff unat_of_nat_eq)
    have a': "(kend + 0xFFF) AND - 0x1000 = a" by (simp add: a_def)
    have e: "add_checked_panic kend 0xFFF = (Ok (kend + 0xFFF) :: (BootError, u64) outcome)"
      "add_checked_panic a ?l = (Ok (a + ?l) :: (BootError, u64) outcome)"
      using 4 a l by (simp_all add: add_checked_panic_def checked_add_def)
    have al: "unat (a + ?l) = g + length data" using 4(3) a l by (simp add: unat_word_ariths)
    show ?thesis
    proof (cases "ram < a + ?l")
      case True
      then have "unat ram < g + length data" using al by (simp add: word_less_nat_alt)
      then show ?thesis using True 4 e by (simp add: load_initramfs_def a' g_def [symmetric] Let_def)
    next
      case False
      then have "g + length data \<le> unat ram" using al by (simp add: word_less_nat_alt)
      then show ?thesis
        using False 4 e g l a mem_writer.write_bytes_ok [OF assms(1,2), of a data]
        by (cases "write_bytes W m a data")
          (simp_all add: load_initramfs_def a' g_def [symmetric] Let_def of_result_def ag [symmetric])
    qed
  next
    case 3
    then have "add_checked_panic kend 0xFFF = (Ok (kend + 0xFFF) :: (BootError, u64) outcome)"
      "add_checked_panic ((kend + 0xFFF) AND NOT 0xFFF) ?l = (Panic :: (BootError, u64) outcome)"
      using align_4096 [OF 3(2)] l by (simp_all add: add_checked_panic_def checked_add_def g_def [symmetric])
    then show ?thesis using 3 by (simp add: load_initramfs_def g_def [symmetric] Let_def)
  qed (simp_all add: load_initramfs_def add_checked_panic_def checked_add_def)
qed

theorem initramfs_placement_witness:
  "\<exists>m' r. load_initramfs [1, 2, 3] 0x1004 0x3000 gm_writer demo_mem = Ok (m', r) \<and> initramfs_gpa r = 0x2000 \<and>
     gm_byte m' 0x2002 = 3"
proof -
  obtain m1 where m1: "write_slice demo_mem 0x2000 [1, 2, 3] = Inr m1"
    using write_slice_mapped [OF demo_mem_inv, of "0x2000" "[1, 2, 3]"] by (auto simp: demo_mem_mapped)
  then obtain r where l: "load_initramfs [1, 2, 3] 0x1004 0x3000 gm_writer demo_mem = Ok (m1, r)"
    by (simp add: load_initramfs_def add_checked_panic_def checked_add_def gm_writer_def of_result_def)
  from initramfs_placement [OF gmw.mem_writer_axioms demo_mem_inv, of "[1, 2, 3]" "0x1004" "0x3000"]
  have "unat (initramfs_gpa r) = 0x2000" "gm_byte m1 0x2002 = 3" by (simp_all add: l)
  then have "initramfs_gpa r = 0x2000" by (simp add: word_unat_eq_iff)
  with l \<open>gm_byte m1 0x2002 = 3\<close> show ?thesis by blast
qed

end
