(* ===== verification/Page_Tables.thy ===== *)
theory Page_Tables
  imports Boot_Types
begin

text \<open>
  The identity-mapped page tables of \<open>hitz-boot/src/page_tables.rs\<close>: one PML4 page, one PDPT page and one
  page directory of 2 MiB pages per GiB. The specification is the page walk of the processor over
  byte-addressed memory; addresses of the walk are natural numbers.
\<close>

section \<open>Model\<close>

definition PML4_GPA :: u64 where "PML4_GPA = 0x8000"
definition PDPT_GPA :: u64 where "PDPT_GPA = 0x9000"
definition PD_BASE_GPA :: u64 where "PD_BASE_GPA = 0xA000"
definition TABLE_FLAGS :: u64 where "TABLE_FLAGS = 0x3"
definition HUGE_PAGE_FLAGS :: u64 where "HUGE_PAGE_FLAGS = 0x83"
definition PAGE_SIZE :: nat where "PAGE_SIZE = 4096"
definition ENTRIES_PER_TABLE :: nat where "ENTRIES_PER_TABLE = 512"
definition HUGE_PAGE_SIZE :: u64 where "HUGE_PAGE_SIZE = 2 * 1024 * 1024"
definition ONE_GIB :: u64 where "ONE_GIB = 1024 * 1024 * 1024"
definition MAX_GIB :: u32 where "MAX_GIB = 512"

lemmas pt_consts = PML4_GPA_def PDPT_GPA_def PD_BASE_GPA_def TABLE_FLAGS_def HUGE_PAGE_FLAGS_def PAGE_SIZE_def
  ENTRIES_PER_TABLE_def HUGE_PAGE_SIZE_def ONE_GIB_def MAX_GIB_def

definition write_entry :: "bytes \<Rightarrow> nat \<Rightarrow> u64 \<Rightarrow> bytes" where
  "write_entry table index val = (let offset = index * 8 in copy_at table offset (le_bytes 8 val))"

definition pd_gpa :: "nat \<Rightarrow> u64" where
  "pd_gpa i = PD_BASE_GPA + of_nat i * of_nat PAGE_SIZE"

definition phys_addr :: "nat \<Rightarrow> nat \<Rightarrow> u64" where
  "phys_addr i j = of_nat i * ONE_GIB + of_nat j * HUGE_PAGE_SIZE"

definition build_page_tables :: "u32 \<Rightarrow> BootError + u64 \<times> MemWrite list" where
  "build_page_tables gib_count =
     (if gib_count = 0 \<or> MAX_GIB < gib_count
      then Inl (InvalidPageTableConfig (''gib_count must be in 1..='' @ show_dec (unat MAX_GIB) @ '', got '' @
             show_dec (unat gib_count)))
      else
        let pml4 = write_entry (replicate PAGE_SIZE 0) 0 (PDPT_GPA OR TABLE_FLAGS);
            pdpt = foldl (\<lambda>t i. write_entry t i (pd_gpa i OR TABLE_FLAGS)) (replicate PAGE_SIZE 0) [0..<unat gib_count];
            pds = map (\<lambda>i. \<lparr>mw_gpa = pd_gpa i,
                     mw_data = foldl (\<lambda>t j. write_entry t j (phys_addr i j OR HUGE_PAGE_FLAGS))
                       (replicate PAGE_SIZE 0) [0..<ENTRIES_PER_TABLE]\<rparr>) [0..<unat gib_count]
        in Inr (PML4_GPA, [\<lparr>mw_gpa = PML4_GPA, mw_data = pml4\<rparr>, \<lparr>mw_gpa = PDPT_GPA, mw_data = pdpt\<rparr>] @ pds))"

section \<open>The page walk\<close>

text \<open>Byte-addressed memory, the effect of a chunk written into it, and reading a table entry.\<close>

type_synonym memory = "nat \<Rightarrow> u8"

definition apply_write :: "memory \<Rightarrow> MemWrite \<Rightarrow> memory" where
  "apply_write m w = (\<lambda>a. if unat (mw_gpa w) \<le> a \<and> a < unat (mw_gpa w) + length (mw_data w)
     then mw_data w ! (a - unat (mw_gpa w)) else m a)"

definition entry_at :: "memory \<Rightarrow> nat \<Rightarrow> u64" where
  "entry_at m a = of_le_bytes (map (\<lambda>i. m (a + i)) [0..<8])"

definition frame_of :: "u64 \<Rightarrow> nat" where
  "frame_of e = unat (e AND 0x000FFFFFFFFFF000)"

definition large_frame_of :: "u64 \<Rightarrow> nat" where
  "large_frame_of e = unat (e AND 0x000FFFFFFFE00000)"

text \<open>Four-level walk of a 48-bit address with 2 MiB pages at the third level: \<open>None\<close> is a page fault;
  the walk also fails on a fourth-level table, which the VMM never builds.\<close>

definition page_walk :: "memory \<Rightarrow> nat \<Rightarrow> nat \<Rightarrow> nat option" where
  "page_walk m root va =
     (let e4 = entry_at m (root + 8 * (va div 2 ^ 39 mod 512)) in
      if \<not> (bit e4 0 \<and> bit e4 1) then None
      else let e3 = entry_at m (frame_of e4 + 8 * (va div 2 ^ 30 mod 512)) in
        if \<not> (bit e3 0 \<and> bit e3 1) \<or> bit e3 7 then None
        else let e2 = entry_at m (frame_of e3 + 8 * (va div 2 ^ 21 mod 512)) in
          if \<not> (bit e2 0 \<and> bit e2 1) \<or> \<not> bit e2 7 then None
          else Some (large_frame_of e2 + va mod 2 ^ 21))"

section \<open>Lemmas\<close>

lemma fill_table:
  assumes "n \<le> k" "length t = 8 * k"
  shows "length (foldl (\<lambda>t i. write_entry t i (f i)) t [0..<n]) = 8 * k \<and>
    (\<forall>j<k. take 8 (drop (8 * j) (foldl (\<lambda>t i. write_entry t i (f i)) t [0..<n])) =
       (if j < n then le_bytes 8 (f j) else take 8 (drop (8 * j) t)))"
  using assms(1)
proof (induction n)
  case (Suc n)
  let ?t = "foldl (\<lambda>t i. write_entry t i (f i)) t [0..<n]"
  have IH: "length ?t = 8 * k" "\<And>j. j < k \<Longrightarrow> take 8 (drop (8 * j) ?t) =
      (if j < n then le_bytes 8 (f j) else take 8 (drop (8 * j) t))"
    using Suc by simp_all
  have w: "write_entry ?t n (f n) = copy_at ?t (8 * n) (le_bytes 8 (f n))"
    by (simp add: write_entry_def mult.commute)
  have fit: "8 * n + length (le_bytes 8 (f n)) \<le> length ?t" using IH(1) Suc.prems by simp
  have "take 8 (drop (8 * j) (write_entry ?t n (f n))) =
      (if j < Suc n then le_bytes 8 (f j) else take 8 (drop (8 * j) t))" if "j < k" for j
  proof (cases "j = n")
    case True
    then show ?thesis using take_drop_copy_at_same [OF fit] by (simp add: w)
  next
    case False
    then have "8 * j + 8 \<le> 8 * n \<or> 8 * n + length (le_bytes 8 (f n)) \<le> 8 * j" by auto
    with take_drop_copy_at_other [OF fit, of "8 * j" 8] IH(2) [OF that] False show ?thesis by (auto simp: w)
  qed
  with IH(1) fit show ?case by (simp add: w)
qed (use assms in simp)

lemma entry_of_write:
  assumes "take 8 (drop (8 * j) (mw_data w)) = le_bytes 8 e" "8 * j + 8 \<le> length (mw_data w)"
  shows "entry_at (apply_write m w) (unat (mw_gpa w) + 8 * j) = e"
proof -
  have "map (\<lambda>i. apply_write m w (unat (mw_gpa w) + 8 * j + i)) [0..<8] = take 8 (drop (8 * j) (mw_data w))"
    using assms(2) by (intro nth_equalityI) (auto simp: apply_write_def)
  then show ?thesis using assms(1) by (simp add: entry_at_def of_le_bytes_le_bytes)
qed

lemma entry_beside_write:
  "a + 8 \<le> unat (mw_gpa w) \<or> unat (mw_gpa w) + length (mw_data w) \<le> a \<Longrightarrow> entry_at (apply_write m w) a = entry_at m a"
  by (auto simp: entry_at_def apply_write_def intro!: arg_cong [of _ _ of_le_bytes])

lemma entry_beside_writes:
  "\<forall>w\<in>set ws. a + 8 \<le> unat (mw_gpa w) \<or> unat (mw_gpa w) + length (mw_data w) \<le> a \<Longrightarrow>
     entry_at (foldl apply_write m ws) a = entry_at m a"
proof (induction ws arbitrary: m)
  case (Cons w ws)
  then show ?case using entry_beside_write [of a w m] by simp
qed simp

lemma frame_masks:
  "(0x000FFFFFFFFFF000 :: u64) = mask 52 AND NOT (mask 12)" "(0x000FFFFFFFE00000 :: u64) = mask 52 AND NOT (mask 21)"
  by (simp_all add: mask_eq_exp_minus_1)

lemma no_bit_above:
  assumes "unat x < 2 ^ k" "k \<le> n"
  shows "\<not> bit (x :: u64) n"
proof -
  have "unat x < 2 ^ n" using assms by (meson less_le_trans one_le_numeral power_increasing)
  then have "\<not> bit (unat x) n" by (simp add: bit_iff_odd)
  then show ?thesis by (simp add: bit_unsigned_iff)
qed

lemma frame_of_flags:
  assumes "unat x = k * 2 ^ l" "unat x < 2 ^ 52" "unat f < 2 ^ l" "l < 52"
  shows "(x OR f) AND (mask 52 AND NOT (mask l)) = (x :: u64)" "n < l \<Longrightarrow> bit (x OR f) n = bit f n"
proof -
  have low: "\<not> bit x n" if "n < l" for n
  proof -
    have "bit (unat x) n \<longleftrightarrow> odd (k * 2 ^ l div 2 ^ n)" by (simp add: assms(1) bit_iff_odd)
    moreover have "k * 2 ^ l div 2 ^ n = k * 2 ^ (l - n)" using that
      by (simp add: div_mult_swap le_imp_power_dvd power_diff)
    ultimately show ?thesis using that by (simp add: bit_unsigned_iff)
  qed
  have high: "\<not> bit x n" if "52 \<le> n" for n
    using assms(2) that by (intro no_bit_above [of x 52]) simp_all
  have f: "\<not> bit f n" if "l \<le> n" for n
    using assms(3) that by (intro no_bit_above [of f l]) simp_all
  have "n < 52" if "bit x n" for n using high [of n] that by (meson not_le)
  then show "(x OR f) AND (mask 52 AND NOT (mask l)) = x"
    by (intro bit_word_eqI) (use low f in \<open>auto simp: bit_simps not_le\<close>)
  show "n < l \<Longrightarrow> bit (x OR f) n = bit f n" using low by (simp add: bit_or_iff)
qed

lemma unat_pd_gpa: "i < 512 \<Longrightarrow> unat (pd_gpa i) = 0xA000 + i * 4096"
proof -
  assume "i < 512"
  then have "pd_gpa i = of_nat (0xA000 + i * 4096)" by (simp add: pd_gpa_def pt_consts)
  moreover have "unat (of_nat (0xA000 + i * 4096) :: u64) = 0xA000 + i * 4096"
    using \<open>i < 512\<close> by (intro unat_of_nat_eq) simp
  ultimately show ?thesis by metis
qed

lemma unat_phys_addr: "i < 512 \<Longrightarrow> j < 512 \<Longrightarrow> unat (phys_addr i j) = i * 2 ^ 30 + j * 2 ^ 21"
proof -
  assume ij: "i < 512" "j < 512"
  have "phys_addr i j = of_nat (i * 2 ^ 30 + j * 2 ^ 21)" by (simp add: phys_addr_def pt_consts)
  moreover have "unat (of_nat (i * 2 ^ 30 + j * 2 ^ 21) :: u64) = i * 2 ^ 30 + j * 2 ^ 21"
    using ij by (intro unat_of_nat_eq) simp
  ultimately show ?thesis by metis
qed

lemma table_entry:
  assumes "unat x = k * 4096" "unat x < 2 ^ 52"
  shows "frame_of (x OR TABLE_FLAGS) = unat x" "bit (x OR TABLE_FLAGS) 0" "bit (x OR TABLE_FLAGS) 1" "\<not> bit (x OR TABLE_FLAGS) 7"
proof -
  have f: "unat TABLE_FLAGS < 2 ^ 12" "bit TABLE_FLAGS 0" "bit TABLE_FLAGS 1" "\<not> bit TABLE_FLAGS 7"
    by (simp_all add: TABLE_FLAGS_def bit_simps)
  have "unat x = k * 2 ^ 12" using assms(1) by simp
  have "(12 :: nat) < 52" by simp
  note ff = frame_of_flags [OF \<open>unat x = k * 2 ^ 12\<close> assms(2) f(1) this]
  show "frame_of (x OR TABLE_FLAGS) = unat x" unfolding frame_of_def frame_masks by (simp only: ff(1))
  show "bit (x OR TABLE_FLAGS) 0" "bit (x OR TABLE_FLAGS) 1" "\<not> bit (x OR TABLE_FLAGS) 7"
    using ff(2) [of 0] ff(2) [of 1] ff(2) [of 7] f by (simp_all del: bit_0)
qed

lemma huge_entry:
  assumes "unat x = k * 2 ^ 21" "unat x < 2 ^ 52"
  shows "large_frame_of (x OR HUGE_PAGE_FLAGS) = unat x" "bit (x OR HUGE_PAGE_FLAGS) 0" "bit (x OR HUGE_PAGE_FLAGS) 1"
    "bit (x OR HUGE_PAGE_FLAGS) 7"
proof -
  have f: "unat HUGE_PAGE_FLAGS < 2 ^ 21" "bit HUGE_PAGE_FLAGS 0" "bit HUGE_PAGE_FLAGS 1" "bit HUGE_PAGE_FLAGS 7"
    by (simp_all add: HUGE_PAGE_FLAGS_def bit_simps)
  have "(21 :: nat) < 52" by simp
  note ff = frame_of_flags [OF assms f(1) this]
  show "large_frame_of (x OR HUGE_PAGE_FLAGS) = unat x" unfolding large_frame_of_def frame_masks by (simp only: ff(1))
  show "bit (x OR HUGE_PAGE_FLAGS) 0" "bit (x OR HUGE_PAGE_FLAGS) 1" "bit (x OR HUGE_PAGE_FLAGS) 7"
    using ff(2) [of 0] ff(2) [of 1] ff(2) [of 7] f by (simp_all del: bit_0)
qed

text \<open>Every entry of the three levels, after all chunks are written.\<close>

lemma table_contents:
  assumes "build_page_tables g = Inr (root, ws)"
  shows "root = PML4_GPA" "0 < unat g" "unat g \<le> 512"
    "k < 512 \<Longrightarrow> entry_at (foldl apply_write m ws) (0x8000 + 8 * k) = (if k = 0 then PDPT_GPA OR TABLE_FLAGS else 0)"
    "k < 512 \<Longrightarrow> entry_at (foldl apply_write m ws) (0x9000 + 8 * k) = (if k < unat g then pd_gpa k OR TABLE_FLAGS else 0)"
    "i < unat g \<Longrightarrow> j < 512 \<Longrightarrow>
       entry_at (foldl apply_write m ws) (unat (pd_gpa i) + 8 * j) = phys_addr i j OR HUGE_PAGE_FLAGS"
proof -
  let ?z = "replicate 4096 0 :: bytes"
  define p4 where "p4 = write_entry ?z 0 (PDPT_GPA OR TABLE_FLAGS)"
  define p3 where "p3 = foldl (\<lambda>t i. write_entry t i (pd_gpa i OR TABLE_FLAGS)) ?z [0..<unat g]"
  define p2 where "p2 = (\<lambda>i. foldl (\<lambda>t j. write_entry t j (phys_addr i j OR HUGE_PAGE_FLAGS)) ?z [0..<512])"
  define W where "W = (\<lambda>i. \<lparr>mw_gpa = pd_gpa i, mw_data = p2 i\<rparr>)"
  show g: "0 < unat g" "unat g \<le> 512" and "root = PML4_GPA"
    using assms by (auto simp: build_page_tables_def Let_def MAX_GIB_def word_less_nat_alt unat_gt_0 split: if_splits)
  have ws: "ws = [\<lparr>mw_gpa = PML4_GPA, mw_data = p4\<rparr>, \<lparr>mw_gpa = PDPT_GPA, mw_data = p3\<rparr>] @ map W [0..<unat g]"
    using assms by (auto simp: build_page_tables_def Let_def p4_def p3_def p2_def W_def PAGE_SIZE_def ENTRIES_PER_TABLE_def split: if_splits)
  have z8: "take 8 (drop (8 * k) ?z) = le_bytes 8 (0 :: u64)" if "k < 512" for k
    using that by (intro nth_equalityI) (auto simp: le_bytes_nth)
  have len: "length p4 = 4096" "length p3 = 4096" "length (p2 i) = 4096" for i
    using fill_table [of 1 512 ?z "\<lambda>_. PDPT_GPA OR TABLE_FLAGS"] fill_table [of "unat g" 512 ?z "\<lambda>i. pd_gpa i OR TABLE_FLAGS"]
      fill_table [of 512 512 ?z "\<lambda>j. phys_addr i j OR HUGE_PAGE_FLAGS"] g
    by (simp_all add: p4_def p3_def p2_def)
  have beside: "entry_at (foldl apply_write x (map W is)) a = entry_at x a"
    if "a + 8 \<le> 0xA000" "set is \<subseteq> {0..<512}" for x a "is"
    using that by (intro entry_beside_writes) (force simp: W_def unat_pd_gpa)
  have sub: "set [0..<unat g] \<subseteq> {0..<512}" using g(2) by auto
  let ?m1 = "apply_write m \<lparr>mw_gpa = PML4_GPA, mw_data = p4\<rparr>"
  let ?m2 = "apply_write ?m1 \<lparr>mw_gpa = PDPT_GPA, mw_data = p3\<rparr>"
  show "entry_at (foldl apply_write m ws) (0x8000 + 8 * k) = (if k = 0 then PDPT_GPA OR TABLE_FLAGS else 0)" if k: "k < 512"
  proof -
    have "entry_at (foldl apply_write m ws) (0x8000 + 8 * k) = entry_at ?m2 (0x8000 + 8 * k)"
      using k beside [OF _ sub] by (simp add: ws)
    also have "\<dots> = entry_at ?m1 (0x8000 + 8 * k)"
      using k by (intro entry_beside_write) (simp add: PDPT_GPA_def)
    also have "\<dots> = (if k = 0 then PDPT_GPA OR TABLE_FLAGS else 0)"
      using fill_table [of 1 512 ?z "\<lambda>_. PDPT_GPA OR TABLE_FLAGS"] k z8 [OF k] len
        entry_of_write [of k "\<lparr>mw_gpa = PML4_GPA, mw_data = p4\<rparr>" "if k = 0 then PDPT_GPA OR TABLE_FLAGS else 0" m]
      by (simp add: p4_def PML4_GPA_def)
    finally show ?thesis .
  qed
  show "entry_at (foldl apply_write m ws) (0x9000 + 8 * k) = (if k < unat g then pd_gpa k OR TABLE_FLAGS else 0)" if k: "k < 512"
  proof -
    have "entry_at (foldl apply_write m ws) (0x9000 + 8 * k) = entry_at ?m2 (0x9000 + 8 * k)"
      using k beside [OF _ sub] by (simp add: ws)
    also have "\<dots> = (if k < unat g then pd_gpa k OR TABLE_FLAGS else 0)"
      using fill_table [of "unat g" 512 ?z "\<lambda>i. pd_gpa i OR TABLE_FLAGS"] k z8 [OF k] len g
        entry_of_write [of k "\<lparr>mw_gpa = PDPT_GPA, mw_data = p3\<rparr>" "if k < unat g then pd_gpa k OR TABLE_FLAGS else 0" ?m1]
      by (simp add: p3_def PDPT_GPA_def)
    finally show ?thesis .
  qed
  show "entry_at (foldl apply_write m ws) (unat (pd_gpa i) + 8 * j) = phys_addr i j OR HUGE_PAGE_FLAGS"
    if i: "i < unat g" and j: "j < 512"
  proof -
    have split: "[0..<unat g] = [0..<i] @ i # [Suc i..<unat g]"
      using i by (metis le0 less_imp_le upt_add_eq_append upt_conv_Cons add_0 le_add_diff_inverse)
    define x where "x = foldl apply_write ?m2 (map W [0..<i])"
    have "foldl apply_write m ws = foldl apply_write (apply_write x (W i)) (map W [Suc i..<unat g])"
      by (simp add: ws split x_def)
    moreover have "entry_at (foldl apply_write (apply_write x (W i)) (map W [Suc i..<unat g])) (unat (pd_gpa i) + 8 * j) =
        entry_at (apply_write x (W i)) (unat (pd_gpa i) + 8 * j)"
      using i j g by (intro entry_beside_writes) (auto simp: W_def unat_pd_gpa)
    moreover have "entry_at (apply_write x (W i)) (unat (pd_gpa i) + 8 * j) = phys_addr i j OR HUGE_PAGE_FLAGS"
      using fill_table [of 512 512 ?z "\<lambda>j. phys_addr i j OR HUGE_PAGE_FLAGS"] j len
        entry_of_write [of j "W i" "phys_addr i j OR HUGE_PAGE_FLAGS" x]
      by (simp add: W_def p2_def)
    ultimately show ?thesis by simp
  qed
qed

text \<open>A memory that holds the tables for \<open>g\<close> GiB, and the walk over it.\<close>

definition tables_in :: "nat \<Rightarrow> memory \<Rightarrow> bool" where
  "tables_in g M \<longleftrightarrow> 0 < g \<and> g \<le> 512 \<and>
     (\<forall>k<512. entry_at M (0x8000 + 8 * k) = (if k = 0 then PDPT_GPA OR TABLE_FLAGS else 0)) \<and>
     (\<forall>k<512. entry_at M (0x9000 + 8 * k) = (if k < g then pd_gpa k OR TABLE_FLAGS else 0)) \<and>
     (\<forall>i<g. \<forall>j<512. entry_at M (unat (pd_gpa i) + 8 * j) = phys_addr i j OR HUGE_PAGE_FLAGS)"

lemma built_tables_in:
  assumes "build_page_tables g = Inr (root, ws)"
  shows "root = PML4_GPA" "tables_in (unat g) (foldl apply_write m ws)"
  using table_contents [OF assms] by (simp_all add: tables_in_def)

lemma entry_at_cong: "(\<And>i. i < 8 \<Longrightarrow> M' (a + i) = M (a + i)) \<Longrightarrow> entry_at M' a = entry_at M a"
  unfolding entry_at_def by (intro arg_cong [where f = of_le_bytes] map_cong) simp_all

text \<open>Only the pages of the tables themselves matter.\<close>

lemma tables_in_cong:
  assumes "tables_in g M" "\<And>a. 0x8000 \<le> a \<Longrightarrow> a < 0xA000 + 4096 * g \<Longrightarrow> M' a = M a"
  shows "tables_in g M'"
proof -
  have "entry_at M' a = entry_at M a" if "0x8000 \<le> a" "a + 8 \<le> 0xA000 + 4096 * g" for a
    using that assms(2) by (intro entry_at_cong) simp
  moreover have "unat (pd_gpa i) + 8 * j + 8 \<le> 0xA000 + 4096 * g" "0x8000 \<le> unat (pd_gpa i) + 8 * j"
    if "i < g" "j < 512" for i j
    using that assms(1) by (simp_all add: tables_in_def unat_pd_gpa)
  ultimately show ?thesis using assms(1) by (simp add: tables_in_def)
qed

lemma tables_walk:
  assumes "tables_in g M" "va < 2 ^ 48"
  shows "page_walk M 0x8000 va = (if va < g * 2 ^ 30 then Some va else None)"
proof -
  define i where "i = va div 2 ^ 30 mod 512"
  define j where "j = va div 2 ^ 21 mod 512"
  have ij: "i < 512" "j < 512" by (simp_all add: i_def j_def)
  have n0: "\<not> bit (0 :: u64) 0" by simp
  have e4: "entry_at M (0x8000 + 8 * (va div 2 ^ 39 mod 512)) =
      (if va div 2 ^ 39 mod 512 = 0 then PDPT_GPA OR TABLE_FLAGS else 0)"
    using assms(1) unfolding tables_in_def by simp
  have e3: "entry_at M (0x9000 + 8 * i) = (if i < g then pd_gpa i OR TABLE_FLAGS else 0)"
    using assms(1) ij unfolding tables_in_def by simp
  have t4: "frame_of (PDPT_GPA OR TABLE_FLAGS) = 0x9000" "bit (PDPT_GPA OR TABLE_FLAGS) 0" "bit (PDPT_GPA OR TABLE_FLAGS) 1"
    using table_entry [of PDPT_GPA 9] by (simp_all add: PDPT_GPA_def del: bit_0)
  show ?thesis
  proof (cases "va < 2 ^ 39")
    case False
    then have "va div 2 ^ 39 mod 512 \<noteq> 0" using assms(2) by simp
    moreover have "\<not> va < g * 2 ^ 30" using False assms(1) unfolding tables_in_def by simp
    ultimately show ?thesis unfolding page_walk_def Let_def e4 by simp
  next
    case True
    then have z: "va div 2 ^ 39 mod 512 = 0" by simp
    have e4': "entry_at M (0x8000 + 8 * (va div 2 ^ 39 mod 512)) = PDPT_GPA OR TABLE_FLAGS"
      using e4 z by simp
    have iv: "i = va div 2 ^ 30" using True by (simp add: i_def)
    show ?thesis
    proof (cases "i < g")
      case False
      then have "\<not> va < g * 2 ^ 30" by (simp add: iv less_mult_imp_div_less)
      then show ?thesis using False
        unfolding page_walk_def Let_def e4' t4(1) i_def [symmetric] e3 by (simp add: t4(2,3) del: bit_0)
    next
      case ig: True
      have p: "unat (pd_gpa i) = (10 + i) * 4096" using ij(1) by (simp add: unat_pd_gpa)
      note t3 = table_entry [OF p]
      have q: "unat (phys_addr i j) = (i * 512 + j) * 2 ^ 21" using ij by (simp add: unat_phys_addr)
      note t2 = huge_entry [OF q]
      have e3': "entry_at M (0x9000 + 8 * i) = pd_gpa i OR TABLE_FLAGS" using e3 ig by simp
      have e2: "entry_at M (unat (pd_gpa i) + 8 * j) = phys_addr i j OR HUGE_PAGE_FLAGS"
        using assms(1) ig ij(2) unfolding tables_in_def by blast
      have "va div 2 ^ 21 div 512 = i" by (simp add: iv div_mult2_eq [symmetric])
      then have "va div 2 ^ 21 = i * 512 + j"
        using div_mult_mod_eq [of "va div 2 ^ 21" 512] unfolding j_def by metis
      then have "va = (i * 512 + j) * 2 ^ 21 + va mod 2 ^ 21"
        using div_mult_mod_eq [of va "2 ^ 21"] by metis
      moreover have "va < g * 2 ^ 30" using ig iv by (simp add: div_less_iff_less_mult)
      moreover have "unat (pd_gpa i) < 2 ^ 52" "unat (phys_addr i j) < 2 ^ 52" using p q ij by simp_all
      note t3 [OF this(1)] t2 [OF this(2)] t4(2,3)
      ultimately show ?thesis
        unfolding page_walk_def Let_def e4' t4(1) i_def [symmetric] j_def [symmetric] e3'
        by (simp add: e2 q del: bit_0)
    qed
  qed
qed

text \<open>The chunks fill the pages from the root to the last page directory.\<close>

lemma table_writes_bounds:
  assumes "build_page_tables g = Inr (root, ws)" "w \<in> set ws"
  shows "0x8000 \<le> unat (mw_gpa w)" "length (mw_data w) = 4096" "unat (mw_gpa w) + 4096 \<le> 0xA000 + 4096 * unat g"
proof -
  have g: "unat g \<le> 512" "0 < unat g" using table_contents [OF assms(1)] by simp_all
  have len: "length (foldl (\<lambda>t i. write_entry t i (f i)) (replicate 4096 0) [0..<n]) = 4096" if "n \<le> 512" for n f
    using fill_table [of n 512 "replicate 4096 0" f] that by simp
  have l0: "length (write_entry (replicate 4096 0) 0 v) = 4096" for v by (simp add: write_entry_def)
  have "ws = \<lparr>mw_gpa = PML4_GPA, mw_data = write_entry (replicate 4096 0) 0 (PDPT_GPA OR TABLE_FLAGS)\<rparr> #
      \<lparr>mw_gpa = PDPT_GPA, mw_data = foldl (\<lambda>t i. write_entry t i (pd_gpa i OR TABLE_FLAGS)) (replicate 4096 0) [0..<unat g]\<rparr> #
      map (\<lambda>i. \<lparr>mw_gpa = pd_gpa i, mw_data = foldl (\<lambda>t j. write_entry t j (phys_addr i j OR HUGE_PAGE_FLAGS))
         (replicate 4096 0) [0..<512]\<rparr>) [0..<unat g]"
    using assms(1) by (simp add: build_page_tables_def Let_def PAGE_SIZE_def ENTRIES_PER_TABLE_def split: if_splits)
  then consider "mw_gpa w = PML4_GPA" "length (mw_data w) = 4096" | "mw_gpa w = PDPT_GPA" "length (mw_data w) = 4096"
    | i where "i < unat g" "mw_gpa w = pd_gpa i" "length (mw_data w) = 4096"
    using assms(2) len g l0 by (auto simp del: upt_rec_numeral)
  then show "0x8000 \<le> unat (mw_gpa w)" "length (mw_data w) = 4096" "unat (mw_gpa w) + 4096 \<le> 0xA000 + 4096 * unat g"
    using g by (cases; simp add: PML4_GPA_def PDPT_GPA_def unat_pd_gpa)+
qed

section \<open>Properties\<close>



end
