(* ===== verification/Boot_Params.thy ===== *)
theory Boot_Params
  imports Boot_Types
begin

text \<open>
  The Linux zero page (\<open>hitz-boot/src/boot_params.rs\<close>): the packed structures with their byte layout,
  the builder with the E820 map, and the two setters for the initramfs and the ACPI root pointer.
\<close>

section \<open>Model\<close>

definition BOOT_PARAMS_GPA :: u64 where "BOOT_PARAMS_GPA = 0x7000"
definition CMDLINE_GPA :: u64 where "CMDLINE_GPA = 0x20000"
definition E820_RAM :: u32 where "E820_RAM = 1"
definition E820_RESERVED :: u32 where "E820_RESERVED = 2"

record BootE820Entry =
  e820_addr :: u64
  e820_size :: u64
  e820_type :: u32

record SetupHeader =
  setup_sects :: u8
  root_flags :: u16
  syssize :: u32
  hdr_ram_size :: u16
  vid_mode :: u16
  root_dev :: u16
  boot_flag :: u16
  hdr_jump :: u16
  hdr_magic :: u32
  hdr_version :: u16
  realmode_swtch :: u32
  start_sys_seg :: u16
  kernel_version :: u16
  type_of_loader :: u8
  loadflags :: u8
  setup_move_size :: u16
  code32_start :: u32
  ramdisk_image :: u32
  ramdisk_size :: u32
  bootsect_kludge :: u32
  heap_end_ptr :: u16
  ext_loader_ver :: u8
  ext_loader_type :: u8
  cmd_line_ptr :: u32
  initrd_addr_max :: u32
  kernel_alignment :: u32
  relocatable_kernel :: u8
  min_alignment :: u8
  xloadflags :: u16
  cmdline_size :: u32

definition setup_header_default :: SetupHeader where
  "setup_header_default =
     \<lparr>setup_sects = 0, root_flags = 0, syssize = 0, hdr_ram_size = 0, vid_mode = 0, root_dev = 0,
      boot_flag = 0, hdr_jump = 0, hdr_magic = 0, hdr_version = 0, realmode_swtch = 0, start_sys_seg = 0,
      kernel_version = 0, type_of_loader = 0, loadflags = 0, setup_move_size = 0, code32_start = 0,
      ramdisk_image = 0, ramdisk_size = 0, bootsect_kludge = 0, heap_end_ptr = 0, ext_loader_ver = 0,
      ext_loader_type = 0, cmd_line_ptr = 0, initrd_addr_max = 0, kernel_alignment = 0,
      relocatable_kernel = 0, min_alignment = 0, xloadflags = 0, cmdline_size = 0\<rparr>"

text \<open>The padding fields are private and zero from construction on; they appear in the byte layout only.\<close>

record BootParams =
  acpi_rsdp_addr :: u64
  e820_entries :: u8
  bp_hdr :: SetupHeader
  e820_table :: "BootE820Entry list"

definition e820_default :: BootE820Entry where
  "e820_default = \<lparr>e820_addr = 0, e820_size = 0, e820_type = 0\<rparr>"

definition boot_params_default :: BootParams where
  "boot_params_default =
     \<lparr>acpi_rsdp_addr = 0, e820_entries = 0, bp_hdr = setup_header_default, e820_table = replicate 128 e820_default\<rparr>"

definition build_boot_params :: "u64 \<Rightarrow> u64 \<Rightarrow> BootError + BootParams" where
  "build_boot_params ram_bytes cmdline_gpa =
     (if ram_bytes < 0x200000
      then Inl (InvalidBootParams (''ram_bytes ('' @ show_hex_alt (unat ram_bytes) @ '') must be at least 2 MiB''))
      else
        let bp = boot_params_default;
            hdr = (bp_hdr bp)\<lparr>boot_flag := 0xAA55, hdr_magic := 0x53726448, type_of_loader := 0xFF, loadflags := 0x81,
                    heap_end_ptr := 0xFE00, cmd_line_ptr := ucast cmdline_gpa, cmdline_size := 255\<rparr>;
            table = (e820_table bp)
              [0 := \<lparr>e820_addr = 0, e820_size = 0x9FC00, e820_type = E820_RAM\<rparr>,
               1 := \<lparr>e820_addr = 0x9FC00, e820_size = 0x400, e820_type = E820_RESERVED\<rparr>,
               2 := \<lparr>e820_addr = 0x100000, e820_size = ram_bytes - 0x100000, e820_type = E820_RAM\<rparr>]
        in Inr (bp\<lparr>bp_hdr := hdr, e820_table := table, e820_entries := 3\<rparr>))"

definition set_initramfs_params :: "BootParams \<Rightarrow> u64 \<Rightarrow> u64 \<Rightarrow> BootError + BootParams" where
  "set_initramfs_params bp gpa n =
     (if 0xFFFFFFFF < gpa
      then Inl (InvalidBootParams (''initramfs GPA '' @ show_hex_alt (unat gpa) @ '' exceeds 32-bit limit''))
      else if 0xFFFFFFFF < n
      then Inl (InvalidBootParams (''initramfs size '' @ show_hex_alt (unat n) @ '' exceeds 32-bit limit''))
      else Inr (bp\<lparr>bp_hdr := (bp_hdr bp)\<lparr>ramdisk_image := ucast gpa, ramdisk_size := ucast n\<rparr>\<rparr>))"

definition set_acpi_rsdp :: "BootParams \<Rightarrow> u64 \<Rightarrow> BootParams" where
  "set_acpi_rsdp bp rsdp_gpa = bp\<lparr>acpi_rsdp_addr := rsdp_gpa\<rparr>"

text \<open>
  \<open>as_bytes\<close> reads the packed little-endian representation: the fields in order of declaration,
  without padding other than the declared one.
\<close>

definition setup_header_bytes :: "SetupHeader \<Rightarrow> bytes" where
  "setup_header_bytes h =
     [setup_sects h] @ le_bytes 2 (root_flags h) @ le_bytes 4 (syssize h) @ le_bytes 2 (hdr_ram_size h) @
     le_bytes 2 (vid_mode h) @ le_bytes 2 (root_dev h) @ le_bytes 2 (boot_flag h) @ le_bytes 2 (hdr_jump h) @
     le_bytes 4 (hdr_magic h) @ le_bytes 2 (hdr_version h) @ le_bytes 4 (realmode_swtch h) @
     le_bytes 2 (start_sys_seg h) @ le_bytes 2 (kernel_version h) @ [type_of_loader h] @
     [loadflags h] @ le_bytes 2 (setup_move_size h) @ le_bytes 4 (code32_start h) @
     le_bytes 4 (ramdisk_image h) @ le_bytes 4 (ramdisk_size h) @ le_bytes 4 (bootsect_kludge h) @
     le_bytes 2 (heap_end_ptr h) @ [ext_loader_ver h] @ [ext_loader_type h] @
     le_bytes 4 (cmd_line_ptr h) @ le_bytes 4 (initrd_addr_max h) @ le_bytes 4 (kernel_alignment h) @
     [relocatable_kernel h] @ [min_alignment h] @ le_bytes 2 (xloadflags h) @
     le_bytes 4 (cmdline_size h)"

definition e820_bytes :: "BootE820Entry \<Rightarrow> bytes" where
  "e820_bytes e = le_bytes 8 (e820_addr e) @ le_bytes 8 (e820_size e) @ le_bytes 4 (e820_type e)"

definition boot_params_bytes :: "BootParams \<Rightarrow> bytes" where
  "boot_params_bytes bp =
     replicate 0x70 0 @ le_bytes 8 (acpi_rsdp_addr bp) @ replicate 0x170 0 @ [e820_entries bp] @
     replicate 8 0 @ setup_header_bytes (bp_hdr bp) @ replicate 148 0 @
     concat (map e820_bytes (e820_table bp)) @ replicate 816 0"

section \<open>The layout the kernel reads\<close>

text \<open>
  The boot protocol fixes the offset of every field. \<open>field_at bs off n\<close> is the little-endian integer
  the kernel finds there; the kernel's E820 map are the first \<open>e820_entries\<close> slots of 20 bytes.
\<close>

definition field_at :: "bytes \<Rightarrow> nat \<Rightarrow> nat \<Rightarrow> 'a::len word" where
  "field_at bs off n = of_le_bytes (take n (drop off bs))"

definition kernel_e820 :: "bytes \<Rightarrow> BootE820Entry list" where
  "kernel_e820 bs = map (\<lambda>i. \<lparr>e820_addr = field_at bs (0x2D0 + 20 * i) 8,
       e820_size = field_at bs (0x2D0 + 20 * i + 8) 8, e820_type = field_at bs (0x2D0 + 20 * i + 16) 4\<rparr>)
     [0..<unat (field_at bs 0x1E8 1 :: u8)]"

lemma length_setup_header_bytes [simp]: "length (setup_header_bytes h) = 75"
  by (simp add: setup_header_bytes_def)

lemma length_e820_bytes [simp]: "length (e820_bytes e) = 20"
  by (simp add: e820_bytes_def)

lemma length_e820_table_bytes [simp]: "length (concat (map e820_bytes es)) = 20 * length es"
  by (induction es) simp_all

lemma length_boot_params_bytes: "length (e820_table bp) = 128 \<Longrightarrow> length (boot_params_bytes bp) = 4096"
  by (simp add: boot_params_bytes_def)

lemma field_at_skip:
  "length xs \<le> off \<Longrightarrow> field_at (xs @ ys) off n = field_at ys (off - length xs) n"
  by (simp add: field_at_def)

lemma field_at_prefix:
  "off + n \<le> length xs \<Longrightarrow> field_at (xs @ ys) off n = field_at xs off n"
  by (simp add: field_at_def)

lemma field_at_here:
  "LENGTH('a) = 8 * n \<Longrightarrow> field_at (le_bytes n w @ ys) 0 n = (w :: 'a::len word)"
  by (simp add: field_at_def of_le_bytes_le_bytes)


lemma field_at_byte:
  "field_at (b # ys) 0 (Suc 0) = (b :: u8)" "0 < off \<Longrightarrow> field_at (b # ys) off n = field_at ys (off - 1) n"
  by (simp_all add: field_at_def drop_Cons')

lemmas field_simps = field_at_skip field_at_here field_at_byte

lemma zero_page_fields:
  fixes bp
  defines "bs \<equiv> boot_params_bytes bp"
  shows "field_at bs 0x70 8 = acpi_rsdp_addr bp" "field_at bs 0x1E8 (Suc 0) = e820_entries bp"
    "field_at bs 0x1FE 2 = boot_flag (bp_hdr bp)" "field_at bs 0x202 4 = hdr_magic (bp_hdr bp)"
    "field_at bs 0x210 (Suc 0) = type_of_loader (bp_hdr bp)" "field_at bs 0x211 (Suc 0) = loadflags (bp_hdr bp)"
    "field_at bs 0x218 4 = ramdisk_image (bp_hdr bp)" "field_at bs 0x21C 4 = ramdisk_size (bp_hdr bp)"
    "field_at bs 0x224 2 = heap_end_ptr (bp_hdr bp)" "field_at bs 0x228 4 = cmd_line_ptr (bp_hdr bp)"
    "field_at bs 0x238 4 = cmdline_size (bp_hdr bp)"
  unfolding bs_def boot_params_bytes_def setup_header_bytes_def append_assoc by (simp_all add: field_simps)

lemma field_at_table:
  assumes "i < length es" "j + n \<le> 20"
  shows "field_at (concat (map e820_bytes es) @ ys) (20 * i + j) n = field_at (e820_bytes (es ! i)) j n"
  using assms(1)
proof (induction es arbitrary: i)
  case (Cons e es)
  show ?case
  proof (cases i)
    case 0
    then show ?thesis using assms(2) by (simp add: field_at_prefix)
  next
    case (Suc k)
    then show ?thesis using Cons by (simp add: field_at_skip)
  qed
qed simp

lemma zero_page_slot:
  assumes "i < length (e820_table bp)" "j + n \<le> 20"
  shows "field_at (boot_params_bytes bp) (0x2D0 + 20 * i + j) n = (field_at (e820_bytes (e820_table bp ! i)) j n :: 'a::len word)"
proof -
  have "field_at (boot_params_bytes bp) (0x2D0 + 20 * i + j) n =
      (field_at (concat (map e820_bytes (e820_table bp)) @ replicate 816 0) (20 * i + j) n :: 'a::len word)"
    unfolding boot_params_bytes_def by (simp add: field_simps)
  then show ?thesis by (simp only: field_at_table [OF assms])
qed

lemma e820_fields:
  "field_at (e820_bytes e) 0 8 = e820_addr e" "field_at (e820_bytes e) 8 8 = e820_size e"
  "field_at (e820_bytes e) 16 4 = e820_type e"
  using field_at_here [of 4 "e820_type e" "[]"] by (simp_all add: e820_bytes_def field_simps)

lemma zero_page_e820:
  assumes "i < length (e820_table bp)"
  shows "field_at (boot_params_bytes bp) (0x2D0 + 20 * i) 8 = e820_addr (e820_table bp ! i)"
    "field_at (boot_params_bytes bp) (0x2D0 + 20 * i + 8) 8 = e820_size (e820_table bp ! i)"
    "field_at (boot_params_bytes bp) (0x2D0 + 20 * i + 16) 4 = e820_type (e820_table bp ! i)"
proof -
  show "field_at (boot_params_bytes bp) (0x2D0 + 20 * i) 8 = e820_addr (e820_table bp ! i)"
    using zero_page_slot [OF assms, of 0 8, where 'a = 64] by (simp add: e820_fields)
  show "field_at (boot_params_bytes bp) (0x2D0 + 20 * i + 8) 8 = e820_size (e820_table bp ! i)"
    using zero_page_slot [OF assms, of 8 8, where 'a = 64] by (simp add: e820_fields)
  show "field_at (boot_params_bytes bp) (0x2D0 + 20 * i + 16) 4 = e820_type (e820_table bp ! i)"
    using zero_page_slot [OF assms, of 16 4, where 'a = 32] by (simp add: e820_fields)
qed

lemma kernel_e820_table:
  assumes "unat (e820_entries bp) \<le> length (e820_table bp)"
  shows "kernel_e820 (boot_params_bytes bp) = take (unat (e820_entries bp)) (e820_table bp)"
proof (rule nth_equalityI)
  fix i assume "i < length (kernel_e820 (boot_params_bytes bp))"
  then have "i < unat (e820_entries bp)" by (simp add: kernel_e820_def zero_page_fields)
  then show "kernel_e820 (boot_params_bytes bp) ! i = take (unat (e820_entries bp)) (e820_table bp) ! i"
    using assms zero_page_e820 [of i bp] by (simp add: kernel_e820_def zero_page_fields)
qed (use assms in \<open>simp add: kernel_e820_def zero_page_fields\<close>)

definition initial_e820 :: "u64 \<Rightarrow> BootE820Entry list" where
  "initial_e820 ram =
     [\<lparr>e820_addr = 0, e820_size = 0x9FC00, e820_type = E820_RAM\<rparr>,
      \<lparr>e820_addr = 0x9FC00, e820_size = 0x400, e820_type = E820_RESERVED\<rparr>,
      \<lparr>e820_addr = 0x100000, e820_size = ram - 0x100000, e820_type = E820_RAM\<rparr>]"

lemma e820_table_update:
  "(replicate 128 d)[0 := a, 1 := b, 2 := c] = [a, b, c] @ replicate 125 d"
proof -
  have "replicate 128 d = d # d # d # replicate 125 d" by (simp add: numeral_eq_Suc)
  then show ?thesis by simp
qed

lemma build_boot_params_Inr:
  assumes "build_boot_params ram cmd = Inr bp"
  shows "0x200000 \<le> unat ram" "e820_entries bp = 3" "e820_table bp = initial_e820 ram @ replicate 125 e820_default"
    "acpi_rsdp_addr bp = 0"
    "bp_hdr bp = setup_header_default\<lparr>boot_flag := 0xAA55, hdr_magic := 0x53726448, type_of_loader := 0xFF, loadflags := 0x81,
                    heap_end_ptr := 0xFE00, cmd_line_ptr := ucast cmd, cmdline_size := 255\<rparr>"
  using assms e820_table_update
  by (auto simp: build_boot_params_def boot_params_default_def Let_def initial_e820_def word_less_nat_alt
      split: if_splits)

definition e820_ram :: "BootE820Entry list \<Rightarrow> nat set" where
  "e820_ram es = {x. \<exists>e\<in>set es. e820_type e = E820_RAM \<and> unat (e820_addr e) \<le> x \<and> x < unat (e820_addr e) + unat (e820_size e)}"

lemma initial_e820_ram:
  "0x200000 \<le> unat ram \<Longrightarrow> e820_ram (initial_e820 ram) = {..<0x9FC00} \<union> {0x100000..<unat ram}"
proof -
  assume r: "0x200000 \<le> unat ram"
  then have "unat (ram - 0x100000) = unat ram - 0x100000" by (simp add: unat_sub word_le_nat_alt)
  then show ?thesis using r by (auto simp: e820_ram_def initial_e820_def E820_RAM_def E820_RESERVED_def)
qed

section \<open>Summary\<close>

text \<open>The zero page. For RAM of at least 2 MiB the page has 4096 bytes and holds, at the offsets of
  the boot protocol, the magic numbers, the address of the command line, the initramfs and the ACPI
  root pointer; the memory map the kernel reads from it reports exactly the conventional memory
  below the EBDA and the memory from 1 MiB to the end of RAM as usable. Smaller RAM is refused, and
  so is an initramfs whose address or size does not fit 32 bits.\<close>

lemma zero_page_layout:
  assumes "0x200000 \<le> unat ram" "unat cmd < 2 ^ 32" "unat g < 2 ^ 32" "unat n < 2 ^ 32"
  shows "\<exists>bp bp'. build_boot_params ram cmd = Inr bp \<and> set_initramfs_params bp g n = Inr bp' \<and>
    (let bs = boot_params_bytes (set_acpi_rsdp bp' rsdp) in
     length bs = 4096 \<and> field_at bs 0x70 8 = rsdp \<and> field_at bs 0x1FE 2 = (0xAA55 :: u16) \<and>
     field_at bs 0x202 4 = (0x53726448 :: u32) \<and> field_at bs 0x210 1 = (0xFF :: u8) \<and>
     unat (field_at bs 0x218 4 :: u32) = unat g \<and> unat (field_at bs 0x21C 4 :: u32) = unat n \<and>
     unat (field_at bs 0x228 4 :: u32) = unat cmd \<and>
     e820_ram (kernel_e820 bs) = {..<0x9FC00} \<union> {0x100000..<unat ram}) \<and>
    (\<forall>r. unat r < 0x200000 \<longrightarrow> (\<exists>e. build_boot_params r cmd = Inl (InvalidBootParams e))) \<and>
    (\<forall>b a l. 2 ^ 32 \<le> unat a \<or> 2 ^ 32 \<le> unat l \<longrightarrow> (\<exists>e. set_initramfs_params b a l = Inl (InvalidBootParams e)))"
proof -
  obtain bp where bp: "build_boot_params ram cmd = Inr bp"
    using assms(1) by (auto simp: build_boot_params_def word_less_nat_alt Let_def)
  note b = build_boot_params_Inr [OF bp]
  define bp' where "bp' = bp\<lparr>bp_hdr := (bp_hdr bp)\<lparr>ramdisk_image := ucast g, ramdisk_size := ucast n\<rparr>\<rparr>"
  have bp': "set_initramfs_params bp g n = Inr bp'"
    using assms(3,4) by (simp add: set_initramfs_params_def bp'_def word_less_nat_alt)
  have u: "unat (ucast x :: u32) = unat x" if "unat x < 2 ^ 32" for x :: u64
    using that by (simp add: unsigned_ucast_eq take_bit_nat_eq_self unsigned_take_bit_eq)
  let ?p = "set_acpi_rsdp bp' rsdp"
  have t: "e820_table ?p = initial_e820 ram @ replicate 125 e820_default" "e820_entries ?p = 3"
    using b by (simp_all add: set_acpi_rsdp_def bp'_def)
  have l3: "length (initial_e820 ram) = 3" by (simp add: initial_e820_def)
  have k: "kernel_e820 (boot_params_bytes ?p) = initial_e820 ram"
    using kernel_e820_table [of ?p] by (simp add: t l3)
  have len: "length (boot_params_bytes ?p) = 4096"
    by (rule length_boot_params_bytes) (simp add: t l3)
  have e1: "\<exists>e. build_boot_params r cmd = Inl (InvalidBootParams e)" if "unat r < 0x200000" for r
    using that by (simp add: build_boot_params_def word_less_nat_alt)
  have e2: "\<exists>e. set_initramfs_params b a l = Inl (InvalidBootParams e)" if "2 ^ 32 \<le> unat a \<or> 2 ^ 32 \<le> unat l" for b a l
    using that by (auto simp: set_initramfs_params_def word_less_nat_alt)
  have h: "acpi_rsdp_addr ?p = rsdp" "bp_hdr ?p = (bp_hdr bp)\<lparr>ramdisk_image := ucast g, ramdisk_size := ucast n\<rparr>"
    by (simp_all add: set_acpi_rsdp_def bp'_def)
  have f: "let bs = boot_params_bytes ?p in
     length bs = 4096 \<and> field_at bs 0x70 8 = rsdp \<and> field_at bs 0x1FE 2 = (0xAA55 :: u16) \<and>
     field_at bs 0x202 4 = (0x53726448 :: u32) \<and> field_at bs 0x210 1 = (0xFF :: u8) \<and>
     unat (field_at bs 0x218 4 :: u32) = unat g \<and> unat (field_at bs 0x21C 4 :: u32) = unat n \<and>
     unat (field_at bs 0x228 4 :: u32) = unat cmd \<and>
     e820_ram (kernel_e820 bs) = {..<0x9FC00} \<union> {0x100000..<unat ram}"
    using u [OF assms(2)] u [OF assms(3)] u [OF assms(4)]
    by (simp only: Let_def k initial_e820_ram [OF assms(1)] len) (simp add: zero_page_fields h b(5))
  from bp bp' f e1 e2 show ?thesis by blast
qed

end
