(* ===== verification/Acpi.thy ===== *)
theory Acpi
  imports Boot_Params
begin

text \<open>
  The ACPI tables through which the kernel finds the processors (\<open>hitz-boot/src/acpi.rs\<close>): the root
  pointer, the extended system description table and the multiple APIC description table, with
  their checksums.
\<close>

section \<open>Model\<close>

definition RSDP_GPA :: u64 where "RSDP_GPA = 0xE0000"
definition XSDT_GPA :: u64 where "XSDT_GPA = 0xE1000"
definition MADT_GPA :: u64 where "MADT_GPA = 0xE2000"
definition LOCAL_APIC_ADDRESS :: u32 where "LOCAL_APIC_ADDRESS = 0xFEE00000"
definition MADT_TYPE_LOCAL_APIC :: u8 where "MADT_TYPE_LOCAL_APIC = 0"
definition MADT_LAPIC_ENTRY_LEN :: u8 where "MADT_LAPIC_ENTRY_LEN = 8"
definition MADT_FLAGS_PCAT_COMPAT :: u32 where "MADT_FLAGS_PCAT_COMPAT = 1"
definition LAPIC_FLAGS_ENABLED :: u32 where "LAPIC_FLAGS_ENABLED = 1"
definition MAX_CPUS :: u32 where "MAX_CPUS = 255"
definition SDT_HEADER_LEN :: nat where "SDT_HEADER_LEN = 36"
definition OEM_ID :: bytes where "OEM_ID = ascii_bytes ''HITZ  ''"
definition OEM_TABLE_ID :: bytes where "OEM_TABLE_ID = ascii_bytes ''HITZVM  ''"
definition OEM_REVISION :: u32 where "OEM_REVISION = 1"
definition CREATOR_ID :: bytes where "CREATOR_ID = ascii_bytes ''HITZ''"
definition CREATOR_REVISION :: u32 where "CREATOR_REVISION = 1"

definition acpi_checksum :: "bytes \<Rightarrow> u8" where
  "acpi_checksum data = 0 - foldl (+) 0 data"

definition build_rsdp :: bytes where
  "build_rsdp =
     (let rsdp = replicate 36 0;
          rsdp = copy_at rsdp 0 (ascii_bytes ''RSD PTR '');
          rsdp = copy_at rsdp 9 OEM_ID;
          rsdp = rsdp[15 := 2];
          rsdp = copy_at rsdp 20 (le_bytes 4 (36 :: u32));
          rsdp = copy_at rsdp 24 (le_bytes 8 XSDT_GPA);
          rsdp = rsdp[8 := 0];
          rsdp = rsdp[8 := acpi_checksum (take 20 rsdp)];
          rsdp = rsdp[32 := 0]
      in rsdp[32 := acpi_checksum rsdp])"

definition build_sdt_header :: "bytes \<Rightarrow> u32 \<Rightarrow> bytes" where
  "build_sdt_header signature total_length =
     (let hdr = replicate SDT_HEADER_LEN 0;
          hdr = copy_at hdr 0 signature;
          hdr = copy_at hdr 4 (le_bytes 4 total_length);
          hdr = hdr[8 := 1];
          hdr = copy_at hdr 10 OEM_ID;
          hdr = copy_at hdr 16 OEM_TABLE_ID;
          hdr = copy_at hdr 24 (le_bytes 4 OEM_REVISION);
          hdr = copy_at hdr 28 CREATOR_ID
      in copy_at hdr 32 (le_bytes 4 CREATOR_REVISION))"

definition build_xsdt :: bytes where
  "build_xsdt =
     (let total_len = SDT_HEADER_LEN + 8;
          xsdt = build_sdt_header (ascii_bytes ''XSDT'') (of_nat total_len) @ le_bytes 8 MADT_GPA;
          xsdt = xsdt[9 := 0]
      in xsdt[9 := acpi_checksum xsdt])"

record MadtLapicEntry =
  lapic_type :: u8
  lapic_length :: u8
  acpi_processor_id :: u8
  apic_id :: u8
  lapic_flags :: u32

definition madt_entry_bytes :: "MadtLapicEntry \<Rightarrow> bytes" where
  "madt_entry_bytes e = [lapic_type e, lapic_length e, acpi_processor_id e, apic_id e] @ le_bytes 4 (lapic_flags e)"

definition lapic_entry :: "nat \<Rightarrow> MadtLapicEntry" where
  "lapic_entry i = \<lparr>lapic_type = MADT_TYPE_LOCAL_APIC, lapic_length = MADT_LAPIC_ENTRY_LEN,
     acpi_processor_id = of_nat i, apic_id = of_nat i, lapic_flags = LAPIC_FLAGS_ENABLED\<rparr>"

definition build_madt :: "u32 \<Rightarrow> BootError + bytes" where
  "build_madt cpu_count =
     (if cpu_count = 0 then Inl (InvalidBootParams ''cpu_count must be at least 1'')
      else if MAX_CPUS < cpu_count
      then Inl (InvalidBootParams (''cpu_count ('' @ show_dec (unat cpu_count) @ '') exceeds maximum of '' @ show_dec (unat MAX_CPUS)))
      else
        let body_len = 4 + 4 + unat cpu_count * 8;
            total_len = SDT_HEADER_LEN + body_len;
            madt = build_sdt_header (ascii_bytes ''APIC'') (of_nat total_len);
            madt = madt @ le_bytes 4 LOCAL_APIC_ADDRESS;
            madt = madt @ le_bytes 4 MADT_FLAGS_PCAT_COMPAT;
            madt = madt @ concat (map (\<lambda>i. madt_entry_bytes (lapic_entry i)) [0..<unat cpu_count]);
            madt = madt[9 := 0]
        in Inr (madt[9 := acpi_checksum madt]))"

section \<open>Validity of the tables\<close>

text \<open>
  What the kernel requires of a table: the right signature, a length field that covers the table,
  and bytes that sum to zero. The processors are the enabled local APIC entries of the MADT.
\<close>

definition byte_sum :: "bytes \<Rightarrow> u8" where
  "byte_sum bs = sum_list bs"

definition sdt_valid :: "string \<Rightarrow> bytes \<Rightarrow> bool" where
  "sdt_valid sig t \<longleftrightarrow> take 4 t = ascii_bytes sig \<and> unat (field_at t 4 4 :: u32) = length t \<and> byte_sum t = 0"

fun lapic_ids :: "bytes \<Rightarrow> nat list" where
  "lapic_ids (ty # len # pid # aid # f0 # f1 # f2 # f3 # rest) =
     (if ty = 0 \<and> len = 8 \<and> bit f0 0 then unat aid # lapic_ids rest else lapic_ids rest)"
| "lapic_ids _ = []"

lemma foldl_sum_list: "foldl (+) a bs = a + sum_list (bs :: bytes)"
  by (induction bs arbitrary: a) (simp_all add: add.assoc)

lemma acpi_checksum_sum: "acpi_checksum bs = - byte_sum bs"
  by (simp add: acpi_checksum_def byte_sum_def foldl_sum_list)

lemma byte_sum_update:
  assumes "i < length bs" "bs ! i = 0"
  shows "byte_sum (bs[i := c]) = byte_sum bs + c"
proof -
  have "byte_sum bs = sum_list (take i bs @ bs ! i # drop (Suc i) bs)"
    unfolding byte_sum_def using id_take_nth_drop [OF assms(1)] by simp
  then show ?thesis using assms by (simp add: byte_sum_def upd_conv_take_nth_drop)
qed

text \<open>A checksum byte that was cleared first makes the bytes sum to zero.\<close>

lemma checksummed_sum:
  "i < length bs \<Longrightarrow> byte_sum ((bs[i := 0])[i := acpi_checksum (bs[i := 0])]) = 0"
  using byte_sum_update [of i "bs[i := 0]" "acpi_checksum (bs[i := 0])"] by (simp add: acpi_checksum_sum)

lemma byte_sum_append [simp]: "byte_sum (xs @ ys) = byte_sum xs + byte_sum ys"
  by (simp add: byte_sum_def)

lemma length_sdt_header [simp]: "length sig = 4 \<Longrightarrow> length (build_sdt_header sig n) = 36"
  by (simp add: build_sdt_header_def Let_def SDT_HEADER_LEN_def OEM_ID_def OEM_TABLE_ID_def CREATOR_ID_def)

lemma length_madt_entry [simp]: "length (madt_entry_bytes e) = 8"
  by (simp add: madt_entry_bytes_def)

lemma length_madt_entries: "length (concat (map (\<lambda>i. madt_entry_bytes (f i)) is)) = 8 * length is"
  by (induction "is") simp_all

lemma field_at_update:
  "i < off \<or> off + n \<le> i \<Longrightarrow> field_at (xs[i := v]) off n = field_at xs off n"
  by (auto simp: field_at_def drop_update_swap)

lemma field_at_copy:
  "off + length ys \<le> length xs \<Longrightarrow> a + n \<le> off \<or> off + length ys \<le> a \<Longrightarrow>
     field_at (copy_at xs off ys) a n = field_at xs a n"
  "off + length ys \<le> length xs \<Longrightarrow> n = length ys \<Longrightarrow> field_at (copy_at xs off ys) off n = of_le_bytes ys"
  by (simp_all add: field_at_def take_drop_copy_at_other take_drop_copy_at_same)

lemma take_copy_at:
  "off + length ys \<le> length xs \<Longrightarrow> n \<le> off \<Longrightarrow> take n (copy_at xs off ys) = take n xs"
  using take_drop_copy_at_other [of off ys xs 0 n] by simp

lemmas acpi_consts = SDT_HEADER_LEN_def OEM_ID_def OEM_TABLE_ID_def CREATOR_ID_def

lemma sdt_header_fields:
  assumes "length sig = 4"
  shows "take 4 (build_sdt_header sig n) = sig" "field_at (build_sdt_header sig n) 4 4 = n"
  using assms take_drop_copy_at_same [of 0 sig "replicate 36 0"]
  by (simp_all add: build_sdt_header_def Let_def acpi_consts take_copy_at field_at_copy field_at_update of_le_bytes_le_bytes)

text \<open>A table assembled from a header and a body, with its checksum filled in.\<close>

lemma sdt_table_valid:
  fixes body :: bytes and sig :: string
  defines "t \<equiv> build_sdt_header (ascii_bytes sig) (of_nat (36 + length body)) @ body"
  assumes "length sig = 4" "36 + length body < 2 ^ 32"
  shows "sdt_valid sig (t[9 := 0, 9 := acpi_checksum (t[9 := 0])])"
    "drop 36 (t[9 := 0, 9 := acpi_checksum (t[9 := 0])]) = body"
proof -
  let ?h = "build_sdt_header (ascii_bytes sig) (of_nat (36 + length body))"
  have l: "length ?h = 36" "length (ascii_bytes sig) = 4" using assms(2) by simp_all
  have "unat (of_nat (36 + length body) :: u32) = 36 + length body"
    using assms(3) by (intro unat_of_nat_eq) simp
  moreover have "take 4 t = ascii_bytes sig" "field_at t 4 4 = (of_nat (36 + length body) :: u32)"
    using sdt_header_fields [OF l(2)] l by (simp_all add: t_def field_at_prefix)
  moreover have "length t = 36 + length body" using l by (simp add: t_def)
  ultimately show "sdt_valid sig (t[9 := 0, 9 := acpi_checksum (t[9 := 0])])"
    using checksummed_sum [of 9 t] unfolding sdt_valid_def by (simp add: field_at_update)
  show "drop 36 (t[9 := 0, 9 := acpi_checksum (t[9 := 0])]) = body"
    using l by (simp add: t_def)
qed

lemma xsdt_valid:
  "sdt_valid ''XSDT'' build_xsdt" "field_at build_xsdt 36 8 = MADT_GPA" "length build_xsdt = 44"
proof -
  have "sdt_valid ''XSDT'' build_xsdt" and d: "drop 36 build_xsdt = le_bytes 8 MADT_GPA"
    using sdt_table_valid [of "''XSDT''" "le_bytes 8 MADT_GPA"] by (simp_all add: build_xsdt_def Let_def acpi_consts)
  then show "sdt_valid ''XSDT'' build_xsdt" "field_at build_xsdt 36 8 = MADT_GPA"
    by (simp_all add: field_at_def of_le_bytes_le_bytes)
  show "length build_xsdt = 44" by (simp add: build_xsdt_def Let_def acpi_consts)
qed

lemma lapic_ids_entry:
  "lapic_ids (madt_entry_bytes (lapic_entry i) @ rest) = unat (of_nat i :: u8) # lapic_ids rest"
  by (simp add: madt_entry_bytes_def lapic_entry_def MADT_TYPE_LOCAL_APIC_def MADT_LAPIC_ENTRY_LEN_def
      LAPIC_FLAGS_ENABLED_def numeral_eq_Suc)

lemma lapic_ids_entries:
  "(\<forall>i\<in>set is. i < 256) \<Longrightarrow> lapic_ids (concat (map (\<lambda>i. madt_entry_bytes (lapic_entry i)) is)) = is"
  by (induction "is") (simp_all add: lapic_ids_entry)

lemma madt_valid:
  assumes "0 < unat n" "unat n \<le> 255"
  shows "\<exists>t. build_madt n = Inr t \<and> sdt_valid ''APIC'' t \<and> length t = 44 + 8 * unat n \<and>
    field_at t 36 4 = LOCAL_APIC_ADDRESS \<and> lapic_ids (drop 44 t) = [0..<unat n]"
proof -
  let ?e = "concat (map (\<lambda>i. madt_entry_bytes (lapic_entry i)) [0..<unat n])"
  define body where "body = le_bytes 4 LOCAL_APIC_ADDRESS @ le_bytes 4 MADT_FLAGS_PCAT_COMPAT @ ?e"
  define t where "t = build_sdt_header (ascii_bytes ''APIC'') (of_nat (36 + length body)) @ body"
  define u where "u = t[9 := 0, 9 := acpi_checksum (t[9 := 0])]"
  have l: "length body = 8 + 8 * unat n" by (simp add: body_def length_madt_entries)
  then have v: "sdt_valid ''APIC'' u" "drop 36 u = body"
    using sdt_table_valid [of "''APIC''" body] assms(2) by (simp_all add: u_def t_def)
  have "n \<noteq> 0" "\<not> MAX_CPUS < n" using assms by (auto simp: MAX_CPUS_def word_less_nat_alt)
  then have "build_madt n = Inr u"
    unfolding u_def t_def l by (simp add: build_madt_def Let_def acpi_consts body_def algebra_simps)
  moreover have "length u = 44 + 8 * unat n" by (simp add: u_def t_def l)
  moreover have "field_at u 36 4 = LOCAL_APIC_ADDRESS"
    unfolding field_at_def v(2) by (simp add: body_def of_le_bytes_le_bytes)
  moreover have "drop 44 u = ?e" using v(2) drop_drop [of 8 36 u] by (simp add: body_def)
  then have "lapic_ids (drop 44 u) = [0..<unat n]" using assms(2) by (simp add: lapic_ids_entries)
  ultimately show ?thesis using v(1) by blast
qed

lemma rsdp_valid:
  "length build_rsdp = 36" "take 8 build_rsdp = ascii_bytes ''RSD PTR ''" "build_rsdp ! 15 = 2"
  "field_at build_rsdp 24 8 = XSDT_GPA" "byte_sum (take 20 build_rsdp) = 0" "byte_sum build_rsdp = 0"
proof -
  define r where "r = copy_at (copy_at ((copy_at (copy_at (replicate 36 0) 0 (ascii_bytes ''RSD PTR '')) 9 OEM_ID)[15 := 2])
    20 (le_bytes 4 (36 :: u32))) 24 (le_bytes 8 XSDT_GPA)"
  define s where "s = r[8 := 0, 8 := acpi_checksum (take 20 (r[8 := 0]))]"
  have b: "build_rsdp = s[32 := 0, 32 := acpi_checksum (s[32 := 0])]"
    unfolding build_rsdp_def Let_def s_def r_def ..
  have r: "length r = 36" by (simp add: r_def OEM_ID_def)
  then have ls: "length s = 36" by (simp add: s_def)
  show "length build_rsdp = 36" using ls by (simp add: b)
  have t8: "take 8 r = ascii_bytes ''RSD PTR ''"
    using take_drop_copy_at_same [of 0 "ascii_bytes ''RSD PTR ''" "replicate 36 0"]
    by (simp add: r_def take_copy_at OEM_ID_def numeral_eq_Suc)
  then show "take 8 build_rsdp = ascii_bytes ''RSD PTR ''" by (simp add: b s_def)
  show "build_rsdp ! 15 = 2" by (simp add: b s_def r_def nth_copy_at OEM_ID_def)
  show "field_at build_rsdp 24 8 = XSDT_GPA"
    by (simp add: b s_def field_at_update) (simp add: r_def field_at_copy OEM_ID_def of_le_bytes_le_bytes)
  show "byte_sum build_rsdp = 0" using checksummed_sum [of 32 s] ls by (simp add: b)
  have "take 20 build_rsdp = (take 20 r)[8 := 0, 8 := acpi_checksum ((take 20 r)[8 := 0])]"
    by (simp add: b s_def take_update_swap list_update_beyond r)
  then show "byte_sum (take 20 build_rsdp) = 0" using checksummed_sum [of 8 "take 20 r"] r by simp
qed

section \<open>Summary\<close>

text \<open>The ACPI tables. The root pointer is signed, both its checksums hold and it leads to the
  XSDT, which leads to the MADT; both tables carry their signature, their length and bytes that sum
  to zero. For 1 to 255 processors the MADT lists exactly the local APICs \<open>0\<close> to \<open>n - 1\<close>, all enabled;
  other counts are refused.\<close>

lemma acpi_tables_valid:
  assumes "0 < unat n" "unat n \<le> 255"
  shows "take 8 build_rsdp = ascii_bytes ''RSD PTR '' \<and> byte_sum (take 20 build_rsdp) = 0 \<and> byte_sum build_rsdp = 0 \<and>
    field_at build_rsdp 24 8 = XSDT_GPA \<and> sdt_valid ''XSDT'' build_xsdt \<and> field_at build_xsdt 36 8 = MADT_GPA \<and>
    (\<exists>t. build_madt n = Inr t \<and> sdt_valid ''APIC'' t \<and> lapic_ids (drop 44 t) = [0..<unat n]) \<and>
    (\<forall>k. unat k = 0 \<or> 255 < unat k \<longrightarrow> (\<exists>e. build_madt k = Inl (InvalidBootParams e)))"
proof -
  have "\<exists>e. build_madt k = Inl (InvalidBootParams e)" if "unat k = 0 \<or> 255 < unat k" for k
    using that by (auto simp: build_madt_def MAX_CPUS_def word_less_nat_alt unat_eq_0)
  with madt_valid [OF assms] rsdp_valid xsdt_valid show ?thesis by blast
qed

end
