(* ===== verification/Hal_Vcpu.thy ===== *)
theory Hal_Vcpu
  imports Hal_Types
begin

text \<open>
  The trait \<open>Vcpu\<close> of \<open>hitz-hal/src/traits.rs\<close> as a record of operations over vCPU states, and the
  contract the run loop relies on. Running the guest also changes guest memory, which is therefore
  an argument and a result of \<open>vc_run\<close>. The Windows Hypervisor Platform vCPU of \<open>Whp_Vcpu\<close> provides the
  operations and satisfies the contract.
\<close>

section \<open>The trait\<close>

record ('v, 'm) Vcpu =
  vc_run :: "'v \<Rightarrow> 'm \<Rightarrow> 'v \<times> 'm \<times> (HalError + VcpuExit)"
  vc_cancel :: "'v \<Rightarrow> 'v \<times> (HalError + unit)"
  vc_get_regs :: "'v \<Rightarrow> HalError + StandardRegs"
  vc_set_regs :: "'v \<Rightarrow> StandardRegs \<Rightarrow> 'v \<times> (HalError + unit)"
  vc_get_sregs :: "'v \<Rightarrow> HalError + SpecialRegs"
  vc_set_sregs :: "'v \<Rightarrow> SpecialRegs \<Rightarrow> 'v \<times> (HalError + unit)"
  vc_inject_interrupt :: "'v \<Rightarrow> u8 \<Rightarrow> 'v \<times> (HalError + unit)"
  vc_request_interrupt_window :: "'v \<Rightarrow> 'v \<times> (HalError + unit)"

section \<open>Contract\<close>

text \<open>
  \<open>vok v\<close>: the vCPU exists, so that its registers can be read and written; \<open>vregs v\<close> are its general
  registers, \<open>vwin v\<close> says that an interrupt-window notification is armed. A notification that is
  armed stays armed until the guest exits with \<open>InterruptWindow\<close>; a cancelled run may drop it.
  Injecting an interrupt may be refused at any time.
\<close>

locale vcpu =
  fixes V :: "('v, 'm) Vcpu"
    and vok :: "'v \<Rightarrow> bool"
    and vregs :: "'v \<Rightarrow> StandardRegs"
    and vwin :: "'v \<Rightarrow> bool"
  assumes get_regs: "vok v \<Longrightarrow> vc_get_regs V v = Inr (vregs v)"
    and set_regs: "vok v \<Longrightarrow>
          \<exists>v'. vc_set_regs V v r = (v', Inr ()) \<and> vok v' \<and> vregs v' = r \<and> vwin v' = vwin v"
    and inject: "vok v \<Longrightarrow> vc_inject_interrupt V v x = (v', res) \<Longrightarrow>
          vok v' \<and> vregs v' = vregs v \<and> vwin v' = vwin v"
    and request: "vok v \<Longrightarrow> vc_request_interrupt_window V v = (v', res) \<Longrightarrow>
          vok v' \<and> vregs v' = vregs v \<and> (res = Inr () \<longrightarrow> vwin v')"
    and run_guest: "vok v \<Longrightarrow> vc_run V v m = (v', m', ex) \<Longrightarrow>
          vok v' \<and> (vwin v \<longrightarrow> vwin v' \<or> (\<exists>e. ex = Inl e) \<or> ex = Inr ExitInterruptWindow \<or> ex = Inr ExitCanceled)"

end
