(* ===== verification/Boot_Regs.thy ===== *)
theory Boot_Regs
  imports Guest_Memory Hal_Vcpu
begin

text \<open>
  The registers of the boot processor (\<open>hitz-vmm/src/boot_regs.rs\<close>): the descriptor table written into
  guest memory, the segment descriptors derived from it, and the special and general registers for
  an entry in 64-bit mode.
\<close>

section \<open>Model\<close>

definition GDT_GPA :: u64 where "GDT_GPA = 0x500"
definition GDT_NULL :: u64 where "GDT_NULL = 0"
definition GDT_CODE64 :: u64 where "GDT_CODE64 = 0x00AF9B000000FFFF"
definition GDT_DATA64 :: u64 where "GDT_DATA64 = 0x00CF93000000FFFF"
definition CS_SELECTOR :: u16 where "CS_SELECTOR = 0x08"
definition DS_SELECTOR :: u16 where "DS_SELECTOR = 0x10"
definition TR_SELECTOR :: u16 where "TR_SELECTOR = 0x18"
definition GDT_ENTRY_COUNT :: nat where "GDT_ENTRY_COUNT = 5"
definition GDT_ENTRY_SIZE :: nat where "GDT_ENTRY_SIZE = 8"
definition TSS_GPA :: u64 where "TSS_GPA = GDT_GPA + of_nat GDT_ENTRY_COUNT * of_nat GDT_ENTRY_SIZE"
definition TSS_SIZE :: u64 where "TSS_SIZE = 0x68"

definition CR0_LONG_MODE :: u64 where
  "CR0_LONG_MODE = push_bit 0 1 OR push_bit 1 1 OR push_bit 4 1 OR push_bit 5 1 OR push_bit 16 1 OR push_bit 18 1 OR push_bit 31 1"

definition CR4_LONG_MODE :: u64 where
  "CR4_LONG_MODE = push_bit 5 1 OR push_bit 9 1 OR push_bit 10 1"

definition EFER_LONG_MODE :: u64 where
  "EFER_LONG_MODE = push_bit 8 1 OR push_bit 10 1"

definition RFLAGS_INIT :: u64 where "RFLAGS_INIT = 0x2"

definition decode_gdt_entry :: "u64 \<Rightarrow> u16 \<Rightarrow> SegmentDescriptor" where
  "decode_gdt_entry raw selector =
     (let base_low = drop_bit 16 raw AND 0xFFFF;
          base_mid = drop_bit 32 raw AND 0xFF;
          base_high = drop_bit 56 raw AND 0xFF;
          base = push_bit 24 base_high OR push_bit 16 base_mid OR base_low;
          limit_low = raw AND 0xFFFF;
          limit_high = drop_bit 48 raw AND 0x0F;
          granularity = ucast (drop_bit 55 raw AND 1) :: u8;
          limit_raw = push_bit 16 limit_high OR limit_low;
          limit = (if granularity = 1 then ucast (push_bit 12 limit_raw OR 0xFFF) else ucast limit_raw) :: u32;
          access = ucast (drop_bit 40 raw AND 0xFF) :: u8;
          type = access AND 0x0F;
          s = drop_bit 4 access AND 1;
          dpl = drop_bit 5 access AND 3;
          present = drop_bit 7 access AND 1;
          flags = ucast (drop_bit 52 raw AND 0x0F) :: u8;
          long_mode = drop_bit 1 flags AND 1;
          db = drop_bit 2 flags AND 1
      in \<lparr>seg_base = base, seg_limit = limit, seg_selector = selector, seg_type = type, seg_present = present,
          seg_dpl = dpl, seg_db = db, seg_granularity = granularity, seg_long_mode = long_mode, seg_s = s\<rparr>)"

definition null_segment :: "u16 \<Rightarrow> SegmentDescriptor" where
  "null_segment selector =
     \<lparr>seg_base = 0, seg_limit = 0, seg_selector = selector, seg_type = 0, seg_present = 0,
      seg_dpl = 0, seg_db = 0, seg_granularity = 0, seg_long_mode = 0, seg_s = 0\<rparr>"

definition build_tss_descriptor :: "u64 \<Rightarrow> u64 \<Rightarrow> u64 \<times> u64" where
  "build_tss_descriptor base limit =
     (let base_lo = base AND 0xFFFF;
          base_mid = drop_bit 16 base AND 0xFF;
          base_hi = drop_bit 24 base AND 0xFF;
          base_upper = drop_bit 32 base;
          limit_lo = limit AND 0xFFFF;
          limit_hi = drop_bit 16 limit AND 0xF;
          low = limit_lo OR push_bit 16 base_lo OR push_bit 32 base_mid OR push_bit 40 0x89 OR
                push_bit 48 limit_hi OR push_bit 56 base_hi
      in (low, base_upper))"

fun write_gdt_entries :: "GuestMemory \<Rightarrow> nat \<Rightarrow> u64 list \<Rightarrow> MemError + GuestMemory" where
  "write_gdt_entries m i [] = Inr m"
| "write_gdt_entries m i (entry # entries) =
     (case write_u64 m (GDT_GPA + of_nat (i * GDT_ENTRY_SIZE)) entry of
        Inl e \<Rightarrow> Inl e
      | Inr m \<Rightarrow> write_gdt_entries m (i + 1) entries)"

definition gdt_entries :: "u64 list" where
  "gdt_entries =
     (case build_tss_descriptor TSS_GPA (TSS_SIZE - 1) of (tss_low, tss_high) \<Rightarrow>
        [GDT_NULL, GDT_CODE64, GDT_DATA64, tss_low, tss_high])"

definition write_gdt :: "GuestMemory \<Rightarrow> MemError + GuestMemory" where
  "write_gdt m = write_gdt_entries m 0 gdt_entries"

definition boot_sregs :: "u64 \<Rightarrow> SpecialRegs" where
  "boot_sregs pml4_gpa =
     (let gdt_limit = of_nat (GDT_ENTRY_COUNT * GDT_ENTRY_SIZE - 1) :: u16
      in \<lparr>cr0 = CR0_LONG_MODE, cr3 = pml4_gpa, cr4 = CR4_LONG_MODE, efer = EFER_LONG_MODE,
          seg_cs = decode_gdt_entry GDT_CODE64 CS_SELECTOR,
          seg_ds = decode_gdt_entry GDT_DATA64 DS_SELECTOR,
          seg_es = decode_gdt_entry GDT_DATA64 DS_SELECTOR,
          seg_fs = decode_gdt_entry GDT_DATA64 DS_SELECTOR,
          seg_gs = decode_gdt_entry GDT_DATA64 DS_SELECTOR,
          seg_ss = decode_gdt_entry GDT_DATA64 DS_SELECTOR,
          seg_tr = \<lparr>seg_base = TSS_GPA, seg_limit = ucast (TSS_SIZE - 1), seg_selector = TR_SELECTOR, seg_type = 0xB,
                     seg_present = 1, seg_dpl = 0, seg_db = 0, seg_granularity = 0, seg_long_mode = 0, seg_s = 0\<rparr>,
          seg_ldt = null_segment 0,
          dt_gdt = \<lparr>dt_base = GDT_GPA, dt_limit = gdt_limit\<rparr>,
          dt_idt = \<lparr>dt_base = 0, dt_limit = 0xFFFF\<rparr>\<rparr>)"

definition configure_sregs :: "('v, 'm) Vcpu \<Rightarrow> 'v \<Rightarrow> u64 \<Rightarrow> 'v \<times> (HalError + unit)" where
  "configure_sregs V v pml4_gpa = vc_set_sregs V v (boot_sregs pml4_gpa)"

definition boot_std_regs :: "u64 \<Rightarrow> u64 \<Rightarrow> StandardRegs" where
  "boot_std_regs entry_point boot_params_gpa =
     standard_regs_default\<lparr>rip := entry_point, rsi := boot_params_gpa, rsp := 0, rflags := RFLAGS_INIT\<rparr>"

definition configure_regs :: "('v, 'm) Vcpu \<Rightarrow> 'v \<Rightarrow> u64 \<Rightarrow> u64 \<Rightarrow> 'v \<times> (HalError + unit)" where
  "configure_regs V v entry_point boot_params_gpa = vc_set_regs V v (boot_std_regs entry_point boot_params_gpa)"

section \<open>The descriptor table and the registers agree\<close>

text \<open>
  Loading a selector makes the processor read the descriptor at \<open>gdt base + selector\<close>. The state the
  VMM sets up is the one this would give: the cached descriptors are the decoded table entries, and
  the task register is the decoded TSS entry marked busy.
\<close>

definition gdt_slot :: "u16 \<Rightarrow> u64" where
  "gdt_slot sel = gdt_entries ! (unat sel div 8)"

lemma gdt_entries_eq: "gdt_entries = [0, 0x00AF9B000000FFFF, 0x00CF93000000FFFF, 0x0000890005280067, 0]"
  by (simp add: gdt_entries_def build_tss_descriptor_def Let_def GDT_NULL_def GDT_CODE64_def GDT_DATA64_def TSS_GPA_def
    TSS_SIZE_def GDT_GPA_def GDT_ENTRY_COUNT_def GDT_ENTRY_SIZE_def)

lemma segments_match_gdt:
  "seg_cs (boot_sregs p) = decode_gdt_entry (gdt_slot CS_SELECTOR) CS_SELECTOR"
  "seg_ds (boot_sregs p) = decode_gdt_entry (gdt_slot DS_SELECTOR) DS_SELECTOR"
  "seg_tr (boot_sregs p) = (decode_gdt_entry (gdt_slot TR_SELECTOR) TR_SELECTOR)\<lparr>seg_type := 0xB\<rparr>"
  "seg_type (decode_gdt_entry (gdt_slot TR_SELECTOR) TR_SELECTOR) = 0x9"
  "seg_long_mode (seg_cs (boot_sregs p)) = 1" "seg_present (seg_cs (boot_sregs p)) = 1" "seg_limit (seg_cs (boot_sregs p)) = 0xFFFFFFFF"
  by (simp_all add: gdt_slot_def gdt_entries_eq boot_sregs_def decode_gdt_entry_def Let_def CS_SELECTOR_def DS_SELECTOR_def TR_SELECTOR_def
    GDT_CODE64_def GDT_DATA64_def TSS_GPA_def TSS_SIZE_def GDT_GPA_def GDT_ENTRY_COUNT_def GDT_ENTRY_SIZE_def)

lemma long_mode_bits:
  "cr0 (boot_sregs p) = 0x80050033" "cr4 (boot_sregs p) = 0x620" "efer (boot_sregs p) = 0x500"
  by (simp_all add: boot_sregs_def Let_def CR0_LONG_MODE_def CR4_LONG_MODE_def EFER_LONG_MODE_def)

definition gdt_bytes :: bytes where
  "gdt_bytes = concat (map (le_bytes 8) gdt_entries)"

lemma write_gdt_entries_ok:
  assumes "gm_inv m" "write_gdt_entries m i es = Inr m'" "8 * i + 8 * length es \<le> 40"
  shows "gm_inv m' \<and> gm_mapped m' = gm_mapped m \<and>
    (\<forall>x. gm_byte m' x = (if 0x500 + 8 * i \<le> unat x \<and> unat x < 0x500 + 8 * i + 8 * length es
       then concat (map (le_bytes 8) es) ! (unat x - (0x500 + 8 * i)) else gm_byte m x))"
  using assms
proof (induction es arbitrary: m i)
  case (Cons e es)
  let ?a = "GDT_GPA + of_nat (8 * i)"
  have ua: "unat ?a = 0x500 + 8 * i"
    using Cons.prems(3) by (subst unat_add_of_nat) (simp_all add: GDT_GPA_def)
  obtain m1 where m1: "write_slice m ?a (le_bytes 8 e) = Inr m1" "write_gdt_entries m1 (i + 1) es = Inr m'"
    using Cons.prems(2) by (auto simp: write_u64_def GDT_ENTRY_SIZE_def mult.commute split: sum.splits)
  note w = write_slice_ok [OF Cons.prems(1) m1(1)]
  have IH: "gm_inv m'" "gm_mapped m' = gm_mapped m1"
    "\<And>x. gm_byte m' x = (if 0x500 + 8 * (i + 1) \<le> unat x \<and> unat x < 0x500 + 8 * (i + 1) + 8 * length es
       then concat (map (le_bytes 8) es) ! (unat x - (0x500 + 8 * (i + 1))) else gm_byte m1 x)"
    using Cons.IH [OF w(1) m1(2)] Cons.prems(3) by auto
  have "gm_byte m' x = (if 0x500 + 8 * i \<le> unat x \<and> unat x < 0x500 + 8 * i + 8 * length (e # es)
       then concat (map (le_bytes 8) (e # es)) ! (unat x - (0x500 + 8 * i)) else gm_byte m x)" for x
    using w(4) [of x] IH(3) [of x] ua by (auto simp: nth_append)
  with IH w(2) show ?case by simp
qed auto

lemma write_gdt_ok:
  assumes "gm_inv m" "write_gdt m = Inr m'"
  shows "gm_inv m'" "gm_mapped m' = gm_mapped m"
    "gm_byte m' x = (if 0x500 \<le> unat x \<and> unat x < 0x528 then gdt_bytes ! (unat x - 0x500) else gm_byte m x)"
proof -
  have l: "length gdt_entries = 5" by (simp add: gdt_entries_eq)
  then show "gm_inv m'" "gm_mapped m' = gm_mapped m"
    "gm_byte m' x = (if 0x500 \<le> unat x \<and> unat x < 0x528 then gdt_bytes ! (unat x - 0x500) else gm_byte m x)"
    using write_gdt_entries_ok [OF assms(1), of 0 gdt_entries m'] assms(2)
    by (simp_all add: write_gdt_def gdt_bytes_def cong: if_cong)
qed

lemma write_gdt_entries_mapped:
  assumes "gm_inv m" "\<And>k. k < length es \<Longrightarrow> gm_mapped m (GDT_GPA + of_nat ((i + k) * GDT_ENTRY_SIZE)) 8"
  shows "\<exists>m'. write_gdt_entries m i es = Inr m'"
  using assms
proof (induction es arbitrary: m i)
  case (Cons e es)
  obtain m1 where m1: "write_u64 m (GDT_GPA + of_nat (i * GDT_ENTRY_SIZE)) e = Inr m1" "gm_inv m1" "gm_mapped m1 = gm_mapped m"
    using write_slice_mapped [OF Cons.prems(1), of "GDT_GPA + of_nat (i * GDT_ENTRY_SIZE)" "le_bytes 8 e"] Cons.prems(2) [of 0]
    by (auto simp: write_u64_def)
  have "\<exists>m'. write_gdt_entries m1 (i + 1) es = Inr m'"
    using Cons.prems(2) [of "Suc _"] by (intro Cons.IH [OF m1(2)]) (simp add: m1(3))
  with m1(1) show ?case by simp
qed simp

lemma length_gdt_bytes: "length gdt_bytes = 40"
  by (simp add: gdt_bytes_def gdt_entries_eq)

end
