(* ===== verification/Ethernet.thy ===== *)
theory Ethernet
  imports Rust_Fmt
begin

text \<open>
  The host side of the network, \<open>hitz-net\<close>: Ethernet headers, the ARP replies sent for the gateway, MAC
  and CIDR texts (\<open>ethernet.rs\<close>), and the bridge between the frame channels of the network device and
  the WinTun adapter (\<open>wintun_io.rs\<close>). The adapter session is a record of operations. A text is the
  list of its bytes, so \<open>s.len()\<close> is its length.
\<close>

section \<open>Frames\<close>

definition ETH_HEADER_LEN :: nat where
  "ETH_HEADER_LEN = 14"

definition ETHERTYPE_IPV4 :: u16 where
  "ETHERTYPE_IPV4 = 0x0800"

definition ETHERTYPE_IPV6 :: u16 where
  "ETHERTYPE_IPV6 = 0x86DD"

definition ETHERTYPE_ARP :: u16 where
  "ETHERTYPE_ARP = 0x0806"

definition ARP_OP_REQUEST :: u16 where
  "ARP_OP_REQUEST = 1"

definition ARP_OP_REPLY :: u16 where
  "ARP_OP_REPLY = 2"

lemmas eth_consts = ETH_HEADER_LEN_def ETHERTYPE_IPV4_def ETHERTYPE_IPV6_def ETHERTYPE_ARP_def
  ARP_OP_REQUEST_def ARP_OP_REPLY_def

record EthHeader =
  dst_mac :: bytes
  src_mac :: bytes
  ethertype :: u16

definition parse_eth_header :: "bytes \<Rightarrow> EthHeader option" where
  "parse_eth_header frame =
     (if length frame < ETH_HEADER_LEN then None
      else Some \<lparr>dst_mac = take 6 frame, src_mac = take 6 (drop 6 frame),
             ethertype = of_be_bytes [frame ! 12, frame ! 13]\<rparr>)"

definition build_eth_frame :: "bytes \<Rightarrow> bytes \<Rightarrow> u16 \<Rightarrow> bytes \<Rightarrow> bytes" where
  "build_eth_frame src dst etype payload = dst @ src @ be_bytes 2 etype @ payload"

definition strip_eth_header :: "bytes \<Rightarrow> bytes option" where
  "strip_eth_header frame = (if length frame < ETH_HEADER_LEN then None else Some (drop ETH_HEADER_LEN frame))"

definition ethertype_from_ip :: "bytes \<Rightarrow> u16" where
  "ethertype_from_ip packet =
     (if packet = [] then ETHERTYPE_IPV4
      else if drop_bit 4 (packet ! 0) = 6 then ETHERTYPE_IPV6 else ETHERTYPE_IPV4)"

definition build_arp_reply :: "bytes \<Rightarrow> bytes \<Rightarrow> bytes \<Rightarrow> bytes option" where
  "build_arp_reply request_frame gateway_mac gateway_ip =
     (if length request_frame < 42 then None
      else case parse_eth_header request_frame of
        None \<Rightarrow> None
      | Some eth \<Rightarrow>
          if ethertype eth \<noteq> ETHERTYPE_ARP then None
          else let arp = drop ETH_HEADER_LEN request_frame;
                   hw_type = of_be_bytes [arp ! 0, arp ! 1] :: u16;
                   proto_type = of_be_bytes [arp ! 2, arp ! 3] :: u16;
                   hw_len = arp ! 4; proto_len = arp ! 5;
                   op = of_be_bytes [arp ! 6, arp ! 7] :: u16 in
            if hw_type \<noteq> 1 \<or> proto_type \<noteq> 0x0800 \<or> hw_len \<noteq> 6 \<or> proto_len \<noteq> 4 then None
            else if op \<noteq> ARP_OP_REQUEST then None
            else let sender_mac = take 6 (drop 8 arp); sender_ip = take 4 (drop 14 arp);
                     target_ip_buf = take 4 (drop 24 arp) in
              if target_ip_buf \<noteq> gateway_ip then None
              else let arp_reply = be_bytes 2 (1 :: u16) @ be_bytes 2 (0x0800 :: u16) @ [6, 4] @
                         be_bytes 2 ARP_OP_REPLY @ gateway_mac @ gateway_ip @ sender_mac @ sender_ip in
                Some (build_eth_frame gateway_mac sender_mac ETHERTYPE_ARP arp_reply))"

section \<open>Addresses\<close>

text \<open>\<open>random_mac\<close>: \<open>seed\<close> is the clock reading.\<close>

definition xorshift64 :: "u64 \<Rightarrow> u64" where
  "xorshift64 state =
     (let state = state XOR push_bit 13 state; state = state XOR drop_bit 7 state in
      state XOR push_bit 17 state)"

fun random_bytes :: "nat \<Rightarrow> u64 \<Rightarrow> bytes" where
  "random_bytes 0 state = []"
| "random_bytes (Suc n) state = (let state = xorshift64 state in ucast state # random_bytes n state)"

definition random_mac :: "u64 \<Rightarrow> bytes" where
  "random_mac seed = (let bs = random_bytes 6 seed in bs[0 := (bs ! 0 AND 0xFC) OR 0x02])"

text \<open>\<open>from_str_radix\<close> with its error messages.\<close>

fun parse_int_digits :: "nat \<Rightarrow> nat \<Rightarrow> nat \<Rightarrow> string \<Rightarrow> string + nat" where
  "parse_int_digits r bnd acc [] = Inr acc"
| "parse_int_digits r bnd acc (c # cs) =
     (case digit_val r c of
        None \<Rightarrow> Inl ''invalid digit found in string''
      | Some d \<Rightarrow> if acc * r + d < bnd then parse_int_digits r bnd (acc * r + d) cs
                  else Inl ''number too large to fit in target type'')"

definition parse_int :: "nat \<Rightarrow> nat \<Rightarrow> string \<Rightarrow> string + nat" where
  "parse_int r bnd s =
     (case s of
        [] \<Rightarrow> Inl ''cannot parse integer from empty string''
      | c # cs \<Rightarrow>
          if cs = [] \<and> (c = CHR ''+'' \<or> c = CHR ''-'') then Inl ''invalid digit found in string''
          else if c = CHR ''+'' then parse_int_digits r bnd 0 cs
          else parse_int_digits r bnd 0 s)"

definition quoted :: "string \<Rightarrow> string" where
  "quoted s = CHR 0x27 # s @ [CHR 0x27]"

fun mac_octets :: "nat \<Rightarrow> nat \<Rightarrow> string list \<Rightarrow> string + bytes \<times> string list" where
  "mac_octets i 0 parts = Inr ([], parts)"
| "mac_octets i (Suc k) [] = Inl (''expected 6 colon-separated octets, got '' @ show_dec i)"
| "mac_octets i (Suc k) (part # parts) =
     (case parse_int 16 256 part of
        Inl e \<Rightarrow> Inl (''invalid hex octet '' @ quoted part @ '': '' @ e)
      | Inr n \<Rightarrow>
          (case mac_octets (i + 1) k parts of
             Inl e \<Rightarrow> Inl e
           | Inr (bs, rest) \<Rightarrow> Inr (of_nat n # bs, rest)))"

definition parse_mac :: "string \<Rightarrow> string + bytes" where
  "parse_mac s =
     (if 17 < length s then Inl (''input too long for MAC address (len '' @ show_dec (length s) @ '')'')
      else case mac_octets 0 6 (split_on (CHR '':'') s) of
        Inl e \<Rightarrow> Inl e
      | Inr (mac, rest) \<Rightarrow>
          if rest \<noteq> [] then Inl ''expected 6 colon-separated octets, got >6'' else Inr mac)"

fun ip_octets :: "nat \<Rightarrow> nat \<Rightarrow> string list \<Rightarrow> string + bytes \<times> string list" where
  "ip_octets i 0 parts = Inr ([], parts)"
| "ip_octets i (Suc k) [] = Inl (''expected 4 octets, got '' @ show_dec i)"
| "ip_octets i (Suc k) (octet # octets) =
     (case parse_int 10 256 octet of
        Inl e \<Rightarrow> Inl (''invalid octet '' @ quoted octet @ '': '' @ e)
      | Inr n \<Rightarrow>
          (case ip_octets (i + 1) k octets of
             Inl e \<Rightarrow> Inl e
           | Inr (bs, rest) \<Rightarrow> Inr (of_nat n # bs, rest)))"

definition splitn2 :: "char \<Rightarrow> string \<Rightarrow> string \<times> string option" where
  "splitn2 c s = (takeWhile (\<lambda>x. x \<noteq> c) s, if c \<in> set s then Some (drop 1 (dropWhile (\<lambda>x. x \<noteq> c) s)) else None)"

definition parse_cidr :: "string \<Rightarrow> string + bytes \<times> u8" where
  "parse_cidr s =
     (if 18 < length s then Inl (''input too long for CIDR (len '' @ show_dec (length s) @ '')'')
      else case splitn2 (CHR ''/'') s of
        (ip_str, None) \<Rightarrow> Inl ''expected format: A.B.C.D/prefix''
      | (ip_str, Some prefix_str) \<Rightarrow>
         (case ip_octets 0 4 (split_on (CHR ''.'') ip_str) of
            Inl e \<Rightarrow> Inl e
          | Inr (ip, rest) \<Rightarrow>
              if rest \<noteq> [] then Inl ''expected 4 octets, got >4''
              else (case parse_int 10 256 prefix_str of
                 Inl e \<Rightarrow> Inl (''invalid prefix length '' @ quoted prefix_str @ '': '' @ e)
               | Inr prefix \<Rightarrow>
                   if 32 < prefix then Inl (''prefix length '' @ show_dec prefix @ '' exceeds 32'')
                   else Inr (ip, of_nat prefix))))"

section \<open>The bridge\<close>

record 's WinTunSession =
  allocate_send_packet :: "'s \<Rightarrow> u16 \<Rightarrow> 's \<times> (string + bytes)"
  send_packet :: "'s \<Rightarrow> bytes \<Rightarrow> 's"
  try_receive :: "'s \<Rightarrow> 's \<times> (string + bytes option)"

definition send_to_wintun :: "'s WinTunSession \<Rightarrow> 's \<Rightarrow> bytes \<Rightarrow> 's" where
  "send_to_wintun W s ip_packet =
     (let len = length ip_packet; sz = (if 65535 < len then 65535 else of_nat len) in
      case allocate_send_packet W s sz of
        (s', Inl e) \<Rightarrow> s'
      | (s', Inr dest) \<Rightarrow>
          let copy_len = min (length dest) (length ip_packet) in
          send_packet W s' (copy_at dest 0 (take copy_len ip_packet)))"

text \<open>One frame from the guest: an ARP reply goes back, an IP packet goes to the adapter.\<close>

definition bridge_frame ::
  "'s WinTunSession \<Rightarrow> bytes \<Rightarrow> bytes \<Rightarrow> 's \<times> bytes list \<Rightarrow> bytes \<Rightarrow> 's \<times> bytes list" where
  "bridge_frame W gateway_mac gateway_ip st frame =
     (case st of (s, rx) \<Rightarrow>
      case parse_eth_header frame of
        None \<Rightarrow> (s, rx)
      | Some hdr \<Rightarrow>
          if ethertype hdr = ETHERTYPE_ARP then
            (case build_arp_reply frame gateway_mac gateway_ip of
               None \<Rightarrow> (s, rx)
             | Some reply \<Rightarrow> (s, rx @ [reply]))
          else if ethertype hdr = ETHERTYPE_IPV4 \<or> ethertype hdr = ETHERTYPE_IPV6 then
            (case strip_eth_header frame of
               None \<Rightarrow> (s, rx)
             | Some ip_packet \<Rightarrow> (send_to_wintun W s ip_packet, rx))
          else (s, rx))"

text \<open>One round of the loop on the frames waiting in the channel; the last component says whether it
  goes on.\<close>

definition bridge_round ::
  "'s WinTunSession \<Rightarrow> bytes \<Rightarrow> bytes \<Rightarrow> bytes \<Rightarrow> 's \<Rightarrow> bytes list \<Rightarrow> 's \<times> bytes list \<times> bool" where
  "bridge_round W guest_mac gateway_mac gateway_ip s frames =
     (case foldl (bridge_frame W gateway_mac gateway_ip) (s, []) frames of
        (s, rx) \<Rightarrow>
          (case try_receive W s of
             (s', Inr (Some ip_data)) \<Rightarrow>
               (s', rx @ [build_eth_frame gateway_mac guest_mac (ethertype_from_ip ip_data) ip_data], True)
           | (s', Inr None) \<Rightarrow> (s', rx, True)
           | (s', Inl e) \<Rightarrow> (s', rx, False)))"

definition prefix_to_ipv4_mask :: "u8 \<Rightarrow> bytes" where
  "prefix_to_ipv4_mask prefix =
     (let b = (if prefix = 0 then 0 else if 32 \<le> prefix then 0xFFFFFFFF
               else NOT (push_bit (unat (32 - prefix)) 1 - 1)) :: u32 in
      be_bytes 4 b)"

section \<open>Lemmas\<close>

lemma parse_eth_build:
  assumes "length src = 6" "length dst = 6"
  shows "parse_eth_header (build_eth_frame src dst e p) = Some \<lparr>dst_mac = dst, src_mac = src, ethertype = e\<rparr>"
    and "strip_eth_header (build_eth_frame src dst e p) = Some p"
proof -
  let ?f = "dst @ src @ be_bytes 2 e @ p"
  have "[?f ! 12, ?f ! 13] = be_bytes 2 e"
    by (rule nth_equalityI) (auto simp: nth_append assms less_Suc_eq numeral_2_eq_2)
  then show "parse_eth_header (build_eth_frame src dst e p) = Some \<lparr>dst_mac = dst, src_mac = src, ethertype = e\<rparr>"
    using assms by (simp add: parse_eth_header_def build_eth_frame_def eth_consts of_be_bytes_be_bytes)
  show "strip_eth_header (build_eth_frame src dst e p) = Some p"
    using assms by (simp add: strip_eth_header_def build_eth_frame_def eth_consts)
qed

lemma be2_eq_iff: "(of_be_bytes [a, b] :: u16) = w \<longleftrightarrow> [a, b] = be_bytes 2 w"
  using of_be_bytes_be_bytes [of 2 w] be_bytes_of_be_bytes [of "[a, b]" 2, where 'a = 16] by auto

lemma while_sep:
  "c \<notin> set xs \<Longrightarrow> takeWhile (\<lambda>x. x \<noteq> c) (xs @ c # ys) = xs"
  "c \<notin> set xs \<Longrightarrow> dropWhile (\<lambda>x. x \<noteq> c) (xs @ c # ys) = c # ys"
  by (induction xs) auto

lemma be_bytes_2: "be_bytes 2 w = [ucast (drop_bit 8 w), ucast w]"
  by (simp add: be_bytes_def numeral_2_eq_2)

lemma random_mac_local: "length (random_mac seed) = 6 \<and> \<not> bit (random_mac seed ! 0) 0 \<and> bit (random_mac seed ! 0) 1"
proof -
  have "length (random_bytes n s) = n" for n s by (induction n arbitrary: s) (simp_all add: Let_def)
  then have l: "length (random_bytes 6 seed) = 6" .
  have "bit ((x AND 0xFC) OR 0x02 :: u8) 1" "\<not> bit ((x AND 0xFC) OR 0x02 :: u8) 0" for x
    by (simp_all add: bit_simps)
  with l show ?thesis by (simp add: random_mac_def Let_def)
qed

text \<open>Formatting as the inverse of parsing.\<close>

lemma parse_int_digits_iff: "parse_int_digits r bnd acc cs = Inr n \<longleftrightarrow> parse_digits r bnd acc cs = Some n"
  by (induction cs arbitrary: acc) (auto split: option.splits)

lemma parse_int_show:
  assumes "1 < r" "r \<le> 16" "n < bnd"
  shows "parse_int r bnd (pad_zero w (show_radix r n)) = Inr n"
proof -
  let ?s = "pad_zero w (show_radix r n)"
  have d: "parse_digits r bnd 0 ?s = Some n" by (rule parse_pad_zero [OF assms])
  obtain c cs where s: "?s = c # cs" by (cases ?s) (auto simp: pad_zero_def)
  have "digit_val r c \<noteq> None" using d s by (auto split: option.splits)
  then have "c \<noteq> CHR ''+''" "c \<noteq> CHR ''-''" by (auto simp: digit_val_def)
  with d s show ?thesis by (simp add: parse_int_def parse_int_digits_iff del: parse_digits.simps parse_int_digits.simps)
qed

lemma show_radix_digits:
  "1 < r \<Longrightarrow> r \<le> 16 \<Longrightarrow> c \<in> set (show_radix r n) \<Longrightarrow> digit_val r c \<noteq> None"
proof (induction r n rule: show_radix.induct)
  case (1 r n)
  show ?case
  proof (cases "n < r")
    case True
    with 1 show ?thesis by (simp add: show_radix.simps digit_val_digit_char)
  next
    case False
    with 1 show ?thesis by (subst (asm) show_radix.simps) (auto simp: digit_val_digit_char)
  qed
qed

fun join_with :: "char \<Rightarrow> string list \<Rightarrow> string" where
  "join_with c [] = []"
| "join_with c [p] = p"
| "join_with c (p # q # ps) = p @ c # join_with c (q # ps)"

lemma split_on_join_with:
  "ps \<noteq> [] \<Longrightarrow> \<forall>p\<in>set ps. c \<notin> set p \<Longrightarrow> split_on c (join_with c ps) = ps"
  by (induction c ps rule: join_with.induct) (auto simp: split_on_no_sep split_on_append_sep)

lemma length_join_with:
  "\<forall>p\<in>set ps. length p \<le> k \<Longrightarrow> length (join_with c ps) \<le> length ps * (k + 1) - 1"
  by (induction c ps rule: join_with.induct) auto

lemma join_with_chars: "x \<in> set (join_with c ps) \<Longrightarrow> x = c \<or> (\<exists>p\<in>set ps. x \<in> set p)"
  by (induction c ps rule: join_with.induct) auto

definition mac_text :: "bytes \<Rightarrow> string" where
  "mac_text bs = join_with (CHR '':'') (map (\<lambda>b. pad_zero 2 (show_hex (unat b))) bs)"

definition ip_text :: "bytes \<Rightarrow> string" where
  "ip_text bs = join_with (CHR ''.'') (map (\<lambda>b. show_dec (unat b)) bs)"

definition cidr_text :: "bytes \<Rightarrow> u8 \<Rightarrow> string" where
  "cidr_text ip prefix = ip_text ip @ CHR ''/'' # show_dec (unat prefix)"

lemma mac_octets_show:
  "length bs = k \<Longrightarrow> mac_octets i k (map (\<lambda>b. pad_zero 2 (show_hex (unat b))) bs) = Inr (bs, [])"
proof (induction bs arbitrary: i k)
  case (Cons b bs)
  have "parse_int 16 256 (pad_zero 2 (show_hex (unat b))) = Inr (unat b)"
    unfolding show_hex_def using unat_u8_less [of b] by (intro parse_int_show) simp_all
  with Cons show ?case by auto
qed simp

lemma ip_octets_show:
  "length bs = k \<Longrightarrow> ip_octets i k (map (\<lambda>b. show_dec (unat b)) bs) = Inr (bs, [])"
proof (induction bs arbitrary: i k)
  case (Cons b bs)
  have "parse_int 10 256 (pad_zero 0 (show_radix 10 (unat b))) = Inr (unat b)"
    using unat_u8_less [of b] by (intro parse_int_show) simp_all
  with Cons show ?case by (auto simp: pad_zero_def show_dec_def)
qed simp

lemma dec_chars: "c \<in> set (show_dec n) \<Longrightarrow> c \<noteq> CHR ''.'' \<and> c \<noteq> CHR ''/''"
  using show_radix_digits [of 10 c n] by (auto simp: show_dec_def digit_val_def)

lemma hex_chars: "c \<in> set (pad_zero 2 (show_hex n)) \<Longrightarrow> c \<noteq> CHR '':''"
  using show_radix_digits [of 16 c n] by (auto simp: show_hex_def pad_zero_def digit_val_def)

lemma length_texts: "length (show_dec (unat (b :: u8))) \<le> 3" "length (pad_zero 2 (show_hex (unat (b :: u8)))) \<le> 2"
  using length_show_radix_le [of 10 "unat b" 3] length_show_radix_le [of 16 "unat b" 2] unat_u8_less [of b]
  by (simp_all add: show_dec_def show_hex_def pad_zero_def)

lemma mask_bits:
  assumes "unat p \<le> 32"
  shows "\<forall>i<32. bit (of_be_bytes (prefix_to_ipv4_mask p) :: u32) i \<longleftrightarrow> 32 - unat p \<le> i"
proof -
  have e: "of_be_bytes (prefix_to_ipv4_mask p) = (if p = 0 then 0 else if 32 \<le> p then 0xFFFFFFFF
      else NOT (push_bit (unat (32 - p)) 1 - 1) :: u32)"
    by (simp only: prefix_to_ipv4_mask_def Let_def) (rule of_be_bytes_be_bytes, simp)
  consider "p = 0" | "32 \<le> p" "unat p = 32" | "0 < unat p" "unat p < 32" "p \<noteq> 0" "\<not> 32 \<le> p"
    using assms by (force simp: word_le_nat_alt unat_eq_0)
  then show ?thesis
  proof cases
    case 1
    have "of_be_bytes (prefix_to_ipv4_mask p) = (0 :: u32)" using 1 e by simp
    then show ?thesis using 1 by simp
  next
    case 2
    have "bit (0xFFFFFFFF :: u32) i" if "i < 32" for i
    proof -
      have "(0xFFFFFFFF :: u32) = - 1" by simp
      with that show ?thesis by (simp only: bit_minus_1_iff) simp
    qed
    with 2 show ?thesis by (auto simp: e)
  next
    case 3
    then have "unat (32 - p) = 32 - unat p" by (simp add: unat_sub_if' word_le_nat_alt)
    moreover have "push_bit k 1 - 1 = (mask k :: u32)" for k
      by (simp add: mask_eq_exp_minus_1 push_bit_eq_mult)
    ultimately show ?thesis using 3 by (auto simp: e bit_simps)
  qed
qed

section \<open>Properties\<close>

text \<open>ARP. A frame is answered exactly when it is a complete ARP request for Ethernet and IPv4 whose
  target is the gateway's address; the answer is addressed to the sender and binds the gateway's
  IP address to its MAC address.\<close>

theorem arp_reply_correct:
  "build_arp_reply f gm gi = Some r \<longleftrightarrow>
     42 \<le> length f \<and> take 10 (drop 12 f) = [0x08, 0x06, 0, 1, 0x08, 0x00, 6, 4, 0, 1] \<and> take 4 (drop 38 f) = gi \<and>
     r = take 6 (drop 22 f) @ gm @ [0x08, 0x06, 0, 1, 0x08, 0x00, 6, 4, 0, 2] @ gm @ gi @
         take 6 (drop 22 f) @ take 4 (drop 28 f)"
proof (cases "42 \<le> length f")
  case True
  have t: "take 10 (drop 12 f) = [f ! 12, f ! 13, f ! 14, f ! 15, f ! 16, f ! 17, f ! 18, f ! 19, f ! 20, f ! 21]"
    using True by (subst take_drop_eq_map_nth) (simp_all add: upt_conv_Cons)
  have be: "be_bytes 2 (0x0806 :: u16) = [8, 6]" "be_bytes 2 (1 :: u16) = [0, 1]" "be_bytes 2 (0x0800 :: u16) = [8, 0]"
    "be_bytes 2 (2 :: u16) = [0, 2]"
    by (simp_all add: be_bytes_2)
  define ok where "ok \<longleftrightarrow> f ! 12 = 8 \<and> f ! 13 = 6 \<and> f ! 14 = 0 \<and> f ! 15 = 1 \<and> f ! 16 = 8 \<and> f ! 17 = 0 \<and>
    f ! 18 = 6 \<and> f ! 19 = 4 \<and> f ! 20 = 0 \<and> f ! 21 = 1"
  define res where "res = take 6 (drop 22 f) @ gm @ [0x08, 0x06, 0, 1, 0x08, 0x00, 6, 4, 0, 2] @ gm @ gi @
    take 6 (drop 22 f) @ take 4 (drop 28 f)"
  have "build_arp_reply f gm gi = (if ok \<and> take 4 (drop 38 f) = gi then Some res else None)"
    using True by (simp add: build_arp_reply_def parse_eth_header_def eth_consts Let_def be2_eq_iff be
      build_eth_frame_def ok_def res_def)
  moreover have "take 10 (drop 12 f) = [0x08, 0x06, 0, 1, 0x08, 0x00, 6, 4, 0, 1] \<longleftrightarrow> ok"
    unfolding t ok_def by simp
  ultimately show ?thesis using True unfolding res_def [symmetric] by auto
qed (simp add: build_arp_reply_def)

text \<open>Address texts. The canonical text of every MAC address and of every IPv4 address with prefix is
  parsed back to it; whatever is accepted has six octets, or four octets and a prefix of at most
  32, whose netmask has exactly that many leading ones.\<close>

theorem address_text_roundtrip:
  "(length mac = 6 \<longrightarrow> parse_mac (mac_text mac) = Inr mac) \<and>
   (length ip = 4 \<and> prefix \<le> 32 \<longrightarrow> parse_cidr (cidr_text ip prefix) = Inr (ip, prefix)) \<and>
   (parse_cidr s = Inr (ip', p) \<longrightarrow> length ip' = 4 \<and> p \<le> 32 \<and>
      (\<forall>i<32. bit (of_be_bytes (prefix_to_ipv4_mask p) :: u32) i \<longleftrightarrow> 32 - unat p \<le> i))"
proof (intro conjI impI)
  assume "length mac = 6"
  have "length (mac_text mac) \<le> 17"
    using length_join_with [of "map (\<lambda>b. pad_zero 2 (show_hex (unat b))) mac" 2 "CHR '':''"] \<open>length mac = 6\<close>
    by (simp add: mac_text_def length_texts)
  moreover have "split_on (CHR '':'') (mac_text mac) = map (\<lambda>b. pad_zero 2 (show_hex (unat b))) mac"
    unfolding mac_text_def using \<open>length mac = 6\<close> hex_chars by (intro split_on_join_with) auto
  ultimately show "parse_mac (mac_text mac) = Inr mac"
    using \<open>length mac = 6\<close> by (simp add: parse_mac_def mac_octets_show)
next
  assume a: "length ip = 4 \<and> prefix \<le> 32"
  have p: "unat prefix \<le> 32" using a by (simp add: word_le_nat_alt)
  have l: "length (ip_text ip) \<le> 15" "length (show_dec (unat prefix)) \<le> 2"
  proof -
    show "length (ip_text ip) \<le> 15"
      using length_join_with [of "map (\<lambda>b. show_dec (unat b)) ip" 3 "CHR ''.''"] a by (simp add: ip_text_def length_texts)
    show "length (show_dec (unat prefix)) \<le> 2"
      using p length_show_radix_le [of 10 "unat prefix" 2] by (simp add: show_dec_def)
  qed
  have sl: "CHR ''/'' \<notin> set (ip_text ip)"
    using join_with_chars [of "CHR ''/''" "CHR ''.''"] dec_chars by (fastforce simp: ip_text_def)
  have sp: "split_on (CHR ''.'') (ip_text ip) = map (\<lambda>b. show_dec (unat b)) ip"
    unfolding ip_text_def using a dec_chars by (intro split_on_join_with) auto
  have tw: "takeWhile (\<lambda>x. x \<noteq> CHR ''/'') (ip_text ip @ CHR ''/'' # ys) = ip_text ip"
    "dropWhile (\<lambda>x. x \<noteq> CHR ''/'') (ip_text ip @ CHR ''/'' # ys) = CHR ''/'' # ys" for ys
    using while_sep [OF sl] by auto
  have "parse_int 10 256 (show_dec (unat prefix)) = Inr (unat prefix)"
    using parse_int_show [of 10 "unat prefix" 256 0] p by (simp add: show_dec_def pad_zero_def)
  then show "parse_cidr (cidr_text ip prefix) = Inr (ip, prefix)"
    using a l p by (simp add: parse_cidr_def cidr_text_def splitn2_def tw sp ip_octets_show)
next
  assume a: "parse_cidr s = Inr (ip', p)"
  have len: "ip_octets i k ps = Inr (bs, rest) \<Longrightarrow> length bs = k" for i k ps bs rest
    by (induction i k ps arbitrary: bs rest rule: ip_octets.induct) (auto split: sum.splits)
  from a obtain n ps where n: "p = of_nat n" "n \<le> 32" and "ip_octets 0 4 ps = Inr (ip', [])"
    by (auto simp: parse_cidr_def splitn2_def not_less split: if_splits sum.splits)
  then have ip: "length ip' = 4" by (intro len)
  from n have u: "unat p \<le> 32" by simp
  then show p: "p \<le> 32" by (simp add: word_le_nat_alt)
  show "length ip' = 4" by (rule ip)
  show "\<forall>i<32. bit (of_be_bytes (prefix_to_ipv4_mask p) :: u32) i \<longleftrightarrow> 32 - unat p \<le> i"
    by (rule mask_bits [OF u])
qed


theorem address_text_roundtrip_witness:
  "parse_cidr (cidr_text [192, 168, 100, 2] 24) = Inr ([192, 168, 100, 2], 24) \<and>
   parse_mac (mac_text [2, 0, 0, 0, 0, 1]) = Inr [2, 0, 0, 0, 0, 1]"
  using address_text_roundtrip [of "[2, 0, 0, 0, 0, 1]" "[192, 168, 100, 2]" 24] by simp

end
