(* ===== verification/Vm_Boot.thy ===== *)
theory Vm_Boot
  imports Elf_Loader Page_Tables Acpi Boot_Regs Ethernet
begin

text \<open>
  The first half of the boot pipeline (\<open>hitz-vmm/src/vm.rs\<close>): the configuration
  (\<open>hitz-api/src/config.rs\<close>) and its validation, and the construction of guest memory with page
  tables, kernel, initramfs, zero page, ACPI tables, command line and descriptor table. The host
  file system is a parameter; a path is its components and its text. An error or a panic ends the
  boot and gives up the memory.
\<close>

section \<open>Configuration\<close>

datatype Component = Prefix string | RootDir | CurDir | ParentDir | Normal string

record Path =
  path_components :: "Component list"
  path_display :: string

record NetConfig =
  net_cfg_mac :: "string option"
  net_cfg_host_ip :: string
  net_cfg_guest_ip :: string
  net_cfg_adapter_name :: "string option"

record PortForward =
  pf_host_port :: u16
  pf_guest_port :: u16

datatype GuestAgentMode = Auto | Custom Path | Disabled

record VmConfig =
  cfg_kernel_path :: Path
  cfg_initramfs_path :: "Path option"
  cfg_disk_path :: "Path option"
  cfg_ram_mib :: u32
  cfg_cpus :: u32
  cfg_cmdline :: "string option"
  cfg_net :: "NetConfig option"
  cfg_ports :: "PortForward list"
  cfg_guest_cid :: u32
  cfg_guest_agent :: GuestAgentMode

definition DEFAULT_CMDLINE :: string where
  "DEFAULT_CMDLINE = ''console=ttyS0 earlyprintk=serial''"

definition effective_cmdline :: "VmConfig \<Rightarrow> string" where
  "effective_cmdline config = (case cfg_cmdline config of Some s \<Rightarrow> s | None \<Rightarrow> DEFAULT_CMDLINE)"

definition VIRTIO_MMIO_BASE :: u64 where "VIRTIO_MMIO_BASE = 0xD0000000"
definition VIRTIO_MMIO_SIZE :: u64 where "VIRTIO_MMIO_SIZE = 0x1000"
definition VIRTIO_IRQ_BASE :: u8 where "VIRTIO_IRQ_BASE = 5"
definition VIRTIO_IRQ_NET :: u8 where "VIRTIO_IRQ_NET = 6"
definition VIRTIO_IRQ_VSOCK :: u8 where "VIRTIO_IRQ_VSOCK = 7"
definition MIN_RAM_MIB :: u32 where "MIN_RAM_MIB = 2"

section \<open>Errors\<close>

datatype VmError = VmIo string | VmMem MemError | VmHal HalError | VmBoot BootError | VmConfigError string

fun vm_error_to_string :: "VmError \<Rightarrow> string" where
  "vm_error_to_string (VmIo e) = ''I/O error: '' @ e"
| "vm_error_to_string (VmMem e) = ''memory error: '' @ mem_error_to_string e"
| "vm_error_to_string (VmHal e) = ''hypervisor error: '' @ hal_error_to_string e"
| "vm_error_to_string (VmBoot e) = ''boot error: '' @ boot_error_to_string e"
| "vm_error_to_string (VmConfigError s) = ''config error: '' @ s"

text \<open>The conversions of the \<open>?\<close> operator.\<close>

definition io_result :: "string + 'a \<Rightarrow> (VmError, 'a) outcome" where
  "io_result r = of_result (map_err VmIo r)"

definition mem_result :: "MemError + 'a \<Rightarrow> (VmError, 'a) outcome" where
  "mem_result r = of_result (map_err VmMem r)"

definition boot_result :: "BootError + 'a \<Rightarrow> (VmError, 'a) outcome" where
  "boot_result r = of_result (map_err VmBoot r)"

fun boot_outcome :: "(BootError, 'a) outcome \<Rightarrow> (VmError, 'a) outcome" where
  "boot_outcome (Ok x) = Ok x"
| "boot_outcome (Err e) = Err (VmBoot e)"
| "boot_outcome Panic = Panic"

section \<open>Validation\<close>

record HostFs =
  fs_exists :: "Path \<Rightarrow> bool"
  fs_read :: "Path \<Rightarrow> string + bytes"

definition safe_path :: "Path \<Rightarrow> (VmError, unit) outcome" where
  "safe_path p =
     (if list_ex (\<lambda>c. c = ParentDir) (path_components p)
      then Err (VmConfigError (''path traversal detected: '' @ path_display p)) else Ok ())"

definition safe_path_opt :: "Path option \<Rightarrow> (VmError, unit) outcome" where
  "safe_path_opt p = (case p of None \<Rightarrow> Ok () | Some p \<Rightarrow> safe_path p)"

definition path_missing :: "HostFs \<Rightarrow> Path option \<Rightarrow> bool" where
  "path_missing H p = (case p of None \<Rightarrow> False | Some p \<Rightarrow> \<not> fs_exists H p)"

definition validate_config :: "HostFs \<Rightarrow> VmConfig \<Rightarrow> (VmError, unit) outcome" where
  "validate_config H config =
     outcome_bind (safe_path (cfg_kernel_path config)) (\<lambda>_.
     outcome_bind (safe_path_opt (cfg_initramfs_path config)) (\<lambda>_.
     outcome_bind (safe_path_opt (cfg_disk_path config)) (\<lambda>_.
     outcome_bind (case cfg_guest_agent config of Custom p \<Rightarrow> safe_path p | _ \<Rightarrow> Ok ()) (\<lambda>_.
     if \<not> fs_exists H (cfg_kernel_path config)
     then Err (VmConfigError (''kernel not found: '' @ path_display (cfg_kernel_path config)))
     else if path_missing H (cfg_initramfs_path config)
     then Err (VmConfigError (''initramfs not found: '' @ path_display (the (cfg_initramfs_path config))))
     else if path_missing H (cfg_disk_path config)
     then Err (VmConfigError (''disk image not found: '' @ path_display (the (cfg_disk_path config))))
     else if cfg_ram_mib config < MIN_RAM_MIB
     then Err (VmConfigError (''RAM must be at least '' @ show_dec (unat MIN_RAM_MIB) @ '' MiB, got '' @
            show_dec (unat (cfg_ram_mib config))))
     else if cfg_cpus config = 0 \<or> 255 < cfg_cpus config
     then Err (VmConfigError (''cpus must be 1..=255, got '' @ show_dec (unat (cfg_cpus config))))
     else Ok ()))))"

section \<open>Guest memory\<close>

fun write_all :: "GuestMemory \<Rightarrow> MemWrite list \<Rightarrow> MemError + GuestMemory" where
  "write_all m [] = Inr m"
| "write_all m (w # ws) =
     (case write_slice m (mw_gpa w) (mw_data w) of Inl e \<Rightarrow> Inl e | Inr m \<Rightarrow> write_all m ws)"

definition load_initramfs_file ::
  "HostFs \<Rightarrow> VmConfig \<Rightarrow> u64 \<Rightarrow> u64 \<Rightarrow> GuestMemory \<Rightarrow> BootParams \<Rightarrow> (VmError, GuestMemory \<times> BootParams) outcome" where
  "load_initramfs_file H config kend ram_bytes m bp =
     (case cfg_initramfs_path config of
        None \<Rightarrow> Ok (m, bp)
      | Some path \<Rightarrow>
          outcome_bind (io_result (fs_read H path)) (\<lambda>data.
          outcome_bind (boot_outcome (load_initramfs data kend ram_bytes gm_writer m)) (\<lambda>(m, r).
          outcome_bind (boot_result (set_initramfs_params bp (initramfs_gpa r) (initramfs_size r))) (\<lambda>bp.
          Ok (m, bp)))))"

definition write_acpi :: "VmConfig \<Rightarrow> GuestMemory \<Rightarrow> BootParams \<Rightarrow> (VmError, GuestMemory) outcome" where
  "write_acpi config m bp =
     (if 1 < cfg_cpus config then
        outcome_bind (mem_result (write_slice m RSDP_GPA build_rsdp)) (\<lambda>m.
        outcome_bind (mem_result (write_slice m XSDT_GPA build_xsdt)) (\<lambda>m.
        outcome_bind (boot_result (build_madt (cfg_cpus config))) (\<lambda>madt.
        outcome_bind (mem_result (write_slice m MADT_GPA madt)) (\<lambda>m.
        mem_result (write_slice m BOOT_PARAMS_GPA (boot_params_bytes (set_acpi_rsdp bp RSDP_GPA)))))))
      else Ok m)"

definition setup_guest_memory ::
  "HostFs \<Rightarrow> (nat \<Rightarrow> bytes option) \<Rightarrow> GuestMemory \<Rightarrow> VmConfig \<Rightarrow> u64 \<Rightarrow> u32 \<Rightarrow> (VmError, GuestMemory \<times> u64) outcome" where
  "setup_guest_memory H valloc m config ram_bytes gib_count =
     outcome_bind (mem_result (add_region valloc m 0 (unat ram_bytes))) (\<lambda>m.
     outcome_bind (boot_result (build_page_tables gib_count)) (\<lambda>(pml4_gpa, page_table_writes).
     outcome_bind (mem_result (write_all m page_table_writes)) (\<lambda>m.
     outcome_bind (io_result (fs_read H (cfg_kernel_path config))) (\<lambda>kernel_bytes.
     outcome_bind (boot_outcome (load_elf kernel_bytes gm_writer m)) (\<lambda>(m, load_result).
     outcome_bind (boot_result (build_boot_params ram_bytes CMDLINE_GPA)) (\<lambda>boot_params.
     outcome_bind (load_initramfs_file H config (kernel_end load_result) ram_bytes m boot_params) (\<lambda>(m, boot_params).
     outcome_bind (mem_result (write_slice m BOOT_PARAMS_GPA (boot_params_bytes boot_params))) (\<lambda>m.
     outcome_bind (write_acpi config m boot_params) (\<lambda>m.
     Ok (m, pml4_gpa))))))))))"

definition mmio_device_arg :: "u64 \<Rightarrow> u8 \<Rightarrow> string" where
  "mmio_device_arg base irq =
     '' virtio_mmio.device=0x'' @ show_hex (unat VIRTIO_MMIO_SIZE) @ ''@0x'' @ show_hex (unat base) @ '':'' @ show_dec (unat irq)"

definition dotted :: "bytes \<Rightarrow> string" where
  "dotted ip = show_dec (unat (ip ! 0)) @ ''.'' @ show_dec (unat (ip ! 1)) @ ''.'' @ show_dec (unat (ip ! 2)) @ ''.'' @
     show_dec (unat (ip ! 3))"

text \<open>The text of the command line, with its terminating zero.\<close>

definition kernel_cmdline :: "VmConfig \<Rightarrow> bool \<Rightarrow> (VmError, string) outcome" where
  "kernel_cmdline config has_vsock =
     (let cmdline = effective_cmdline config;
          cmdline = (if cfg_net config \<noteq> None
            then cmdline @ mmio_device_arg (VIRTIO_MMIO_BASE + VIRTIO_MMIO_SIZE) VIRTIO_IRQ_NET else cmdline) in
      outcome_bind (case cfg_net config of
          None \<Rightarrow> Ok cmdline
        | Some net_cfg \<Rightarrow>
            outcome_bind (of_result (map_err VmConfigError (parse_cidr (net_cfg_guest_ip net_cfg)))) (\<lambda>(guest_ip, _).
            outcome_bind (of_result (map_err VmConfigError (parse_cidr (net_cfg_host_ip net_cfg)))) (\<lambda>(gateway_ip, _).
            Ok (cmdline @ '' ip='' @ dotted guest_ip @ ''::'' @ dotted gateway_ip @ '':255.255.255.0::eth0:off'')))) (\<lambda>cmdline.
      let cmdline = (if has_vsock
            then cmdline @ mmio_device_arg (VIRTIO_MMIO_BASE + VIRTIO_MMIO_SIZE * 2) VIRTIO_IRQ_VSOCK else cmdline) in
      Ok (cmdline @ [CHR 0x00])))"

definition build_kernel_cmdline :: "GuestMemory \<Rightarrow> VmConfig \<Rightarrow> bool \<Rightarrow> (VmError, GuestMemory) outcome" where
  "build_kernel_cmdline m config has_vsock =
     outcome_bind (kernel_cmdline config has_vsock) (\<lambda>cmdline.
     mem_result (write_slice m CMDLINE_GPA (ascii_bytes cmdline)))"

section \<open>The memory the guest starts with\<close>

definition ram_bytes_of :: "VmConfig \<Rightarrow> u64" where
  "ram_bytes_of config = ucast (cfg_ram_mib config) * 1024 * 1024"

definition gib_count_of :: "VmConfig \<Rightarrow> u32" where
  "gib_count_of config =
     (let q = cfg_ram_mib config div 1024; r = cfg_ram_mib config mod 1024 in
      max (if 0 < r then q + 1 else q) 1)"

text \<open>Steps 1 to 9 of \<open>boot_and_run\<close>, and the second load of the kernel in step 11, all of which only
  touch guest memory; the partition is created in between.\<close>

definition boot_memory ::
  "HostFs \<Rightarrow> (nat \<Rightarrow> bytes option) \<Rightarrow> VmConfig \<Rightarrow> bool \<Rightarrow> (VmError, GuestMemory \<times> u64) outcome" where
  "boot_memory H valloc config has_vsock =
     outcome_bind (validate_config H config) (\<lambda>_.
     outcome_bind (setup_guest_memory H valloc guest_memory_new config (ram_bytes_of config) (gib_count_of config)) (\<lambda>(m, pml4_gpa).
     outcome_bind (build_kernel_cmdline m config has_vsock) (\<lambda>m.
     outcome_bind (mem_result (write_gdt m)) (\<lambda>m.
     Ok (m, pml4_gpa)))))"

definition reload_kernel :: "HostFs \<Rightarrow> VmConfig \<Rightarrow> GuestMemory \<Rightarrow> (VmError, GuestMemory \<times> u64) outcome" where
  "reload_kernel H config m =
     outcome_bind (io_result (fs_read H (cfg_kernel_path config))) (\<lambda>kernel_bytes.
     outcome_bind (boot_outcome (load_elf kernel_bytes gm_writer m)) (\<lambda>(m, r).
     Ok (m, entry_point r)))"

end
