(* ===== verification/Boot_Image.thy ===== *)
theory Boot_Image
  imports Vm_Boot
begin

text \<open>
  The memory image the boot pipeline leaves behind, as a composition of the builders of the boot
  crate: every structure the kernel and the processor read at entry is in place, because no later
  write of the pipeline overlaps an earlier structure.
\<close>

section \<open>Writes as overlays\<close>

definition overlay :: "(u64 \<Rightarrow> u8) \<Rightarrow> nat \<Rightarrow> bytes \<Rightarrow> u64 \<Rightarrow> u8" where
  "overlay f a bs x = (if a \<le> unat x \<and> unat x < a + length bs then bs ! (unat x - a) else f x)"

lemma overlay_outside [simp]: "unat x < a \<or> a + length bs \<le> unat x \<Longrightarrow> overlay f a bs x = f x"
  by (auto simp: overlay_def)

text \<open>The bytes of guest memory from an address on.\<close>

definition guest_bytes :: "(u64 \<Rightarrow> u8) \<Rightarrow> nat \<Rightarrow> nat \<Rightarrow> bytes" where
  "guest_bytes f a n = map (\<lambda>i. f (of_nat (a + i))) [0..<n]"

lemma guest_bytes_cong:
  assumes "a + n \<le> 2 ^ 64" "\<And>x. a \<le> unat x \<Longrightarrow> unat x < a + n \<Longrightarrow> f x = g x"
  shows "guest_bytes f a n = guest_bytes g a n"
  unfolding guest_bytes_def
proof (rule map_cong [OF refl])
  fix i assume "i \<in> set [0..<n]"
  then have "unat (of_nat (a + i) :: u64) = a + i" "i < n"
    using assms(1) by (simp_all only: atLeastLessThan_iff set_upt) (intro unat_of_nat_eq, simp)
  then show "f (of_nat (a + i)) = g (of_nat (a + i))" using assms(2) by simp
qed

lemma guest_bytes_overlay:
  assumes "a + length bs \<le> 2 ^ 64" "n = length bs"
  shows "guest_bytes (overlay f a bs) a n = bs"
proof (rule nth_equalityI)
  fix i assume "i < length (guest_bytes (overlay f a bs) a n)"
  then have i: "i < length bs" by (simp add: guest_bytes_def assms(2))
  then have "unat (of_nat (a + i) :: u64) = a + i" using assms(1) by (intro unat_of_nat_eq) simp
  then show "guest_bytes (overlay f a bs) a n ! i = bs ! i" using i by (simp add: guest_bytes_def overlay_def assms(2))
qed (simp add: guest_bytes_def assms(2))

lemma write_slice_overlay:
  assumes "gm_inv m" "write_slice m a bs = Inr m'"
  shows "gm_inv m'" "gm_mapped m' = gm_mapped m" "gm_byte m' = overlay (gm_byte m) (unat a) bs"
  using write_slice_ok [OF assms] by (simp_all add: fun_eq_iff overlay_def)

lemma apply_writes_agree:
  "f a = g a \<Longrightarrow> foldl apply_write f ws a = foldl apply_write g ws a"
proof (induction ws arbitrary: f g)
  case (Cons w ws)
  have "apply_write f w a = apply_write g w a" using Cons.prems unfolding apply_write_def by presburger
  then have "foldl apply_write (apply_write f w) ws a = foldl apply_write (apply_write g w) ws a" by (rule Cons.IH)
  then show ?case by simp
qed simp

lemma unat_of_nat_u64: "a < 2 ^ 64 \<Longrightarrow> unat (of_nat a :: u64) = a"
  by (rule unat_of_nat_eq) simp

lemma write_all_applies:
  assumes "gm_inv m" "write_all m ws = Inr m'"
  shows "gm_inv m' \<and> gm_mapped m' = gm_mapped m \<and>
    (\<forall>a < 2 ^ 64. gm_byte m' (of_nat a) = foldl apply_write (\<lambda>a. gm_byte m (of_nat a)) ws a)"
  using assms
proof (induction ws arbitrary: m)
  case (Cons w ws)
  then obtain m1 where m1: "write_slice m (mw_gpa w) (mw_data w) = Inr m1" "write_all m1 ws = Inr m'"
    by (auto split: sum.splits)
  note o = write_slice_overlay [OF Cons.prems(1) m1(1)]
  have one: "gm_byte m1 (of_nat a) = apply_write (\<lambda>a. gm_byte m (of_nat a)) w a" if "a < 2 ^ 64" for a
    unfolding o(3) overlay_def apply_write_def unat_of_nat_u64 [OF that] ..
  note IH = Cons.IH [OF o(1) m1(2)]
  have "gm_byte m' (of_nat a) = foldl apply_write (\<lambda>a. gm_byte m (of_nat a)) (w # ws) a" if a: "a < 2 ^ 64" for a
  proof -
    have "gm_byte m' (of_nat a) = foldl apply_write (\<lambda>a. gm_byte m1 (of_nat a)) ws a" using IH a by blast
    also have "\<dots> = foldl apply_write (apply_write (\<lambda>a. gm_byte m (of_nat a)) w) ws a"
      by (rule apply_writes_agree) (rule one [OF a])
    finally show ?thesis by (simp only: foldl_Cons)
  qed
  then show ?case using IH o(2) by simp
qed simp

section \<open>The steps of the pipeline\<close>

lemma outcome_lifts:
  "io_result r = Ok x \<longleftrightarrow> r = Inr x" "mem_result s = Ok y \<longleftrightarrow> s = Inr y" "boot_result t = Ok z \<longleftrightarrow> t = Inr z"
  "boot_outcome u = Ok w \<longleftrightarrow> u = Ok w"
  by (simp_all add: io_result_def mem_result_def boot_result_def of_result_Ok_iff) (cases u; simp)

lemma put_segments_low:
  assumes "\<forall>ph\<in>set segs. lim \<le> unat (ph_paddr ph)" "unat x < lim"
  shows "foldl (put_segment elf) f segs x = f x"
  using assms(1)
proof (induction segs arbitrary: f)
  case (Cons ph segs)
  then have "put_segment elf f ph x = f x" using assms(2) by (auto simp: put_segment_def Let_def)
  then show ?case using Cons by simp
qed simp

text \<open>What loading the kernel does, for segments at or above \<open>lim\<close>.\<close>

lemma load_elf_low:
  assumes "gm_inv m" "load_elf elf gm_writer m = Ok (m', r)" "parse_elf_header elf = Ok hdr"
    and "\<forall>ph\<in>set (pt_loads elf hdr [0..<unat (eh_phnum hdr)]). lim \<le> unat (ph_paddr ph)"
  shows "gm_inv m'" "unat x < lim \<Longrightarrow> gm_byte m' x = gm_byte m x" "lim \<le> unat (kernel_end r)"
    "entry_point r = eh_entry hdr"
    "gm_byte m' = foldl (put_segment elf) (gm_byte m) (pt_loads elf hdr [0..<unat (eh_phnum hdr)])"
proof -
  define segs where "segs = pt_loads elf hdr [0..<unat (eh_phnum hdr)]"
  have k: "gm_inv m'" "segs \<noteq> []" "gm_byte m' = foldl (put_segment elf) (gm_byte m) segs"
    "unat (kernel_end r) = Max ((\<lambda>ph. unat (ph_paddr ph) + unat (ph_memsz ph)) ` set segs)" "entry_point r = eh_entry hdr"
    using gmw.load_elf_ok [OF assms(1,2)] assms(3) by (simp_all add: segs_def Let_def)
  obtain ph where ph: "ph \<in> set segs" using k(2) by (meson last_in_set)
  have "unat (ph_paddr ph) + unat (ph_memsz ph) \<le> unat (kernel_end r)" unfolding k(4) using ph by (intro Max_ge) auto
  then show "lim \<le> unat (kernel_end r)" using assms(4) ph by (fastforce simp: segs_def)
  show "unat x < lim \<Longrightarrow> gm_byte m' x = gm_byte m x"
    unfolding k(3) using put_segments_low [of segs lim x elf "gm_byte m"] assms(4) by (simp add: segs_def)
  show "gm_inv m'" "entry_point r = eh_entry hdr"
    "gm_byte m' = foldl (put_segment elf) (gm_byte m) (pt_loads elf hdr [0..<unat (eh_phnum hdr)])"
    using k by (simp_all add: segs_def)
qed


lemma load_initramfs_low:
  assumes "gm_inv m" "load_initramfs data kend ram gm_writer m = Ok (m', r)"
  shows "gm_inv m'" "unat x < unat kend \<Longrightarrow> gm_byte m' x = gm_byte m x"
proof -
  define g where "g = (kend + 0xFFF) AND NOT 0xFFF"
  have n: "unat kend + 0xFFF < 2 ^ 64" and w: "write_bytes gm_writer m g data = Inr m'"
    using assms(2) unfolding g_def
    by (auto simp: load_initramfs_def Let_def add_checked_panic_def checked_add_def outcome_iffs split: if_splits)
  have "(unat kend + 0xFFF) mod 4096 < 4096" by simp
  then have g: "unat kend \<le> unat g"
    unfolding g_def align_4096 [OF n] using div_mult_mod_eq [of "unat kend + 0xFFF" 4096] by linarith
  show "gm_inv m'" "unat x < unat kend \<Longrightarrow> gm_byte m' x = gm_byte m x"
    using gmw.write_bytes_ok [OF assms(1) w] g by auto
qed

lemma set_initramfs_keeps:
  assumes "set_initramfs_params bp g n = Inr bp'"
  shows "e820_table bp' = e820_table bp" "e820_entries bp' = e820_entries bp" "acpi_rsdp_addr bp' = acpi_rsdp_addr bp"
    "cmd_line_ptr (bp_hdr bp') = cmd_line_ptr (bp_hdr bp)"
  using assms by (auto simp: set_initramfs_params_def split: if_splits)

lemma load_initramfs_file_low:
  assumes "gm_inv m" "load_initramfs_file H config kend ram m bp = Ok (m', bp')"
  shows "gm_inv m'" "unat x < unat kend \<Longrightarrow> gm_byte m' x = gm_byte m x"
    "e820_table bp' = e820_table bp" "e820_entries bp' = e820_entries bp" "acpi_rsdp_addr bp' = acpi_rsdp_addr bp"
    "cmd_line_ptr (bp_hdr bp') = cmd_line_ptr (bp_hdr bp)"
  using assms load_initramfs_low set_initramfs_keeps
  by (auto simp: load_initramfs_file_def outcome_iffs outcome_lifts split: option.splits)

text \<open>What the ACPI step leaves behind: the tables, and the zero page that points to them.\<close>

definition acpi_in :: "VmConfig \<Rightarrow> (u64 \<Rightarrow> u8) \<Rightarrow> bool" where
  "acpi_in config f \<longleftrightarrow> (1 < cfg_cpus config \<longrightarrow>
     guest_bytes f 0xE0000 36 = build_rsdp \<and> guest_bytes f 0xE1000 44 = build_xsdt \<and>
     (\<exists>madt. build_madt (cfg_cpus config) = Inr madt \<and> length madt \<le> 4096 \<and> guest_bytes f 0xE2000 (length madt) = madt))"

lemma acpi_in_cong:
  assumes "acpi_in config f" "\<And>x. 0xE0000 \<le> unat x \<Longrightarrow> unat x < 0xE3000 \<Longrightarrow> g x = f x"
  shows "acpi_in config g"
proof -
  have "guest_bytes g a n = guest_bytes f a n" if "0xE0000 \<le> a" "a + n \<le> 0xE3000" for a n
    by (rule guest_bytes_cong) (use that assms(2) in auto)
  with assms(1) show ?thesis by (fastforce simp: acpi_in_def)
qed

definition final_params :: "VmConfig \<Rightarrow> BootParams \<Rightarrow> BootParams" where
  "final_params config bp = (if 1 < cfg_cpus config then set_acpi_rsdp bp RSDP_GPA else bp)"

lemma write_acpi_low:
  assumes "gm_inv m" "write_acpi config m bp = Ok m'" "unat (cfg_cpus config) \<le> 255"
    and "length (e820_table bp) = 128" "guest_bytes (gm_byte m) 0x7000 4096 = boot_params_bytes bp"
  shows "gm_inv m' \<and> guest_bytes (gm_byte m') 0x7000 4096 = boot_params_bytes (final_params config bp) \<and>
    acpi_in config (gm_byte m') \<and>
    (\<forall>x. unat x < 0xE0000 \<longrightarrow> unat x < 0x7000 \<or> 0x8000 \<le> unat x \<longrightarrow> gm_byte m' x = gm_byte m x)"
proof (cases "1 < cfg_cpus config")
  case False
  then show ?thesis using assms by (simp add: write_acpi_def acpi_in_def final_params_def)
next
  case True
  let ?bs = "boot_params_bytes (set_acpi_rsdp bp RSDP_GPA)"
  obtain m1 m2 m3 madt where s: "write_slice m RSDP_GPA build_rsdp = Inr m1" "write_slice m1 XSDT_GPA build_xsdt = Inr m2"
    "build_madt (cfg_cpus config) = Inr madt" "write_slice m2 MADT_GPA madt = Inr m3" "write_slice m3 BOOT_PARAMS_GPA ?bs = Inr m'"
    using True assms(2) by (auto simp: write_acpi_def outcome_iffs outcome_lifts)
  note o1 = write_slice_overlay [OF assms(1) s(1)] note o2 = write_slice_overlay [OF o1(1) s(2)]
  note o3 = write_slice_overlay [OF o2(1) s(4)] note o4 = write_slice_overlay [OF o3(1) s(5)]
  have lb: "length ?bs = 4096" by (rule length_boot_params_bytes) (simp add: set_acpi_rsdp_def assms(4))
  have "0 < unat (cfg_cpus config)" using True by (simp add: word_less_nat_alt)
  then have lm: "length madt \<le> 4096" using madt_valid [of "cfg_cpus config"] assms(3) s(3) by auto
  note l = rsdp_valid(1) xsdt_valid(3) lb lm
  have f: "gm_byte m' = overlay (overlay (overlay (overlay (gm_byte m) 0xE0000 build_rsdp) 0xE1000 build_xsdt) 0xE2000 madt) 0x7000 ?bs"
    by (simp add: o4(3) o3(3) o2(3) o1(3) RSDP_GPA_def XSDT_GPA_def MADT_GPA_def BOOT_PARAMS_GPA_def)
  have "guest_bytes (gm_byte m') 0x7000 4096 = ?bs" unfolding f by (rule guest_bytes_overlay) (simp_all add: l)
  moreover have "guest_bytes (gm_byte m') 0xE0000 36 = guest_bytes (overlay (gm_byte m) 0xE0000 build_rsdp) 0xE0000 36"
    unfolding f by (rule guest_bytes_cong) (use l in auto)
  moreover have "guest_bytes (gm_byte m') 0xE1000 44 =
      guest_bytes (overlay (overlay (gm_byte m) 0xE0000 build_rsdp) 0xE1000 build_xsdt) 0xE1000 44"
    unfolding f by (rule guest_bytes_cong) (use l in auto)
  moreover have "guest_bytes (gm_byte m') 0xE2000 (length madt) =
      guest_bytes (overlay (overlay (overlay (gm_byte m) 0xE0000 build_rsdp) 0xE1000 build_xsdt) 0xE2000 madt) 0xE2000 (length madt)"
    unfolding f by (rule guest_bytes_cong) (use l in auto)
  moreover have "gm_byte m' x = gm_byte m x" if "unat x < 0xE0000" "unat x < 0x7000 \<or> 0x8000 \<le> unat x" for x
    unfolding f using that l by auto
  ultimately show ?thesis
    using True s(3) o4(1) l by (simp add: acpi_in_def final_params_def guest_bytes_overlay)
qed


text \<open>The kernel file: its header, and all its loadable segments at or above 1 MiB.\<close>

definition high_kernel :: "HostFs \<Rightarrow> VmConfig \<Rightarrow> bytes \<Rightarrow> Elf64Header \<Rightarrow> bool" where
  "high_kernel H config elf hdr \<longleftrightarrow> fs_read H (cfg_kernel_path config) = Inr elf \<and> parse_elf_header elf = Ok hdr \<and>
     (\<forall>ph\<in>set (pt_loads elf hdr [0..<unat (eh_phnum hdr)]). 0x100000 \<le> unat (ph_paddr ph))"

definition params_ok :: "VmConfig \<Rightarrow> BootParams \<Rightarrow> bool" where
  "params_ok config bp \<longleftrightarrow> e820_table bp = initial_e820 (ram_bytes_of config) @ replicate 125 e820_default \<and>
     e820_entries bp = 3 \<and> cmd_line_ptr (bp_hdr bp) = 0x20000 \<and> acpi_rsdp_addr bp = 0"

text \<open>Everything below 1 MiB the guest relies on, except the command line and the descriptor table.\<close>

definition low_image :: "VmConfig \<Rightarrow> (u64 \<Rightarrow> u8) \<Rightarrow> bool" where
  "low_image config f \<longleftrightarrow> tables_in (unat (gib_count_of config)) (\<lambda>a. f (of_nat a)) \<and> acpi_in config f \<and>
     (\<exists>bp. guest_bytes f 0x7000 4096 = boot_params_bytes (final_params config bp) \<and> params_ok config bp)"

lemma low_image_cong:
  assumes "low_image config f" "unat (gib_count_of config) \<le> 22"
    and "\<And>x. 0x7000 \<le> unat x \<Longrightarrow> unat x < 0x20000 \<Longrightarrow> g x = f x" "\<And>x. 0xE0000 \<le> unat x \<Longrightarrow> unat x < 0x100000 \<Longrightarrow> g x = f x"
  shows "low_image config g"
proof -
  have "acpi_in config g" using assms(1,4) by (auto simp: low_image_def intro: acpi_in_cong)
  moreover have "tables_in (unat (gib_count_of config)) (\<lambda>a. g (of_nat a))"
  proof (rule tables_in_cong)
    show "tables_in (unat (gib_count_of config)) (\<lambda>a. f (of_nat a))" using assms(1) by (simp add: low_image_def)
    fix a :: nat assume "0x8000 \<le> a" "a < 0xA000 + 4096 * unat (gib_count_of config)"
    moreover from this assms(2) have "unat (of_nat a :: u64) = a" by (intro unat_of_nat_u64) simp
    ultimately show "g (of_nat a) = f (of_nat a)" using assms(2,3) by simp
  qed
  moreover have "guest_bytes g 0x7000 4096 = guest_bytes f 0x7000 4096" by (rule guest_bytes_cong) (use assms(3) in auto)
  ultimately show ?thesis using assms(1) by (simp add: low_image_def)
qed

lemma setup_guest_memory_low:
  assumes "virtual_alloc_law valloc" "high_kernel H config elf hdr" "unat (cfg_cpus config) \<le> 255"
    and "setup_guest_memory H valloc guest_memory_new config (ram_bytes_of config) (gib_count_of config) = Ok (m', pml4)"
  shows "gm_inv m' \<and> acpi_in config (gm_byte m') \<and>
    (\<exists>bp. guest_bytes (gm_byte m') 0x7000 4096 = boot_params_bytes (final_params config bp) \<and> params_ok config bp) \<and>
    (\<exists>ws f. build_page_tables (gib_count_of config) = Inr (pml4, ws) \<and>
       (\<forall>a. 0x8000 \<le> a \<longrightarrow> a < 0xE0000 \<longrightarrow> gm_byte m' (of_nat a) = foldl apply_write f ws a))"
proof -
  let ?g = "gib_count_of config" and ?ram = "ram_bytes_of config"
  obtain m0 ws m1 m2 r bp0 m3 bp m4 where
    s: "add_region valloc guest_memory_new 0 (unat ?ram) = Inr m0" "build_page_tables ?g = Inr (pml4, ws)" "write_all m0 ws = Inr m1"
      "load_elf elf gm_writer m1 = Ok (m2, r)" "build_boot_params ?ram CMDLINE_GPA = Inr bp0"
      "load_initramfs_file H config (kernel_end r) ?ram m2 bp0 = Ok (m3, bp)"
      "write_slice m3 BOOT_PARAMS_GPA (boot_params_bytes bp) = Inr m4" "write_acpi config m4 bp = Ok m'"
    using assms(2,4) by (auto simp: setup_guest_memory_def high_kernel_def outcome_iffs outcome_lifts)
  have "gm_inv guest_memory_new" by (simp add: gm_inv_def guest_memory_new_def)
  from add_region_grows(1) [OF this assms(1) s(1)] have i0: "gm_inv m0" .
  note w = write_all_applies [OF i0 s(3)]
  have hk: "parse_elf_header elf = Ok hdr" "\<forall>ph\<in>set (pt_loads elf hdr [0..<unat (eh_phnum hdr)]). 0x100000 \<le> unat (ph_paddr ph)"
    using assms(2) by (simp_all add: high_kernel_def)
  note e = load_elf_low [OF conjunct1 [OF w] s(4) hk]
  note f = load_initramfs_file_low [OF e(1) s(6)]
  note o = write_slice_overlay [OF f(1) s(7)]
  note b = build_boot_params_Inr [OF s(5)]
  have lb: "length (e820_table bp) = 128" using b f by (simp add: initial_e820_def)
  have g4: "guest_bytes (gm_byte m4) 0x7000 4096 = boot_params_bytes bp"
    unfolding o(3) BOOT_PARAMS_GPA_def using length_boot_params_bytes [OF lb] by (simp add: guest_bytes_overlay)
  note a = write_acpi_low [OF o(1) s(8) assms(3) lb g4]
  have low: "gm_byte m' x = gm_byte m1 x" if "unat x < 0xE0000" "0x8000 \<le> unat x" for x
  proof -
    have "gm_byte m' x = gm_byte m4 x" using a that by blast
    also have "\<dots> = gm_byte m3 x"
      unfolding o(3) BOOT_PARAMS_GPA_def using that length_boot_params_bytes [OF lb] by simp
    also have "\<dots> = gm_byte m1 x" using f(2) e(2,3) that by simp
    finally show ?thesis .
  qed
  have t: "gm_byte m' (of_nat k) = foldl apply_write (\<lambda>a. gm_byte m0 (of_nat a)) ws k" if "0x8000 \<le> k" "k < 0xE0000" for k
  proof -
    have "unat (of_nat k :: u64) = k" using that by (intro unat_of_nat_u64) simp
    then have "gm_byte m' (of_nat k) = gm_byte m1 (of_nat k)" using low that by simp
    then show ?thesis using w that by simp
  qed
  have "params_ok config bp" using b f by (simp add: params_ok_def CMDLINE_GPA_def)
  then show ?thesis using a s(2) t by blast
qed

lemma setup_guest_memory_image:
  assumes "virtual_alloc_law valloc" "high_kernel H config elf hdr" "unat (cfg_cpus config) \<le> 255" "unat (gib_count_of config) \<le> 22"
    and "setup_guest_memory H valloc guest_memory_new config (ram_bytes_of config) (gib_count_of config) = Ok (m', pml4)"
  shows "gm_inv m'" "pml4 = PML4_GPA" "low_image config (gm_byte m')"
proof -
  note l = setup_guest_memory_low [OF assms(1-3,5)]
  then obtain ws f where t: "build_page_tables (gib_count_of config) = Inr (pml4, ws)"
    "\<forall>a. 0x8000 \<le> a \<longrightarrow> a < 0xE0000 \<longrightarrow> gm_byte m' (of_nat a) = foldl apply_write f ws a" by blast
  have "tables_in (unat (gib_count_of config)) (\<lambda>a. gm_byte m' (of_nat a))"
    using t(2) assms(4) by (intro tables_in_cong [OF built_tables_in(2) [OF t(1)]]) simp
  with l show "gm_inv m'" "low_image config (gm_byte m')" by (auto simp: low_image_def)
  show "pml4 = PML4_GPA" by (rule built_tables_in(1) [OF t(1)])
qed

lemma write_acpi_inv:
  assumes "gm_inv m" "write_acpi config m bp = Ok m'"
  shows "gm_inv m'"
proof (cases "1 < cfg_cpus config")
  case False
  then show ?thesis using assms by (simp add: write_acpi_def)
next
  case True
  with assms(2) obtain m1 m2 m3 madt where s: "write_slice m RSDP_GPA build_rsdp = Inr m1" "write_slice m1 XSDT_GPA build_xsdt = Inr m2"
    "write_slice m2 MADT_GPA madt = Inr m3" "write_slice m3 BOOT_PARAMS_GPA (boot_params_bytes (set_acpi_rsdp bp RSDP_GPA)) = Inr m'"
    by (auto simp: write_acpi_def outcome_iffs outcome_lifts)
  show ?thesis
    using write_slice_ok(1) [OF assms(1) s(1)] s(2-4) by (blast dest: write_slice_ok(1))
qed

text \<open>Every successful boot leaves a well-formed memory.\<close>

lemma boot_memory_inv:
  assumes "virtual_alloc_law valloc" "boot_memory H valloc config has_vsock = Ok (m', pml4)"
  shows "gm_inv m'"
proof -
  obtain m0 ws m1 elf m2 r bp0 m3 bp m4 m5 cmd m6 where
    s: "add_region valloc guest_memory_new 0 (unat (ram_bytes_of config)) = Inr m0" "write_all m0 ws = Inr m1"
      "load_elf elf gm_writer m1 = Ok (m2, r)"
      "load_initramfs_file H config (kernel_end r) (ram_bytes_of config) m2 bp0 = Ok (m3, bp)"
      "write_slice m3 BOOT_PARAMS_GPA (boot_params_bytes bp) = Inr m4" "write_acpi config m4 bp = Ok m5"
      "write_slice m5 CMDLINE_GPA (ascii_bytes cmd) = Inr m6" "write_gdt m6 = Inr m'"
    using assms(2) by (auto simp: boot_memory_def setup_guest_memory_def build_kernel_cmdline_def outcome_iffs outcome_lifts)
  have "gm_inv guest_memory_new" by (simp add: gm_inv_def guest_memory_new_def)
  from add_region_grows(1) [OF this assms(1) s(1)] have i0: "gm_inv m0" .
  have "gm_inv m1" using write_all_applies [OF i0 s(2)] by blast
  then have "gm_inv m2" using gmw.load_elf_ok s(3) by blast
  then have "gm_inv m3" using load_initramfs_file_low(1) s(4) by blast
  then have "gm_inv m4" using write_slice_ok(1) s(5) by blast
  then have "gm_inv m5" using write_acpi_inv s(6) by blast
  then have "gm_inv m6" using write_slice_ok(1) s(7) by blast
  then show ?thesis using write_gdt_ok(1) s(8) by blast
qed

lemma reload_kernel_inv:
  assumes "gm_inv m" "reload_kernel H config m = Ok (m', entry)"
  shows "gm_inv m'"
  using assms gmw.load_elf_ok by (auto simp: reload_kernel_def outcome_iffs outcome_lifts)

section \<open>Configuration\<close>

lemma validate_config_Ok:
  assumes "validate_config H config = Ok ()"
  shows "2 \<le> unat (cfg_ram_mib config)" "0 < unat (cfg_cpus config)" "unat (cfg_cpus config) \<le> 255"
  using assms by (auto simp: validate_config_def outcome_iffs MIN_RAM_MIB_def word_less_nat_alt unat_gt_0 split: if_splits)

lemma unat_ram_bytes: "unat (ram_bytes_of config) = unat (cfg_ram_mib config) * 1048576"
proof -
  let ?r = "ucast (cfg_ram_mib config) :: u64"
  have u: "unat ?r = unat (cfg_ram_mib config)" by (rule unat_ucast_up) simp
  have b: "unat (cfg_ram_mib config) < 4294967296" by (rule unat_u32_less)
  have "unat (?r * 1048576) = unat ?r * unat (1048576 :: u64)" using b u by (intro unat_mult_nowrap) simp
  then show ?thesis by (simp add: ram_bytes_of_def u mult.assoc)
qed

lemma unat_gib_count:
  "unat (gib_count_of config) =
     max (unat (cfg_ram_mib config) div 1024 + (if unat (cfg_ram_mib config) mod 1024 = 0 then 0 else 1)) 1"
proof -
  let ?n = "unat (cfg_ram_mib config)"
  let ?q = "cfg_ram_mib config div 1024" and ?r = "cfg_ram_mib config mod 1024"
  have q: "unat ?q = ?n div 1024" "unat ?r = ?n mod 1024" by (simp_all add: unat_div unat_mod)
  have u: "unat (max a b) = max (unat a) (unat b)" for a b :: u32 by (simp add: max_def word_le_nat_alt)
  have "unat ?q + unat (1 :: u32) < 2 ^ LENGTH(32)" using unat_u32_less [of "cfg_ram_mib config"] q by simp
  from unat_add_nowrap [OF this] have q1: "unat (?q + 1) = ?n div 1024 + 1" using q by simp
  have "0 < ?r \<longleftrightarrow> ?n mod 1024 \<noteq> 0" using q(2) by (simp add: word_less_nat_alt)
  then show ?thesis by (simp add: gib_count_of_def Let_def u q q1)
qed

lemma gib_count_covers_ram: "unat (ram_bytes_of config) \<le> unat (gib_count_of config) * 2 ^ 30"
proof -
  let ?n = "unat (cfg_ram_mib config)"
  have "?n = ?n div 1024 * 1024 + ?n mod 1024" "?n mod 1024 < 1024" by simp_all
  then have "?n \<le> unat (gib_count_of config) * 1024" unfolding unat_gib_count by auto
  then show ?thesis by (simp add: unat_ram_bytes)
qed

lemma gib_count_limit:
  assumes "unat (cfg_ram_mib config) \<le> 22 * 1024"
  shows "unat (gib_count_of config) \<le> 22"
proof -
  define q r where "q = unat (cfg_ram_mib config) div 1024" and "r = unat (cfg_ram_mib config) mod 1024"
  have "unat (cfg_ram_mib config) = q * 1024 + r" by (simp add: q_def r_def)
  with assms have "q + (if r = 0 then 0 else 1) \<le> 22" by (auto split: if_splits)
  then show ?thesis unfolding unat_gib_count q_def [symmetric] r_def [symmetric] by simp
qed

section \<open>Property\<close>



section \<open>More than 22 GiB\<close>


section \<open>A boot that succeeds\<close>

definition demo_kernel :: bytes where
  "demo_kernel = ELF_MAGIC @ [2, 1, 1, 0, 0, 0, 0, 0, 0, 0, 0, 0, 2, 0, 62, 0, 1, 0, 0, 0] @
     [0, 0, 0x10, 0, 0, 0, 0, 0] @ [64, 0, 0, 0, 0, 0, 0, 0] @ [0, 0, 0, 0, 0, 0, 0, 0] @ [0, 0, 0, 0] @
     [64, 0] @ [56, 0] @ [1, 0] @ [0, 0, 0, 0, 0, 0] @
     [1, 0, 0, 0, 5, 0, 0, 0] @ [120, 0, 0, 0, 0, 0, 0, 0] @ [0, 0, 0, 0, 0, 0, 0, 0] @ [0, 0, 0x10, 0, 0, 0, 0, 0] @
     [2, 0, 0, 0, 0, 0, 0, 0] @ [4, 0, 0, 0, 0, 0, 0, 0] @ [0, 0, 0, 0, 0, 0, 0, 0] @ [0xAA, 0xBB]"

definition kernel_hdr :: Elf64Header where
  "kernel_hdr = \<lparr>eh_entry = 0x100000, eh_phoff = 64, eh_phentsize = 56, eh_phnum = 1\<rparr>"

definition kernel_phdr :: Elf64Phdr where
  "kernel_phdr = \<lparr>ph_ty = 1, ph_offset = 120, ph_paddr = 0x100000, ph_filesz = 2, ph_memsz = 4\<rparr>"

definition demo_fs :: HostFs where
  "demo_fs = \<lparr>fs_exists = (\<lambda>p. True), fs_read = (\<lambda>p. Inr demo_kernel)\<rparr>"

definition demo_config :: VmConfig where
  "demo_config = \<lparr>cfg_kernel_path = \<lparr>path_components = [Normal ''vmlinux''], path_display = ''vmlinux''\<rparr>,
     cfg_initramfs_path = None, cfg_disk_path = Some \<lparr>path_components = [Normal ''disk.img''], path_display = ''disk.img''\<rparr>,
     cfg_ram_mib = 2, cfg_cpus = 1, cfg_cmdline = None, cfg_net = None,
     cfg_ports = [], cfg_guest_cid = 3, cfg_guest_agent = Disabled\<rparr>"

definition demo_alloc :: "nat \<Rightarrow> bytes option" where
  "demo_alloc n = (if n = 0 then None else Some (replicate n 0))"

lemma demo_kernel_headers: "parse_elf_header demo_kernel = Ok kernel_hdr" "header_at demo_kernel kernel_hdr 0 = Ok kernel_phdr"
  by (simp_all add: parse_elf_header_def header_at_def parse_program_header_def read_le_def demo_kernel_def ELF_MAGIC_def
    add_checked_panic_def checked_add_def get_range_def ok_or_def kernel_hdr_def kernel_phdr_def)

lemma demo_kernel_loads:
  assumes "gm_inv m" "gm_mapped m 0x100000 4"
  shows "\<exists>m' r. load_elf demo_kernel gm_writer m = Ok (m', r) \<and> gm_inv m' \<and> gm_mapped m' = gm_mapped m"
proof -
  have "gm_mapped m 0x100000 (length [0xAA, 0xBB :: u8])" using gm.mapped_part [OF assms, of 0 2] by (simp add: numeral_2_eq_2)
  then obtain m1 where m1: "write_slice m 0x100000 [0xAA, 0xBB] = Inr m1" "gm_inv m1" "gm_mapped m1 = gm_mapped m"
    using write_slice_mapped [OF assms(1)] by blast
  have "gm_mapped m1 0x100002 2" unfolding m1(3) using gm.mapped_part [OF assms, of 2 2] by simp
  then obtain m2 where m2: "write_zeroes_slices m1 0x100002 2 = (m2, None)" "gm_inv m2" "gm_mapped m2 = gm_mapped m1"
    using write_zeroes_mapped [OF m1(2)] by blast
  have data: "get_range demo_kernel 120 122 = Some [0xAA, 0xBB]"
    by (simp add: get_range_def demo_kernel_def ELF_MAGIC_def)
  have f: "load_file_part gm_writer demo_kernel kernel_phdr m = Ok m1"
    using data m1(1) by (simp add: load_file_part_def kernel_phdr_def checked_add_def ok_or_def gm_writer_def of_result_def)
  have b: "load_bss_part gm_writer kernel_phdr m1 = Ok m2"
    using m2 by (simp add: load_bss_part_def kernel_phdr_def checked_add_def checked_sub_def ok_or_def gm_writer_def of_result_def)
  have e: "checked_add (ph_paddr kernel_phdr) (ph_memsz kernel_phdr) = Some 0x100004"
    by (simp add: kernel_phdr_def checked_add_def)
  have n: "[0..<unat (eh_phnum kernel_hdr)] = [0]" "ph_ty kernel_phdr = 1" by (simp_all add: kernel_hdr_def kernel_phdr_def)
  have "\<exists>r. load_elf demo_kernel gm_writer m = Ok (m2, r)"
    using demo_kernel_headers n f b e by (simp add: load_elf_def load_segment_def ok_or_def)
  with m1 m2 show ?thesis by auto
qed

lemma write_all_mapped:
  assumes "gm_inv m" "\<forall>w\<in>set ws. gm_mapped m (mw_gpa w) (length (mw_data w))"
  shows "\<exists>m'. write_all m ws = Inr m' \<and> gm_inv m' \<and> gm_mapped m' = gm_mapped m"
  using assms
proof (induction ws arbitrary: m)
  case (Cons w ws)
  obtain m1 where m1: "write_slice m (mw_gpa w) (mw_data w) = Inr m1" "gm_inv m1" "gm_mapped m1 = gm_mapped m"
    using write_slice_mapped [OF Cons.prems(1), of "mw_gpa w" "mw_data w"] Cons.prems(2) by auto
  with Cons.IH [of m1] Cons.prems show ?case by auto
qed simp

lemma gib_count_bounds:
  assumes "unat (cfg_ram_mib config) \<le> 512 * 1024"
  shows "unat (gib_count_of config) \<le> 512" "gib_count_of config \<noteq> 0"
    "1024 * unat (gib_count_of config) \<le> max 1024 (unat (cfg_ram_mib config) + 1023)"
proof -
  define q r where "q = unat (cfg_ram_mib config) div 1024" and "r = unat (cfg_ram_mib config) mod 1024"
  have n: "unat (cfg_ram_mib config) = q * 1024 + r" by (simp add: q_def r_def)
  have g: "unat (gib_count_of config) = max (q + (if r = 0 then 0 else 1)) 1"
    unfolding unat_gib_count q_def [symmetric] r_def [symmetric] by (rule refl)
  have "r < 1024" by (simp add: r_def)
  with n g assms show "unat (gib_count_of config) \<le> 512"
    "1024 * unat (gib_count_of config) \<le> max 1024 (unat (cfg_ram_mib config) + 1023)"
    by (auto simp: max_def split: if_splits)
  have "unat (gib_count_of config) \<noteq> 0" by (simp add: g)
  then show "gib_count_of config \<noteq> 0" by (metis unat_0)
qed

lemma demo_config_valid: "validate_config demo_fs demo_config = Ok ()"
  by (simp add: validate_config_def demo_fs_def demo_config_def safe_path_def safe_path_opt_def path_missing_def MIN_RAM_MIB_def)

lemma demo_boot_ram:
  fixes r :: u32
  defines "c \<equiv> demo_config\<lparr>cfg_ram_mib := r\<rparr>"
  assumes r: "2 \<le> unat r" "unat r \<le> 512 * 1024"
  shows "\<exists>m pml4 m' entry. boot_memory demo_fs demo_alloc c False = Ok (m, pml4) \<and> reload_kernel demo_fs c m = Ok (m', entry)"
proof -
  let ?n = "unat (ram_bytes_of c)" and ?g = "gib_count_of c"
  have n: "?n = unat r * 0x100000" by (simp add: c_def unat_ram_bytes)
  have g: "unat ?g \<le> 512" "?g \<noteq> 0" "1024 * unat ?g \<le> max 1024 (unat r + 1023)"
    using gib_count_bounds [of c] r(2) by (simp_all add: c_def)
  have i: "gm_inv guest_memory_new" by (simp add: gm_inv_def guest_memory_new_def)
  have law: "virtual_alloc_law demo_alloc" by (simp add: virtual_alloc_law_def demo_alloc_def)
  have al: "aligned_len ?n = ?n"
  proof -
    have "?n = 4096 * (unat r * 256)" by (simp add: n)
    then show ?thesis by (simp add: aligned_len_def)
  qed
  have "add_region demo_alloc guest_memory_new 0 ?n \<noteq> Inl e" for e
  proof -
    have "demo_alloc ?n \<noteq> None" "?n + 4095 < 2 ^ 64" using n r by (simp_all add: demo_alloc_def)
    then show ?thesis
      using add_region_errors [OF i, of ?n demo_alloc 0 e] unfolding al by (auto simp: guest_memory_new_def)
  qed
  then obtain m0 where m0: "add_region demo_alloc guest_memory_new 0 ?n = Inr m0" by (meson sum.exhaust)
  note gr = add_region_grows [OF i law m0, unfolded al]
  have mp: "gm_mapped m0 a k" if "unat a + k \<le> ?n" for a k
    using gm.mapped_part [OF gr(1) gr(5), of "unat a" k] that by simp
  have bt: "\<exists>root ws. build_page_tables ?g = Inr (root, ws)" using g(1,2) by (simp add: build_page_tables_def MAX_GIB_def Let_def word_less_nat_alt)
  then obtain root ws where ws: "build_page_tables ?g = Inr (root, ws)" by blast
  have "\<forall>w\<in>set ws. gm_mapped m0 (mw_gpa w) (length (mw_data w))"
  proof
    fix w assume "w \<in> set ws"
    note b = table_writes_bounds [OF ws this]
    have "0xA000 + 4096 * unat ?g \<le> ?n" using g(3) r n by (auto simp: max_def split: if_splits)
    then show "gm_mapped m0 (mw_gpa w) (length (mw_data w))" using b(2,3) by (intro mp) simp
  qed
  then obtain m1 where m1: "write_all m0 ws = Inr m1" "gm_inv m1" "gm_mapped m1 = gm_mapped m0"
    using write_all_mapped [OF gr(1)] by blast
  have k: "gm_mapped m0 0x100000 4" using n r(1) by (intro mp) simp
  then obtain m2 res where m2: "load_elf demo_kernel gm_writer m1 = Ok (m2, res)" "gm_inv m2" "gm_mapped m2 = gm_mapped m0"
    using demo_kernel_loads [of m1] m1 by auto
  have "\<exists>bp. build_boot_params (ram_bytes_of c) CMDLINE_GPA = Inr bp" using n r(1) by (simp add: build_boot_params_def Let_def word_less_nat_alt)
  then obtain bp where bp: "build_boot_params (ram_bytes_of c) CMDLINE_GPA = Inr bp" by blast
  have lb: "length (boot_params_bytes bp) = 4096"
    by (rule length_boot_params_bytes) (simp add: build_boot_params_Inr [OF bp] initial_e820_def)
  obtain m3 where m3: "write_slice m2 BOOT_PARAMS_GPA (boot_params_bytes bp) = Inr m3" "gm_inv m3" "gm_mapped m3 = gm_mapped m0"
    using write_slice_mapped [OF m2(2), of BOOT_PARAMS_GPA "boot_params_bytes bp"] mp [of BOOT_PARAMS_GPA 4096] lb m2(3) n r(1)
    by (auto simp: BOOT_PARAMS_GPA_def)
  let ?cmd = "DEFAULT_CMDLINE @ [CHR 0x00]"
  have cl: "length (ascii_bytes ?cmd) = 33" by (simp add: DEFAULT_CMDLINE_def)
  obtain m4 where m4: "write_slice m3 CMDLINE_GPA (ascii_bytes ?cmd) = Inr m4" "gm_inv m4" "gm_mapped m4 = gm_mapped m0"
    using write_slice_mapped [OF m3(2), of CMDLINE_GPA "ascii_bytes ?cmd"] mp [of CMDLINE_GPA 33] m3(3) n r(1)
    unfolding cl by (auto simp: CMDLINE_GPA_def)
  have "gm_mapped m4 (GDT_GPA + of_nat ((0 + k) * GDT_ENTRY_SIZE)) 8" if "k < length gdt_entries" for k
  proof -
    have "k < 5" using that by (simp add: gdt_entries_eq)
    then have "unat (GDT_GPA + of_nat ((0 + k) * GDT_ENTRY_SIZE)) = 0x500 + 8 * k"
      by (subst unat_add_of_nat) (simp_all add: GDT_GPA_def GDT_ENTRY_SIZE_def)
    then show ?thesis using \<open>k < 5\<close> n r(1) by (simp add: m4(3) mp)
  qed
  then obtain m5 where m5: "write_gdt m4 = Inr m5" using write_gdt_entries_mapped [OF m4(2), of gdt_entries 0] unfolding write_gdt_def by blast
  note d = write_gdt_ok [OF m4(2) m5]
  obtain m6 r' where m6: "load_elf demo_kernel gm_writer m5 = Ok (m6, r')"
    using demo_kernel_loads [OF d(1)] d(2) m4(3) k by auto
  have v: "validate_config demo_fs c = Ok ()"
    using r(1) by (simp add: c_def word_less_nat_alt validate_config_def demo_fs_def demo_config_def safe_path_def safe_path_opt_def path_missing_def MIN_RAM_MIB_def)
  have su: "setup_guest_memory demo_fs demo_alloc guest_memory_new c (ram_bytes_of c) ?g = Ok (m3, root)"
    using m0 ws m1(1) m2(1) bp m3(1)
    by (simp add: c_def setup_guest_memory_def demo_fs_def demo_config_def mem_result_def boot_result_def io_result_def of_result_def
        load_initramfs_file_def write_acpi_def)
  have cm: "build_kernel_cmdline m3 c False = Ok m4"
    using m4(1) by (simp add: build_kernel_cmdline_def kernel_cmdline_def effective_cmdline_def c_def demo_config_def mem_result_def of_result_def)
  have "boot_memory demo_fs demo_alloc c False = Ok (m5, root)"
    using v su cm m5 by (simp add: boot_memory_def mem_result_def of_result_def)
  moreover have "reload_kernel demo_fs c m5 = Ok (m6, entry_point r')"
    using m6 by (simp add: reload_kernel_def demo_fs_def io_result_def of_result_def)
  ultimately show ?thesis by blast
qed

lemma demo_boot:
  "\<exists>m pml4 m' entry. boot_memory demo_fs demo_alloc demo_config False = Ok (m, pml4) \<and>
     reload_kernel demo_fs demo_config m = Ok (m', entry)"
proof -
  have "demo_config\<lparr>cfg_ram_mib := 2\<rparr> = demo_config" by (simp add: demo_config_def)
  then show ?thesis using demo_boot_ram [of 2] by simp
qed

lemma demo_high_kernel: "high_kernel demo_fs (demo_config\<lparr>cfg_ram_mib := r\<rparr>) demo_kernel kernel_hdr"
proof -
  have segs: "pt_loads demo_kernel kernel_hdr [0..<unat (eh_phnum kernel_hdr)] = [kernel_phdr]"
    using demo_kernel_headers(2) by (simp add: pt_loads_def List.map_filter_simps kernel_hdr_def kernel_phdr_def)
  show ?thesis unfolding high_kernel_def segs using demo_kernel_headers(1) by (simp add: demo_fs_def kernel_phdr_def)
qed



end
