(* ===== verification/Virt_Queue.thy ===== *)
theory Virt_Queue
  imports Guest_Memory
begin

text \<open>
  The split virtqueue of \<open>hitz-devices/src/virtio/queue.rs\<close>: the driver publishes chains of
  descriptors in the available ring, the device consumes them with \<open>pop_chain\<close>, walks a chain with
  \<open>next_descriptor\<close> and returns it through \<open>push_used\<close>. All three rings lie in guest memory and are
  read through a \<open>GuestMemAccess\<close> \<open>M\<close>; every read may fail, every address computation may overflow.

  The lemmas are proved for every memory that satisfies \<open>guest_mem\<close> and specialise to \<open>GuestMemory\<close>.
\<close>

section \<open>Model\<close>

definition virtq_desc_f_next :: u16 where
  "virtq_desc_f_next = 1"

definition virtq_desc_f_write :: u16 where
  "virtq_desc_f_write = 2"

definition max_queue_size :: u16 where
  "max_queue_size = 256"

record VirtQueue =
  vq_size :: u16
  vq_desc_gpa :: u64
  vq_avail_gpa :: u64
  vq_used_gpa :: u64
  vq_last_avail_idx :: u16
  vq_ready :: bool

definition virt_queue_new :: "u16 \<Rightarrow> VirtQueue" where
  "virt_queue_new sz =
     \<lparr>vq_size = (if sz = 0 \<or> max_queue_size < sz then max_queue_size else sz),
      vq_desc_gpa = 0, vq_avail_gpa = 0, vq_used_gpa = 0, vq_last_avail_idx = 0, vq_ready = False\<rparr>"

definition vq_configure :: "VirtQueue \<Rightarrow> u64 \<Rightarrow> u64 \<Rightarrow> u64 \<Rightarrow> VirtQueue" where
  "vq_configure q desc avail used = q\<lparr>vq_desc_gpa := desc, vq_avail_gpa := avail, vq_used_gpa := used\<rparr>"

definition vq_set_ready :: "VirtQueue \<Rightarrow> bool \<Rightarrow> VirtQueue" where
  "vq_set_ready q r = q\<lparr>vq_ready := r\<rparr>"

definition vq_set_size :: "VirtQueue \<Rightarrow> u16 \<Rightarrow> VirtQueue" where
  "vq_set_size q sz = (if 0 < sz \<and> sz \<le> max_queue_size then q\<lparr>vq_size := sz\<rparr> else q)"

definition vq_reset :: "VirtQueue \<Rightarrow> VirtQueue" where
  "vq_reset q = q\<lparr>vq_desc_gpa := 0, vq_avail_gpa := 0, vq_used_gpa := 0, vq_last_avail_idx := 0,
     vq_ready := False, vq_size := max_queue_size\<rparr>"

record DescriptorChain =
  ch_desc_gpa :: u64
  ch_queue_size :: u16
  ch_head_idx :: u16
  ch_next_idx :: "u16 option"
  ch_count :: u16

record Descriptor =
  d_gpa :: u64
  d_len :: u32
  d_is_device_writable :: bool

definition read_u16 :: "'m GuestMemAccess \<Rightarrow> 'm \<Rightarrow> u64 \<Rightarrow> u16 option" where
  "read_u16 M m gpa = (case read_guest M m gpa 2 of Inl e \<Rightarrow> None | Inr buf \<Rightarrow> Some (of_le_bytes buf))"

text \<open>
  The \<open>?\<close> exits of \<open>pop_chain\<close> come before the index is advanced, so they leave the queue as it was.
  The queue size is never zero (\<open>vq_ok\<close> below), so \<open>%\<close> does not panic.
\<close>

definition pop_chain :: "'m GuestMemAccess \<Rightarrow> 'm \<Rightarrow> VirtQueue \<Rightarrow> VirtQueue \<times> DescriptorChain option" where
  "pop_chain M m q =
     (if \<not> vq_ready q then (q, None)
      else case Option.bind (checked_add (vq_avail_gpa q) 2) (read_u16 M m) of
        None \<Rightarrow> (q, None)
      | Some avail_idx \<Rightarrow>
          if vq_last_avail_idx q = avail_idx then (q, None)
          else let ring_offset = ucast (vq_last_avail_idx q mod vq_size q) * 2 in
            case Option.bind (Option.bind (checked_add (vq_avail_gpa q) 4) (\<lambda>x. checked_add x ring_offset))
                   (read_u16 M m) of
              None \<Rightarrow> (q, None)
            | Some head_idx \<Rightarrow>
                (q\<lparr>vq_last_avail_idx := vq_last_avail_idx q + 1\<rparr>,
                 Some \<lparr>ch_desc_gpa = vq_desc_gpa q, ch_queue_size = vq_size q, ch_head_idx = head_idx,
                       ch_next_idx = Some head_idx, ch_count = 0\<rparr>))"

definition push_used :: "'m GuestMemAccess \<Rightarrow> 'm \<Rightarrow> VirtQueue \<Rightarrow> u16 \<Rightarrow> u32 \<Rightarrow> 'm" where
  "push_used M m q head_idx len =
     (case checked_add (vq_used_gpa q) 2 of
        None \<Rightarrow> m
      | Some idx_gpa \<Rightarrow>
         (case read_u16 M m idx_gpa of
            None \<Rightarrow> m
          | Some used_idx \<Rightarrow>
              let ring_offset = ucast (used_idx mod vq_size q) * 8 in
              case Option.bind (checked_add (vq_used_gpa q) 4) (\<lambda>x. checked_add x ring_offset) of
                None \<Rightarrow> m
              | Some elem_gpa \<Rightarrow>
                  let m1 = write_guest_ignore M m elem_gpa (le_bytes 4 (ucast head_idx :: u32));
                      m2 = (case checked_add elem_gpa 4 of
                              None \<Rightarrow> m1
                            | Some elem_len_gpa \<Rightarrow> write_guest_ignore M m1 elem_len_gpa (le_bytes 4 len))
                  in write_guest_ignore M m2 idx_gpa (le_bytes 2 (used_idx + 1))))"

definition next_descriptor ::
  "'m GuestMemAccess \<Rightarrow> 'm \<Rightarrow> DescriptorChain \<Rightarrow> DescriptorChain \<times> Descriptor option" where
  "next_descriptor M m c =
     (case ch_next_idx c of
        None \<Rightarrow> (c, None)
      | Some idx \<Rightarrow>
          if ch_queue_size c \<le> idx then (c\<lparr>ch_next_idx := None\<rparr>, None)
          else if ch_queue_size c \<le> ch_count c then (c\<lparr>ch_next_idx := None\<rparr>, None)
          else let c = c\<lparr>ch_count := ch_count c + 1\<rparr> in
            case checked_add (ch_desc_gpa c) (ucast idx * 16) of
              None \<Rightarrow> (c, None)
            | Some desc_addr \<Rightarrow>
               (case read_guest M m desc_addr 16 of
                  Inl e \<Rightarrow> (c\<lparr>ch_next_idx := None\<rparr>, None)
                | Inr buf \<Rightarrow>
                    let gpa = of_le_bytes (take 8 buf); len = of_le_bytes (take 4 (drop 8 buf));
                        flags = of_le_bytes (take 2 (drop 12 buf)) :: u16;
                        nxt = of_le_bytes (take 2 (drop 14 buf))
                    in (c\<lparr>ch_next_idx := (if flags AND virtq_desc_f_next \<noteq> 0 then Some nxt else None)\<rparr>,
                        Some \<lparr>d_gpa = gpa, d_len = len,
                              d_is_device_writable = (flags AND virtq_desc_f_write \<noteq> 0)\<rparr>)))"

lemma next_descriptor_Some:
  assumes "next_descriptor M m c = (c', Some d)"
  shows "ch_count c' = ch_count c + 1" "ch_count c < ch_queue_size c"
    "ch_queue_size c' = ch_queue_size c" "ch_desc_gpa c' = ch_desc_gpa c" "ch_head_idx c' = ch_head_idx c"
    "\<exists>idx. ch_next_idx c = Some idx \<and> idx < ch_queue_size c"
  using assms by (auto simp: next_descriptor_def Let_def split: option.splits sum.splits if_splits)

lemma next_descriptor_progress:
  assumes "next_descriptor M m c = (c', Some d)"
  shows "unat (ch_queue_size c') - unat (ch_count c') < unat (ch_queue_size c) - unat (ch_count c)"
    "unat (ch_count c') = Suc (unat (ch_count c))"
proof -
  have "unat (ch_count c) < unat (ch_queue_size c)"
    using next_descriptor_Some(2) [OF assms] by (simp add: word_less_nat_alt)
  moreover from this have "unat (ch_count c) + 1 < 2 ^ 16"
    using unat_u16_less [of "ch_queue_size c"] by simp
  then have "unat (ch_count c + 1) = Suc (unat (ch_count c))"
    by (simp add: unat_add_nowrap)
  ultimately show "unat (ch_queue_size c') - unat (ch_count c') < unat (ch_queue_size c) - unat (ch_count c)"
    "unat (ch_count c') = Suc (unat (ch_count c))"
    using next_descriptor_Some [OF assms] by simp_all
qed

text \<open>The loop \<open>while let Some(desc) = chain.next_descriptor(mem)\<close> of the devices, when the body does not
  write guest memory: the descriptors it sees. It ends after at most \<open>queue_size\<close> rounds.\<close>

function chain_descriptors :: "'m GuestMemAccess \<Rightarrow> 'm \<Rightarrow> DescriptorChain \<Rightarrow> Descriptor list" where
  "chain_descriptors M m c =
     (case next_descriptor M m c of
        (c', None) \<Rightarrow> []
      | (c', Some d) \<Rightarrow> d # chain_descriptors M m c')"
  by pat_completeness auto
termination
  by (relation "measure (\<lambda>(M, m, c). unat (ch_queue_size c) - unat (ch_count c))")
     (auto dest: next_descriptor_progress(1) [OF sym])

declare chain_descriptors.simps [simp del]

section \<open>Well-formed queues\<close>

definition vq_ok :: "VirtQueue \<Rightarrow> bool" where
  "vq_ok q \<longleftrightarrow> 0 < vq_size q \<and> vq_size q \<le> max_queue_size"

lemma vq_ok_bounds: "vq_ok q \<Longrightarrow> 0 < unat (vq_size q) \<and> unat (vq_size q) \<le> 256"
  by (auto simp: vq_ok_def max_queue_size_def word_le_nat_alt word_less_nat_alt)

lemma vq_ok_ops:
  "vq_ok (virt_queue_new sz)" "vq_ok (vq_reset q)"
  "vq_ok q \<Longrightarrow> vq_ok (vq_set_size q sz)" "vq_ok q \<Longrightarrow> vq_ok (vq_set_ready q r)"
  "vq_ok q \<Longrightarrow> vq_ok (vq_configure q d a u)" "vq_ok q \<Longrightarrow> vq_ok (fst (pop_chain M m q))"
  by (auto simp: vq_ok_def virt_queue_new_def vq_reset_def vq_set_size_def vq_set_ready_def
      vq_configure_def pop_chain_def max_queue_size_def Let_def word_less_nat_alt word_le_nat_alt unat_gt_0
      split: option.splits)

lemma chain_descriptors_length:
  "length (chain_descriptors M m c) \<le> unat (ch_queue_size c) - unat (ch_count c)"
proof (induction M m c rule: chain_descriptors.induct)
  case (1 M m c)
  show ?case
  proof (cases "next_descriptor M m c")
    case (Pair c' r)
    show ?thesis
    proof (cases r)
      case (Some d)
      with Pair have eq: "next_descriptor M m c = (c', Some d)" by simp
      have "length (chain_descriptors M m c') \<le> unat (ch_queue_size c') - unat (ch_count c')"
        by (rule "1.IH" [OF Pair [symmetric] Some])
      then show ?thesis using next_descriptor_progress(1) [OF eq]
        by (subst chain_descriptors.simps) (simp add: eq)
    next
      case None
      with Pair show ?thesis by (subst chain_descriptors.simps) simp
    qed
  qed
qed

section \<open>The rings as seen in memory\<close>

text \<open>\<open>peek byte a n\<close> is the little-endian integer of \<open>n\<close> bytes at \<open>a\<close> in the abstract memory.\<close>

definition peek :: "(u64 \<Rightarrow> u8) \<Rightarrow> u64 \<Rightarrow> nat \<Rightarrow> 'a::len word" where
  "peek byte a n = of_le_bytes (map (\<lambda>i. byte (a + of_nat i)) [0..<n])"

definition avail_idx :: "(u64 \<Rightarrow> u8) \<Rightarrow> VirtQueue \<Rightarrow> u16" where
  "avail_idx byte q = peek byte (vq_avail_gpa q + 2) 2"

definition avail_slot :: "VirtQueue \<Rightarrow> u16 \<Rightarrow> u64" where
  "avail_slot q i = vq_avail_gpa q + of_nat (4 + 2 * (unat i mod unat (vq_size q)))"

definition avail_entry :: "(u64 \<Rightarrow> u8) \<Rightarrow> VirtQueue \<Rightarrow> u16 \<Rightarrow> u16" where
  "avail_entry byte q i = peek byte (avail_slot q i) 2"

definition used_idx :: "(u64 \<Rightarrow> u8) \<Rightarrow> VirtQueue \<Rightarrow> u16" where
  "used_idx byte q = peek byte (vq_used_gpa q + 2) 2"

definition used_slot :: "VirtQueue \<Rightarrow> u16 \<Rightarrow> u64" where
  "used_slot q i = vq_used_gpa q + of_nat (4 + 8 * (unat i mod unat (vq_size q)))"

definition avail_bytes :: "VirtQueue \<Rightarrow> nat" where
  "avail_bytes q = 4 + 2 * unat (vq_size q)"

definition used_bytes :: "VirtQueue \<Rightarrow> nat" where
  "used_bytes q = 4 + 8 * unat (vq_size q)"

definition chain_of :: "VirtQueue \<Rightarrow> u16 \<Rightarrow> DescriptorChain" where
  "chain_of q head = \<lparr>ch_desc_gpa = vq_desc_gpa q, ch_queue_size = vq_size q, ch_head_idx = head,
     ch_next_idx = Some head, ch_count = 0\<rparr>"

lemma chain_of_length: "length (chain_descriptors M m (chain_of q head)) \<le> unat (vq_size q)"
  using chain_descriptors_length [of M m "chain_of q head"] by (simp add: chain_of_def)

lemma ring_slot:
  fixes k :: nat and a :: u64
  assumes "unat a + (4 + k * n) < 2 ^ 64" "0 < n" "k = 2 \<or> k = 8" "vq_ok q" "unat (vq_size q) = n"
  shows "Option.bind (checked_add a 4) (\<lambda>x. checked_add x (ucast (i mod vq_size q) * of_nat k)) =
    Some (a + of_nat (4 + k * (unat i mod n)))"
    "unat (a + of_nat (4 + k * (unat i mod n))) = unat a + (4 + k * (unat i mod n))"
proof -
  let ?j = "unat i mod n"
  have "?j < n" using assms(2) by simp
  then have le: "k * ?j \<le> k * n" by simp
  have n: "n \<le> 256" using vq_ok_bounds [OF assms(4)] assms(5) by simp
  then have small: "k * ?j < 2 ^ 64" using \<open>?j < n\<close> assms(3) by auto
  have j16: "?j < 65536" using \<open>?j < n\<close> n by simp
  have u: "ucast (i mod vq_size q) * of_nat k = (of_nat (k * ?j) :: u64)"
    by (rule word_unat_eq_iff [THEN iffD2])
       (use small j16 in \<open>simp add: unat_word_ariths unat_ucast_up unat_mod assms(5) mult.commute unat_of_nat mod_mult_right_eq\<close>)
  have four: "unat (a + 4) = unat a + 4"
    using assms(1) unat_add_of_nat [of a 4] by simp
  have b: "unat a + (4 + k * ?j) < 2 ^ 64" using assms(1) le by linarith
  have c1: "checked_add a 4 = Some (a + 4)" using assms(1) by (simp add: checked_add_def)
  have "checked_add (a + 4) (of_nat (k * ?j)) = Some (a + 4 + of_nat (k * ?j))"
    by (subst checked_add_of_nat) (use b small four in simp_all)
  with c1 u show "Option.bind (checked_add a 4) (\<lambda>x. checked_add x (ucast (i mod vq_size q) * of_nat k)) =
    Some (a + of_nat (4 + k * ?j))"
    by (simp add: add.assoc)
  show "unat (a + of_nat (4 + k * ?j)) = unat a + (4 + k * ?j)"
    by (rule unat_add_of_nat) (use b in simp)
qed

context guest_mem
begin

lemma read_u16_mapped: "minv m \<Longrightarrow> mapped m a 2 \<Longrightarrow> read_u16 M m a = Some (peek (byte_at m) a 2)"
  by (simp add: read_u16_def peek_def read_mapped)

lemma read_u16_None: "minv m \<Longrightarrow> read_u16 M m a = None \<longleftrightarrow> \<not> mapped m a 2"
  using read_mapped [of m a 2] read_unmapped [of m a 2]
  by (cases "mapped m a 2") (auto simp: read_u16_def)

lemma mapped_ring_idx:
  assumes "minv m" "mapped m a n" "4 \<le> n"
  shows "checked_add a 2 = Some (a + 2)" "mapped m (a + 2) 2" "unat (a + 2) = unat a + 2"
proof -
  have b: "unat a + n < 2 ^ 64" using mapped_bound [OF assms(1,2)] assms(3) by simp
  then show "checked_add a 2 = Some (a + 2)" using assms(3) by (simp add: checked_add_def)
  show "mapped m (a + 2) 2" using mapped_part [OF assms(1,2), of 2 2] assms(3) by simp
  show "unat (a + 2) = unat a + 2" using unat_add_of_nat [of a 2] b assms(3) by simp
qed

lemma peek_cong_write:
  assumes "minv m" "mapped m x n" "unat x + n \<le> unat a \<or> unat a + length bs \<le> unat x"
  shows "peek (byte_at (write_guest_ignore M m a bs)) x n = peek (byte_at m) x n"
  using assms(3) unat_offset [OF assms(1,2)]
  by (auto simp: peek_def byte_at_write_ignore [OF assms(1)] intro!: arg_cong [of _ _ of_le_bytes])

lemma peek_same_write:
  assumes "minv m" "mapped m a n" "LENGTH('a) \<le> 8 * n"
  shows "peek (byte_at (write_guest_ignore M m a (le_bytes n (v :: 'a::len word)))) a n = v"
proof -
  have "map (\<lambda>i. byte_at (write_guest_ignore M m a (le_bytes n v)) (a + of_nat i)) [0..<n] = le_bytes n v"
    by (rule nth_equalityI)
       (auto simp: byte_at_write_ignore [OF assms(1)] assms(2) unat_offset [OF assms(1,2)])
  with assms(3) show ?thesis by (simp add: peek_def of_le_bytes_le_bytes)
qed

lemma pop_chain_avail:
  assumes inv: "minv m" and ok: "vq_ok q" and rdy: "vq_ready q"
    and map: "mapped m (vq_avail_gpa q) (avail_bytes q)"
  shows "pop_chain M m q =
    (if vq_last_avail_idx q = avail_idx (byte_at m) q then (q, None)
     else (q\<lparr>vq_last_avail_idx := vq_last_avail_idx q + 1\<rparr>,
           Some (chain_of q (avail_entry (byte_at m) q (vq_last_avail_idx q)))))"
proof -
  let ?a = "vq_avail_gpa q" and ?n = "unat (vq_size q)" and ?i = "vq_last_avail_idx q"
  have n: "0 < ?n" using vq_ok_bounds [OF ok] by simp
  have b: "unat ?a + (4 + 2 * ?n) < 2 ^ 64"
    using mapped_bound [OF inv map] by (simp add: avail_bytes_def)
  note slot = ring_slot [OF b n _ ok refl, of ?i]
  note idx = mapped_ring_idx [OF inv map]
  have "unat ?i mod ?n < ?n" using n by simp
  then have "mapped m (avail_slot q ?i) 2"
    using mapped_part [OF inv map, of "4 + 2 * (unat ?i mod ?n)" 2] by (simp add: avail_bytes_def avail_slot_def)
  then have e: "read_u16 M m (avail_slot q ?i) = Some (avail_entry (byte_at m) q ?i)"
    by (simp add: read_u16_mapped [OF inv] avail_entry_def)
  have x: "read_u16 M m (?a + 2) = Some (avail_idx (byte_at m) q)"
    using idx by (simp add: read_u16_mapped [OF inv] avail_idx_def avail_bytes_def)
  have s: "Option.bind (checked_add ?a 4) (\<lambda>x. checked_add x (ucast (?i mod vq_size q) * 2)) = Some (avail_slot q ?i)"
    using slot(1) by (simp add: avail_slot_def)
  show ?thesis
    using idx(1) by (simp add: pop_chain_def rdy x s e Let_def chain_of_def avail_bytes_def del: Option.bind_assoc)
qed

text \<open>The effect of \<open>push_used\<close> on a mapped used ring: three writes, beside each other.\<close>

lemma push_used_writes:
  assumes inv: "minv m" and ok: "vq_ok q" and map: "mapped m (vq_used_gpa q) (used_bytes q)"
  defines "s \<equiv> used_slot q (used_idx (byte_at m) q)"
  shows "push_used M m q head len =
    write_guest_ignore M (write_guest_ignore M (write_guest_ignore M m s (le_bytes 4 (ucast head :: u32)))
       (s + 4) (le_bytes 4 len)) (vq_used_gpa q + 2) (le_bytes 2 (used_idx (byte_at m) q + 1))"
    and "mapped m s 4" "mapped m (s + 4) 4" "mapped m (vq_used_gpa q + 2) 2"
    and "unat (s + 4) = unat s + 4" "unat (vq_used_gpa q + 2) + 2 \<le> unat s"
    and "unat (vq_used_gpa q + 2) = unat (vq_used_gpa q) + 2" "unat s + 8 \<le> unat (vq_used_gpa q) + used_bytes q"
proof -
  let ?a = "vq_used_gpa q" and ?n = "unat (vq_size q)" and ?i = "used_idx (byte_at m) q"
  have n: "0 < ?n" using vq_ok_bounds [OF ok] by simp
  have b: "unat ?a + (4 + 8 * ?n) < 2 ^ 64"
    using mapped_bound [OF inv map] by (simp add: used_bytes_def)
  note slot = ring_slot [OF b n _ ok refl, of ?i]
  have four: "4 \<le> used_bytes q" by (simp add: used_bytes_def)
  note idx = mapped_ring_idx [OF inv map four]
  have j: "unat ?i mod ?n < ?n" using n by simp
  then have fits: "4 + 8 * (unat ?i mod ?n) + 8 \<le> used_bytes q" by (simp add: used_bytes_def)
  have m8: "mapped m s 8"
    using mapped_part [OF inv map, of "4 + 8 * (unat ?i mod ?n)" 8] fits by (simp add: s_def used_slot_def)
  show "mapped m s 4" "mapped m (s + 4) 4"
    using mapped_part [OF inv m8, of 0 4] mapped_part [OF inv m8, of 4 4] by simp_all
  show s4: "unat (s + 4) = unat s + 4" using unat_offset [OF inv m8, of 4] by simp
  show "mapped m (?a + 2) 2" "unat (?a + 2) = unat ?a + 2" by (rule idx)+
  have us: "unat s = unat ?a + (4 + 8 * (unat ?i mod ?n))"
    using slot(2) by (simp add: s_def used_slot_def)
  then show "unat (?a + 2) + 2 \<le> unat s" "unat s + 8 \<le> unat ?a + used_bytes q"
    using idx(3) fits by simp_all
  have "checked_add s 4 = Some (s + 4)"
    using mapped_bound [OF inv m8] by (simp add: checked_add_def)
  moreover have "Option.bind (checked_add ?a 4) (\<lambda>x. checked_add x (ucast (?i mod vq_size q) * 8)) = Some s"
    using slot(1) by (simp add: s_def used_slot_def)
  moreover have "read_u16 M m (?a + 2) = Some ?i"
    using idx by (simp add: read_u16_mapped [OF inv] used_idx_def)
  ultimately show "push_used M m q head len =
    write_guest_ignore M (write_guest_ignore M (write_guest_ignore M m s (le_bytes 4 (ucast head :: u32)))
       (s + 4) (le_bytes 4 len)) (?a + 2) (le_bytes 2 (?i + 1))"
    using idx(1) by (simp add: push_used_def Let_def)
qed

lemma push_used_effect:
  fixes head :: u16 and len :: u32
  assumes inv: "minv m" and ok: "vq_ok q" and map: "mapped m (vq_used_gpa q) (used_bytes q)"
  defines "s \<equiv> used_slot q (used_idx (byte_at m) q)" and "m' \<equiv> push_used M m q head len"
  shows "used_idx (byte_at m') q = used_idx (byte_at m) q + 1"
    and "peek (byte_at m') s 4 = (ucast head :: u32)" "peek (byte_at m') (s + 4) 4 = len"
    and "\<not> (unat s \<le> unat x \<and> unat x < unat s + 8) \<Longrightarrow>
         \<not> (unat (vq_used_gpa q) + 2 \<le> unat x \<and> unat x < unat (vq_used_gpa q) + 4) \<Longrightarrow>
         byte_at m' x = byte_at m x"
proof -
  note w = push_used_writes [OF inv ok map, folded s_def]
  define m1 where "m1 = write_guest_ignore M m s (le_bytes 4 (ucast head :: u32))"
  define m2 where "m2 = write_guest_ignore M m1 (s + 4) (le_bytes 4 len)"
  have m': "m' = write_guest_ignore M m2 (vq_used_gpa q + 2) (le_bytes 2 (used_idx (byte_at m) q + 1))"
    by (simp add: m'_def w(1) m2_def m1_def)
  note k1 = write_ignore_keeps [OF inv, of s "le_bytes 4 (ucast head :: u32)", folded m1_def]
  note k2 = write_ignore_keeps [OF k1(1), of "s + 4" "le_bytes 4 len", folded m2_def]
  have map2: "mapped m2 = mapped m" using k1(2) k2(2) by simp
  show "used_idx (byte_at m') q = used_idx (byte_at m) q + 1"
    unfolding m' used_idx_def by (rule peek_same_write [OF k2(1)]) (use w(4) map2 in simp_all)
  have "peek (byte_at m') s 4 = (peek (byte_at m2) s 4 :: u32)"
    unfolding m' by (rule peek_cong_write [OF k2(1)]) (use w map2 in simp_all)
  also have "\<dots> = peek (byte_at m1) s 4"
    unfolding m2_def by (rule peek_cong_write [OF k1(1)]) (use w k1(2) in simp_all)
  also have "\<dots> = ucast head"
    unfolding m1_def by (rule peek_same_write [OF inv w(2)]) simp
  finally show "peek (byte_at m') s 4 = (ucast head :: u32)" .
  have "peek (byte_at m') (s + 4) 4 = (peek (byte_at m2) (s + 4) 4 :: u32)"
    unfolding m' by (rule peek_cong_write [OF k2(1)]) (use w map2 in simp_all)
  also have "\<dots> = len"
    unfolding m2_def by (rule peek_same_write [OF k1(1)]) (use w k1(2) in simp_all)
  finally show "peek (byte_at m') (s + 4) 4 = len" .
  show "byte_at m' x = byte_at m x"
    if "\<not> (unat s \<le> unat x \<and> unat x < unat s + 8)"
      "\<not> (unat (vq_used_gpa q) + 2 \<le> unat x \<and> unat x < unat (vq_used_gpa q) + 4)"
  proof -
    have "byte_at m' x = byte_at m2 x" using that w(7) by (auto simp: m' byte_at_write_ignore [OF k2(1)])
    also have "\<dots> = byte_at m1 x" using that w(5) by (auto simp: m2_def byte_at_write_ignore [OF k1(1)])
    also have "\<dots> = byte_at m x" using that by (auto simp: m1_def byte_at_write_ignore [OF inv])
    finally show ?thesis .
  qed
qed

lemma push_used_keeps:
  assumes "minv m"
  shows "minv (push_used M m q head len)" "mapped (push_used M m q head len) = mapped m"
  using assms by (auto simp: push_used_def Let_def write_ignore_keeps split: option.splits)

end

section \<open>Draining a queue\<close>

text \<open>
  The loop of every device, \<open>while let Some(mut chain) = queue.pop_chain(mem) \<dots> push_used\<close>, over a
  handler \<open>h\<close> that gets the device, the memory and the chain and returns them with the number of
  bytes written. Guest memory holds the loop's own condition, so the loop need not end: \<open>None\<close> is a
  loop that runs forever.
\<close>

partial_function (option) drain_queue ::
  "'m GuestMemAccess \<Rightarrow> ('d \<Rightarrow> 'm \<Rightarrow> DescriptorChain \<Rightarrow> 'd \<times> 'm \<times> u32) \<Rightarrow> 'd \<Rightarrow> VirtQueue \<Rightarrow> 'm \<Rightarrow>
     ('d \<times> VirtQueue \<times> 'm) option" where
  "drain_queue M h d q m =
     (case pop_chain M m q of
        (q', None) \<Rightarrow> Some (d, q', m)
      | (q', Some chain) \<Rightarrow>
          (case h d m chain of
             (d', m', written) \<Rightarrow> drain_queue M h d' q' (push_used M m' q' (ch_head_idx chain) written)))"

text \<open>The specification: handle the heads the driver has published, in order.\<close>

fun handle_heads ::
  "'m GuestMemAccess \<Rightarrow> ('d \<Rightarrow> 'm \<Rightarrow> DescriptorChain \<Rightarrow> 'd \<times> 'm \<times> u32) \<Rightarrow> 'd \<Rightarrow> VirtQueue \<Rightarrow> 'm \<Rightarrow>
     u16 list \<Rightarrow> 'd \<times> 'm" where
  "handle_heads M h d q m [] = (d, m)"
| "handle_heads M h d q m (head # heads) =
     (case h d m (chain_of q head) of
        (d', m', written) \<Rightarrow> handle_heads M h d' q (push_used M m' q head written) heads)"

definition pending :: "(u64 \<Rightarrow> u8) \<Rightarrow> VirtQueue \<Rightarrow> nat" where
  "pending byte q = unat (avail_idx byte q - vq_last_avail_idx q)"

definition pending_heads :: "(u64 \<Rightarrow> u8) \<Rightarrow> VirtQueue \<Rightarrow> u16 list" where
  "pending_heads byte q = map (\<lambda>k. avail_entry byte q (vq_last_avail_idx q + of_nat k)) [0..<pending byte q]"

text \<open>Whatever every round of the loop keeps holds when the loop returns.\<close>

lemma pop_chain_None: "pop_chain M m q = (q', None) \<Longrightarrow> q' = q"
  by (auto simp: pop_chain_def Let_def split: option.splits if_splits)

lemma pop_chain_Some:
  "pop_chain M m q = (q', Some c) \<Longrightarrow>
     vq_ready q \<and> q' = q\<lparr>vq_last_avail_idx := vq_last_avail_idx q + 1\<rparr> \<and> c = chain_of q (ch_head_idx c)"
  by (auto simp: pop_chain_def Let_def chain_of_def split: option.splits if_splits)

lemma drain_queue_invariant:
  assumes run: "drain_queue M h d q m = Some (d', q', m')" and init: "I d q m"
    and step: "\<And>d q m q1 c d1 m1 w. I d q m \<Longrightarrow> pop_chain M m q = (q1, Some c) \<Longrightarrow> h d m c = (d1, m1, w) \<Longrightarrow>
       I d1 q1 (push_used M m1 q1 (ch_head_idx c) w)"
  shows "I d' q' m'"
proof -
  have "M' = M \<longrightarrow> h' = h \<longrightarrow> I d q m \<longrightarrow> (case r of (d', q', m') \<Rightarrow> I d' q' m')"
    if "drain_queue M' h' d q m = Some r" for M' h' d q m r
    using that
  proof (rule drain_queue.raw_induct [where P = "\<lambda>M' h' d q m r. M' = M \<longrightarrow> h' = h \<longrightarrow> I d q m \<longrightarrow>
      (case r of (d', q', m') \<Rightarrow> I d' q' m')", rotated])
    fix f M' h' d q m r
    assume IH: "\<And>M' h' d q m r. f M' h' d q m = Some r \<Longrightarrow>
        M' = M \<longrightarrow> h' = h \<longrightarrow> I d q m \<longrightarrow> (case r of (d', q', m') \<Rightarrow> I d' q' m')"
      and body: "(case pop_chain M' m q of (q', None) \<Rightarrow> Some (d, q', m)
        | (q', Some chain) \<Rightarrow> (case h' d m chain of
            (d', m', written) \<Rightarrow> f M' h' d' q' (push_used M' m' q' (ch_head_idx chain) written))) = Some r"
    show "M' = M \<longrightarrow> h' = h \<longrightarrow> I d q m \<longrightarrow> (case r of (d', q', m') \<Rightarrow> I d' q' m')"
    proof (intro impI)
      assume eqs: "M' = M" "h' = h" and I: "I d q m"
      obtain q1 oc where pop: "pop_chain M m q = (q1, oc)" by fastforce
      show "case r of (d', q', m') \<Rightarrow> I d' q' m'"
      proof (cases oc)
        case None
        with pop pop_chain_None [of M m q q1] body eqs I show ?thesis by auto
      next
        case (Some c)
        obtain d1 m1 w where h: "h d m c = (d1, m1, w)" by (metis prod_cases3)
        have "f M h d1 q1 (push_used M m1 q1 (ch_head_idx c) w) = Some r"
          using body eqs pop Some h by simp
        from IH [OF this] step [OF I _ h, of q1] pop Some show ?thesis by simp
      qed
    qed
  qed
  from this [OF run] init show ?thesis by simp
qed

text \<open>\<open>in_range a n x\<close>: address \<open>x\<close> lies in the \<open>n\<close> bytes from \<open>a\<close> on.\<close>

definition in_range :: "u64 \<Rightarrow> nat \<Rightarrow> u64 \<Rightarrow> bool" where
  "in_range a n x \<longleftrightarrow> unat a \<le> unat x \<and> unat x < unat a + n"

definition ranges_disjoint :: "u64 \<Rightarrow> nat \<Rightarrow> u64 \<Rightarrow> nat \<Rightarrow> bool" where
  "ranges_disjoint a n b k \<longleftrightarrow> unat a + n \<le> unat b \<or> unat b + k \<le> unat a"

lemma ranges_disjointD: "ranges_disjoint a n b k \<Longrightarrow> in_range a n x \<Longrightarrow> \<not> in_range b k x"
  by (auto simp: ranges_disjoint_def in_range_def)

text \<open>Only the ring addresses and the size of a queue decide what \<open>push_used\<close> and a chain see.\<close>

lemma push_used_last [simp]: "push_used M m (q\<lparr>vq_last_avail_idx := i\<rparr>) head w = push_used M m q head w"
  by (simp add: push_used_def Let_def cong: option.case_cong)

lemma chain_of_last [simp]: "chain_of (q\<lparr>vq_last_avail_idx := i\<rparr>) head = chain_of q head"
  by (simp add: chain_of_def)

lemma avail_last [simp]:
  "avail_idx byte (q\<lparr>vq_last_avail_idx := i\<rparr>) = avail_idx byte q"
  "avail_entry byte (q\<lparr>vq_last_avail_idx := i\<rparr>) k = avail_entry byte q k"
  "avail_bytes (q\<lparr>vq_last_avail_idx := i\<rparr>) = avail_bytes q"
  "used_bytes (q\<lparr>vq_last_avail_idx := i\<rparr>) = used_bytes q"
  "vq_ok (q\<lparr>vq_last_avail_idx := i\<rparr>) = vq_ok q"
  by (simp_all add: avail_idx_def avail_entry_def avail_slot_def avail_bytes_def used_bytes_def vq_ok_def)

lemma handle_heads_last [simp]:
  "handle_heads M h d (q\<lparr>vq_last_avail_idx := i\<rparr>) m heads = handle_heads M h d q m heads"
  by (induction heads arbitrary: d m) (auto split: prod.splits)

lemma pending_heads_Cons:
  assumes "vq_last_avail_idx q \<noteq> avail_idx byte q"
  shows "pending_heads byte q =
    avail_entry byte q (vq_last_avail_idx q) # pending_heads byte (q\<lparr>vq_last_avail_idx := vq_last_avail_idx q + 1\<rparr>)"
    "pending byte q = Suc (pending byte (q\<lparr>vq_last_avail_idx := vq_last_avail_idx q + 1\<rparr>))"
proof -
  let ?x = "avail_idx byte q - vq_last_avail_idx q"
  have "?x \<noteq> 0" using assms by simp
  then have "unat ?x = Suc (unat (?x - 1))" using unat_minus_one [of ?x] by (simp add: unat_gt_0)
  then show p: "pending byte q = Suc (pending byte (q\<lparr>vq_last_avail_idx := vq_last_avail_idx q + 1\<rparr>))"
    by (simp add: pending_def diff_diff_eq)
  show "pending_heads byte q =
    avail_entry byte q (vq_last_avail_idx q) # pending_heads byte (q\<lparr>vq_last_avail_idx := vq_last_avail_idx q + 1\<rparr>)"
    unfolding pending_heads_def p by (subst upt_conv_Cons) (simp_all add: map_Suc_upt [symmetric] add.assoc del: upt_Suc)
qed

lemma pending_heads_Nil: "vq_last_avail_idx q = avail_idx byte q \<Longrightarrow> pending_heads byte q = []"
  by (simp add: pending_heads_def pending_def)

lemma pending_heads_cong:
  assumes "avail_idx byte q = avail_idx byte' q" "\<And>i. avail_entry byte q i = avail_entry byte' q i"
  shows "pending_heads byte q = pending_heads byte' q"
  using assms by (simp add: pending_heads_def pending_def)

context guest_mem
begin

text \<open>Two memories that agree on the available ring give the same index and entries.\<close>

lemma avail_cong:
  assumes "minv m" "mapped m (vq_avail_gpa q) (avail_bytes q)" "vq_ok q"
    and "\<And>x. in_range (vq_avail_gpa q) (avail_bytes q) x \<Longrightarrow> byte x = byte' x"
  shows "avail_idx byte q = avail_idx byte' q" "avail_entry byte q i = avail_entry byte' q i"
proof -
  let ?a = "vq_avail_gpa q" and ?n = "unat (vq_size q)"
  have at: "byte (?a + of_nat k) = byte' (?a + of_nat k)" if "k < avail_bytes q" for k
    using that unat_offset [OF assms(1,2) that] by (intro assms(4)) (simp add: in_range_def)
  have "byte (?a + 2 + of_nat k) = byte' (?a + 2 + of_nat k)" if "k < 2" for k
    using at [of "2 + k"] that by (simp add: avail_bytes_def add.assoc)
  then show "avail_idx byte q = avail_idx byte' q"
    by (auto simp: avail_idx_def peek_def intro!: arg_cong [of _ _ of_le_bytes])
  have "unat i mod ?n < ?n" using vq_ok_bounds [OF assms(3)] by simp
  then have "byte (avail_slot q i + of_nat k) = byte' (avail_slot q i + of_nat k)" if "k < 2" for k
    using at [of "4 + 2 * (unat i mod ?n) + k"] that by (simp add: avail_slot_def avail_bytes_def add.assoc)
  then show "avail_entry byte q i = avail_entry byte' q i"
    by (auto simp: avail_entry_def peek_def intro!: arg_cong [of _ _ of_le_bytes])
qed

lemma push_used_outside:
  assumes "minv m" "vq_ok q" "mapped m (vq_used_gpa q) (used_bytes q)"
    and "\<not> in_range (vq_used_gpa q) (used_bytes q) x"
  shows "byte_at (push_used M m q head w) x = byte_at m x"
proof -
  note p = push_used_writes [OF assms(1-3)]
  show ?thesis
    by (rule push_used_effect(4) [OF assms(1-3)]) (use assms(4) p(6-8) in \<open>auto simp: in_range_def used_bytes_def\<close>)
qed

text \<open>
  While the handler and the used ring leave a protected set \<open>P\<close> of addresses alone that contains the
  available ring, the loop ends and does exactly what handling the published heads in order does.
\<close>

lemma drain_queue_heads:
  assumes inv: "minv m" and ok: "vq_ok q" and rdy: "vq_ready q"
    and av: "mapped m (vq_avail_gpa q) (avail_bytes q)" and us: "mapped m (vq_used_gpa q) (used_bytes q)"
    and P_av: "\<And>x. in_range (vq_avail_gpa q) (avail_bytes q) x \<Longrightarrow> P x"
    and P_us: "\<And>x. P x \<Longrightarrow> \<not> in_range (vq_used_gpa q) (used_bytes q) x"
    and body: "\<And>d m head d' m' w. minv m \<Longrightarrow> (\<And>x. P x \<Longrightarrow> byte_at m x = byte0 x) \<Longrightarrow>
       h d m (chain_of q head) = (d', m', w) \<Longrightarrow>
       minv m' \<and> mapped m' = mapped m \<and> (\<forall>x. P x \<longrightarrow> byte_at m' x = byte_at m x)"
    and same: "\<And>x. P x \<Longrightarrow> byte_at m x = byte0 x"
  shows "drain_queue M h d q m =
    (case handle_heads M h d q m (pending_heads (byte_at m) q) of
       (d', m') \<Rightarrow> Some (d', q\<lparr>vq_last_avail_idx := avail_idx (byte_at m) q\<rparr>, m'))"
  using inv ok rdy av us P_av P_us body same
proof (induction "pending (byte_at m) q" arbitrary: m d q)
  case 0
  have eq: "avail_idx (byte_at m) q = vq_last_avail_idx q"
    using "0.hyps" by (simp add: pending_def unat_eq_zero)
  have "pop_chain M m q = (q, None)"
    using pop_chain_avail [OF "0.prems"(1-4)] eq by simp
  then show ?case
    by (subst drain_queue.simps) (simp add: eq pending_heads_Nil)
next
  case (Suc n)
  let ?i = "vq_last_avail_idx q"
  let ?q = "q\<lparr>vq_last_avail_idx := ?i + 1\<rparr>" and ?head = "avail_entry (byte_at m) q ?i"
  from Suc.hyps(2) have ne: "?i \<noteq> avail_idx (byte_at m) q" by (auto simp: pending_def)
  obtain d1 m1 w where h: "h d m (chain_of q ?head) = (d1, m1, w)" by (metis prod_cases3)
  have b: "minv m1" "mapped m1 = mapped m" "\<And>x. P x \<Longrightarrow> byte_at m1 x = byte_at m x"
    using Suc.prems(8) [OF Suc.prems(1) Suc.prems(9) h] by auto
  define m2 where "m2 = push_used M m1 q ?head w"
  have keeps: "minv m2" "mapped m2 = mapped m"
    using push_used_keeps [OF b(1)] b(2) by (simp_all add: m2_def)
  have same2: "byte_at m2 x = byte_at m x" if "P x" for x
    using push_used_outside [OF b(1) Suc.prems(2), of x] Suc.prems(5,7) b that by (simp add: m2_def)
  have av2: "avail_idx (byte_at m2) q = avail_idx (byte_at m) q"
      "avail_entry (byte_at m2) q i = avail_entry (byte_at m) q i" for i
    using avail_cong [OF Suc.prems(1,4,2), of "byte_at m2" "byte_at m"] same2 Suc.prems(6) by simp_all
  then have heads: "pending_heads (byte_at m2) ?q = pending_heads (byte_at m) ?q"
    by (intro pending_heads_cong) simp_all
  have n: "n = pending (byte_at m2) ?q"
    using pending_heads_Cons(2) [OF ne] Suc.hyps(2) av2 by (simp add: pending_def)
  have "drain_queue M h d1 ?q m2 =
    (case handle_heads M h d1 ?q m2 (pending_heads (byte_at m2) ?q) of
       (d', m') \<Rightarrow> Some (d', ?q\<lparr>vq_last_avail_idx := avail_idx (byte_at m2) ?q\<rparr>, m'))"
  proof (rule Suc.hyps(1) [OF n keeps(1)])
    show "minv m' \<and> mapped m' = mapped m \<and> (\<forall>x. P x \<longrightarrow> byte_at m' x = byte_at m x)"
      if "minv m" "\<And>x. P x \<Longrightarrow> byte_at m x = byte0 x" "h d m (chain_of ?q head) = (d', m', w)"
      for d m head d' m' w
      using Suc.prems(8) [OF that(1,2)] that(3) by simp
    show "byte_at m2 x = byte0 x" if "P x" for x
      using same2 [OF that] Suc.prems(9) [OF that] by simp
    show "P x" if "in_range (vq_avail_gpa ?q) (avail_bytes ?q) x" for x
      using Suc.prems(6) that by simp
    show "\<not> in_range (vq_used_gpa ?q) (used_bytes ?q) x" if "P x" for x
      using Suc.prems(7) that by simp
  qed (use Suc.prems(2-5) keeps(2) in simp_all)
  then have IH: "drain_queue M h d1 ?q m2 =
    (case handle_heads M h d1 q m2 (pending_heads (byte_at m) ?q) of
       (d', m') \<Rightarrow> Some (d', q\<lparr>vq_last_avail_idx := avail_idx (byte_at m) q\<rparr>, m'))"
    using av2 by (simp add: heads)
  have "drain_queue M h d q m = drain_queue M h d1 ?q m2"
    using ne h by (subst drain_queue.simps) (simp add: pop_chain_avail [OF Suc.prems(1-4)] m2_def chain_of_def)
  then show ?case
    using IH h by (simp add: pending_heads_Cons(1) [OF ne] m2_def)
qed

text \<open>How far the used index moves.\<close>

lemma handle_heads_used:
  assumes inv: "minv m" and ok: "vq_ok q" and us: "mapped m (vq_used_gpa q) (used_bytes q)"
    and P_us: "\<And>x. P x \<Longrightarrow> \<not> in_range (vq_used_gpa q) (used_bytes q) x"
    and body: "\<And>d m head d' m' w. minv m \<Longrightarrow> (\<And>x. P x \<Longrightarrow> byte_at m x = byte0 x) \<Longrightarrow>
       h d m (chain_of q head) = (d', m', w) \<Longrightarrow>
       minv m' \<and> mapped m' = mapped m \<and> (\<forall>x. P x \<longrightarrow> byte_at m' x = byte_at m x) \<and>
       used_idx (byte_at m') q = used_idx (byte_at m) q"
    and same: "\<And>x. P x \<Longrightarrow> byte_at m x = byte0 x"
    and run: "handle_heads M h d q m heads = (d', m')"
  shows "used_idx (byte_at m') q = used_idx (byte_at m) q + of_nat (length heads) \<and>
    minv m' \<and> mapped m' = mapped m \<and> (\<forall>x. P x \<longrightarrow> byte_at m' x = byte_at m x)"
  using inv us same run
proof (induction heads arbitrary: d m)
  case (Cons head heads)
  obtain d1 m1 w where h: "h d m (chain_of q head) = (d1, m1, w)" by (metis prod_cases3)
  from body [OF Cons.prems(1,3) h] have m1: "minv m1" "mapped m1 = mapped m"
    "\<And>x. P x \<Longrightarrow> byte_at m1 x = byte_at m x" "used_idx (byte_at m1) q = used_idx (byte_at m) q" by auto
  let ?m2 = "push_used M m1 q head w"
  note k = push_used_keeps [OF m1(1), of q head w]
  have used1: "mapped m1 (vq_used_gpa q) (used_bytes q)" using Cons.prems(2) m1(2) by simp
  have P2: "byte_at ?m2 x = byte_at m x" if "P x" for x
    using push_used_outside [OF m1(1) ok used1 P_us [OF that]] m1(3) [OF that] by simp
  have "used_idx (byte_at ?m2) q = used_idx (byte_at m) q + 1"
    using push_used_effect(1) [OF m1(1) ok used1] m1(4) by simp
  moreover have "handle_heads M h d1 q ?m2 heads = (d', m')"
    using Cons.prems(4) h by simp
  moreover have "byte_at ?m2 x = byte0 x" if "P x" for x using P2 [OF that] Cons.prems(3) [OF that] by simp
  moreover have "mapped ?m2 (vq_used_gpa q) (used_bytes q)" using used1 k(2) by simp
  ultimately show ?case
    using Cons.IH [OF k(1)] k(2) m1(2) P2 by (simp add: add.assoc)
qed auto

text \<open>
  A driver that places the used ring on top of the available ring makes the loop run forever: every
  \<open>push_used\<close> then bumps the index that \<open>pop_chain\<close> compares with. The handler need not write memory.
\<close>

lemma drain_queue_diverges:
  assumes inv: "minv m" and ok: "vq_ok q" and rdy: "vq_ready q" and al: "vq_used_gpa q = vq_avail_gpa q"
    and map: "mapped m (vq_used_gpa q) (used_bytes q)"
    and body: "\<And>d m c. fst (snd (h d m c)) = m"
    and ne: "vq_last_avail_idx q \<noteq> avail_idx (byte_at m) q"
  shows "drain_queue M (h :: 'd \<Rightarrow> 'm \<Rightarrow> DescriptorChain \<Rightarrow> 'd \<times> 'm \<times> u32) d q m = None"
proof -
  define bad where "bad q m \<longleftrightarrow> minv m \<and> vq_ok q \<and> vq_ready q \<and> vq_used_gpa q = vq_avail_gpa q \<and>
    mapped m (vq_used_gpa q) (used_bytes q) \<and> vq_last_avail_idx q \<noteq> avail_idx (byte_at m) q" for q m
  have step: "\<exists>q' c d' w. pop_chain M m q = (q', Some c) \<and> h d m c = (d', m, w) \<and>
      bad q' (push_used M m q' (ch_head_idx c) w)" if "bad q m" for q m d
  proof -
    let ?q = "q\<lparr>vq_last_avail_idx := vq_last_avail_idx q + 1\<rparr>"
    let ?c = "chain_of q (avail_entry (byte_at m) q (vq_last_avail_idx q))"
    note b = that [unfolded bad_def]
    have "mapped m (vq_avail_gpa q) (avail_bytes q)"
      using mapped_part [of m "vq_used_gpa q" "used_bytes q" 0 "avail_bytes q"] b
      by (auto simp: used_bytes_def avail_bytes_def)
    then have pop: "pop_chain M m q = (?q, Some ?c)" using b pop_chain_avail [of m q] by simp
    obtain d' w where h: "h d m ?c = (d', m, w)" using body [of d m ?c] by (metis prod.collapse)
    have "used_idx (byte_at (push_used M m q (ch_head_idx ?c) w)) q = used_idx (byte_at m) q + 1"
      using push_used_effect(1) [of m q] b by blast
    then have "avail_idx (byte_at (push_used M m q (ch_head_idx ?c) w)) q = avail_idx (byte_at m) q + 1"
      using b by (simp add: used_idx_def avail_idx_def)
    then have "bad ?q (push_used M m ?q (ch_head_idx ?c) w)"
      using b push_used_keeps [of m q "ch_head_idx ?c" w] by (auto simp: bad_def)
    with pop h show ?thesis by blast
  qed
  have "M' = M \<longrightarrow> h' = h \<longrightarrow> \<not> bad q m" if "drain_queue M' h' d q m = Some y" for M' h' d q m y
    using that
  proof (rule drain_queue.raw_induct [where P = "\<lambda>M' h' d q m y. M' = M \<longrightarrow> h' = h \<longrightarrow> \<not> bad q m", rotated])
    fix f :: "'m GuestMemAccess \<Rightarrow> ('d \<Rightarrow> 'm \<Rightarrow> DescriptorChain \<Rightarrow> 'd \<times> 'm \<times> u32) \<Rightarrow> 'd \<Rightarrow> VirtQueue \<Rightarrow> 'm \<Rightarrow>
      ('d \<times> VirtQueue \<times> 'm) option" and M' h' d q m y
    assume IH: "\<And>M' h' d q m y. f M' h' d q m = Some y \<Longrightarrow> M' = M \<longrightarrow> h' = h \<longrightarrow> \<not> bad q m"
      and run: "(case pop_chain M' m q of (q', None) \<Rightarrow> Some (d, q', m)
        | (q', Some chain) \<Rightarrow> (case h' d m chain of
            (d', m', written) \<Rightarrow> f M' h' d' q' (push_used M' m' q' (ch_head_idx chain) written))) = Some y"
    show "M' = M \<longrightarrow> h' = h \<longrightarrow> \<not> bad q m"
    proof (intro impI notI)
      assume eqs: "M' = M" "h' = h" and "bad q m"
      from step [OF this(3), of d] obtain q' c d' w where
        "pop_chain M m q = (q', Some c)" "h d m c = (d', m, w)" "bad q' (push_used M m q' (ch_head_idx c) w)"
        by blast
      with run IH eqs show False by auto
    qed
  qed
  moreover have "bad q m" using assms(1-5,7) by (simp add: bad_def)
  ultimately show ?thesis by (cases "drain_queue M h d q m") auto
qed

end

section \<open>A well-behaved driver\<close>

text \<open>The descriptor the driver stored at index \<open>i\<close> of the table.\<close>

definition desc_bytes :: "VirtQueue \<Rightarrow> nat" where
  "desc_bytes q = 16 * unat (vq_size q)"

definition desc_at :: "(u64 \<Rightarrow> u8) \<Rightarrow> u64 \<Rightarrow> u16 \<Rightarrow> Descriptor" where
  "desc_at byte table i =
     (let a = table + of_nat (16 * unat i) in
      \<lparr>d_gpa = peek byte a 8, d_len = peek byte (a + 8) 4,
       d_is_device_writable = ((peek byte (a + 12) 2 :: u16) AND virtq_desc_f_write \<noteq> 0)\<rparr>)"

definition ring_area :: "VirtQueue \<Rightarrow> u64 \<Rightarrow> bool" where
  "ring_area q x \<longleftrightarrow> in_range (vq_avail_gpa q) (avail_bytes q) x \<or> in_range (vq_desc_gpa q) (desc_bytes q) x"

text \<open>
  The rings are mapped, the used ring is apart from the two rings the driver owns, and no buffer the
  device may write overlaps a ring. The block device writes one status byte whatever the length of
  its descriptor, hence \<open>max 1\<close>.
\<close>

definition driver_ok :: "('m \<Rightarrow> u64 \<Rightarrow> nat \<Rightarrow> bool) \<Rightarrow> ('m \<Rightarrow> u64 \<Rightarrow> u8) \<Rightarrow> 'm \<Rightarrow> VirtQueue \<Rightarrow> bool" where
  "driver_ok mapped byte_at m q \<longleftrightarrow>
     mapped m (vq_avail_gpa q) (avail_bytes q) \<and> mapped m (vq_used_gpa q) (used_bytes q) \<and>
     mapped m (vq_desc_gpa q) (desc_bytes q) \<and>
     ranges_disjoint (vq_used_gpa q) (used_bytes q) (vq_avail_gpa q) (avail_bytes q) \<and>
     ranges_disjoint (vq_used_gpa q) (used_bytes q) (vq_desc_gpa q) (desc_bytes q) \<and>
     (\<forall>i < vq_size q. let d = desc_at (byte_at m) (vq_desc_gpa q) i; n = max 1 (unat (d_len d)) in
        d_is_device_writable d \<longrightarrow>
          ranges_disjoint (d_gpa d) n (vq_avail_gpa q) (avail_bytes q) \<and>
          ranges_disjoint (d_gpa d) n (vq_desc_gpa q) (desc_bytes q) \<and>
          ranges_disjoint (d_gpa d) n (vq_used_gpa q) (used_bytes q))"

lemma peek_cong:
  "(\<And>k. k < n \<Longrightarrow> byte (a + of_nat k) = byte' (a + of_nat k)) \<Longrightarrow> peek byte a n = peek byte' a n"
  by (auto simp: peek_def intro!: arg_cong [of _ _ of_le_bytes])

text \<open>No buffer that a table entry lets the device write meets the addresses \<open>P\<close>.\<close>

definition avoids :: "(u64 \<Rightarrow> u8) \<Rightarrow> u64 \<Rightarrow> u16 \<Rightarrow> (u64 \<Rightarrow> bool) \<Rightarrow> bool" where
  "avoids byte table n P \<longleftrightarrow> (\<forall>i < n. let d = desc_at byte table i in d_is_device_writable d \<longrightarrow>
     (\<forall>x. in_range (d_gpa d) (max 1 (unat (d_len d))) x \<longrightarrow> \<not> P x))"

lemma desc_at_cong:
  assumes "unat table + 16 * unat n < 2 ^ 64" "i < n"
    and "\<And>x. in_range table (16 * unat n) x \<Longrightarrow> byte x = byte' x"
  shows "desc_at byte table i = desc_at byte' table i"
proof -
  have i: "unat i < unat n" using assms(2) by (simp add: word_less_nat_alt)
  have at: "byte (table + of_nat (16 * unat i) + of_nat k) = byte' (table + of_nat (16 * unat i) + of_nat k)"
    if "k < 16" for k
  proof -
    have "16 * unat i + k < 16 * unat n" using i that by linarith
    moreover from this have "unat (table + of_nat (16 * unat i + k)) = unat table + (16 * unat i + k)"
      using assms(1) by (intro unat_add_of_nat) simp
    ultimately have "in_range table (16 * unat n) (table + of_nat (16 * unat i + k))"
      by (simp only: in_range_def) simp
    from assms(3) [OF this] show ?thesis by (simp add: add.assoc)
  qed
  let ?a = "table + of_nat (16 * unat i)"
  have at': "byte (?a + of_nat j + of_nat k) = byte' (?a + of_nat j + of_nat k)" if "j + k < 16" for j k
    using at [OF that] by (simp add: add.assoc)
  have "(peek byte ?a 8 :: u64) = peek byte' ?a 8"
    by (rule peek_cong) (use at' [of 0] in simp)
  moreover have "(peek byte (?a + 8) 4 :: u32) = peek byte' (?a + 8) 4"
    by (rule peek_cong) (use at' [of 8] in simp)
  moreover have "(peek byte (?a + 12) 2 :: u16) = peek byte' (?a + 12) 2"
    by (rule peek_cong) (use at' [of 12] in simp)
  ultimately show ?thesis by (simp only: desc_at_def Let_def)
qed

lemma avoids_cong:
  assumes "unat table + 16 * unat n < 2 ^ 64" "\<And>x. in_range table (16 * unat n) x \<Longrightarrow> byte x = byte' x"
  shows "avoids byte table n P = avoids byte' table n P"
  unfolding avoids_def using desc_at_cong [OF assms(1) _ assms(2)] by simp

lemma driver_ok_avoids:
  assumes "driver_ok mapped byte_at m q"
  shows "avoids (byte_at m) (vq_desc_gpa q) (vq_size q)
    (\<lambda>x. ring_area q x \<or> in_range (vq_used_gpa q) (used_bytes q) x)"
  using assms unfolding avoids_def driver_ok_def Let_def ring_area_def
  by (meson ranges_disjointD)

lemma avoids_mono: "avoids byte table n P \<Longrightarrow> (\<And>x. Q x \<Longrightarrow> P x) \<Longrightarrow> avoids byte table n Q"
  by (auto simp: avoids_def Let_def)

lemma take_drop_map_upt:
  "i + k \<le> n \<Longrightarrow> take k (drop i (map f [0..<n])) = map (\<lambda>j. f (i + j)) [0..<k]"
  by (rule nth_equalityI) auto

context guest_mem
begin

lemma next_descriptor_table:
  assumes "minv m" "next_descriptor M m c = (c', Some d)"
  shows "\<exists>i < ch_queue_size c. d = desc_at (byte_at m) (ch_desc_gpa c) i"
proof -
  obtain i a buf where i: "ch_next_idx c = Some i" "i < ch_queue_size c"
    and a: "checked_add (ch_desc_gpa c) (ucast i * 16) = Some a" and r: "read_guest M m a 16 = Inr buf"
    using assms(2) by (auto simp: next_descriptor_def Let_def not_le split: option.splits sum.splits if_splits)
  have d: "d = \<lparr>d_gpa = of_le_bytes (take 8 buf), d_len = of_le_bytes (take 4 (drop 8 buf)),
      d_is_device_writable = ((of_le_bytes (take 2 (drop 12 buf)) :: u16) AND virtq_desc_f_write \<noteq> 0)\<rparr>"
    using assms(2) i a r by (auto simp: next_descriptor_def Let_def split: if_splits)
  have "unat i * 16 < 2 ^ 64" using unat_u16_less [of i] by simp
  then have "ucast i * 16 = (of_nat (16 * unat i) :: u64)"
    by (intro word_unat_eq_iff [THEN iffD2]) (simp add: unat_word_ariths unat_ucast_up unat_of_nat mult.commute)
  then have a': "a = ch_desc_gpa c + of_nat (16 * unat i)"
    using a by (simp add: checked_add_Some_iff)
  have buf: "buf = map (\<lambda>j. byte_at m (a + of_nat j)) [0..<16]"
    using r by (simp add: read_Inr_iff [OF assms(1)])
  have "take n (drop j buf) = map (\<lambda>k. byte_at m (a + of_nat j + of_nat k)) [0..<n]" if "j + n \<le> 16" for j n
    unfolding buf by (subst take_drop_map_upt [OF that]) (simp add: add.assoc)
  from this [of 0 8] this [of 8 4] this [of 12 2]
  have "d = desc_at (byte_at m) (ch_desc_gpa c) i"
    by (simp add: d desc_at_def Let_def peek_def a')
  with i(2) show ?thesis by blast
qed

end

section \<open>Queues the device only reads from\<close>

text \<open>
  A transmit queue: the handler reads the chain's readable buffers and writes nothing. \<open>tx_driver_ok\<close>
  asks that the rings are mapped and that the used ring, the only memory the device then writes,
  meets neither the driver's rings nor a readable buffer.
\<close>

definition tx_area :: "(u64 \<Rightarrow> u8) \<Rightarrow> VirtQueue \<Rightarrow> u64 \<Rightarrow> bool" where
  "tx_area byte q x \<longleftrightarrow> ring_area q x \<or>
     (\<exists>i < vq_size q. let d = desc_at byte (vq_desc_gpa q) i in
        \<not> d_is_device_writable d \<and> in_range (d_gpa d) (unat (d_len d)) x)"

definition tx_driver_ok :: "('m \<Rightarrow> u64 \<Rightarrow> nat \<Rightarrow> bool) \<Rightarrow> ('m \<Rightarrow> u64 \<Rightarrow> u8) \<Rightarrow> 'm \<Rightarrow> VirtQueue \<Rightarrow> bool" where
  "tx_driver_ok mapped byte_at m q \<longleftrightarrow>
     mapped m (vq_avail_gpa q) (avail_bytes q) \<and> mapped m (vq_used_gpa q) (used_bytes q) \<and>
     mapped m (vq_desc_gpa q) (desc_bytes q) \<and>
     ranges_disjoint (vq_used_gpa q) (used_bytes q) (vq_avail_gpa q) (avail_bytes q) \<and>
     ranges_disjoint (vq_used_gpa q) (used_bytes q) (vq_desc_gpa q) (desc_bytes q) \<and>
     (\<forall>i < vq_size q. let d = desc_at (byte_at m) (vq_desc_gpa q) i in \<not> d_is_device_writable d \<longrightarrow>
        ranges_disjoint (vq_used_gpa q) (used_bytes q) (d_gpa d) (unat (d_len d)))"

lemma tx_area_not_used:
  "tx_driver_ok mapped byte_at m q \<Longrightarrow> tx_area (byte_at m) q x \<Longrightarrow> \<not> in_range (vq_used_gpa q) (used_bytes q) x"
  unfolding tx_driver_ok_def tx_area_def ring_area_def Let_def by (meson ranges_disjointD)

context guest_mem
begin

text \<open>Memories with the same mapping that agree on the bytes read give the same answers.\<close>

lemma read_guest_cong:
  assumes "minv m" "minv m'" "mapped m' = mapped m" "\<And>x. in_range a n x \<Longrightarrow> byte_at m' x = byte_at m x"
    and "mapped m a n"
  shows "read_guest M m' a n = read_guest M m a n"
proof -
  have "byte_at m' (a + of_nat k) = byte_at m (a + of_nat k)" if "k < n" for k
    using assms(4) unat_offset [OF assms(1,5) that] that by (simp add: in_range_def)
  with assms show ?thesis by (simp add: read_mapped)
qed

lemma chain_step_cong:
  assumes inv: "minv m" "minv m'" "mapped m' = mapped m"
    and table: "\<And>x. in_range (ch_desc_gpa c) (16 * unat (ch_queue_size c)) x \<Longrightarrow> byte_at m' x = byte_at m x"
    and map: "mapped m (ch_desc_gpa c) (16 * unat (ch_queue_size c))"
  shows "next_descriptor M m' c = next_descriptor M m c"
proof (cases "ch_next_idx c")
  case (Some i)
  show ?thesis
  proof (cases "i < ch_queue_size c")
    case True
    then have i: "unat i < unat (ch_queue_size c)" by (simp add: word_less_nat_alt)
    have small: "unat i * 16 < 2 ^ 64" using unat_u16_less [of i] by simp
    then have u: "ucast i * 16 = (of_nat (16 * unat i) :: u64)"
      by (intro word_unat_eq_iff [THEN iffD2]) (simp add: unat_word_ariths unat_ucast_up unat_of_nat mult.commute)
    let ?a = "ch_desc_gpa c + of_nat (16 * unat i)"
    have fits: "16 * unat i + 16 \<le> 16 * unat (ch_queue_size c)" using i by linarith
    have ua: "unat ?a = unat (ch_desc_gpa c) + 16 * unat i"
      by (rule unat_offset [OF inv(1) map]) (use fits in linarith)
    have "read_guest M m' ?a 16 = read_guest M m ?a 16"
    proof (rule read_guest_cong [OF inv])
      show "mapped m ?a 16" by (rule mapped_part [OF inv(1) map fits])
      show "byte_at m' x = byte_at m x" if "in_range ?a 16 x" for x
        using that fits by (intro table) (simp add: in_range_def ua del: of_nat_mult)
    qed
    then have "read_guest M m' a 16 = read_guest M m a 16"
      if "checked_add (ch_desc_gpa c) (ucast i * 16) = Some a" for a
      using that by (simp add: checked_add_Some_iff u)
    then show ?thesis
      using Some by (simp add: next_descriptor_def Let_def split: option.splits)
  qed (use Some in \<open>simp add: next_descriptor_def not_less\<close>)
qed (simp add: next_descriptor_def)

lemma chain_descriptors_cong:
  assumes inv: "minv m" "minv m'" "mapped m' = mapped m"
    and table: "\<And>x. in_range (ch_desc_gpa c) (16 * unat (ch_queue_size c)) x \<Longrightarrow> byte_at m' x = byte_at m x"
    and map: "mapped m (ch_desc_gpa c) (16 * unat (ch_queue_size c))"
  shows "chain_descriptors M m' c = chain_descriptors M m c"
  using table map
proof (induction "unat (ch_queue_size c) - unat (ch_count c)" arbitrary: c rule: less_induct)
  case less
  have eq: "next_descriptor M m' c = next_descriptor M m c"
    by (rule chain_step_cong [OF inv less.prems])
  obtain c' r where n: "next_descriptor M m c = (c', r)" by fastforce
  show ?case
  proof (cases r)
    case None
    then show ?thesis using n eq by (simp add: chain_descriptors.simps [of M m' c] chain_descriptors.simps [of M m c])
  next
    case (Some d)
    note nd = next_descriptor_Some [of M m c c' d] next_descriptor_progress(1) [of M m c c' d]
    have "chain_descriptors M m' c' = chain_descriptors M m c'"
      using n Some nd less.prems by (intro less.hyps) auto
    with n Some eq show ?thesis
      by (simp add: chain_descriptors.simps [of M m' c] chain_descriptors.simps [of M m c])
  qed
qed

lemma chain_descriptors_table:
  assumes "minv m" "d \<in> set (chain_descriptors M m c)"
  shows "\<exists>i < ch_queue_size c. d = desc_at (byte_at m) (ch_desc_gpa c) i"
  using assms(2)
proof (induction "unat (ch_queue_size c) - unat (ch_count c)" arbitrary: c rule: less_induct)
  case less
  obtain c' r where n: "next_descriptor M m c = (c', r)" by fastforce
  with less.prems obtain d' where r: "r = Some d'"
    by (cases r) (simp_all add: chain_descriptors.simps [of M m c])
  note nd = next_descriptor_Some [of M m c c' d'] next_descriptor_progress(1) [of M m c c' d']
  from less.prems n r consider "d = d'" | "d \<in> set (chain_descriptors M m c')"
    by (auto simp: chain_descriptors.simps [of M m c])
  then show ?case
  proof cases
    case 1
    with next_descriptor_table [OF assms(1)] n r show ?thesis by blast
  next
    case 2
    have "\<exists>i < ch_queue_size c'. d = desc_at (byte_at m) (ch_desc_gpa c') i"
      by (rule less.hyps) (use nd n r 2 in auto)
    with nd n r show ?thesis by auto
  qed
qed

text \<open>
  Serving a transmit queue: the device state evolves over the chains as they stand in memory when the
  queue is notified, in publication order; memory changes in the used ring only.
\<close>

lemma tx_queue_served:
  assumes inv: "minv m" and ok: "vq_ok q" and rdy: "vq_ready q" and drv: "tx_driver_ok mapped byte_at m q"
    and silent: "\<And>d m c. snd (h d m c) = (m, w)"
    and view: "\<And>d m1 head. minv m1 \<Longrightarrow> mapped m1 = mapped m \<Longrightarrow>
      (\<And>x. tx_area (byte_at m) q x \<Longrightarrow> byte_at m1 x = byte_at m x) \<Longrightarrow>
      fst (h d m1 (chain_of q head)) = fst (h d m (chain_of q head))"
  shows "\<exists>m'. drain_queue M h d q m =
      Some (foldl (\<lambda>d head. fst (h d m (chain_of q head))) d (pending_heads (byte_at m) q),
            q\<lparr>vq_last_avail_idx := avail_idx (byte_at m) q\<rparr>, m') \<and>
    used_idx (byte_at m') q = used_idx (byte_at m) q + (avail_idx (byte_at m) q - vq_last_avail_idx q) \<and>
    (\<forall>x. \<not> in_range (vq_used_gpa q) (used_bytes q) x \<longrightarrow> byte_at m' x = byte_at m x)"
proof -
  let ?P = "\<lambda>x. \<not> in_range (vq_used_gpa q) (used_bytes q) x"
  have us: "mapped m (vq_used_gpa q) (used_bytes q)" and av: "mapped m (vq_avail_gpa q) (avail_bytes q)"
    using drv by (simp_all add: tx_driver_ok_def)
  have h: "h d m1 c = (fst (h d m1 c), m1, w)" for d m1 c using silent [of d m1 c] by (metis prod.collapse)
  have body: "minv m2 \<and> mapped m2 = mapped m1 \<and> (\<forall>x. ?P x \<longrightarrow> byte_at m2 x = byte_at m1 x) \<and>
      used_idx (byte_at m2) q = used_idx (byte_at m1) q"
    if "minv m1" "h d m1 c = (d', m2, w')" for d m1 c d' m2 w'
    using that h [of d m1 c] by simp
  have heads: "fst (handle_heads M h d q m1 hs) = foldl (\<lambda>d head. fst (h d m (chain_of q head))) d hs"
    if "minv m1" "mapped m1 = mapped m" "\<And>x. ?P x \<Longrightarrow> byte_at m1 x = byte_at m x" for d m1 hs
    using that
  proof (induction hs arbitrary: d m1)
    case (Cons head hs)
    let ?m2 = "push_used M m1 q head w" and ?d = "fst (h d m1 (chain_of q head))"
    have "tx_area (byte_at m) q x \<Longrightarrow> byte_at m1 x = byte_at m x" for x
      using Cons.prems(3) tx_area_not_used [OF drv] by blast
    then have d: "?d = fst (h d m (chain_of q head))" using view Cons.prems(1,2) by blast
    have "byte_at ?m2 x = byte_at m x" if "?P x" for x
      using push_used_outside [OF Cons.prems(1) ok _ that] Cons.prems(2,3) us that by simp
    then have "fst (handle_heads M h ?d q ?m2 hs) = foldl (\<lambda>d head. fst (h d m (chain_of q head))) ?d hs"
      using push_used_keeps [OF Cons.prems(1)] Cons.prems(2) by (intro Cons.IH) simp_all
    moreover have "handle_heads M h d q m1 (head # hs) = handle_heads M h ?d q ?m2 hs"
      by (simp, subst h) simp
    ultimately show ?case by (simp only: foldl_Cons d)
  qed simp
  obtain d' m' where hh: "handle_heads M h d q m (pending_heads (byte_at m) q) = (d', m')" by fastforce
  have "drain_queue M h d q m =
      (case handle_heads M h d q m (pending_heads (byte_at m) q) of
         (d', m') \<Rightarrow> Some (d', q\<lparr>vq_last_avail_idx := avail_idx (byte_at m) q\<rparr>, m'))"
  proof (rule drain_queue_heads [OF inv ok rdy av us, where P = ?P and ?byte0.0 = "byte_at m"])
    show "?P x" if "in_range (vq_avail_gpa q) (avail_bytes q) x" for x
      using tx_area_not_used [OF drv, of x] that by (simp add: tx_area_def ring_area_def)
  qed (use body in blast)+
  moreover have "used_idx (byte_at m') q = used_idx (byte_at m) q + of_nat (length (pending_heads (byte_at m) q)) \<and>
      minv m' \<and> mapped m' = mapped m \<and> (\<forall>x. ?P x \<longrightarrow> byte_at m' x = byte_at m x)"
    by (rule handle_heads_used [OF inv ok us, where P = ?P and ?byte0.0 = "byte_at m" and h = h and d = d and d' = d'])
       (use body hh in blast)+
  moreover have "d' = foldl (\<lambda>d head. fst (h d m (chain_of q head))) d (pending_heads (byte_at m) q)"
    using heads [OF inv refl, of d "pending_heads (byte_at m) q"] hh by simp
  ultimately show ?thesis using hh by (auto simp: pending_heads_def pending_def)
qed

end

section \<open>Properties\<close>

text \<open>C8: on a ready queue with a mapped available ring, \<open>pop_chain\<close> returns nothing exactly when the
  driver has published no new entry; otherwise it returns the chain of the oldest unconsumed entry
  and advances by one, modulo \<open>2 ^ 16\<close> in the index and modulo the queue size in the ring.\<close>

theorem pop_chain_fifo:
  assumes "gm_inv m" "vq_ok q" "vq_ready q" "gm_mapped m (vq_avail_gpa q) (avail_bytes q)"
  shows "pop_chain gm_access m q =
    (case pending_heads (gm_byte m) q of
       [] \<Rightarrow> (q, None)
     | head # rest \<Rightarrow> (q\<lparr>vq_last_avail_idx := vq_last_avail_idx q + 1\<rparr>, Some (chain_of q head)))"
proof (cases "vq_last_avail_idx q = avail_idx (gm_byte m) q")
  case True
  then show ?thesis using gm.pop_chain_avail [OF assms] by (simp add: pending_heads_Nil)
next
  case False
  then show ?thesis using gm.pop_chain_avail [OF assms] by (simp add: pending_heads_Cons(1) [OF False])
qed

definition demo_queue :: VirtQueue where
  "demo_queue = \<lparr>vq_size = 4, vq_desc_gpa = 0x1000, vq_avail_gpa = 0x1800, vq_used_gpa = 0x2000,
     vq_last_avail_idx = 65535, vq_ready = True\<rparr>"

lemma demo_queue_ok [simp]: "vq_ok demo_queue" "vq_ready demo_queue"
  by (simp_all add: demo_queue_def vq_ok_def max_queue_size_def)

lemma demo_queue_mapped:
  "gm_mapped demo_mem (vq_avail_gpa demo_queue) (avail_bytes demo_queue)"
  "gm_mapped demo_mem (vq_used_gpa demo_queue) (used_bytes demo_queue)"
  by (simp_all add: demo_queue_def demo_mem_mapped avail_bytes_def used_bytes_def)

lemma demo_mem_byte: "gm_byte demo_mem a = 0"
  by (auto simp: gm_byte_def demo_mem_def covers_def)

lemma demo_peek: "peek (gm_byte demo_mem) a n = 0"
  by (rule bit_word_eqI) (simp add: peek_def bit_of_le_bytes demo_mem_byte)

lemma demo_pending: "pending_heads (gm_byte demo_mem) demo_queue = [0]"
  by (simp add: pending_heads_def pending_def avail_idx_def avail_entry_def demo_peek) (simp add: demo_queue_def)

theorem pop_chain_fifo_witness:
  "snd (pop_chain gm_access demo_mem demo_queue) = Some (chain_of demo_queue 0) \<and>
   vq_last_avail_idx (fst (pop_chain gm_access demo_mem demo_queue)) = 0"
proof -
  have "vq_last_avail_idx demo_queue + 1 = 0" by (simp add: demo_queue_def)
  then show ?thesis
    using pop_chain_fifo [OF demo_mem_inv demo_queue_ok demo_queue_mapped(1)] by (simp add: demo_pending)
qed

text \<open>C9: \<open>push_used\<close> stores the head and the length in the slot of the current used index and then
  publishes the slot by increasing the index; no other byte of guest memory changes.\<close>

theorem push_used_publishes:
  assumes "gm_inv m" "vq_ok q" "gm_mapped m (vq_used_gpa q) (used_bytes q)"
  defines "s \<equiv> used_slot q (used_idx (gm_byte m) q)"
  shows "let m' = push_used gm_access m q head len in
    gm_inv m' \<and> gm_mapped m' = gm_mapped m \<and>
    used_idx (gm_byte m') q = used_idx (gm_byte m) q + 1 \<and>
    peek (gm_byte m') s 4 = (ucast head :: u32) \<and> peek (gm_byte m') (s + 4) 4 = len \<and>
    (\<forall>x. \<not> in_range s 8 x \<and> \<not> in_range (vq_used_gpa q + 2) 2 x \<longrightarrow> gm_byte m' x = gm_byte m x)"
proof -
  have "unat (vq_used_gpa q + 2) = unat (vq_used_gpa q) + 2"
    using gm.push_used_writes(7) [OF assms(1-3)] .
  then show ?thesis
    using gm.push_used_effect [OF assms(1-3)] gm.push_used_keeps [OF assms(1)]
    by (auto simp: Let_def s_def in_range_def)
qed

theorem push_used_publishes_witness:
  "used_idx (gm_byte (push_used gm_access demo_mem demo_queue 3 512)) demo_queue =
     used_idx (gm_byte demo_mem) demo_queue + 1"
  using push_used_publishes [OF demo_mem_inv demo_queue_ok(1) demo_queue_mapped(2), of 3 512]
  by (simp add: Let_def)

text \<open>C26: walking a descriptor chain ends: however the guest links its descriptors, cycles included, a
  chain taken from a queue yields at most as many descriptors as the queue has, so at most 256.\<close>

theorem chain_walk_bounded:
  assumes "vq_ok q" "pop_chain M m q = (q', Some c)"
  shows "length (chain_descriptors M m' c) \<le> unat (vq_size q) \<and> unat (vq_size q) \<le> 256"
proof -
  have "c = chain_of q (ch_head_idx c)"
    using pop_chain_Some [OF assms(2)] by blast
  with chain_of_length [of M m' q "ch_head_idx c"] vq_ok_bounds [OF assms(1)] show ?thesis by simp
qed

theorem chain_walk_bounded_witness:
  "length (chain_descriptors gm_access demo_mem (chain_of demo_queue 0)) \<le> 4"
proof -
  have "pop_chain gm_access demo_mem demo_queue =
      (demo_queue\<lparr>vq_last_avail_idx := 0\<rparr>, Some (chain_of demo_queue 0))"
    using gm.pop_chain_avail [OF demo_mem_inv demo_queue_ok demo_queue_mapped(1)] demo_pending
    by (auto simp: pending_heads_Cons pending_heads_Nil demo_queue_def split: if_splits)
  from chain_walk_bounded [OF demo_queue_ok(1) this, of demo_mem] show ?thesis
    by (simp add: demo_queue_def)
qed

text \<open>The demonstration memory with one receive buffer of 256 bytes at \<open>0x2800\<close> published.\<close>

lemma demo_rx_mem:
  "\<exists>m. gm_inv m \<and> gm_mapped m = gm_mapped demo_mem \<and>
    pop_chain gm_access m demo_queue = (demo_queue\<lparr>vq_last_avail_idx := 0\<rparr>, Some (chain_of demo_queue 0)) \<and>
    next_descriptor gm_access m (chain_of demo_queue 0) =
      ((chain_of demo_queue 0)\<lparr>ch_count := 1, ch_next_idx := None\<rparr>,
       Some \<lparr>d_gpa = 0x2800, d_len = 256, d_is_device_writable = True\<rparr>)"
proof -
  let ?D = "le_bytes 8 (0x2800 :: u64) @ le_bytes 4 (256 :: u32) @ le_bytes 2 (2 :: u16) @ [0, 0]"
  obtain m where w: "write_guest gm_access demo_mem 0x1000 ?D = Inr m"
    using gm.write_mapped [OF demo_mem_inv, of "0x1000" ?D] by (auto simp: demo_mem_mapped)
  note k = gm.write_Inr [OF demo_mem_inv w]
  have far: "gm_byte m x = gm_byte demo_mem x" if "in_range (vq_avail_gpa demo_queue) (avail_bytes demo_queue) x" for x
    using that by (auto simp: k(4) in_range_def demo_queue_def avail_bytes_def)
  have av: "gm_mapped m (vq_avail_gpa demo_queue) (avail_bytes demo_queue)" using demo_queue_mapped(1) k(2) by simp
  have idx: "avail_idx (gm_byte m) demo_queue = 0" "avail_entry (gm_byte m) demo_queue i = 0" for i
    using gm.avail_cong [OF k(1) av demo_queue_ok(1), of "gm_byte m" "gm_byte demo_mem"] far
    by (simp_all add: avail_idx_def avail_entry_def demo_peek)
  have "vq_last_avail_idx demo_queue + 1 = 0" "vq_last_avail_idx demo_queue \<noteq> 0" by (simp_all add: demo_queue_def)
  then have pop: "pop_chain gm_access m demo_queue = (demo_queue\<lparr>vq_last_avail_idx := 0\<rparr>, Some (chain_of demo_queue 0))"
    using gm.pop_chain_avail [OF k(1) demo_queue_ok av] by (simp add: idx)
  have rd: "read_guest gm_access m 0x1000 16 = Inr ?D"
    using gm.read_after_write [OF demo_mem_inv w] by simp
  have "next_descriptor gm_access m (chain_of demo_queue 0) =
      ((chain_of demo_queue 0)\<lparr>ch_count := 1, ch_next_idx := None\<rparr>,
       Some \<lparr>d_gpa = 0x2800, d_len = 256, d_is_device_writable = True\<rparr>)"
    using rd by (simp add: next_descriptor_def chain_of_def demo_queue_def checked_add_def Let_def
        virtq_desc_f_next_def virtq_desc_f_write_def of_le_bytes_le_bytes word_le_nat_alt)
  with k(1,2) pop show ?thesis by blast
qed

end
