(* ===== verification/Mmio_Transport.thy ===== *)
theory Mmio_Transport
  imports Virt_Queue
begin

text \<open>
  The virtio-MMIO transport of \<open>hitz-devices/src/virtio/mmio_transport.rs\<close>: the register file through
  which the guest driver negotiates features, configures queues and notifies the device. The trait
  \<open>VirtioBackend\<close> is a record of operations \<open>B\<close> over device states; its contract is the locale
  \<open>virtio_backend\<close>, which the block, network and vsock devices interpret. The shared guest memory that
  the transport holds as an \<open>Arc\<close> is passed explicitly. A notification runs the device's queue loop,
  which may not end, so a register write returns an option: \<open>None\<close> is a write that never returns.
\<close>

section \<open>Model\<close>

named_theorems mmio_regs

definition mmio_magic :: u64 where
  [mmio_regs]: "mmio_magic = 0"

definition mmio_version :: u64 where
  [mmio_regs]: "mmio_version = 4"

definition mmio_device_id :: u64 where
  [mmio_regs]: "mmio_device_id = 8"

definition mmio_vendor_id :: u64 where
  [mmio_regs]: "mmio_vendor_id = 0xc"

definition mmio_device_features :: u64 where
  [mmio_regs]: "mmio_device_features = 0x10"

definition mmio_device_features_sel :: u64 where
  [mmio_regs]: "mmio_device_features_sel = 0x14"

definition mmio_driver_features :: u64 where
  [mmio_regs]: "mmio_driver_features = 0x20"

definition mmio_driver_features_sel :: u64 where
  [mmio_regs]: "mmio_driver_features_sel = 0x24"

definition mmio_queue_sel :: u64 where
  [mmio_regs]: "mmio_queue_sel = 0x30"

definition mmio_queue_num_max :: u64 where
  [mmio_regs]: "mmio_queue_num_max = 0x34"

definition mmio_queue_num :: u64 where
  [mmio_regs]: "mmio_queue_num = 0x38"

definition mmio_queue_ready :: u64 where
  [mmio_regs]: "mmio_queue_ready = 0x44"

definition mmio_queue_notify :: u64 where
  [mmio_regs]: "mmio_queue_notify = 0x50"

definition mmio_interrupt_status :: u64 where
  [mmio_regs]: "mmio_interrupt_status = 0x60"

definition mmio_interrupt_ack :: u64 where
  [mmio_regs]: "mmio_interrupt_ack = 0x64"

definition mmio_status :: u64 where
  [mmio_regs]: "mmio_status = 0x70"

definition mmio_queue_desc_low :: u64 where
  [mmio_regs]: "mmio_queue_desc_low = 0x80"

definition mmio_queue_desc_high :: u64 where
  [mmio_regs]: "mmio_queue_desc_high = 0x84"

definition mmio_queue_avail_low :: u64 where
  [mmio_regs]: "mmio_queue_avail_low = 0x90"

definition mmio_queue_avail_high :: u64 where
  [mmio_regs]: "mmio_queue_avail_high = 0x94"

definition mmio_queue_used_low :: u64 where
  [mmio_regs]: "mmio_queue_used_low = 0xa0"

definition mmio_queue_used_high :: u64 where
  [mmio_regs]: "mmio_queue_used_high = 0xa4"

definition mmio_config_generation :: u64 where
  [mmio_regs]: "mmio_config_generation = 0xfc"

definition mmio_config_start :: u64 where
  [mmio_regs]: "mmio_config_start = 0x100"

definition virtio_mmio_magic :: u32 where
  "virtio_mmio_magic = 0x74726976"

definition virtio_mmio_version :: u32 where
  "virtio_mmio_version = 2"

definition virtio_vendor_id :: u32 where
  "virtio_vendor_id = 0x554D4551"

definition queue_num_max :: u16 where
  "queue_num_max = 256"

record ('m, 'd) VirtioBackend =
  be_device_id :: "'d \<Rightarrow> u32"
  be_device_features :: "'d \<Rightarrow> u64"
  be_queue_count :: "'d \<Rightarrow> nat"
  be_process_queue :: "'d \<Rightarrow> u16 \<Rightarrow> VirtQueue \<Rightarrow> 'm \<Rightarrow> ('d \<times> VirtQueue \<times> 'm) option"
  be_poll_rx :: "'d \<Rightarrow> VirtQueue \<Rightarrow> 'm \<Rightarrow> ('d \<times> VirtQueue \<times> 'm \<times> bool) option"
  be_read_config :: "'d \<Rightarrow> u64 \<Rightarrow> bytes \<Rightarrow> bytes"
  be_write_config :: "'d \<Rightarrow> u64 \<Rightarrow> bytes \<Rightarrow> 'd"

text \<open>The trait's default bodies: one queue, nothing received.\<close>

definition default_queue_count :: nat where
  "default_queue_count = 1"

definition default_poll_rx :: "'d \<Rightarrow> VirtQueue \<Rightarrow> 'm \<Rightarrow> ('d \<times> VirtQueue \<times> 'm \<times> bool) option" where
  "default_poll_rx d q m = Some (d, q, m, False)"

record QueueState =
  qs_queue :: VirtQueue
  qs_desc_low :: u32
  qs_desc_high :: u32
  qs_avail_low :: u32
  qs_avail_high :: u32
  qs_used_low :: u32
  qs_used_high :: u32
  qs_num :: u16

record 'd VirtioMmioTransport =
  t_device :: 'd
  t_queues :: "QueueState list"
  t_queue_sel :: nat
  t_status :: u8
  t_interrupt_status :: u32
  t_irq_vector :: u8
  t_device_features_sel :: u32
  t_driver_features :: u64
  t_driver_features_sel :: u32
  t_config_generation :: u32

definition queue_state_new :: QueueState where
  "queue_state_new = \<lparr>qs_queue = virt_queue_new queue_num_max, qs_desc_low = 0, qs_desc_high = 0,
     qs_avail_low = 0, qs_avail_high = 0, qs_used_low = 0, qs_used_high = 0, qs_num = queue_num_max\<rparr>"

definition transport_new :: "('m, 'd) VirtioBackend \<Rightarrow> 'd \<Rightarrow> u8 \<Rightarrow> 'd VirtioMmioTransport" where
  "transport_new B device irq_vector =
     \<lparr>t_device = device, t_queues = map (\<lambda>i. queue_state_new) [0..<be_queue_count B device], t_queue_sel = 0,
      t_status = 0, t_interrupt_status = 0, t_irq_vector = irq_vector, t_device_features_sel = 0,
      t_driver_features = 0, t_driver_features_sel = 0, t_config_generation = 0\<rparr>"

definition queue_state_reset :: "QueueState \<Rightarrow> QueueState" where
  "queue_state_reset qs = qs\<lparr>qs_queue := vq_reset (qs_queue qs), qs_desc_low := 0, qs_desc_high := 0,
     qs_avail_low := 0, qs_avail_high := 0, qs_used_low := 0, qs_used_high := 0, qs_num := queue_num_max\<rparr>"

definition transport_reset :: "'d VirtioMmioTransport \<Rightarrow> 'd VirtioMmioTransport" where
  "transport_reset t = t\<lparr>t_status := 0, t_interrupt_status := 0, t_driver_features := 0,
     t_driver_features_sel := 0, t_device_features_sel := 0, t_queue_sel := 0,
     t_queues := map queue_state_reset (t_queues t)\<rparr>"

definition read_reg :: "('m, 'd) VirtioBackend \<Rightarrow> 'd VirtioMmioTransport \<Rightarrow> u64 \<Rightarrow> u32" where
  "read_reg B t offset =
     (if offset = mmio_magic then virtio_mmio_magic
      else if offset = mmio_version then virtio_mmio_version
      else if offset = mmio_device_id then be_device_id B (t_device t)
      else if offset = mmio_vendor_id then virtio_vendor_id
      else if offset = mmio_device_features then
        (let features = be_device_features B (t_device t) in
         if t_device_features_sel t = 0 then ucast features else ucast (drop_bit 32 features))
      else if offset = mmio_queue_num_max then ucast queue_num_max
      else if offset = mmio_queue_ready then
        (if t_queue_sel t < length (t_queues t)
         then (if vq_ready (qs_queue (t_queues t ! t_queue_sel t)) then 1 else 0) else 0)
      else if offset = mmio_interrupt_status then t_interrupt_status t
      else if offset = mmio_status then ucast (t_status t)
      else if offset = mmio_config_generation then t_config_generation t
      else 0)"

text \<open>\<open>self.queues.get_mut(self.queue_sel)\<close> followed by an update of the queue state.\<close>

definition with_queue :: "nat \<Rightarrow> (QueueState \<Rightarrow> QueueState) \<Rightarrow> 'd VirtioMmioTransport \<Rightarrow> 'd VirtioMmioTransport" where
  "with_queue i f t =
     (if i < length (t_queues t) then t\<lparr>t_queues := (t_queues t)[i := f (t_queues t ! i)]\<rparr> else t)"

definition join_u32 :: "u32 \<Rightarrow> u32 \<Rightarrow> u64" where
  "join_u32 low high = ucast low OR push_bit 32 (ucast high)"

definition set_queue_ready :: "bool \<Rightarrow> QueueState \<Rightarrow> QueueState" where
  "set_queue_ready ready qs =
     (let q = (if ready
               then vq_configure (qs_queue qs) (join_u32 (qs_desc_low qs) (qs_desc_high qs))
                      (join_u32 (qs_avail_low qs) (qs_avail_high qs)) (join_u32 (qs_used_low qs) (qs_used_high qs))
               else qs_queue qs)
      in qs\<lparr>qs_queue := vq_set_ready q ready\<rparr>)"

text \<open>The arms of \<open>write_reg\<close> that touch only the transport's own registers.\<close>

definition write_local_reg :: "'d VirtioMmioTransport \<Rightarrow> u64 \<Rightarrow> u32 \<Rightarrow> 'd VirtioMmioTransport" where
  "write_local_reg t offset value =
     (if offset = mmio_device_features_sel then t\<lparr>t_device_features_sel := value\<rparr>
      else if offset = mmio_driver_features then
        (if t_driver_features_sel t = 0
         then t\<lparr>t_driver_features := (t_driver_features t AND 0xFFFFFFFF00000000) OR ucast value\<rparr>
         else t\<lparr>t_driver_features := (t_driver_features t AND 0x00000000FFFFFFFF) OR push_bit 32 (ucast value)\<rparr>)
      else if offset = mmio_driver_features_sel then t\<lparr>t_driver_features_sel := value\<rparr>
      else if offset = mmio_queue_sel then
        (if unat value < length (t_queues t) then t\<lparr>t_queue_sel := unat value\<rparr> else t)
      else if offset = mmio_queue_num then
        with_queue (t_queue_sel t)
          (\<lambda>qs. qs\<lparr>qs_num := ucast value, qs_queue := vq_set_size (qs_queue qs) (ucast value)\<rparr>) t
      else if offset = mmio_queue_ready then with_queue (t_queue_sel t) (set_queue_ready (value \<noteq> 0)) t
      else if offset = mmio_interrupt_ack then t\<lparr>t_interrupt_status := t_interrupt_status t AND NOT value\<rparr>
      else if offset = mmio_status then
        (if (ucast value :: u8) = 0 then transport_reset t else t\<lparr>t_status := ucast value\<rparr>)
      else if offset = mmio_queue_desc_low then with_queue (t_queue_sel t) (\<lambda>qs. qs\<lparr>qs_desc_low := value\<rparr>) t
      else if offset = mmio_queue_desc_high then with_queue (t_queue_sel t) (\<lambda>qs. qs\<lparr>qs_desc_high := value\<rparr>) t
      else if offset = mmio_queue_avail_low then with_queue (t_queue_sel t) (\<lambda>qs. qs\<lparr>qs_avail_low := value\<rparr>) t
      else if offset = mmio_queue_avail_high then with_queue (t_queue_sel t) (\<lambda>qs. qs\<lparr>qs_avail_high := value\<rparr>) t
      else if offset = mmio_queue_used_low then with_queue (t_queue_sel t) (\<lambda>qs. qs\<lparr>qs_used_low := value\<rparr>) t
      else if offset = mmio_queue_used_high then with_queue (t_queue_sel t) (\<lambda>qs. qs\<lparr>qs_used_high := value\<rparr>) t
      else t)"

text \<open>\<open>QUEUE_NOTIFY\<close>: run the device on the queue, record the used-ring update, raise the interrupt.\<close>

definition notify_queue ::
  "('m, 'd) VirtioBackend \<Rightarrow> 'd VirtioMmioTransport \<Rightarrow> u16 \<Rightarrow> 'm \<Rightarrow>
     ('d VirtioMmioTransport \<times> 'm \<times> u8 option) option" where
  "notify_queue B t queue_idx m =
     (let i = unat queue_idx in
      if i < length (t_queues t)
      then (case be_process_queue B (t_device t) queue_idx (qs_queue (t_queues t ! i)) m of
              None \<Rightarrow> None
            | Some (d, q, m') \<Rightarrow>
                Some (t\<lparr>t_device := d, t_queues := (t_queues t)[i := (t_queues t ! i)\<lparr>qs_queue := q\<rparr>],
                        t_interrupt_status := t_interrupt_status t OR 1\<rparr>, m', Some (t_irq_vector t)))
      else Some (t, m, None))"

definition write_reg ::
  "('m, 'd) VirtioBackend \<Rightarrow> 'd VirtioMmioTransport \<Rightarrow> u64 \<Rightarrow> u32 \<Rightarrow> 'm \<Rightarrow>
     ('d VirtioMmioTransport \<times> 'm \<times> u8 option) option" where
  "write_reg B t offset value m =
     (if offset = mmio_queue_notify then notify_queue B t (ucast value) m
      else Some (write_local_reg t offset value, m, None))"

definition transport_mmio_read :: "('m, 'd) VirtioBackend \<Rightarrow> 'd VirtioMmioTransport \<Rightarrow> u64 \<Rightarrow> bytes \<Rightarrow> bytes" where
  "transport_mmio_read B t offset data =
     (if mmio_config_start \<le> offset then be_read_config B (t_device t) (offset - mmio_config_start) data
      else let len = min (length data) 4 in copy_at data 0 (take len (le_bytes 4 (read_reg B t offset))))"

definition transport_mmio_write ::
  "('m, 'd) VirtioBackend \<Rightarrow> 'd VirtioMmioTransport \<Rightarrow> u64 \<Rightarrow> bytes \<Rightarrow> 'm \<Rightarrow>
     ('d VirtioMmioTransport \<times> 'm \<times> u8 option) option" where
  "transport_mmio_write B t offset data m =
     (if mmio_config_start \<le> offset
      then Some (t\<lparr>t_device := be_write_config B (t_device t) (offset - mmio_config_start) data\<rparr>, m, None)
      else write_reg B t offset (of_le_bytes (copy_at (replicate 4 0) 0 (take (min (length data) 4) data))) m)"

definition transport_poll_rx ::
  "('m, 'd) VirtioBackend \<Rightarrow> 'd VirtioMmioTransport \<Rightarrow> 'm \<Rightarrow> ('d VirtioMmioTransport \<times> 'm \<times> u8 option) option" where
  "transport_poll_rx B t m =
     (case t_queues t of
        [] \<Rightarrow> Some (t, m, None)
      | qs # rest \<Rightarrow>
         (case be_poll_rx B (t_device t) (qs_queue qs) m of
            None \<Rightarrow> None
          | Some (d, q, m', delivered) \<Rightarrow>
              let t' = t\<lparr>t_device := d, t_queues := qs\<lparr>qs_queue := q\<rparr> # rest\<rparr> in
              if delivered
              then Some (t'\<lparr>t_interrupt_status := t_interrupt_status t OR 1\<rparr>, m', Some (t_irq_vector t))
              else Some (t', m', None)))"

section \<open>Contract of a backend\<close>

text \<open>
  What the transport relies on: a backend keeps the memory well-formed, moves at most the consumer
  index of the queue it is given, never changes its identity, and answers a configuration read in
  the buffer it was given.
\<close>

definition same_rings :: "VirtQueue \<Rightarrow> VirtQueue \<Rightarrow> bool" where
  "same_rings q q' \<longleftrightarrow> q' = q\<lparr>vq_last_avail_idx := vq_last_avail_idx q'\<rparr>"

lemma same_rings_refl [simp]: "same_rings q q"
  by (simp add: same_rings_def)

lemma same_rings_trans: "same_rings q q' \<Longrightarrow> same_rings q' q'' \<Longrightarrow> same_rings q q''"
  by (cases q; cases q'; cases q'') (simp add: same_rings_def)

lemma same_rings_ok: "same_rings q q' \<Longrightarrow> vq_ok q' = vq_ok q"
  by (metis same_rings_def avail_last(5))

context guest_mem
begin

lemma drain_queue_keeps:
  assumes "minv m" "drain_queue M h d q m = Some (d', q', m')"
    and "\<And>d m c d' m' w. minv m \<Longrightarrow> h d m c = (d', m', w) \<Longrightarrow> minv m' \<and> mapped m' = mapped m"
  shows "minv m' \<and> mapped m' = mapped m \<and> same_rings q q'"
proof (rule drain_queue_invariant [OF assms(2), of "\<lambda>d q1 m1. minv m1 \<and> mapped m1 = mapped m \<and> same_rings q q1"])
  fix d1 q1 m1 q2 c d2 m2 w
  assume I: "minv m1 \<and> mapped m1 = mapped m \<and> same_rings q q1"
    and pop: "pop_chain M m1 q1 = (q2, Some c)" and h: "h d1 m1 c = (d2, m2, w)"
  have "same_rings q1 q2" using pop_chain_Some [OF pop] by (simp add: same_rings_def)
  then show "minv (push_used M m2 q2 (ch_head_idx c) w) \<and> mapped (push_used M m2 q2 (ch_head_idx c) w) = mapped m \<and>
      same_rings q q2"
    using I assms(3) [OF _ h] push_used_keeps [of m2 q2 "ch_head_idx c" w] same_rings_trans by auto
qed (use assms(1) in simp)

end

definition same_identity :: "('m, 'd) VirtioBackend \<Rightarrow> 'd \<Rightarrow> 'd \<Rightarrow> bool" where
  "same_identity B d d' \<longleftrightarrow> be_device_id B d' = be_device_id B d \<and>
     be_device_features B d' = be_device_features B d \<and> be_queue_count B d' = be_queue_count B d"

locale virtio_backend = guest_mem M minv mapped byte_at
  for M :: "'m GuestMemAccess" and minv :: "'m \<Rightarrow> bool" and mapped :: "'m \<Rightarrow> u64 \<Rightarrow> nat \<Rightarrow> bool"
    and byte_at :: "'m \<Rightarrow> u64 \<Rightarrow> u8" +
  fixes B :: "('m, 'd) VirtioBackend"
  assumes process_keeps: "minv m \<Longrightarrow> be_process_queue B d i q m = Some (d', q', m') \<Longrightarrow>
      minv m' \<and> mapped m' = mapped m \<and> same_rings q q' \<and> same_identity B d d'"
    and poll_keeps: "minv m \<Longrightarrow> be_poll_rx B d q m = Some (d', q', m', r) \<Longrightarrow>
      minv m' \<and> mapped m' = mapped m \<and> same_rings q q' \<and> same_identity B d d'"
    and config_read_length: "length (be_read_config B d off data) = length data"
    and config_write_identity: "same_identity B d (be_write_config B d off data)"

text \<open>The invariant of the transport.\<close>

definition transport_ok :: "('m, 'd) VirtioBackend \<Rightarrow> 'd VirtioMmioTransport \<Rightarrow> bool" where
  "transport_ok B t \<longleftrightarrow> length (t_queues t) = be_queue_count B (t_device t) \<and>
     (t_queues t = [] \<or> t_queue_sel t < length (t_queues t)) \<and>
     list_all (\<lambda>qs. vq_ok (qs_queue qs)) (t_queues t)"

lemma transport_new_ok: "transport_ok B (transport_new B d irq)"
  by (auto simp: transport_ok_def transport_new_def list_all_iff queue_state_new_def vq_ok_ops)

lemma list_all_update: "list_all P xs \<Longrightarrow> P y \<Longrightarrow> list_all P (xs[i := y])"
  by (auto simp: list_all_iff dest: set_update_subset_insert [THEN subsetD])

lemma transport_ok_fields [simp]:
  "transport_ok B (t\<lparr>t_status := a\<rparr>) = transport_ok B t"
  "transport_ok B (t\<lparr>t_interrupt_status := b\<rparr>) = transport_ok B t"
  "transport_ok B (t\<lparr>t_device_features_sel := c\<rparr>) = transport_ok B t"
  "transport_ok B (t\<lparr>t_driver_features := d\<rparr>) = transport_ok B t"
  "transport_ok B (t\<lparr>t_driver_features_sel := e\<rparr>) = transport_ok B t"
  by (simp_all add: transport_ok_def)

lemma transport_ok_sel:
  "transport_ok B t \<Longrightarrow> i < length (t_queues t) \<Longrightarrow> transport_ok B (t\<lparr>t_queue_sel := i\<rparr>)"
  by (simp add: transport_ok_def)

lemma transport_ok_queues:
  assumes "transport_ok B t" "vq_ok (qs_queue qs)" "be_queue_count B d = be_queue_count B (t_device t)"
  shows "transport_ok B (t\<lparr>t_device := d, t_queues := (t_queues t)[i := qs]\<rparr>)"
  using assms by (auto simp: transport_ok_def intro!: list_all_update)

lemma with_queue_ok:
  assumes "transport_ok B t" "\<And>qs. vq_ok (qs_queue qs) \<Longrightarrow> vq_ok (qs_queue (f qs))"
  shows "transport_ok B (with_queue i f t)"
proof (cases "i < length (t_queues t)")
  case True
  with assms(1) have "vq_ok (qs_queue (t_queues t ! i))"
    by (simp add: transport_ok_def list_all_length)
  from transport_ok_queues [OF assms(1) assms(2) [OF this] refl, of i] True show ?thesis
    by (simp add: with_queue_def)
qed (use assms(1) in \<open>simp add: with_queue_def\<close>)

lemma transport_reset_ok: "transport_ok B t \<Longrightarrow> transport_ok B (transport_reset t)"
  by (auto simp: transport_ok_def transport_reset_def list_all_length queue_state_reset_def vq_ok_ops)

lemma set_queue_ready_ok: "vq_ok (qs_queue qs) \<Longrightarrow> vq_ok (qs_queue (set_queue_ready r qs))"
  by (simp add: set_queue_ready_def Let_def vq_ok_ops)

lemma write_local_reg_ok: "transport_ok B t \<Longrightarrow> transport_ok B (write_local_reg t off v)"
  by (simp add: write_local_reg_def with_queue_ok set_queue_ready_ok transport_reset_ok vq_ok_ops transport_ok_sel)

lemma write_local_reg_device [simp]: "t_device (write_local_reg t off v) = t_device t"
  by (simp add: write_local_reg_def with_queue_def transport_reset_def)

lemma same_identity_count: "same_identity B d d' \<Longrightarrow> be_queue_count B d' = be_queue_count B d"
  by (simp add: same_identity_def)

text \<open>One access of the guest, or one poll, as a step of transport and memory.\<close>

inductive transport_step ::
  "('m, 'd) VirtioBackend \<Rightarrow> 'd VirtioMmioTransport \<times> 'm \<Rightarrow> 'd VirtioMmioTransport \<times> 'm \<Rightarrow> bool"
  for B where
  mmio_write_step: "transport_mmio_write B t off data m = Some (t', m', irq) \<Longrightarrow> transport_step B (t, m) (t', m')"
| poll_step: "transport_poll_rx B t m = Some (t', m', irq) \<Longrightarrow> transport_step B (t, m) (t', m')"

inductive_cases transport_stepE: "transport_step B (t, m) s"

context virtio_backend
begin

lemma notify_keeps:
  assumes "minv m" "transport_ok B t" "notify_queue B t i m = Some (t', m', irq)"
  shows "minv m' \<and> mapped m' = mapped m \<and> transport_ok B t'"
proof (cases "unat i < length (t_queues t)")
  case True
  let ?q = "qs_queue (t_queues t ! unat i)"
  obtain d q where run: "be_process_queue B (t_device t) i ?q m = Some (d, q, m')"
    and t': "t' = t\<lparr>t_device := d, t_queues := (t_queues t)[unat i := (t_queues t ! unat i)\<lparr>qs_queue := q\<rparr>],
                    t_interrupt_status := t_interrupt_status t OR 1\<rparr>"
    using assms(3) True by (auto simp: notify_queue_def Let_def split: option.splits)
  note k = process_keeps [OF assms(1) run]
  have "vq_ok q" using k assms(2) True same_rings_ok by (auto simp: transport_ok_def list_all_length)
  with k assms(2) show ?thesis
    by (simp add: t' transport_ok_queues same_identity_count)
qed (use assms in \<open>auto simp: notify_queue_def\<close>)

lemma poll_rx_keeps:
  assumes "minv m" "transport_ok B t" "transport_poll_rx B t m = Some (t', m', irq)"
  shows "minv m' \<and> mapped m' = mapped m \<and> transport_ok B t'"
proof (cases "t_queues t")
  case (Cons qs rest)
  obtain d q r where run: "be_poll_rx B (t_device t) (qs_queue qs) m = Some (d, q, m', r)"
    and t': "t' = t\<lparr>t_device := d, t_queues := qs\<lparr>qs_queue := q\<rparr> # rest,
                    t_interrupt_status := (if r then t_interrupt_status t OR 1 else t_interrupt_status t)\<rparr>"
    using assms(3) Cons by (auto simp: transport_poll_rx_def Let_def split: option.splits if_splits)
  note k = poll_keeps [OF assms(1) run]
  have "vq_ok q" using k assms(2) Cons same_rings_ok by (auto simp: transport_ok_def)
  with k assms(2) Cons show ?thesis by (auto simp: t' transport_ok_def same_identity_count)
qed (use assms in \<open>auto simp: transport_poll_rx_def\<close>)

lemma mmio_write_keeps:
  assumes "minv m" "transport_ok B t" "transport_mmio_write B t off data m = Some (t', m', irq)"
  shows "minv m' \<and> mapped m' = mapped m \<and> transport_ok B t'"
proof -
  consider (config) "mmio_config_start \<le> off"
    | (notify) "\<not> mmio_config_start \<le> off" "off = mmio_queue_notify"
    | (reg) "\<not> mmio_config_start \<le> off" "off \<noteq> mmio_queue_notify" by blast
  then show ?thesis
  proof cases
    case config
    with assms show ?thesis
      using same_identity_count [OF config_write_identity [of "t_device t" "off - mmio_config_start" data]]
      by (auto simp: transport_mmio_write_def transport_ok_def)
  next
    case notify
    with assms(3) notify_keeps [OF assms(1,2)] show ?thesis
      by (simp add: transport_mmio_write_def write_reg_def)
  next
    case reg
    with assms write_local_reg_ok [OF assms(2)] show ?thesis
      by (auto simp: transport_mmio_write_def write_reg_def)
  qed
qed

text \<open>Whatever the guest writes, in whatever order, the transport stays well-formed.\<close>

lemma reachable_ok:
  assumes "(transport_step B)\<^sup>*\<^sup>* s s'" "minv (snd s)" "transport_ok B (fst s)"
  shows "minv (snd s') \<and> mapped (snd s') = mapped (snd s) \<and> transport_ok B (fst s')"
  using assms
proof (induction rule: rtranclp_induct)
  case (step s1 s2)
  note ih = step.IH [OF step.prems]
  from step.hyps(2) show ?case
  proof cases
    case (mmio_write_step t off data m t' m' irq)
    with mmio_write_keeps [OF _ _ mmio_write_step(3)] ih show ?thesis by simp
  next
    case (poll_step t m t' m' irq)
    with poll_rx_keeps [OF _ _ poll_step(3)] ih show ?thesis by simp
  qed
qed simp

lemma mmio_read_length: "length (transport_mmio_read B t off data) = length data"
  by (simp add: transport_mmio_read_def config_read_length Let_def)

end

section \<open>Properties\<close>

lemma join_u32_split: "join_u32 (ucast a) (ucast (drop_bit 32 a)) = a"
  by (rule bit_word_eqI) (auto simp: join_u32_def bit_simps)

lemma low_high_u64:
  "((v AND 0xFFFFFFFF00000000) OR ucast (lo :: u32)) AND 0xFFFFFFFF OR push_bit 32 (ucast (hi :: u32)) = join_u32 lo hi"
  for v :: u64
proof -
  have m: "(0xFFFFFFFF :: u64) = mask 32" "(0xFFFFFFFF00000000 :: u64) = push_bit 32 (mask 32)"
    by (simp_all add: mask_eq_exp_minus_1 push_bit_eq_mult)
  show ?thesis
    by (rule bit_word_eqI) (auto simp: m join_u32_def bit_simps dest: bit_imp_le_length)
qed

text \<open>The driver's register writes, one after the other.\<close>

definition write_local_regs :: "'d VirtioMmioTransport \<Rightarrow> (u64 \<times> u32) list \<Rightarrow> 'd VirtioMmioTransport" where
  "write_local_regs t ws = foldl (\<lambda>t (off, v). write_local_reg t off v) t ws"

lemma write_local_regs_simps [simp]:
  "write_local_regs t [] = t"
  "write_local_regs t ((off, v) # ws) = write_local_regs (write_local_reg t off v) ws"
  by (simp_all add: write_local_regs_def)

definition queue_setup :: "nat \<Rightarrow> u16 \<Rightarrow> u64 \<Rightarrow> u64 \<Rightarrow> u64 \<Rightarrow> (u64 \<times> u32) list" where
  "queue_setup i n desc avail used =
     [(mmio_queue_sel, of_nat i), (mmio_queue_num, ucast n),
      (mmio_queue_desc_low, ucast desc), (mmio_queue_desc_high, ucast (drop_bit 32 desc)),
      (mmio_queue_avail_low, ucast avail), (mmio_queue_avail_high, ucast (drop_bit 32 avail)),
      (mmio_queue_used_low, ucast used), (mmio_queue_used_high, ucast (drop_bit 32 used)),
      (mmio_queue_ready, 1)]"

text \<open>The driver's queue set-up sequence (select, size, three addresses in halves, ready) leaves the
  selected queue ready with exactly the given size and 64-bit ring addresses, keeps its consumer
  index, and changes no other queue, no other register and not the device.\<close>

theorem queue_setup_configures:
  fixes desc avail used :: u64
  assumes "i < length (t_queues t)" "length (t_queues t) < 2 ^ 32" "0 < n" "n \<le> queue_num_max"
  defines "t' \<equiv> write_local_regs t (queue_setup i n desc avail used)"
  shows "qs_queue (t_queues t' ! i) =
      \<lparr>vq_size = n, vq_desc_gpa = desc, vq_avail_gpa = avail, vq_used_gpa = used,
       vq_last_avail_idx = vq_last_avail_idx (qs_queue (t_queues t ! i)), vq_ready = True\<rparr> \<and>
    (\<forall>j. j \<noteq> i \<longrightarrow> t_queues t' ! j = t_queues t ! j) \<and> length (t_queues t') = length (t_queues t) \<and>
    t' = t\<lparr>t_queues := t_queues t', t_queue_sel := i\<rparr>"
proof -
  have i: "unat (of_nat i :: u32) = i" using assms(1,2) by simp
  have n: "vq_set_size q n = q\<lparr>vq_size := n\<rparr>" for q
    using assms(3,4) by (simp add: vq_set_size_def queue_num_max_def max_queue_size_def)
  have ucast_n: "(ucast (ucast n :: u32) :: u16) = n" by (rule bit_word_eqI) (simp add: bit_simps)
  define qs where "qs = t_queues t ! i"
  have "t' = t\<lparr>t_queue_sel := i, t_queues := (t_queues t)[i := qs\<lparr>qs_num := n,
      qs_desc_low := ucast desc, qs_desc_high := ucast (drop_bit 32 desc),
      qs_avail_low := ucast avail, qs_avail_high := ucast (drop_bit 32 avail),
      qs_used_low := ucast used, qs_used_high := ucast (drop_bit 32 used),
      qs_queue := (qs_queue qs)\<lparr>vq_size := n, vq_desc_gpa := desc, vq_avail_gpa := avail,
         vq_used_gpa := used, vq_ready := True\<rparr>\<rparr>]\<rparr>"
    unfolding t'_def queue_setup_def qs_def
    using assms(1) by (simp add: write_local_reg_def mmio_regs with_queue_def i n ucast_n set_queue_ready_def
        Let_def join_u32_split vq_configure_def vq_set_ready_def)
  then show ?thesis using assms(1) by (simp add: qs_def)
qed

text \<open>A backend with two queues that completes every request at once, for the witnesses.\<close>

definition demo_backend :: "(unit, unit) VirtioBackend" where
  "demo_backend = \<lparr>be_device_id = (\<lambda>d. 1), be_device_features = (\<lambda>d. 0), be_queue_count = (\<lambda>d. 2),
     be_process_queue = (\<lambda>d i q m. Some (d, q, m)), be_poll_rx = default_poll_rx,
     be_read_config = (\<lambda>d off data. data), be_write_config = (\<lambda>d off data. d)\<rparr>"

definition demo_transport :: "unit VirtioMmioTransport" where
  "demo_transport = transport_new demo_backend () 5"

lemma demo_transport_queues: "length (t_queues demo_transport) = 2"
  by (simp add: demo_transport_def transport_new_def demo_backend_def)

theorem queue_setup_configures_witness:
  "let t' = write_local_regs demo_transport (queue_setup 1 128 0x123456789A000 0x20000 0x30000)
   in vq_desc_gpa (qs_queue (t_queues t' ! 1)) = 0x123456789A000 \<and> t_queues t' ! 0 = t_queues demo_transport ! 0"
proof -
  have "1 < length (t_queues demo_transport)" "length (t_queues demo_transport) < 2 ^ 32"
    "0 < (128 :: u16)" "128 \<le> queue_num_max"
    by (simp_all add: demo_transport_queues queue_num_max_def)
  from queue_setup_configures [OF this, of "0x123456789A000" "0x20000" "0x30000"]
  show ?thesis unfolding Let_def by simp
qed

text \<open>Feature negotiation: reading both selector pages yields the device's 64 feature bits, and
  writing both pages stores exactly the driver's 64 bits, whatever was stored before.\<close>

theorem features_roundtrip:
  "(let lo = read_reg B (write_local_reg t mmio_device_features_sel 0) mmio_device_features;
        hi = read_reg B (write_local_reg t mmio_device_features_sel 1) mmio_device_features
    in join_u32 lo hi = be_device_features B (t_device t)) \<and>
   t_driver_features (write_local_regs t
     [(mmio_driver_features_sel, 0), (mmio_driver_features, ucast f),
      (mmio_driver_features_sel, 1), (mmio_driver_features, ucast (drop_bit 32 f))]) = f"
proof
  show "let lo = read_reg B (write_local_reg t mmio_device_features_sel 0) mmio_device_features;
        hi = read_reg B (write_local_reg t mmio_device_features_sel 1) mmio_device_features
    in join_u32 lo hi = be_device_features B (t_device t)"
    by (simp add: Let_def read_reg_def write_local_reg_def mmio_regs join_u32_split)
  have "t_driver_features (write_local_regs t
     [(mmio_driver_features_sel, 0), (mmio_driver_features, ucast f),
      (mmio_driver_features_sel, 1), (mmio_driver_features, ucast (drop_bit 32 f))]) =
    join_u32 (ucast f) (ucast (drop_bit 32 f))"
    using low_high_u64 [of "t_driver_features t" "ucast f" "ucast (drop_bit 32 f)"]
    by (simp add: write_local_reg_def mmio_regs)
  then show "t_driver_features (write_local_regs t
     [(mmio_driver_features_sel, 0), (mmio_driver_features, ucast f),
      (mmio_driver_features_sel, 1), (mmio_driver_features, ucast (drop_bit 32 f))]) = f"
    by (simp add: join_u32_split)
qed

text \<open>Writing zero to the status register returns a well-formed transport to its initial state, all
  queues included; the backend device itself, its interrupt line and the configuration generation
  are not reset.\<close>

theorem status_zero_resets:
  assumes "transport_ok B t"
  shows "write_reg B t mmio_status 0 m =
    Some ((transport_new B (t_device t) (t_irq_vector t))\<lparr>t_config_generation := t_config_generation t\<rparr>, m, None)"
proof -
  have "queue_state_reset qs = queue_state_new" for qs
    by (simp add: queue_state_reset_def queue_state_new_def vq_reset_def virt_queue_new_def
        queue_num_max_def max_queue_size_def)
  then have "map queue_state_reset (t_queues t) = map (\<lambda>i. queue_state_new) [0..<be_queue_count B (t_device t)]"
    using assms by (intro nth_equalityI) (auto simp: transport_ok_def)
  then show ?thesis
    by (simp add: write_reg_def mmio_regs write_local_reg_def transport_reset_def transport_new_def)
qed

theorem status_zero_resets_witness:
  "write_reg demo_backend (write_local_regs demo_transport [(mmio_status, 7), (mmio_device_features_sel, 1)])
     mmio_status 0 () = Some (demo_transport, (), None)"
proof -
  let ?t = "write_local_regs demo_transport [(mmio_status, 7), (mmio_device_features_sel, 1)]"
  have "transport_ok demo_backend ?t"
    by (simp only: write_local_regs_simps demo_transport_def) (intro write_local_reg_ok transport_new_ok)
  from status_zero_resets [OF this, of "()"]
  show ?thesis by (simp add: write_local_reg_def mmio_regs demo_transport_def transport_new_def)
qed

end
