(* ===== verification/Mmio_Bus.thy ===== *)
theory Mmio_Bus
  imports Mmio_Transport Rust_Search
begin

text \<open>
  The MMIO bus of \<open>hitz-devices/src/mmio_bus.rs\<close>: devices registered at disjoint address windows,
  kept sorted by base so that an access is routed by binary search. The trait \<open>MmioDevice\<close> is a record
  of operations with the contract \<open>mmio_device\<close>; the virtio transport satisfies it for every backend
  (\<open>sublocale\<close>). Window ends are computed with wrapping addition, as in a build without overflow
  checks; the invariant \<open>bus_ok\<close> excludes wrap-around, so that both builds agree on the states
  considered. A failed assertion of \<open>register\<close> is \<open>None\<close>.
\<close>

section \<open>Model\<close>

record ('m, 'd) MmioDevice =
  dev_read :: "'d \<Rightarrow> u64 \<Rightarrow> bytes \<Rightarrow> 'd \<times> bytes"
  dev_write :: "'d \<Rightarrow> u64 \<Rightarrow> bytes \<Rightarrow> 'm \<Rightarrow> ('d \<times> 'm \<times> u8 option) option"
  dev_poll :: "'d \<Rightarrow> 'm \<Rightarrow> ('d \<times> 'm \<times> u8 option) option"

record 'd MmioSlot =
  slot_base :: u64
  slot_size :: u64
  slot_device :: 'd

record 'd MmioBus =
  bus_slots :: "'d MmioSlot list"

definition bus_new :: "'d MmioBus" where
  "bus_new = \<lparr>bus_slots = []\<rparr>"

definition slot_end :: "'d MmioSlot \<Rightarrow> u64" where
  "slot_end s = slot_base s + slot_size s"

definition slot_overlaps :: "u64 \<Rightarrow> u64 \<Rightarrow> 'd MmioSlot \<Rightarrow> bool" where
  "slot_overlaps base_gpa sz s \<longleftrightarrow> base_gpa < slot_end s \<and> slot_base s < base_gpa + sz"

definition bus_register :: "'d MmioBus \<Rightarrow> u64 \<Rightarrow> u64 \<Rightarrow> 'd \<Rightarrow> 'd MmioBus option" where
  "bus_register bus base_gpa sz device =
     (if list_ex (slot_overlaps base_gpa sz) (bus_slots bus) then None
      else Some (bus\<lparr>bus_slots := sort_key slot_base
                   (bus_slots bus @ [\<lparr>slot_base = base_gpa, slot_size = sz, slot_device = device\<rparr>])\<rparr>))"

definition find_slot :: "'d MmioBus \<Rightarrow> u64 \<Rightarrow> nat option" where
  "find_slot bus gpa =
     (let idx = partition_point (\<lambda>s. slot_base s \<le> gpa) (bus_slots bus) in
      if 0 < idx \<and> gpa < slot_end (bus_slots bus ! (idx - 1)) then Some (idx - 1) else None)"

definition set_device :: "'d MmioBus \<Rightarrow> nat \<Rightarrow> 'd \<Rightarrow> 'd MmioBus" where
  "set_device bus i d = bus\<lparr>bus_slots := (bus_slots bus)[i := (bus_slots bus ! i)\<lparr>slot_device := d\<rparr>]\<rparr>"

definition bus_read :: "('m, 'd) MmioDevice \<Rightarrow> 'd MmioBus \<Rightarrow> u64 \<Rightarrow> bytes \<Rightarrow> 'd MmioBus \<times> bytes" where
  "bus_read D bus gpa data =
     (case find_slot bus gpa of
        Some i \<Rightarrow>
          let s = bus_slots bus ! i in
          (case dev_read D (slot_device s) (gpa - slot_base s) data of (d, data') \<Rightarrow> (set_device bus i d, data'))
      | None \<Rightarrow> (bus, replicate (length data) 0xFF))"

definition bus_write ::
  "('m, 'd) MmioDevice \<Rightarrow> 'd MmioBus \<Rightarrow> u64 \<Rightarrow> bytes \<Rightarrow> 'm \<Rightarrow> ('d MmioBus \<times> 'm \<times> u8 option) option" where
  "bus_write D bus gpa data m =
     (case find_slot bus gpa of
        Some i \<Rightarrow>
          let s = bus_slots bus ! i in
          (case dev_write D (slot_device s) (gpa - slot_base s) data m of
             None \<Rightarrow> None
           | Some (d, m', irq) \<Rightarrow> Some (set_device bus i d, m', irq))
      | None \<Rightarrow> Some (bus, m, None))"

fun poll_slots ::
  "('m, 'd) MmioDevice \<Rightarrow> 'd MmioSlot list \<Rightarrow> 'm \<Rightarrow> ('d MmioSlot list \<times> 'm \<times> u8 option) option" where
  "poll_slots D [] m = Some ([], m, None)"
| "poll_slots D (s # ss) m =
     (case dev_poll D (slot_device s) m of
        None \<Rightarrow> None
      | Some (d, m', Some irq) \<Rightarrow> Some (s\<lparr>slot_device := d\<rparr> # ss, m', Some irq)
      | Some (d, m', None) \<Rightarrow>
         (case poll_slots D ss m' of
            None \<Rightarrow> None
          | Some (ss', m'', irq) \<Rightarrow> Some (s\<lparr>slot_device := d\<rparr> # ss', m'', irq)))"

definition poll_devices :: "('m, 'd) MmioDevice \<Rightarrow> 'd MmioBus \<Rightarrow> 'm \<Rightarrow> ('d MmioBus \<times> 'm \<times> u8 option) option" where
  "poll_devices D bus m =
     (case poll_slots D (bus_slots bus) m of
        None \<Rightarrow> None
      | Some (ss, m', irq) \<Rightarrow> Some (bus\<lparr>bus_slots := ss\<rparr>, m', irq))"

text \<open>The virtio transport as an \<open>MmioDevice\<close>.\<close>

definition transport_device :: "('m, 'b) VirtioBackend \<Rightarrow> ('m, 'b VirtioMmioTransport) MmioDevice" where
  "transport_device B = \<lparr>dev_read = (\<lambda>t off data. (t, transport_mmio_read B t off data)),
     dev_write = transport_mmio_write B, dev_poll = transport_poll_rx B\<rparr>"

section \<open>Contract of a device\<close>

locale mmio_device = guest_mem M minv mapped byte_at
  for M :: "'m GuestMemAccess" and minv :: "'m \<Rightarrow> bool" and mapped :: "'m \<Rightarrow> u64 \<Rightarrow> nat \<Rightarrow> bool"
    and byte_at :: "'m \<Rightarrow> u64 \<Rightarrow> u8" +
  fixes D :: "('m, 'd) MmioDevice" and dok :: "'d \<Rightarrow> bool"
  assumes dev_read_keeps: "dok d \<Longrightarrow> dev_read D d off data = (d', data') \<Longrightarrow> dok d' \<and> length data' = length data"
    and dev_write_keeps: "minv m \<Longrightarrow> dok d \<Longrightarrow> dev_write D d off data m = Some (d', m', irq) \<Longrightarrow>
          dok d' \<and> minv m' \<and> mapped m' = mapped m"
    and dev_poll_keeps: "minv m \<Longrightarrow> dok d \<Longrightarrow> dev_poll D d m = Some (d', m', irq) \<Longrightarrow>
          dok d' \<and> minv m' \<and> mapped m' = mapped m"

sublocale virtio_backend \<subseteq> dev: mmio_device M minv mapped byte_at "transport_device B" "transport_ok B"
proof unfold_locales
  show "transport_ok B d' \<and> length data' = length data"
    if "transport_ok B d" "dev_read (transport_device B) d off data = (d', data')" for d off data d' data'
    using that mmio_read_length [of d off data] by (auto simp: transport_device_def)
  show "transport_ok B d' \<and> minv m' \<and> mapped m' = mapped m"
    if "minv m" "transport_ok B d" "dev_write (transport_device B) d off data m = Some (d', m', irq)"
    for m d off data d' m' irq
    using mmio_write_keeps [OF that(1,2)] that(3) by (auto simp: transport_device_def)
  show "transport_ok B d' \<and> minv m' \<and> mapped m' = mapped m"
    if "minv m" "transport_ok B d" "dev_poll (transport_device B) d m = Some (d', m', irq)" for m d d' m' irq
    using poll_rx_keeps [OF that(1,2)] that(3) by (auto simp: transport_device_def)
qed

section \<open>Routing\<close>

definition slot_ok :: "'d MmioSlot \<Rightarrow> bool" where
  "slot_ok s \<longleftrightarrow> 0 < unat (slot_size s) \<and> unat (slot_base s) + unat (slot_size s) < 2 ^ 64"

abbreviation slot_stop :: "'d MmioSlot \<Rightarrow> nat" where
  "slot_stop s \<equiv> unat (slot_base s) + unat (slot_size s)"

definition bus_ok :: "'d MmioBus \<Rightarrow> bool" where
  "bus_ok bus \<longleftrightarrow> list_all slot_ok (bus_slots bus) \<and>
     sorted_wrt (\<lambda>s t. slot_stop s \<le> unat (slot_base t)) (bus_slots bus)"

definition owns :: "'d MmioSlot \<Rightarrow> u64 \<Rightarrow> bool" where
  "owns s gpa \<longleftrightarrow> unat (slot_base s) \<le> unat gpa \<and> unat gpa < slot_stop s"

lemma unat_slot_end: "slot_ok s \<Longrightarrow> unat (slot_end s) = slot_stop s"
  by (simp add: slot_ok_def slot_end_def unat_add_nowrap)

lemma find_slot_iff:
  assumes "bus_ok bus"
  shows "find_slot bus gpa = Some i \<longleftrightarrow> i < length (bus_slots bus) \<and> owns (bus_slots bus ! i) gpa"
proof -
  let ?ss = "bus_slots bus" and ?p = "\<lambda>s. slot_base s \<le> gpa"
  let ?k = "partition_point ?p ?ss"
  have ok: "slot_ok (?ss ! j)" if "j < length ?ss" for j
    using assms that by (simp add: bus_ok_def list_all_length)
  have ord: "slot_stop (?ss ! a) \<le> unat (slot_base (?ss ! b))" if "a < b" "b < length ?ss" for a b
    using assms that by (simp add: bus_ok_def sorted_wrt_iff_nth_less)
  have base: "unat (slot_base (?ss ! a)) < unat (slot_base (?ss ! b))" if "a < b" "b < length ?ss" for a b
    using ord [OF that] ok [of a] that by (simp add: slot_ok_def)
  have "sorted_wrt (\<lambda>x y. ?p y \<longrightarrow> ?p x) ?ss"
    unfolding sorted_wrt_iff_nth_less word_le_nat_alt using base by (meson less_imp_le order_trans)
  note pp = partition_point_split [OF this]
  have le: "?p (?ss ! j) \<longleftrightarrow> j < ?k" if "j < length ?ss" for j
    using pp(2,3) [of j] that by (meson not_le)
  have own: "owns (?ss ! j) gpa \<longleftrightarrow> j < ?k \<and> gpa < slot_end (?ss ! j)" if "j < length ?ss" for j
    using le [OF that] unat_slot_end [OF ok [OF that]]
    by (simp add: owns_def word_le_nat_alt word_less_nat_alt)
  have last: "j = ?k - 1" if "j < length ?ss" "owns (?ss ! j) gpa" for j
  proof (rule ccontr)
    assume "j \<noteq> ?k - 1"
    moreover have "j < ?k" using own [OF that(1)] that(2) by simp
    ultimately have b: "Suc j < ?k" by linarith
    then have s: "Suc j < length ?ss" using pp(1) by simp
    have "unat (slot_base (?ss ! Suc j)) \<le> unat gpa" using le [OF s] b by (simp add: word_le_nat_alt)
    moreover have "slot_stop (?ss ! j) \<le> unat (slot_base (?ss ! Suc j))" using ord [of j "Suc j"] s by simp
    ultimately show False using that(2) by (simp add: owns_def)
  qed
  show ?thesis
    using own last pp(1) by (auto simp: find_slot_def Let_def)
qed

text \<open>Routing sees only the windows, not the devices.\<close>

definition window :: "'d MmioSlot \<Rightarrow> u64 \<times> u64" where
  "window s = (slot_base s, slot_size s)"

lemma bus_ok_windows:
  "map window (bus_slots bus) = map window (bus_slots bus') \<Longrightarrow> bus_ok bus = bus_ok bus'"
proof -
  assume eq: "map window (bus_slots bus) = map window (bus_slots bus')"
  then have len: "length (bus_slots bus) = length (bus_slots bus')" using map_eq_imp_length_eq by blast
  have "window (bus_slots bus ! i) = window (bus_slots bus' ! i)" if "i < length (bus_slots bus')" for i
    using arg_cong [OF eq, of "\<lambda>l. l ! i"] that len by simp
  then show ?thesis
    by (auto simp: bus_ok_def list_all_length sorted_wrt_iff_nth_less window_def slot_ok_def len)
qed

lemma set_device_windows: "map window (bus_slots (set_device bus i d)) = map window (bus_slots bus)"
proof (rule nth_equalityI)
  show "map window (bus_slots (set_device bus i d)) ! j = map window (bus_slots bus) ! j"
    if "j < length (map window (bus_slots (set_device bus i d)))" for j
    using that by (cases "i = j") (simp_all add: set_device_def window_def)
qed (simp add: set_device_def)

definition slots_apart :: "'d MmioSlot \<Rightarrow> 'e MmioSlot \<Rightarrow> bool" where
  "slots_apart s t \<longleftrightarrow> slot_stop s \<le> unat (slot_base t) \<or> slot_stop t \<le> unat (slot_base s)"

lemma slots_apart_sym: "slots_apart s t \<Longrightarrow> slots_apart t s"
  by (auto simp: slots_apart_def)

lemma bus_ok_apart:
  assumes "bus_ok bus" "s \<in> set (bus_slots bus)" "t \<in> set (bus_slots bus)" "s \<noteq> t"
  shows "slots_apart s t"
proof -
  obtain i j where ij: "i < length (bus_slots bus)" "s = bus_slots bus ! i"
    "j < length (bus_slots bus)" "t = bus_slots bus ! j"
    using assms(2,3) by (metis in_set_conv_nth)
  with assms(4) have "i < j \<or> j < i" by (metis nat_neq_iff)
  with assms(1) ij show ?thesis
    by (auto simp: bus_ok_def sorted_wrt_iff_nth_less slots_apart_def)
qed

lemma bus_ok_distinct: "bus_ok bus \<Longrightarrow> distinct (bus_slots bus)"
  by (fastforce simp: bus_ok_def sorted_wrt_iff_nth_less distinct_conv_nth list_all_length slot_ok_def nat_neq_iff)

lemma bus_okI:
  assumes "list_all slot_ok l" "sorted (map slot_base l)" "distinct l"
    and "\<And>s t. s \<in> set l \<Longrightarrow> t \<in> set l \<Longrightarrow> s \<noteq> t \<Longrightarrow> slots_apart s t"
  shows "bus_ok \<lparr>bus_slots = l\<rparr>"
proof -
  have "slot_stop (l ! i) \<le> unat (slot_base (l ! j))" if ij: "i < j" "j < length l" for i j
  proof -
    have ne: "l ! i \<noteq> l ! j" using assms(3) ij by (simp add: nth_eq_iff_index_eq)
    have "slot_base (l ! i) \<le> slot_base (l ! j)"
      using assms(2) ij by (simp add: sorted_iff_nth_mono_less)
    moreover have "slots_apart (l ! i) (l ! j)" using assms(4) ne ij by simp
    moreover have "slot_ok (l ! j)" using assms(1) ij by (simp add: list_all_length)
    ultimately show ?thesis by (auto simp: slots_apart_def word_le_nat_alt slot_ok_def)
  qed
  with assms(1) show ?thesis by (simp add: bus_ok_def sorted_wrt_iff_nth_less)
qed

lemma slot_overlaps_iff:
  fixes d :: 'd
  assumes "slot_ok s" "slot_ok \<lparr>slot_base = b, slot_size = n, slot_device = d\<rparr>"
  shows "slot_overlaps b n s \<longleftrightarrow> \<not> slots_apart \<lparr>slot_base = b, slot_size = n, slot_device = d\<rparr> s"
  using unat_slot_end [OF assms(1)] unat_slot_end [OF assms(2)]
  by (auto simp: slot_overlaps_def slots_apart_def word_less_nat_alt slot_end_def [of "\<lparr>slot_base = b, slot_size = n, slot_device = d\<rparr>"])

lemma bus_register_result:
  assumes ok: "bus_ok bus" and new: "slot_ok \<lparr>slot_base = b, slot_size = n, slot_device = d\<rparr>"
    (is "slot_ok ?new")
  shows "case bus_register bus b n d of
      None \<Rightarrow> \<exists>s\<in>set (bus_slots bus). \<not> slots_apart ?new s
    | Some bus' \<Rightarrow> bus_ok bus' \<and> (\<forall>s\<in>set (bus_slots bus). slots_apart ?new s) \<and>
        set (bus_slots bus') = insert ?new (set (bus_slots bus)) \<and>
        length (bus_slots bus') = Suc (length (bus_slots bus))"
proof -
  have so: "slot_overlaps b n s \<longleftrightarrow> \<not> slots_apart ?new s" if "s \<in> set (bus_slots bus)" for s
    using ok that new by (intro slot_overlaps_iff) (auto simp: bus_ok_def list_all_iff)
  show ?thesis
  proof (cases "list_ex (slot_overlaps b n) (bus_slots bus)")
    case True
    then show ?thesis using so by (auto simp: bus_register_def list_ex_iff)
  next
    case False
    let ?l = "sort_key slot_base (bus_slots bus @ [?new])"
    from False so have ap: "slots_apart ?new s" if "s \<in> set (bus_slots bus)" for s
      using that by (auto simp: list_ex_iff)
    have notin: "?new \<notin> set (bus_slots bus)"
      using ap new by (fastforce simp: slots_apart_def slot_ok_def)
    have "bus_ok \<lparr>bus_slots = ?l\<rparr>"
    proof (rule bus_okI)
      show "list_all slot_ok ?l" using ok new by (simp add: bus_ok_def list_all_iff)
      show "distinct ?l" using bus_ok_distinct [OF ok] notin by simp
      show "slots_apart s t" if "s \<in> set ?l" "t \<in> set ?l" "s \<noteq> t" for s t
        using that bus_ok_apart [OF ok, of s t] ap [of s] ap [of t] slots_apart_sym by auto
    qed simp
    then have "bus_ok (bus\<lparr>bus_slots := ?l\<rparr>)" by (simp add: bus_ok_def)
    with False ap show ?thesis by (simp add: bus_register_def)
  qed
qed

section \<open>Accesses keep the bus\<close>

text \<open>The bus together with a device invariant \<open>dok\<close>.\<close>

definition bus_inv :: "('d \<Rightarrow> bool) \<Rightarrow> 'd MmioBus \<Rightarrow> bool" where
  "bus_inv dok bus \<longleftrightarrow> bus_ok bus \<and> list_all (\<lambda>s. dok (slot_device s)) (bus_slots bus)"

context mmio_device
begin

lemma bus_inv_set_device:
  assumes "bus_inv dok bus" "dok d"
  shows "bus_inv dok (set_device bus i d)"
  using assms bus_ok_windows [OF set_device_windows [of bus i d]]
  by (auto simp: bus_inv_def set_device_def intro!: list_all_update)

lemma bus_read_keeps:
  assumes "bus_inv dok bus" "bus_read D bus gpa data = (bus', data')"
  shows "bus_inv dok bus' \<and> length data' = length data \<and> map window (bus_slots bus') = map window (bus_slots bus)"
proof (cases "find_slot bus gpa")
  case (Some i)
  have ok: "bus_ok bus" using assms(1) by (simp add: bus_inv_def)
  have i: "i < length (bus_slots bus)" using find_slot_iff [OF ok] Some by blast
  then have dok: "dok (slot_device (bus_slots bus ! i))" using assms(1) by (simp add: bus_inv_def list_all_length)
  obtain d where r: "dev_read D (slot_device (bus_slots bus ! i)) (gpa - slot_base (bus_slots bus ! i)) data = (d, data')"
    and bus': "bus' = set_device bus i d"
    using assms(2) Some by (auto simp: bus_read_def Let_def split: prod.splits)
  from dev_read_keeps [OF dok r] bus_inv_set_device [OF assms(1)] show ?thesis
    by (simp add: bus' set_device_windows)
qed (use assms in \<open>auto simp: bus_read_def\<close>)

lemma bus_write_keeps:
  assumes "minv m" "bus_inv dok bus" "bus_write D bus gpa data m = Some (bus', m', irq)"
  shows "bus_inv dok bus' \<and> minv m' \<and> mapped m' = mapped m \<and> map window (bus_slots bus') = map window (bus_slots bus)"
proof (cases "find_slot bus gpa")
  case (Some i)
  have ok: "bus_ok bus" using assms(2) by (simp add: bus_inv_def)
  have i: "i < length (bus_slots bus)" using find_slot_iff [OF ok] Some by blast
  then have dok: "dok (slot_device (bus_slots bus ! i))" using assms(2) by (simp add: bus_inv_def list_all_length)
  obtain d where r: "dev_write D (slot_device (bus_slots bus ! i)) (gpa - slot_base (bus_slots bus ! i)) data m = Some (d, m', irq)"
    and bus': "bus' = set_device bus i d"
    using assms(3) Some by (auto simp: bus_write_def Let_def split: option.splits)
  from dev_write_keeps [OF assms(1) dok r] bus_inv_set_device [OF assms(2)] show ?thesis
    by (simp add: bus' set_device_windows)
qed (use assms in \<open>auto simp: bus_write_def\<close>)

lemma poll_slots_keeps:
  assumes "minv m" "list_all (\<lambda>s. dok (slot_device s)) ss" "poll_slots D ss m = Some (ss', m', irq)"
  shows "minv m' \<and> mapped m' = mapped m \<and> list_all (\<lambda>s. dok (slot_device s)) ss' \<and> map window ss' = map window ss"
  using assms
proof (induction ss arbitrary: m ss')
  case (Cons s ss)
  obtain d m1 oi where p: "dev_poll D (slot_device s) m = Some (d, m1, oi)"
    using Cons.prems(3) by (auto split: option.splits)
  have k: "dok d \<and> minv m1 \<and> mapped m1 = mapped m" using dev_poll_keeps [OF Cons.prems(1) _ p] Cons.prems(2) by simp
  show ?case
  proof (cases oi)
    case None
    then obtain ss1 where "poll_slots D ss m1 = Some (ss1, m', irq)" "ss' = s\<lparr>slot_device := d\<rparr> # ss1"
      using Cons.prems(3) p by (auto split: option.splits)
    with Cons.IH [of m1 ss1] k Cons.prems(2) show ?thesis by (simp add: window_def)
  next
    case (Some i)
    with Cons.prems p k show ?thesis by (auto simp: window_def)
  qed
qed simp

lemma poll_devices_keeps:
  assumes "minv m" "bus_inv dok bus" "poll_devices D bus m = Some (bus', m', irq)"
  shows "bus_inv dok bus' \<and> minv m' \<and> mapped m' = mapped m \<and> map window (bus_slots bus') = map window (bus_slots bus)"
proof -
  obtain ss where r: "poll_slots D (bus_slots bus) m = Some (ss, m', irq)" and b: "bus' = bus\<lparr>bus_slots := ss\<rparr>"
    using assms(3) by (auto simp: poll_devices_def split: option.splits)
  have "list_all (\<lambda>s. dok (slot_device s)) (bus_slots bus)" using assms(2) by (simp add: bus_inv_def)
  from poll_slots_keeps [OF assms(1) this r] bus_ok_windows [of bus' bus] assms(2) show ?thesis
    by (auto simp: b bus_inv_def)
qed

end

section \<open>Properties\<close>

text \<open>Registering a device on a well-formed bus panics exactly when its window overlaps a
  registered one; otherwise the bus stays sorted and disjoint and has the new window in addition.\<close>

theorem bus_register_correct:
  assumes "bus_ok bus" "0 < n" "unat b + unat n < 2 ^ 64"
  shows "case bus_register bus b n d of
      None \<Rightarrow> \<exists>s\<in>set (bus_slots bus). \<exists>gpa. owns s gpa \<and> unat b \<le> unat gpa \<and> unat gpa < unat b + unat n
    | Some bus' \<Rightarrow> bus_ok bus' \<and>
        set (bus_slots bus') = insert \<lparr>slot_base = b, slot_size = n, slot_device = d\<rparr> (set (bus_slots bus)) \<and>
        (\<forall>s\<in>set (bus_slots bus). \<forall>gpa. owns s gpa \<longrightarrow> \<not> (unat b \<le> unat gpa \<and> unat gpa < unat b + unat n))"
proof -
  let ?new = "\<lparr>slot_base = b, slot_size = n, slot_device = d\<rparr>"
  have new: "slot_ok ?new" using assms(2,3) by (simp add: slot_ok_def word_less_nat_alt)
  have meet: "\<exists>gpa. owns s gpa \<and> unat b \<le> unat gpa \<and> unat gpa < unat b + unat n"
    if "s \<in> set (bus_slots bus)" "\<not> slots_apart ?new s" for s
  proof -
    have "slot_ok s" using assms(1) that(1) by (simp add: bus_ok_def list_all_iff)
    with that(2) new show ?thesis
      by (intro exI [of _ "if b \<le> slot_base s then slot_base s else b"])
         (auto simp: slots_apart_def owns_def slot_ok_def word_le_nat_alt)
  qed
  show ?thesis
  proof (cases "bus_register bus b n d")
    case None
    then obtain s where "s \<in> set (bus_slots bus)" "\<not> slots_apart ?new s"
      using bus_register_result [OF assms(1) new] by auto
    with meet [of s] None show ?thesis by (simp, blast)
  next
    case (Some bus')
    with bus_register_result [OF assms(1) new] show ?thesis
      by (fastforce simp: slots_apart_def owns_def)
  qed
qed

definition demo_bus :: "unit MmioBus" where
  "demo_bus = \<lparr>bus_slots = [\<lparr>slot_base = 0xD0000000, slot_size = 0x1000, slot_device = ()\<rparr>]\<rparr>"

lemma demo_bus_ok: "bus_ok demo_bus"
  by (simp add: demo_bus_def bus_ok_def slot_ok_def)

theorem bus_register_correct_witness:
  "\<exists>bus'. bus_register demo_bus 0xD0001000 0x1000 () = Some bus' \<and> bus_ok bus' \<and> length (bus_slots bus') = 2"
proof -
  obtain bus' where r: "bus_register demo_bus 0xD0001000 0x1000 () = Some bus'" "length (bus_slots bus') = 2"
    by (simp add: bus_register_def demo_bus_def slot_overlaps_def slot_end_def)
  have "0 < (0x1000 :: u64)" "unat (0xD0001000 :: u64) + unat (0x1000 :: u64) < 2 ^ 64" by simp_all
  from bus_register_correct [OF demo_bus_ok this, of "()"] r show ?thesis by simp
qed

text \<open>C35: on a well-formed bus the binary search of \<open>find_slot\<close> is a linear scan: it returns the only
  slot whose window contains the address, and nothing when there is none; a read that hits no
  device fills the buffer with ones and changes nothing.\<close>

theorem find_slot_scan:
  assumes "bus_ok bus"
  shows "find_slot bus gpa = map_option fst (List.find (\<lambda>(i, s). owns s gpa) (enumerate 0 (bus_slots bus))) \<and>
    (list_all (\<lambda>s. \<not> owns s gpa) (bus_slots bus) \<longrightarrow> bus_read D bus gpa data = (bus, replicate (length data) 0xFF))"
proof
  let ?e = "enumerate 0 (bus_slots bus)"
  have fe: "find_slot bus gpa = None" if "list_all (\<lambda>s. \<not> owns s gpa) (bus_slots bus)"
    using that find_slot_iff [OF assms, of gpa] by (cases "find_slot bus gpa") (auto simp: list_all_length)
  then show "list_all (\<lambda>s. \<not> owns s gpa) (bus_slots bus) \<longrightarrow> bus_read D bus gpa data = (bus, replicate (length data) 0xFF)"
    by (simp add: bus_read_def)
  show "find_slot bus gpa = map_option fst (List.find (\<lambda>(i, s). owns s gpa) ?e)"
  proof (cases "List.find (\<lambda>(i, s). owns s gpa) ?e")
    case None
    then have "list_all (\<lambda>s. \<not> owns s gpa) (bus_slots bus)"
      by (auto simp: find_None_iff list_all_length in_set_enumerate_eq)
    with None fe show ?thesis by simp
  next
    case (Some p)
    then have "p \<in> set ?e" "owns (snd p) gpa" by (auto simp: find_Some_iff intro: nth_mem)
    then have "fst p < length (bus_slots bus)" "snd p = bus_slots bus ! fst p" "owns (snd p) gpa"
      by (simp_all add: in_set_enumerate_eq)
    with find_slot_iff [OF assms, of gpa "fst p"] Some show ?thesis by simp
  qed
qed

theorem find_slot_scan_witness:
  "find_slot demo_bus 0xD0000FFF = Some 0 \<and> find_slot demo_bus 0xD0001000 = None"
  using find_slot_scan [OF demo_bus_ok, THEN conjunct1, of "0xD0000FFF"]
    find_slot_scan [OF demo_bus_ok, THEN conjunct1, of "0xD0001000"]
  by (simp add: demo_bus_def owns_def)

text \<open>An empty window is accepted on top of a registered device and then hides it: \<open>register\<close> does not
  reject it, although afterwards no access reaches the device that owned the addresses.\<close>

theorem empty_window_hides_device:
  "let bus = \<lparr>bus_slots = [\<lparr>slot_base = b, slot_size = n, slot_device = d\<rparr>]\<rparr>;
       bus' = \<lparr>bus_slots = [\<lparr>slot_base = b, slot_size = n, slot_device = d\<rparr>,
                          \<lparr>slot_base = b, slot_size = 0, slot_device = d'\<rparr>]\<rparr>
   in bus_register bus b 0 d' = Some bus' \<and> find_slot bus' gpa = None"
proof -
  let ?s = "\<lparr>slot_base = b, slot_size = n, slot_device = d\<rparr>" and ?z = "\<lparr>slot_base = b, slot_size = 0, slot_device = d'\<rparr>"
  have "partition_point (\<lambda>s. slot_base s \<le> gpa) [?s, ?z] = (if b \<le> gpa then 2 else 0)"
  proof -
    have s: "sorted_wrt (\<lambda>x y. slot_base y \<le> gpa \<longrightarrow> slot_base x \<le> gpa) [?s, ?z]" by simp
    note pp = partition_point_split [OF s]
    show ?thesis
    proof (cases "b \<le> gpa")
      case True
      then have "\<not> partition_point (\<lambda>s. slot_base s \<le> gpa) [?s, ?z] < 2"
        using pp(3) [of 1] by auto
      with pp(1) True show ?thesis by simp
    next
      case False
      then show ?thesis using pp(2) [of 0] by (cases "partition_point (\<lambda>s. slot_base s \<le> gpa) [?s, ?z]") auto
    qed
  qed
  then show ?thesis
    by (simp add: Let_def bus_register_def slot_overlaps_def find_slot_def slot_end_def not_less)
qed

end
