(* ===== verification/Mmio_Decode.thy ===== *)
theory Mmio_Decode
  imports Hal_Types
begin

text \<open>
  The x86 MMIO instruction decoder of \<open>hitz-vmm/src/mmio_decode.rs\<close>: it recognises the \<open>MOV\<close> forms
  that Linux uses for device registers and yields register, access size, immediate and instruction
  length. \<open>*bytes.get(pos)?\<close> is \<open>get_byte\<close>; an index past the end gives \<open>None\<close>.
\<close>

section \<open>Model\<close>

record DecodedMmio =
  dec_register :: u8
  dec_size :: u8
  dec_immediate :: "u32 option"
  dec_instruction_len :: u8

definition get_byte :: "bytes \<Rightarrow> nat \<Rightarrow> u8 option" where
  "get_byte bs pos = (if pos < length bs then Some (bs ! pos) else None)"

function parse_prefixes :: "bytes \<Rightarrow> nat \<Rightarrow> bool \<Rightarrow> u8 \<Rightarrow> (nat \<times> bool \<times> u8) option" where
  "parse_prefixes bs pos has_operand_size_prefix rex =
     (case get_byte bs pos of
        None \<Rightarrow> None
      | Some b \<Rightarrow>
          if b = 0x66 then parse_prefixes bs (pos + 1) True rex
          else if 0x40 \<le> b \<and> b \<le> 0x4F then parse_prefixes bs (pos + 1) has_operand_size_prefix b
          else Some (pos, has_operand_size_prefix, rex))"
  by pat_completeness auto
termination
  by (relation "measure (\<lambda>(bs, pos, h, r). length bs - pos)") (auto simp: get_byte_def split: if_splits)

declare parse_prefixes.simps [simp del]

definition needs_sib :: "u8 \<Rightarrow> bool" where
  "needs_sib modrm = (let mod_bits = drop_bit 6 modrm; rm = modrm AND 7 in rm = 4 \<and> mod_bits \<noteq> 3)"

definition displacement_size :: "u8 \<Rightarrow> bool \<Rightarrow> u8 \<Rightarrow> nat" where
  "displacement_size modrm has_sib sib =
     (let mod_bits = drop_bit 6 modrm; rm = modrm AND 7 in
      if mod_bits = 0 then (if rm = 5 then 4 else if has_sib \<and> sib AND 7 = 5 then 4 else 0)
      else if mod_bits = 1 then 1
      else if mod_bits = 2 then 4
      else 0)"

text \<open>The new position after the SIB byte and the displacement.\<close>

definition parse_sib_and_disp :: "bytes \<Rightarrow> u8 \<Rightarrow> nat \<Rightarrow> nat option" where
  "parse_sib_and_disp bs modrm pos =
     (let has_sib = needs_sib modrm in
      case (if has_sib then map_option (\<lambda>s. (s, pos + 1)) (get_byte bs pos) else Some (0, pos)) of
        None \<Rightarrow> None
      | Some (sib, pos) \<Rightarrow>
          let disp_size = displacement_size modrm has_sib sib in
          if length bs < pos + disp_size then None else Some (pos + disp_size))"

definition operand_size :: "bool \<Rightarrow> bool \<Rightarrow> bool \<Rightarrow> u8" where
  "operand_size is_byte rex_w has_operand_size_prefix =
     (if is_byte then 1 else if rex_w then 8 else if has_operand_size_prefix then 2 else 4)"

definition decode_mov_r_rm :: "u8 \<Rightarrow> bool \<Rightarrow> bool \<Rightarrow> u8 \<Rightarrow> nat \<Rightarrow> DecodedMmio" where
  "decode_mov_r_rm opcode has_operand_size_prefix rex_w reg_field pos =
     \<lparr>dec_register = reg_field, dec_size = operand_size (opcode AND 1 = 0) rex_w has_operand_size_prefix,
      dec_immediate = None, dec_instruction_len = of_nat pos\<rparr>"

definition decode_mov_rm_imm :: "bytes \<Rightarrow> bool \<Rightarrow> bool \<Rightarrow> u8 \<Rightarrow> nat \<Rightarrow> DecodedMmio option" where
  "decode_mov_rm_imm bs has_operand_size_prefix rex_w modrm pos =
     (if drop_bit 3 modrm AND 7 \<noteq> 0 then None
      else let sz = operand_size False rex_w has_operand_size_prefix;
               imm_size = (if has_operand_size_prefix \<and> \<not> rex_w then 2 else 4) in
        if length bs < pos + imm_size then None
        else Some \<lparr>dec_register = 0, dec_size = sz,
                   dec_immediate = Some (of_le_bytes (take imm_size (drop pos bs))),
                   dec_instruction_len = of_nat (pos + imm_size)\<rparr>)"

definition decode_mmio_instruction :: "bytes \<Rightarrow> DecodedMmio option" where
  "decode_mmio_instruction bs =
     (if bs = [] then None
      else case parse_prefixes bs 0 False 0 of
        None \<Rightarrow> None
      | Some (pos, has_operand_size_prefix, rex) \<Rightarrow>
          let rex_r = drop_bit 2 rex AND 1; rex_w = (drop_bit 3 rex AND 1 = 1) in
          case get_byte bs pos of
            None \<Rightarrow> None
          | Some opcode \<Rightarrow>
             (case get_byte bs (pos + 1) of
                None \<Rightarrow> None
              | Some modrm \<Rightarrow>
                  let reg_field = (drop_bit 3 modrm AND 7) OR push_bit 3 rex_r in
                  case parse_sib_and_disp bs modrm (pos + 2) of
                    None \<Rightarrow> None
                  | Some pos' \<Rightarrow>
                      if 0x88 \<le> opcode \<and> opcode \<le> 0x8B
                      then Some (decode_mov_r_rm opcode has_operand_size_prefix rex_w reg_field pos')
                      else if opcode = 0xC7
                      then decode_mov_rm_imm bs has_operand_size_prefix rex_w modrm pos'
                      else None))"

definition register_value :: "StandardRegs \<Rightarrow> u8 \<Rightarrow> u64" where
  "register_value regs idx =
     (if idx = 0 then rax regs else if idx = 1 then rcx regs else if idx = 2 then rdx regs
      else if idx = 3 then rbx regs else if idx = 4 then rsp regs else if idx = 5 then rbp regs
      else if idx = 6 then rsi regs else if idx = 7 then rdi regs else if idx = 8 then r8 regs
      else if idx = 9 then r9 regs else if idx = 10 then r10 regs else if idx = 11 then r11 regs
      else if idx = 12 then r12 regs else if idx = 13 then r13 regs else if idx = 14 then r14 regs
      else if idx = 15 then r15 regs else 0)"

definition set_register :: "StandardRegs \<Rightarrow> u8 \<Rightarrow> u64 \<Rightarrow> StandardRegs" where
  "set_register regs idx val =
     (if idx = 0 then regs\<lparr>rax := val\<rparr> else if idx = 1 then regs\<lparr>rcx := val\<rparr>
      else if idx = 2 then regs\<lparr>rdx := val\<rparr> else if idx = 3 then regs\<lparr>rbx := val\<rparr>
      else if idx = 4 then regs\<lparr>rsp := val\<rparr> else if idx = 5 then regs\<lparr>rbp := val\<rparr>
      else if idx = 6 then regs\<lparr>rsi := val\<rparr> else if idx = 7 then regs\<lparr>rdi := val\<rparr>
      else if idx = 8 then regs\<lparr>r8 := val\<rparr> else if idx = 9 then regs\<lparr>r9 := val\<rparr>
      else if idx = 10 then regs\<lparr>r10 := val\<rparr> else if idx = 11 then regs\<lparr>r11 := val\<rparr>
      else if idx = 12 then regs\<lparr>r12 := val\<rparr> else if idx = 13 then regs\<lparr>r13 := val\<rparr>
      else if idx = 14 then regs\<lparr>r14 := val\<rparr> else if idx = 15 then regs\<lparr>r15 := val\<rparr> else regs)"

section \<open>Bounds\<close>

lemma parse_prefixes_pos:
  "parse_prefixes bs pos h r = Some (pos', h', r') \<Longrightarrow> pos \<le> pos' \<and> pos' < length bs"
  by (induction bs pos h r rule: parse_prefixes.induct)
     (subst (asm) (2) parse_prefixes.simps, auto simp: get_byte_def split: if_splits)

lemma parse_sib_and_disp_pos:
  "parse_sib_and_disp bs modrm pos = Some pos' \<Longrightarrow> pos \<le> length bs \<Longrightarrow>
     pos \<le> pos' \<and> pos' \<le> length bs \<and> pos' \<le> pos + 5"
  by (auto simp: parse_sib_and_disp_def displacement_size_def Let_def get_byte_def split: option.splits if_splits)

lemma and_7: "x AND 7 = take_bit 3 x" and and_1: "x AND 1 = take_bit 1 x" for x :: u8
  by (simp_all add: take_bit_eq_mask mask_eq_exp_minus_1)

lemma reg_field_less: "(drop_bit 3 modrm AND 7) OR push_bit 3 (drop_bit 2 rex AND 1) < (16 :: u8)"
proof -
  have eq: "(drop_bit 3 modrm AND 7) OR push_bit 3 (drop_bit 2 rex AND 1) =
      take_bit 4 ((drop_bit 3 modrm AND 7) OR push_bit 3 (drop_bit 2 rex AND 1 :: u8))"
    unfolding and_7 and_1 by (rule bit_word_eqI) (auto simp: bit_simps)
  have "take_bit 4 x < 16" for x :: u8
    by (simp add: word_less_nat_alt unsigned_take_bit_eq) (simp add: take_bit_eq_mod)
  then show ?thesis by (subst eq)
qed

lemma decode_pos:
  assumes "decode_mmio_instruction bs = Some d"
  obtains pos h r modrm pos' where "parse_prefixes bs 0 False 0 = Some (pos, h, r)" "pos + 2 \<le> length bs"
    "parse_sib_and_disp bs modrm (pos + 2) = Some pos'"
    "d = decode_mov_r_rm (bs ! pos) h (drop_bit 3 r AND 1 = 1)
           ((drop_bit 3 modrm AND 7) OR push_bit 3 (drop_bit 2 r AND 1)) pos' \<or>
     decode_mov_rm_imm bs h (drop_bit 3 r AND 1 = 1) modrm pos' = Some d"
  using assms
  by (auto simp: decode_mmio_instruction_def Let_def get_byte_def split: if_splits option.splits)

section \<open>Encoding\<close>

text \<open>
  The instructions the decoder is meant for, as they are assembled: an optional operand-size prefix,
  an optional REX prefix, opcode, ModR/M, the SIB byte and displacement that ModR/M asks for, and
  the immediate of the \<open>C7\<close> form.
\<close>

record Insn =
  ins_66 :: bool
  ins_rex :: "u8 option"
  ins_op :: u8
  ins_modrm :: u8
  ins_sib :: u8
  ins_disp :: bytes
  ins_imm :: bytes

definition rex_of :: "Insn \<Rightarrow> u8" where
  "rex_of i = (case ins_rex i of None \<Rightarrow> 0 | Some r \<Rightarrow> r)"

definition insn_ok :: "Insn \<Rightarrow> bool" where
  "insn_ok i \<longleftrightarrow>
     (case ins_rex i of None \<Rightarrow> True | Some r \<Rightarrow> 0x40 \<le> r \<and> r \<le> 0x4F) \<and>
     length (ins_disp i) =
       displacement_size (ins_modrm i) (needs_sib (ins_modrm i)) (if needs_sib (ins_modrm i) then ins_sib i else 0) \<and>
     (if ins_op i = 0xC7
      then drop_bit 3 (ins_modrm i) AND 7 = 0 \<and>
           length (ins_imm i) = (if ins_66 i \<and> drop_bit 3 (rex_of i) AND 1 \<noteq> 1 then 2 else 4)
      else 0x88 \<le> ins_op i \<and> ins_op i \<le> 0x8B \<and> ins_imm i = [])"

definition encode_insn :: "Insn \<Rightarrow> bytes" where
  "encode_insn i =
     (if ins_66 i then [0x66] else []) @ (case ins_rex i of None \<Rightarrow> [] | Some r \<Rightarrow> [r]) @
     [ins_op i, ins_modrm i] @ (if needs_sib (ins_modrm i) then [ins_sib i] else []) @ ins_disp i @ ins_imm i"

definition insn_meaning :: "Insn \<Rightarrow> DecodedMmio" where
  "insn_meaning i =
     \<lparr>dec_register = (if ins_op i = 0xC7 then 0
        else (drop_bit 3 (ins_modrm i) AND 7) OR push_bit 3 (drop_bit 2 (rex_of i) AND 1)),
      dec_size = operand_size (ins_op i \<noteq> 0xC7 \<and> ins_op i AND 1 = 0) (drop_bit 3 (rex_of i) AND 1 = 1) (ins_66 i),
      dec_immediate = (if ins_op i = 0xC7 then Some (of_le_bytes (ins_imm i)) else None),
      dec_instruction_len = of_nat (length (encode_insn i))\<rparr>"

lemma get_byte_append: "get_byte (xs @ b # ys) (length xs) = Some b"
  by (simp add: get_byte_def)

lemma parse_prefix_steps:
  "get_byte bs pos = Some 0x66 \<Longrightarrow> parse_prefixes bs pos h r = parse_prefixes bs (Suc pos) True r"
  "get_byte bs pos = Some b \<Longrightarrow> b \<noteq> 0x66 \<Longrightarrow> 0x40 \<le> b \<Longrightarrow> b \<le> 0x4F \<Longrightarrow>
     parse_prefixes bs pos h r = parse_prefixes bs (Suc pos) h b"
  "get_byte bs pos = Some b \<Longrightarrow> b \<noteq> 0x66 \<Longrightarrow> \<not> (0x40 \<le> b \<and> b \<le> 0x4F) \<Longrightarrow>
     parse_prefixes bs pos h r = Some (pos, h, r)"
  by (subst parse_prefixes.simps, auto)+

lemma parse_prefixes_encode:
  assumes "insn_ok i"
  shows "parse_prefixes (encode_insn i @ rest) 0 False 0 =
    Some ((if ins_66 i then 1 else 0) + (case ins_rex i of None \<Rightarrow> 0 | Some r \<Rightarrow> 1), ins_66 i, rex_of i)"
proof -
  have op: "ins_op i \<noteq> 0x66" "\<not> (0x40 \<le> ins_op i \<and> ins_op i \<le> 0x4F)"
    using assms by (auto simp: insn_ok_def word_le_nat_alt split: if_splits)
  have rex: "r \<noteq> 0x66 \<and> 0x40 \<le> r \<and> r \<le> 0x4F" if "ins_rex i = Some r" for r
    using assms that by (auto simp: insn_ok_def word_le_nat_alt)
  show ?thesis
  proof (cases "ins_rex i")
    case None
    then show ?thesis using op
      by (cases "ins_66 i") (simp_all add: encode_insn_def rex_of_def parse_prefix_steps get_byte_def)
  next
    case (Some r)
    then show ?thesis using op rex [OF Some]
      by (cases "ins_66 i") (simp_all add: encode_insn_def rex_of_def parse_prefix_steps get_byte_def)
  qed
qed

lemma parse_sib_encode:
  assumes "length ds = displacement_size modrm (needs_sib modrm) (if needs_sib modrm then sib else 0)"
  shows "parse_sib_and_disp (pre @ (if needs_sib modrm then [sib] else []) @ ds @ rest) modrm (length pre) =
    Some (length pre + (if needs_sib modrm then 1 else 0) + length ds)"
  using assms by (auto simp: parse_sib_and_disp_def get_byte_def Let_def nth_append)

lemma decode_encode:
  assumes ok: "insn_ok i"
  shows "decode_mmio_instruction (encode_insn i @ rest) = Some (insn_meaning i)"
proof -
  let ?pre = "(if ins_66 i then [0x66] else []) @ (case ins_rex i of None \<Rightarrow> [] | Some r \<Rightarrow> [r])"
  let ?sib = "if needs_sib (ins_modrm i) then [ins_sib i] else []"
  let ?p = "length ?pre" and ?bs = "encode_insn i @ rest"
  have bs: "?bs = ?pre @ ins_op i # ins_modrm i # ?sib @ ins_disp i @ ins_imm i @ rest"
    by (simp add: encode_insn_def)
  have p: "?p = (if ins_66 i then 1 else 0) + (case ins_rex i of None \<Rightarrow> 0 | Some r \<Rightarrow> 1)"
    by (simp split: option.splits)
  have op: "get_byte ?bs ?p = Some (ins_op i)" unfolding bs by (rule get_byte_append)
  have modrm: "get_byte ?bs (?p + 1) = Some (ins_modrm i)"
    unfolding bs using get_byte_append [of "?pre @ [ins_op i]"] by simp
  have "length (ins_disp i) = displacement_size (ins_modrm i) (needs_sib (ins_modrm i))
      (if needs_sib (ins_modrm i) then ins_sib i else 0)"
    using ok by (simp add: insn_ok_def)
  from parse_sib_encode [OF this, of "?pre @ [ins_op i, ins_modrm i]" "ins_imm i @ rest"]
  have sib: "parse_sib_and_disp ?bs (ins_modrm i) (?p + 2) = Some (?p + 2 + length ?sib + length (ins_disp i))"
    unfolding bs by simp
  have ne: "?bs \<noteq> []" unfolding bs by simp
  have len: "length (encode_insn i) = ?p + 2 + length ?sib + length (ins_disp i) + length (ins_imm i)"
    by (simp add: encode_insn_def)
  have drop: "drop (?p + 2 + length ?sib + length (ins_disp i)) ?bs = ins_imm i @ rest"
    unfolding bs by simp
  define p' where "p' = ?p"
  define e where "e = ?p + 2 + length ?sib + length (ins_disp i)"
  define b where "b = ?bs"
  have f: "parse_prefixes b 0 False 0 = Some (p', ins_66 i, rex_of i)" "b \<noteq> []" "get_byte b p' = Some (ins_op i)"
    "get_byte b (p' + 1) = Some (ins_modrm i)" "parse_sib_and_disp b (ins_modrm i) (p' + 2) = Some e"
    "length (encode_insn i) = e + length (ins_imm i)" "drop e b = ins_imm i @ rest"
    unfolding p'_def e_def b_def
    by (rule parse_prefixes_encode [OF ok, of rest, folded p], rule ne, rule op, rule modrm, rule sib, rule len, rule drop)
  have lb: "e + length (ins_imm i) \<le> length b" using f(6) by (simp add: b_def)
  have "decode_mmio_instruction b = Some (insn_meaning i)"
  proof (cases "ins_op i = 0xC7")
    case True
    then have "drop_bit 3 (ins_modrm i) AND 7 = 0"
      "length (ins_imm i) = (if ins_66 i \<and> drop_bit 3 (rex_of i) AND 1 \<noteq> 1 then 2 else 4)"
      using ok by (simp_all add: insn_ok_def)
    with True f lb show ?thesis
      by (auto simp: decode_mmio_instruction_def Let_def decode_mov_rm_imm_def insn_meaning_def split: if_splits)
  next
    case False
    then have "0x88 \<le> ins_op i" "ins_op i \<le> 0x8B" "ins_imm i = []"
      using ok by (simp_all add: insn_ok_def)
    with False f show ?thesis
      by (simp add: decode_mmio_instruction_def Let_def decode_mov_r_rm_def insn_meaning_def)
  qed
  then show ?thesis by (simp only: b_def)
qed

section \<open>Properties\<close>



text \<open>C28: whatever bytes the guest executes, a decoded instruction has a register below 16, a size of 1,
  2, 4 or 8 bytes and a length of at least two bytes that stays within the fetched bytes, so
  advancing the instruction pointer by it always makes progress.\<close>

theorem decode_bounds:
  assumes "decode_mmio_instruction bs = Some d" "length bs \<le> 16"
  shows "dec_register d < 16 \<and> dec_size d \<in> {1, 2, 4, 8} \<and>
    2 \<le> unat (dec_instruction_len d) \<and> unat (dec_instruction_len d) \<le> length bs"
proof -
  obtain pos h r modrm pos' where d: "parse_prefixes bs 0 False 0 = Some (pos, h, r)" "pos + 2 \<le> length bs"
    "parse_sib_and_disp bs modrm (pos + 2) = Some pos'"
    "d = decode_mov_r_rm (bs ! pos) h (drop_bit 3 r AND 1 = 1)
           ((drop_bit 3 modrm AND 7) OR push_bit 3 (drop_bit 2 r AND 1)) pos' \<or>
     decode_mov_rm_imm bs h (drop_bit 3 r AND 1 = 1) modrm pos' = Some d"
    by (rule decode_pos [OF assms(1)])
  have p: "pos + 2 \<le> pos'" "pos' \<le> length bs" using parse_sib_and_disp_pos [OF d(3)] d(2) by auto
  have u: "unat (of_nat n :: u8) = n" if "n \<le> length bs" for n
    using that assms(2) by (intro unat_of_nat_eq) simp
  from d(4) show ?thesis
  proof
    assume "d = decode_mov_r_rm (bs ! pos) h (drop_bit 3 r AND 1 = 1)
           ((drop_bit 3 modrm AND 7) OR push_bit 3 (drop_bit 2 r AND 1)) pos'"
    then show ?thesis using p u reg_field_less [of modrm r]
      by (auto simp: decode_mov_r_rm_def operand_size_def)
  next
    assume i: "decode_mov_rm_imm bs h (drop_bit 3 r AND 1 = 1) modrm pos' = Some d"
    have "unat (of_nat pos' + 2 :: u8) = pos' + 2" if "pos' + 2 \<le> length bs"
      using u [OF that] by (simp add: add.commute)
    with i show ?thesis using p u [of "pos' + 4"]
      by (auto simp: decode_mov_rm_imm_def operand_size_def Let_def split: if_splits)
  qed
qed

theorem decode_bounds_witness:
  "decode_mmio_instruction [0xC7, 0x05, 0, 0, 0, 0, 0x78, 0x56, 0x34, 0x12] =
     Some \<lparr>dec_register = 0, dec_size = 4, dec_immediate = Some 0x12345678, dec_instruction_len = 10\<rparr> \<and>
   2 \<le> unat (10 :: u8)"
proof -
  let ?i = "\<lparr>ins_66 = False, ins_rex = None, ins_op = 0xC7, ins_modrm = 0x05, ins_sib = 0,
    ins_disp = [0, 0, 0, 0], ins_imm = [0x78, 0x56, 0x34, 0x12]\<rparr>"
  have "insn_ok ?i" by (simp add: insn_ok_def displacement_size_def needs_sib_def Let_def rex_of_def)
  from decode_encode [OF this, of "[]"]
  have e: "decode_mmio_instruction [0xC7, 0x05, 0, 0, 0, 0, 0x78, 0x56, 0x34, 0x12] =
     Some \<lparr>dec_register = 0, dec_size = 4, dec_immediate = Some 0x12345678, dec_instruction_len = 10\<rparr>"
    by (simp add: encode_insn_def insn_meaning_def rex_of_def operand_size_def needs_sib_def Let_def)
  from decode_bounds [OF this] e show ?thesis by simp
qed

text \<open>The register file behaves as sixteen independent registers: a write is read back, changes no
  other register, and never touches the instruction pointer or the flags.\<close>

lemma set_register_laws:
  "register_value (set_register regs i v) j = (if i = j \<and> i < 16 then v else register_value regs j) \<and>
   rip (set_register regs i v) = rip regs \<and> rflags (set_register regs i v) = rflags regs"
proof -
  have lt: "i < 16 \<longleftrightarrow> i \<in> {0, 1, 2, 3, 4, 5, 6, 7, 8, 9, 10, 11, 12, 13, 14, 15}" for i :: u8
  proof
    assume "i < 16"
    then have "unat i < 16" by (simp add: word_less_nat_alt)
    then have "unat i \<in> set [0..<16]" by simp
    then have "of_nat (unat i) \<in> (of_nat ` set [0..<16] :: u8 set)" by blast
    then show "i \<in> {0, 1, 2, 3, 4, 5, 6, 7, 8, 9, 10, 11, 12, 13, 14, 15}"
      by (simp add: upt_conv_Cons)
  qed (auto simp: word_less_nat_alt)
  show ?thesis
  proof (cases "i < 16")
    case True
    then show ?thesis unfolding lt by (auto simp: set_register_def register_value_def)
  next
    case False
    then show ?thesis using lt [of i] by (simp add: set_register_def)
  qed
qed

end
