(* ===== verification/Serial_Device.thy ===== *)
theory Serial_Device
  imports Hal_Types
begin

text \<open>
  The COM1 serial device of \<open>hitz-devices/src/serial.rs\<close>: the port range and the translation of port
  accesses to UART register accesses. The UART is the \<open>vm_superio\<close> crate, a parameter: its two
  operations over UART states \<open>'u\<close>. A failed register write is logged and dropped.
\<close>

record 'u Serial =
  uart_write :: "'u \<Rightarrow> u8 \<Rightarrow> u8 \<Rightarrow> 'u \<times> (string + unit)"
  uart_read :: "'u \<Rightarrow> u8 \<Rightarrow> 'u \<times> u8"

definition COM1_BASE :: u16 where
  "COM1_BASE = 0x3F8"

definition UART_PORT_COUNT :: u16 where
  "UART_PORT_COUNT = 8"

definition handles_port :: "u16 \<Rightarrow> bool" where
  "handles_port port \<longleftrightarrow> COM1_BASE \<le> port \<and> port < COM1_BASE + UART_PORT_COUNT"

definition pio_write :: "'u Serial \<Rightarrow> 'u \<Rightarrow> u16 \<Rightarrow> u8 \<Rightarrow> 'u" where
  "pio_write S u port val = (let offset = ucast (port - COM1_BASE) in fst (uart_write S u offset val))"

definition pio_read :: "'u Serial \<Rightarrow> 'u \<Rightarrow> u16 \<Rightarrow> 'u \<times> u8" where
  "pio_read S u port = (let offset = ucast (port - COM1_BASE) in uart_read S u offset)"

text \<open>The callers test \<open>handles_port\<close> first, so the subtraction and the narrowing lose nothing.\<close>

lemma handles_port_offset:
  assumes "handles_port port"
  shows "unat (ucast (port - COM1_BASE) :: u8) = unat port - 0x3F8" "unat port - 0x3F8 < 8" "0x3F8 \<le> unat port"
proof -
  have p: "0x3F8 \<le> unat port" "unat port < 0x400"
    using assms by (simp_all add: handles_port_def COM1_BASE_def UART_PORT_COUNT_def word_le_nat_alt word_less_nat_alt)
  then have u: "unat (port - COM1_BASE) = unat port - 0x3F8"
    by (simp add: COM1_BASE_def unat_sub_if' )
  have "unat (ucast (port - COM1_BASE) :: u8) = unat (port - COM1_BASE) mod 256"
    by (simp add: unsigned_ucast_eq unsigned_take_bit_eq take_bit_eq_mod)
  with u p show "unat (ucast (port - COM1_BASE) :: u8) = unat port - 0x3F8" by simp
  show "unat port - 0x3F8 < 8" "0x3F8 \<le> unat port" using p by simp_all
qed

end
