(* ===== verification/Whp_Vcpu.thy ===== *)
theory Whp_Vcpu
  imports Hal_Vcpu
begin

text \<open>
  The Windows Hypervisor Platform vCPU: \<open>hitz-whp/src/convert.rs\<close> (register and exit conversions) and
  \<open>hitz-whp/src/vcpu.rs\<close> (the implementation of \<open>Vcpu\<close>). The platform itself is the record \<open>WhpApi\<close>, one
  field per API call or constant, over platform states \<open>'w\<close>; an error of a call is its message. A
  \<open>WHV_REGISTER_VALUE\<close> is a C union of 16 bytes, modelled as a 128-bit word: \<open>Reg64\<close> is its low half,
  and the fields of \<open>Segment\<close> and \<open>Table\<close> lie at the offsets that \<open>repr(C)\<close> gives their declaration order.
\<close>

section \<open>Platform types\<close>

type_synonym WHV_REGISTER_VALUE = "128 word"

datatype WHV_REGISTER_NAME =
    WHvX64RegisterRip | WHvX64RegisterRflags
  | WHvX64RegisterRax | WHvX64RegisterRbx | WHvX64RegisterRcx | WHvX64RegisterRdx
  | WHvX64RegisterRsi | WHvX64RegisterRdi | WHvX64RegisterRsp | WHvX64RegisterRbp
  | WHvX64RegisterR8 | WHvX64RegisterR9 | WHvX64RegisterR10 | WHvX64RegisterR11
  | WHvX64RegisterR12 | WHvX64RegisterR13 | WHvX64RegisterR14 | WHvX64RegisterR15
  | WHvX64RegisterCr0 | WHvX64RegisterCr3 | WHvX64RegisterCr4 | WHvX64RegisterEfer
  | WHvX64RegisterCs | WHvX64RegisterDs | WHvX64RegisterEs | WHvX64RegisterFs
  | WHvX64RegisterGs | WHvX64RegisterSs | WHvX64RegisterTr | WHvX64RegisterLdtr
  | WHvX64RegisterGdtr | WHvX64RegisterIdtr
  | WHvRegisterPendingInterruption | WHvX64RegisterDeliverabilityNotifications

record WHV_X64_SEGMENT_REGISTER =
  wseg_Base :: u64
  wseg_Limit :: u32
  wseg_Selector :: u16
  wseg_Attributes :: u16

record WHV_X64_TABLE_REGISTER =
  wtab_Pad :: "u16 list"
  wtab_Limit :: u16
  wtab_Base :: u64

text \<open>The exit context: the union member that belongs to the exit reason is read, both are fields.\<close>

record WHV_MEMORY_ACCESS_CONTEXT =
  mac_InstructionByteCount :: u8
  mac_InstructionBytes :: bytes
  mac_AccessInfo :: u32
  mac_Gpa :: u64

record WHV_X64_IO_PORT_ACCESS_CONTEXT =
  iac_AccessInfo :: u32
  iac_PortNumber :: u16
  iac_Rax :: u64

record WHV_RUN_VP_EXIT_CONTEXT =
  ctx_ExitReason :: u32
  ctx_VpContext_bitfield :: u8
  ctx_MemoryAccess :: WHV_MEMORY_ACCESS_CONTEXT
  ctx_IoPortAccess :: WHV_X64_IO_PORT_ACCESS_CONTEXT

record ('w, 'm) WhpApi =
  WHvCreateVirtualProcessor :: "'w \<Rightarrow> u32 \<Rightarrow> 'w \<times> (string + unit)"
  WHvDeleteVirtualProcessor :: "'w \<Rightarrow> u32 \<Rightarrow> 'w \<times> (string + unit)"
  WHvCancelRunVirtualProcessor :: "'w \<Rightarrow> u32 \<Rightarrow> 'w \<times> (string + unit)"
  WHvRunVirtualProcessor :: "'w \<Rightarrow> u32 \<Rightarrow> 'm \<Rightarrow> 'w \<times> 'm \<times> (string + WHV_RUN_VP_EXIT_CONTEXT)"
  WHvGetVirtualProcessorRegisters ::
    "'w \<Rightarrow> u32 \<Rightarrow> WHV_REGISTER_NAME list \<Rightarrow> string + WHV_REGISTER_VALUE list"
  WHvSetVirtualProcessorRegisters ::
    "'w \<Rightarrow> u32 \<Rightarrow> WHV_REGISTER_NAME list \<Rightarrow> WHV_REGISTER_VALUE list \<Rightarrow> 'w \<times> (string + unit)"
  whv_register_code :: "WHV_REGISTER_NAME \<Rightarrow> nat"
  WHvRunVpExitReasonMemoryAccess :: u32
  WHvRunVpExitReasonX64IoPortAccess :: u32
  WHvRunVpExitReasonX64Halt :: u32
  WHvRunVpExitReasonX64InterruptWindow :: u32
  WHvRunVpExitReasonCanceled :: u32
  WHvRunVpExitReasonUnrecoverableException :: u32

section \<open>Conversions\<close>

definition reg64_val :: "u64 \<Rightarrow> WHV_REGISTER_VALUE" where
  "reg64_val val = ucast val"

definition val_Reg64 :: "WHV_REGISTER_VALUE \<Rightarrow> u64" where
  "val_Reg64 v = ucast v"

definition set_Segment :: "WHV_X64_SEGMENT_REGISTER \<Rightarrow> WHV_REGISTER_VALUE" where
  "set_Segment s = ucast (wseg_Base s) OR push_bit 64 (ucast (wseg_Limit s)) OR
     push_bit 96 (ucast (wseg_Selector s)) OR push_bit 112 (ucast (wseg_Attributes s))"

definition val_Segment :: "WHV_REGISTER_VALUE \<Rightarrow> WHV_X64_SEGMENT_REGISTER" where
  "val_Segment v = \<lparr>wseg_Base = ucast v, wseg_Limit = ucast (drop_bit 64 v),
     wseg_Selector = ucast (drop_bit 96 v), wseg_Attributes = ucast (drop_bit 112 v)\<rparr>"

definition set_Table :: "WHV_X64_TABLE_REGISTER \<Rightarrow> WHV_REGISTER_VALUE" where
  "set_Table t = ucast (wtab_Pad t ! 0) OR push_bit 16 (ucast (wtab_Pad t ! 1)) OR
     push_bit 32 (ucast (wtab_Pad t ! 2)) OR push_bit 48 (ucast (wtab_Limit t)) OR push_bit 64 (ucast (wtab_Base t))"

definition val_Table :: "WHV_REGISTER_VALUE \<Rightarrow> WHV_X64_TABLE_REGISTER" where
  "val_Table v = \<lparr>wtab_Pad = [ucast v, ucast (drop_bit 16 v), ucast (drop_bit 32 v)],
     wtab_Limit = ucast (drop_bit 48 v), wtab_Base = ucast (drop_bit 64 v)\<rparr>"

definition STANDARD_REG_NAMES :: "WHV_REGISTER_NAME list" where
  "STANDARD_REG_NAMES =
     [WHvX64RegisterRip, WHvX64RegisterRflags, WHvX64RegisterRax, WHvX64RegisterRbx,
      WHvX64RegisterRcx, WHvX64RegisterRdx, WHvX64RegisterRsi, WHvX64RegisterRdi,
      WHvX64RegisterRsp, WHvX64RegisterRbp, WHvX64RegisterR8, WHvX64RegisterR9,
      WHvX64RegisterR10, WHvX64RegisterR11, WHvX64RegisterR12, WHvX64RegisterR13,
      WHvX64RegisterR14, WHvX64RegisterR15]"

definition values_to_standard_regs :: "WHV_REGISTER_VALUE list \<Rightarrow> StandardRegs" where
  "values_to_standard_regs v =
     \<lparr>rip = val_Reg64 (v ! 0), rflags = val_Reg64 (v ! 1), rax = val_Reg64 (v ! 2), rbx = val_Reg64 (v ! 3),
      rcx = val_Reg64 (v ! 4), rdx = val_Reg64 (v ! 5), rsi = val_Reg64 (v ! 6), rdi = val_Reg64 (v ! 7),
      rsp = val_Reg64 (v ! 8), rbp = val_Reg64 (v ! 9), r8 = val_Reg64 (v ! 10), r9 = val_Reg64 (v ! 11),
      r10 = val_Reg64 (v ! 12), r11 = val_Reg64 (v ! 13), r12 = val_Reg64 (v ! 14), r13 = val_Reg64 (v ! 15),
      r14 = val_Reg64 (v ! 16), r15 = val_Reg64 (v ! 17)\<rparr>"

definition standard_regs_to_values :: "StandardRegs \<Rightarrow> WHV_REGISTER_VALUE list" where
  "standard_regs_to_values regs =
     [reg64_val (rip regs), reg64_val (rflags regs), reg64_val (rax regs), reg64_val (rbx regs),
      reg64_val (rcx regs), reg64_val (rdx regs), reg64_val (rsi regs), reg64_val (rdi regs),
      reg64_val (rsp regs), reg64_val (rbp regs), reg64_val (r8 regs), reg64_val (r9 regs),
      reg64_val (r10 regs), reg64_val (r11 regs), reg64_val (r12 regs), reg64_val (r13 regs),
      reg64_val (r14 regs), reg64_val (r15 regs)]"

definition SPECIAL_REG_NAMES :: "WHV_REGISTER_NAME list" where
  "SPECIAL_REG_NAMES =
     [WHvX64RegisterCr0, WHvX64RegisterCr3, WHvX64RegisterCr4, WHvX64RegisterEfer,
      WHvX64RegisterCs, WHvX64RegisterDs, WHvX64RegisterEs, WHvX64RegisterFs,
      WHvX64RegisterGs, WHvX64RegisterSs, WHvX64RegisterTr, WHvX64RegisterLdtr,
      WHvX64RegisterGdtr, WHvX64RegisterIdtr]"

definition whp_seg_to_hal :: "WHV_X64_SEGMENT_REGISTER \<Rightarrow> SegmentDescriptor" where
  "whp_seg_to_hal seg =
     (let attrs = wseg_Attributes seg in
      \<lparr>seg_base = wseg_Base seg, seg_limit = wseg_Limit seg, seg_selector = wseg_Selector seg,
       seg_type = ucast (attrs AND 0xF), seg_present = ucast (drop_bit 7 attrs AND 1),
       seg_dpl = ucast (drop_bit 5 attrs AND 3), seg_db = ucast (drop_bit 14 attrs AND 1),
       seg_granularity = ucast (drop_bit 15 attrs AND 1), seg_long_mode = ucast (drop_bit 13 attrs AND 1),
       seg_s = ucast (drop_bit 4 attrs AND 1)\<rparr>)"

definition hal_seg_to_whp :: "SegmentDescriptor \<Rightarrow> WHV_X64_SEGMENT_REGISTER" where
  "hal_seg_to_whp seg =
     (let attrs = ucast (seg_type seg AND 0xF) OR push_bit 4 (ucast (seg_s seg AND 1)) OR
            push_bit 5 (ucast (seg_dpl seg AND 3)) OR push_bit 7 (ucast (seg_present seg AND 1)) OR
            push_bit 13 (ucast (seg_long_mode seg AND 1)) OR push_bit 14 (ucast (seg_db seg AND 1)) OR
            push_bit 15 (ucast (seg_granularity seg AND 1)) in
      \<lparr>wseg_Base = seg_base seg, wseg_Limit = seg_limit seg, wseg_Selector = seg_selector seg,
       wseg_Attributes = attrs\<rparr>)"

definition whp_table_to_hal :: "WHV_X64_TABLE_REGISTER \<Rightarrow> DescriptorTable" where
  "whp_table_to_hal t = \<lparr>dt_base = wtab_Base t, dt_limit = wtab_Limit t\<rparr>"

definition hal_table_to_whp :: "DescriptorTable \<Rightarrow> WHV_X64_TABLE_REGISTER" where
  "hal_table_to_whp t = \<lparr>wtab_Pad = [0, 0, 0], wtab_Limit = dt_limit t, wtab_Base = dt_base t\<rparr>"

definition values_to_special_regs :: "WHV_REGISTER_VALUE list \<Rightarrow> SpecialRegs" where
  "values_to_special_regs v =
     \<lparr>cr0 = val_Reg64 (v ! 0), cr3 = val_Reg64 (v ! 1), cr4 = val_Reg64 (v ! 2), efer = val_Reg64 (v ! 3),
      seg_cs = whp_seg_to_hal (val_Segment (v ! 4)), seg_ds = whp_seg_to_hal (val_Segment (v ! 5)),
      seg_es = whp_seg_to_hal (val_Segment (v ! 6)), seg_fs = whp_seg_to_hal (val_Segment (v ! 7)),
      seg_gs = whp_seg_to_hal (val_Segment (v ! 8)), seg_ss = whp_seg_to_hal (val_Segment (v ! 9)),
      seg_tr = whp_seg_to_hal (val_Segment (v ! 10)), seg_ldt = whp_seg_to_hal (val_Segment (v ! 11)),
      dt_gdt = whp_table_to_hal (val_Table (v ! 12)), dt_idt = whp_table_to_hal (val_Table (v ! 13))\<rparr>"

definition special_regs_to_values :: "SpecialRegs \<Rightarrow> WHV_REGISTER_VALUE list" where
  "special_regs_to_values sregs =
     [reg64_val (cr0 sregs), reg64_val (cr3 sregs), reg64_val (cr4 sregs), reg64_val (efer sregs),
      set_Segment (hal_seg_to_whp (seg_cs sregs)), set_Segment (hal_seg_to_whp (seg_ds sregs)),
      set_Segment (hal_seg_to_whp (seg_es sregs)), set_Segment (hal_seg_to_whp (seg_fs sregs)),
      set_Segment (hal_seg_to_whp (seg_gs sregs)), set_Segment (hal_seg_to_whp (seg_ss sregs)),
      set_Segment (hal_seg_to_whp (seg_tr sregs)), set_Segment (hal_seg_to_whp (seg_ldt sregs)),
      set_Table (hal_table_to_whp (dt_gdt sregs)), set_Table (hal_table_to_whp (dt_idt sregs))]"

definition is_memory_write :: "u32 \<Rightarrow> bool" where
  "is_memory_write info \<longleftrightarrow> info AND 3 = 1"

definition is_io_write :: "u32 \<Rightarrow> bool" where
  "is_io_write info \<longleftrightarrow> info AND 1 \<noteq> 0"

definition io_access_size :: "u32 \<Rightarrow> u8" where
  "io_access_size info = ucast (drop_bit 1 info AND 7)"

definition exit_context_to_hal :: "('w, 'm) WhpApi \<Rightarrow> WHV_RUN_VP_EXIT_CONTEXT \<Rightarrow> HalError + VcpuExit" where
  "exit_context_to_hal A ctx =
     (let reason = ctx_ExitReason ctx; instruction_len = ctx_VpContext_bitfield ctx AND 0x0F in
      if reason = WHvRunVpExitReasonMemoryAccess A then
        let mem = ctx_MemoryAccess ctx;
            count = min (unat (mac_InstructionByteCount mem)) 16 in
        Inr (ExitMmio \<lparr>mmio_gpa = mac_Gpa mem, mmio_data = replicate 8 0, mmio_len = 0,
          mmio_is_write = is_memory_write (mac_AccessInfo mem), mmio_instruction_len = instruction_len,
          mmio_instruction_bytes = copy_at (replicate 16 0) 0 (take count (mac_InstructionBytes mem)),
          mmio_instruction_byte_count = mac_InstructionByteCount mem\<rparr>)
      else if reason = WHvRunVpExitReasonX64IoPortAccess A then
        let io = ctx_IoPortAccess ctx;
            is_write = is_io_write (iac_AccessInfo io);
            access_size = io_access_size (iac_AccessInfo io) in
        if 4 < access_size then Inl (VcpuRun (''invalid I/O port access size: '' @ show_dec (unat access_size)))
        else Inr (ExitIoPort \<lparr>io_port = iac_PortNumber io,
          io_data = (if is_write then copy_at (replicate 4 0) 0 (take (min (unat access_size) 4) (le_bytes 8 (iac_Rax io)))
                     else replicate 4 0),
          io_len = access_size, io_is_write = is_write, io_instruction_len = instruction_len\<rparr>)
      else if reason = WHvRunVpExitReasonX64Halt A then Inr ExitHalt
      else if reason = WHvRunVpExitReasonX64InterruptWindow A then Inr ExitInterruptWindow
      else if reason = WHvRunVpExitReasonCanceled A then Inr ExitCanceled
      else if reason = WHvRunVpExitReasonUnrecoverableException A then Inr ExitShutdown
      else Inr (ExitUnknown reason))"

section \<open>The vCPU\<close>

text \<open>A vCPU is its index in a partition; the platform state \<open>w\<close> behind the shared partition handle is
  threaded through the calls.\<close>

definition whp_new :: "('w, 'm) WhpApi \<Rightarrow> 'w \<Rightarrow> u32 \<Rightarrow> 'w \<times> (HalError + u32)" where
  "whp_new A w index =
     (case WHvCreateVirtualProcessor A w index of
        (w', Inl e) \<Rightarrow> (w', Inl (CreateVcpu index (''WHvCreateVirtualProcessor: '' @ e)))
      | (w', Inr _) \<Rightarrow> (w', Inr index))"

definition whp_drop :: "('w, 'm) WhpApi \<Rightarrow> 'w \<Rightarrow> u32 \<Rightarrow> 'w" where
  "whp_drop A w index = fst (WHvDeleteVirtualProcessor A w index)"

definition whp_cancel :: "('w, 'm) WhpApi \<Rightarrow> u32 \<Rightarrow> 'w \<Rightarrow> 'w \<times> (HalError + unit)" where
  "whp_cancel A index w =
     (case WHvCancelRunVirtualProcessor A w index of
        (w', r) \<Rightarrow> (w', map_err (\<lambda>e. VcpuCancel (''WHvCancelRunVirtualProcessor: '' @ e)) r))"

definition whp_run :: "('w, 'm) WhpApi \<Rightarrow> u32 \<Rightarrow> 'w \<Rightarrow> 'm \<Rightarrow> 'w \<times> 'm \<times> (HalError + VcpuExit)" where
  "whp_run A index w m =
     (case WHvRunVirtualProcessor A w index m of
        (w', m', Inl e) \<Rightarrow> (w', m', Inl (VcpuRun (''WHvRunVirtualProcessor: '' @ e)))
      | (w', m', Inr ctx) \<Rightarrow> (w', m', exit_context_to_hal A ctx))"

definition whp_get_regs :: "('w, 'm) WhpApi \<Rightarrow> u32 \<Rightarrow> 'w \<Rightarrow> HalError + StandardRegs" where
  "whp_get_regs A index w =
     (case WHvGetVirtualProcessorRegisters A w index STANDARD_REG_NAMES of
        Inl e \<Rightarrow> Inl (RegisterAccess (''get standard regs: '' @ e))
      | Inr vals \<Rightarrow> Inr (values_to_standard_regs vals))"

definition whp_set_regs :: "('w, 'm) WhpApi \<Rightarrow> u32 \<Rightarrow> 'w \<Rightarrow> StandardRegs \<Rightarrow> 'w \<times> (HalError + unit)" where
  "whp_set_regs A index w regs =
     (case WHvSetVirtualProcessorRegisters A w index STANDARD_REG_NAMES (standard_regs_to_values regs) of
        (w', r) \<Rightarrow> (w', map_err (\<lambda>e. RegisterAccess (''set standard regs: '' @ e)) r))"

definition whp_get_sregs :: "('w, 'm) WhpApi \<Rightarrow> u32 \<Rightarrow> 'w \<Rightarrow> HalError + SpecialRegs" where
  "whp_get_sregs A index w =
     (case WHvGetVirtualProcessorRegisters A w index SPECIAL_REG_NAMES of
        Inl e \<Rightarrow> Inl (RegisterAccess (''get special regs: '' @ e))
      | Inr vals \<Rightarrow> Inr (values_to_special_regs vals))"

definition whp_inject_interrupt :: "('w, 'm) WhpApi \<Rightarrow> u32 \<Rightarrow> 'w \<Rightarrow> u8 \<Rightarrow> 'w \<times> (HalError + unit)" where
  "whp_inject_interrupt A index w vector =
     (case WHvSetVirtualProcessorRegisters A w index [WHvRegisterPendingInterruption]
             [reg64_val (1 OR push_bit 16 (ucast vector))] of
        (w', r) \<Rightarrow> (w', map_err (\<lambda>e. InjectInterrupt (''WHvSetVirtualProcessorRegisters: '' @ e)) r))"

definition whp_request_interrupt_window :: "('w, 'm) WhpApi \<Rightarrow> u32 \<Rightarrow> 'w \<Rightarrow> 'w \<times> (HalError + unit)" where
  "whp_request_interrupt_window A index w =
     (case WHvSetVirtualProcessorRegisters A w index [WHvX64RegisterDeliverabilityNotifications] [reg64_val 1] of
        (w', r) \<Rightarrow> (w', map_err (\<lambda>e. RegisterAccess (''set DeliverabilityNotifications: '' @ e)) r))"

fun whp_set_each ::
  "('w, 'm) WhpApi \<Rightarrow> u32 \<Rightarrow> 'w \<Rightarrow> (WHV_REGISTER_NAME \<times> WHV_REGISTER_VALUE) list \<Rightarrow> 'w \<times> (HalError + unit)" where
  "whp_set_each A index w [] = (w, Inr ())"
| "whp_set_each A index w ((n, v) # nvs) =
     (case WHvSetVirtualProcessorRegisters A w index [n] [v] of
        (w', Inl e) \<Rightarrow>
          (w', Inl (RegisterAccess (''set special reg '' @ show_dec (whv_register_code A n) @ '': '' @ e)))
      | (w', Inr _) \<Rightarrow> whp_set_each A index w' nvs)"

definition whp_set_sregs :: "('w, 'm) WhpApi \<Rightarrow> u32 \<Rightarrow> 'w \<Rightarrow> SpecialRegs \<Rightarrow> 'w \<times> (HalError + unit)" where
  "whp_set_sregs A index w sregs =
     whp_set_each A index w (zip SPECIAL_REG_NAMES (special_regs_to_values sregs))"

definition whp_vcpu :: "('w, 'm) WhpApi \<Rightarrow> u32 \<Rightarrow> ('w, 'm) Vcpu" where
  "whp_vcpu A index = \<lparr>vc_run = whp_run A index, vc_cancel = whp_cancel A index,
     vc_get_regs = whp_get_regs A index, vc_set_regs = whp_set_regs A index,
     vc_get_sregs = whp_get_sregs A index, vc_set_sregs = whp_set_sregs A index,
     vc_inject_interrupt = whp_inject_interrupt A index,
     vc_request_interrupt_window = whp_request_interrupt_window A index\<rparr>"

section \<open>Round trips of the conversions\<close>

lemma val_Reg64_reg64_val [simp]: "val_Reg64 (reg64_val v) = v"
  by (simp add: val_Reg64_def reg64_val_def bit_eq_iff bit_simps)

lemma val_Segment_set_Segment [simp]: "val_Segment (set_Segment s) = s"
  by (cases s) (auto simp: val_Segment_def set_Segment_def bit_eq_iff bit_simps dest: bit_imp_le_length)

lemma table_roundtrip [simp]: "whp_table_to_hal (val_Table (set_Table (hal_table_to_whp t))) = t"
  by (cases t) (auto simp: val_Table_def set_Table_def whp_table_to_hal_def hal_table_to_whp_def
    bit_eq_iff bit_simps dest: bit_imp_le_length)

text \<open>A segment comes back with every attribute cut to the width of its field.\<close>

definition seg_norm :: "SegmentDescriptor \<Rightarrow> SegmentDescriptor" where
  "seg_norm s = s\<lparr>seg_type := seg_type s AND 0xF, seg_present := seg_present s AND 1, seg_dpl := seg_dpl s AND 3,
     seg_db := seg_db s AND 1, seg_granularity := seg_granularity s AND 1, seg_long_mode := seg_long_mode s AND 1,
     seg_s := seg_s s AND 1\<rparr>"

lemma bit_and_masks:
  "bit (x AND 0xF) n \<longleftrightarrow> n < 4 \<and> bit x n" "bit (x AND 1) n \<longleftrightarrow> n = 0 \<and> bit x n"
  "bit (x AND 3) n \<longleftrightarrow> n < 2 \<and> bit x n" "bit (x AND 7) n \<longleftrightarrow> n < 3 \<and> bit x n"
  for x :: "'a::len word"
proof -
  have "x AND 0xF = take_bit 4 x" "x AND 1 = take_bit 1 x" "x AND 3 = take_bit 2 x" "x AND 7 = take_bit 3 x"
    by (simp_all add: take_bit_eq_mask mask_eq_exp_minus_1)
  then show "bit (x AND 0xF) n \<longleftrightarrow> n < 4 \<and> bit x n" "bit (x AND 1) n \<longleftrightarrow> n = 0 \<and> bit x n"
    "bit (x AND 3) n \<longleftrightarrow> n < 2 \<and> bit x n" "bit (x AND 7) n \<longleftrightarrow> n < 3 \<and> bit x n"
    by (simp_all only: bit_take_bit_iff less_one)
qed

lemma seg_roundtrip [simp]: "whp_seg_to_hal (hal_seg_to_whp s) = seg_norm s"
proof -
  note b = bit_and_masks bit_ucast_iff bit_or_iff bit_push_bit_iff bit_drop_bit_eq comp_def len_num1 len_bit0
  have "ucast (wseg_Attributes (hal_seg_to_whp s) AND 0xF) = seg_type s AND 0xF"
    "ucast (drop_bit 7 (wseg_Attributes (hal_seg_to_whp s)) AND 1) = seg_present s AND 1"
    "ucast (drop_bit 5 (wseg_Attributes (hal_seg_to_whp s)) AND 3) = seg_dpl s AND 3"
    "ucast (drop_bit 14 (wseg_Attributes (hal_seg_to_whp s)) AND 1) = seg_db s AND 1"
    "ucast (drop_bit 15 (wseg_Attributes (hal_seg_to_whp s)) AND 1) = seg_granularity s AND 1"
    "ucast (drop_bit 13 (wseg_Attributes (hal_seg_to_whp s)) AND 1) = seg_long_mode s AND 1"
    "ucast (drop_bit 4 (wseg_Attributes (hal_seg_to_whp s)) AND 1) = seg_s s AND 1"
    by (rule bit_word_eqI, auto simp del: and_one_eq bit_0 simp: hal_seg_to_whp_def Let_def b)+
  then show ?thesis
    by (simp add: whp_seg_to_hal_def seg_norm_def Let_def del: and_one_eq)
       (simp add: hal_seg_to_whp_def Let_def del: and_one_eq)
qed

lemma standard_regs_roundtrip [simp]: "values_to_standard_regs (standard_regs_to_values r) = r"
  by (cases r) (simp add: values_to_standard_regs_def standard_regs_to_values_def)

definition sregs_norm :: "SpecialRegs \<Rightarrow> SpecialRegs" where
  "sregs_norm s = s\<lparr>seg_cs := seg_norm (seg_cs s), seg_ds := seg_norm (seg_ds s), seg_es := seg_norm (seg_es s),
     seg_fs := seg_norm (seg_fs s), seg_gs := seg_norm (seg_gs s), seg_ss := seg_norm (seg_ss s),
     seg_tr := seg_norm (seg_tr s), seg_ldt := seg_norm (seg_ldt s)\<rparr>"

lemma special_regs_roundtrip [simp]: "values_to_special_regs (special_regs_to_values s) = sregs_norm s"
  by (cases s) (simp add: values_to_special_regs_def special_regs_to_values_def sregs_norm_def)

section \<open>Contract of the platform\<close>

text \<open>
  What the code relies on, for the vCPU \<open>index\<close> of a partition: while the vCPU exists (\<open>live\<close>), reading
  returns the registers and writing replaces the named ones or, when the call fails, none; the
  general registers can always be written; an armed deliverability notification (bit 0) stays
  armed until the exit it asks for, or a cancelled run; the exit reasons are different codes.
\<close>

definition reg_update ::
  "(WHV_REGISTER_NAME \<Rightarrow> WHV_REGISTER_VALUE) \<Rightarrow> WHV_REGISTER_NAME list \<Rightarrow> WHV_REGISTER_VALUE list \<Rightarrow>
   WHV_REGISTER_NAME \<Rightarrow> WHV_REGISTER_VALUE" where
  "reg_update r ns vs = (\<lambda>n. case map_of (zip ns vs) n of Some v \<Rightarrow> v | None \<Rightarrow> r n)"

locale whp_api =
  fixes A :: "('w, 'm) WhpApi" and index :: u32
    and live :: "'w \<Rightarrow> bool" and reg :: "'w \<Rightarrow> WHV_REGISTER_NAME \<Rightarrow> WHV_REGISTER_VALUE"
  assumes get_registers: "live w \<Longrightarrow> WHvGetVirtualProcessorRegisters A w index ns = Inr (map (reg w) ns)"
    and set_registers: "live w \<Longrightarrow> length ns = length vs \<Longrightarrow> distinct ns \<Longrightarrow>
          WHvSetVirtualProcessorRegisters A w index ns vs = (w', res) \<Longrightarrow>
          live w' \<and> reg w' = (case res of Inl e \<Rightarrow> reg w | Inr _ \<Rightarrow> reg_update (reg w) ns vs)"
    and set_standard: "live w \<Longrightarrow> length vs = length STANDARD_REG_NAMES \<Longrightarrow>
          \<exists>w'. WHvSetVirtualProcessorRegisters A w index STANDARD_REG_NAMES vs = (w', Inr ())"
    and run_registers: "live w \<Longrightarrow> WHvRunVirtualProcessor A w index m = (w', m', ex) \<Longrightarrow>
          live w' \<and>
          (bit (reg w WHvX64RegisterDeliverabilityNotifications) 0 \<longrightarrow>
             bit (reg w' WHvX64RegisterDeliverabilityNotifications) 0 \<or> (\<exists>e. ex = Inl e) \<or>
             (\<exists>ctx. ex = Inr ctx \<and>
                (ctx_ExitReason ctx = WHvRunVpExitReasonX64InterruptWindow A \<or>
                 ctx_ExitReason ctx = WHvRunVpExitReasonCanceled A)))"
    and reasons: "distinct [WHvRunVpExitReasonMemoryAccess A, WHvRunVpExitReasonX64IoPortAccess A,
          WHvRunVpExitReasonX64Halt A, WHvRunVpExitReasonX64InterruptWindow A, WHvRunVpExitReasonCanceled A,
          WHvRunVpExitReasonUnrecoverableException A]"

definition whp_vregs :: "('w \<Rightarrow> WHV_REGISTER_NAME \<Rightarrow> WHV_REGISTER_VALUE) \<Rightarrow> 'w \<Rightarrow> StandardRegs" where
  "whp_vregs reg w = values_to_standard_regs (map (reg w) STANDARD_REG_NAMES)"

definition whp_vwin :: "('w \<Rightarrow> WHV_REGISTER_NAME \<Rightarrow> WHV_REGISTER_VALUE) \<Rightarrow> 'w \<Rightarrow> bool" where
  "whp_vwin reg w = bit (reg w WHvX64RegisterDeliverabilityNotifications) 0"

lemma standard_names:
  "distinct STANDARD_REG_NAMES" "length STANDARD_REG_NAMES = 18"
  "WHvRegisterPendingInterruption \<notin> set STANDARD_REG_NAMES"
  "WHvX64RegisterDeliverabilityNotifications \<notin> set STANDARD_REG_NAMES"
  by (simp_all add: STANDARD_REG_NAMES_def)

lemma special_names: "distinct SPECIAL_REG_NAMES" "length SPECIAL_REG_NAMES = 14"
  by (simp_all add: SPECIAL_REG_NAMES_def)

lemma length_to_values [simp]:
  "length (standard_regs_to_values r) = 18" "length (special_regs_to_values s) = 14"
  by (simp_all add: standard_regs_to_values_def special_regs_to_values_def)

lemma reg_update_other: "n \<notin> set ns \<Longrightarrow> length ns = length vs \<Longrightarrow> reg_update r ns vs n = r n"
  by (auto simp: reg_update_def split: option.split dest: map_of_SomeD set_zip_leftD)

lemma map_reg_update: "distinct ns \<Longrightarrow> length ns = length vs \<Longrightarrow> map (reg_update r ns vs) ns = vs"
  by (rule nth_equalityI) (simp_all add: reg_update_def map_of_zip_nth)

lemma exit_reason_of:
  assumes "distinct [WHvRunVpExitReasonMemoryAccess A, WHvRunVpExitReasonX64IoPortAccess A,
      WHvRunVpExitReasonX64Halt A, WHvRunVpExitReasonX64InterruptWindow A, WHvRunVpExitReasonCanceled A,
      WHvRunVpExitReasonUnrecoverableException A]"
  shows "ctx_ExitReason ctx = WHvRunVpExitReasonX64InterruptWindow A \<Longrightarrow>
           exit_context_to_hal A ctx = Inr ExitInterruptWindow"
    "ctx_ExitReason ctx = WHvRunVpExitReasonCanceled A \<Longrightarrow> exit_context_to_hal A ctx = Inr ExitCanceled"
  using assms by (auto simp: exit_context_to_hal_def Let_def)

context whp_api
begin

lemma set_one:
  assumes "live w" "WHvSetVirtualProcessorRegisters A w index [n] [v] = (w', res)"
  shows "live w'" "reg w' = (case res of Inl e \<Rightarrow> reg w | Inr _ \<Rightarrow> (reg w)(n := v))"
proof -
  have "reg_update (reg w) [n] [v] = (reg w)(n := v)" by (auto simp: reg_update_def)
  with set_registers [of w "[n]" "[v]" w' res] assms
  show "live w'" "reg w' = (case res of Inl e \<Rightarrow> reg w | Inr _ \<Rightarrow> (reg w)(n := v))" by (cases res; auto)+
qed

lemma vregs_upd_other:
  "n \<notin> set STANDARD_REG_NAMES \<Longrightarrow> reg w' = (reg w)(n := v) \<Longrightarrow> whp_vregs reg w' = whp_vregs reg w"
  by (auto simp: whp_vregs_def intro!: arg_cong [of _ _ values_to_standard_regs])

lemma whp_set_regs_ok:
  assumes "live w"
  shows "\<exists>w'. whp_set_regs A index w r = (w', Inr ()) \<and> live w' \<and> whp_vregs reg w' = r \<and> whp_vwin reg w' = whp_vwin reg w"
proof -
  let ?vs = "standard_regs_to_values r"
  obtain w' where s: "WHvSetVirtualProcessorRegisters A w index STANDARD_REG_NAMES ?vs = (w', Inr ())"
    using set_standard [OF assms, of ?vs] by (auto simp: standard_names)
  have k: "live w'" "reg w' = reg_update (reg w) STANDARD_REG_NAMES ?vs"
    using set_registers [OF assms _ standard_names(1) s] by (auto simp: standard_names)
  have "whp_vregs reg w' = r"
    by (simp add: whp_vregs_def k map_reg_update standard_names)
  moreover have "whp_vwin reg w' = whp_vwin reg w"
    by (simp add: whp_vwin_def k reg_update_other standard_names)
  ultimately show ?thesis using s k by (simp add: whp_set_regs_def)
qed

lemma whp_set_each_ok:
  assumes "live w" "whp_set_each A index w nvs = (w', Inr ())" "distinct (map fst nvs)"
  shows "live w' \<and> reg w' = reg_update (reg w) (map fst nvs) (map snd nvs)"
  using assms
proof (induction nvs arbitrary: w)
  case (Cons nv nvs)
  obtain n v where nv: "nv = (n, v)" by fastforce
  then obtain w1 where s: "WHvSetVirtualProcessorRegisters A w index [n] [v] = (w1, Inr ())"
    using Cons.prems(2) by (auto split: prod.splits sum.splits)
  have "live w1" "reg w1 = (reg w)(n := v)" using set_one [OF Cons.prems(1) s] by auto
  moreover have "whp_set_each A index w1 nvs = (w', Inr ())" using Cons.prems(2) nv s by simp
  ultimately have "live w' \<and> reg w' = reg_update ((reg w)(n := v)) (map fst nvs) (map snd nvs)"
    using Cons.IH [of w1] Cons.prems(3) by (simp add: fun_upd_def)
  moreover have "n \<notin> set (map fst nvs)" using Cons.prems(3) nv by auto
  ultimately show ?case using nv
    by (auto simp: reg_update_def zip_map_fst_snd fun_eq_iff map_of_eq_None_iff split: option.splits)
qed (simp add: reg_update_def)

lemma whp_get_sregs_after_set:
  assumes "live w" "whp_set_sregs A index w s = (w', Inr ())"
  shows "live w' \<and> whp_get_sregs A index w' = Inr (sregs_norm s)"
proof -
  let ?vs = "special_regs_to_values s"
  have "live w' \<and> reg w' = reg_update (reg w) SPECIAL_REG_NAMES ?vs"
    using whp_set_each_ok [OF assms(1), of "zip SPECIAL_REG_NAMES ?vs"] assms(2)
    by (simp add: whp_set_sregs_def special_names)
  then show ?thesis
    by (simp add: whp_get_sregs_def get_registers map_reg_update special_names)
qed

end

sublocale whp_api \<subseteq> vcpu "whp_vcpu A index" live "whp_vregs reg" "whp_vwin reg"
proof unfold_locales
  fix v v' m m' r x res ex
  assume v: "live v"
  show "vc_get_regs (whp_vcpu A index) v = Inr (whp_vregs reg v)"
    by (simp add: whp_vcpu_def whp_get_regs_def get_registers [OF v] whp_vregs_def)
  show "\<exists>v'. vc_set_regs (whp_vcpu A index) v r = (v', Inr ()) \<and> live v' \<and> whp_vregs reg v' = r \<and>
      whp_vwin reg v' = whp_vwin reg v"
    using whp_set_regs_ok [OF v] by (simp add: whp_vcpu_def)
  show "live v' \<and> whp_vregs reg v' = whp_vregs reg v \<and> whp_vwin reg v' = whp_vwin reg v"
    if c: "vc_inject_interrupt (whp_vcpu A index) v x = (v', res)"
  proof -
    obtain res' where s: "WHvSetVirtualProcessorRegisters A v index [WHvRegisterPendingInterruption]
        [reg64_val (1 OR push_bit 16 (ucast x))] = (v', res')"
      using c by (auto simp: whp_vcpu_def whp_inject_interrupt_def split: prod.splits)
    note o = set_one [OF v s]
    show ?thesis
    proof (cases res')
      case (Inr u)
      with o vregs_upd_other [OF standard_names(3)] show ?thesis by (auto simp: whp_vwin_def)
    qed (use o in \<open>auto simp: whp_vwin_def whp_vregs_def\<close>)
  qed
  show "live v' \<and> whp_vregs reg v' = whp_vregs reg v \<and> (res = Inr () \<longrightarrow> whp_vwin reg v')"
    if c: "vc_request_interrupt_window (whp_vcpu A index) v = (v', res)"
  proof -
    obtain res' where s: "WHvSetVirtualProcessorRegisters A v index [WHvX64RegisterDeliverabilityNotifications]
        [reg64_val 1] = (v', res')" and res: "res = map_err (\<lambda>e. RegisterAccess (''set DeliverabilityNotifications: '' @ e)) res'"
      using c by (auto simp: whp_vcpu_def whp_request_interrupt_window_def split: prod.splits)
    note o = set_one [OF v s]
    show ?thesis
    proof (cases res')
      case (Inr u)
      with o vregs_upd_other [OF standard_names(4)] show ?thesis by (auto simp: whp_vwin_def reg64_val_def)
    qed (use o res in \<open>auto simp: whp_vregs_def\<close>)
  qed
  show "live v' \<and> (whp_vwin reg v \<longrightarrow>
      whp_vwin reg v' \<or> (\<exists>e. ex = Inl e) \<or> ex = Inr ExitInterruptWindow \<or> ex = Inr ExitCanceled)"
    if c: "vc_run (whp_vcpu A index) v m = (v', m', ex)"
  proof -
    obtain ex' where s: "WHvRunVirtualProcessor A v index m = (v', m', ex')"
      using c by (auto simp: whp_vcpu_def whp_run_def split: prod.splits sum.splits)
    from run_registers [OF v s] exit_reason_of [OF reasons] c s show ?thesis
      by (cases ex') (auto simp: whp_vcpu_def whp_run_def whp_vwin_def)
  qed
qed

section \<open>A platform that satisfies the contract\<close>

text \<open>
  A partition with one vCPU, index 0, and a memory map, whose guest is a script of exits: each run
  performs the next one, or halts. Injection is refused while the interrupt flag (bit 9 of RFLAGS) is clear, and an
  interrupt-window exit disarms the notification.
\<close>

record SimPartition =
  sim_regs :: "WHV_REGISTER_NAME \<Rightarrow> WHV_REGISTER_VALUE"
  sim_script :: "WHV_RUN_VP_EXIT_CONTEXT list"
  sim_map :: "u64 \<Rightarrow> ((nat \<times> nat) \<times> u32) option"

definition sim_halt :: WHV_RUN_VP_EXIT_CONTEXT where
  "sim_halt = \<lparr>ctx_ExitReason = 8, ctx_VpContext_bitfield = 0,
     ctx_MemoryAccess = \<lparr>mac_InstructionByteCount = 0, mac_InstructionBytes = replicate 16 0, mac_AccessInfo = 0, mac_Gpa = 0\<rparr>,
     ctx_IoPortAccess = \<lparr>iac_AccessInfo = 0, iac_PortNumber = 0, iac_Rax = 0\<rparr>\<rparr>"

definition sim_run :: "SimPartition \<Rightarrow> u32 \<Rightarrow> 'm \<Rightarrow> SimPartition \<times> 'm \<times> (string + WHV_RUN_VP_EXIT_CONTEXT)" where
  "sim_run w i m =
     (if i \<noteq> 0 then (w, m, Inl ''no such vCPU'')
      else case sim_script w of
        [] \<Rightarrow> (w, m, Inr sim_halt)
      | c # cs \<Rightarrow>
          let w' = w\<lparr>sim_script := cs\<rparr> in
          (if ctx_ExitReason c = 7
           then w'\<lparr>sim_regs := (sim_regs w)(WHvX64RegisterDeliverabilityNotifications := 0)\<rparr> else w', m, Inr c))"

definition sim_set ::
  "SimPartition \<Rightarrow> u32 \<Rightarrow> WHV_REGISTER_NAME list \<Rightarrow> WHV_REGISTER_VALUE list \<Rightarrow> SimPartition \<times> (string + unit)" where
  "sim_set w i ns vs =
     (if i \<noteq> 0 then (w, Inl ''no such vCPU'')
      else if WHvRegisterPendingInterruption \<in> set ns \<and> \<not> bit (sim_regs w WHvX64RegisterRflags) 9
      then (w, Inl ''not interruptible'')
      else (w\<lparr>sim_regs := reg_update (sim_regs w) ns vs\<rparr>, Inr ()))"

definition sim_api :: "(SimPartition, 'm) WhpApi" where
  "sim_api = \<lparr>WHvCreateVirtualProcessor = (\<lambda>w i. (w, if i = 0 then Inr () else Inl ''no such vCPU'')),
     WHvDeleteVirtualProcessor = (\<lambda>w i. (w, Inr ())), WHvCancelRunVirtualProcessor = (\<lambda>w i. (w, Inr ())),
     WHvRunVirtualProcessor = sim_run,
     WHvGetVirtualProcessorRegisters = (\<lambda>w i ns. if i = 0 then Inr (map (sim_regs w) ns) else Inl ''no such vCPU''),
     WHvSetVirtualProcessorRegisters = sim_set, whv_register_code = (\<lambda>n. 0),
     WHvRunVpExitReasonMemoryAccess = 1, WHvRunVpExitReasonX64IoPortAccess = 2, WHvRunVpExitReasonX64Halt = 8,
     WHvRunVpExitReasonX64InterruptWindow = 7, WHvRunVpExitReasonCanceled = 0x2001,
     WHvRunVpExitReasonUnrecoverableException = 4\<rparr>"

interpretation sim: whp_api sim_api 0 "\<lambda>w. True" sim_regs
proof unfold_locales
  show "True \<and> (bit (sim_regs w WHvX64RegisterDeliverabilityNotifications) 0 \<longrightarrow>
      bit (sim_regs w' WHvX64RegisterDeliverabilityNotifications) 0 \<or> (\<exists>e. ex = Inl e) \<or>
      (\<exists>ctx. ex = Inr ctx \<and> (ctx_ExitReason ctx = WHvRunVpExitReasonX64InterruptWindow sim_api \<or>
         ctx_ExitReason ctx = WHvRunVpExitReasonCanceled sim_api)))"
    if "WHvRunVirtualProcessor sim_api w 0 m = (w', m', ex)" for w m w' m' ex
    using that by (auto simp: sim_api_def sim_run_def Let_def split: list.splits if_splits)
qed (auto simp: sim_api_def sim_set_def standard_names split: if_splits)

section \<open>Properties\<close>

text \<open>C29: what the VMM writes into a vCPU it reads back. The general registers return exactly; the
  special registers, written one by one, return with each segment attribute cut to its field, hence
  exactly when the attributes are in range.\<close>

theorem whp_registers_roundtrip:
  assumes "whp_api A index live reg" "live w"
  shows "(\<exists>w'. vc_set_regs (whp_vcpu A index) w r = (w', Inr ()) \<and> vc_get_regs (whp_vcpu A index) w' = Inr r) \<and>
    (vc_set_sregs (whp_vcpu A index) w s = (w', Inr ()) \<longrightarrow>
       vc_get_sregs (whp_vcpu A index) w' = Inr (sregs_norm s))"
proof -
  have "\<exists>w'. whp_set_regs A index w r = (w', Inr ()) \<and> whp_get_regs A index w' = Inr r"
    using whp_api.whp_set_regs_ok [OF assms, of r] whp_api.get_registers [OF assms(1)]
    by (auto simp: whp_get_regs_def whp_vregs_def)
  moreover have "whp_set_sregs A index w s = (w', Inr ()) \<longrightarrow> whp_get_sregs A index w' = Inr (sregs_norm s)"
    using whp_api.whp_get_sregs_after_set [OF assms] by blast
  ultimately show ?thesis by (simp add: whp_vcpu_def)
qed

definition sim_start :: SimPartition where
  "sim_start = \<lparr>sim_regs = (\<lambda>n. 0), sim_script = [], sim_map = (\<lambda>a. None)\<rparr>"

theorem whp_registers_roundtrip_witness:
  "\<exists>w'. vc_set_regs (whp_vcpu (sim_api :: (SimPartition, unit) WhpApi) 0) sim_start (standard_regs_default\<lparr>rip := 0x100000\<rparr>) = (w', Inr ()) \<and>
     vc_get_regs (whp_vcpu (sim_api :: (SimPartition, unit) WhpApi) 0) w' = Inr (standard_regs_default\<lparr>rip := 0x100000\<rparr>)"
  using whp_registers_roundtrip [OF sim.whp_api_axioms TrueI, THEN conjunct1] by blast

end
