(* ===== verification/Run_Loop.thy ===== *)
theory Run_Loop
  imports Mmio_Bus Mmio_Decode Serial_Device Whp_Vcpu
begin

text \<open>
  The vCPU run loop of \<open>hitz-vmm/src/run_loop.rs\<close>: it polls the devices, runs the guest, and dispatches
  each exit to the serial port or the MMIO bus, advancing RIP and delivering interrupts. The vCPU
  (\<open>V\<close>), the UART (\<open>S\<close>) and the bus devices (\<open>D\<close>) are records of operations. An action maps a state to
  the new state and a \<open>Result\<close>; the state is kept on an error, because other vCPUs share the devices.
  \<open>None\<close> is an action that never returns (a device that loops on its queue). The exit counter of
  the telemetry is the list of labels it was increased with.
\<close>

section \<open>State and actions\<close>

datatype ExitReason = Halt | Shutdown | Canceled | Unexpected string

record ('u, 'd) SharedDevices =
  sd_serial :: 'u
  sd_mmio_bus :: "'d MmioBus"

record ('v, 'u, 'd, 'm) LoopState =
  ls_vcpu :: 'v
  ls_devices :: "('u, 'd) SharedDevices"
  ls_mem :: 'm
  ls_pending_irq :: "u8 option"
  ls_exits :: "string list"

type_synonym ('s, 'a) act = "'s \<Rightarrow> ('s \<times> (HalError + 'a)) option"

named_theorems act_defs

definition act_return :: "'a \<Rightarrow> ('s, 'a) act" where
  [act_defs]: "act_return x = (\<lambda>s. Some (s, Inr x))"

definition act_bind :: "('s, 'a) act \<Rightarrow> ('a \<Rightarrow> ('s, 'b) act) \<Rightarrow> ('s, 'b) act" where
  [act_defs]: "act_bind a f = (\<lambda>s. case a s of
      None \<Rightarrow> None
    | Some (s', Inl e) \<Rightarrow> Some (s', Inl e)
    | Some (s', Inr x) \<Rightarrow> f x s')"

text \<open>\<open>act_try a f\<close>: the code looks at the result itself instead of returning early on an error.\<close>

definition act_try :: "('s, 'a) act \<Rightarrow> (HalError + 'a \<Rightarrow> ('s, 'b) act) \<Rightarrow> ('s, 'b) act" where
  [act_defs]: "act_try a f = (\<lambda>s. case a s of None \<Rightarrow> None | Some (s', r) \<Rightarrow> f r s')"

definition act_update :: "('s \<Rightarrow> 's) \<Rightarrow> ('s, unit) act" where
  [act_defs]: "act_update f = (\<lambda>s. Some (f s, Inr ()))"

definition act_get :: "('s \<Rightarrow> 'a) \<Rightarrow> ('s, 'a) act" where
  [act_defs]: "act_get f = (\<lambda>s. Some (s, Inr (f s)))"

text \<open>The vCPU calls as actions.\<close>

definition vcpu_call :: "('v \<Rightarrow> 'v \<times> (HalError + 'a)) \<Rightarrow> (('v, 'u, 'd, 'm) LoopState, 'a) act" where
  [act_defs]: "vcpu_call f = (\<lambda>s. case f (ls_vcpu s) of (v, r) \<Rightarrow> Some (s\<lparr>ls_vcpu := v\<rparr>, r))"

definition vcpu_get_regs :: "('v, 'm) Vcpu \<Rightarrow> (('v, 'u, 'd, 'm) LoopState, StandardRegs) act" where
  [act_defs]: "vcpu_get_regs V = (\<lambda>s. Some (s, vc_get_regs V (ls_vcpu s)))"

definition vcpu_run :: "('v, 'm) Vcpu \<Rightarrow> (('v, 'u, 'd, 'm) LoopState, VcpuExit) act" where
  [act_defs]: "vcpu_run V = (\<lambda>s. case vc_run V (ls_vcpu s) (ls_mem s) of
      (v, m, r) \<Rightarrow> Some (s\<lparr>ls_vcpu := v, ls_mem := m\<rparr>, r))"

text \<open>The sections under the device lock.\<close>

definition devices_poll ::
  "('m, 'd) MmioDevice \<Rightarrow> (('v, 'u, 'd, 'm) LoopState, u8 option) act" where
  [act_defs]: "devices_poll D = (\<lambda>s.
     case Mmio_Bus.poll_devices D (sd_mmio_bus (ls_devices s)) (ls_mem s) of
       None \<Rightarrow> None
     | Some (bus, m, irq) \<Rightarrow> Some (s\<lparr>ls_devices := (ls_devices s)\<lparr>sd_mmio_bus := bus\<rparr>, ls_mem := m\<rparr>, Inr irq))"

definition devices_bus_read ::
  "('m, 'd) MmioDevice \<Rightarrow> u64 \<Rightarrow> bytes \<Rightarrow> (('v, 'u, 'd, 'm) LoopState, bytes) act" where
  [act_defs]: "devices_bus_read D gpa data = (\<lambda>s.
     case bus_read D (sd_mmio_bus (ls_devices s)) gpa data of
       (bus, data') \<Rightarrow> Some (s\<lparr>ls_devices := (ls_devices s)\<lparr>sd_mmio_bus := bus\<rparr>\<rparr>, Inr data'))"

definition devices_bus_write ::
  "('m, 'd) MmioDevice \<Rightarrow> u64 \<Rightarrow> bytes \<Rightarrow> (('v, 'u, 'd, 'm) LoopState, u8 option) act" where
  [act_defs]: "devices_bus_write D gpa data = (\<lambda>s.
     case bus_write D (sd_mmio_bus (ls_devices s)) gpa data (ls_mem s) of
       None \<Rightarrow> None
     | Some (bus, m, irq) \<Rightarrow> Some (s\<lparr>ls_devices := (ls_devices s)\<lparr>sd_mmio_bus := bus\<rparr>, ls_mem := m\<rparr>, Inr irq))"

definition devices_serial_write :: "'u Serial \<Rightarrow> u16 \<Rightarrow> u8 \<Rightarrow> (('v, 'u, 'd, 'm) LoopState, unit) act" where
  [act_defs]: "devices_serial_write S port val =
     act_update (\<lambda>s. s\<lparr>ls_devices := (ls_devices s)\<lparr>sd_serial := pio_write S (sd_serial (ls_devices s)) port val\<rparr>\<rparr>)"

definition devices_serial_read :: "'u Serial \<Rightarrow> u16 \<Rightarrow> (('v, 'u, 'd, 'm) LoopState, u8) act" where
  [act_defs]: "devices_serial_read S port = (\<lambda>s.
     case pio_read S (sd_serial (ls_devices s)) port of
       (u, b) \<Rightarrow> Some (s\<lparr>ls_devices := (ls_devices s)\<lparr>sd_serial := u\<rparr>\<rparr>, Inr b))"

section \<open>Handlers\<close>

definition PIC_PORTS :: "u16 list" where
  "PIC_PORTS = [0x20, 0x21, 0xA0, 0xA1]"

definition record_exit :: "string \<Rightarrow> (('v, 'u, 'd, 'm) LoopState, unit) act" where
  [act_defs]: "record_exit reason = act_update (\<lambda>s. s\<lparr>ls_exits := ls_exits s @ [reason]\<rparr>)"

definition advance_rip :: "('v, 'm) Vcpu \<Rightarrow> u8 \<Rightarrow> (('v, 'u, 'd, 'm) LoopState, unit) act" where
  "advance_rip V instruction_len =
     act_bind (vcpu_get_regs V) (\<lambda>regs.
     vcpu_call (\<lambda>v. vc_set_regs V v (regs\<lparr>rip := rip regs + ucast instruction_len\<rparr>)))"

definition advance_rip_with_rax :: "('v, 'm) Vcpu \<Rightarrow> u8 \<Rightarrow> u64 \<Rightarrow> (('v, 'u, 'd, 'm) LoopState, unit) act" where
  "advance_rip_with_rax V instruction_len val =
     act_bind (vcpu_get_regs V) (\<lambda>regs.
     vcpu_call (\<lambda>v. vc_set_regs V v (regs\<lparr>rip := rip regs + ucast instruction_len, rax := val\<rparr>)))"

definition inject_or_defer :: "('v, 'm) Vcpu \<Rightarrow> u8 \<Rightarrow> (('v, 'u, 'd, 'm) LoopState, unit) act" where
  "inject_or_defer V vector =
     act_try (vcpu_call (\<lambda>v. vc_inject_interrupt V v vector)) (\<lambda>r.
     if is_ok r then act_return ()
     else act_bind (act_update (\<lambda>s. s\<lparr>ls_pending_irq := Some vector\<rparr>)) (\<lambda>_.
          vcpu_call (vc_request_interrupt_window V)))"

definition loop_poll_devices :: "('v, 'm) Vcpu \<Rightarrow> ('m, 'd) MmioDevice \<Rightarrow> (('v, 'u, 'd, 'm) LoopState, unit) act" where
  "loop_poll_devices V D =
     act_bind (devices_poll D) (\<lambda>pending_vector.
     case pending_vector of
       None \<Rightarrow> act_return ()
     | Some vector \<Rightarrow> inject_or_defer V vector)"

definition handle_mmio_read ::
  "('v, 'm) Vcpu \<Rightarrow> ('m, 'd) MmioDevice \<Rightarrow> MmioExit \<Rightarrow> DecodedMmio \<Rightarrow> u8 \<Rightarrow> (('v, 'u, 'd, 'm) LoopState, unit) act" where
  "handle_mmio_read V D mmio decoded instr_len =
     (let sz = min (unat (dec_size decoded)) 8 in
      act_bind (devices_bus_read D (mmio_gpa mmio) (replicate sz 0)) (\<lambda>data.
      let val = of_le_bytes (copy_at (replicate 8 0) 0 data) in
      act_bind (vcpu_get_regs V) (\<lambda>regs.
      let regs = set_register regs (dec_register decoded) val in
      vcpu_call (\<lambda>v. vc_set_regs V v (regs\<lparr>rip := rip regs + ucast instr_len\<rparr>)))))"

definition handle_mmio_write ::
  "('v, 'm) Vcpu \<Rightarrow> ('m, 'd) MmioDevice \<Rightarrow> MmioExit \<Rightarrow> DecodedMmio \<Rightarrow> u8 \<Rightarrow> (('v, 'u, 'd, 'm) LoopState, unit) act" where
  "handle_mmio_write V D mmio decoded instr_len =
     act_bind (case dec_immediate decoded of
         Some imm \<Rightarrow> act_return (ucast imm)
       | None \<Rightarrow> act_bind (vcpu_get_regs V) (\<lambda>regs. act_return (register_value regs (dec_register decoded)))) (\<lambda>val.
     let sz = min (unat (dec_size decoded)) 8;
         data = copy_at (replicate 8 0) 0 (take sz (le_bytes 8 (val :: u64))) in
     act_bind (devices_bus_write D (mmio_gpa mmio) (take sz data)) (\<lambda>irq.
     act_bind (advance_rip V instr_len) (\<lambda>_.
     case irq of
       None \<Rightarrow> act_return ()
     | Some vector \<Rightarrow> inject_or_defer V vector)))"

definition handle_mmio ::
  "('v, 'm) Vcpu \<Rightarrow> ('m, 'd) MmioDevice \<Rightarrow> MmioExit \<Rightarrow> (('v, 'u, 'd, 'm) LoopState, unit) act" where
  "handle_mmio V D mmio =
     (let bytes_slice = take (min (unat (mmio_instruction_byte_count mmio)) (length (mmio_instruction_bytes mmio)))
            (mmio_instruction_bytes mmio) in
      case decode_mmio_instruction bytes_slice of
        None \<Rightarrow> advance_rip V (mmio_instruction_len mmio)
      | Some decoded \<Rightarrow>
          let instr_len = dec_instruction_len decoded in
          if mmio_is_write mmio then handle_mmio_write V D mmio decoded instr_len
          else handle_mmio_read V D mmio decoded instr_len)"

definition handle_io_port ::
  "('v, 'm) Vcpu \<Rightarrow> 'u Serial \<Rightarrow> IoPortExit \<Rightarrow> (('v, 'u, 'd, 'm) LoopState, unit) act" where
  "handle_io_port V S io =
     (if handles_port (io_port io) then
        (if io_is_write io
         then act_bind (devices_serial_write S (io_port io) (io_data io ! 0)) (\<lambda>_. advance_rip V (io_instruction_len io))
         else act_bind (devices_serial_read S (io_port io)) (\<lambda>val.
              advance_rip_with_rax V (io_instruction_len io) (ucast val)))
      else if List.member PIC_PORTS (io_port io) then
        (if io_is_write io then advance_rip V (io_instruction_len io)
         else advance_rip_with_rax V (io_instruction_len io) 0)
      else if io_is_write io then advance_rip V (io_instruction_len io)
      else advance_rip_with_rax V (io_instruction_len io) 0xFF)"

fun dispatch_exit ::
  "('v, 'm) Vcpu \<Rightarrow> 'u Serial \<Rightarrow> ('m, 'd) MmioDevice \<Rightarrow> VcpuExit \<Rightarrow> (('v, 'u, 'd, 'm) LoopState, ExitReason option) act" where
  "dispatch_exit V S D (ExitIoPort io) =
     act_bind (record_exit ''IoPort'') (\<lambda>_. act_bind (handle_io_port V S io) (\<lambda>_. act_return None))"
| "dispatch_exit V S D ExitHalt =
     act_bind (record_exit ''Halt'') (\<lambda>_. act_return (Some Halt))"
| "dispatch_exit V S D ExitShutdown =
     act_bind (record_exit ''Shutdown'') (\<lambda>_. act_return (Some Shutdown))"
| "dispatch_exit V S D (ExitMmio mmio) =
     act_bind (record_exit ''Mmio'') (\<lambda>_. act_bind (handle_mmio V D mmio) (\<lambda>_. act_return None))"
| "dispatch_exit V S D ExitInterruptWindow =
     act_bind (record_exit ''InterruptWindow'') (\<lambda>_.
     act_bind (act_get ls_pending_irq) (\<lambda>pending_irq.
     act_bind (act_update (\<lambda>s. s\<lparr>ls_pending_irq := None\<rparr>)) (\<lambda>_.
     case pending_irq of
       None \<Rightarrow> act_return None
     | Some vector \<Rightarrow> act_bind (vcpu_call (\<lambda>v. vc_inject_interrupt V v vector)) (\<lambda>_. act_return None))))"
| "dispatch_exit V S D ExitCanceled =
     act_bind (record_exit ''Canceled'') (\<lambda>_.
     act_bind (act_get ls_pending_irq) (\<lambda>pending_irq.
     if pending_irq \<noteq> None then act_bind (vcpu_call (vc_request_interrupt_window V)) (\<lambda>_. act_return None)
     else act_return None))"
| "dispatch_exit V S D (ExitUnknown code) =
     act_bind (record_exit ''Unexpected'') (\<lambda>_.
     act_return (Some (Unexpected (''unknown vCPU exit reason: '' @ show_hex_alt (unat code)))))"

text \<open>The body of the loop after the test of the stop flag.\<close>

definition loop_body ::
  "('v, 'm) Vcpu \<Rightarrow> 'u Serial \<Rightarrow> ('m, 'd) MmioDevice \<Rightarrow> (('v, 'u, 'd, 'm) LoopState, ExitReason option) act" where
  "loop_body V S D =
     act_bind (loop_poll_devices V D) (\<lambda>_. act_bind (vcpu_run V) (\<lambda>ex. dispatch_exit V S D ex))"

text \<open>\<open>stop i\<close> is the value of the stop flag, which other threads set, at the \<open>i\<close>-th test.\<close>

partial_function (option) run_from ::
  "('v, 'm) Vcpu \<Rightarrow> 'u Serial \<Rightarrow> ('m, 'd) MmioDevice \<Rightarrow> (nat \<Rightarrow> bool) \<Rightarrow> nat \<Rightarrow>
   ('v, 'u, 'd, 'm) LoopState \<Rightarrow> (('v, 'u, 'd, 'm) LoopState \<times> (HalError + ExitReason)) option" where
  "run_from V S D stop i s =
     (if stop i then Some (s\<lparr>ls_exits := ls_exits s @ [''Canceled'']\<rparr>, Inr Canceled)
      else case loop_body V S D s of
        None \<Rightarrow> None
      | Some (s', Inl e) \<Rightarrow> Some (s', Inl e)
      | Some (s', Inr (Some reason)) \<Rightarrow> Some (s', Inr reason)
      | Some (s', Inr None) \<Rightarrow> run_from V S D stop (Suc i) s')"

definition run_vcpu_loop ::
  "('v, 'm) Vcpu \<Rightarrow> 'u Serial \<Rightarrow> ('m, 'd) MmioDevice \<Rightarrow> (nat \<Rightarrow> bool) \<Rightarrow> 'v \<Rightarrow> ('u, 'd) SharedDevices \<Rightarrow> 'm \<Rightarrow>
   (('v, 'u, 'd, 'm) LoopState \<times> (HalError + ExitReason)) option" where
  "run_vcpu_loop V S D stop v devices m =
     run_from V S D stop 0 \<lparr>ls_vcpu = v, ls_devices = devices, ls_mem = m, ls_pending_irq = None, ls_exits = []\<rparr>"

section \<open>What the handlers do\<close>

text \<open>What a store writes: its immediate, zero-extended to 64 bits, or the register.\<close>

definition stored_value :: "StandardRegs \<Rightarrow> DecodedMmio \<Rightarrow> u64" where
  "stored_value regs d = (case dec_immediate d of Some imm \<Rightarrow> ucast imm | None \<Rightarrow> register_value regs (dec_register d))"

lemma act_bind_Inr: "a s = Some (s', Inr x) \<Longrightarrow> act_bind a f s = f x s'"
  by (simp add: act_bind_def)

context vcpu
begin

lemma update_regs_ok:
  assumes "vok (ls_vcpu s)"
  shows "\<exists>v'. act_bind (vcpu_get_regs V) (\<lambda>regs. vcpu_call (\<lambda>v. vc_set_regs V v (f regs))) s =
      Some (s\<lparr>ls_vcpu := v'\<rparr>, Inr ()) \<and>
    vok v' \<and> vwin v' = vwin (ls_vcpu s) \<and> vregs v' = f (vregs (ls_vcpu s))"
proof -
  obtain v' where "vc_set_regs V (ls_vcpu s) (f (vregs (ls_vcpu s))) = (v', Inr ())" "vok v'"
    "vregs v' = f (vregs (ls_vcpu s))" "vwin v' = vwin (ls_vcpu s)"
    using set_regs [OF assms, of "f (vregs (ls_vcpu s))"] by blast
  with get_regs [OF assms] show ?thesis by (intro exI [of _ v']) (simp add: act_defs)
qed

lemma advance_rip_ok:
  "vok (ls_vcpu s) \<Longrightarrow>
   \<exists>v'. advance_rip V n s = Some (s\<lparr>ls_vcpu := v'\<rparr>, Inr ()) \<and> vok v' \<and> vwin v' = vwin (ls_vcpu s) \<and>
     vregs v' = (vregs (ls_vcpu s))\<lparr>rip := rip (vregs (ls_vcpu s)) + ucast n\<rparr>"
  unfolding advance_rip_def by (rule update_regs_ok)

lemma advance_rip_with_rax_ok:
  "vok (ls_vcpu s) \<Longrightarrow>
   \<exists>v'. advance_rip_with_rax V n x s = Some (s\<lparr>ls_vcpu := v'\<rparr>, Inr ()) \<and> vok v' \<and> vwin v' = vwin (ls_vcpu s) \<and>
     vregs v' = (vregs (ls_vcpu s))\<lparr>rip := rip (vregs (ls_vcpu s)) + ucast n, rax := x\<rparr>"
  unfolding advance_rip_with_rax_def by (rule update_regs_ok)

text \<open>An interrupt is injected, or it is pending and, when the request succeeds, a window is armed.\<close>

lemma inject_or_defer_ok:
  assumes "vok (ls_vcpu s)"
  shows "\<exists>v' p r. inject_or_defer V x s = Some (s\<lparr>ls_vcpu := v', ls_pending_irq := p\<rparr>, r) \<and> vok v' \<and>
    vregs v' = vregs (ls_vcpu s) \<and>
    (if is_ok (snd (vc_inject_interrupt V (ls_vcpu s) x))
     then p = ls_pending_irq s \<and> r = Inr () \<and> vwin v' = vwin (ls_vcpu s)
     else p = Some x \<and> (r = Inr () \<longrightarrow> vwin v'))"
proof -
  obtain v1 r1 where i: "vc_inject_interrupt V (ls_vcpu s) x = (v1, r1)" by fastforce
  obtain v2 r2 where q: "vc_request_interrupt_window V v1 = (v2, r2)" by fastforce
  note k = inject [OF assms i] request [OF _ q]
  show ?thesis
  proof (cases "is_ok r1")
    case True
    with k show ?thesis
      by (intro exI [of _ v1] exI [of _ "ls_pending_irq s"] exI [of _ "Inr ()"])
         (simp add: inject_or_defer_def act_defs i)
  next
    case False
    with k show ?thesis
      by (intro exI [of _ v2] exI [of _ "Some x"] exI [of _ r2]) (simp add: inject_or_defer_def act_defs i q)
  qed
qed

lemma handle_mmio_read_ok:
  assumes "vok (ls_vcpu s)" "bus_read D (sd_mmio_bus (ls_devices s)) (mmio_gpa mmio) (replicate (min (unat (dec_size d)) 8) 0) = (bus', data)"
  shows "\<exists>v'. handle_mmio_read V D mmio d n s =
      Some (s\<lparr>ls_vcpu := v', ls_devices := (ls_devices s)\<lparr>sd_mmio_bus := bus'\<rparr>\<rparr>, Inr ()) \<and>
    vok v' \<and> vwin v' = vwin (ls_vcpu s) \<and>
    vregs v' = (set_register (vregs (ls_vcpu s)) (dec_register d) (of_le_bytes (copy_at (replicate 8 0) 0 data)))
      \<lparr>rip := rip (set_register (vregs (ls_vcpu s)) (dec_register d) (of_le_bytes (copy_at (replicate 8 0) 0 data))) + ucast n\<rparr>"
proof -
  let ?s = "s\<lparr>ls_devices := (ls_devices s)\<lparr>sd_mmio_bus := bus'\<rparr>\<rparr>"
  let ?f = "\<lambda>regs. let regs = set_register regs (dec_register d) (of_le_bytes (copy_at (replicate 8 0) 0 data)) in
    regs\<lparr>rip := rip regs + ucast n\<rparr>"
  have "handle_mmio_read V D mmio d n s =
      act_bind (vcpu_get_regs V) (\<lambda>regs. vcpu_call (\<lambda>v. vc_set_regs V v (?f regs))) ?s"
    unfolding handle_mmio_read_def Let_def
    by (rule act_bind_Inr) (simp add: devices_bus_read_def assms(2))
  moreover obtain v' where "act_bind (vcpu_get_regs V) (\<lambda>regs. vcpu_call (\<lambda>v. vc_set_regs V v (?f regs))) ?s =
      Some (?s\<lparr>ls_vcpu := v'\<rparr>, Inr ())" "vok v'" "vwin v' = vwin (ls_vcpu s)" "vregs v' = ?f (vregs (ls_vcpu s))"
    using update_regs_ok [of ?s ?f] assms(1) by auto
  ultimately show ?thesis by (intro exI [of _ v']) (simp add: Let_def)
qed

lemma handle_mmio_write_ok:
  fixes d :: DecodedMmio and s :: "('v, 'u, 'd, 'm) LoopState"
  defines "data \<equiv> take (unat (dec_size d)) (le_bytes 8 (stored_value (vregs (ls_vcpu s)) d))"
  assumes "vok (ls_vcpu s)" "bus_write D (sd_mmio_bus (ls_devices s)) (mmio_gpa mmio) data (ls_mem s) = Some (bus', m', irq)"
  shows "\<exists>v1. vok v1 \<and> vwin v1 = vwin (ls_vcpu s) \<and> vregs v1 = (vregs (ls_vcpu s))\<lparr>rip := rip (vregs (ls_vcpu s)) + ucast n\<rparr> \<and>
    handle_mmio_write V D mmio d n s =
      (case irq of None \<Rightarrow> act_return () | Some vector \<Rightarrow> inject_or_defer V vector)
      (s\<lparr>ls_devices := (ls_devices s)\<lparr>sd_mmio_bus := bus'\<rparr>, ls_mem := m', ls_vcpu := v1\<rparr>)"
proof -
  let ?s = "s\<lparr>ls_devices := (ls_devices s)\<lparr>sd_mmio_bus := bus'\<rparr>, ls_mem := m'\<rparr>"
  have data: "take (min (unat (dec_size d)) 8) (copy_at (replicate 8 0) 0
      (take (min (unat (dec_size d)) 8) (le_bytes 8 (stored_value (vregs (ls_vcpu s)) d)))) = data"
    by (simp add: data_def copy_at_def min_def)
  obtain v1 where a: "advance_rip V n ?s = Some (?s\<lparr>ls_vcpu := v1\<rparr>, Inr ())"
    and v1: "vok v1" "vwin v1 = vwin (ls_vcpu s)" "vregs v1 = (vregs (ls_vcpu s))\<lparr>rip := rip (vregs (ls_vcpu s)) + ucast n\<rparr>"
    using advance_rip_ok [of ?s n] assms(2) by force
  have val: "(case dec_immediate d of Some imm \<Rightarrow> act_return (ucast imm)
      | None \<Rightarrow> act_bind (vcpu_get_regs V) (\<lambda>regs. act_return (register_value regs (dec_register d)))) s =
      Some (s, Inr (stored_value (vregs (ls_vcpu s)) d))"
    using get_regs [OF assms(2)] by (auto simp: act_defs stored_value_def split: option.splits)
  have w: "devices_bus_write D (mmio_gpa mmio) data s = Some (?s, Inr irq)"
    using assms(3) by (simp add: act_defs)
  have "handle_mmio_write V D mmio d n s =
      (case irq of None \<Rightarrow> act_return () | Some vector \<Rightarrow> inject_or_defer V vector) (?s\<lparr>ls_vcpu := v1\<rparr>)"
    unfolding handle_mmio_write_def Let_def
    by (subst act_bind_Inr, rule val, subst data, subst act_bind_Inr, rule w, rule act_bind_Inr, rule a)
  with v1 show ?thesis by (intro exI [of _ v1]) simp
qed

end

section \<open>The loop invariant\<close>

text \<open>
  A platform is guest memory, devices on the bus and a vCPU whose guest changes only the contents of
  mapped memory. The invariant: the vCPU exists, bus and devices are well formed, the mapping of
  guest memory is unchanged, and a deferred interrupt has an armed window; the last part may lapse
  while an exit that disarms the window is being dispatched.
\<close>

locale vm_platform = mmio_device M minv mapped byte_at D dok + vcpu V vok vregs vwin
  for M :: "'m GuestMemAccess" and minv :: "'m \<Rightarrow> bool" and mapped :: "'m \<Rightarrow> u64 \<Rightarrow> nat \<Rightarrow> bool"
    and byte_at :: "'m \<Rightarrow> u64 \<Rightarrow> u8" and D :: "('m, 'd) MmioDevice" and dok :: "'d \<Rightarrow> bool"
    and V :: "('v, 'm) Vcpu" and vok :: "'v \<Rightarrow> bool" and vregs :: "'v \<Rightarrow> StandardRegs" and vwin :: "'v \<Rightarrow> bool" +
  assumes run_mem: "vok v \<Longrightarrow> minv m \<Longrightarrow> vc_run V v m = (v', m', ex) \<Longrightarrow> minv m' \<and> mapped m' = mapped m"

definition shared_ok ::
  "('m \<Rightarrow> bool) \<Rightarrow> ('m \<Rightarrow> u64 \<Rightarrow> nat \<Rightarrow> bool) \<Rightarrow> ('d \<Rightarrow> bool) \<Rightarrow> (u64 \<Rightarrow> nat \<Rightarrow> bool) \<Rightarrow> ('u, 'd) SharedDevices \<Rightarrow> 'm \<Rightarrow> bool" where
  "shared_ok minv mapped dok mp devs m \<longleftrightarrow> bus_inv dok (sd_mmio_bus devs) \<and> minv m \<and> mapped m = mp"

definition irq_ok :: "('v \<Rightarrow> bool) \<Rightarrow> ('v \<Rightarrow> bool) \<Rightarrow> bool \<Rightarrow> 'v \<Rightarrow> u8 option \<Rightarrow> bool" where
  "irq_ok vok vwin armed v p \<longleftrightarrow> vok v \<and> (armed \<longrightarrow> p \<noteq> None \<longrightarrow> vwin v)"

definition act_keeps :: "('s \<Rightarrow> bool) \<Rightarrow> ('s \<Rightarrow> bool) \<Rightarrow> ('a \<Rightarrow> 's \<Rightarrow> bool) \<Rightarrow> ('s, 'a) act \<Rightarrow> bool" where
  "act_keeps P Q R a \<longleftrightarrow> (\<forall>s s' r. P s \<longrightarrow> a s = Some (s', r) \<longrightarrow> (case r of Inl e \<Rightarrow> Q s' | Inr x \<Rightarrow> R x s'))"

lemma act_keepsI:
  assumes "\<And>s s' x. P s \<Longrightarrow> a s = Some (s', Inr x) \<Longrightarrow> R x s'" "\<And>s s' e. P s \<Longrightarrow> a s = Some (s', Inl e) \<Longrightarrow> Q s'"
  shows "act_keeps P Q R a"
  using assms by (auto simp: act_keeps_def split: sum.splits)

lemma act_keeps_bind:
  "act_keeps P Q R a \<Longrightarrow> (\<And>x. act_keeps (R x) Q T (f x)) \<Longrightarrow> act_keeps P Q T (act_bind a f)"
  unfolding act_keeps_def act_bind_def by (fastforce split: option.splits sum.splits prod.splits)

lemma act_keeps_pre: "act_keeps P Q R a \<Longrightarrow> (\<And>s. P' s \<Longrightarrow> P s) \<Longrightarrow> act_keeps P' Q R a"
  by (auto simp: act_keeps_def)

lemma act_keeps_return: "(\<And>s. P s \<Longrightarrow> R x s) \<Longrightarrow> act_keeps P Q R (act_return x)"
  by (auto simp: act_keeps_def act_return_def)

lemma act_keeps_update: "(\<And>s. P s \<Longrightarrow> R () (f s)) \<Longrightarrow> act_keeps P Q R (act_update f)"
  by (auto simp: act_keeps_def act_update_def)

context vm_platform
begin

definition linv :: "(u64 \<Rightarrow> nat \<Rightarrow> bool) \<Rightarrow> bool \<Rightarrow> ('v, 'u, 'd, 'm) LoopState \<Rightarrow> bool" where
  "linv mp armed s \<longleftrightarrow> irq_ok vok vwin armed (ls_vcpu s) (ls_pending_irq s) \<and>
     shared_ok minv mapped dok mp (ls_devices s) (ls_mem s)"

lemmas linv_defs = linv_def irq_ok_def shared_ok_def

lemma linv_weaken: "linv mp armed s \<Longrightarrow> linv mp False s"
  by (simp add: linv_defs)

lemma keeps_inject_or_defer: "act_keeps (linv mp True) (linv mp False) (\<lambda>_. linv mp True) (inject_or_defer V x)"
proof -
  have "case r of Inl e \<Rightarrow> linv mp False s' | Inr u \<Rightarrow> linv mp True s'"
    if p: "linv mp True s" and d: "inject_or_defer V x s = Some (s', r)" for s s' :: "('v, 'u, 'd, 'm) LoopState" and r
  proof -
    have "vok (ls_vcpu s)" using p by (simp add: linv_defs)
    from inject_or_defer_ok [OF this, of x] obtain v' p where
      "s' = s\<lparr>ls_vcpu := v', ls_pending_irq := p\<rparr>" "vok v'"
      "if is_ok (snd (vc_inject_interrupt V (ls_vcpu s) x))
       then p = ls_pending_irq s \<and> r = Inr () \<and> vwin v' = vwin (ls_vcpu s)
       else p = Some x \<and> (r = Inr () \<longrightarrow> vwin v')"
      using d by auto
    with p show ?thesis by (auto simp: linv_defs split: sum.splits if_splits)
  qed
  then show ?thesis by (auto simp: act_keeps_def)
qed

lemma keeps_advance_rip: "act_keeps (linv mp True) (linv mp False) (\<lambda>_. linv mp True) (advance_rip V n)"
proof -
  have "\<exists>v'. r = Inr () \<and> s' = s\<lparr>ls_vcpu := v'\<rparr> \<and> vok v' \<and> vwin v' = vwin (ls_vcpu s)"
    if "linv mp True s" "advance_rip V n s = Some (s', r)" for s s' :: "('v, 'u, 'd, 'm) LoopState" and r
    using advance_rip_ok [of s n] that by (auto simp: linv_defs)
  then show ?thesis by (fastforce simp: act_keeps_def linv_defs)
qed

lemma keeps_advance_rip_with_rax:
  "act_keeps (linv mp True) (linv mp False) (\<lambda>_. linv mp True) (advance_rip_with_rax V n x)"
proof -
  have "\<exists>v'. r = Inr () \<and> s' = s\<lparr>ls_vcpu := v'\<rparr> \<and> vok v' \<and> vwin v' = vwin (ls_vcpu s)"
    if "linv mp True s" "advance_rip_with_rax V n x s = Some (s', r)" for s s' :: "('v, 'u, 'd, 'm) LoopState" and r
    using advance_rip_with_rax_ok [of s n x] that by (auto simp: linv_defs)
  then show ?thesis by (fastforce simp: act_keeps_def linv_defs)
qed

lemma keeps_devices_poll: "act_keeps (linv mp True) (linv mp False) (\<lambda>_. linv mp True) (devices_poll D)"
proof (rule act_keepsI)
  fix s s' :: "('v, 'u, 'd, 'm) LoopState" and x
  assume p: "linv mp True s" and d: "devices_poll D s = Some (s', Inr x)"
  then obtain bus m where r: "poll_devices D (sd_mmio_bus (ls_devices s)) (ls_mem s) = Some (bus, m, x)"
    and s': "s' = s\<lparr>ls_devices := (ls_devices s)\<lparr>sd_mmio_bus := bus\<rparr>, ls_mem := m\<rparr>"
    by (auto simp: devices_poll_def split: option.splits)
  from poll_devices_keeps [OF _ _ r] p show "linv mp True s'" by (simp add: linv_defs s')
qed (auto simp: devices_poll_def split: option.splits)

lemma keeps_bus_read:
  "act_keeps (linv mp True) (linv mp False) (\<lambda>_. linv mp True) (devices_bus_read D gpa data)"
  using bus_read_keeps by (auto simp: act_keeps_def linv_defs devices_bus_read_def split: prod.splits)

lemma keeps_bus_write:
  "act_keeps (linv mp True) (linv mp False) (\<lambda>_. linv mp True) (devices_bus_write D gpa data)"
proof (rule act_keepsI)
  fix s s' :: "('v, 'u, 'd, 'm) LoopState" and x
  assume p: "linv mp True s" and d: "devices_bus_write D gpa data s = Some (s', Inr x)"
  then obtain bus m where r: "bus_write D (sd_mmio_bus (ls_devices s)) gpa data (ls_mem s) = Some (bus, m, x)"
    and s': "s' = s\<lparr>ls_devices := (ls_devices s)\<lparr>sd_mmio_bus := bus\<rparr>, ls_mem := m\<rparr>"
    by (auto simp: devices_bus_write_def split: option.splits)
  from bus_write_keeps [OF _ _ r] p show "linv mp True s'" by (simp add: linv_defs s')
qed (auto simp: devices_bus_write_def split: option.splits)

lemma keeps_get_regs:
  "act_keeps (linv mp True) (linv mp False) (\<lambda>_. linv mp True) (vcpu_get_regs V)"
  by (auto simp: act_keeps_def vcpu_get_regs_def intro: linv_weaken split: sum.splits)

lemma keeps_set_regs:
  "act_keeps (linv mp True) (linv mp False) (\<lambda>_. linv mp True) (vcpu_call (\<lambda>v. vc_set_regs V v r))"
proof (rule act_keepsI)
  fix s s' :: "('v, 'u, 'd, 'm) LoopState" and x e
  assume p: "linv mp True s"
  then obtain v' where "vc_set_regs V (ls_vcpu s) r = (v', Inr ())" "vok v'" "vwin v' = vwin (ls_vcpu s)"
    using set_regs [of "ls_vcpu s" r] by (auto simp: linv_defs)
  with p show "vcpu_call (\<lambda>v. vc_set_regs V v r) s = Some (s', Inr x) \<Longrightarrow> linv mp True s'"
    "vcpu_call (\<lambda>v. vc_set_regs V v r) s = Some (s', Inl e) \<Longrightarrow> linv mp False s'"
    by (auto simp: vcpu_call_def linv_defs)
qed

lemmas keeps_calls = keeps_inject_or_defer keeps_advance_rip keeps_advance_rip_with_rax keeps_devices_poll
  keeps_bus_read keeps_bus_write keeps_get_regs keeps_set_regs

lemma keeps_poll: "act_keeps (linv mp True) (linv mp False) (\<lambda>_. linv mp True) (loop_poll_devices V D)"
  unfolding loop_poll_devices_def
  by (rule act_keeps_bind [OF keeps_devices_poll]) (auto intro: keeps_calls act_keeps_return split: option.split)

lemma keeps_handle_mmio: "act_keeps (linv mp True) (linv mp False) (\<lambda>_. linv mp True) (handle_mmio V D mmio)"
proof -
  have rd: "act_keeps (linv mp True) (linv mp False) (\<lambda>_. linv mp True) (handle_mmio_read V D mmio d n)" for d n
    unfolding handle_mmio_read_def Let_def
    by (rule act_keeps_bind [OF keeps_bus_read], rule act_keeps_bind [OF keeps_get_regs], rule keeps_set_regs)
  have val: "act_keeps (linv mp True) (linv mp False) (\<lambda>_. linv mp True)
      (case dec_immediate d of Some imm \<Rightarrow> act_return (ucast imm)
       | None \<Rightarrow> act_bind (vcpu_get_regs V) (\<lambda>regs. act_return (register_value regs (dec_register d))))" for d
    by (auto intro: act_keeps_bind [OF keeps_get_regs] act_keeps_return split: option.split)
  have irq: "act_keeps (linv mp True) (linv mp False) (\<lambda>_. linv mp True)
      (case irq of None \<Rightarrow> act_return () | Some vector \<Rightarrow> inject_or_defer V vector)" for irq
    by (auto intro: keeps_calls act_keeps_return split: option.split)
  have wr: "act_keeps (linv mp True) (linv mp False) (\<lambda>_. linv mp True) (handle_mmio_write V D mmio d n)" for d n
    unfolding handle_mmio_write_def Let_def
    by (rule act_keeps_bind [OF val], rule act_keeps_bind [OF keeps_bus_write],
        rule act_keeps_bind [OF keeps_advance_rip], rule irq)
  show ?thesis unfolding handle_mmio_def Let_def
    by (auto intro: rd wr keeps_calls split: option.split)
qed

lemma keeps_handle_io_port: "act_keeps (linv mp True) (linv mp False) (\<lambda>_. linv mp True) (handle_io_port V S io)"
proof -
  have w: "act_keeps (linv mp True) (linv mp False) (\<lambda>_. linv mp True) (devices_serial_write S port val)" for port val
    unfolding devices_serial_write_def by (rule act_keeps_update) (simp add: linv_defs)
  have r: "act_keeps (linv mp True) (linv mp False) (\<lambda>_. linv mp True) (devices_serial_read S port)" for port
    by (auto simp: act_keeps_def devices_serial_read_def linv_defs split: prod.splits)
  show ?thesis unfolding handle_io_port_def
    by (auto intro: keeps_calls act_keeps_bind [OF w] act_keeps_bind [OF r])
qed

abbreviation disarms :: "VcpuExit \<Rightarrow> bool" where
  "disarms ex \<equiv> ex = ExitInterruptWindow \<or> ex = ExitCanceled"

lemma keeps_run:
  "act_keeps (linv mp True) (linv mp False) (\<lambda>ex. linv mp (\<not> disarms ex)) (vcpu_run V)"
proof (rule act_keepsI)
  fix s s' :: "('v, 'u, 'd, 'm) LoopState" and ex e
  assume p: "linv mp True s"
  obtain v m r where c: "vc_run V (ls_vcpu s) (ls_mem s) = (v, m, r)" by (metis prod_cases3)
  have "vok (ls_vcpu s)" "minv (ls_mem s)" using p by (simp_all add: linv_defs)
  note k = run_guest [OF this(1) c] run_mem [OF this c]
  show "linv mp (\<not> disarms ex) s'" if "vcpu_run V s = Some (s', Inr ex)"
    using that k p c by (auto simp: vcpu_run_def linv_defs)
  show "linv mp False s'" if "vcpu_run V s = Some (s', Inl e)"
    using that k p c by (auto simp: vcpu_run_def linv_defs)
qed

lemma keeps_record: "act_keeps (linv mp b) (linv mp False) (\<lambda>_. linv mp b) (record_exit l)"
  unfolding record_exit_def by (rule act_keeps_update) (simp add: linv_defs)

lemma keeps_window_inject:
  "act_keeps (\<lambda>s. linv mp False s \<and> ls_pending_irq s = None) (linv mp False) (\<lambda>_. linv mp True)
     (vcpu_call (\<lambda>v. vc_inject_interrupt V v x))"
  using inject by (fastforce simp: act_keeps_def vcpu_call_def linv_defs split: prod.splits sum.splits)

lemma keeps_request:
  "act_keeps (linv mp False) (linv mp False) (\<lambda>_. linv mp True) (vcpu_call (vc_request_interrupt_window V))"
  using request by (fastforce simp: act_keeps_def vcpu_call_def linv_defs split: prod.splits sum.splits)

lemma keeps_dispatch:
  "act_keeps (linv mp (\<not> disarms ex)) (linv mp False) (\<lambda>_. linv mp True) (dispatch_exit V S D ex)"
proof (cases ex)
  case (ExitMmio mmio)
  then show ?thesis
    by simp (rule act_keeps_bind [OF keeps_record], rule act_keeps_bind [OF keeps_handle_mmio], rule act_keeps_return)
next
  case (ExitIoPort io)
  then show ?thesis
    by simp (rule act_keeps_bind [OF keeps_record], rule act_keeps_bind [OF keeps_handle_io_port], rule act_keeps_return)
next
  case ExitInterruptWindow
  have get: "act_keeps (linv mp False) (linv mp False) (\<lambda>p. linv mp False) (act_get ls_pending_irq)"
    by (simp add: act_keeps_def act_get_def)
  have clr: "act_keeps (linv mp False) (linv mp False) (\<lambda>_ s. linv mp False s \<and> ls_pending_irq s = None)
      (act_update (\<lambda>s. s\<lparr>ls_pending_irq := None\<rparr>))"
    by (rule act_keeps_update) (simp add: linv_defs)
  have inj: "act_keeps (\<lambda>s. linv mp False s \<and> ls_pending_irq s = None) (linv mp False) (\<lambda>_. linv mp True)
      (case p of None \<Rightarrow> act_return None
       | Some vector \<Rightarrow> act_bind (vcpu_call (\<lambda>v. vc_inject_interrupt V v vector)) (\<lambda>_. act_return None))" for p
  proof (cases p)
    case None
    then show ?thesis by simp (rule act_keeps_return, simp add: linv_defs)
  next
    case (Some v)
    then show ?thesis by simp (rule act_keeps_bind [OF keeps_window_inject], rule act_keeps_return)
  qed
  from ExitInterruptWindow show ?thesis
    by simp (rule act_keeps_bind [OF keeps_record], rule act_keeps_bind [OF get], rule act_keeps_bind [OF clr], rule inj)
next
  case ExitCanceled
  have get: "act_keeps (linv mp False) (linv mp False) (\<lambda>p s. linv mp False s \<and> p = ls_pending_irq s) (act_get ls_pending_irq)"
    by (simp add: act_keeps_def act_get_def)
  have req: "act_keeps (\<lambda>s. linv mp False s \<and> p = ls_pending_irq s) (linv mp False) (\<lambda>_. linv mp True)
      (if p \<noteq> None then act_bind (vcpu_call (vc_request_interrupt_window V)) (\<lambda>_. act_return None) else act_return None)" for p
  proof (cases p)
    case (Some v)
    have "act_keeps (\<lambda>s. linv mp False s \<and> p = ls_pending_irq s) (linv mp False) (\<lambda>_. linv mp True)
        (vcpu_call (vc_request_interrupt_window V))"
      by (rule act_keeps_pre [OF keeps_request]) simp
    then show ?thesis using Some by simp (rule act_keeps_bind, assumption, rule act_keeps_return)
  qed (auto intro!: act_keeps_return simp: linv_defs)
  from ExitCanceled show ?thesis
    by simp (rule act_keeps_bind [OF keeps_record], rule act_keeps_bind [OF get], simp only: not_None_eq [symmetric], rule req)
qed (simp_all, (rule act_keeps_bind [OF keeps_record], rule act_keeps_return, assumption)+)

lemma keeps_loop_body: "act_keeps (linv mp True) (linv mp False) (\<lambda>_. linv mp True) (loop_body V S D)"
  unfolding loop_body_def
  by (rule act_keeps_bind [OF keeps_poll], rule act_keeps_bind [OF keeps_run], rule keeps_dispatch)

end

section \<open>Several vCPUs\<close>

text \<open>
  Each vCPU thread runs the loop on its own vCPU and pending interrupt; devices and memory are shared.
  A thread's iteration is three steps, between which others may run: the poll under the device lock,
  the guest run, the dispatch with its section under the lock. The stop flag may be set at any time
  and is seen at the top of an iteration.
\<close>

datatype Phase = Top | Poll | Enter | Dispatch VcpuExit | Done "HalError + ExitReason"

record 'v VcpuThread =
  th_vcpu :: 'v
  th_pending_irq :: "u8 option"
  th_exits :: "string list"
  th_phase :: Phase

record ('v, 'u, 'd, 'm) VmSystem =
  vm_threads :: "'v VcpuThread list"
  vm_devices :: "('u, 'd) SharedDevices"
  vm_mem :: 'm
  vm_stop :: bool

definition th_view :: "('v, 'u, 'd, 'm) VmSystem \<Rightarrow> nat \<Rightarrow> ('v, 'u, 'd, 'm) LoopState" where
  "th_view vm i = \<lparr>ls_vcpu = th_vcpu (vm_threads vm ! i), ls_devices = vm_devices vm, ls_mem = vm_mem vm,
     ls_pending_irq = th_pending_irq (vm_threads vm ! i), ls_exits = th_exits (vm_threads vm ! i)\<rparr>"

definition th_put :: "('v, 'u, 'd, 'm) VmSystem \<Rightarrow> nat \<Rightarrow> ('v, 'u, 'd, 'm) LoopState \<Rightarrow> Phase \<Rightarrow> ('v, 'u, 'd, 'm) VmSystem" where
  "th_put vm i s ph = vm\<lparr>vm_threads := (vm_threads vm)[i := \<lparr>th_vcpu = ls_vcpu s, th_pending_irq = ls_pending_irq s,
     th_exits = ls_exits s, th_phase = ph\<rparr>], vm_devices := ls_devices s, vm_mem := ls_mem s\<rparr>"

fun after_phase :: "('a \<Rightarrow> Phase) \<Rightarrow> HalError + 'a \<Rightarrow> Phase" where
  "after_phase f (Inl e) = Done (Inl e)"
| "after_phase f (Inr x) = f x"

fun after_dispatch :: "ExitReason option \<Rightarrow> Phase" where
  "after_dispatch None = Top"
| "after_dispatch (Some reason) = Done (Inr reason)"

inductive vm_step ::
  "('v, 'm) Vcpu \<Rightarrow> 'u Serial \<Rightarrow> ('m, 'd) MmioDevice \<Rightarrow> ('v, 'u, 'd, 'm) VmSystem \<Rightarrow> ('v, 'u, 'd, 'm) VmSystem \<Rightarrow> bool"
  for V S D where
  set_stop: "vm_step V S D vm (vm\<lparr>vm_stop := True\<rparr>)"
| see_stop: "i < length (vm_threads vm) \<Longrightarrow> th_phase (vm_threads vm ! i) = Top \<Longrightarrow> vm_stop vm \<Longrightarrow>
    vm_step V S D vm (th_put vm i ((th_view vm i)\<lparr>ls_exits := ls_exits (th_view vm i) @ [''Canceled'']\<rparr>) (Done (Inr Canceled)))"
| go_on: "i < length (vm_threads vm) \<Longrightarrow> th_phase (vm_threads vm ! i) = Top \<Longrightarrow> \<not> vm_stop vm \<Longrightarrow>
    vm_step V S D vm (th_put vm i (th_view vm i) Poll)"
| poll: "i < length (vm_threads vm) \<Longrightarrow> th_phase (vm_threads vm ! i) = Poll \<Longrightarrow>
    loop_poll_devices V D (th_view vm i) = Some (s', r) \<Longrightarrow>
    vm_step V S D vm (th_put vm i s' (after_phase (\<lambda>_. Enter) r))"
| run: "i < length (vm_threads vm) \<Longrightarrow> th_phase (vm_threads vm ! i) = Enter \<Longrightarrow>
    vcpu_run V (th_view vm i) = Some (s', r) \<Longrightarrow>
    vm_step V S D vm (th_put vm i s' (after_phase Dispatch r))"
| dispatch: "i < length (vm_threads vm) \<Longrightarrow> th_phase (vm_threads vm ! i) = Dispatch ex \<Longrightarrow>
    dispatch_exit V S D ex (th_view vm i) = Some (s', r) \<Longrightarrow>
    vm_step V S D vm (th_put vm i s' (after_phase after_dispatch r))"

inductive_cases vm_stepE: "vm_step V S D vm vm'"

fun phase_armed :: "Phase \<Rightarrow> bool" where
  "phase_armed (Dispatch ex) = (ex \<noteq> ExitInterruptWindow \<and> ex \<noteq> ExitCanceled)"
| "phase_armed (Done r) = False"
| "phase_armed _ = True"

definition vm_inv ::
  "('m \<Rightarrow> bool) \<Rightarrow> ('m \<Rightarrow> u64 \<Rightarrow> nat \<Rightarrow> bool) \<Rightarrow> ('d \<Rightarrow> bool) \<Rightarrow> ('v \<Rightarrow> bool) \<Rightarrow> ('v \<Rightarrow> bool) \<Rightarrow>
   (u64 \<Rightarrow> nat \<Rightarrow> bool) \<Rightarrow> ('v, 'u, 'd, 'm) VmSystem \<Rightarrow> bool" where
  "vm_inv minv mapped dok vok vwin mp vm \<longleftrightarrow>
     shared_ok minv mapped dok mp (vm_devices vm) (vm_mem vm) \<and>
     (\<forall>t\<in>set (vm_threads vm). irq_ok vok vwin (phase_armed (th_phase t)) (th_vcpu t) (th_pending_irq t))"

context vm_platform
begin

lemma vm_inv_view:
  "vm_inv minv mapped dok vok vwin mp vm \<Longrightarrow> i < length (vm_threads vm) \<Longrightarrow>
     linv mp (phase_armed (th_phase (vm_threads vm ! i))) (th_view vm i)"
  by (simp add: vm_inv_def linv_def th_view_def)

lemma vm_inv_put:
  assumes "vm_inv minv mapped dok vok vwin mp vm" "linv mp (phase_armed ph) s'"
  shows "vm_inv minv mapped dok vok vwin mp (th_put vm i s' ph)"
  using assms set_update_subset_insert [of "vm_threads vm" i]
  by (fastforce simp: vm_inv_def linv_def th_put_def)

lemma vm_inv_put_after:
  assumes "vm_inv minv mapped dok vok vwin mp vm" "case r of Inl e \<Rightarrow> linv mp False s' | Inr x \<Rightarrow> linv mp (phase_armed (f x)) s'"
  shows "vm_inv minv mapped dok vok vwin mp (th_put vm i s' (after_phase f r))"
  using assms by (cases r) (auto intro: vm_inv_put)

lemma vm_step_inv:
  assumes "vm_step V S D vm vm'" "vm_inv minv mapped dok vok vwin mp vm"
  shows "vm_inv minv mapped dok vok vwin mp vm'"
  using assms(1)
proof (cases rule: vm_step.cases)
  case set_stop
  with assms(2) show ?thesis by (simp add: vm_inv_def)
next
  case (see_stop i)
  have "linv mp False ((th_view vm i)\<lparr>ls_exits := ls_exits (th_view vm i) @ [''Canceled'']\<rparr>)"
    using linv_weaken [OF vm_inv_view [OF assms(2) see_stop(2)]] by (simp add: linv_defs)
  with see_stop(1) vm_inv_put [OF assms(2)] show ?thesis by simp
next
  case (go_on i)
  with vm_inv_put [OF assms(2)] vm_inv_view [OF assms(2), of i] show ?thesis by simp
next
  case (poll i s' r)
  have "linv mp True (th_view vm i)" using vm_inv_view [OF assms(2) poll(2)] poll(3) by simp
  with keeps_poll [of mp] poll(4) have "case r of Inl e \<Rightarrow> linv mp False s' | Inr x \<Rightarrow> linv mp True s'"
    unfolding act_keeps_def by blast
  with poll(1) vm_inv_put_after [OF assms(2), where r = r and s' = s' and i = i and f = "\<lambda>_. Enter"] show ?thesis by (simp split: sum.splits)
next
  case (run i s' r)
  have "linv mp True (th_view vm i)" using vm_inv_view [OF assms(2) run(2)] run(3) by simp
  with keeps_run [of mp] run(4) have "case r of Inl e \<Rightarrow> linv mp False s' | Inr ex \<Rightarrow> linv mp (\<not> disarms ex) s'"
    unfolding act_keeps_def by blast
  with run(1) vm_inv_put_after [OF assms(2), where r = r and s' = s' and i = i and f = Dispatch] show ?thesis by (simp split: sum.splits)
next
  case (dispatch i ex s' r)
  have "linv mp (\<not> disarms ex) (th_view vm i)" using vm_inv_view [OF assms(2) dispatch(2)] dispatch(3) by simp
  with keeps_dispatch [of mp] dispatch(4) have d: "case r of Inl e \<Rightarrow> linv mp False s' | Inr x \<Rightarrow> linv mp True s'"
    unfolding act_keeps_def by blast
  have "linv mp (phase_armed (after_dispatch x)) s'" if "linv mp True s'" for x
    using that linv_weaken [OF that] by (cases x) simp_all
  with d dispatch(1) vm_inv_put_after [OF assms(2), where r = r and s' = s' and i = i and f = after_dispatch] show ?thesis
    by (simp split: sum.splits)
qed

lemma vm_reachable_inv:
  "(vm_step V S D)\<^sup>*\<^sup>* vm vm' \<Longrightarrow> vm_inv minv mapped dok vok vwin mp vm \<Longrightarrow> vm_inv minv mapped dok vok vwin mp vm'"
  by (induction rule: rtranclp_induct) (auto intro: vm_step_inv)

end

section \<open>When an iteration does not return\<close>

text \<open>Only a device can keep an iteration from returning: every other call is a function.\<close>

definition device_hangs :: "('m, 'd) MmioDevice \<Rightarrow> bool" where
  "device_hangs D \<longleftrightarrow> (\<exists>bus m. poll_devices D bus m = None) \<or> (\<exists>bus gpa data m. bus_write D bus gpa data m = None)"

definition act_total :: "('s, 'a) act \<Rightarrow> bool" where
  "act_total a \<longleftrightarrow> (\<forall>s. a s \<noteq> None)"

lemma act_total_bind: "act_total a \<Longrightarrow> (\<And>x. act_total (f x)) \<Longrightarrow> act_total (act_bind a f)"
  by (auto simp: act_total_def act_bind_def split: option.splits sum.splits)

lemma act_total_option: "act_total a \<Longrightarrow> (\<And>x. act_total (f x)) \<Longrightarrow> act_total (case y of None \<Rightarrow> a | Some x \<Rightarrow> f x)"
  by (cases y) auto

lemma act_total_if: "act_total a \<Longrightarrow> act_total b \<Longrightarrow> act_total (if c then a else b)"
  by simp

lemma calls_total:
  "act_total (vcpu_call f)" "act_total (vcpu_get_regs V)" "act_total (vcpu_run V)" "act_total (act_return x)"
  "act_total (act_update g)" "act_total (act_get h)" "act_total (record_exit l)" "act_total (inject_or_defer V y)"
  "act_total (devices_bus_read D gpa data)" "act_total (devices_serial_write S port val)" "act_total (devices_serial_read S port)"
  by (simp_all add: act_total_def inject_or_defer_def act_defs split: prod.splits)

lemmas act_total_intros = act_total_bind act_total_option act_total_if calls_total

lemma advance_total: "act_total (advance_rip V n)" "act_total (advance_rip_with_rax V n x)"
  unfolding advance_rip_def advance_rip_with_rax_def by (intro act_total_intros)+

lemma handle_io_port_total: "act_total (handle_io_port V S io)"
  unfolding handle_io_port_def by (intro act_total_intros advance_total)

lemma devices_total:
  assumes "\<not> device_hangs D"
  shows "act_total (devices_poll D)" "act_total (devices_bus_write D gpa data)"
proof -
  have "\<And>bus m. poll_devices D bus m \<noteq> None" and "\<And>bus m. bus_write D bus gpa data m \<noteq> None"
    using assms by (metis device_hangs_def, metis device_hangs_def)
  then show "act_total (devices_poll D)" "act_total (devices_bus_write D gpa data)"
    by (auto simp: act_total_def devices_poll_def devices_bus_write_def split: option.splits)
qed

lemma handle_mmio_total: "\<not> device_hangs D \<Longrightarrow> act_total (handle_mmio V D mmio)"
  unfolding handle_mmio_def handle_mmio_read_def handle_mmio_write_def Let_def
  by (intro act_total_intros advance_total devices_total)

lemma dispatch_exit_total: "\<not> device_hangs D \<Longrightarrow> act_total (dispatch_exit V S D ex)"
  by (cases ex) (simp_all only: dispatch_exit.simps,
    (intro act_total_intros handle_mmio_total handle_io_port_total, assumption?)+)

lemma loop_body_total: "\<not> device_hangs D \<Longrightarrow> act_total (loop_body V S D)"
  unfolding loop_body_def loop_poll_devices_def
  by (intro act_total_intros devices_total dispatch_exit_total)

section \<open>Properties\<close>

lemma handle_mmio_decoded:
  assumes "insn_ok i" "take (unat (mmio_instruction_byte_count mmio)) (mmio_instruction_bytes mmio) = encode_insn i @ rest"
  shows "handle_mmio V D mmio s =
    (if mmio_is_write mmio then handle_mmio_write V D mmio (insn_meaning i) (dec_instruction_len (insn_meaning i)) s
     else handle_mmio_read V D mmio (insn_meaning i) (dec_instruction_len (insn_meaning i)) s)"
proof -
  have "take (min n (length xs)) xs = take n xs" for n and xs :: bytes
    by (cases "n \<le> length xs") simp_all
  then show ?thesis using assms(2) by (simp add: handle_mmio_def Let_def decode_encode [OF assms(1)])
qed

text \<open>For the witnesses: a device that latches what is written and raises vector 5, and a vCPU that
  has just executed \<open>mov [rip + 0x10], r8d\<close>.\<close>

definition latch_device :: "(unit, bytes) MmioDevice" where
  "latch_device = \<lparr>dev_read = (\<lambda>d off data. (d, take (length data) (d @ replicate 8 0))),
     dev_write = (\<lambda>d off data m. Some (data, m, Some 5)), dev_poll = (\<lambda>d m. Some (d, m, None))\<rparr>"

definition latch_bus :: "bytes \<Rightarrow> bytes MmioBus" where
  "latch_bus d = \<lparr>bus_slots = [\<lparr>slot_base = 0xD0000000, slot_size = 0x1000, slot_device = d\<rparr>]\<rparr>"

definition latch_state :: "bytes \<Rightarrow> (SimPartition, unit, bytes, unit) LoopState" where
  "latch_state d = \<lparr>ls_vcpu = sim_start, ls_devices = \<lparr>sd_serial = (), sd_mmio_bus = latch_bus d\<rparr>, ls_mem = (),
     ls_pending_irq = None, ls_exits = []\<rparr>"

definition latch_insn :: "bool \<Rightarrow> Insn" where
  "latch_insn store = \<lparr>ins_66 = False, ins_rex = Some 0x44, ins_op = (if store then 0x89 else 0x8B), ins_modrm = 0x05,
     ins_sib = 0, ins_disp = [0x10, 0, 0, 0], ins_imm = []\<rparr>"

definition latch_exit :: "bool \<Rightarrow> MmioExit" where
  "latch_exit store = \<lparr>mmio_gpa = 0xD0000010, mmio_data = replicate 8 0, mmio_len = 0, mmio_is_write = store,
     mmio_instruction_len = 0, mmio_instruction_bytes = encode_insn (latch_insn store) @ replicate 9 0,
     mmio_instruction_byte_count = 16\<rparr>"

lemma latch_facts:
  "insn_ok (latch_insn b)"
  "take (unat (mmio_instruction_byte_count (latch_exit b))) (mmio_instruction_bytes (latch_exit b)) =
     encode_insn (latch_insn b) @ replicate 9 0"
  "insn_meaning (latch_insn b) = \<lparr>dec_register = 8, dec_size = 4, dec_immediate = None, dec_instruction_len = 7\<rparr>"
  "find_slot (latch_bus d) 0xD0000010 = Some 0"
  "whp_vregs sim_regs sim_start = standard_regs_default"
proof -
  show "find_slot (latch_bus d) 0xD0000010 = Some 0"
    by (subst find_slot_iff) (simp_all add: latch_bus_def bus_ok_def slot_ok_def owns_def)
qed (simp_all add: latch_insn_def insn_ok_def displacement_size_def needs_sib_def Let_def word_le_nat_alt latch_exit_def
  encode_insn_def insn_meaning_def rex_of_def operand_size_def whp_vregs_def sim_start_def STANDARD_REG_NAMES_def
  values_to_standard_regs_def val_Reg64_def standard_regs_default_def)



text \<open>C17: a load from device memory. For every well-formed MOV load the handler asks the bus for as many
  bytes as the operand has and puts them, zero-extended, into the whole destination register; RIP
  advances by the length of the instruction, and nothing else of the registers, the memory or the
  pending interrupt changes.\<close>

theorem mmio_load_correct:
  fixes s :: "('v, 'u, 'd, 'm) LoopState"
  assumes "vcpu V vok vregs vwin" "vok (ls_vcpu s)" "insn_ok i" "\<not> mmio_is_write mmio"
    and "take (unat (mmio_instruction_byte_count mmio)) (mmio_instruction_bytes mmio) = encode_insn i @ rest"
    and "bus_read D (sd_mmio_bus (ls_devices s)) (mmio_gpa mmio) (replicate (min (unat (dec_size (insn_meaning i))) 8) 0) = (bus', data)"
  shows "\<exists>v'. handle_mmio V D mmio s = Some (s\<lparr>ls_vcpu := v', ls_devices := (ls_devices s)\<lparr>sd_mmio_bus := bus'\<rparr>\<rparr>, Inr ()) \<and>
    rip (vregs v') = rip (vregs (ls_vcpu s)) + ucast (dec_instruction_len (insn_meaning i)) \<and>
    rflags (vregs v') = rflags (vregs (ls_vcpu s)) \<and>
    (\<forall>j. register_value (vregs v') j =
      (if j = dec_register (insn_meaning i) \<and> j < 16 then of_le_bytes (copy_at (replicate 8 0) 0 data)
       else register_value (vregs (ls_vcpu s)) j))"
proof -
  let ?d = "insn_meaning i" let ?n = "dec_instruction_len ?d"
  have h: "handle_mmio V D mmio s = handle_mmio_read V D mmio ?d ?n s"
    using handle_mmio_decoded [OF assms(3,5), of V D s] assms(4) by simp
  have rv: "register_value (r\<lparr>rip := x\<rparr>) j = register_value r j" for r x j
    by (simp add: register_value_def)
  from vcpu.handle_mmio_read_ok [OF assms(1,2,6), of ?n] h show ?thesis
    by (auto simp: rv set_register_laws)
qed

theorem mmio_load_correct_witness:
  "\<exists>v'. handle_mmio (whp_vcpu sim_api 0) latch_device (latch_exit False) (latch_state [1, 2, 3, 4]) =
      Some ((latch_state [1, 2, 3, 4])\<lparr>ls_vcpu := v'\<rparr>, Inr ()) \<and>
    rip (whp_vregs sim_regs v') = 7 \<and> register_value (whp_vregs sim_regs v') 8 = 0x04030201"
proof -
  have r: "bus_read latch_device (sd_mmio_bus (ls_devices (latch_state [1, 2, 3, 4]))) (mmio_gpa (latch_exit False))
      (replicate (min (unat (dec_size (insn_meaning (latch_insn False)))) 8) 0) = (latch_bus [1, 2, 3, 4], [1, 2, 3, 4])"
    by (simp add: latch_state_def bus_read_def latch_facts latch_exit_def latch_device_def set_device_def Let_def)
       (simp add: latch_bus_def)
  have ld: "\<not> mmio_is_write (latch_exit False)" by (simp add: latch_exit_def)
  obtain v' where "handle_mmio (whp_vcpu sim_api 0) latch_device (latch_exit False) (latch_state [1, 2, 3, 4]) =
      Some ((latch_state [1, 2, 3, 4])\<lparr>ls_vcpu := v'\<rparr>, Inr ())" "rip (whp_vregs sim_regs v') = 7"
    and reg: "\<And>j. register_value (whp_vregs sim_regs v') j =
      (if j = 8 \<and> j < 16 then of_le_bytes (copy_at (replicate 8 0) 0 [1, 2, 3, 4])
       else register_value standard_regs_default j)"
    using mmio_load_correct [OF sim.vcpu_axioms TrueI latch_facts(1) ld latch_facts(2) r]
    by (auto simp: latch_state_def latch_facts(3,5) standard_regs_default_def)
  moreover have "register_value (whp_vregs sim_regs v') 8 = 0x04030201"
  proof -
    have r: "replicate 8 0 = [0, 0, 0, 0, 0, 0, 0, 0 :: u8]" by (simp add: numeral_eq_Suc)
    show ?thesis using reg [of 8] by (simp add: r copy_at_def)
  qed
  ultimately show ?thesis by blast
qed

text \<open>A port access. COM1 accesses reach the UART register at the offset in the port range, reads of
  the interrupt-controller ports return 0 and of any other port 0xFF, other writes are dropped; in
  every case RIP advances by the length of the instruction, a read leaves its value in RAX, and
  memory, bus and pending interrupt are unchanged.\<close>

theorem io_exit_correct:
  assumes "vcpu V vok vregs vwin" "vok (ls_vcpu s)"
  shows "\<exists>v' u'. handle_io_port V S io s = Some (s\<lparr>ls_vcpu := v', ls_devices := (ls_devices s)\<lparr>sd_serial := u'\<rparr>\<rparr>, Inr ()) \<and>
    (let u = sd_serial (ls_devices s); off = io_port io - 0x3F8; n = ucast (io_instruction_len io); r = vregs (ls_vcpu s) in
     if io_is_write io
     then vregs v' = r\<lparr>rip := rip r + n\<rparr> \<and>
       u' = (if 0x3F8 \<le> io_port io \<and> io_port io \<le> 0x3FF then fst (uart_write S u (ucast off) (io_data io ! 0)) else u)
     else if 0x3F8 \<le> io_port io \<and> io_port io \<le> 0x3FF
     then vregs v' = r\<lparr>rip := rip r + n, rax := ucast (snd (uart_read S u (ucast off)))\<rparr> \<and> u' = fst (uart_read S u (ucast off))
     else vregs v' = r\<lparr>rip := rip r + n, rax := (if io_port io \<in> {0x20, 0x21, 0xA0, 0xA1} then 0 else 0xFF)\<rparr> \<and> u' = u)"
proof -
  let ?p = "io_port io" and ?n = "io_instruction_len io"
  have hp: "handles_port ?p \<longleftrightarrow> 0x3F8 \<le> ?p \<and> ?p \<le> 0x3FF"
    by (auto simp: handles_port_def COM1_BASE_def UART_PORT_COUNT_def word_le_nat_alt word_less_nat_alt)
  have pic: "List.member PIC_PORTS ?p \<longleftrightarrow> ?p \<in> {0x20, 0x21, 0xA0, 0xA1}"
    by (simp add: PIC_PORTS_def)
  obtain u b where rd: "uart_read S (sd_serial (ls_devices s)) (ucast (?p - 0x3F8)) = (u, b)" by fastforce
  note ok = vcpu.advance_rip_ok [OF assms(1)] vcpu.advance_rip_with_rax_ok [OF assms(1)]
  let ?dv = "\<lambda>u. s\<lparr>ls_devices := (ls_devices s)\<lparr>sd_serial := u\<rparr>\<rparr>"
  have id: "?dv (sd_serial (ls_devices s)) = s" by simp
  show ?thesis
  proof (cases "handles_port ?p")
    case True
    show ?thesis
    proof (cases "io_is_write io")
      case w: True
      let ?u = "fst (uart_write S (sd_serial (ls_devices s)) (ucast (?p - 0x3F8)) (io_data io ! 0))"
      have "handle_io_port V S io s = advance_rip V ?n (?dv ?u)"
        using True w by (simp add: handle_io_port_def act_defs pio_write_def COM1_BASE_def)
      moreover obtain v' where "advance_rip V ?n (?dv ?u) = Some ((?dv ?u)\<lparr>ls_vcpu := v'\<rparr>, Inr ())"
        "vregs v' = (vregs (ls_vcpu s))\<lparr>rip := rip (vregs (ls_vcpu s)) + ucast ?n\<rparr>"
        using ok(1) [of "?dv ?u" ?n] assms(2) by auto
      ultimately show ?thesis using w True hp by (intro exI [of _ v'] exI [of _ ?u]) (simp add: Let_def)
    next
      case r: False
      have "handle_io_port V S io s = advance_rip_with_rax V ?n (ucast b) (?dv u)"
        using True r rd by (simp add: handle_io_port_def act_defs pio_read_def COM1_BASE_def)
      moreover obtain v' where "advance_rip_with_rax V ?n (ucast b) (?dv u) = Some ((?dv u)\<lparr>ls_vcpu := v'\<rparr>, Inr ())"
        "vregs v' = (vregs (ls_vcpu s))\<lparr>rip := rip (vregs (ls_vcpu s)) + ucast ?n, rax := ucast b\<rparr>"
        using ok(2) [of "?dv u" ?n "ucast b"] assms(2) by auto
      ultimately show ?thesis using r True hp rd by (intro exI [of _ v'] exI [of _ u]) (simp add: Let_def)
    qed
  next
    case False
    define x :: u64 where "x = (if ?p \<in> {0x20, 0x21, 0xA0, 0xA1} then 0 else 0xFF)"
    have "handle_io_port V S io s = (if io_is_write io then advance_rip V ?n s else advance_rip_with_rax V ?n x s)"
      using False pic by (simp add: handle_io_port_def x_def)
    moreover obtain v1 where "advance_rip V ?n s = Some (s\<lparr>ls_vcpu := v1\<rparr>, Inr ())"
      "vregs v1 = (vregs (ls_vcpu s))\<lparr>rip := rip (vregs (ls_vcpu s)) + ucast ?n\<rparr>"
      using ok(1) [of s ?n] assms(2) by auto
    moreover obtain v2 where "advance_rip_with_rax V ?n x s = Some (s\<lparr>ls_vcpu := v2\<rparr>, Inr ())"
      "vregs v2 = (vregs (ls_vcpu s))\<lparr>rip := rip (vregs (ls_vcpu s)) + ucast ?n, rax := x\<rparr>"
      using ok(2) [of s ?n x] assms(2) by auto
    moreover have nc: "(0x3F8 \<le> ?p \<and> ?p \<le> 0x3FF) = False" using False hp by simp
    ultimately show ?thesis
      by (intro exI [of _ "if io_is_write io then v1 else v2"] exI [of _ "sd_serial (ls_devices s)"]) (simp add: Let_def nc x_def [symmetric] del: insert_iff)
  qed
qed

theorem io_exit_correct_witness:
  "\<exists>v' u'. handle_io_port (whp_vcpu sim_api 0) \<lparr>uart_write = (\<lambda>u off b. (u, Inr ())), uart_read = (\<lambda>u off. (u, 0x60))\<rparr>
       \<lparr>io_port = 0x3FD, io_data = [0, 0, 0, 0], io_len = 1, io_is_write = False, io_instruction_len = 1\<rparr> (latch_state []) =
     Some ((latch_state [])\<lparr>ls_vcpu := v', ls_devices := \<lparr>sd_serial = u', sd_mmio_bus = latch_bus []\<rparr>\<rparr>, Inr ()) \<and>
     rax (whp_vregs sim_regs v') = 0x60"
  using io_exit_correct [OF sim.vcpu_axioms TrueI, of "\<lparr>uart_write = (\<lambda>u off b. (u, Inr ())), uart_read = (\<lambda>u off. (u, 0x60))\<rparr>"
    "\<lparr>io_port = 0x3FD, io_data = [0, 0, 0, 0], io_len = 1, io_is_write = False, io_instruction_len = 1\<rparr>" "latch_state []"]
  by (auto simp: latch_state_def Let_def)


lemma latch_never_hangs: "\<not> device_hangs latch_device"
proof -
  have "\<exists>ss'. poll_slots latch_device ss m = Some (ss', m, None)" for ss m
  proof (induction ss)
    case (Cons s ss)
    then obtain ss' where "poll_slots latch_device ss m = Some (ss', m, None)" by blast
    then show ?case by (simp add: latch_device_def)
  qed simp
  then have "poll_devices latch_device bus m \<noteq> None" for bus m
  proof -
    obtain ss' where "poll_slots latch_device (bus_slots bus) m = Some (ss', m, None)"
      using \<open>\<And>ss m. \<exists>ss'. poll_slots latch_device ss m = Some (ss', m, None)\<close> by blast
    then show ?thesis by (simp add: poll_devices_def)
  qed
  moreover have "bus_write latch_device bus gpa data m \<noteq> None" for bus gpa data m
    by (simp add: bus_write_def latch_device_def Let_def split: option.split)
  ultimately show ?thesis by (simp add: device_hangs_def)
qed


end
