(* ===== verification/Hal_Partition.thy ===== *)
theory Hal_Partition
  imports Guest_Memory
begin

text \<open>
  The traits \<open>Hypervisor\<close> and \<open>Partition\<close> of \<open>hitz-hal/src/traits.rs\<close> as a record of operations over
  partition states, and the mapping of guest memory into a partition (\<open>hitz-vmm/src/memory.rs\<close>). A failed
  operation ends the boot, which drops the partition, so only the error is returned. A host pointer
  is the number of the region it points into and an offset.
\<close>

section \<open>The traits\<close>

record MemFlags =
  mf_read :: bool
  mf_write :: bool
  mf_execute :: bool

definition READ_ONLY :: MemFlags where
  "READ_ONLY = \<lparr>mf_read = True, mf_write = False, mf_execute = False\<rparr>"

definition READ_WRITE :: MemFlags where
  "READ_WRITE = \<lparr>mf_read = True, mf_write = True, mf_execute = False\<rparr>"

definition READ_WRITE_EXEC :: MemFlags where
  "READ_WRITE_EXEC = \<lparr>mf_read = True, mf_write = True, mf_execute = True\<rparr>"

record PartitionConfig =
  pc_vcpu_count :: u32
  pc_memory_size :: u64

record ('p, 'v) Hypervisor =
  hv_create_partition :: "PartitionConfig \<Rightarrow> HalError + 'p"
  hv_map_memory :: "'p \<Rightarrow> u64 \<Rightarrow> nat \<times> nat \<Rightarrow> nat \<Rightarrow> MemFlags \<Rightarrow> HalError + 'p"
  hv_create_vcpu :: "'p \<Rightarrow> u32 \<Rightarrow> HalError + 'p \<times> 'v"

fun map_regions :: "('p, 'v) Hypervisor \<Rightarrow> MemFlags \<Rightarrow> (nat \<times> GuestRegion) list \<Rightarrow> 'p \<Rightarrow> MemError + 'p" where
  "map_regions Hv flags [] p = Inr p"
| "map_regions Hv flags ((i, r) # rs) p =
     (case hv_map_memory Hv p (gpa_start r) (i, 0) (region_size r) flags of
        Inl e \<Rightarrow> Inl (MemHal e)
      | Inr p \<Rightarrow> map_regions Hv flags rs p)"

definition map_to_partition :: "('p, 'v) Hypervisor \<Rightarrow> GuestMemory \<Rightarrow> MemFlags \<Rightarrow> 'p \<Rightarrow> MemError + 'p" where
  "map_to_partition Hv m flags p = map_regions Hv flags (enumerate 0 (regions m)) p"

section \<open>Contract\<close>

text \<open>
  \<open>view p a\<close> is the host byte and the rights behind guest address \<open>a\<close>. A new partition maps nothing;
  mapping a range changes the view of exactly that range; creating a vCPU does not change the view.
\<close>

type_synonym MemView = "u64 \<Rightarrow> ((nat \<times> nat) \<times> MemFlags) option"

definition map_range :: "MemView \<Rightarrow> u64 \<Rightarrow> nat \<times> nat \<Rightarrow> nat \<Rightarrow> MemFlags \<Rightarrow> MemView" where
  "map_range v gpa hva n flags =
     (\<lambda>a. if unat gpa \<le> unat a \<and> unat a < unat gpa + n then Some ((fst hva, snd hva + (unat a - unat gpa)), flags) else v a)"

definition map_region :: "MemFlags \<Rightarrow> MemView \<Rightarrow> nat \<times> GuestRegion \<Rightarrow> MemView" where
  "map_region flags v ir = map_range v (gpa_start (snd ir)) (fst ir, 0) (region_size (snd ir)) flags"

locale hv_partition =
  fixes Hv :: "('p, 'v) Hypervisor" and view :: "'p \<Rightarrow> MemView"
  assumes created: "hv_create_partition Hv cfg = Inr p \<Longrightarrow> view p = (\<lambda>a. None)"
    and mapped: "unat gpa + n < 2 ^ 64 \<Longrightarrow> hv_map_memory Hv p gpa hva n flags = Inr p' \<Longrightarrow> view p' = map_range (view p) gpa hva n flags"
    and vcpu_created: "hv_create_vcpu Hv p i = Inr (p', v) \<Longrightarrow> view p' = view p"

lemma map_region_at:
  "map_region flags v (i, r) a =
     (if covers r a (Suc 0) then Some ((i, unat a - unat (gpa_start r)), flags) else v a)"
  by (auto simp: map_region_def map_range_def covers_def)

lemma map_region_apart: "\<forall>ir\<in>set irs. \<not> covers (snd ir) a (Suc 0) \<Longrightarrow> foldl (map_region flags) v irs a = v a"
proof (induction irs arbitrary: v)
  case (Cons ir irs)
  then show ?case by (cases ir) (simp add: map_region_at)
qed simp

lemma map_region_hit:
  "ir \<in> set irs \<Longrightarrow> covers (snd ir) a (Suc 0) \<Longrightarrow> \<forall>jr\<in>set irs. covers (snd jr) a (Suc 0) \<longrightarrow> jr = ir \<Longrightarrow>
   foldl (map_region flags) v irs a = Some ((fst ir, unat a - unat (gpa_start (snd ir))), flags)"
proof (induction irs arbitrary: v)
  case (Cons jr irs)
  show ?case
  proof (cases "ir \<in> set irs")
    case False
    with Cons.prems have "jr = ir" "\<forall>kr\<in>set irs. \<not> covers (snd kr) a (Suc 0)" by auto
    with Cons.prems(2) show ?thesis by (cases ir) (simp add: map_region_apart map_region_at)
  next
    case True
    with Cons.IH [OF True Cons.prems(2)] Cons.prems(3) show ?thesis by simp
  qed
qed simp

text \<open>What the VMM reads and writes at a guest address is the byte \<open>gpa_to_hva\<close> resolves it to.\<close>

lemma gpa_to_hva_Some:
  assumes "gm_inv m"
  shows "gpa_to_hva m a = Some (i, off) \<longleftrightarrow>
    i < length (regions m) \<and> covers (regions m ! i) a (Suc 0) \<and> off = unat a - unat (gpa_start (regions m ! i))"
proof -
  have "gpa_to_hva m a = Some (i, off) \<longleftrightarrow> (\<exists>rem. find_region m a (Suc 0) = Inr ((i, off), rem))"
    by (auto simp: gpa_to_hva_def split: sum.splits)
  then show ?thesis unfolding find_region_Inr [OF assms zero_less_Suc] by blast
qed

lemma map_regions_all:
  assumes "gm_inv m"
  shows "foldl (map_region flags) (\<lambda>a. None) (enumerate 0 (regions m)) a = map_option (\<lambda>hva. (hva, flags)) (gpa_to_hva m a)"
proof (cases "gpa_to_hva m a")
  case None
  then have "\<not> (i < length (regions m) \<and> covers (regions m ! i) a (Suc 0))" for i
    using gpa_to_hva_Some [OF assms, of a i] by auto
  then have "\<forall>ir\<in>set (enumerate 0 (regions m)). \<not> covers (snd ir) a (Suc 0)"
    by (auto simp: in_set_enumerate_eq)
  with None show ?thesis by (simp add: map_region_apart)
next
  case (Some hva)
  obtain i off where h: "hva = (i, off)" by (cases hva)
  note g = Some [unfolded h gpa_to_hva_Some [OF assms]]
  let ?e = "enumerate 0 (regions m)"
  have h1: "(i, regions m ! i) \<in> set ?e" and h2: "covers (snd (i, regions m ! i)) a (Suc 0)"
    using g by (simp_all add: in_set_enumerate_eq)
  have h3: "\<forall>jr\<in>set ?e. covers (snd jr) a (Suc 0) \<longrightarrow> jr = (i, regions m ! i)"
  proof safe
    fix j r assume e: "(j, r) \<in> set ?e" "covers (snd (j, r)) a (Suc 0)"
    then have r: "j < length (regions m)" "r = regions m ! j" by (simp_all add: in_set_enumerate_eq)
    then show "j = i" using covers_unique [OF assms r(1), of i a 0 0] e(2) g by simp
    with r(2) show "r = regions m ! i" by simp
  qed
  show ?thesis unfolding map_region_hit [OF h1 h2 h3] Some h using g by simp
qed

context hv_partition
begin

lemma map_regions_view:
  "map_regions Hv flags irs p = Inr p' \<Longrightarrow> \<forall>ir\<in>set irs. region_end (snd ir) < 2 ^ 64 \<Longrightarrow>
   view p' = foldl (map_region flags) (view p) irs"
proof (induction irs arbitrary: p)
  case (Cons ir irs)
  obtain i r where ir: "ir = (i, r)" by (cases ir)
  with Cons.prems(1) obtain p1 where p1: "hv_map_memory Hv p (gpa_start r) (i, 0) (region_size r) flags = Inr p1"
    and "map_regions Hv flags irs p1 = Inr p'" by (auto split: sum.splits)
  with Cons.IH Cons.prems(2) mapped [OF _ p1] ir show ?case by (simp add: map_region_def)
qed simp

lemma map_to_partition_view:
  assumes "gm_inv m" "hv_create_partition Hv cfg = Inr p" "map_to_partition Hv m flags p = Inr p'"
  shows "view p' a = map_option (\<lambda>hva. (hva, flags)) (gpa_to_hva m a)"
proof -
  have "\<forall>ir\<in>set (enumerate 0 (regions m)). region_end (snd ir) < 2 ^ 64"
    using gm_inv_nth [OF assms(1)] by (auto simp: in_set_enumerate_eq region_ok_def)
  then have "view p' = foldl (map_region flags) (\<lambda>a. None) (enumerate 0 (regions m))"
    using map_regions_view assms(2,3) created by (simp add: map_to_partition_def)
  then show ?thesis by (simp add: map_regions_all [OF assms(1)])
qed

end

section \<open>Writes keep the layout\<close>

definition gm_layout :: "GuestMemory \<Rightarrow> (u64 \<times> nat) list" where
  "gm_layout m = map (\<lambda>r. (gpa_start r, region_size r)) (regions m)"

lemma gpa_to_hva_layout:
  assumes "gm_inv m" "gm_inv m'" "gm_layout m = gm_layout m'"
  shows "gpa_to_hva m = gpa_to_hva m'"
proof
  fix a
  have l: "length (regions m) = length (regions m')" using assms(3) by (metis gm_layout_def length_map)
  have "gpa_start (regions m ! i) = gpa_start (regions m' ! i)" "region_size (regions m ! i) = region_size (regions m' ! i)"
    if "i < length (regions m)" for i
    using arg_cong [OF assms(3), of "\<lambda>xs. xs ! i"] that l by (simp_all add: gm_layout_def)
  then have "gpa_to_hva m a = Some (i, off) \<longleftrightarrow> gpa_to_hva m' a = Some (i, off)" for i off
    unfolding gpa_to_hva_Some [OF assms(1)] gpa_to_hva_Some [OF assms(2)] using l by (auto simp: covers_def)
  then show "gpa_to_hva m a = gpa_to_hva m' a"
    by (cases "gpa_to_hva m a"; cases "gpa_to_hva m' a") auto
qed

lemma map_update_same: "f x = f (xs ! i) \<Longrightarrow> map f (xs[i := x]) = map f xs"
  by (cases "i < length xs") (simp_all add: map_update list_update_same_conv list_update_beyond)

lemma write_slice_layout: "write_slice m a data = Inr m' \<Longrightarrow> gm_layout m' = gm_layout m"
proof (cases "data = []")
  case False
  assume "write_slice m a data = Inr m'"
  with False obtain hva where "m' = write_block m hva data" by (auto simp: write_slice_def split: sum.splits)
  then show ?thesis by (simp add: write_block_def gm_layout_def map_update_same)
qed (simp add: write_slice_def)

lemma write_zeroes_layout: "write_zeroes_slices m a n = (m', e) \<Longrightarrow> gm_layout m' = gm_layout m"
proof (induction m a n rule: write_zeroes_slices.induct)
  case (1 m a n)
  show ?case
  proof (cases "n = 0")
    case False
    let ?c = "min n chunk_size"
    show ?thesis
    proof (cases "write_slice m a (replicate ?c 0)")
      case (Inr m1)
      then have "write_zeroes_slices m1 (saturating_add a (of_nat ?c)) (n - ?c) = (m', e)"
        using "1.prems" False by (simp add: write_zeroes_slices.simps [of m a n] Let_def)
      then show ?thesis using "1.IH" [OF False refl Inr] write_slice_layout [OF Inr] by simp
    qed (use "1.prems" False in \<open>simp add: write_zeroes_slices.simps [of m a n] Let_def\<close>)
  qed (use "1.prems" in \<open>simp add: write_zeroes_slices.simps\<close>)
qed

end
