(* ===== verification/Whp_Partition.thy ===== *)
theory Whp_Partition
  imports Hal_Partition Whp_Vcpu
begin

text \<open>
  The Windows Hypervisor Platform partition (\<open>hitz-whp/src/partition.rs\<close>, \<open>inner.rs\<close>, \<open>lib.rs\<close>). The platform
  calls are the record \<open>WhpPartitionApi\<close> over the state \<open>'w\<close> of the partition behind a handle, the same
  state the vCPU calls of \<open>WhpApi\<close> act on. The back end implements the traits of \<open>Hal_Partition\<close> and, on a
  platform that maps what it is asked to map, satisfies their contract.
\<close>

section \<open>The platform\<close>

datatype WHV_PARTITION_PROPERTY = ProcessorCount u32 | LocalApicEmulationXApic

record 'w WhpPartitionApi =
  WHvCreatePartition :: "string + 'w"
  WHvSetPartitionProperty :: "'w \<Rightarrow> WHV_PARTITION_PROPERTY \<Rightarrow> 'w \<times> (string + unit)"
  WHvSetupPartition :: "'w \<Rightarrow> 'w \<times> (string + unit)"
  WHvMapGpaRange :: "'w \<Rightarrow> nat \<times> nat \<Rightarrow> u64 \<Rightarrow> u64 \<Rightarrow> u32 \<Rightarrow> 'w \<times> (string + unit)"
  WHvUnmapGpaRange :: "'w \<Rightarrow> u64 \<Rightarrow> u64 \<Rightarrow> 'w \<times> (string + unit)"
  WHvDeletePartition :: "'w \<Rightarrow> 'w option \<times> (string + unit)"

section \<open>The partition\<close>

record 'w WhpPartition =
  wp_state :: 'w
  wp_vcpu_count :: u32

text \<open>The partition that exists on the platform after the call, owned or not, is returned beside the result.\<close>

definition whp_partition_new ::
  "'w WhpPartitionApi \<Rightarrow> PartitionConfig \<Rightarrow> 'w option \<times> (HalError + 'w WhpPartition)" where
  "whp_partition_new P cfg =
     (case WHvCreatePartition P of
        Inl e \<Rightarrow> (None, Inl (CreatePartition (''WHvCreatePartition: '' @ e)))
      | Inr w \<Rightarrow>
     (case WHvSetPartitionProperty P w (ProcessorCount (pc_vcpu_count cfg)) of
        (w, Inl e) \<Rightarrow> (Some w, Inl (SetupPartition (''set ProcessorCount: '' @ e)))
      | (w, Inr _) \<Rightarrow>
     (case WHvSetPartitionProperty P w LocalApicEmulationXApic of
        (w, Inl e) \<Rightarrow> (Some w, Inl (SetupPartition (''set LocalApicEmulationMode: '' @ e)))
      | (w, Inr _) \<Rightarrow>
     (case WHvSetupPartition P w of
        (w, Inl e) \<Rightarrow> (Some w, Inl (SetupPartition (''WHvSetupPartition: '' @ e)))
      | (w, Inr _) \<Rightarrow> (Some w, Inr \<lparr>wp_state = w, wp_vcpu_count = pc_vcpu_count cfg\<rparr>)))))"

definition whp_partition_drop :: "'w WhpPartitionApi \<Rightarrow> 'w WhpPartition \<Rightarrow> 'w option" where
  "whp_partition_drop P p = fst (WHvDeletePartition P (wp_state p))"

definition mem_flags_to_whp :: "MemFlags \<Rightarrow> u32" where
  "mem_flags_to_whp flags =
     (let bits = 0; bits = (if mf_read flags then bits OR 1 else bits); bits = (if mf_write flags then bits OR 2 else bits)
      in if mf_execute flags then bits OR 4 else bits)"

definition whp_map_memory ::
  "'w WhpPartitionApi \<Rightarrow> 'w WhpPartition \<Rightarrow> u64 \<Rightarrow> nat \<times> nat \<Rightarrow> nat \<Rightarrow> MemFlags \<Rightarrow> 'w WhpPartition \<times> (HalError + unit)" where
  "whp_map_memory P p gpa hva sz flags =
     (let whp_flags = mem_flags_to_whp flags; (w, r) = WHvMapGpaRange P (wp_state p) hva gpa (of_nat sz) whp_flags in
      (p\<lparr>wp_state := w\<rparr>, map_err (\<lambda>e. MapMemory gpa sz (''WHvMapGpaRange: '' @ e)) r))"

definition whp_unmap_memory :: "'w WhpPartitionApi \<Rightarrow> 'w WhpPartition \<Rightarrow> u64 \<Rightarrow> nat \<Rightarrow> 'w WhpPartition \<times> (HalError + unit)" where
  "whp_unmap_memory P p gpa sz =
     (let (w, r) = WHvUnmapGpaRange P (wp_state p) gpa (of_nat sz) in
      (p\<lparr>wp_state := w\<rparr>, map_err (\<lambda>e. UnmapMemory gpa (''WHvUnmapGpaRange: '' @ e)) r))"

definition whp_create_vcpu :: "('w, 'm) WhpApi \<Rightarrow> 'w WhpPartition \<Rightarrow> u32 \<Rightarrow> 'w WhpPartition \<times> (HalError + u32)" where
  "whp_create_vcpu A p vid =
     (if wp_vcpu_count p \<le> vid
      then (p, Inl (CreateVcpu vid (''vCPU index '' @ show_dec (unat vid) @ '' exceeds partition limit '' @ show_dec (unat (wp_vcpu_count p)))))
      else let (w, r) = whp_new A (wp_state p) vid in (p\<lparr>wp_state := w\<rparr>, r))"

definition whp_request_interrupt :: "('w, 'm) WhpApi \<Rightarrow> 'w WhpPartition \<Rightarrow> u32 \<Rightarrow> u8 \<Rightarrow> 'w WhpPartition \<times> (HalError + unit)" where
  "whp_request_interrupt A p vid vector =
     (let (w, r) = WHvCancelRunVirtualProcessor A (wp_state p) vid in
      (p\<lparr>wp_state := w\<rparr>, map_err (\<lambda>e. InterruptRequest (''WHvCancelRunVirtualProcessor: '' @ e)) r))"

text \<open>A vCPU reaches the partition through the shared handle: its state is the partition's.\<close>

definition whp_hypervisor :: "'w WhpPartitionApi \<Rightarrow> ('w, 'm) WhpApi \<Rightarrow> ('w WhpPartition, 'w) Hypervisor" where
  "whp_hypervisor P A =
     \<lparr>hv_create_partition = (\<lambda>cfg. snd (whp_partition_new P cfg)),
      hv_map_memory = (\<lambda>p gpa hva sz flags. case whp_map_memory P p gpa hva sz flags of
         (p, Inl e) \<Rightarrow> Inl e | (p, Inr _) \<Rightarrow> Inr p),
      hv_create_vcpu = (\<lambda>p i. case whp_create_vcpu A p i of
         (p, Inl e) \<Rightarrow> Inl e | (p, Inr index) \<Rightarrow> Inr (p, wp_state p))\<rparr>"

section \<open>Contract\<close>

text \<open>
  What is relied on of the platform: \<open>gmap w a\<close> is the host byte and the access bits behind guest address
  \<open>a\<close>. A new partition maps nothing, its configuration and its vCPUs do not touch the map, and a
  successful mapping call maps exactly the range it is given.
\<close>

definition whp_flags_of :: "u32 \<Rightarrow> MemFlags" where
  "whp_flags_of bits = \<lparr>mf_read = bit bits 0, mf_write = bit bits 1, mf_execute = bit bits 2\<rparr>"

lemma mem_flags_roundtrip: "whp_flags_of (mem_flags_to_whp flags) = flags"
  by (cases flags) (auto simp: whp_flags_of_def mem_flags_to_whp_def bit_or_iff bit_numeral_rec bit_1_iff)

definition whp_view :: "('w \<Rightarrow> u64 \<Rightarrow> ((nat \<times> nat) \<times> u32) option) \<Rightarrow> 'w WhpPartition \<Rightarrow> MemView" where
  "whp_view gmap p = (\<lambda>a. map_option (\<lambda>(hva, bits). (hva, whp_flags_of bits)) (gmap (wp_state p) a))"

locale whp_partitions =
  fixes P :: "'w WhpPartitionApi" and A :: "('w, 'm) WhpApi"
    and gmap :: "'w \<Rightarrow> u64 \<Rightarrow> ((nat \<times> nat) \<times> u32) option"
  assumes create_empty: "WHvCreatePartition P = Inr w \<Longrightarrow> gmap w = (\<lambda>a. None)"
    and property_keeps: "WHvSetPartitionProperty P w prop = (w', res) \<Longrightarrow> gmap w' = gmap w"
    and setup_keeps: "WHvSetupPartition P w = (w', res) \<Longrightarrow> gmap w' = gmap w"
    and vcpu_keeps: "WHvCreateVirtualProcessor A w i = (w', res) \<Longrightarrow> gmap w' = gmap w"
    and map_sets: "unat gpa + unat n < 2 ^ 64 \<Longrightarrow> WHvMapGpaRange P w hva gpa n bits = (w', Inr ()) \<Longrightarrow>
      gmap w' = (\<lambda>a. if unat gpa \<le> unat a \<and> unat a < unat gpa + unat n
                     then Some ((fst hva, snd hva + (unat a - unat gpa)), bits) else gmap w a)"

sublocale whp_partitions \<subseteq> hv_partition "whp_hypervisor P A" "whp_view gmap"
proof unfold_locales
  fix cfg p assume "hv_create_partition (whp_hypervisor P A) cfg = Inr p"
  then have "gmap (wp_state p) = (\<lambda>a. None)"
    by (auto simp: whp_hypervisor_def whp_partition_new_def split: sum.splits prod.splits
        dest!: create_empty property_keeps setup_keeps)
  then show "whp_view gmap p = (\<lambda>a. None)" by (simp add: whp_view_def)
next
  fix gpa n p hva flags p'
  assume b: "unat gpa + n < 2 ^ 64" and m: "hv_map_memory (whp_hypervisor P A) p gpa hva n flags = Inr p'"
  then obtain w' where w: "WHvMapGpaRange P (wp_state p) hva gpa (of_nat n) (mem_flags_to_whp flags) = (w', Inr ())"
    "p' = p\<lparr>wp_state := w'\<rparr>"
    by (auto simp: whp_hypervisor_def whp_map_memory_def Let_def split: prod.splits sum.splits)
  have n: "unat (of_nat n :: u64) = n" using b by (intro unat_of_nat_eq) simp
  show "whp_view gmap p' = map_range (whp_view gmap p) gpa hva n flags"
    using map_sets [OF _ w(1)] b n w(2)
    by (auto simp: whp_view_def map_range_def fun_eq_iff mem_flags_roundtrip)
next
  fix p i p' v assume "hv_create_vcpu (whp_hypervisor P A) p i = Inr (p', v)"
  then have "gmap (wp_state p') = gmap (wp_state p)"
    by (auto simp: whp_hypervisor_def whp_create_vcpu_def whp_new_def Let_def
        split: prod.splits sum.splits if_splits dest: vcpu_keeps)
  then show "whp_view gmap p' = whp_view gmap p" by (simp add: whp_view_def)
qed

section \<open>A platform that satisfies the contract\<close>

definition sim_map_range :: "SimPartition \<Rightarrow> nat \<times> nat \<Rightarrow> u64 \<Rightarrow> u64 \<Rightarrow> u32 \<Rightarrow> SimPartition" where
  "sim_map_range w hva gpa n bits = w\<lparr>sim_map := (\<lambda>a. if unat gpa \<le> unat a \<and> unat a < unat gpa + unat n
     then Some ((fst hva, snd hva + (unat a - unat gpa)), bits) else sim_map w a)\<rparr>"

definition sim_partition_api :: "SimPartition WhpPartitionApi" where
  "sim_partition_api = \<lparr>WHvCreatePartition = Inr sim_start, WHvSetPartitionProperty = (\<lambda>w p. (w, Inr ())),
     WHvSetupPartition = (\<lambda>w. (w, Inr ())), WHvMapGpaRange = (\<lambda>w hva gpa n bits. (sim_map_range w hva gpa n bits, Inr ())),
     WHvUnmapGpaRange = (\<lambda>w gpa n. (w\<lparr>sim_map := (\<lambda>a. if unat gpa \<le> unat a \<and> unat a < unat gpa + unat n then None else sim_map w a)\<rparr>, Inr ())),
     WHvDeletePartition = (\<lambda>w. (None, Inr ()))\<rparr>"

interpretation simpart: whp_partitions sim_partition_api sim_api sim_map
  by unfold_locales
    (auto simp: sim_partition_api_def sim_api_def sim_start_def sim_map_range_def split: if_splits)

section \<open>Creation\<close>

text \<open>A partition whose set-up fails after its creation stays on the platform: no owner is returned that
  would delete it.\<close>

lemma failed_setup_leaks:
  assumes "whp_partition_new P cfg = (left, Inl e)"
  shows "left = None \<longleftrightarrow> (\<exists>s. WHvCreatePartition P = Inl s)"
  using assms by (auto simp: whp_partition_new_def split: sum.splits prod.splits)

end
