(* ===== verification/Virtio_Block.thy ===== *)
theory Virtio_Block
  imports Mmio_Transport
begin

text \<open>
  The virtio block device of \<open>hitz-devices/src/virtio/block.rs\<close>: requests of three descriptors
  (header, data, status) that move sectors between a disk file and guest memory.

  The host file is modelled by its bytes and cursor. An input or output operation of the host may
  fail, after having transferred some bytes; which operations fail is decided by \<open>file_faults\<close>, a
  function of the number of operations done so far, so every failure pattern is covered.
\<close>

section \<open>The disk file\<close>

record File =
  file_bytes :: bytes
  file_pos :: nat
  file_ops :: nat
  file_faults :: "nat \<Rightarrow> nat option"

definition file_seek :: "File \<Rightarrow> nat \<Rightarrow> File \<times> bool" where
  "file_seek f pos =
     (let f' = f\<lparr>file_ops := Suc (file_ops f)\<rparr> in
      case file_faults f (file_ops f) of Some k \<Rightarrow> (f', False) | None \<Rightarrow> (f'\<lparr>file_pos := pos\<rparr>, True))"

definition file_read_exact :: "File \<Rightarrow> nat \<Rightarrow> File \<times> bytes option" where
  "file_read_exact f n =
     (let f' = f\<lparr>file_ops := Suc (file_ops f)\<rparr> in
      case file_faults f (file_ops f) of
        Some k \<Rightarrow> (f'\<lparr>file_pos := file_pos f + min k n\<rparr>, None)
      | None \<Rightarrow>
          if file_pos f + n \<le> length (file_bytes f)
          then (f'\<lparr>file_pos := file_pos f + n\<rparr>, Some (take n (drop (file_pos f) (file_bytes f))))
          else (f'\<lparr>file_pos := max (file_pos f) (length (file_bytes f))\<rparr>, None))"

text \<open>Writing at a position past the end fills the gap with zeroes.\<close>

definition write_at :: "bytes \<Rightarrow> nat \<Rightarrow> bytes \<Rightarrow> bytes" where
  "write_at bs pos data =
     (if data = [] then bs
      else take pos (bs @ replicate (pos - length bs) 0) @ data @ drop (pos + length data) bs)"

definition file_write_all :: "File \<Rightarrow> bytes \<Rightarrow> File \<times> bool" where
  "file_write_all f data =
     (let f' = f\<lparr>file_ops := Suc (file_ops f)\<rparr>;
          put = (\<lambda>d. f'\<lparr>file_bytes := write_at (file_bytes f) (file_pos f) d, file_pos := file_pos f + length d\<rparr>) in
      case file_faults f (file_ops f) of
        Some k \<Rightarrow> (put (take k data), False)
      | None \<Rightarrow> (put data, True))"

section \<open>The device\<close>

definition virtio_blk_t_in :: u32 where
  "virtio_blk_t_in = 0"

definition virtio_blk_t_out :: u32 where
  "virtio_blk_t_out = 1"

definition virtio_blk_s_ok :: u8 where
  "virtio_blk_s_ok = 0"

definition virtio_blk_s_ioerr :: u8 where
  "virtio_blk_s_ioerr = 1"

definition sector_size :: u64 where
  "sector_size = 512"

record VirtioBlockDevice =
  blk_disk :: File
  blk_capacity :: u64

text \<open>\<open>metadata.len()\<close> is a 64-bit file length.\<close>

definition block_new :: "File \<Rightarrow> VirtioBlockDevice" where
  "block_new disk = \<lparr>blk_disk = disk, blk_capacity = of_nat (length (file_bytes disk)) div sector_size\<rparr>"

text \<open>The bounds check both directions share: the byte offset of an admissible request.\<close>

definition request_offset :: "VirtioBlockDevice \<Rightarrow> u64 \<Rightarrow> u32 \<Rightarrow> u64 option" where
  "request_offset d sector len =
     (if 16777216 < len then None
      else let capacity_bytes = (case checked_mul (blk_capacity d) sector_size of None \<Rightarrow> 0 | Some c \<Rightarrow> c) in
        if blk_capacity d \<le> sector then None
        else let byte_offset = sector * sector_size in
          if capacity_bytes < saturating_add byte_offset (ucast len) then None else Some byte_offset)"

definition handle_read ::
  "'m GuestMemAccess \<Rightarrow> VirtioBlockDevice \<Rightarrow> u64 \<Rightarrow> u64 \<Rightarrow> u32 \<Rightarrow> 'm \<Rightarrow> VirtioBlockDevice \<times> 'm \<times> u32 \<times> u8" where
  "handle_read M d sector gpa len m =
     (case request_offset d sector len of
        None \<Rightarrow> (d, m, 0, virtio_blk_s_ioerr)
      | Some byte_offset \<Rightarrow>
         (case file_seek (blk_disk d) (unat byte_offset) of
            (f, False) \<Rightarrow> (d\<lparr>blk_disk := f\<rparr>, m, 0, virtio_blk_s_ioerr)
          | (f, True) \<Rightarrow>
             (case file_read_exact f (unat len) of
                (f', None) \<Rightarrow> (d\<lparr>blk_disk := f'\<rparr>, m, 0, virtio_blk_s_ioerr)
              | (f', Some buf) \<Rightarrow>
                 (case write_guest M m gpa buf of
                    Inl e \<Rightarrow> (d\<lparr>blk_disk := f'\<rparr>, m, 0, virtio_blk_s_ioerr)
                  | Inr m' \<Rightarrow> (d\<lparr>blk_disk := f'\<rparr>, m', len, virtio_blk_s_ok)))))"

definition handle_write ::
  "'m GuestMemAccess \<Rightarrow> VirtioBlockDevice \<Rightarrow> u64 \<Rightarrow> u64 \<Rightarrow> u32 \<Rightarrow> 'm \<Rightarrow> VirtioBlockDevice \<times> u8" where
  "handle_write M d sector gpa len m =
     (case request_offset d sector len of
        None \<Rightarrow> (d, virtio_blk_s_ioerr)
      | Some byte_offset \<Rightarrow>
         (case read_guest M m gpa (unat len) of
            Inl e \<Rightarrow> (d, virtio_blk_s_ioerr)
          | Inr buf \<Rightarrow>
             (case file_seek (blk_disk d) (unat byte_offset) of
                (f, False) \<Rightarrow> (d\<lparr>blk_disk := f\<rparr>, virtio_blk_s_ioerr)
              | (f, True) \<Rightarrow>
                 (case file_write_all f buf of
                    (f', ok) \<Rightarrow> (d\<lparr>blk_disk := f'\<rparr>, if ok then virtio_blk_s_ok else virtio_blk_s_ioerr)))))"

text \<open>The match on the request type: the device, memory, bytes written and the status byte.\<close>

definition run_request ::
  "'m GuestMemAccess \<Rightarrow> VirtioBlockDevice \<Rightarrow> u32 \<Rightarrow> u64 \<Rightarrow> Descriptor \<Rightarrow> 'm \<Rightarrow> VirtioBlockDevice \<times> 'm \<times> u32 \<times> u8" where
  "run_request M d req_type sector data_desc m =
     (if req_type = virtio_blk_t_in then
        (if d_is_device_writable data_desc
         then handle_read M d sector (d_gpa data_desc) (d_len data_desc) m
         else (d, m, 0, virtio_blk_s_ioerr))
      else if req_type = virtio_blk_t_out then
        (if d_is_device_writable data_desc then (d, m, 0, virtio_blk_s_ioerr)
         else (case handle_write M d sector (d_gpa data_desc) (d_len data_desc) m of
                 (d', status) \<Rightarrow> (d', m, 0, status)))
      else (d, m, 0, virtio_blk_s_ioerr))"

definition process_request ::
  "'m GuestMemAccess \<Rightarrow> VirtioBlockDevice \<Rightarrow> 'm \<Rightarrow> DescriptorChain \<Rightarrow> VirtioBlockDevice \<times> 'm \<times> u32" where
  "process_request M d m chain =
     (case next_descriptor M m chain of
        (chain1, None) \<Rightarrow> (d, m, 0)
      | (chain1, Some hdr_desc) \<Rightarrow>
         (case read_guest M m (d_gpa hdr_desc) 16 of
            Inl e \<Rightarrow> (d, m, 0)
          | Inr hdr_buf \<Rightarrow>
              let req_type = of_le_bytes (take 4 hdr_buf); sector = of_le_bytes (take 8 (drop 8 hdr_buf)) in
              case next_descriptor M m chain1 of
                (chain2, None) \<Rightarrow> (d, m, 0)
              | (chain2, Some data_desc) \<Rightarrow>
                 (case run_request M d req_type sector data_desc m of
                    (d', m', total_written, status) \<Rightarrow>
                     (case next_descriptor M m' chain2 of
                        (chain3, None) \<Rightarrow> (d', m', total_written)
                      | (chain3, Some status_desc) \<Rightarrow>
                          if d_is_device_writable status_desc
                          then (d', write_guest_ignore M m' (d_gpa status_desc) [status], total_written + 1)
                          else (d', m', total_written)))))"

definition block_process_queue ::
  "'m GuestMemAccess \<Rightarrow> VirtioBlockDevice \<Rightarrow> u16 \<Rightarrow> VirtQueue \<Rightarrow> 'm \<Rightarrow> (VirtioBlockDevice \<times> VirtQueue \<times> 'm) option" where
  "block_process_queue M d queue_idx q m = drain_queue M (process_request M) d q m"

definition block_read_config :: "VirtioBlockDevice \<Rightarrow> u64 \<Rightarrow> bytes \<Rightarrow> bytes" where
  "block_read_config d offset data =
     (if offset < 8
      then let cap_bytes = le_bytes 8 (blk_capacity d); start = unat offset;
               stop = min (start + length data) (length cap_bytes) in
           if start < length cap_bytes then copy_at data 0 (take (stop - start) (drop start cap_bytes)) else data
      else data)"

definition block_backend :: "'m GuestMemAccess \<Rightarrow> ('m, VirtioBlockDevice) VirtioBackend" where
  "block_backend M = \<lparr>be_device_id = (\<lambda>d. 2), be_device_features = (\<lambda>d. 0),
     be_queue_count = (\<lambda>d. default_queue_count), be_process_queue = block_process_queue M,
     be_poll_rx = default_poll_rx, be_read_config = block_read_config,
     be_write_config = (\<lambda>d offset data. d)\<rparr>"

section \<open>Bounds\<close>

text \<open>The capacity is the file's length in whole sectors and the file never shrinks below it.\<close>

definition block_ok :: "VirtioBlockDevice \<Rightarrow> bool" where
  "block_ok d \<longleftrightarrow> unat (blk_capacity d) * 512 \<le> length (file_bytes (blk_disk d)) \<and>
     unat (blk_capacity d) * 512 < 2 ^ 64"

lemma block_new_ok: "length (file_bytes f) < 2 ^ 64 \<Longrightarrow> block_ok (block_new f)"
proof -
  assume a: "length (file_bytes f) < 2 ^ 64"
  then have "unat (of_nat (length (file_bytes f)) div sector_size :: u64) = length (file_bytes f) div 512"
    by (simp add: unat_div sector_size_def)
  with a show ?thesis by (simp add: block_ok_def block_new_def)
qed

lemma request_offset_bounds:
  assumes "block_ok d" "request_offset d sector len = Some off"
  shows "unat off = unat sector * 512" "unat off + unat len \<le> unat (blk_capacity d) * 512"
    "unat sector < unat (blk_capacity d)" "unat len \<le> 16777216"
proof -
  let ?c = "unat (blk_capacity d)"
  have r: "\<not> 16777216 < len" "sector < blk_capacity d" "off = sector * sector_size"
    using assms(2) by (auto simp: request_offset_def Let_def not_le split: if_splits)
  then have s: "unat sector < ?c" by (simp add: word_less_nat_alt)
  have c: "?c * 512 < 2 ^ 64" using assms(1) by (simp add: block_ok_def)
  then have cap: "checked_mul (blk_capacity d) sector_size = Some (blk_capacity d * sector_size)"
    "unat (blk_capacity d * sector_size) = ?c * 512"
    by (simp_all add: checked_mul_def sector_size_def unat_mult_nowrap)
  have so: "unat (sector * sector_size) = unat sector * 512"
    using s c by (subst unat_mult_nowrap) (simp_all add: sector_size_def)
  have "\<not> blk_capacity d * sector_size < saturating_add (sector * sector_size) (ucast len)"
    using assms(2) r cap(1) by (auto simp: request_offset_def Let_def not_le split: if_splits)
  then have "min (unat sector * 512 + unat len) (2 ^ 64 - 1) \<le> ?c * 512"
    using cap(2) so by (auto simp: word_less_nat_alt saturating_add_unat unat_ucast_up not_less min_def split: if_splits)
  then show "unat off = unat sector * 512" "unat off + unat len \<le> ?c * 512"
    using c r(3) so unat_u32_less [of len] s by (auto simp: min_def split: if_splits)
  show "unat sector < ?c" by (rule s)
  show "unat len \<le> 16777216" using r(1) by (simp add: word_less_nat_alt)
qed

section \<open>Effect of a request on guest memory\<close>

context guest_mem
begin

lemma handle_read_mem:
  assumes "minv m" "handle_read M d sector gpa len m = (d', m', w, st)"
  shows "minv m'" "mapped m' = mapped m" "\<not> in_range gpa (unat len) x \<Longrightarrow> byte_at m' x = byte_at m x"
proof -
  have "m' = m \<or> (\<exists>buf. length buf = unat len \<and> write_guest M m gpa buf = Inr m')"
    using assms(2) by (auto simp: handle_read_def file_read_exact_def Let_def
        split: option.splits prod.splits bool.splits sum.splits if_splits)
  then show "minv m'" "mapped m' = mapped m" "\<not> in_range gpa (unat len) x \<Longrightarrow> byte_at m' x = byte_at m x"
    using assms(1) write_Inr [OF assms(1)] by (auto simp: in_range_def)
qed

lemma run_request_mem:
  assumes "minv m" "run_request M d rt sector dd m = (d', m', w, st)"
  shows "minv m'" "mapped m' = mapped m"
    "\<not> (d_is_device_writable dd \<and> in_range (d_gpa dd) (unat (d_len dd)) x) \<Longrightarrow> byte_at m' x = byte_at m x"
  using assms handle_read_mem [OF assms(1)]
  by (auto simp: run_request_def split: if_splits prod.splits)

lemma process_request_keeps:
  assumes "minv m" "process_request M d m c = (d', m', w)"
  shows "minv m'" "mapped m' = mapped m"
  using assms run_request_mem(1,2) [OF assms(1)] write_ignore_keeps
  by (auto simp: process_request_def Let_def split: prod.splits option.splits sum.splits if_splits)

lemma process_request_protects:
  assumes inv: "minv m" and run: "process_request M d m c = (d', m', w)"
    and map: "unat (ch_desc_gpa c) + 16 * unat (ch_queue_size c) < 2 ^ 64"
    and table: "\<And>y. in_range (ch_desc_gpa c) (16 * unat (ch_queue_size c)) y \<Longrightarrow> P y"
    and av: "avoids (byte_at m) (ch_desc_gpa c) (ch_queue_size c) P" and x: "P x"
  shows "byte_at m' x = byte_at m x"
proof -
  obtain c1 r1 where n1: "next_descriptor M m c = (c1, r1)" by fastforce
  obtain c2 r2 where n2: "next_descriptor M m c1 = (c2, r2)" by fastforce
  show ?thesis
  proof (cases "\<exists>h buf dd. r1 = Some h \<and> read_guest M m (d_gpa h) 16 = Inr buf \<and> r2 = Some dd")
    case False
    then show ?thesis using run n1 n2
      by (auto simp: process_request_def Let_def split: option.splits sum.splits)
  next
    case True
    then obtain h buf dd where r: "r1 = Some h" "read_guest M m (d_gpa h) 16 = Inr buf" "r2 = Some dd" by blast
    obtain d1 m1 tw st where rr:
      "run_request M d (of_le_bytes (take 4 buf)) (of_le_bytes (take 8 (drop 8 buf))) dd m = (d1, m1, tw, st)"
      by (metis prod_cases4)
    note rm = run_request_mem [OF inv rr]
    have c1: "ch_desc_gpa c1 = ch_desc_gpa c" "ch_queue_size c1 = ch_queue_size c"
      using next_descriptor_Some [of M m c c1 h] n1 r by auto
    have c2: "ch_desc_gpa c2 = ch_desc_gpa c" "ch_queue_size c2 = ch_queue_size c"
      using next_descriptor_Some [of M m c1 c2 dd] n2 r c1 by auto
    obtain i where "i < ch_queue_size c" "dd = desc_at (byte_at m) (ch_desc_gpa c) i"
      using next_descriptor_table [OF inv, of c1 c2 dd] n2 r c1 by auto
    then have "\<not> (d_is_device_writable dd \<and> in_range (d_gpa dd) (unat (d_len dd)) y)" if "P y" for y
      using av that by (fastforce simp: avoids_def Let_def in_range_def)
    then have P1: "byte_at m1 y = byte_at m y" if "P y" for y using rm(3) that by blast
    obtain c3 r3 where n3: "next_descriptor M m1 c2 = (c3, r3)" by fastforce
    show ?thesis
    proof (cases "\<exists>sd. r3 = Some sd \<and> d_is_device_writable sd")
      case False
      then have "m' = m1" using run n1 n2 n3 r rr
        by (auto simp: process_request_def Let_def split: option.splits)
      with P1 x show ?thesis by simp
    next
      case True
      then obtain sd where sd: "r3 = Some sd" "d_is_device_writable sd" by blast
      obtain j where j: "j < ch_queue_size c" "sd = desc_at (byte_at m1) (ch_desc_gpa c) j"
        using next_descriptor_table [OF rm(1), of c2 c3 sd] n3 sd c2 by auto
      have "desc_at (byte_at m1) (ch_desc_gpa c) j = desc_at (byte_at m) (ch_desc_gpa c) j"
        by (rule desc_at_cong [OF map j(1)]) (use P1 table in blast)
      then have "\<not> in_range (d_gpa sd) 1 x"
        using av x j sd(2) by (fastforce simp: avoids_def Let_def in_range_def)
      moreover have "m' = write_guest_ignore M m1 (d_gpa sd) [st]"
        using run n1 n2 n3 r rr sd by (simp add: process_request_def Let_def)
      ultimately show ?thesis
        using P1 [OF x] by (auto simp: byte_at_write_ignore [OF rm(1)] in_range_def)
    qed
  qed
qed

lemma process_request_rings:
  assumes inv0: "minv m0" and drv: "driver_ok mapped byte_at m0 q" and ok: "vq_ok q"
    and inv: "minv m" and same: "\<And>x. ring_area q x \<Longrightarrow> byte_at m x = byte_at m0 x"
    and run: "process_request M d m (chain_of q head) = (d', m', w)"
    and x: "ring_area q x \<or> in_range (vq_used_gpa q) (used_bytes q) x"
  shows "byte_at m' x = byte_at m x"
proof -
  have "unat (vq_desc_gpa q) + 16 * unat (vq_size q) < 2 ^ 64"
    using mapped_bound [OF inv0, of "vq_desc_gpa q" "desc_bytes q"] drv vq_ok_bounds [OF ok]
    by (simp add: driver_ok_def desc_bytes_def)
  then have b: "unat (ch_desc_gpa (chain_of q head)) + 16 * unat (ch_queue_size (chain_of q head)) < 2 ^ 64"
    by (simp add: chain_of_def)
  have table: "ring_area q y" if "in_range (vq_desc_gpa q) (16 * unat (vq_size q)) y" for y
    using that by (simp add: ring_area_def desc_bytes_def)
  have "avoids (byte_at m) (ch_desc_gpa (chain_of q head)) (ch_queue_size (chain_of q head))
      (\<lambda>x. ring_area q x \<or> in_range (vq_used_gpa q) (used_bytes q) x)"
    using driver_ok_avoids [OF drv] avoids_cong [OF b, of "byte_at m" "byte_at m0"] same table
    by (simp add: chain_of_def)
  from process_request_protects [OF inv run b _ this x] table show ?thesis
    by (simp add: chain_of_def)
qed

lemma block_served:
  assumes inv: "minv m" and ok: "vq_ok q" and rdy: "vq_ready q" and drv: "driver_ok mapped byte_at m q"
  shows "\<exists>d' m'. block_process_queue M d i q m = Some (d', q\<lparr>vq_last_avail_idx := avail_idx (byte_at m) q\<rparr>, m') \<and>
    handle_heads M (process_request M) d q m (pending_heads (byte_at m) q) = (d', m') \<and>
    used_idx (byte_at m') q = used_idx (byte_at m) q + (avail_idx (byte_at m) q - vq_last_avail_idx q)"
proof -
  note rings = process_request_rings [OF inv drv ok]
  have us: "mapped m (vq_used_gpa q) (used_bytes q)" and av: "mapped m (vq_avail_gpa q) (avail_bytes q)"
    using drv by (simp_all add: driver_ok_def)
  have P_us: "\<not> in_range (vq_used_gpa q) (used_bytes q) x" if "ring_area q x" for x
    using drv that ranges_disjointD by (fastforce simp: driver_ok_def ring_area_def)
  have body: "minv m2 \<and> mapped m2 = mapped m1 \<and> (\<forall>x. ring_area q x \<longrightarrow> byte_at m2 x = byte_at m1 x) \<and>
      used_idx (byte_at m2) q = used_idx (byte_at m1) q"
    if "minv m1" "\<And>x. ring_area q x \<Longrightarrow> byte_at m1 x = byte_at m x"
      "process_request M d (m1) (chain_of q head) = (d', m2, w)" for d m1 head d' m2 w
  proof -
    have "in_range (vq_used_gpa q) (used_bytes q) (vq_used_gpa q + 2 + of_nat k)" if "k < 2" for k
      using unat_offset [OF inv us, of "2 + k"] that by (simp add: in_range_def used_bytes_def add.assoc)
    then have "used_idx (byte_at m2) q = used_idx (byte_at m1) q"
      unfolding used_idx_def using rings [OF that] by (intro peek_cong) blast
    with rings [OF that] process_request_keeps [OF that(1,3)] show ?thesis by blast
  qed
  obtain d' m' where hh: "handle_heads M (process_request M) d q m (pending_heads (byte_at m) q) = (d', m')"
    by fastforce
  have "drain_queue M (process_request M) d q m = Some (d', q\<lparr>vq_last_avail_idx := avail_idx (byte_at m) q\<rparr>, m')"
  proof -
    have "drain_queue M (process_request M) d q m =
      (case handle_heads M (process_request M) d q m (pending_heads (byte_at m) q) of
         (d', m') \<Rightarrow> Some (d', q\<lparr>vq_last_avail_idx := avail_idx (byte_at m) q\<rparr>, m'))"
    proof (rule drain_queue_heads [OF inv ok rdy av us, where P = "ring_area q" and ?byte0.0 = "byte_at m"])
      show "ring_area q x" if "in_range (vq_avail_gpa q) (avail_bytes q) x" for x
        using that by (simp add: ring_area_def)
    qed (use P_us body in blast)+
    with hh show ?thesis by simp
  qed
  moreover have "used_idx (byte_at m') q = used_idx (byte_at m) q + (avail_idx (byte_at m) q - vq_last_avail_idx q)"
  proof -
    have "used_idx (byte_at m') q = used_idx (byte_at m) q + of_nat (length (pending_heads (byte_at m) q)) \<and>
        minv m' \<and> mapped m' = mapped m \<and> (\<forall>x. ring_area q x \<longrightarrow> byte_at m' x = byte_at m x)"
      by (rule handle_heads_used [OF inv ok us, where P = "ring_area q" and ?byte0.0 = "byte_at m" and h = "process_request M"
            and d = d and d' = d'])
         (use P_us body hh in blast)+
    then show ?thesis by (simp add: pending_heads_def pending_def)
  qed
  ultimately show ?thesis using hh by (auto simp: block_process_queue_def)
qed

end

section \<open>Effect of a request on the disk\<close>

text \<open>\<open>disk_frame lo hi d d'\<close>: the device keeps its capacity and the disk its length and every byte
  outside \<open>lo..<hi\<close>.\<close>

definition disk_frame :: "nat \<Rightarrow> nat \<Rightarrow> VirtioBlockDevice \<Rightarrow> VirtioBlockDevice \<Rightarrow> bool" where
  "disk_frame lo hi d d' \<longleftrightarrow> blk_capacity d' = blk_capacity d \<and>
     length (file_bytes (blk_disk d')) = length (file_bytes (blk_disk d)) \<and>
     (\<forall>i < length (file_bytes (blk_disk d)). \<not> (lo \<le> i \<and> i < hi) \<longrightarrow>
        file_bytes (blk_disk d') ! i = file_bytes (blk_disk d) ! i)"

lemma disk_frame_same: "blk_capacity d' = blk_capacity d \<Longrightarrow>
    file_bytes (blk_disk d') = file_bytes (blk_disk d) \<Longrightarrow> disk_frame lo hi d d'"
  by (simp add: disk_frame_def)

lemma disk_frame_mono: "disk_frame lo hi d d' \<Longrightarrow> lo' \<le> lo \<Longrightarrow> hi \<le> hi' \<Longrightarrow> disk_frame lo' hi' d d'"
  by (auto simp: disk_frame_def)

lemma disk_frame_trans: "disk_frame lo hi d d' \<Longrightarrow> disk_frame lo hi d' d'' \<Longrightarrow> disk_frame lo hi d d''"
  by (auto simp: disk_frame_def)

lemma disk_frame_ok: "disk_frame lo hi d d' \<Longrightarrow> block_ok d \<Longrightarrow> block_ok d'"
  by (simp add: disk_frame_def block_ok_def)

lemma write_at_inside: "pos + length data \<le> length bs \<Longrightarrow> write_at bs pos data = copy_at bs pos data"
  by (auto simp: write_at_def copy_at_def)

lemma file_ops_bytes [simp]:
  "file_bytes (fst (file_seek f p)) = file_bytes f" "file_bytes (fst (file_read_exact f n)) = file_bytes f"
  by (auto simp: file_seek_def file_read_exact_def Let_def split: option.splits)

lemma file_seek_True: "file_seek f p = (f', True) \<Longrightarrow> file_pos f' = p \<and> file_bytes f' = file_bytes f"
  by (auto simp: file_seek_def Let_def split: option.splits)

lemma file_read_exact_Some:
  "file_read_exact f n = (f', Some buf) \<Longrightarrow>
     buf = take n (drop (file_pos f) (file_bytes f)) \<and> length buf = n"
  by (auto simp: file_read_exact_def Let_def split: option.splits if_splits)

lemma handle_read_disk:
  assumes "handle_read M d sector gpa len m = (d', m', w, st)"
  shows "blk_capacity d' = blk_capacity d" "file_bytes (blk_disk d') = file_bytes (blk_disk d)"
  using assms
  by (auto simp: handle_read_def file_seek_def file_read_exact_def Let_def
      split: option.splits prod.splits bool.splits sum.splits if_splits)

lemma disk_frame_copy:
  assumes "blk_capacity d' = blk_capacity d" "lo + length xs \<le> hi" "lo + length xs \<le> length (file_bytes (blk_disk d))"
    and "file_bytes (blk_disk d') = copy_at (file_bytes (blk_disk d)) lo xs"
  shows "disk_frame lo hi d d'"
  using assms by (auto simp: disk_frame_def nth_copy_at)

context guest_mem
begin

lemma handle_write_disk:
  assumes inv: "minv m" and ok: "block_ok d" and run: "handle_write M d sector gpa len m = (d', st)"
  shows "disk_frame (unat sector * 512) (unat sector * 512 + unat len) d d'"
    and "unat (blk_capacity d) \<le> unat sector \<Longrightarrow> d' = d"
    and "st = virtio_blk_s_ok \<Longrightarrow> \<exists>buf. read_guest M m gpa (unat len) = Inr buf \<and> length buf = unat len \<and>
       unat sector * 512 + unat len \<le> unat (blk_capacity d) * 512 \<and>
       take (unat len) (drop (unat sector * 512) (file_bytes (blk_disk d'))) = buf"
proof -
  show "unat (blk_capacity d) \<le> unat sector \<Longrightarrow> d' = d"
    using run by (auto simp: handle_write_def request_offset_def word_le_nat_alt split: if_splits option.splits)
  show "disk_frame (unat sector * 512) (unat sector * 512 + unat len) d d'"
    and "st = virtio_blk_s_ok \<Longrightarrow> \<exists>buf. read_guest M m gpa (unat len) = Inr buf \<and> length buf = unat len \<and>
       unat sector * 512 + unat len \<le> unat (blk_capacity d) * 512 \<and>
       take (unat len) (drop (unat sector * 512) (file_bytes (blk_disk d'))) = buf"
  proof (atomize (full), cases "\<exists>off buf f. request_offset d sector len = Some off \<and>
      read_guest M m gpa (unat len) = Inr buf \<and> file_seek (blk_disk d) (unat off) = (f, True)")
    case False
    then have "blk_capacity d' = blk_capacity d \<and> file_bytes (blk_disk d') = file_bytes (blk_disk d) \<and>
        st = virtio_blk_s_ioerr"
      using run by (auto simp: handle_write_def file_seek_def Let_def split: option.splits sum.splits prod.splits)
    then show "disk_frame (unat sector * 512) (unat sector * 512 + unat len) d d' \<and>
        (st = virtio_blk_s_ok \<longrightarrow> (\<exists>buf. read_guest M m gpa (unat len) = Inr buf \<and> length buf = unat len \<and>
         unat sector * 512 + unat len \<le> unat (blk_capacity d) * 512 \<and>
         take (unat len) (drop (unat sector * 512) (file_bytes (blk_disk d'))) = buf))"
      by (simp add: disk_frame_same virtio_blk_s_ok_def virtio_blk_s_ioerr_def)
  next
    case True
    then obtain off buf f where c: "request_offset d sector len = Some off"
      "read_guest M m gpa (unat len) = Inr buf" "file_seek (blk_disk d) (unat off) = (f, True)" by blast
    note b = request_offset_bounds [OF ok c(1)]
    have len: "length buf = unat len" by (rule read_length [OF inv c(2)])
    have cap: "unat (blk_capacity d) * 512 \<le> length (file_bytes (blk_disk d))"
      using ok by (simp add: block_ok_def)
    note f = file_seek_True [OF c(3)]
    have "blk_capacity d' = blk_capacity d \<and> (\<exists>k. file_bytes (blk_disk d') = write_at (file_bytes (blk_disk d)) (unat off) (take k buf) \<and>
        (st = virtio_blk_s_ok \<longrightarrow> take k buf = buf))"
    proof (cases "file_faults f (file_ops f)")
      case None
      then have "d' = d\<lparr>blk_disk := fst (file_write_all f buf)\<rparr>"
        "file_bytes (fst (file_write_all f buf)) = write_at (file_bytes (blk_disk d)) (unat off) buf"
        using run c f by (auto simp: handle_write_def file_write_all_def Let_def)
      then show ?thesis by (intro conjI exI [of _ "length buf"]) auto
    next
      case (Some k)
      then have "d' = d\<lparr>blk_disk := fst (file_write_all f buf)\<rparr>" "st = virtio_blk_s_ioerr"
        "file_bytes (fst (file_write_all f buf)) = write_at (file_bytes (blk_disk d)) (unat off) (take k buf)"
        using run c f by (auto simp: handle_write_def file_write_all_def Let_def)
      then show ?thesis
        by (intro conjI exI [of _ k]) (auto simp: virtio_blk_s_ok_def virtio_blk_s_ioerr_def)
    qed
    then obtain k where k: "blk_capacity d' = blk_capacity d" "st = virtio_blk_s_ok \<longrightarrow> take k buf = buf"
      "file_bytes (blk_disk d') = copy_at (file_bytes (blk_disk d)) (unat off) (take k buf)"
      using b cap len by (auto simp: write_at_inside)
    then show "disk_frame (unat sector * 512) (unat sector * 512 + unat len) d d' \<and>
        (st = virtio_blk_s_ok \<longrightarrow> (\<exists>buf. read_guest M m gpa (unat len) = Inr buf \<and> length buf = unat len \<and>
         unat sector * 512 + unat len \<le> unat (blk_capacity d) * 512 \<and>
         take (unat len) (drop (unat sector * 512) (file_bytes (blk_disk d'))) = buf))"
      using b cap len c(2) take_drop_copy_at_same [of "unat off" buf "file_bytes (blk_disk d)"]
      by (auto intro!: disk_frame_copy)
  qed
qed

lemma handle_write_confined:
  assumes "minv m" "block_ok d" "handle_write M d sector gpa len m = (d', st)"
  shows "disk_frame 0 (unat (blk_capacity d) * 512) d d'"
proof (cases "request_offset d sector len")
  case None
  with assms(3) have "d' = d" by (simp add: handle_write_def)
  then show ?thesis by (simp add: disk_frame_same)
next
  case (Some off)
  from request_offset_bounds [OF assms(2) Some] handle_write_disk(1) [OF assms] show ?thesis
    by (auto elim!: disk_frame_mono)
qed

lemma process_request_confined:
  assumes "minv m" "block_ok d" "process_request M d m c = (d', m', w)"
  shows "disk_frame 0 (unat (blk_capacity d) * 512) d d'"
proof -
  have rr: "disk_frame 0 (unat (blk_capacity d) * 512) d d1" if "run_request M d rt sec dd m = (d1, m1, tw, st)" for rt sec dd d1 m1 tw st
    using that handle_write_confined [OF assms(1,2)] handle_read_disk [of M d]
    by (auto simp: run_request_def disk_frame_same split: if_splits prod.splits)
  show ?thesis
    using assms(3) rr
    by (auto simp: process_request_def Let_def disk_frame_same
        split: prod.splits option.splits sum.splits if_splits)
qed

lemma block_process_queue_confined:
  assumes "minv m" "block_ok d" "block_process_queue M d i q m = Some (d', q', m')"
  shows "block_ok d' \<and> disk_frame 0 (unat (blk_capacity d) * 512) d d'"
proof -
  have "minv m' \<and> block_ok d' \<and> disk_frame 0 (unat (blk_capacity d) * 512) d d'"
  proof (rule drain_queue_invariant [OF assms(3) [unfolded block_process_queue_def],
      of "\<lambda>d1 q1 m1. minv m1 \<and> block_ok d1 \<and> disk_frame 0 (unat (blk_capacity d) * 512) d d1"])
    fix d1 q1 m1 q2 c d2 m2 w
    assume I: "minv m1 \<and> block_ok d1 \<and> disk_frame 0 (unat (blk_capacity d) * 512) d d1"
      and h: "process_request M d1 m1 c = (d2, m2, w)"
    have fr: "disk_frame 0 (unat (blk_capacity d1) * 512) d1 d2"
      using process_request_confined [OF _ _ h] I by blast
    have cap: "blk_capacity d1 = blk_capacity d" using I by (simp add: disk_frame_def)
    have "minv m2" using process_request_keeps(1) [OF _ h] I by blast
    from push_used_keeps(1) [OF this] disk_frame_ok [OF fr] disk_frame_trans [of _ _ d d1 d2] I fr
    show "minv (push_used M m2 q2 (ch_head_idx c) w) \<and> block_ok d2 \<and>
        disk_frame 0 (unat (blk_capacity d) * 512) d d2"
      by (simp add: cap)
  qed (use assms(1,2) in \<open>simp add: disk_frame_same\<close>)
  then show ?thesis by blast
qed

lemma handle_read_ok:
  assumes inv: "minv m" and ok: "block_ok d" and run: "handle_read M d sector gpa len m = (d', m', w, virtio_blk_s_ok)"
  shows "w = len \<and> read_guest M m' gpa (unat len) =
    Inr (take (unat len) (drop (unat sector * 512) (file_bytes (blk_disk d))))"
proof -
  note e = virtio_blk_s_ok_def virtio_blk_s_ioerr_def handle_read_def
  obtain off where c1: "request_offset d sector len = Some off"
    using run by (cases "request_offset d sector len") (simp_all add: e)
  obtain f b where fs: "file_seek (blk_disk d) (unat off) = (f, b)" by fastforce
  with run c1 have c2: "file_seek (blk_disk d) (unat off) = (f, True)" by (cases b) (simp_all add: e)
  obtain f' ob where fr: "file_read_exact f (unat len) = (f', ob)" by fastforce
  with run c1 c2 obtain buf where c3: "file_read_exact f (unat len) = (f', Some buf)" by (cases ob) (simp_all add: e)
  have c4: "write_guest M m gpa buf = Inr m'" "w = len"
    using run c1 c2 c3 by (cases "write_guest M m gpa buf"; simp add: e)+
  have buf: "length buf = unat len" "buf = take (unat len) (drop (unat sector * 512) (file_bytes (blk_disk d)))"
    using file_read_exact_Some [OF c3] file_seek_True [OF c2] request_offset_bounds(1) [OF ok c1]
    by (blast, simp)
  from read_after_write [OF inv c4(1)] buf c4(2) show ?thesis by simp
qed

end

text \<open>The block device keeps the backend contract.\<close>

interpretation blk: virtio_backend gm_access gm_inv gm_mapped gm_byte "block_backend gm_access"
proof unfold_locales
  fix m d i q d' q' m' r off data
  show "gm_inv m \<Longrightarrow> be_process_queue (block_backend gm_access) d i q m = Some (d', q', m') \<Longrightarrow>
    gm_inv m' \<and> gm_mapped m' = gm_mapped m \<and> same_rings q q' \<and> same_identity (block_backend gm_access) d d'"
  proof -
    assume inv: "gm_inv m" and "be_process_queue (block_backend gm_access) d i q m = Some (d', q', m')"
    then have run: "drain_queue gm_access (process_request gm_access) d q m = Some (d', q', m')"
      by (simp add: block_backend_def block_process_queue_def)
    have "gm_inv m' \<and> gm_mapped m' = gm_mapped m \<and> same_rings q q'"
      by (rule gm.drain_queue_keeps [OF inv run]) (use gm.process_request_keeps in blast)
    then show ?thesis by (simp add: block_backend_def same_identity_def)
  qed
  show "gm_inv m \<Longrightarrow> be_poll_rx (block_backend gm_access) d q m = Some (d', q', m', r) \<Longrightarrow>
    gm_inv m' \<and> gm_mapped m' = gm_mapped m \<and> same_rings q q' \<and> same_identity (block_backend gm_access) d d'"
    by (auto simp: block_backend_def default_poll_rx_def same_identity_def)
  show "length (be_read_config (block_backend gm_access) d off data) = length data"
    by (auto simp: block_backend_def block_read_config_def Let_def)
  show "same_identity (block_backend gm_access) d (be_write_config (block_backend gm_access) d off data)"
    by (simp add: block_backend_def same_identity_def)
qed

section \<open>Properties\<close>


text \<open>An empty disk image of two sectors on a host whose operations succeed.\<close>

definition demo_disk :: File where
  "demo_disk = \<lparr>file_bytes = replicate 1024 7, file_pos = 0, file_ops = 0, file_faults = (\<lambda>n. None)\<rparr>"

lemma demo_disk_ok: "block_ok (block_new demo_disk)" "blk_capacity (block_new demo_disk) = 2"
  using block_new_ok [of demo_disk] by (simp_all add: demo_disk_def block_new_def sector_size_def)

lemma demo_disk_fields:
  "blk_disk (block_new demo_disk) = demo_disk" "file_faults demo_disk = (\<lambda>n. None)" "length (file_bytes demo_disk) = 1024"
  by (simp_all add: demo_disk_def block_new_def)

lemma demo_driver_ok: "driver_ok gm_mapped gm_byte demo_mem demo_queue"
  by (simp add: driver_ok_def demo_queue_mapped desc_at_def demo_peek)
     (simp add: demo_queue_def desc_bytes_def demo_mem_mapped ranges_disjoint_def used_bytes_def avail_bytes_def)


text \<open>C5: no request can make the device touch the disk beyond its capacity: processing any queue
  contents, on any host failure pattern, keeps the capacity, the length of the disk file and every
  byte past the last whole sector, and keeps the device's invariant.\<close>

theorem block_disk_confined:
  assumes "gm_inv m" "block_ok d" "block_process_queue gm_access d i q m = Some (d', q', m')"
  shows "block_ok d' \<and> blk_capacity d' = blk_capacity d \<and>
    length (file_bytes (blk_disk d')) = length (file_bytes (blk_disk d)) \<and>
    drop (unat (blk_capacity d) * 512) (file_bytes (blk_disk d')) = drop (unat (blk_capacity d) * 512) (file_bytes (blk_disk d))"
proof -
  have fr: "block_ok d'" "disk_frame 0 (unat (blk_capacity d) * 512) d d'"
    using gm.block_process_queue_confined [OF assms] by auto
  then have "drop (unat (blk_capacity d) * 512) (file_bytes (blk_disk d')) = drop (unat (blk_capacity d) * 512) (file_bytes (blk_disk d))"
    by (intro nth_equalityI) (auto simp: disk_frame_def)
  with fr show ?thesis by (simp add: disk_frame_def)
qed

theorem block_disk_confined_witness:
  "\<exists>d' q' m'. block_process_queue gm_access (block_new demo_disk) 0 demo_queue demo_mem = Some (d', q', m') \<and>
     length (file_bytes (blk_disk d')) = 1024"
proof -
  obtain d' q' m' where run: "block_process_queue gm_access (block_new demo_disk) 0 demo_queue demo_mem = Some (d', q', m')"
    using gm.block_served [OF demo_mem_inv demo_queue_ok demo_driver_ok] by blast
  have "length (file_bytes (blk_disk (block_new demo_disk))) = 1024"
    by (simp add: demo_disk_def block_new_def)
  with block_disk_confined [OF demo_mem_inv demo_disk_ok(1) run] run show ?thesis by auto
qed

text \<open>C31: a successful write request followed by a successful read request of the same sectors puts the
  written bytes back into guest memory; the write changes no other byte of the disk.\<close>

theorem block_write_read_roundtrip:
  assumes "gm_inv m" "gm_inv m1" "block_ok d"
    and "handle_write gm_access d sector gpa len m = (d', virtio_blk_s_ok)"
    and "handle_read gm_access d' sector gpa' len m1 = (d'', m2, w, virtio_blk_s_ok)"
  shows "read_slice m2 gpa' (unat len) = read_slice m gpa (unat len) \<and> is_ok (read_slice m gpa (unat len)) \<and> w = len \<and>
    (\<forall>j < length (file_bytes (blk_disk d)). \<not> (unat sector * 512 \<le> j \<and> j < unat sector * 512 + unat len) \<longrightarrow>
       file_bytes (blk_disk d') ! j = file_bytes (blk_disk d) ! j)"
proof -
  note wr = gm.handle_write_disk [OF assms(1,3,4)]
  have "block_ok d'" using disk_frame_ok [OF wr(1) assms(3)] .
  from gm.handle_read_ok [OF assms(2) this assms(5)] wr(1) wr(3) [OF refl] show ?thesis
    by (auto simp: gm_access_def disk_frame_def is_ok_def)
qed

theorem block_write_read_roundtrip_witness:
  "\<exists>d' d'' m2. handle_write gm_access (block_new demo_disk) 1 0x1000 512 demo_mem = (d', virtio_blk_s_ok) \<and>
     handle_read gm_access d' 1 0x2000 512 demo_mem = (d'', m2, 512, virtio_blk_s_ok) \<and>
     read_slice m2 0x2000 512 = read_slice demo_mem 0x1000 512"
proof -
  let ?d = "block_new demo_disk"
  have r: "read_guest gm_access demo_mem 0x1000 512 = Inr (replicate 512 0)"
    using read_slice_mapped [OF demo_mem_inv, of "0x1000" 512]
    by (simp add: gm_access_def demo_mem_mapped demo_mem_byte map_replicate_const)
  have off: "request_offset ?d 1 512 = Some 512" "request_offset (?d\<lparr>blk_disk := f\<rparr>) 1 512 = Some 512" for f
    by (simp_all add: request_offset_def demo_disk_ok Let_def checked_mul_def saturating_add_def sector_size_def
        word_le_nat_alt word_less_nat_alt)
  define d' where "d' = fst (handle_write gm_access ?d 1 0x1000 512 demo_mem)"
  have w: "handle_write gm_access ?d 1 0x1000 512 demo_mem = (d', virtio_blk_s_ok)"
    unfolding d'_def by (simp add: handle_write_def off r file_seek_def file_write_all_def Let_def demo_disk_fields)
  have len: "length (file_bytes (blk_disk d')) = 1024" "file_faults (blk_disk d') = (\<lambda>n. None)"
    unfolding d'_def by (simp_all add: handle_write_def off r file_seek_def file_write_all_def Let_def
        demo_disk_fields write_at_def)
  have off': "request_offset d' 1 512 = Some 512"
    unfolding d'_def by (simp add: handle_write_def off r file_seek_def file_write_all_def Let_def demo_disk_fields)
  let ?buf = "take 512 (drop 512 (file_bytes (blk_disk d')))"
  obtain m2 where m2: "write_guest gm_access demo_mem 0x2000 ?buf = Inr m2"
    using gm.write_mapped [OF demo_mem_inv, of "0x2000" ?buf] len by (auto simp: demo_mem_mapped)
  then obtain d'' where rd: "handle_read gm_access d' 1 0x2000 512 demo_mem = (d'', m2, 512, virtio_blk_s_ok)"
    by (simp add: handle_read_def off' file_seek_def file_read_exact_def Let_def len)
  from block_write_read_roundtrip [OF demo_mem_inv demo_mem_inv demo_disk_ok(1) w rd] w rd show ?thesis by auto
qed

end
