(* ===== verification/Virtio_Net.thy ===== *)
theory Virtio_Net
  imports Mmio_Transport
begin

text \<open>
  The virtio network device of \<open>hitz-devices/src/virtio/net.rs\<close>. The crossbeam channels to the I/O
  thread are lists: \<open>net_tx\<close> the frames sent to the host in order (dropped once the host's end is
  gone, \<open>net_tx_open\<close>), \<open>net_rx_channel\<close> the frames the host has queued, \<open>net_rx_pending\<close> those taken
  from the channel and not yet delivered.
\<close>

section \<open>Model\<close>

definition virtio_net_hdr_size :: nat where
  "virtio_net_hdr_size = 12"

definition virtio_net_f_mac :: u64 where
  "virtio_net_f_mac = push_bit 5 1"

definition rx_queue :: u16 where
  "rx_queue = 0"

definition tx_queue :: u16 where
  "tx_queue = 1"

record VirtioNetDevice =
  net_mac :: bytes
  net_tx :: "bytes list"
  net_tx_open :: bool
  net_rx_channel :: "bytes list"
  net_rx_pending :: "bytes list"

definition net_new :: "bytes \<Rightarrow> VirtioNetDevice" where
  "net_new mac = \<lparr>net_mac = mac, net_tx = [], net_tx_open = True, net_rx_channel = [], net_rx_pending = []\<rparr>"

definition net_send :: "VirtioNetDevice \<Rightarrow> bytes \<Rightarrow> VirtioNetDevice" where
  "net_send d frame = (if net_tx_open d then d\<lparr>net_tx := net_tx d @ [frame]\<rparr> else d)"

text \<open>The inner loop of \<open>process_tx\<close>: collect the readable buffers, up to 64 KiB.\<close>

fun gather_readable :: "'m GuestMemAccess \<Rightarrow> 'm \<Rightarrow> Descriptor list \<Rightarrow> bytes \<Rightarrow> bytes" where
  "gather_readable M m [] frame_data = frame_data"
| "gather_readable M m (desc # descs) frame_data =
     (if \<not> d_is_device_writable desc
      then if length frame_data + unat (d_len desc) > 65536 then frame_data
           else (case read_guest M m (d_gpa desc) (unat (d_len desc)) of
                   Inl e \<Rightarrow> gather_readable M m descs frame_data
                 | Inr bs \<Rightarrow> gather_readable M m descs (frame_data @ bs))
      else gather_readable M m descs frame_data)"

definition net_tx_chain ::
  "'m GuestMemAccess \<Rightarrow> VirtioNetDevice \<Rightarrow> 'm \<Rightarrow> DescriptorChain \<Rightarrow> VirtioNetDevice \<times> 'm \<times> u32" where
  "net_tx_chain M d m chain =
     (let frame_data = gather_readable M m (chain_descriptors M m chain) [] in
      if virtio_net_hdr_size < length frame_data
      then (net_send d (drop virtio_net_hdr_size frame_data), m, 0) else (d, m, 0))"

definition net_process_tx ::
  "'m GuestMemAccess \<Rightarrow> VirtioNetDevice \<Rightarrow> VirtQueue \<Rightarrow> 'm \<Rightarrow> (VirtioNetDevice \<times> VirtQueue \<times> 'm) option" where
  "net_process_tx M d q m = drain_queue M (net_tx_chain M) d q m"

text \<open>The loop of \<open>deliver_rx\<close> over the chain, with the bytes written so far and the payload offset.\<close>

function deliver_loop ::
  "'m GuestMemAccess \<Rightarrow> 'm \<Rightarrow> DescriptorChain \<Rightarrow> bytes \<Rightarrow> u32 \<Rightarrow> nat \<Rightarrow> 'm \<times> u32" where
  "deliver_loop M m chain payload total_written offset =
     (case next_descriptor M m chain of
        (chain', None) \<Rightarrow> (m, total_written)
      | (chain', Some desc) \<Rightarrow>
          if d_is_device_writable desc \<and> offset < length payload
          then let remaining = length payload - offset; to_write = min remaining (unat (d_len desc)) in
            (case write_guest M m (d_gpa desc) (take to_write (drop offset payload)) of
               Inl e \<Rightarrow> deliver_loop M m chain' payload total_written offset
             | Inr m' \<Rightarrow> deliver_loop M m' chain' payload (total_written + of_nat to_write) (offset + to_write))
          else deliver_loop M m chain' payload total_written offset)"
  by pat_completeness auto
termination
  by (relation "measure (\<lambda>(M, m, c, payload, w, off). unat (ch_queue_size c) - unat (ch_count c))")
     (auto dest: next_descriptor_progress(1) [OF sym])

declare deliver_loop.simps [simp del]

definition deliver_rx ::
  "'m GuestMemAccess \<Rightarrow> VirtioNetDevice \<Rightarrow> VirtQueue \<Rightarrow> 'm \<Rightarrow> VirtioNetDevice \<times> VirtQueue \<times> 'm \<times> bool" where
  "deliver_rx M d q m =
     (case net_rx_pending d of
        [] \<Rightarrow> (d, q, m, False)
      | raw_frame # rest \<Rightarrow>
         (case pop_chain M m q of
            (q', None) \<Rightarrow> (d, q', m, False)
          | (q', Some chain) \<Rightarrow>
              let payload = replicate virtio_net_hdr_size 0 @ raw_frame in
              case deliver_loop M m chain payload 0 0 of
                (m', total_written) \<Rightarrow>
                  let m'' = push_used M m' q' (ch_head_idx chain) total_written in
                  if 0 < total_written then (d\<lparr>net_rx_pending := rest\<rparr>, q', m'', True)
                  else (d, q', m'', False)))"

definition net_process_queue ::
  "'m GuestMemAccess \<Rightarrow> VirtioNetDevice \<Rightarrow> u16 \<Rightarrow> VirtQueue \<Rightarrow> 'm \<Rightarrow> (VirtioNetDevice \<times> VirtQueue \<times> 'm) option" where
  "net_process_queue M d queue_idx q m =
     (if queue_idx = tx_queue then net_process_tx M d q m
      else if queue_idx = rx_queue then (case deliver_rx M d q m of (d', q', m', r) \<Rightarrow> Some (d', q', m'))
      else Some (d, q, m))"

definition net_poll_rx ::
  "'m GuestMemAccess \<Rightarrow> VirtioNetDevice \<Rightarrow> VirtQueue \<Rightarrow> 'm \<Rightarrow> (VirtioNetDevice \<times> VirtQueue \<times> 'm \<times> bool) option" where
  "net_poll_rx M d q m =
     Some (deliver_rx M (d\<lparr>net_rx_pending := net_rx_pending d @ net_rx_channel d, net_rx_channel := []\<rparr>) q m)"

definition net_read_config :: "VirtioNetDevice \<Rightarrow> u64 \<Rightarrow> bytes \<Rightarrow> bytes" where
  "net_read_config d offset data =
     (let start = unat offset in
      if start < 6
      then let stop = min (start + length data) 6 in copy_at data 0 (take (stop - start) (drop start (net_mac d)))
      else data)"

definition net_backend :: "'m GuestMemAccess \<Rightarrow> ('m, VirtioNetDevice) VirtioBackend" where
  "net_backend M = \<lparr>be_device_id = (\<lambda>d. 1), be_device_features = (\<lambda>d. virtio_net_f_mac),
     be_queue_count = (\<lambda>d. 2), be_process_queue = net_process_queue M, be_poll_rx = net_poll_rx M,
     be_read_config = net_read_config, be_write_config = (\<lambda>d offset data. d)\<rparr>"

section \<open>Transmission\<close>

lemma gather_readable_bound: "length acc \<le> 65536 \<Longrightarrow> read_guest M = r \<Longrightarrow>
    (\<And>a n bs. r m a n = Inr bs \<Longrightarrow> length bs = n) \<Longrightarrow> length (gather_readable M m ds acc) \<le> 65536"
  by (induction M m ds acc rule: gather_readable.induct) (auto split: sum.splits)

text \<open>The Ethernet frame of a chain, if it has one.\<close>

definition tx_frame :: "'m GuestMemAccess \<Rightarrow> 'm \<Rightarrow> DescriptorChain \<Rightarrow> bytes list" where
  "tx_frame M m chain =
     (let frame_data = gather_readable M m (chain_descriptors M m chain) [] in
      if virtio_net_hdr_size < length frame_data then [drop virtio_net_hdr_size frame_data] else [])"

lemma net_tx_chain_frame:
  "net_tx_chain M d m chain = (foldl net_send d (tx_frame M m chain), m, 0)"
  by (simp add: net_tx_chain_def tx_frame_def Let_def)

lemma foldl_net_send:
  "net_tx_open d \<Longrightarrow> foldl net_send d fs = d\<lparr>net_tx := net_tx d @ fs\<rparr>"
  by (induction fs arbitrary: d) (simp_all add: net_send_def)

lemma foldl_concat: "foldl (\<lambda>d x. foldl f d (g x)) d xs = foldl f d (concat (map g xs))"
  by (induction xs arbitrary: d) simp_all

context guest_mem
begin

lemma gather_readable_cong:
  assumes "minv m" "minv m'" "mapped m' = mapped m"
    and "\<And>d x. d \<in> set ds \<Longrightarrow> \<not> d_is_device_writable d \<Longrightarrow> in_range (d_gpa d) (unat (d_len d)) x \<Longrightarrow>
           byte_at m' x = byte_at m x"
  shows "gather_readable M m' ds acc = gather_readable M m ds acc"
  using assms(4)
proof (induction ds arbitrary: acc)
  case (Cons d ds)
  have IH: "gather_readable M m' ds acc = gather_readable M m ds acc" for acc
    by (rule Cons.IH) (meson Cons.prems list.set_intros(2))
  show ?case
  proof (cases "d_is_device_writable d")
    case False
    have "read_guest M m' (d_gpa d) (unat (d_len d)) = read_guest M m (d_gpa d) (unat (d_len d))"
      if "mapped m (d_gpa d) (unat (d_len d))"
      using that False Cons.prems by (intro read_guest_cong [OF assms(1-3)]) auto
    moreover have "\<exists>e e'. read_guest M m' (d_gpa d) (unat (d_len d)) = Inl e \<and>
        read_guest M m (d_gpa d) (unat (d_len d)) = Inl e'" if "\<not> mapped m (d_gpa d) (unat (d_len d))"
      using that read_unmapped [OF assms(1)] read_unmapped [OF assms(2)] assms(3) by metis
    ultimately show ?thesis
      using IH by (cases "mapped m (d_gpa d) (unat (d_len d))") (auto split: sum.splits)
  qed (simp add: IH)
qed simp

lemma tx_frame_cong:
  assumes "minv m" "minv m'" "mapped m' = mapped m" "mapped m (vq_desc_gpa q) (desc_bytes q)"
    and area: "\<And>x. tx_area (byte_at m) q x \<Longrightarrow> byte_at m' x = byte_at m x"
  shows "tx_frame M m' (chain_of q head) = tx_frame M m (chain_of q head)"
proof -
  let ?c = "chain_of q head"
  have ds: "chain_descriptors M m' ?c = chain_descriptors M m ?c"
    using assms(4) by (intro chain_descriptors_cong [OF assms(1-3)] area)
      (auto simp: chain_of_def desc_bytes_def tx_area_def ring_area_def)
  have "gather_readable M m' (chain_descriptors M m ?c) [] = gather_readable M m (chain_descriptors M m ?c) []"
  proof (rule gather_readable_cong [OF assms(1-3)])
    fix d x assume d: "d \<in> set (chain_descriptors M m ?c)" "\<not> d_is_device_writable d"
      and x: "in_range (d_gpa d) (unat (d_len d)) x"
    from chain_descriptors_table [OF assms(1) d(1)] d(2) x show "byte_at m' x = byte_at m x"
      by (intro area) (auto simp: tx_area_def chain_of_def Let_def)
  qed
  with ds show ?thesis by (simp add: tx_frame_def)
qed

lemma net_tx_served:
  assumes inv: "minv m" and ok: "vq_ok q" and rdy: "vq_ready q" and drv: "tx_driver_ok mapped byte_at m q"
    and op: "net_tx_open d"
  shows "\<exists>m'. net_process_tx M d q m =
      Some (d\<lparr>net_tx := net_tx d @ concat (map (\<lambda>head. tx_frame M m (chain_of q head)) (pending_heads (byte_at m) q))\<rparr>,
            q\<lparr>vq_last_avail_idx := avail_idx (byte_at m) q\<rparr>, m') \<and>
    used_idx (byte_at m') q = used_idx (byte_at m) q + (avail_idx (byte_at m) q - vq_last_avail_idx q) \<and>
    (\<forall>x. \<not> in_range (vq_used_gpa q) (used_bytes q) x \<longrightarrow> byte_at m' x = byte_at m x)"
proof -
  have table: "mapped m (vq_desc_gpa q) (desc_bytes q)" using drv by (simp add: tx_driver_ok_def)
  have "\<exists>m'. drain_queue M (net_tx_chain M) d q m =
      Some (foldl (\<lambda>d head. fst (net_tx_chain M d m (chain_of q head))) d (pending_heads (byte_at m) q),
            q\<lparr>vq_last_avail_idx := avail_idx (byte_at m) q\<rparr>, m') \<and>
    used_idx (byte_at m') q = used_idx (byte_at m) q + (avail_idx (byte_at m) q - vq_last_avail_idx q) \<and>
    (\<forall>x. \<not> in_range (vq_used_gpa q) (used_bytes q) x \<longrightarrow> byte_at m' x = byte_at m x)"
    by (rule tx_queue_served [OF inv ok rdy drv])
       (simp_all add: net_tx_chain_frame tx_frame_cong [OF inv _ _ table])
  then show ?thesis
    by (simp add: net_process_tx_def net_tx_chain_frame foldl_concat foldl_net_send [OF op])
qed

end

section \<open>Reception\<close>

context guest_mem
begin

lemma deliver_loop_keeps:
  assumes "minv m" "deliver_loop M m c payload w off = (m', w')"
  shows "minv m' \<and> mapped m' = mapped m"
  using assms
proof (induction "unat (ch_queue_size c) - unat (ch_count c)" arbitrary: c m w off rule: less_induct)
  case less
  obtain c' r where n: "next_descriptor M m c = (c', r)" by fastforce
  show ?case
  proof (cases r)
    case None
    with n less.prems show ?thesis by (simp add: deliver_loop.simps [of M m c])
  next
    case (Some d)
    have dec: "unat (ch_queue_size c') - unat (ch_count c') < unat (ch_queue_size c) - unat (ch_count c)"
      using next_descriptor_progress(1) [of M m c c' d] n Some by simp
    let ?k = "min (length payload - off) (unat (d_len d))"
    consider m1 where "write_guest M m (d_gpa d) (take ?k (drop off payload)) = Inr m1"
        "deliver_loop M m1 c' payload (w + of_nat ?k) (off + ?k) = (m', w')"
      | "deliver_loop M m c' payload w off = (m', w')"
      using less.prems(2) n Some
      by (auto simp: deliver_loop.simps [of M m c] Let_def split: if_splits sum.splits)
    then show ?thesis
    proof cases
      case (1 m1)
      from less.hyps [OF dec write_Inr(1) [OF less.prems(1) 1(1)] 1(2)] write_Inr(2) [OF less.prems(1) 1(1)]
      show ?thesis by simp
    next
      case 2
      from less.hyps [OF dec less.prems(1) 2] show ?thesis .
    qed
  qed
qed

lemma deliver_rx_keeps:
  assumes "minv m" "deliver_rx M d q m = (d', q', m', r)"
  shows "minv m' \<and> mapped m' = mapped m \<and> same_rings q q'"
proof (cases "net_rx_pending d")
  case (Cons frame rest)
  obtain q1 oc where pop: "pop_chain M m q = (q1, oc)" by fastforce
  show ?thesis
  proof (cases oc)
    case None
    with assms Cons pop pop_chain_None [of M m q q1] show ?thesis by (auto simp: deliver_rx_def)
  next
    case (Some c)
    obtain m1 w where dl: "deliver_loop M m c (replicate virtio_net_hdr_size 0 @ frame) 0 0 = (m1, w)" by fastforce
    have "m' = push_used M m1 q1 (ch_head_idx c) w" "q' = q1"
      using assms(2) Cons pop Some dl by (auto simp: deliver_rx_def Let_def split: if_splits)
    moreover have "same_rings q q1" using pop_chain_Some [of M m q q1 c] pop Some by (simp add: same_rings_def)
    ultimately show ?thesis
      using deliver_loop_keeps [OF assms(1) dl] push_used_keeps by simp
  qed
qed (use assms in \<open>auto simp: deliver_rx_def\<close>)

lemma net_tx_keeps:
  assumes "minv m" "net_process_tx M d q m = Some (d', q', m')"
  shows "minv m' \<and> mapped m' = mapped m \<and> same_rings q q'"
  by (rule drain_queue_keeps [OF assms(1) assms(2) [unfolded net_process_tx_def]])
     (auto simp: net_tx_chain_frame)

text \<open>A frame that fits into the only buffer of the chain.\<close>

lemma deliver_single:
  assumes inv: "minv m" and n: "next_descriptor M m c = (c', Some d)" and last: "ch_next_idx c' = None"
    and wr: "d_is_device_writable d" and fits: "length payload \<le> unat (d_len d)" "payload \<noteq> []"
    and map: "mapped m (d_gpa d) (length payload)"
  shows "\<exists>m'. deliver_loop M m c payload 0 0 = (m', of_nat (length payload)) \<and>
    write_guest M m (d_gpa d) payload = Inr m'"
proof -
  obtain m' where w: "write_guest M m (d_gpa d) payload = Inr m'" using write_mapped [OF inv map] by blast
  have k: "min (length payload) (unat (d_len d)) = length payload" using fits by simp
  have "deliver_loop M m' c' payload (of_nat (length payload)) (length payload) = (m', of_nat (length payload))"
    by (subst deliver_loop.simps) (simp add: next_descriptor_def last)
  then have "deliver_loop M m c payload 0 0 = (m', of_nat (length payload))"
    using n wr fits w by (subst deliver_loop.simps) (simp add: k Let_def)
  with w show ?thesis by blast
qed

end

lemma copy_at_length_min:
  "length (copy_at data 0 (take (min (s + length data) n - s) (drop s xs))) = length data"
  by (simp add: copy_at_def)

interpretation net: virtio_backend gm_access gm_inv gm_mapped gm_byte "net_backend gm_access"
proof unfold_locales
  fix m d i q d' q' m' r off data
  show "gm_inv m' \<and> gm_mapped m' = gm_mapped m \<and> same_rings q q' \<and> same_identity (net_backend gm_access) d d'"
    if inv: "gm_inv m" and run: "be_process_queue (net_backend gm_access) d i q m = Some (d', q', m')"
  proof -
    from run have "net_process_queue gm_access d i q m = Some (d', q', m')" by (simp add: net_backend_def)
    then have "gm_inv m' \<and> gm_mapped m' = gm_mapped m \<and> same_rings q q'"
      using gm.net_tx_keeps [OF inv] gm.deliver_rx_keeps [OF inv] inv
      by (auto simp: net_process_queue_def split: if_splits prod.splits)
    then show ?thesis by (simp add: net_backend_def same_identity_def)
  qed
  show "gm_inv m' \<and> gm_mapped m' = gm_mapped m \<and> same_rings q q' \<and> same_identity (net_backend gm_access) d d'"
    if inv: "gm_inv m" and run: "be_poll_rx (net_backend gm_access) d q m = Some (d', q', m', r)"
    using run gm.deliver_rx_keeps [OF inv] by (simp add: net_backend_def net_poll_rx_def same_identity_def)
  show "length (be_read_config (net_backend gm_access) d off data) = length data"
    by (simp add: net_backend_def net_read_config_def Let_def copy_at_length_min)
  show "same_identity (net_backend gm_access) d (be_write_config (net_backend gm_access) d off data)"
    by (simp add: net_backend_def same_identity_def)
qed

section \<open>Properties\<close>

lemma tx_frame_bound:
  assumes "gm_inv m" "f \<in> set (tx_frame gm_access m c)"
  shows "0 < length f \<and> length f \<le> 65524"
  using assms gather_readable_bound [of "[]" gm_access "read_guest gm_access" m "chain_descriptors gm_access m c"]
    gm.read_length [OF assms(1)]
  by (auto simp: tx_frame_def Let_def virtio_net_hdr_size_def split: if_splits)


lemma demo_tx_driver_ok: "tx_driver_ok gm_mapped gm_byte demo_mem demo_queue"
  by (simp add: tx_driver_ok_def demo_queue_mapped desc_at_def demo_peek)
     (simp add: demo_queue_def desc_bytes_def demo_mem_mapped ranges_disjoint_def used_bytes_def avail_bytes_def)


text \<open>Reception never loses, duplicates or reorders a frame: a poll first takes everything the host
  has queued, and then removes at most the oldest frame, exactly when it reports a delivery.\<close>

theorem net_poll_fifo:
  "\<exists>d' q' m' delivered taken. net_poll_rx M d q m = Some (d', q', m', delivered) \<and>
     net_rx_pending d @ net_rx_channel d = taken @ net_rx_pending d' \<and> net_rx_channel d' = [] \<and>
     length taken = (if delivered then 1 else 0) \<and> net_tx d' = net_tx d \<and> net_mac d' = net_mac d"
proof -
  let ?d = "d\<lparr>net_rx_pending := net_rx_pending d @ net_rx_channel d, net_rx_channel := []\<rparr>"
  obtain d' q' m' r where run: "deliver_rx M ?d q m = (d', q', m', r)" by (metis prod_cases4)
  have "r \<and> (\<exists>f. net_rx_pending ?d = f # net_rx_pending d' \<and> d' = ?d\<lparr>net_rx_pending := net_rx_pending d'\<rparr>) \<or> \<not> r \<and> d' = ?d"
    using run by (auto simp: deliver_rx_def Let_def split: list.splits option.splits prod.splits if_splits)
  then show ?thesis
  proof
    assume "r \<and> (\<exists>f. net_rx_pending ?d = f # net_rx_pending d' \<and> d' = ?d\<lparr>net_rx_pending := net_rx_pending d'\<rparr>)"
    then obtain f where f: "r" "net_rx_pending d @ net_rx_channel d = f # net_rx_pending d'"
      "d' = ?d\<lparr>net_rx_pending := net_rx_pending d'\<rparr>" by auto
    from f(3) have "net_rx_channel d' = [] \<and> net_tx d' = net_tx d \<and> net_mac d' = net_mac d"
      by (cases d') simp
    with f run show ?thesis
      by (intro exI [of _ d'] exI [of _ q'] exI [of _ m'] exI [of _ r] exI [of _ "[f]"]) (simp add: net_poll_rx_def)
  next
    assume "\<not> r \<and> d' = ?d"
    with run show ?thesis
      by (intro exI [of _ d'] exI [of _ q'] exI [of _ m'] exI [of _ r] exI [of _ "[]"]) (simp add: net_poll_rx_def)
  qed
qed

text \<open>A frame that fits into the driver's buffer arrives whole: the buffer then holds the 12 zero
  bytes of the virtio-net header followed by the frame, and the interrupt is requested.\<close>

theorem net_rx_frame_arrives:
  assumes "gm_inv m" "vq_ok q" "net_rx_pending d = frame # rest"
    and "pop_chain gm_access m q = (q', Some c)" "next_descriptor gm_access m c = (c', Some b)"
    and "ch_next_idx c' = None" "d_is_device_writable b"
    and "12 + length frame \<le> unat (d_len b)" "gm_mapped m (d_gpa b) (12 + length frame)"
    and "gm_mapped m (vq_used_gpa q) (used_bytes q)"
    and "ranges_disjoint (d_gpa b) (12 + length frame) (vq_used_gpa q) (used_bytes q)"
  shows "\<exists>m'. deliver_rx gm_access d q m = (d\<lparr>net_rx_pending := rest\<rparr>, q', m', True) \<and>
    read_slice m' (d_gpa b) (12 + length frame) = Inr (replicate 12 0 @ frame) \<and>
    used_idx (gm_byte m') q = used_idx (gm_byte m) q + 1"
proof -
  let ?p = "replicate 12 0 @ frame" and ?a = "d_gpa b"
  have len: "length ?p = 12 + length frame" by simp
  have map: "gm_mapped m ?a (length ?p)" using assms(9) by simp
  obtain m1 where m1: "deliver_loop gm_access m c ?p 0 0 = (m1, of_nat (length ?p))"
    "write_guest gm_access m ?a ?p = Inr m1"
    using gm.deliver_single [OF assms(1,5,6,7) _ _ map] assms(8) by auto
  note w = gm.write_Inr [OF assms(1) m1(2)]
  let ?w = "of_nat (length ?p) :: u32"
  have pos: "0 < ?w"
  proof -
    have "length ?p < 2 ^ 32" using assms(8) unat_u32_less [of "d_len b"] by simp
    then have "unat ?w = length ?p" by (intro unat_of_nat_eq) simp
    then show ?thesis by (simp add: word_less_nat_alt)
  qed
  have q': "push_used gm_access m1 q' h x = push_used gm_access m1 q h x" for h x
    using pop_chain_Some [OF assms(4)] by simp
  let ?m2 = "push_used gm_access m1 q (ch_head_idx c) ?w"
  have run: "deliver_rx gm_access d q m = (d\<lparr>net_rx_pending := rest\<rparr>, q', ?m2, True)"
    using assms(3,4) m1(1) pos q' by (simp add: deliver_rx_def virtio_net_hdr_size_def Let_def)
  have us1: "gm_mapped m1 (vq_used_gpa q) (used_bytes q)" using assms(10) w(2) by simp
  have "read_guest gm_access ?m2 ?a (length ?p) = read_guest gm_access m1 ?a (length ?p)"
  proof (rule gm.read_guest_cong [OF w(1)])
    show "gm_byte ?m2 x = gm_byte m1 x" if "in_range ?a (length ?p) x" for x
      using ranges_disjointD [OF assms(11)] that gm.push_used_outside [OF w(1) assms(2) us1] by simp
  qed (use gm.push_used_keeps [OF w(1)] map w(2) in auto)
  also have "\<dots> = Inr ?p" by (rule gm.read_after_write [OF assms(1) m1(2)])
  finally have rd: "read_slice ?m2 ?a (12 + length frame) = Inr ?p"
    by (simp add: gm_access_def)
  have "gm_byte m1 (vq_used_gpa q + 2 + of_nat k) = gm_byte m (vq_used_gpa q + 2 + of_nat k)" if "k < 2" for k
  proof -
    have "in_range (vq_used_gpa q) (used_bytes q) (vq_used_gpa q + of_nat (2 + k))"
      using gm.unat_offset [OF assms(1,10), of "2 + k"] that by (simp add: in_range_def used_bytes_def)
    then have "\<not> in_range ?a (length ?p) (vq_used_gpa q + of_nat (2 + k))"
      using ranges_disjointD [OF assms(11)] len by metis
    then show ?thesis using w(4) by (auto simp: in_range_def add.assoc)
  qed
  then have "used_idx (gm_byte m1) q = used_idx (gm_byte m) q"
    unfolding used_idx_def by (intro peek_cong) simp
  with gm.push_used_effect(1) [OF w(1) assms(2) us1] run rd show ?thesis by auto
qed

theorem net_rx_frame_arrives_witness:
  "\<exists>m q' m'. deliver_rx gm_access ((net_new [2, 0, 0, 0, 0, 1])\<lparr>net_rx_pending := [[1, 2, 3]]\<rparr>) demo_queue m =
     ((net_new [2, 0, 0, 0, 0, 1])\<lparr>net_rx_pending := []\<rparr>, q', m', True) \<and>
     read_slice m' 0x2800 15 = Inr (replicate 12 0 @ [1, 2, 3])"
proof -
  obtain m where m: "gm_inv m" "gm_mapped m = gm_mapped demo_mem"
    "pop_chain gm_access m demo_queue = (demo_queue\<lparr>vq_last_avail_idx := 0\<rparr>, Some (chain_of demo_queue 0))"
    "next_descriptor gm_access m (chain_of demo_queue 0) =
      ((chain_of demo_queue 0)\<lparr>ch_count := 1, ch_next_idx := None\<rparr>,
       Some \<lparr>d_gpa = 0x2800, d_len = 256, d_is_device_writable = True\<rparr>)"
    using demo_rx_mem by blast
  let ?d = "(net_new [2, 0, 0, 0, 0, 1])\<lparr>net_rx_pending := [[1, 2, 3]]\<rparr>"
  have p: "net_rx_pending ?d = [1, 2, 3] # []" by simp
  have us: "gm_mapped m (vq_used_gpa demo_queue) (used_bytes demo_queue)"
    using demo_queue_mapped(2) m(2) by simp
  have dis: "ranges_disjoint 0x2800 15 (vq_used_gpa demo_queue) (used_bytes demo_queue)"
    by (simp add: ranges_disjoint_def demo_queue_def used_bytes_def)
  from net_rx_frame_arrives [OF m(1) demo_queue_ok(1) p m(3,4)] us dis
  show ?thesis by (force simp: m(2) demo_mem_mapped)
qed

end
