(* ===== verification/Virtio_Vsock.thy ===== *)
theory Virtio_Vsock
  imports Mmio_Transport
begin

text \<open>
  The virtio-vsock device of \<open>hitz-devices/src/virtio/vsock.rs\<close>: the 44-byte packet header and the
  device with its receive, transmit and event queues. Channels are lists, as in the network device.
\<close>

section \<open>Packet header\<close>

definition vsock_hdr_size :: nat where
  "vsock_hdr_size = 44"

definition vsock_type_stream :: u16 where
  "vsock_type_stream = 1"

definition vmaddr_cid_host :: u64 where
  "vmaddr_cid_host = 2"

definition vsock_buf_alloc :: u32 where
  "vsock_buf_alloc = 256 * 1024"

datatype VsockOp = OpRequest | OpResponse | OpRst | OpShutdown | OpRw | OpCreditUpdate | OpCreditRequest

fun vsock_op_as_u16 :: "VsockOp \<Rightarrow> u16" where
  "vsock_op_as_u16 OpRequest = 1"
| "vsock_op_as_u16 OpResponse = 2"
| "vsock_op_as_u16 OpRst = 3"
| "vsock_op_as_u16 OpShutdown = 4"
| "vsock_op_as_u16 OpRw = 5"
| "vsock_op_as_u16 OpCreditUpdate = 6"
| "vsock_op_as_u16 OpCreditRequest = 7"

definition vsock_op_from_u16 :: "u16 \<Rightarrow> VsockOp option" where
  "vsock_op_from_u16 v =
     (if v = 1 then Some OpRequest else if v = 2 then Some OpResponse else if v = 3 then Some OpRst
      else if v = 4 then Some OpShutdown else if v = 5 then Some OpRw else if v = 6 then Some OpCreditUpdate
      else if v = 7 then Some OpCreditRequest else None)"

record VsockHdr =
  vh_src_cid :: u64
  vh_dst_cid :: u64
  vh_src_port :: u32
  vh_dst_port :: u32
  vh_len :: u32
  vh_type :: u16
  vh_op :: u16
  vh_flags :: u32
  vh_buf_alloc :: u32
  vh_fwd_cnt :: u32

definition vsock_to_bytes :: "VsockHdr \<Rightarrow> bytes" where
  "vsock_to_bytes h =
     le_bytes 8 (vh_src_cid h) @ le_bytes 8 (vh_dst_cid h) @ le_bytes 4 (vh_src_port h) @
     le_bytes 4 (vh_dst_port h) @ le_bytes 4 (vh_len h) @ le_bytes 2 (vh_type h) @ le_bytes 2 (vh_op h) @
     le_bytes 4 (vh_flags h) @ le_bytes 4 (vh_buf_alloc h) @ le_bytes 4 (vh_fwd_cnt h)"

definition byte_slice :: "bytes \<Rightarrow> nat \<Rightarrow> nat \<Rightarrow> bytes" where
  "byte_slice bs a b = take (b - a) (drop a bs)"

definition vsock_from_bytes :: "bytes \<Rightarrow> VsockHdr option" where
  "vsock_from_bytes bs =
     (if length bs < vsock_hdr_size then None
      else Some \<lparr>vh_src_cid = of_le_bytes (byte_slice bs 0 8), vh_dst_cid = of_le_bytes (byte_slice bs 8 16),
                 vh_src_port = of_le_bytes (byte_slice bs 16 20), vh_dst_port = of_le_bytes (byte_slice bs 20 24),
                 vh_len = of_le_bytes (byte_slice bs 24 28), vh_type = of_le_bytes (byte_slice bs 28 30),
                 vh_op = of_le_bytes (byte_slice bs 30 32), vh_flags = of_le_bytes (byte_slice bs 32 36),
                 vh_buf_alloc = of_le_bytes (byte_slice bs 36 40), vh_fwd_cnt = of_le_bytes (byte_slice bs 40 44)\<rparr>)"

definition make_response :: "VsockHdr \<Rightarrow> VsockOp \<Rightarrow> u32 \<Rightarrow> VsockHdr" where
  "make_response h op payload_len =
     \<lparr>vh_src_cid = vh_dst_cid h, vh_dst_cid = vh_src_cid h, vh_src_port = vh_dst_port h,
      vh_dst_port = vh_src_port h, vh_len = payload_len, vh_type = vsock_type_stream,
      vh_op = vsock_op_as_u16 op, vh_flags = 0, vh_buf_alloc = vsock_buf_alloc, vh_fwd_cnt = 0\<rparr>"

type_synonym VsockPacket = "VsockHdr \<times> bytes"

section \<open>Device\<close>

record VirtioVsockDevice =
  vs_guest_cid :: u64
  vs_tx :: "VsockPacket list"
  vs_tx_open :: bool
  vs_rx_channel :: "VsockPacket list"
  vs_rx_pending :: "VsockPacket list"

definition vsock_new :: "u32 \<Rightarrow> VirtioVsockDevice" where
  "vsock_new cid = \<lparr>vs_guest_cid = ucast cid, vs_tx = [], vs_tx_open = True, vs_rx_channel = [], vs_rx_pending = []\<rparr>"

text \<open>\<open>with_channels\<close>: the endpoints exist already and may hold packets.\<close>

definition vsock_with_channels :: "u32 \<Rightarrow> VsockPacket list \<Rightarrow> VsockPacket list \<Rightarrow> bool \<Rightarrow> VirtioVsockDevice" where
  "vsock_with_channels cid rx tx tx_open =
     \<lparr>vs_guest_cid = ucast cid, vs_tx = tx, vs_tx_open = tx_open, vs_rx_channel = rx, vs_rx_pending = []\<rparr>"

definition vsock_send :: "VirtioVsockDevice \<Rightarrow> VsockPacket \<Rightarrow> VirtioVsockDevice" where
  "vsock_send d p = (if vs_tx_open d then d\<lparr>vs_tx := vs_tx d @ [p]\<rparr> else d)"

fun gather_tx :: "'m GuestMemAccess \<Rightarrow> 'm \<Rightarrow> Descriptor list \<Rightarrow> bytes \<Rightarrow> bytes" where
  "gather_tx M m [] raw = raw"
| "gather_tx M m (desc # descs) raw =
     (if d_is_device_writable desc then raw
      else if length raw + unat (d_len desc) > 65536 then raw
      else (case read_guest M m (d_gpa desc) (unat (d_len desc)) of
              Inl e \<Rightarrow> gather_tx M m descs raw
            | Inr bs \<Rightarrow> gather_tx M m descs (raw @ bs)))"

text \<open>The packet of a chain: a payload shorter than announced is replaced by an empty one.\<close>

definition tx_packet :: "'m GuestMemAccess \<Rightarrow> 'm \<Rightarrow> DescriptorChain \<Rightarrow> VsockPacket option" where
  "tx_packet M m chain =
     (let raw = gather_tx M m (chain_descriptors M m chain) [] in
      case (if vsock_hdr_size \<le> length raw then vsock_from_bytes raw else None) of
        None \<Rightarrow> None
      | Some hdr \<Rightarrow>
          let payload_end = vsock_hdr_size + unat (vh_len hdr) in
          Some (hdr, case get_range raw vsock_hdr_size payload_end of None \<Rightarrow> [] | Some p \<Rightarrow> p))"

definition vsock_tx_chain ::
  "'m GuestMemAccess \<Rightarrow> VirtioVsockDevice \<Rightarrow> 'm \<Rightarrow> DescriptorChain \<Rightarrow> VirtioVsockDevice \<times> 'm \<times> u32" where
  "vsock_tx_chain M d m chain =
     (case tx_packet M m chain of None \<Rightarrow> (d, m, 0) | Some p \<Rightarrow> (vsock_send d p, m, 0))"

definition vsock_process_tx ::
  "'m GuestMemAccess \<Rightarrow> VirtioVsockDevice \<Rightarrow> VirtQueue \<Rightarrow> 'm \<Rightarrow> (VirtioVsockDevice \<times> VirtQueue \<times> 'm) option" where
  "vsock_process_tx M d q m = drain_queue M (vsock_tx_chain M) d q m"

definition vsock_process_event ::
  "'m GuestMemAccess \<Rightarrow> VirtioVsockDevice \<Rightarrow> VirtQueue \<Rightarrow> 'm \<Rightarrow> (VirtioVsockDevice \<times> VirtQueue \<times> 'm) option" where
  "vsock_process_event M d q m = drain_queue M (\<lambda>d m chain. (d, m, 0)) d q m"

definition vsock_process_queue ::
  "'m GuestMemAccess \<Rightarrow> VirtioVsockDevice \<Rightarrow> u16 \<Rightarrow> VirtQueue \<Rightarrow> 'm \<Rightarrow> (VirtioVsockDevice \<times> VirtQueue \<times> 'm) option" where
  "vsock_process_queue M d queue_idx q m =
     (if queue_idx = 0 then Some (d, q, m)
      else if queue_idx = 1 then vsock_process_tx M d q m
      else if queue_idx = 2 then vsock_process_event M d q m
      else Some (d, q, m))"

text \<open>Writing one packet into a receive buffer and returning the chain.\<close>

definition inject_packet ::
  "'m GuestMemAccess \<Rightarrow> VirtQueue \<Rightarrow> 'm \<Rightarrow> u16 \<Rightarrow> Descriptor \<Rightarrow> VsockPacket \<Rightarrow> 'm" where
  "inject_packet M q m head desc p =
     (let hdr_bytes = vsock_to_bytes (fst p); payload = snd p; total = length hdr_bytes + length payload;
          m1 = write_guest_ignore M m (d_gpa desc) hdr_bytes;
          m2 = (if payload \<noteq> []
                then (case checked_add (d_gpa desc) (of_nat (length hdr_bytes)) of
                        None \<Rightarrow> m1
                      | Some payload_addr \<Rightarrow> write_guest_ignore M m1 payload_addr payload)
                else m1)
      in push_used M m2 q head (if total < 2 ^ 32 then of_nat total else - 1))"

fun inject_pending ::
  "'m GuestMemAccess \<Rightarrow> VsockPacket list \<Rightarrow> VirtQueue \<Rightarrow> 'm \<Rightarrow> bool \<Rightarrow> VsockPacket list \<times> VirtQueue \<times> 'm \<times> bool" where
  "inject_pending M [] q m injected = ([], q, m, injected)"
| "inject_pending M (p # rest) q m injected =
     (case pop_chain M m q of
        (q', None) \<Rightarrow> (p # rest, q', m, injected)
      | (q', Some chain) \<Rightarrow>
         (case next_descriptor M m chain of
            (chain', Some desc) \<Rightarrow>
              if d_is_device_writable desc
              then inject_pending M rest q' (inject_packet M q' m (ch_head_idx chain) desc p) True
              else (p # rest, q', push_used M m q' (ch_head_idx chain) 0, injected)
          | (chain', None) \<Rightarrow> (p # rest, q', push_used M m q' (ch_head_idx chain) 0, injected)))"

definition vsock_poll_rx ::
  "'m GuestMemAccess \<Rightarrow> VirtioVsockDevice \<Rightarrow> VirtQueue \<Rightarrow> 'm \<Rightarrow> (VirtioVsockDevice \<times> VirtQueue \<times> 'm \<times> bool) option" where
  "vsock_poll_rx M d q m =
     (let d = d\<lparr>vs_rx_pending := vs_rx_pending d @ vs_rx_channel d, vs_rx_channel := []\<rparr> in
      if vs_rx_pending d = [] then Some (d, q, m, False)
      else (case inject_pending M (vs_rx_pending d) q m False of
              (left, q', m', injected) \<Rightarrow> Some (d\<lparr>vs_rx_pending := left\<rparr>, q', m', injected)))"

definition vsock_read_config :: "VirtioVsockDevice \<Rightarrow> u64 \<Rightarrow> bytes \<Rightarrow> bytes" where
  "vsock_read_config d offset data =
     (let cid_bytes = le_bytes 8 (vs_guest_cid d); src_start = unat offset;
          src_end = min (src_start + length data) (length cid_bytes) in
      if src_start < length cid_bytes
      then copy_at data 0 (take (src_end - src_start) (drop src_start cid_bytes)) else data)"

definition vsock_backend :: "'m GuestMemAccess \<Rightarrow> ('m, VirtioVsockDevice) VirtioBackend" where
  "vsock_backend M = \<lparr>be_device_id = (\<lambda>d. 19), be_device_features = (\<lambda>d. 0),
     be_queue_count = (\<lambda>d. 3), be_process_queue = vsock_process_queue M, be_poll_rx = vsock_poll_rx M,
     be_read_config = vsock_read_config, be_write_config = (\<lambda>d offset data. d)\<rparr>"

section \<open>Lemmas\<close>

lemma length_vsock_to_bytes [simp, rust_len]: "length (vsock_to_bytes h) = 44"
  by (simp add: vsock_to_bytes_def)

lemma vsock_from_to: "vsock_from_bytes (vsock_to_bytes h @ rest) = Some h"
  by (simp add: vsock_from_bytes_def vsock_to_bytes_def byte_slice_def vsock_hdr_size_def of_le_bytes_le_bytes)

lemma take_add_slice: "take n bs @ byte_slice bs n (n + k) = take (n + k) bs"
  by (simp add: byte_slice_def take_add)

lemma vsock_to_from:
  assumes "vsock_from_bytes bs = Some h"
  shows "vsock_to_bytes h = take 44 bs"
proof -
  have len: "44 \<le> length bs" using assms by (simp add: vsock_from_bytes_def vsock_hdr_size_def split: if_splits)
  have l: "length (byte_slice bs a b) = b - a" if "a \<le> b" "b \<le> 44" for a b using that len by (simp add: byte_slice_def)
  have "vsock_to_bytes h = byte_slice bs 0 8 @ byte_slice bs 8 16 @ byte_slice bs 16 20 @ byte_slice bs 20 24 @ byte_slice bs 24 28 @
      byte_slice bs 28 30 @ byte_slice bs 30 32 @ byte_slice bs 32 36 @ byte_slice bs 36 40 @ byte_slice bs 40 44"
    using assms l by (auto simp: vsock_from_bytes_def vsock_to_bytes_def vsock_hdr_size_def
        le_bytes_of_le_bytes split: if_splits)
  also have "\<dots> = take 44 bs"
    using take_add_slice [of 8 bs 8] take_add_slice [of 16 bs 4] take_add_slice [of 20 bs 4]
      take_add_slice [of 24 bs 4] take_add_slice [of 28 bs 2] take_add_slice [of 30 bs 2]
      take_add_slice [of 32 bs 4] take_add_slice [of 36 bs 4] take_add_slice [of 40 bs 4]
    by (simp add: byte_slice_def [of bs 0]) (metis append_assoc)
  finally show ?thesis .
qed

lemma vsock_tx_chain_packet:
  "vsock_tx_chain M d m chain = (foldl vsock_send d (case tx_packet M m chain of None \<Rightarrow> [] | Some p \<Rightarrow> [p]), m, 0)"
  by (simp add: vsock_tx_chain_def split: option.splits)

lemma foldl_vsock_send: "vs_tx_open d \<Longrightarrow> foldl vsock_send d ps = d\<lparr>vs_tx := vs_tx d @ ps\<rparr>"
  by (induction ps arbitrary: d) (simp_all add: vsock_send_def)

lemma foldl_sends: "foldl (\<lambda>d x. foldl f d (g x)) d xs = foldl f d (concat (map g xs))"
  by (induction xs arbitrary: d) simp_all

lemma inject_pending_suffix:
  "inject_pending M ps q m ij = (ps', q', m', ij') \<Longrightarrow>
     \<exists>taken. ps = taken @ ps' \<and> (ij' \<longleftrightarrow> ij \<or> taken \<noteq> [])"
proof (induction M ps q m ij rule: inject_pending.induct)
  case (2 M p rest q m ij)
  obtain q1 oc where pop: "pop_chain M m q = (q1, oc)" by fastforce
  show ?case
  proof (cases "\<exists>c c' d. oc = Some c \<and> next_descriptor M m c = (c', Some d) \<and> d_is_device_writable d")
    case True
    then obtain c c' d where c: "oc = Some c" "next_descriptor M m c = (c', Some d)" "d_is_device_writable d" by blast
    with "2.prems" pop have "inject_pending M rest q1 (inject_packet M q1 m (ch_head_idx c) d p) True = (ps', q', m', ij')"
      by simp
    from "2.IH" [OF pop [symmetric] c(1) c(2) [symmetric] refl c(3) this] obtain taken
      where "rest = taken @ ps'" "ij'" by auto
    then show ?thesis by (intro exI [of _ "p # taken"]) simp
  next
    case False
    then have "ps' = p # rest" "ij' = ij"
      using "2.prems" pop by (auto split: option.splits prod.splits if_splits)
    then show ?thesis by (intro exI [of _ "[]"]) simp
  qed
qed auto

context guest_mem
begin

lemma inject_packet_keeps:
  assumes "minv m"
  shows "minv (inject_packet M q m head desc p)" "mapped (inject_packet M q m head desc p) = mapped m"
  using assms by (auto simp: inject_packet_def Let_def push_used_keeps write_ignore_keeps split: option.splits)

lemma inject_pending_keeps:
  assumes "minv m" "inject_pending M ps q m ij = (ps', q', m', ij')"
  shows "minv m' \<and> mapped m' = mapped m \<and> same_rings q q'"
  using assms
proof (induction ps arbitrary: q m ij)
  case (Cons p rest)
  obtain q1 oc where pop: "pop_chain M m q = (q1, oc)" by fastforce
  show ?case
  proof (cases oc)
    case None
    with Cons.prems pop pop_chain_None [of M m q q1] show ?thesis by auto
  next
    case (Some c)
    have rings: "same_rings q q1" using pop_chain_Some [of M m q q1 c] pop Some by (simp add: same_rings_def)
    obtain c' od where n: "next_descriptor M m c = (c', od)" by fastforce
    show ?thesis
    proof (cases "\<exists>d. od = Some d \<and> d_is_device_writable d")
      case True
      then obtain d where d: "od = Some d" "d_is_device_writable d" by blast
      have "inject_pending M rest q1 (inject_packet M q1 m (ch_head_idx c) d p) True = (ps', q', m', ij')"
        using Cons.prems(2) pop Some n d by simp
      from Cons.IH [OF inject_packet_keeps(1) [OF Cons.prems(1)] this] inject_packet_keeps(2) [OF Cons.prems(1)]
        same_rings_trans [OF rings] show ?thesis by auto
    next
      case False
      then have "m' = push_used M m q1 (ch_head_idx c) 0" "q' = q1"
        using Cons.prems(2) pop Some n by (auto split: option.splits if_splits)
      then show ?thesis using push_used_keeps [OF Cons.prems(1)] rings by simp
    qed
  qed
qed simp

lemma vsock_tx_keeps:
  assumes "minv m" "vsock_process_tx M d q m = Some (d', q', m')"
  shows "minv m' \<and> mapped m' = mapped m \<and> same_rings q q'"
  by (rule drain_queue_keeps [OF assms(1) assms(2) [unfolded vsock_process_tx_def]])
     (auto simp: vsock_tx_chain_packet)

lemma vsock_event_keeps:
  assumes "minv m" "vsock_process_event M d q m = Some (d', q', m')"
  shows "minv m' \<and> mapped m' = mapped m \<and> same_rings q q'"
  by (rule drain_queue_keeps [OF assms(1) assms(2) [unfolded vsock_process_event_def]]) auto

lemma gather_tx_cong:
  assumes "minv m" "minv m'" "mapped m' = mapped m"
    and "\<And>d x. d \<in> set ds \<Longrightarrow> \<not> d_is_device_writable d \<Longrightarrow> in_range (d_gpa d) (unat (d_len d)) x \<Longrightarrow>
           byte_at m' x = byte_at m x"
  shows "gather_tx M m' ds acc = gather_tx M m ds acc"
  using assms(4)
proof (induction ds arbitrary: acc)
  case (Cons d ds)
  have IH: "gather_tx M m' ds acc = gather_tx M m ds acc" for acc
    by (rule Cons.IH) (meson Cons.prems list.set_intros(2))
  show ?case
  proof (cases "d_is_device_writable d")
    case False
    have "read_guest M m' (d_gpa d) (unat (d_len d)) = read_guest M m (d_gpa d) (unat (d_len d))"
      if "mapped m (d_gpa d) (unat (d_len d))"
      using that False Cons.prems by (intro read_guest_cong [OF assms(1-3)]) auto
    moreover have "\<exists>e e'. read_guest M m' (d_gpa d) (unat (d_len d)) = Inl e \<and>
        read_guest M m (d_gpa d) (unat (d_len d)) = Inl e'" if "\<not> mapped m (d_gpa d) (unat (d_len d))"
      using that read_unmapped [OF assms(1)] read_unmapped [OF assms(2)] assms(3) by metis
    ultimately show ?thesis
      using IH by (cases "mapped m (d_gpa d) (unat (d_len d))") (auto split: sum.splits)
  qed simp
qed simp

lemma tx_packet_cong:
  assumes "minv m" "minv m'" "mapped m' = mapped m" "mapped m (vq_desc_gpa q) (desc_bytes q)"
    and area: "\<And>x. tx_area (byte_at m) q x \<Longrightarrow> byte_at m' x = byte_at m x"
  shows "tx_packet M m' (chain_of q head) = tx_packet M m (chain_of q head)"
proof -
  let ?c = "chain_of q head"
  have ds: "chain_descriptors M m' ?c = chain_descriptors M m ?c"
    using assms(4) by (intro chain_descriptors_cong [OF assms(1-3)] area)
      (auto simp: chain_of_def desc_bytes_def tx_area_def ring_area_def)
  have "gather_tx M m' (chain_descriptors M m ?c) [] = gather_tx M m (chain_descriptors M m ?c) []"
  proof (rule gather_tx_cong [OF assms(1-3)])
    fix d x assume d: "d \<in> set (chain_descriptors M m ?c)" "\<not> d_is_device_writable d"
      and x: "in_range (d_gpa d) (unat (d_len d)) x"
    from chain_descriptors_table [OF assms(1) d(1)] d(2) x show "byte_at m' x = byte_at m x"
      by (intro area) (auto simp: tx_area_def chain_of_def Let_def)
  qed
  with ds show ?thesis by (simp add: tx_packet_def)
qed

end

interpretation vs: virtio_backend gm_access gm_inv gm_mapped gm_byte "vsock_backend gm_access"
proof unfold_locales
  fix m d i q d' q' m' r off data
  show "gm_inv m' \<and> gm_mapped m' = gm_mapped m \<and> same_rings q q' \<and> same_identity (vsock_backend gm_access) d d'"
    if inv: "gm_inv m" and run: "be_process_queue (vsock_backend gm_access) d i q m = Some (d', q', m')"
  proof -
    from run have "vsock_process_queue gm_access d i q m = Some (d', q', m')" by (simp add: vsock_backend_def)
    then have "gm_inv m' \<and> gm_mapped m' = gm_mapped m \<and> same_rings q q'"
      using gm.vsock_tx_keeps [OF inv] gm.vsock_event_keeps [OF inv] inv
      by (auto simp: vsock_process_queue_def split: if_splits)
    then show ?thesis by (simp add: vsock_backend_def same_identity_def)
  qed
  show "gm_inv m' \<and> gm_mapped m' = gm_mapped m \<and> same_rings q q' \<and> same_identity (vsock_backend gm_access) d d'"
    if inv: "gm_inv m" and run: "be_poll_rx (vsock_backend gm_access) d q m = Some (d', q', m', r)"
  proof -
    have "gm_inv m' \<and> gm_mapped m' = gm_mapped m \<and> same_rings q q'"
      using run gm.inject_pending_keeps [OF inv] inv
      by (auto simp: vsock_backend_def vsock_poll_rx_def Let_def split: if_splits prod.splits)
    then show ?thesis by (simp add: vsock_backend_def same_identity_def)
  qed
  show "length (be_read_config (vsock_backend gm_access) d off data) = length data"
    by (simp add: vsock_backend_def vsock_read_config_def Let_def copy_at_def)
  show "same_identity (vsock_backend gm_access) d (be_write_config (vsock_backend gm_access) d off data)"
    by (simp add: vsock_backend_def same_identity_def)
qed

section \<open>Properties\<close>

text \<open>The packet header round trip: parsing what was serialised, with any payload behind it, gives
  the header back, and serialising a parsed header reproduces the first 44 bytes; shorter input is
  rejected. The operation codes round-trip too.\<close>

theorem vsock_header_roundtrip:
  "vsock_from_bytes (vsock_to_bytes h @ payload) = Some h \<and>
   (case vsock_from_bytes bs of None \<Rightarrow> length bs < 44 | Some h' \<Rightarrow> vsock_to_bytes h' = take 44 bs) \<and>
   vsock_op_from_u16 (vsock_op_as_u16 op) = Some op"
proof (intro conjI)
  show "vsock_from_bytes (vsock_to_bytes h @ payload) = Some h" by (rule vsock_from_to)
  show "case vsock_from_bytes bs of None \<Rightarrow> length bs < 44 | Some h' \<Rightarrow> vsock_to_bytes h' = take 44 bs"
    using vsock_to_from [of bs]
    by (cases "vsock_from_bytes bs") (auto simp: vsock_from_bytes_def vsock_hdr_size_def split: if_splits)
  show "vsock_op_from_u16 (vsock_op_as_u16 op) = Some op" by (cases op) (simp_all add: vsock_op_from_u16_def)
qed

lemma vsock_tx_served:
  assumes "gm_inv m" "vq_ok q" "vq_ready q" "tx_driver_ok gm_mapped gm_byte m q" "vs_tx_open d"
  shows "\<exists>m'. vsock_process_queue gm_access d 1 q m =
      Some (d\<lparr>vs_tx := vs_tx d @
                List.map_filter (\<lambda>head. tx_packet gm_access m (chain_of q head)) (pending_heads (gm_byte m) q)\<rparr>,
            q\<lparr>vq_last_avail_idx := avail_idx (gm_byte m) q\<rparr>, m') \<and>
    used_idx (gm_byte m') q = used_idx (gm_byte m) q + (avail_idx (gm_byte m) q - vq_last_avail_idx q)"
proof -
  let ?g = "\<lambda>head. case tx_packet gm_access m (chain_of q head) of None \<Rightarrow> [] | Some p \<Rightarrow> [p]"
  have table: "gm_mapped m (vq_desc_gpa q) (desc_bytes q)" using assms(4) by (simp add: tx_driver_ok_def)
  have "\<exists>m'. drain_queue gm_access (vsock_tx_chain gm_access) d q m =
      Some (foldl (\<lambda>d head. fst (vsock_tx_chain gm_access d m (chain_of q head))) d (pending_heads (gm_byte m) q),
            q\<lparr>vq_last_avail_idx := avail_idx (gm_byte m) q\<rparr>, m') \<and>
    used_idx (gm_byte m') q = used_idx (gm_byte m) q + (avail_idx (gm_byte m) q - vq_last_avail_idx q) \<and>
    (\<forall>x. \<not> in_range (vq_used_gpa q) (used_bytes q) x \<longrightarrow> gm_byte m' x = gm_byte m x)"
    by (rule gm.tx_queue_served [OF assms(1-4)])
       (simp_all add: vsock_tx_chain_packet gm.tx_packet_cong [OF assms(1) _ _ table])
  moreover have "concat (map ?g hs) = List.map_filter (\<lambda>head. tx_packet gm_access m (chain_of q head)) hs" for hs
    by (induction hs) (auto simp: List.map_filter_simps split: option.splits)
  ultimately show ?thesis
    by (auto simp: vsock_process_queue_def vsock_process_tx_def vsock_tx_chain_packet foldl_sends
        foldl_vsock_send [OF assms(5)])
qed

text \<open>Transmission: a notification of the transmit queue ends and hands the packet of every
  published chain to the host, in publication order.\<close>

theorem vsock_tx_in_order:
  assumes "gm_inv m" "vq_ok q" "vq_ready q" "tx_driver_ok gm_mapped gm_byte m q" "vs_tx_open d"
  shows "\<exists>m'. vsock_process_queue gm_access d 1 q m =
      Some (d\<lparr>vs_tx := vs_tx d @
                List.map_filter (\<lambda>head. tx_packet gm_access m (chain_of q head)) (pending_heads (gm_byte m) q)\<rparr>,
            q\<lparr>vq_last_avail_idx := avail_idx (gm_byte m) q\<rparr>, m') \<and>
    used_idx (gm_byte m') q = used_idx (gm_byte m) q + (avail_idx (gm_byte m) q - vq_last_avail_idx q)"
  by (rule vsock_tx_served [OF assms])

lemma demo_vsock_driver_ok: "tx_driver_ok gm_mapped gm_byte demo_mem demo_queue"
  by (simp add: tx_driver_ok_def demo_queue_mapped desc_at_def demo_peek)
     (simp add: demo_queue_def desc_bytes_def demo_mem_mapped ranges_disjoint_def used_bytes_def avail_bytes_def)

theorem vsock_tx_in_order_witness:
  "\<exists>d' q' m'. vsock_process_queue gm_access (vsock_new 3) 1 demo_queue demo_mem = Some (d', q', m') \<and>
     vq_last_avail_idx q' = 0"
proof -
  have "vs_tx_open (vsock_new 3)" by (simp add: vsock_new_def)
  from vsock_tx_in_order [OF demo_mem_inv demo_queue_ok demo_vsock_driver_ok this] show ?thesis
    by (auto simp: avail_idx_def demo_peek)
qed

text \<open>A poll takes everything the host has queued and removes packets from the front only: what
  remains pending is a suffix, in order, and an interrupt is requested exactly when a packet was
  removed.\<close>

theorem vsock_poll_fifo:
  "\<exists>d' q' m' injected taken. vsock_poll_rx M d q m = Some (d', q', m', injected) \<and>
     vs_rx_pending d @ vs_rx_channel d = taken @ vs_rx_pending d' \<and> vs_rx_channel d' = [] \<and>
     (injected \<longleftrightarrow> taken \<noteq> []) \<and> vs_tx d' = vs_tx d \<and> vs_tx_open d' = vs_tx_open d \<and> vs_guest_cid d' = vs_guest_cid d"
proof -
  let ?ps = "vs_rx_pending d @ vs_rx_channel d"
  obtain ps' q' m' r where run: "inject_pending M ?ps q m False = (ps', q', m', r)" by (metis prod_cases4)
  from inject_pending_suffix [OF run] obtain taken where t: "?ps = taken @ ps'" "r \<longleftrightarrow> taken \<noteq> []" by auto
  show ?thesis
  proof (cases "?ps = []")
    case True
    then show ?thesis by (auto simp: vsock_poll_rx_def)
  next
    case False
    let ?d = "d\<lparr>vs_rx_pending := ps', vs_rx_channel := []\<rparr>"
    have "vsock_poll_rx M d q m = Some (?d, q', m', r)"
      using False run by (auto simp: vsock_poll_rx_def Let_def)
    with t show ?thesis
      by (intro exI [of _ ?d] exI [of _ q'] exI [of _ m'] exI [of _ r] exI [of _ taken]) auto
  qed
qed

text \<open>C40: an injected packet is written contiguously, header first, at the address of the receive
  buffer, and announced with its full length. The length of the buffer does not enter: a packet
  longer than the buffer overwrites the guest memory behind it.\<close>

theorem vsock_rx_writes_whole_packet:
  assumes "gm_inv m" "vq_ok q" "gm_mapped m (d_gpa desc) (44 + length (snd p))"
    and "gm_mapped m (vq_used_gpa q) (used_bytes q)"
    and "ranges_disjoint (d_gpa desc) (44 + length (snd p)) (vq_used_gpa q) (used_bytes q)"
  shows "read_slice (inject_packet gm_access q m head desc p) (d_gpa desc) (44 + length (snd p)) =
    Inr (vsock_to_bytes (fst p) @ snd p)"
proof -
  let ?a = "d_gpa desc" and ?h = "vsock_to_bytes (fst p)" and ?n = "44 + length (snd p)"
  have b: "unat ?a + ?n < 2 ^ 64" using gm_mapped_bound [OF assms(1,3)] by simp
  have ua: "unat (?a + 44) = unat ?a + 44" using unat_add_of_nat [of ?a 44] b by simp
  have ca: "checked_add ?a 44 = Some (?a + 44)" using b by (simp add: checked_add_def)
  define m1 where "m1 = write_guest_ignore gm_access m ?a ?h"
  define m2 where "m2 = write_guest_ignore gm_access m1 (?a + 44) (snd p)"
  note k1 = gm.write_ignore_keeps [OF assms(1), of ?a ?h, folded m1_def]
  note k2 = gm.write_ignore_keeps [OF k1(1), of "?a + 44" "snd p", folded m2_def]
  have map1: "gm_mapped m ?a 44" using gm_mapped_part [OF assms(1,3), of 0 44] by simp
  have map2: "gm_mapped m1 (?a + 44) (length (snd p))"
    using gm_mapped_part [OF assms(1,3), of 44 "length (snd p)"] k1(2) by simp
  define w :: u32 where "w = (if 44 + length (snd p) < 2 ^ 32 then of_nat (44 + length (snd p)) else - 1)"
  have "(if snd p \<noteq> [] then write_guest_ignore gm_access m1 (?a + 44) (snd p) else m1) = m2"
    by (simp add: m2_def write_guest_ignore_def gm_access_def write_slice_def)
  then have run: "inject_packet gm_access q m head desc p = push_used gm_access m2 q head w"
    unfolding inject_packet_def Let_def w_def m1_def
    by (simp only: length_vsock_to_bytes of_nat_numeral ca option.case)
  let ?m3 = "push_used gm_access m2 q head w"
  have us: "gm_mapped m2 (vq_used_gpa q) (used_bytes q)" using assms(4) k1(2) k2(2) by simp
  have byte: "gm_byte ?m3 (?a + of_nat i) = (?h @ snd p) ! i" if "i < ?n" for i
  proof -
    have u: "unat (?a + of_nat i) = unat ?a + i" using unat_add_of_nat [of ?a i] b that by simp
    then have "in_range ?a ?n (?a + of_nat i)" using that by (simp add: in_range_def)
    then have "gm_byte ?m3 (?a + of_nat i) = gm_byte m2 (?a + of_nat i)"
      using ranges_disjointD [OF assms(5)] by (intro gm.push_used_outside [OF k2(1) assms(2) us]) blast
    also have "\<dots> = (?h @ snd p) ! i"
    proof (cases "i < 44")
      case True
      then have "gm_byte m2 (?a + of_nat i) = gm_byte m1 (?a + of_nat i)"
        using u ua by (simp add: m2_def gm.byte_at_write_ignore [OF k1(1)])
      also have "\<dots> = ?h ! i" using True u map1 by (simp add: m1_def gm.byte_at_write_ignore [OF assms(1)])
      finally show ?thesis using True by (simp add: nth_append)
    next
      case False
      then show ?thesis using that u ua map2
        by (simp add: m2_def gm.byte_at_write_ignore [OF k1(1)] nth_append)
    qed
    finally show ?thesis .
  qed
  note k3 = gm.push_used_keeps [OF k2(1), of q head w]
  have "gm_mapped ?m3 ?a ?n" using assms(3) k1(2) k2(2) k3(2) by simp
  moreover have "map (\<lambda>i. gm_byte ?m3 (?a + of_nat i)) [0..<?n] = ?h @ snd p"
    by (rule nth_equalityI) (simp_all add: byte)
  ultimately show ?thesis unfolding run by (subst read_slice_mapped [OF k3(1)]) simp_all
qed

definition demo_hdr :: VsockHdr where
  "demo_hdr = \<lparr>vh_src_cid = 2, vh_dst_cid = 3, vh_src_port = 1, vh_dst_port = 1024, vh_len = 300, vh_type = 1,
     vh_op = 5, vh_flags = 0, vh_buf_alloc = 0, vh_fwd_cnt = 0\<rparr>"

theorem vsock_rx_writes_whole_packet_witness:
  "read_slice (inject_packet gm_access demo_queue demo_mem 0
       \<lparr>d_gpa = 0x2800, d_len = 64, d_is_device_writable = True\<rparr> (demo_hdr, replicate 300 9)) 0x2800 344 =
     Inr (vsock_to_bytes demo_hdr @ replicate 300 9)"
proof -
  let ?b = "\<lparr>d_gpa = 0x2800, d_len = 64, d_is_device_writable = True\<rparr>" and ?p = "(demo_hdr, replicate 300 9)"
  have "gm_mapped demo_mem (d_gpa ?b) (44 + length (snd ?p))"
    "ranges_disjoint (d_gpa ?b) (44 + length (snd ?p)) (vq_used_gpa demo_queue) (used_bytes demo_queue)"
    by (simp_all add: demo_mem_mapped ranges_disjoint_def demo_queue_def used_bytes_def)
  from vsock_rx_writes_whole_packet [OF demo_mem_inv demo_queue_ok(1) this(1) demo_queue_mapped(2) this(2)]
  show ?thesis by simp
qed

end
