(* ===== verification/Vm.thy ===== *)
theory Vm
  imports Boot_Image Run_Loop Whp_Partition Virtio_Block Virtio_Net Virtio_Vsock
begin

text \<open>
  The second half of the boot pipeline (\<open>hitz-vmm/src/vm.rs\<close>): the devices on the MMIO bus, the vCPUs,
  and running them. A boxed \<open>dyn MmioDevice\<close> is one of the three virtio devices behind its transport.
  Opening the disk image, starting the network thread and the hypervisor are parameters. The vCPU
  threads are the interleaved system of \<open>Run_Loop\<close>.
\<close>

section \<open>Devices\<close>

datatype VmDevice =
    BlockDevice "VirtioBlockDevice VirtioMmioTransport"
  | NetDevice "VirtioNetDevice VirtioMmioTransport"
  | VsockDevice "VirtioVsockDevice VirtioMmioTransport"

abbreviation block_ops :: "(GuestMemory, VirtioBlockDevice) VirtioBackend" where
  "block_ops \<equiv> block_backend gm_access"

abbreviation net_ops :: "(GuestMemory, VirtioNetDevice) VirtioBackend" where
  "net_ops \<equiv> net_backend gm_access"

abbreviation vsock_ops :: "(GuestMemory, VirtioVsockDevice) VirtioBackend" where
  "vsock_ops \<equiv> vsock_backend gm_access"

fun vm_dev_read :: "VmDevice \<Rightarrow> u64 \<Rightarrow> bytes \<Rightarrow> VmDevice \<times> bytes" where
  "vm_dev_read (BlockDevice t) off data = map_prod BlockDevice id (dev_read (transport_device block_ops) t off data)"
| "vm_dev_read (NetDevice t) off data = map_prod NetDevice id (dev_read (transport_device net_ops) t off data)"
| "vm_dev_read (VsockDevice t) off data = map_prod VsockDevice id (dev_read (transport_device vsock_ops) t off data)"

fun vm_dev_write :: "VmDevice \<Rightarrow> u64 \<Rightarrow> bytes \<Rightarrow> GuestMemory \<Rightarrow> (VmDevice \<times> GuestMemory \<times> u8 option) option" where
  "vm_dev_write (BlockDevice t) off data m = map_option (map_prod BlockDevice id) (dev_write (transport_device block_ops) t off data m)"
| "vm_dev_write (NetDevice t) off data m = map_option (map_prod NetDevice id) (dev_write (transport_device net_ops) t off data m)"
| "vm_dev_write (VsockDevice t) off data m = map_option (map_prod VsockDevice id) (dev_write (transport_device vsock_ops) t off data m)"

fun vm_dev_poll :: "VmDevice \<Rightarrow> GuestMemory \<Rightarrow> (VmDevice \<times> GuestMemory \<times> u8 option) option" where
  "vm_dev_poll (BlockDevice t) m = map_option (map_prod BlockDevice id) (dev_poll (transport_device block_ops) t m)"
| "vm_dev_poll (NetDevice t) m = map_option (map_prod NetDevice id) (dev_poll (transport_device net_ops) t m)"
| "vm_dev_poll (VsockDevice t) m = map_option (map_prod VsockDevice id) (dev_poll (transport_device vsock_ops) t m)"

definition vm_device :: "(GuestMemory, VmDevice) MmioDevice" where
  "vm_device = \<lparr>dev_read = vm_dev_read, dev_write = vm_dev_write, dev_poll = vm_dev_poll\<rparr>"

fun vm_device_ok :: "VmDevice \<Rightarrow> bool" where
  "vm_device_ok (BlockDevice t) = transport_ok block_ops t"
| "vm_device_ok (NetDevice t) = transport_ok net_ops t"
| "vm_device_ok (VsockDevice t) = transport_ok vsock_ops t"

text \<open>Each transport is a bus device, because its device is a virtio backend.\<close>

context virtio_backend
begin

lemma transport_is_device: "mmio_device M minv mapped byte_at (transport_device B) (transport_ok B)"
  by (rule dev.mmio_device_axioms)

end

interpretation blkd: mmio_device gm_access gm_inv gm_mapped gm_byte "transport_device block_ops" "transport_ok block_ops"
  by (rule blk.transport_is_device)

interpretation netd: mmio_device gm_access gm_inv gm_mapped gm_byte "transport_device net_ops" "transport_ok net_ops"
  by (rule net.transport_is_device)

interpretation vsd: mmio_device gm_access gm_inv gm_mapped gm_byte "transport_device vsock_ops" "transport_ok vsock_ops"
  by (rule vs.transport_is_device)

interpretation vmd: mmio_device gm_access gm_inv gm_mapped gm_byte vm_device vm_device_ok
proof unfold_locales
  show "vm_device_ok d' \<and> length data' = length data"
    if "vm_device_ok d" "dev_read vm_device d off data = (d', data')" for d off data d' data'
    using that by (cases d) (auto simp: vm_device_def map_prod_def split: prod.splits
        dest: blkd.dev_read_keeps netd.dev_read_keeps vsd.dev_read_keeps)
  show "vm_device_ok d' \<and> gm_inv m' \<and> gm_mapped m' = gm_mapped m"
    if "gm_inv m" "vm_device_ok d" "dev_write vm_device d off data m = Some (d', m', irq)" for m d off data d' m' irq
    using that by (cases d) (auto simp: vm_device_def dest: blkd.dev_write_keeps netd.dev_write_keeps vsd.dev_write_keeps)
  show "vm_device_ok d' \<and> gm_inv m' \<and> gm_mapped m' = gm_mapped m"
    if "gm_inv m" "vm_device_ok d" "dev_poll vm_device d m = Some (d', m', irq)" for m d d' m' irq
    using that by (cases d) (auto simp: vm_device_def dest: blkd.dev_poll_keeps netd.dev_poll_keeps vsd.dev_poll_keeps)
qed

section \<open>Setting up the devices\<close>

text \<open>
  \<open>open_disk\<close> is \<open>fs::File::open\<close> and reading the metadata; \<open>start_net\<close> is \<open>hitz_net::start_net_io\<close>, with
  the text of its error; \<open>clock_seed\<close> is the seed of \<open>random_mac\<close>.
\<close>

record 'h HostDevices =
  open_disk :: "Path \<Rightarrow> string + File"
  start_net :: "string \<Rightarrow> string \<Rightarrow> bytes \<Rightarrow> bytes \<Rightarrow> bytes \<Rightarrow> string + 'h"
  clock_seed :: u64

record BootExtras =
  vsock_channels :: "(VsockPacket list \<times> VsockPacket list \<times> bool) option"

definition boot_extras_none :: BootExtras where
  "boot_extras_none = \<lparr>vsock_channels = None\<rparr>"

fun or_panic :: "'a option \<Rightarrow> ('e, 'a) outcome" where
  "or_panic None = Panic"
| "or_panic (Some x) = Ok x"

definition add_block :: "'h HostDevices \<Rightarrow> VmConfig \<Rightarrow> VmDevice MmioBus \<Rightarrow> (VmError, VmDevice MmioBus) outcome" where
  "add_block H config bus =
     (case cfg_disk_path config of
        None \<Rightarrow> Ok bus
      | Some disk_path \<Rightarrow>
          outcome_bind (io_result (open_disk H disk_path)) (\<lambda>disk_file.
          let transport = transport_new block_ops (block_new disk_file) VIRTIO_IRQ_BASE in
          or_panic (bus_register bus VIRTIO_MMIO_BASE VIRTIO_MMIO_SIZE (BlockDevice transport))))"

definition add_net ::
  "'h HostDevices \<Rightarrow> VmConfig \<Rightarrow> VmDevice MmioBus \<Rightarrow> (VmError, VmDevice MmioBus \<times> 'h option) outcome" where
  "add_net H config bus =
     (case cfg_net config of
        None \<Rightarrow> Ok (bus, None)
      | Some net_cfg \<Rightarrow>
          outcome_bind (case net_cfg_mac net_cfg of
              Some mac_str \<Rightarrow> of_result (map_err VmConfigError (parse_mac mac_str))
            | None \<Rightarrow> Ok (random_mac (clock_seed H))) (\<lambda>guest_mac.
          let gateway_mac = [0xAA, 0xBB, 0xCC, 0x00, 0x00, 0x01] in
          outcome_bind (of_result (map_err VmConfigError (parse_cidr (net_cfg_host_ip net_cfg)))) (\<lambda>(gateway_ip, _).
          let net_transport = transport_new net_ops (net_new guest_mac) VIRTIO_IRQ_NET in
          outcome_bind (or_panic (bus_register bus (VIRTIO_MMIO_BASE + VIRTIO_MMIO_SIZE) VIRTIO_MMIO_SIZE (NetDevice net_transport))) (\<lambda>bus.
          let adapter_name = (case net_cfg_adapter_name net_cfg of Some s \<Rightarrow> s | None \<Rightarrow> ''hitz-net'') in
          case start_net H adapter_name (net_cfg_host_ip net_cfg) guest_mac gateway_mac gateway_ip of
            Inl e \<Rightarrow> Err (VmConfigError (''network setup: '' @ e))
          | Inr handle \<Rightarrow> Ok (bus, Some handle)))))"

definition add_vsock :: "VmConfig \<Rightarrow> BootExtras \<Rightarrow> VmDevice MmioBus \<Rightarrow> (VmError, VmDevice MmioBus) outcome" where
  "add_vsock config extras bus =
     (case vsock_channels extras of
        None \<Rightarrow> Ok bus
      | Some (rx, tx, tx_open) \<Rightarrow>
          let vsock_transport = transport_new vsock_ops (vsock_with_channels (cfg_guest_cid config) rx tx tx_open) VIRTIO_IRQ_VSOCK in
          or_panic (bus_register bus (VIRTIO_MMIO_BASE + VIRTIO_MMIO_SIZE * 2) VIRTIO_MMIO_SIZE (VsockDevice vsock_transport)))"

definition setup_devices ::
  "'h HostDevices \<Rightarrow> VmDevice MmioBus \<Rightarrow> VmConfig \<Rightarrow> BootExtras \<Rightarrow> (VmError, VmDevice MmioBus \<times> 'h option) outcome" where
  "setup_devices H bus config extras =
     outcome_bind (add_block H config bus) (\<lambda>bus.
     outcome_bind (add_net H config bus) (\<lambda>(bus, net_io_handle).
     outcome_bind (add_vsock config extras bus) (\<lambda>bus.
     Ok (bus, net_io_handle))))"


section \<open>Creating the virtual machine\<close>

definition hal_result :: "HalError + 'a \<Rightarrow> (VmError, 'a) outcome" where
  "hal_result r = of_result (map_err VmHal r)"

definition configure_vcpu :: "('v, 'm) Vcpu \<Rightarrow> u64 \<Rightarrow> u64 \<Rightarrow> 'v \<Rightarrow> HalError + 'v" where
  "configure_vcpu V pml4_gpa entry v =
     (case configure_sregs V v pml4_gpa of
        (v, Inl e) \<Rightarrow> Inl e
      | (v, Inr _) \<Rightarrow> (case configure_regs V v entry BOOT_PARAMS_GPA of (v, Inl e) \<Rightarrow> Inl e | (v, Inr _) \<Rightarrow> Inr v))"

fun create_vcpus ::
  "('p, 'v) Hypervisor \<Rightarrow> ('v, 'm) Vcpu \<Rightarrow> u64 \<Rightarrow> u64 \<Rightarrow> nat list \<Rightarrow> 'p \<Rightarrow> 'v list \<Rightarrow> (VmError, 'p \<times> 'v list) outcome" where
  "create_vcpus Hv V pml4_gpa entry [] p vcpus = Ok (p, vcpus)"
| "create_vcpus Hv V pml4_gpa entry (i # is) p vcpus =
     outcome_bind (hal_result (hv_create_vcpu Hv p (of_nat i))) (\<lambda>(p, v).
     outcome_bind (if i = 0 then hal_result (configure_vcpu V pml4_gpa entry v) else Ok v) (\<lambda>v.
     create_vcpus Hv V pml4_gpa entry is p (vcpus @ [v])))"

text \<open>\<open>boot_and_run\<close> up to the point where the vCPUs start.\<close>

record ('p, 'v, 'h) Machine =
  mach_partition :: 'p
  mach_vcpus :: "'v list"
  mach_bus :: "VmDevice MmioBus"
  mach_mem :: GuestMemory
  mach_net :: "'h option"

definition boot_machine ::
  "HostFs \<Rightarrow> (nat \<Rightarrow> bytes option) \<Rightarrow> 'h HostDevices \<Rightarrow> ('p, 'v) Hypervisor \<Rightarrow> ('v, GuestMemory) Vcpu \<Rightarrow>
   VmConfig \<Rightarrow> BootExtras \<Rightarrow> (VmError, ('p, 'v, 'h) Machine) outcome" where
  "boot_machine H valloc HD Hv V config extras =
     outcome_bind (boot_memory H valloc config (vsock_channels extras \<noteq> None)) (\<lambda>(m, pml4_gpa).
     outcome_bind (hal_result (hv_create_partition Hv \<lparr>pc_vcpu_count = cfg_cpus config, pc_memory_size = ucast (cfg_ram_mib config)\<rparr>)) (\<lambda>partition.
     outcome_bind (mem_result (map_to_partition Hv m READ_WRITE_EXEC partition)) (\<lambda>partition.
     outcome_bind (reload_kernel H config m) (\<lambda>(m, entry).
     outcome_bind (create_vcpus Hv V pml4_gpa entry [0..<unat (cfg_cpus config)] partition []) (\<lambda>(partition, vcpus).
     outcome_bind (setup_devices HD bus_new config extras) (\<lambda>(bus, net_io_handle).
     Ok \<lparr>mach_partition = partition, mach_vcpus = vcpus, mach_bus = bus, mach_mem = m, mach_net = net_io_handle\<rparr>))))))"

section \<open>Running\<close>

text \<open>The flag returned tells whether the function raised the stop flag; it returns early on an error.\<close>

definition run_single_vcpu ::
  "('v, GuestMemory) Vcpu \<Rightarrow> 'u Serial \<Rightarrow> (nat \<Rightarrow> bool) \<Rightarrow> 'v \<Rightarrow> ('u, VmDevice) SharedDevices \<Rightarrow> GuestMemory \<Rightarrow>
   ((VmError, ExitReason) outcome \<times> bool) option" where
  "run_single_vcpu V S stop v devices m =
     (case run_vcpu_loop V S vm_device stop v devices m of
        None \<Rightarrow> None
      | Some (s, Inl e) \<Rightarrow> Some (Err (VmHal e), False)
      | Some (s, Inr reason) \<Rightarrow> Some (Ok reason, True))"

text \<open>
  With several vCPUs every thread sends its result through a channel; a panicking thread sends an
  \<open>Unexpected\<close> reason with the panic message. A result that is not a cancellation makes the thread
  raise the stop flag and cancel its siblings.
\<close>

datatype ThreadResult = Returned "HalError + ExitReason" | Panicked "string option"

definition stops_siblings :: "ThreadResult \<Rightarrow> bool" where
  "stops_siblings r \<longleftrightarrow> r \<noteq> Returned (Inr Canceled)"

definition thread_exit :: "nat \<Rightarrow> ThreadResult \<Rightarrow> HalError + ExitReason" where
  "thread_exit idx r =
     (case r of
        Returned x \<Rightarrow> x
      | Panicked payload \<Rightarrow>
          Inr (Unexpected (''vCPU '' @ show_dec idx @ '' panicked: '' @
            (case payload of Some msg \<Rightarrow> msg | None \<Rightarrow> ''unknown panic''))))"

text \<open>The collection loop: \<open>None\<close> is a receive that timed out at the deadline.\<close>

fun collect_exits :: "(HalError + ExitReason) option list \<Rightarrow> ExitReason \<Rightarrow> ExitReason" where
  "collect_exits [] final_reason = final_reason"
| "collect_exits (Some (Inr reason) # rs) final_reason =
     collect_exits rs (if final_reason = Canceled then reason else final_reason)"
| "collect_exits (Some (Inl e) # rs) final_reason =
     collect_exits rs (if final_reason = Canceled then Unexpected (''vCPU error: '' @ hal_error_to_string e) else final_reason)"
| "collect_exits (None # rs) final_reason = final_reason"

text \<open>The reason reported is that of the first thread that was not cancelled, if it arrives in time.\<close>

fun exit_reason :: "HalError + ExitReason \<Rightarrow> ExitReason" where
  "exit_reason (Inr reason) = reason"
| "exit_reason (Inl e) = Unexpected (''vCPU error: '' @ hal_error_to_string e)"

lemma collect_exits_settled: "final_reason \<noteq> Canceled \<Longrightarrow> collect_exits rs final_reason = final_reason"
  by (induction rs final_reason rule: collect_exits.induct) simp_all

lemma collect_exits_first:
  "collect_exits rs Canceled =
     (case find (\<lambda>r. r \<noteq> Canceled) (map (exit_reason \<circ> the) (takeWhile (\<lambda>x. x \<noteq> None) rs)) of
        None \<Rightarrow> Canceled | Some r \<Rightarrow> r)"
proof (induction rs)
  case (Cons x rs)
  show ?case
  proof (cases x)
    case (Some y)
    then show ?thesis using Cons.IH by (cases y) (simp_all add: collect_exits_settled)
  qed simp
qed simp

text \<open>The threads at the start: every vCPU at the top of its loop, nothing deferred.\<close>

definition vm_start :: "('p, 'v, 'h) Machine \<Rightarrow> 'u \<Rightarrow> ('v, 'u, VmDevice, GuestMemory) VmSystem" where
  "vm_start mach serial =
     \<lparr>vm_threads = map (\<lambda>v. \<lparr>th_vcpu = v, th_pending_irq = None, th_exits = [], th_phase = Top\<rparr>) (mach_vcpus mach),
      vm_devices = \<lparr>sd_serial = serial, sd_mmio_bus = mach_bus mach\<rparr>, vm_mem = mach_mem mach, vm_stop = False\<rparr>"

section \<open>The bus after set-up\<close>

text \<open>Registration never panics: the three windows are disjoint, and every slot holds a fresh transport.\<close>

lemma vm_device_fresh:
  "vm_device_ok (BlockDevice (transport_new block_ops d irq))" "vm_device_ok (NetDevice (transport_new net_ops e irq))"
  "vm_device_ok (VsockDevice (transport_new vsock_ops f irq))"
  by (simp_all add: transport_new_ok)

definition windows_below :: "VmDevice MmioBus \<Rightarrow> nat \<Rightarrow> bool" where
  "windows_below bus lim \<longleftrightarrow> bus_inv vm_device_ok bus \<and> (\<forall>s\<in>set (bus_slots bus). slot_stop s \<le> lim)"

lemma windows_below_mono: "windows_below bus a \<Longrightarrow> a \<le> b \<Longrightarrow> windows_below bus b"
  by (fastforce simp: windows_below_def)

lemma register_window:
  assumes "windows_below bus (unat b)" "unat b + 0x1000 < 2 ^ 64" "vm_device_ok d"
  shows "\<exists>bus'. bus_register bus b VIRTIO_MMIO_SIZE d = Some bus' \<and> windows_below bus' (unat b + 0x1000)"
proof -
  let ?new = "\<lparr>slot_base = b, slot_size = VIRTIO_MMIO_SIZE, slot_device = d\<rparr>"
  have ok: "bus_ok bus" using assms(1) by (simp add: windows_below_def bus_inv_def)
  have new: "slot_ok ?new" using assms(2) by (simp add: slot_ok_def VIRTIO_MMIO_SIZE_def)
  have ap: "slots_apart ?new s" if "s \<in> set (bus_slots bus)" for s
    using assms(1) that by (auto simp: windows_below_def slots_apart_def)
  have "bus_register bus b VIRTIO_MMIO_SIZE d \<noteq> None"
    using bus_register_result [OF ok new] ap by (auto split: option.splits)
  then obtain bus' where r: "bus_register bus b VIRTIO_MMIO_SIZE d = Some bus'" by blast
  then have "bus_ok bus'" "set (bus_slots bus') = insert ?new (set (bus_slots bus))"
    using bus_register_result [OF ok new] by simp_all
  then have "windows_below bus' (unat b + 0x1000)"
    using assms(1,3) by (fastforce simp: windows_below_def bus_inv_def list_all_iff VIRTIO_MMIO_SIZE_def)
  with r show ?thesis by blast
qed

lemma vm_windows:
  "unat VIRTIO_MMIO_BASE = 0xD0000000" "unat (VIRTIO_MMIO_BASE + VIRTIO_MMIO_SIZE) = 0xD0001000"
  "unat (VIRTIO_MMIO_BASE + VIRTIO_MMIO_SIZE * 2) = 0xD0002000"
  by (simp_all add: VIRTIO_MMIO_BASE_def VIRTIO_MMIO_SIZE_def)

text \<open>\<open>safe P r\<close>: no panic, and a result that satisfies \<open>P\<close>.\<close>

fun safe :: "('a \<Rightarrow> bool) \<Rightarrow> ('e, 'a) outcome \<Rightarrow> bool" where
  "safe P (Ok x) = P x"
| "safe P (Err e) = True"
| "safe P Panic = False"

lemma safe_bind: "safe P r \<Longrightarrow> (\<And>x. P x \<Longrightarrow> safe Q (f x)) \<Longrightarrow> safe Q (outcome_bind r f)"
  by (cases r) simp_all

lemma safe_result: "safe (\<lambda>_. True) (of_result r)" "safe (\<lambda>_. True) (io_result s)"
  by (simp_all add: of_result_def io_result_def split: sum.split)

lemma safe_register:
  assumes "windows_below bus (unat b)" "unat b + 0x1000 < 2 ^ 64" "vm_device_ok d" "lim = unat b + 0x1000"
  shows "safe (\<lambda>bus. windows_below bus lim) (or_panic (bus_register bus b VIRTIO_MMIO_SIZE d))"
  using register_window [OF assms(1-3)] assms(4) by auto

lemma add_block_windows:
  assumes "windows_below bus 0xD0000000"
  shows "safe (\<lambda>bus. windows_below bus 0xD0001000) (add_block H config bus)"
proof (cases "cfg_disk_path config")
  case None
  then show ?thesis using windows_below_mono [OF assms] by (simp add: add_block_def)
next
  case (Some p)
  show ?thesis
    unfolding add_block_def Some option.case Let_def
    by (rule safe_bind [OF safe_result(2)], rule safe_register)
      (use assms vm_device_fresh(1) in \<open>simp_all add: vm_windows\<close>)
qed

lemma add_net_windows:
  assumes "windows_below bus 0xD0001000"
  shows "safe (\<lambda>(bus, h). windows_below bus 0xD0002000) (add_net H config bus)"
proof (cases "cfg_net config")
  case None
  then show ?thesis using windows_below_mono [OF assms] by (simp add: add_net_def)
next
  case (Some c)
  have r: "safe (\<lambda>bus. windows_below bus 0xD0002000)
      (or_panic (bus_register bus (VIRTIO_MMIO_BASE + VIRTIO_MMIO_SIZE) VIRTIO_MMIO_SIZE (NetDevice (transport_new net_ops d VIRTIO_IRQ_NET))))" for d
    using assms vm_device_fresh(2) by (intro safe_register) (simp_all add: vm_windows)
  have m: "safe (\<lambda>_. True) (case net_cfg_mac c of Some s \<Rightarrow> of_result (map_err VmConfigError (parse_mac s)) | None \<Rightarrow> Ok (random_mac (clock_seed H)))"
    by (simp add: safe_result split: option.split)
  show ?thesis
    unfolding add_net_def Some option.case Let_def
    by (rule safe_bind [OF m], rule safe_bind [OF safe_result(1)], simp add: case_prod_beta,
        rule safe_bind [OF r], simp split: sum.split)
qed

lemma add_vsock_windows:
  "windows_below bus 0xD0002000 \<Longrightarrow> safe (\<lambda>bus. windows_below bus 0xD0003000) (add_vsock config extras bus)"
  unfolding add_vsock_def Let_def
  by (cases "vsock_channels extras") (auto simp: vm_windows intro: windows_below_mono safe_register vm_device_fresh(3))

lemma setup_devices_safe: "safe (\<lambda>(bus, h). bus_inv vm_device_ok bus) (setup_devices H bus_new config extras)"
proof -
  have "windows_below bus_new 0xD0000000" by (simp add: windows_below_def bus_inv_def bus_ok_def bus_new_def)
  from add_block_windows [OF this] show ?thesis
    unfolding setup_devices_def
  proof (rule safe_bind)
    fix bus assume "windows_below bus 0xD0001000"
    from add_net_windows [OF this] show "safe (\<lambda>(bus, h). bus_inv vm_device_ok bus)
      (outcome_bind (add_net H config bus) (\<lambda>(bus, net_io_handle). outcome_bind (add_vsock config extras bus) (\<lambda>bus. Ok (bus, net_io_handle))))"
    proof (rule safe_bind)
      fix r :: "VmDevice MmioBus \<times> 'a option"
      assume "case r of (bus, h) \<Rightarrow> windows_below bus 0xD0002000"
      then have "windows_below (fst r) 0xD0002000" by (simp add: case_prod_beta)
      note v = add_vsock_windows [OF this, of config extras]
      show "safe (\<lambda>(bus, h). bus_inv vm_device_ok bus)
          (case r of (bus, net_io_handle) \<Rightarrow> outcome_bind (add_vsock config extras bus) (\<lambda>bus. Ok (bus, net_io_handle)))"
        unfolding case_prod_beta by (rule safe_bind [OF v]) (simp add: windows_below_def)
    qed
  qed
qed


section \<open>The machine\<close>

lemma create_vcpus_length:
  "create_vcpus Hv V pml4 entry is p vs = Ok (p', vs') \<Longrightarrow> length vs' = length vs + length is"
proof (induction "is" arbitrary: p vs)
  case (Cons i "is")
  then obtain p1 v1 v2 where "create_vcpus Hv V pml4 entry is p1 (vs @ [v2]) = Ok (p', vs')"
    by (auto simp: outcome_iffs)
  from Cons.IH [OF this] show ?case by simp
qed simp

lemma boot_machine_ok:
  assumes "virtual_alloc_law valloc" "boot_machine H valloc HD Hv V config extras = Ok mach"
  shows "gm_inv (mach_mem mach)" "bus_inv vm_device_ok (mach_bus mach)" "length (mach_vcpus mach) = unat (cfg_cpus config)"
proof -
  obtain m pml4 p entry p' h where s: "boot_memory H valloc config (vsock_channels extras \<noteq> None) = Ok (m, pml4)"
    "reload_kernel H config m = Ok (mach_mem mach, entry)"
    "create_vcpus Hv V pml4 entry [0..<unat (cfg_cpus config)] p [] = Ok (p', mach_vcpus mach)"
    "setup_devices HD bus_new config extras = Ok (mach_bus mach, h)"
    using assms(2) by (fastforce simp: boot_machine_def outcome_iffs)
  show "gm_inv (mach_mem mach)" by (rule reload_kernel_inv [OF boot_memory_inv [OF assms(1) s(1)] s(2)])
  show "bus_inv vm_device_ok (mach_bus mach)" using setup_devices_safe [of HD config extras] s(4) by simp
  show "length (mach_vcpus mach) = unat (cfg_cpus config)" using create_vcpus_length [OF s(3)] by simp
qed

lemma vm_start_inv:
  assumes "gm_inv (mach_mem mach)" "bus_inv vm_device_ok (mach_bus mach)" "\<forall>v\<in>set (mach_vcpus mach). vok v"
  shows "vm_inv gm_inv gm_mapped vm_device_ok vok vwin (gm_mapped (mach_mem mach)) (vm_start mach serial)"
  using assms by (auto simp: vm_inv_def vm_start_def shared_ok_def irq_ok_def)

lemma vm_step_threads: "(vm_step V S D)\<^sup>*\<^sup>* vm vm' \<Longrightarrow> length (vm_threads vm') = length (vm_threads vm)"
proof (induction rule: rtranclp_induct)
  case (step vm1 vm2)
  then show ?case by (auto simp: th_put_def elim: vm_step.cases)
qed simp

text \<open>The simulated platform of \<open>Whp_Vcpu\<close> with the devices of the VMM.\<close>

interpretation vmp: vm_platform gm_access gm_inv gm_mapped gm_byte vm_device vm_device_ok
  "whp_vcpu sim_api 0" "\<lambda>w. True" "whp_vregs sim_regs" "whp_vwin sim_regs"
proof (intro vm_platform.intro)
  show "mmio_device gm_access gm_inv gm_mapped gm_byte vm_device vm_device_ok" by (rule vmd.mmio_device_axioms)
  show "vcpu (whp_vcpu sim_api 0) (\<lambda>w. True) (whp_vregs sim_regs) (whp_vwin sim_regs)" by (rule sim.vcpu_axioms)
  show "vm_platform_axioms gm_inv gm_mapped (whp_vcpu sim_api 0) (\<lambda>w. True)"
  proof
    show "gm_inv m' \<and> gm_mapped m' = gm_mapped m"
      if "True" "gm_inv m" "vc_run (whp_vcpu sim_api 0) v m = (v', m', ex)" for v m v' m' ex
    proof -
      have "m' = m"
        using that(3) by (auto simp: whp_vcpu_def whp_run_def sim_api_def sim_run_def Let_def split: list.splits if_splits)
      with that(2) show ?thesis by simp
    qed
  qed
qed

section \<open>The guest's view of memory\<close>

lemma gm_writer_layout: "mem_writer gm_writer (\<lambda>m. gm_inv m \<and> gm_layout m = L) gm_byte"
proof
  show "(gm_inv m' \<and> gm_layout m' = L) \<and> unat a + length bs \<le> 2 ^ 64 \<and>
      (\<forall>x. gm_byte m' x = (if unat a \<le> unat x \<and> unat x < unat a + length bs then bs ! (unat x - unat a) else gm_byte m x))"
    if "gm_inv m \<and> gm_layout m = L" "write_bytes gm_writer m a bs = Inr m'" for m a bs m'
    using gmw.write_bytes_ok [of m a bs m'] that write_slice_layout [of m a bs m'] by (simp add: gm_writer_def)
  show "(gm_inv m' \<and> gm_layout m' = L) \<and> unat a + n \<le> 2 ^ 64 \<and>
      (\<forall>x. gm_byte m' x = (if unat a \<le> unat x \<and> unat x < unat a + n then 0 else gm_byte m x))"
    if "gm_inv m \<and> gm_layout m = L" "write_zeroes_at gm_writer m a n = Inr m'" for m a n m'
    using gmw.write_zeroes_ok [of m a n m'] that write_zeroes_layout [of m a n m']
    by (auto simp: gm_writer_def split: prod.splits option.splits)
qed

lemma reload_kernel_layout:
  assumes "gm_inv m" "reload_kernel H config m = Ok (m', entry)"
  shows "gm_layout m' = gm_layout m"
proof -
  obtain elf r where "load_elf elf gm_writer m = Ok (m', r)"
    using assms(2) by (auto simp: reload_kernel_def outcome_iffs outcome_lifts)
  from mem_writer.load_elf_ok [OF gm_writer_layout [of "gm_layout m"] _ this] assms(1) show ?thesis by simp
qed

context hv_partition
begin

lemma create_vcpus_view:
  "create_vcpus Hv V pml4 entry is p vs = Ok (p', vs') \<Longrightarrow> view p' = view p"
proof (induction "is" arbitrary: p vs)
  case (Cons i "is")
  then obtain p1 v1 v2 where "hv_create_vcpu Hv p (of_nat i) = Inr (p1, v1)"
    "create_vcpus Hv V pml4 entry is p1 (vs @ [v2]) = Ok (p', vs')"
    by (auto simp: outcome_iffs hal_result_def outcome_lifts)
  with Cons.IH vcpu_created show ?case by metis
qed simp

lemma boot_machine_view:
  assumes "virtual_alloc_law valloc" "boot_machine H valloc HD Hv V config extras = Ok mach"
  shows "view (mach_partition mach) a = map_option (\<lambda>hva. (hva, READ_WRITE_EXEC)) (gpa_to_hva (mach_mem mach) a)"
proof -
  obtain cfg m pml4 entry p p1 where s: "boot_memory H valloc config (vsock_channels extras \<noteq> None) = Ok (m, pml4)"
    "hv_create_partition Hv cfg = Inr p" "map_to_partition Hv m READ_WRITE_EXEC p = Inr p1"
    "reload_kernel H config m = Ok (mach_mem mach, entry)"
    "create_vcpus Hv V pml4 entry [0..<unat (cfg_cpus config)] p1 [] = Ok (mach_partition mach, mach_vcpus mach)"
    using assms(2) by (fastforce simp: boot_machine_def outcome_iffs hal_result_def mem_result_def outcome_lifts)
  have i: "gm_inv m" by (rule boot_memory_inv [OF assms(1) s(1)])
  have "gpa_to_hva (mach_mem mach) = gpa_to_hva m"
    by (rule gpa_to_hva_layout [OF reload_kernel_inv [OF i s(4)] i reload_kernel_layout [OF i s(4)]])
  then show ?thesis using map_to_partition_view [OF i s(2,3)] create_vcpus_view [OF s(5)] by simp
qed

end

section \<open>Properties\<close>

text \<open>C1: the running machine. Boot any accepted configuration and let the vCPU threads run, in every
  interleaving and whatever the guest does: there is one thread per configured processor; the bus
  keeps its well-formed disjoint windows with well-formed devices behind them; guest memory stays
  well-formed with the mapping it was booted with; and whenever a thread is about to enter the guest
  with an interrupt deferred, its interrupt window is armed, so that the interrupt is not forgotten.\<close>

theorem vm_invariant:
  assumes "vm_platform gm_access gm_inv gm_mapped gm_byte vm_device vm_device_ok V vok vregs vwin"
    and "virtual_alloc_law valloc" "boot_machine H valloc HD Hv V config extras = Ok mach"
    and "\<forall>v\<in>set (mach_vcpus mach). vok v" "(vm_step V S vm_device)\<^sup>*\<^sup>* (vm_start mach serial) vm"
  shows "length (vm_threads vm) = unat (cfg_cpus config) \<and> bus_inv vm_device_ok (sd_mmio_bus (vm_devices vm)) \<and>
    gm_inv (vm_mem vm) \<and> gm_mapped (vm_mem vm) = gm_mapped (mach_mem mach) \<and>
    (\<forall>t\<in>set (vm_threads vm). vok (th_vcpu t) \<and>
       (th_phase t = Enter \<and> th_pending_irq t \<noteq> None \<longrightarrow> vwin (th_vcpu t)))"
proof -
  note b = boot_machine_ok [OF assms(2,3)]
  have "length (vm_threads vm) = unat (cfg_cpus config)"
    using vm_step_threads [OF assms(5)] b(3) by (simp add: vm_start_def)
  moreover have "vm_inv gm_inv gm_mapped vm_device_ok vok vwin (gm_mapped (mach_mem mach)) vm"
    using vm_platform.vm_reachable_inv [OF assms(1,5) vm_start_inv [OF b(1,2) assms(4)]] .
  ultimately show ?thesis by (auto simp: vm_inv_def shared_ok_def irq_ok_def)
qed

text \<open>C3: guest and VMM see the same memory. After the boot, whatever back end implements the hypervisor
  traits, the partition maps a guest address exactly when the VMM resolves it, to the same byte of
  the same host allocation, readable, writable and executable; and that byte is the one the boot
  image has there. Unmapped addresses, the device windows among them, leave the guest.\<close>

theorem guest_view_agrees:
  assumes "hv_partition Hv view" "virtual_alloc_law valloc" "boot_machine H valloc HD Hv V config extras = Ok mach"
  shows "view (mach_partition mach) a = map_option (\<lambda>hva. (hva, READ_WRITE_EXEC)) (gpa_to_hva (mach_mem mach) a) \<and>
    (case view (mach_partition mach) a of
       None \<Rightarrow> \<not> gm_mapped (mach_mem mach) a 1
     | Some ((i, off), _) \<Rightarrow> region_block (regions (mach_mem mach) ! i) ! off = gm_byte (mach_mem mach) a)"
proof -
  note v = hv_partition.boot_machine_view [OF assms(1-3), of a]
  have i: "gm_inv (mach_mem mach)" by (rule boot_machine_ok(1) [OF assms(2,3)])
  show ?thesis
  proof (cases "gpa_to_hva (mach_mem mach) a")
    case None
    then have "\<not> gm_mapped (mach_mem mach) a 1"
      using gpa_to_hva_Some [OF i, of a] by (auto simp: gm_mapped_def list_ex_length)
    with v None show ?thesis by simp
  next
    case (Some hva)
    obtain j off where h: "hva = (j, off)" by (cases hva)
    with Some gpa_to_hva_Some [OF i, of a] have "region_block (regions (mach_mem mach) ! j) ! off = gm_byte (mach_mem mach) a"
      using gm_byte_nth [OF i] by (auto simp: covers_def)
    with v Some h show ?thesis by simp
  qed
qed

definition demo_devices :: "unit HostDevices" where
  "demo_devices = \<lparr>open_disk = (\<lambda>p. Inr \<lparr>file_bytes = replicate 1024 0, file_pos = 0, file_ops = 0, file_faults = (\<lambda>i. None)\<rparr>),
     start_net = (\<lambda>a i g w p. Inl ''no network''), clock_seed = 1\<rparr>"

text \<open>The WHP back end on the simulated platform.\<close>

definition demo_hypervisor :: "(SimPartition WhpPartition, SimPartition) Hypervisor" where
  "demo_hypervisor = whp_hypervisor sim_partition_api (sim_api :: (SimPartition, GuestMemory) WhpApi)"

lemma demo_map_regions:
  "\<exists>p'. map_regions demo_hypervisor flags irs p = Inr p' \<and> wp_vcpu_count p' = wp_vcpu_count p"
proof (induction irs arbitrary: p)
  case (Cons ir irs)
  obtain i r where ir: "ir = (i, r)" by (cases ir)
  have "hv_map_memory demo_hypervisor p (gpa_start r) (i, 0) (region_size r) flags =
      Inr (p\<lparr>wp_state := sim_map_range (wp_state p) (i, 0) (gpa_start r) (of_nat (region_size r)) (mem_flags_to_whp flags)\<rparr>)"
    by (simp add: demo_hypervisor_def whp_hypervisor_def whp_map_memory_def sim_partition_api_def Let_def)
  with Cons.IH ir show ?case by fastforce
qed simp

lemma demo_configure:
  "\<exists>w'. configure_vcpu (whp_vcpu (sim_api :: (SimPartition, GuestMemory) WhpApi) 0) pml4 entry w = Inr w'"
proof -
  let ?V = "whp_vcpu (sim_api :: (SimPartition, GuestMemory) WhpApi) 0"
  have se: "\<exists>w'. whp_set_each (sim_api :: (SimPartition, GuestMemory) WhpApi) 0 w nvs = (w', Inr ())"
    if "WHvRegisterPendingInterruption \<notin> set (map fst nvs)" for w nvs
    using that
  proof (induction nvs arbitrary: w)
    case (Cons nv nvs)
    then show ?case by (cases nv) (auto simp: sim_api_def sim_set_def)
  qed simp
  have "WHvRegisterPendingInterruption \<notin> set (map fst (zip SPECIAL_REG_NAMES (special_regs_to_values (boot_sregs pml4))))"
    by (simp add: special_names) (simp add: SPECIAL_REG_NAMES_def)
  then obtain w1 where w1: "configure_sregs ?V w pml4 = (w1, Inr ())"
    using se by (fastforce simp: configure_sregs_def whp_vcpu_def whp_set_sregs_def)
  obtain w2 where "configure_regs ?V w1 entry BOOT_PARAMS_GPA = (w2, Inr ())"
    using sim.set_regs [OF TrueI, of w1] by (fastforce simp: configure_regs_def)
  with w1 show ?thesis by (simp add: configure_vcpu_def)
qed

lemma demo_machine:
  "\<exists>mach. boot_machine demo_fs demo_alloc demo_devices demo_hypervisor (whp_vcpu sim_api 0) demo_config boot_extras_none = Ok mach \<and>
     length (bus_slots (mach_bus mach)) = 1"
proof -
  let ?V = "whp_vcpu (sim_api :: (SimPartition, GuestMemory) WhpApi) 0"
  obtain m pml4 m' entry where b: "boot_memory demo_fs demo_alloc demo_config False = Ok (m, pml4)"
    "reload_kernel demo_fs demo_config m = Ok (m', entry)" using demo_boot by blast
  let ?p = "\<lparr>wp_state = sim_start, wp_vcpu_count = cfg_cpus demo_config\<rparr>"
  have c: "hv_create_partition demo_hypervisor \<lparr>pc_vcpu_count = cfg_cpus demo_config, pc_memory_size = n\<rparr> = Inr ?p" for n
    by (simp add: demo_hypervisor_def whp_hypervisor_def whp_partition_new_def sim_partition_api_def)
  obtain p where p: "map_to_partition demo_hypervisor m READ_WRITE_EXEC ?p = Inr p" "wp_vcpu_count p = cfg_cpus demo_config"
    using demo_map_regions [of READ_WRITE_EXEC "enumerate 0 (regions m)" ?p] by (auto simp: map_to_partition_def)
  obtain w where w: "configure_vcpu ?V pml4 entry (wp_state p) = Inr w" using demo_configure by blast
  have "hv_create_vcpu demo_hypervisor p 0 = Inr (p, wp_state p)"
    using p(2) by (simp add: demo_hypervisor_def whp_hypervisor_def whp_create_vcpu_def whp_new_def sim_api_def demo_config_def)
  then have "create_vcpus demo_hypervisor ?V pml4 entry [0] p [] = Ok (p, [w])"
    using w by (simp add: hal_result_def of_result_def)
  moreover have n: "[0..<unat (cfg_cpus demo_config)] = [0]" by (simp add: demo_config_def)
  moreover obtain bus where "setup_devices demo_devices bus_new demo_config boot_extras_none = Ok (bus, None)" "length (bus_slots bus) = 1"
    by (simp add: setup_devices_def add_block_def add_net_def add_vsock_def demo_devices_def demo_config_def boot_extras_none_def
        io_result_def of_result_def Let_def bus_register_def bus_new_def)
  ultimately show ?thesis
    using b c p(1) by (simp add: boot_machine_def boot_extras_none_def hal_result_def mem_result_def of_result_def)
qed

definition demo_uart :: "unit Serial" where
  "demo_uart = \<lparr>uart_write = (\<lambda>u off b. (u, Inr ())), uart_read = (\<lambda>u off. (u, 0))\<rparr>"

theorem vm_invariant_witness:
  "\<exists>mach vm. boot_machine demo_fs demo_alloc demo_devices demo_hypervisor (whp_vcpu sim_api 0) demo_config boot_extras_none = Ok mach \<and>
     (vm_step (whp_vcpu sim_api 0) demo_uart vm_device)\<^sup>*\<^sup>* (vm_start mach ()) vm \<and> th_phase (vm_threads vm ! 0) = Poll \<and>
     bus_inv vm_device_ok (sd_mmio_bus (vm_devices vm)) \<and> gm_inv (vm_mem vm)"
proof -
  obtain mach where b: "boot_machine demo_fs demo_alloc demo_devices demo_hypervisor (whp_vcpu sim_api 0) demo_config boot_extras_none = Ok mach"
    using demo_machine by blast
  let ?vm = "vm_start mach ()"
  have law: "virtual_alloc_law demo_alloc" by (simp add: virtual_alloc_law_def demo_alloc_def)
  have l: "length (vm_threads ?vm) = 1"
    using boot_machine_ok(3) [OF law b] by (simp add: vm_start_def demo_config_def)
  then have "th_phase (vm_threads ?vm ! 0) = Top" "\<not> vm_stop ?vm" by (simp_all add: vm_start_def)
  then have step: "(vm_step (whp_vcpu sim_api 0) demo_uart vm_device)\<^sup>*\<^sup>* ?vm (th_put ?vm 0 (th_view ?vm 0) Poll)"
    using vm_step.go_on [of 0 ?vm] l by (intro r_into_rtranclp) simp
  moreover have "th_phase (vm_threads (th_put ?vm 0 (th_view ?vm 0) Poll) ! 0) = Poll" using l by (simp add: th_put_def)
  ultimately show ?thesis
    using vm_invariant [OF vmp.vm_platform_axioms law b _ step] b by blast
qed

theorem guest_view_agrees_witness:
  "\<exists>mach. boot_machine demo_fs demo_alloc demo_devices demo_hypervisor (whp_vcpu sim_api 0) demo_config boot_extras_none = Ok mach \<and>
     whp_view sim_map (mach_partition mach) 0x7000 =
       map_option (\<lambda>hva. (hva, READ_WRITE_EXEC)) (gpa_to_hva (mach_mem mach) 0x7000)"
proof -
  obtain mach where b: "boot_machine demo_fs demo_alloc demo_devices demo_hypervisor (whp_vcpu sim_api 0) demo_config boot_extras_none = Ok mach"
    using demo_machine by blast
  have law: "virtual_alloc_law demo_alloc" by (simp add: virtual_alloc_law_def demo_alloc_def)
  have "hv_partition demo_hypervisor (whp_view sim_map)" unfolding demo_hypervisor_def by (rule simpart.hv_partition_axioms)
  from guest_view_agrees [OF this law b, of "0x7000"] b show ?thesis by blast
qed

end
