(* ===== verification/Vcpu_Threads.thy ===== *)
theory Vcpu_Threads
  imports Vm
begin

text \<open>
  The threads of one virtual machine (\<open>hitz-vmm/src/vm.rs\<close>: \<open>run_multi_vcpu\<close>, \<open>run_single_vcpu\<close>,
  \<open>cancel_all_vcpus\<close>): one thread per vCPU, the watchdog that turns the stop flag into cancel requests, and the
  calling thread, which collects the exits until its deadline, raises the flag and joins everybody. Every
  access to something shared (the flag, a cancel request, the exit channel) is one step, and the steps
  interleave freely. A vCPU thread inside its loop is at one of the phases of \<open>Run_Loop\<close>, whose system of
  threads the group simulates; what the guest and the devices do is left open.
\<close>

section \<open>The group\<close>

text \<open>\<open>Ended\<close> remembers the result of the thread, which the code keeps only in the channel.\<close>

datatype VcpuThreadPhase =
    InLoop Phase
  | Raising ThreadResult
  | Cancelling ThreadResult "nat list"
  | Sending ThreadResult
  | Ended ThreadResult

datatype WatchdogPhase = Watching | WatchdogCancels "nat list" | WatchdogDone

datatype MainPhase =
    Collecting nat ExitReason
  | Stopping ExitReason
  | JoiningWatchdog ExitReason
  | JoiningThreads ExitReason
  | GroupReturned ExitReason

record Group =
  gr_threads :: "VcpuThreadPhase list"
  gr_cancels :: "bool list"
  gr_stop :: bool
  gr_watchdog :: WatchdogPhase
  gr_channel :: "(HalError + ExitReason) list"
  gr_clock :: nat
  gr_main :: MainPhase

definition JOIN_DEADLINE_MS :: nat where
  "JOIN_DEADLINE_MS = 3000"

text \<open>\<open>run_multi_vcpu\<close> after it has spawned its threads; the clock counts milliseconds from there.\<close>

definition group_start :: "nat \<Rightarrow> Group" where
  "group_start n = \<lparr>gr_threads = replicate n (InLoop Top), gr_cancels = replicate n False, gr_stop = False,
     gr_watchdog = Watching, gr_channel = [], gr_clock = 0, gr_main = Collecting n Canceled\<rparr>"

text \<open>The match on the result of the caught loop: only a cancelled loop leaves its siblings alone.\<close>

definition after_result :: "ThreadResult \<Rightarrow> VcpuThreadPhase" where
  "after_result r = (if stops_siblings r then Raising r else Sending r)"

text \<open>
  A cancel request. The trait promises that it makes a running vCPU return; \<open>sticky\<close> tells whether the
  platform keeps a request that arrives while the vCPU is not running for its next run.
\<close>

definition request_cancel :: "bool \<Rightarrow> nat \<Rightarrow> Group \<Rightarrow> Group" where
  "request_cancel sticky j g =
     (if sticky \<or> gr_threads g ! j = InLoop Enter then g\<lparr>gr_cancels := (gr_cancels g)[j := True]\<rparr> else g)"

definition put_thread :: "nat \<Rightarrow> VcpuThreadPhase \<Rightarrow> Group \<Rightarrow> Group" where
  "put_thread i ph g = g\<lparr>gr_threads := (gr_threads g)[i := ph]\<rparr>"

fun is_done :: "Phase \<Rightarrow> bool" where
  "is_done (Done r) = True"
| "is_done ph = False"

text \<open>Who acts: a vCPU thread, the guest that leaves its vCPU by itself, a panic in a vCPU thread, the watchdog, the caller, somebody who
  sets the stop flag from outside, or time.\<close>

datatype Actor = Thread nat | Guest nat | Fault nat | Watchdog | Main | Outside | Clock

inductive group_step :: "bool \<Rightarrow> Actor \<Rightarrow> Group \<Rightarrow> Group \<Rightarrow> bool" for sticky where
  see_flag: "i < length (gr_threads g) \<Longrightarrow> gr_threads g ! i = InLoop Top \<Longrightarrow> gr_stop g \<Longrightarrow>
    group_step sticky (Thread i) g (put_thread i (InLoop (Done (Inr Canceled))) g)"
| go_on: "i < length (gr_threads g) \<Longrightarrow> gr_threads g ! i = InLoop Top \<Longrightarrow> \<not> gr_stop g \<Longrightarrow>
    group_step sticky (Thread i) g (put_thread i (InLoop Poll) g)"
| poll: "i < length (gr_threads g) \<Longrightarrow> gr_threads g ! i = InLoop Poll \<Longrightarrow>
    group_step sticky (Thread i) g (put_thread i (InLoop (after_phase (\<lambda>_ :: unit. Enter) r)) g)"
| cancelled: "i < length (gr_threads g) \<Longrightarrow> gr_threads g ! i = InLoop Enter \<Longrightarrow> gr_cancels g ! i \<Longrightarrow>
    group_step sticky (Thread i) g (put_thread i (InLoop (Dispatch ExitCanceled)) (g\<lparr>gr_cancels := (gr_cancels g)[i := False]\<rparr>))"
| leave: "i < length (gr_threads g) \<Longrightarrow> gr_threads g ! i = InLoop Enter \<Longrightarrow>
    group_step sticky (Guest i) g (put_thread i (InLoop (after_phase Dispatch r)) g)"
| dispatch: "i < length (gr_threads g) \<Longrightarrow> gr_threads g ! i = InLoop (Dispatch ex) \<Longrightarrow> r \<noteq> Inr (Some Canceled) \<Longrightarrow>
    group_step sticky (Thread i) g (put_thread i (InLoop (after_phase after_dispatch r)) g)"
| panic: "i < length (gr_threads g) \<Longrightarrow> gr_threads g ! i = InLoop ph \<Longrightarrow> \<not> is_done ph \<Longrightarrow>
    group_step sticky (Fault i) g (put_thread i (after_result (Panicked payload)) g)"
| loop_done: "i < length (gr_threads g) \<Longrightarrow> gr_threads g ! i = InLoop (Done r) \<Longrightarrow>
    group_step sticky (Thread i) g (put_thread i (after_result (Returned r)) g)"
| raise: "i < length (gr_threads g) \<Longrightarrow> gr_threads g ! i = Raising r \<Longrightarrow>
    group_step sticky (Thread i) g (put_thread i (Cancelling r [0..<length (gr_threads g)]) (g\<lparr>gr_stop := True\<rparr>))"
| cancel_one: "i < length (gr_threads g) \<Longrightarrow> gr_threads g ! i = Cancelling r (j # js) \<Longrightarrow>
    group_step sticky (Thread i) g (put_thread i (Cancelling r js) (request_cancel sticky j g))"
| cancel_end: "i < length (gr_threads g) \<Longrightarrow> gr_threads g ! i = Cancelling r [] \<Longrightarrow>
    group_step sticky (Thread i) g (put_thread i (Sending r) g)"
| send: "i < length (gr_threads g) \<Longrightarrow> gr_threads g ! i = Sending r \<Longrightarrow>
    group_step sticky (Thread i) g (put_thread i (Ended r) (g\<lparr>gr_channel := gr_channel g @ [thread_exit i r]\<rparr>))"
| watch: "gr_watchdog g = Watching \<Longrightarrow> gr_stop g \<Longrightarrow>
    group_step sticky Watchdog g (g\<lparr>gr_watchdog := WatchdogCancels [0..<length (gr_threads g)]\<rparr>)"
| watchdog_one: "gr_watchdog g = WatchdogCancels (j # js) \<Longrightarrow>
    group_step sticky Watchdog g ((request_cancel sticky j g)\<lparr>gr_watchdog := WatchdogCancels js\<rparr>)"
| watchdog_end: "gr_watchdog g = WatchdogCancels [] \<Longrightarrow> group_step sticky Watchdog g (g\<lparr>gr_watchdog := WatchdogDone\<rparr>)"
| receive: "gr_main g = Collecting (Suc k) fr \<Longrightarrow> gr_channel g = x # xs \<Longrightarrow>
    group_step sticky Main g (g\<lparr>gr_channel := xs, gr_main := Collecting k (collect_exits [Some x] fr)\<rparr>)"
| timeout: "gr_main g = Collecting (Suc k) fr \<Longrightarrow> gr_channel g = [] \<Longrightarrow>
    JOIN_DEADLINE_MS \<le> gr_clock g \<or> (\<forall>t\<in>set (gr_threads g). \<exists>r. t = Ended r) \<Longrightarrow>
    group_step sticky Main g (g\<lparr>gr_main := Stopping (collect_exits [None] fr)\<rparr>)"
| collected: "gr_main g = Collecting 0 fr \<Longrightarrow> group_step sticky Main g (g\<lparr>gr_main := Stopping fr\<rparr>)"
| stop_all: "gr_main g = Stopping fr \<Longrightarrow> group_step sticky Main g (g\<lparr>gr_stop := True, gr_main := JoiningWatchdog fr\<rparr>)"
| join_watchdog: "gr_main g = JoiningWatchdog fr \<Longrightarrow> gr_watchdog g = WatchdogDone \<Longrightarrow>
    group_step sticky Main g (g\<lparr>gr_main := JoiningThreads fr\<rparr>)"
| join_threads: "gr_main g = JoiningThreads fr \<Longrightarrow> \<forall>t\<in>set (gr_threads g). \<exists>r. t = Ended r \<Longrightarrow>
    group_step sticky Main g (g\<lparr>gr_main := GroupReturned fr\<rparr>)"
| outside: "group_step sticky Outside g (g\<lparr>gr_stop := True\<rparr>)"
| tick: "group_step sticky Clock g (g\<lparr>gr_clock := gr_clock g + d\<rparr>)"

inductive_cases group_stepE: "group_step sticky a g g'"

text \<open>Steps that need neither time nor the guest nor a panic nor anybody outside.\<close>

fun own_step :: "Actor \<Rightarrow> bool" where
  "own_step (Thread i) = True"
| "own_step Watchdog = True"
| "own_step Main = True"
| "own_step a = False"

definition group_run :: "bool \<Rightarrow> Group \<Rightarrow> Group \<Rightarrow> bool" where
  "group_run sticky = (\<lambda>g g'. \<exists>a. group_step sticky a g g')\<^sup>*\<^sup>*"

definition own_run :: "bool \<Rightarrow> Group \<Rightarrow> Group \<Rightarrow> bool" where
  "own_run sticky = (\<lambda>g g'. \<exists>a. own_step a \<and> group_step sticky a g g')\<^sup>*\<^sup>*"

lemmas group_frames = put_thread_def request_cancel_def after_result_def

section \<open>After the flag is up, only finitely many steps remain\<close>

fun phase_left :: "nat \<Rightarrow> VcpuThreadPhase \<Rightarrow> nat" where
  "phase_left n (InLoop Poll) = n + 8"
| "phase_left n (InLoop Enter) = n + 7"
| "phase_left n (InLoop (Dispatch ex)) = n + 6"
| "phase_left n (InLoop Top) = n + 5"
| "phase_left n (InLoop (Done r)) = n + 4"
| "phase_left n (Raising r) = n + 3"
| "phase_left n (Cancelling r js) = length js + 2"
| "phase_left n (Sending r) = 1"
| "phase_left n (Ended r) = 0"

fun watchdog_left :: "nat \<Rightarrow> WatchdogPhase \<Rightarrow> nat" where
  "watchdog_left n Watching = n + 2"
| "watchdog_left n (WatchdogCancels js) = length js + 1"
| "watchdog_left n WatchdogDone = 0"

fun main_left :: "MainPhase \<Rightarrow> nat" where
  "main_left (Collecting k fr) = k + 4"
| "main_left (Stopping fr) = 3"
| "main_left (JoiningWatchdog fr) = 2"
| "main_left (JoiningThreads fr) = 1"
| "main_left (GroupReturned fr) = 0"

definition steps_left :: "Group \<Rightarrow> nat" where
  "steps_left g = (\<Sum>t\<leftarrow>gr_threads g. phase_left (length (gr_threads g)) t) +
     watchdog_left (length (gr_threads g)) (gr_watchdog g) + main_left (gr_main g)"

lemma sum_list_update_less:
  fixes f :: "'a \<Rightarrow> nat"
  assumes "i < length xs" "f y < f (xs ! i)"
  shows "(\<Sum>x\<leftarrow>xs[i := y]. f x) < (\<Sum>x\<leftarrow>xs. f x)"
  using assms
proof (induction xs arbitrary: i)
  case (Cons x xs)
  then show ?case by (cases i) simp_all
qed simp

lemma after_phase_left:
  "(\<And>x. r = Inr x \<Longrightarrow> phase_left n (InLoop (f x)) < k) \<Longrightarrow> n + 4 < k \<Longrightarrow> phase_left n (InLoop (after_phase f r)) < k"
  by (cases r) simp_all

lemma after_dispatch_left: "phase_left n (InLoop (after_dispatch x)) < n + 6"
  by (cases x) simp_all

lemma put_thread_left:
  assumes "i < length (gr_threads g)" "phase_left (length (gr_threads g)) ph < phase_left (length (gr_threads g)) (gr_threads g ! i)"
    "gr_threads g0 = gr_threads g" "gr_watchdog g0 = gr_watchdog g" "gr_main g0 = gr_main g"
  shows "steps_left (put_thread i ph g0) < steps_left g"
  using sum_list_update_less [OF assms(1), of "phase_left (length (gr_threads g))" ph] assms(2-5)
  by (simp add: steps_left_def put_thread_def)

lemma request_cancel_frame [simp]:
  "gr_threads (request_cancel sticky j g) = gr_threads g" "gr_stop (request_cancel sticky j g) = gr_stop g"
  "gr_watchdog (request_cancel sticky j g) = gr_watchdog g" "gr_channel (request_cancel sticky j g) = gr_channel g"
  "gr_clock (request_cancel sticky j g) = gr_clock g" "gr_main (request_cancel sticky j g) = gr_main g"
  "length (gr_cancels (request_cancel sticky j g)) = length (gr_cancels g)"
  by (simp_all add: request_cancel_def)

lemma after_result_left: "phase_left n (after_result r) < n + 4"
  by (simp add: after_result_def)

lemma in_loop_left: "\<not> is_done ph \<Longrightarrow> n + 4 < phase_left n (InLoop ph)"
  by (cases ph) simp_all

lemma thread_step_left:
  assumes "group_step sticky a g g'" "gr_stop g" "a = Thread i \<or> a = Guest i \<or> a = Fault i"
  shows "steps_left g' < steps_left g"
  using assms
proof (cases rule: group_step.cases)
  case (dispatch j ex r)
  then show ?thesis by (auto intro!: put_thread_left after_phase_left after_dispatch_left)
next
  case (panic j ph p)
  then show ?thesis
    by (auto intro!: put_thread_left less_trans [OF after_result_left in_loop_left])
next
  case (loop_done j r)
  then show ?thesis using after_result_left by (auto intro!: put_thread_left)
qed (auto intro!: put_thread_left after_phase_left)

lemma steps_left_decreases:
  assumes "group_step sticky a g g'" "gr_stop g" "a \<noteq> Outside" "a \<noteq> Clock"
  shows "steps_left g' < steps_left g"
proof (cases "a = Watchdog \<or> a = Main")
  case True
  from assms(1) True show ?thesis by (cases rule: group_step.cases) (auto simp: steps_left_def)
next
  case False
  with assms(3,4) obtain j where "a = Thread j \<or> a = Guest j \<or> a = Fault j" by (cases a) auto
  with thread_step_left [OF assms(1,2)] show ?thesis by blast
qed

section \<open>Invariants of the group\<close>

definition group_shape :: "nat \<Rightarrow> Group \<Rightarrow> bool" where
  "group_shape n g \<longleftrightarrow> length (gr_threads g) = n \<and> length (gr_cancels g) = n \<and>
     (gr_watchdog g \<noteq> Watching \<longrightarrow> gr_stop g) \<and>
     (case gr_main g of Collecting k fr \<Rightarrow> True | Stopping fr \<Rightarrow> True | JoiningWatchdog fr \<Rightarrow> gr_stop g
      | JoiningThreads fr \<Rightarrow> gr_stop g \<and> gr_watchdog g = WatchdogDone
      | GroupReturned fr \<Rightarrow> gr_stop g \<and> gr_watchdog g = WatchdogDone \<and> (\<forall>t\<in>set (gr_threads g). \<exists>r. t = Ended r))"

lemma ended_stays:
  "i < length ts \<Longrightarrow> \<forall>t\<in>set ts. \<exists>r. t = Ended r \<Longrightarrow> ts ! i = ph \<Longrightarrow> \<exists>r. ph = Ended r"
  using nth_mem by blast

lemma group_shape_step: "group_step sticky a g g' \<Longrightarrow> group_shape n g \<Longrightarrow> group_shape n g'"
  by (erule group_step.cases)
    (auto simp: group_shape_def put_thread_def dest: ended_stays split: MainPhase.splits)

text \<open>No cancellation is lost: a thread on its way into the guest or in it, after the watchdog has seen the flag, has a
  request waiting for it, or the watchdog has not come to it yet.\<close>

definition cancel_coming :: "Group \<Rightarrow> nat \<Rightarrow> bool" where
  "cancel_coming g i \<longleftrightarrow> gr_cancels g ! i \<or>
     (case gr_watchdog g of Watching \<Rightarrow> True | WatchdogCancels js \<Rightarrow> i \<in> set js | WatchdogDone \<Rightarrow> False)"

definition none_lost :: "Group \<Rightarrow> bool" where
  "none_lost g \<longleftrightarrow> (\<forall>i<length (gr_threads g). gr_threads g ! i = InLoop Poll \<or> gr_threads g ! i = InLoop Enter \<longrightarrow> cancel_coming g i)"

lemma after_phases [simp]:
  "after_phase after_dispatch r \<noteq> Poll" "after_phase after_dispatch r \<noteq> Enter" "after_phase Dispatch q \<noteq> Poll"
  "after_phase Dispatch q \<noteq> Enter" "after_phase (\<lambda>_ :: unit. Enter) p \<noteq> Poll"
proof -
  have "after_dispatch x \<noteq> Poll \<and> after_dispatch x \<noteq> Enter" for x by (cases x) simp_all
  then show "after_phase after_dispatch r \<noteq> Poll" "after_phase after_dispatch r \<noteq> Enter" by (cases r; simp)+
  show "after_phase Dispatch q \<noteq> Poll" "after_phase Dispatch q \<noteq> Enter" "after_phase (\<lambda>_ :: unit. Enter) p \<noteq> Poll"
    by (cases q; cases p; simp)+
qed

lemma update_true: "i < length bs \<Longrightarrow> bs[j := True] ! i \<longleftrightarrow> i = j \<or> bs ! i"
  by (cases "j < length bs") (auto simp: nth_list_update)

lemma none_lost_step: "group_step True a g g' \<Longrightarrow> group_shape n g \<Longrightarrow> none_lost g \<Longrightarrow> none_lost g'"
  by (erule group_step.cases)
    (auto simp: none_lost_def cancel_coming_def group_shape_def group_frames update_true nth_list_update split: WatchdogPhase.splits if_splits)

lemma group_start_inv: "group_shape n (group_start n)" "none_lost (group_start n)"
  by (auto simp: group_start_def group_shape_def none_lost_def)

lemma stop_stays: "group_step sticky a g g' \<Longrightarrow> gr_stop g \<Longrightarrow> gr_stop g'"
  by (erule group_step.cases) (simp_all add: put_thread_def)

lemma group_run_inv:
  assumes "group_run True g g'" "group_shape n g" "none_lost g"
  shows "group_shape n g'" "none_lost g'"
proof -
  from assms(1)[unfolded group_run_def] have "group_shape n g' \<and> none_lost g'"
    by (induction rule: rtranclp_induct) (use assms(2,3) group_shape_step none_lost_step in blast)+
  then show "group_shape n g'" "none_lost g'" by simp_all
qed

section \<open>Progress\<close>

lemma watchdog_progress:
  assumes "gr_stop g" "gr_watchdog g \<noteq> WatchdogDone"
  shows "\<exists>g'. group_step sticky Watchdog g g'"
proof (cases "gr_watchdog g")
  case (WatchdogCancels js)
  then show ?thesis by (cases js) (auto intro: watchdog_one watchdog_end)
qed (use assms in \<open>auto intro: watch\<close>)

lemma loop_progress:
  assumes "none_lost g" "gr_stop g" "i < length (gr_threads g)" "gr_threads g ! i = InLoop ph"
  shows "\<exists>a g'. own_step a \<and> group_step True a g g'"
proof (cases ph)
  case Enter
  show ?thesis
  proof (cases "gr_cancels g ! i")
    case True
    with Enter assms(3,4) show ?thesis by (metis own_step.simps(1) cancelled)
  next
    case False
    with Enter assms(1,3,4) have "gr_watchdog g \<noteq> WatchdogDone" by (auto simp: none_lost_def cancel_coming_def)
    from watchdog_progress [OF assms(2) this] show ?thesis by (metis own_step.simps(2))
  qed
next
  case (Dispatch ex)
  with assms(3,4) have "group_step True (Thread i) g (put_thread i (InLoop (after_phase after_dispatch (Inr None))) g)"
    by (intro dispatch) auto
  then show ?thesis by (metis own_step.simps(1))
qed (use assms(2-4) in \<open>metis own_step.simps(1) see_flag poll loop_done\<close>)+

lemma thread_progress:
  assumes "none_lost g" "gr_stop g" "i < length (gr_threads g)" "\<nexists>r. gr_threads g ! i = Ended r"
  shows "\<exists>a g'. own_step a \<and> group_step True a g g'"
proof (cases "gr_threads g ! i")
  case (InLoop ph)
  from loop_progress [OF assms(1-3) this] show ?thesis .
next
  case (Cancelling r js)
  then show ?thesis using assms(3) by (cases js) (metis own_step.simps(1) cancel_one cancel_end)+
qed (use assms(3,4) in \<open>metis own_step.simps(1) raise send\<close>)+

lemma main_progress:
  assumes "group_shape n g" "gr_stop g" "gr_watchdog g = WatchdogDone" "\<forall>t\<in>set (gr_threads g). \<exists>r. t = Ended r"
    "\<nexists>fr. gr_main g = GroupReturned fr"
  shows "\<exists>g'. group_step sticky Main g g'"
proof (cases "gr_main g")
  case (Collecting k fr)
  then show ?thesis
    using assms(4) by (cases k; cases "gr_channel g") (metis collected receive timeout)+
qed (use assms in \<open>metis stop_all join_watchdog join_threads\<close>)+

lemma own_progress:
  assumes "group_shape n g" "none_lost g" "gr_stop g" "\<nexists>fr. gr_main g = GroupReturned fr"
  shows "\<exists>a g'. own_step a \<and> group_step True a g g'"
proof (cases "\<forall>t\<in>set (gr_threads g). \<exists>r. t = Ended r")
  case False
  then obtain i where "i < length (gr_threads g)" "\<nexists>r. gr_threads g ! i = Ended r" by (auto simp: in_set_conv_nth)
  from thread_progress [OF assms(2,3) this] show ?thesis .
next
  case True
  show ?thesis
  proof (cases "gr_watchdog g = WatchdogDone")
    case False
    from watchdog_progress [OF assms(3) this, of True] show ?thesis by (metis own_step.simps(2))
  next
    case wd: True
    from main_progress [OF assms(1,3) wd True assms(4), of True] show ?thesis by (metis own_step.simps(3))
  qed
qed

lemma own_run_ends:
  "group_shape n g \<Longrightarrow> none_lost g \<Longrightarrow> gr_stop g \<Longrightarrow> \<exists>g' fr. own_run True g g' \<and> gr_main g' = GroupReturned fr"
proof (induction "steps_left g" arbitrary: g rule: less_induct)
  case less
  show ?case
  proof (cases "\<exists>fr. gr_main g = GroupReturned fr")
    case True
    then show ?thesis unfolding own_run_def by blast
  next
    case False
    with own_progress [OF less.prems] obtain a g1 where s: "own_step a" "group_step True a g g1" by blast
    then have "steps_left g1 < steps_left g" using steps_left_decreases [OF s(2) less.prems(3)] by (cases a) simp_all
    with less.hyps [of g1] s group_shape_step none_lost_step stop_stays less.prems
    obtain g2 fr where "own_run True g1 g2" "gr_main g2 = GroupReturned fr" by metis
    with s show ?thesis unfolding own_run_def by (metis (mono_tags, lifting) converse_rtranclp_into_rtranclp)
  qed
qed

section \<open>What the caller reports\<close>

fun main_reason :: "MainPhase \<Rightarrow> ExitReason" where
  "main_reason (Collecting k fr) = fr"
| "main_reason (Stopping fr) = fr"
| "main_reason (JoiningWatchdog fr) = fr"
| "main_reason (JoiningThreads fr) = fr"
| "main_reason (GroupReturned fr) = fr"

fun collecting :: "MainPhase \<Rightarrow> bool" where
  "collecting (Collecting k fr) = True"
| "collecting ph = False"

fun has_ended :: "VcpuThreadPhase \<Rightarrow> bool" where
  "has_ended (Ended r) = True"
| "has_ended ph = False"

lemma has_ended_iff: "has_ended t \<longleftrightarrow> (\<exists>r. t = Ended r)"
  by (cases t) simp_all

definition ended_with :: "Group \<Rightarrow> nat \<Rightarrow> ThreadResult \<Rightarrow> bool" where
  "ended_with g i r \<longleftrightarrow> i < length (gr_threads g) \<and> gr_threads g ! i = Ended r"

lemma cancelled_result: "exit_reason (thread_exit i r) = Canceled \<longleftrightarrow> r = Returned (Inr Canceled)"
proof (cases r)
  case (Returned x)
  then show ?thesis by (cases x) (simp_all add: thread_exit_def)
qed (simp add: thread_exit_def)

lemma collect_one: "collect_exits [Some x] fr = (if fr = Canceled then exit_reason x else fr)" "collect_exits [None] fr = fr"
  by (cases x; simp)+

text \<open>A finished thread stays as it is, and only the sending of its exit makes a thread finished.\<close>

lemma ended_with_step: "group_step sticky a g g' \<Longrightarrow> ended_with g i r \<Longrightarrow> ended_with g' i r"
  by (erule group_step.cases) (auto simp: ended_with_def put_thread_def nth_list_update)

lemma after_result_running: "after_result r \<noteq> Ended q"
  by (simp add: after_result_def)

lemma ended_with_new:
  "group_step sticky a g g' \<Longrightarrow> ended_with g' i r \<Longrightarrow> ended_with g i r \<or> gr_channel g' = gr_channel g @ [thread_exit i r] \<and> gr_main g' = gr_main g"
  by (erule group_step.cases) (auto simp: ended_with_def put_thread_def nth_list_update after_result_running split: if_splits)

definition group_said :: "Group \<Rightarrow> bool" where
  "group_said g \<longleftrightarrow>
     (\<forall>x\<in>set (gr_channel g). \<exists>i r. ended_with g i r \<and> x = thread_exit i r) \<and>
     (main_reason (gr_main g) \<noteq> Canceled \<longrightarrow> (\<exists>i r. ended_with g i r \<and> exit_reason (thread_exit i r) = main_reason (gr_main g))) \<and>
     (collecting (gr_main g) \<and> main_reason (gr_main g) = Canceled \<longrightarrow>
        (\<forall>i r. ended_with g i r \<longrightarrow> r = Returned (Inr Canceled) \<or> thread_exit i r \<in> set (gr_channel g)))"

lemma group_said_same:
  assumes "group_said g" "ended_with g' = ended_with g" "gr_channel g' = gr_channel g"
    "main_reason (gr_main g') = main_reason (gr_main g)" "collecting (gr_main g') \<Longrightarrow> collecting (gr_main g)"
  shows "group_said g'"
  using assms(1) unfolding group_said_def assms(2,3,4) using assms(5) by blast

lemma ended_with_same:
  assumes "gr_threads g' = (gr_threads g)[i := ph]" "i < length (gr_threads g)" "\<not> has_ended (gr_threads g ! i)" "\<not> has_ended ph"
  shows "ended_with g' = ended_with g"
  using assms by (auto simp: ended_with_def fun_eq_iff nth_list_update has_ended_iff)

lemma ended_with_idle: "gr_threads g' = gr_threads g \<Longrightarrow> ended_with g' = ended_with g"
  by (simp add: ended_with_def fun_eq_iff)

lemma after_result_live [simp]: "\<not> has_ended (after_result r)"
  by (simp add: after_result_def)

lemma group_said_put:
  assumes "group_said g" "i < length (gr_threads g)" "\<not> has_ended (gr_threads g ! i)" "\<not> has_ended ph"
    "gr_threads g0 = gr_threads g" "gr_channel g0 = gr_channel g" "gr_main g0 = gr_main g"
  shows "group_said (put_thread i ph g0)"
  by (rule group_said_same [OF assms(1)])
    (use assms(2-7) ended_with_same [of "put_thread i ph g0" g i ph] in \<open>simp_all add: put_thread_def\<close>)

lemma group_said_step:
  assumes "group_step sticky a g g'" "group_said g"
  shows "group_said g'"
proof -
  note keep = ended_with_step [OF assms(1)] and new = ended_with_new [OF assms(1)]
  from assms(1) show ?thesis
  proof (cases rule: group_step.cases)
    case (send i r)
    then have e: "ended_with g' i r" by (simp add: ended_with_def put_thread_def)
    from send have c: "gr_channel g' = gr_channel g @ [thread_exit i r]" "gr_main g' = gr_main g" by (simp_all add: put_thread_def)
    from assms(2) keep new e c show ?thesis by (fastforce simp: group_said_def)
  next
    case (receive k fr x xs)
    then have same: "ended_with g' = ended_with g" by (auto simp: ended_with_def fun_eq_iff)
    have after: "gr_channel g' = xs" "gr_main g' = Collecting k (if fr = Canceled then exit_reason x else fr)"
      using receive by (simp_all add: collect_one)
    from receive assms(2) obtain i r where x: "ended_with g i r" "x = thread_exit i r" by (auto simp: group_said_def)
    have "q = Returned (Inr Canceled) \<or> thread_exit j q \<in> set xs" if "fr = Canceled" "exit_reason x = Canceled" "ended_with g j q" for j q
    proof -
      have "q = Returned (Inr Canceled) \<or> thread_exit j q = x \<or> thread_exit j q \<in> set xs"
        using receive(3,4) assms(2) that(1,3) by (auto simp: group_said_def)
      with that(2) cancelled_result [of j q] show ?thesis by auto
    qed
    moreover have "\<exists>j q. ended_with g j q \<and> y = thread_exit j q" if "y \<in> set xs" for y
      using receive(4) assms(2) that by (auto simp: group_said_def)
    moreover have "\<exists>j q. ended_with g j q \<and> exit_reason (thread_exit j q) = fr" if "fr \<noteq> Canceled"
      using receive(3) assms(2) that by (auto simp: group_said_def)
    ultimately show ?thesis unfolding group_said_def same after using x by auto
  qed (auto intro!: group_said_put [OF assms(2)],
      auto simp: collect_one intro!: group_said_same [OF assms(2)] ended_with_idle)
qed

definition live :: "Group \<Rightarrow> nat" where
  "live g = length (filter (\<lambda>t. \<not> has_ended t) (gr_threads g))"

lemma filter_update_length:
  "i < length xs \<Longrightarrow> P (xs ! i) \<Longrightarrow> length (filter P (xs[i := y])) = (if P y then length (filter P xs) else length (filter P xs) - 1)"
proof (induction xs arbitrary: i)
  case (Cons x xs)
  show ?case
  proof (cases i)
    case (Suc j)
    with Cons.prems have "0 < length (filter P xs)" using nth_mem [of j xs] by (auto simp: filter_empty_conv)
    with Suc Cons show ?thesis by auto
  qed (use Cons.prems in simp)
qed simp

lemma live_pos: "i < length (gr_threads g) \<Longrightarrow> \<not> has_ended (gr_threads g ! i) \<Longrightarrow> 0 < live g"
  using nth_mem [of i "gr_threads g"] by (auto simp: live_def filter_empty_conv)

lemma live_put:
  assumes "i < length (gr_threads g)" "\<not> has_ended (gr_threads g ! i)" "gr_threads g0 = gr_threads g"
  shows "live (put_thread i ph g0) = (if has_ended ph then live g - 1 else live g)"
  using filter_update_length [OF assms(1), of "\<lambda>t. \<not> has_ended t" ph] assms(2,3) by (simp add: live_def put_thread_def)

definition all_cancelled :: "Group \<Rightarrow> bool" where
  "all_cancelled g \<longleftrightarrow> (\<forall>t\<in>set (gr_threads g). t = Ended (Returned (Inr Canceled)))"

definition group_counts :: "Group \<Rightarrow> bool" where
  "group_counts g \<longleftrightarrow>
     (case gr_main g of
        Collecting k fr \<Rightarrow> k = live g + length (gr_channel g)
      | ph \<Rightarrow> main_reason ph = Canceled \<longrightarrow> JOIN_DEADLINE_MS \<le> gr_clock g \<or> all_cancelled g)"

lemma running_not_cancelled:
  assumes "i < length (gr_threads g)" "\<not> has_ended (gr_threads g ! i)"
  shows "\<not> all_cancelled g"
proof
  assume "all_cancelled g"
  then have "gr_threads g ! i = Ended (Returned (Inr Canceled))" using assms(1) by (simp add: all_cancelled_def)
  with assms(2) show False by simp
qed

lemma group_counts_put:
  assumes "group_counts g" "i < length (gr_threads g)" "\<not> has_ended (gr_threads g ! i)" "\<not> has_ended ph"
    "gr_threads g0 = gr_threads g" "gr_channel g0 = gr_channel g" "gr_main g0 = gr_main g" "gr_clock g0 = gr_clock g"
  shows "group_counts (put_thread i ph g0)"
proof -
  have c: "live (put_thread i ph g0) = live g" using live_put [OF assms(2,3,5), of ph] assms(4) by simp
  have "\<not> all_cancelled g" by (rule running_not_cancelled [OF assms(2,3)])
  with assms(1,6-8) c show ?thesis by (auto simp: group_counts_def put_thread_def split: MainPhase.splits)
qed

lemma group_counts_send:
  assumes "group_counts g" "i < length (gr_threads g)" "gr_threads g ! i = Sending r"
  shows "group_counts (put_thread i (Ended r) (g\<lparr>gr_channel := gr_channel g @ [x]\<rparr>))" (is "group_counts ?g'")
proof -
  have n: "\<not> has_ended (gr_threads g ! i)" using assms(3) by simp
  have "live ?g' = live g - 1" using live_put [OF assms(2) n, of "g\<lparr>gr_channel := gr_channel g @ [x]\<rparr>" "Ended r"] by simp
  moreover have "0 < live g" using live_pos [OF assms(2) n] .
  moreover have "\<not> all_cancelled g" by (rule running_not_cancelled [OF assms(2) n])
  ultimately show ?thesis using assms(1) by (auto simp: group_counts_def put_thread_def split: MainPhase.splits)
qed

lemma silent_all_cancelled:
  assumes "group_said g" "gr_main g = Collecting k Canceled" "gr_channel g = []" "\<forall>t\<in>set (gr_threads g). has_ended t"
  shows "all_cancelled g"
  unfolding all_cancelled_def
proof
  fix t assume "t \<in> set (gr_threads g)"
  then obtain i where i: "i < length (gr_threads g)" "t = gr_threads g ! i" by (auto simp: in_set_conv_nth)
  with assms(4) obtain r where "t = Ended r" using nth_mem has_ended_iff by blast
  with i have "ended_with g i r" by (simp add: ended_with_def)
  with assms(1-3) have "r = Returned (Inr Canceled)" by (fastforce simp: group_said_def)
  with \<open>t = Ended r\<close> show "t = Ended (Returned (Inr Canceled))" by simp
qed

lemma group_counts_step:
  assumes "group_step sticky a g g'" "group_counts g" "group_said g"
  shows "group_counts g'"
  using assms(1)
proof (cases rule: group_step.cases)
  case (send i r)
  with group_counts_send [OF assms(2)] show ?thesis by simp
next
  case (timeout k fr)
  then show ?thesis
    using silent_all_cancelled [OF assms(3), of "Suc k"] assms(2)
    by (auto simp: group_counts_def all_cancelled_def collect_one has_ended_iff)
next
  case (collected fr)
  then have "live g = 0" "gr_channel g = []" using assms(2) by (simp_all add: group_counts_def)
  then have "\<forall>t\<in>set (gr_threads g). has_ended t" by (simp add: live_def filter_empty_conv)
  with collected silent_all_cancelled [OF assms(3), of 0] \<open>gr_channel g = []\<close> show ?thesis
    by (auto simp: group_counts_def all_cancelled_def)
qed (use assms(2) in \<open>auto intro!: group_counts_put [OF assms(2)]\<close>,
     use assms(2) in \<open>auto simp: group_counts_def live_def all_cancelled_def split: MainPhase.splits\<close>)

lemma group_start_said: "group_said (group_start n)" "group_counts (group_start n)"
  by (auto simp: group_said_def group_counts_def group_start_def ended_with_def live_def)

lemma group_run_said:
  assumes "group_run sticky (group_start n) g"
  shows "group_shape n g" "group_said g" "group_counts g"
proof -
  from assms[unfolded group_run_def] have "group_shape n g \<and> group_said g \<and> group_counts g"
    by (induction rule: rtranclp_induct)
      (use group_start_inv(1) group_start_said group_shape_step group_said_step group_counts_step in blast)+
  then show "group_shape n g" "group_said g" "group_counts g" by simp_all
qed

section \<open>The threads of \<open>Run_Loop\<close> inside the group\<close>

text \<open>Every step of the vCPU threads on real vCPUs, devices and memory is a step of the group.\<close>

definition loops_of :: "('v, 'u, 'd, 'm) VmSystem \<Rightarrow> Group \<Rightarrow> bool" where
  "loops_of vm g \<longleftrightarrow> gr_threads g = map (\<lambda>t. InLoop (th_phase t)) (vm_threads vm) \<and> gr_stop g = vm_stop vm"

lemma act_bind_result:
  "act_bind a f s = Some (s', r) \<Longrightarrow>
     (\<exists>e. a s = Some (s', Inl e) \<and> r = Inl e) \<or> (\<exists>s1 x. a s = Some (s1, Inr x) \<and> f x s1 = Some (s', r))"
  by (auto simp: act_bind_def split: option.splits sum.splits)

lemma act_bind_none: "act_bind a (\<lambda>_. act_return None) s = Some (s', r) \<Longrightarrow> r \<noteq> Inr (Some x)"
  by (drule act_bind_result) (auto simp: act_return_def)

lemma dispatch_not_cancelled:
  assumes "dispatch_exit V S D ex s = Some (s', r)"
  shows "r \<noteq> Inr (Some Canceled)"
proof (cases ex)
  case ExitInterruptWindow
  with assms show ?thesis
    by (auto dest!: act_bind_result act_bind_none simp: act_return_def split: option.splits)
next
  case ExitCanceled
  with assms show ?thesis
    by (auto dest!: act_bind_result act_bind_none simp: act_return_def split: if_splits)
qed (use assms in \<open>auto dest!: act_bind_result simp: act_return_def\<close>)

lemma put_loop: "loops_of vm g \<Longrightarrow> i < length (vm_threads vm) \<Longrightarrow> loops_of (th_put vm i s ph) (put_thread i (InLoop ph) g)"
  by (simp add: loops_of_def th_put_def put_thread_def map_update)

lemma vm_step_group:
  assumes "vm_step V S D vm vm'" "loops_of vm g"
  shows "\<exists>a g'. group_step sticky a g g' \<and> loops_of vm' g'"
proof -
  have at: "i < length (gr_threads g) \<and> gr_threads g ! i = InLoop ph"
    if "i < length (vm_threads vm)" "th_phase (vm_threads vm ! i) = ph" for i ph
    using assms(2) that by (simp add: loops_of_def)
  note put = put_loop [OF assms(2)]
  from assms(1) show ?thesis
  proof (cases rule: vm_step.cases)
    case set_stop
    with assms(2) have "loops_of vm' (g\<lparr>gr_stop := True\<rparr>)" by (simp add: loops_of_def)
    then show ?thesis using outside by blast
  next
    case (see_stop i)
    with at assms(2) group_step.see_flag [of i g sticky] show ?thesis
      unfolding see_stop(1) by (blast intro: put dest: loops_of_def [THEN iffD1])
  next
    case (go_on i)
    with at assms(2) group_step.go_on [of i g sticky] show ?thesis
      unfolding go_on(1) by (blast intro: put dest: loops_of_def [THEN iffD1])
  next
    case (poll i s' r)
    with at group_step.poll [of i g sticky r] show ?thesis unfolding poll(1) by (blast intro: put)
  next
    case (run i s' r)
    with at group_step.leave [of i g sticky r] show ?thesis unfolding run(1) by (blast intro: put)
  next
    case (dispatch i ex s' r)
    with at dispatch_not_cancelled [OF dispatch(4)] group_step.dispatch [of i g ex r sticky] show ?thesis
      unfolding dispatch(1) by (blast intro: put)
  qed
qed

lemma loops_of_start: "loops_of (vm_start mach serial) (group_start (length (mach_vcpus mach)))"
  by (simp add: loops_of_def vm_start_def group_start_def comp_def map_replicate_const)

lemma group_run_snoc: "group_run sticky g g1 \<Longrightarrow> group_step sticky a g1 g2 \<Longrightarrow> group_run sticky g g2"
  unfolding group_run_def by (metis (mono_tags, lifting) rtranclp.rtrancl_into_rtrancl)

lemma vm_run_group:
  assumes "(vm_step V S D)\<^sup>*\<^sup>* (vm_start mach serial) vm"
  shows "\<exists>g. group_run sticky (group_start (length (mach_vcpus mach))) g \<and> loops_of vm g"
  using assms
proof (induction rule: rtranclp_induct)
  case base
  have "group_run sticky (group_start (length (mach_vcpus mach))) (group_start (length (mach_vcpus mach)))" by (simp add: group_run_def)
  with loops_of_start [of mach serial] show ?case by blast
next
  case (step vm vm')
  then obtain g where g: "group_run sticky (group_start (length (mach_vcpus mach))) g" "loops_of vm g" by blast
  from vm_step_group [OF step.hyps(2) g(2), of sticky] obtain a g' where "group_step sticky a g g'" "loops_of vm' g'" by blast
  with group_run_snoc [OF g(1)] show ?case by blast
qed

section \<open>Properties\<close>

lemma no_descent: "(\<And>k. (h :: nat \<Rightarrow> nat) (Suc k) < h k) \<Longrightarrow> False"
  using wf_less wf_iff_no_infinite_down_chain [of "{(x, y :: nat). x < y}"] by auto



lemma reason_fixed:
  "group_step sticky a g g' \<Longrightarrow> \<not> collecting (gr_main g) \<Longrightarrow> \<not> collecting (gr_main g') \<and> main_reason (gr_main g') = main_reason (gr_main g)"
  by (erule group_step.cases) (simp_all add: put_thread_def)

lemma reason_fixed_run:
  assumes "group_run sticky g g'" "\<not> collecting (gr_main g)"
  shows "main_reason (gr_main g') = main_reason (gr_main g)"
proof -
  from assms(1)[unfolded group_run_def] have "\<not> collecting (gr_main g') \<and> main_reason (gr_main g') = main_reason (gr_main g)"
  proof (induction rule: rtranclp_induct)
    case (step g1 g2)
    then show ?case using reason_fixed [of sticky _ g1 g2] by auto
  qed (use assms(2) in simp)
  then show ?thesis by simp
qed

lemma own_run_step: "own_step a \<Longrightarrow> group_step sticky a g g1 \<Longrightarrow> own_run sticky g1 g2 \<Longrightarrow> own_run sticky g g2"
  unfolding own_run_def by (metis (mono_tags, lifting) converse_rtranclp_into_rtranclp)

lemma own_run_run: "own_run sticky g g' \<Longrightarrow> group_run sticky g g'"
  unfolding own_run_def group_run_def by (erule rtranclp_mono [THEN predicate2D, rotated]) blast

text \<open>C36: The deadline. Three seconds after the threads were started the caller stops a machine that still
  runs: when nothing has been reported by then, the caller's next step leaves the collection with \<open>Canceled\<close>, the machine
  is then brought down without any help of the guest, and however the threads go on the only reason that
  can be returned is \<open>Canceled\<close>. No stop request is needed for this.\<close>

theorem deadline_stops_machine:
  assumes "group_run True (group_start n) g" "gr_main g = Collecting (Suc k) Canceled" "gr_channel g = []"
    "JOIN_DEADLINE_MS \<le> gr_clock g"
  shows "\<exists>g1. group_step True Main g g1 \<and> (\<exists>g2. own_run True g1 g2 \<and> gr_main g2 = GroupReturned Canceled) \<and>
    (\<forall>g2 fr. group_run True g1 g2 \<and> gr_main g2 = GroupReturned fr \<longrightarrow> fr = Canceled)"
proof -
  let ?g1 = "g\<lparr>gr_main := Stopping Canceled\<rparr>"
  have s1: "group_step True Main g ?g1" using timeout [OF assms(2,3), of True] assms(4) by (simp add: collect_one)
  let ?g2 = "?g1\<lparr>gr_stop := True, gr_main := JoiningWatchdog Canceled\<rparr>"
  have s2: "group_step True Main ?g1 ?g2" by (rule stop_all) simp
  have "group_run True (group_start n) ?g2" by (rule group_run_snoc [OF group_run_snoc [OF assms(1) s1] s2])
  from own_run_ends [OF group_run_inv [OF this group_start_inv]] obtain g3 fr
    where r: "own_run True ?g2 g3" "gr_main g3 = GroupReturned fr" by auto
  have fixed: "fr' = Canceled" if "group_run True ?g1 g4" "gr_main g4 = GroupReturned fr'" for g4 fr'
    using reason_fixed_run [OF that(1)] that(2) by simp
  have o: "own_run True ?g1 g3" using own_run_step [OF _ s2 r(1)] by simp
  with fixed [OF own_run_run [OF o] r(2)] r(2) s1 fixed show ?thesis by blast
qed

subsection \<open>Two vCPUs\<close>

definition two_vcpus :: "Phase \<Rightarrow> Phase \<Rightarrow> bool \<Rightarrow> WatchdogPhase \<Rightarrow> nat \<Rightarrow> MainPhase \<Rightarrow> Group" where
  "two_vcpus p q stop w t m = \<lparr>gr_threads = [InLoop p, InLoop q], gr_cancels = [False, False], gr_stop = stop,
     gr_watchdog = w, gr_channel = [], gr_clock = t, gr_main = m\<rparr>"

lemma two_vcpus_sel [simp]:
  "gr_threads (two_vcpus p q stop w t m) = [InLoop p, InLoop q]" "gr_stop (two_vcpus p q stop w t m) = stop"
  "gr_watchdog (two_vcpus p q stop w t m) = w" "gr_channel (two_vcpus p q stop w t m) = []"
  "gr_cancels (two_vcpus p q stop w t m) = [False, False]" "gr_clock (two_vcpus p q stop w t m) = t"
  "gr_main (two_vcpus p q stop w t m) = m"
  "put_thread 0 (InLoop x) (two_vcpus p q stop w t m) = two_vcpus x q stop w t m"
  "put_thread (Suc 0) (InLoop x) (two_vcpus p q stop w t m) = two_vcpus p x stop w t m"
  "(two_vcpus p q stop w t m)\<lparr>gr_stop := b\<rparr> = two_vcpus p q b w t m"
  "(two_vcpus p q stop w t m)\<lparr>gr_clock := u\<rparr> = two_vcpus p q stop w u m"
  "(two_vcpus p q stop w t m)\<lparr>gr_main := y\<rparr> = two_vcpus p q stop w t y"
  "(two_vcpus p q stop w t m)\<lparr>gr_watchdog := v\<rparr> = two_vcpus p q stop v t m"
  by (simp_all add: two_vcpus_def put_thread_def)

lemma two_vcpus_start: "group_start 2 = two_vcpus Top Top False Watching 0 (Collecting 2 Canceled)"
  by (simp add: two_vcpus_def group_start_def numeral_2_eq_2)

lemma both_polling: "group_run sticky (group_start 2) (two_vcpus Poll Poll False Watching 0 (Collecting 2 Canceled))"
proof -
  have "group_run sticky (group_start 2) (group_start 2)" by (simp add: group_run_def)
  then show ?thesis
    using go_on [of 0 "two_vcpus Top Top False Watching 0 (Collecting 2 Canceled)" sticky]
      go_on [of 1 "two_vcpus Poll Top False Watching 0 (Collecting 2 Canceled)" sticky]
    unfolding two_vcpus_start by (auto intro: group_run_snoc)
qed

lemma both_enter:
  assumes "group_run sticky (group_start 2) (two_vcpus Poll Poll stop w t m)"
  shows "group_run sticky (group_start 2) (two_vcpus Enter Enter stop w t m)"
  using poll [of 0 "two_vcpus Poll Poll stop w t m" sticky "Inr ()"] poll [of 1 "two_vcpus Enter Poll stop w t m" sticky "Inr ()"] assms
  by (auto intro: group_run_snoc)

text \<open>Both vCPUs run their guest; three seconds pass.\<close>

definition both_running :: Group where
  "both_running = two_vcpus Enter Enter False Watching 3000 (Collecting 2 Canceled)"

lemma both_running_reached: "group_run sticky (group_start 2) both_running"
  using both_enter [OF both_polling] tick [of sticky "two_vcpus Enter Enter False Watching 0 (Collecting 2 Canceled)" 3000]
  by (auto simp: both_running_def intro: group_run_snoc)

theorem deadline_stops_machine_witness:
  "gr_threads both_running = [InLoop Enter, InLoop Enter] \<and> \<not> gr_stop both_running \<and>
   (\<exists>g1. group_step True Main both_running g1 \<and> (\<exists>g2. own_run True g1 g2 \<and> gr_main g2 = GroupReturned Canceled))"
  using deadline_stops_machine [OF both_running_reached, of 1] by (auto simp: both_running_def JOIN_DEADLINE_MS_def)



text \<open>Why the platform must keep the requests. On one that drops a request for a vCPU that is not running, the watchdog may
  come while both threads are between the test of the flag and the guest; then nobody can go on.\<close>

lemma dropped_request_hangs:
  "\<exists>g. group_run False (group_start 2) g \<and> gr_stop g \<and> gr_main g = JoiningThreads Canceled \<and>
     \<not> (\<exists>a g'. own_step a \<and> group_step False a g g')"
proof -
  let ?m = "Collecting 2 Canceled"
  have c: "group_step False Watchdog (two_vcpus Poll Poll True (WatchdogCancels (j # js)) 0 ?m) (two_vcpus Poll Poll True (WatchdogCancels js) 0 ?m)"
    if "j < 2" for j js
    using watchdog_one [of "two_vcpus Poll Poll True (WatchdogCancels (j # js)) 0 ?m" j js False] that
    by (cases j) (auto simp: request_cancel_def)
  have "[0..<2] = [0, Suc 0]" by (simp add: upt_rec)
  then have "group_run False (group_start 2) (two_vcpus Poll Poll True (WatchdogCancels [0, Suc 0]) 0 ?m)"
    using both_polling [of False] outside [of False "two_vcpus Poll Poll False Watching 0 ?m"]
      watch [of "two_vcpus Poll Poll True Watching 0 ?m" False]
    by (auto intro: group_run_snoc)
  from group_run_snoc [OF group_run_snoc [OF this c] c]
  have "group_run False (group_start 2) (two_vcpus Poll Poll True WatchdogDone 0 ?m)"
    using watchdog_end [of "two_vcpus Poll Poll True (WatchdogCancels []) 0 ?m" False] by (auto intro: group_run_snoc)
  from both_enter [OF this]
  have "group_run False (group_start 2) (two_vcpus Enter Enter True WatchdogDone 3000 (JoiningThreads Canceled))"
    using tick [of False "two_vcpus Enter Enter True WatchdogDone 0 ?m" 3000]
      timeout [of "two_vcpus Enter Enter True WatchdogDone 3000 ?m" 1 Canceled False]
      stop_all [of "two_vcpus Enter Enter True WatchdogDone 3000 (Stopping Canceled)" Canceled False]
      join_watchdog [of "two_vcpus Enter Enter True WatchdogDone 3000 (JoiningWatchdog Canceled)" Canceled False]
    by (simp add: JOIN_DEADLINE_MS_def collect_one) (meson group_run_snoc)
  moreover have "\<not> group_step False a (two_vcpus Enter Enter True WatchdogDone 3000 (JoiningThreads Canceled)) g'" if "own_step a" for a g'
    using that by (auto elim!: group_stepE simp: less_Suc_eq nth_Cons')
  ultimately show ?thesis by (intro exI [of _ "two_vcpus Enter Enter True WatchdogDone 3000 (JoiningThreads Canceled)"]) auto
qed

end
