(* ===== verification/Daemon_Types.thy ===== *)
theory Daemon_Types
  imports Vm_Boot "HOL-Library.AList"
begin

text \<open>
  The types of the daemon's interface: the life cycle states, actions and reports of
  \<open>hitz-api/src/api.rs\<close> and the errors of \<open>hitz-daemon/src/error.rs\<close>. An operation of the daemon
  changes a state and may fail after it has changed it, so it returns the new state with an error
  or a value; \<open>try_bind\<close> is the \<open>?\<close> operator for such operations.
\<close>

section \<open>States and actions\<close>

datatype VmState = Created | Running | Stopped | Failed

record VmInfo =
  vi_id :: string
  vi_state :: VmState
  vi_config :: VmConfig
  vi_exit_reason :: "string option"

datatype VmAction = Start | Stop | Restart

fun action_to_string :: "VmAction \<Rightarrow> string" where
  "action_to_string Start = ''start''"
| "action_to_string Stop = ''stop''"
| "action_to_string Restart = ''restart''"

fun gerund :: "VmAction \<Rightarrow> string" where
  "gerund Start = ''Starting''"
| "gerund Stop = ''Stopping''"
| "gerund Restart = ''Restarting''"

fun past_tense :: "VmAction \<Rightarrow> string" where
  "past_tense Start = ''started''"
| "past_tense Stop = ''stopped''"
| "past_tense Restart = ''restarted''"

fun show_state :: "VmState \<Rightarrow> string" where
  "show_state Created = ''Created''"
| "show_state Running = ''Running''"
| "show_state Stopped = ''Stopped''"
| "show_state Failed = ''Failed''"

definition terminal :: "VmState \<Rightarrow> bool" where
  "terminal s \<longleftrightarrow> s = Stopped \<or> s = Failed"

section \<open>Errors\<close>

datatype DaemonError =
    NotFound string
  | AlreadyExists string
  | InvalidState string VmState string
  | Vmm VmError
  | DaemonIo string
  | Internal string

fun daemon_error_to_string :: "DaemonError \<Rightarrow> string" where
  "daemon_error_to_string (NotFound i) = ''VM not found: '' @ i"
| "daemon_error_to_string (AlreadyExists i) = ''VM already exists: '' @ i"
| "daemon_error_to_string (InvalidState i s e) = ''VM \"'' @ i @ ''\" is '' @ show_state s @ '', expected '' @ e"
| "daemon_error_to_string (Vmm e) = ''VMM error: '' @ vm_error_to_string e"
| "daemon_error_to_string (DaemonIo e) = ''I/O error: '' @ e"
| "daemon_error_to_string (Internal e) = ''internal error: '' @ e"

section \<open>Operations that change state and may fail\<close>

type_synonym ('s, 'e, 'a) attempt = "'s \<times> ('e + 'a)"

definition try_bind :: "('s, 'e, 'a) attempt \<Rightarrow> ('a \<Rightarrow> 's \<Rightarrow> ('s, 'e, 'b) attempt) \<Rightarrow> ('s, 'e, 'b) attempt" where
  "try_bind r f = (case r of (s, Inl e) \<Rightarrow> (s, Inl e) | (s, Inr x) \<Rightarrow> f x s)"

lemma try_bind_simps [simp]: "try_bind (s, Inl e) f = (s, Inl e)" "try_bind (s, Inr x) f = f x s"
  by (simp_all add: try_bind_def)

lemma try_bind_Inr_iff:
  "try_bind r f = (s, Inr y) \<longleftrightarrow> (\<exists>s1 x. r = (s1, Inr x) \<and> f x s1 = (s, Inr y))"
  by (auto simp: try_bind_def split: prod.splits sum.splits)

definition lift_err :: "('e \<Rightarrow> 'f) \<Rightarrow> ('s, 'e, 'a) attempt \<Rightarrow> ('s, 'f, 'a) attempt" where
  "lift_err g r = (fst r, map_err g (snd r))"

lemma lift_err_simps [simp]: "lift_err g (s, Inl e) = (s, Inl (g e))" "lift_err g (s, Inr x) = (s, Inr x)"
  by (simp_all add: lift_err_def map_err_def)

end
