(* ===== verification/State_Store.thy ===== *)
theory State_Store
  imports Daemon_Types
begin

text \<open>
  The persistent store of \<open>hitz-daemon/src/state_store.rs\<close>: one directory per VM with a configuration
  file and a state file. The host file system is explicit: the directories with the texts of their
  two files, and a counter of the calls made. Any call may fail, as the fault function says, and a
  failed write or removal leaves whatever the fault says in the directory it worked on. The JSON
  library is a parameter, with the law that reading gives back what was written. Every VM name has
  its own directory, except the empty name and \<open>.\<close>, which are the base directory itself.
\<close>

section \<open>The host file system\<close>

datatype Dir = BaseDir | SubDir string

record VmDir =
  dir_config :: "string option"
  dir_state :: "string option"

definition vm_dir_empty :: VmDir where
  "vm_dir_empty = \<lparr>dir_config = None, dir_state = None\<rparr>"

record FsFault =
  fault_error :: string
  fault_left :: VmDir
  fault_kept :: "Dir \<Rightarrow> bool"

record Disk =
  disk_dirs :: "(Dir \<times> VmDir) list"
  disk_ops :: nat
  disk_faults :: "nat \<Rightarrow> FsFault option"
  disk_clock :: "nat \<Rightarrow> u64"

definition get_dir :: "Disk \<Rightarrow> Dir \<Rightarrow> VmDir option" where
  "get_dir d p = map_of (disk_dirs d) p"

definition put_dir :: "Disk \<Rightarrow> Dir \<Rightarrow> VmDir \<Rightarrow> Disk" where
  "put_dir d p v = d\<lparr>disk_dirs := AList.update p v (disk_dirs d)\<rparr>"

definition fs_call :: "Disk \<Rightarrow> Disk \<times> FsFault option" where
  "fs_call d = (d\<lparr>disk_ops := Suc (disk_ops d)\<rparr>, disk_faults d (disk_ops d))"

definition fs_create_dir_all :: "Disk \<Rightarrow> Dir \<Rightarrow> (Disk, string, unit) attempt" where
  "fs_create_dir_all d p =
     (case fs_call d of
        (d, Some f) \<Rightarrow> (d, Inl (fault_error f))
      | (d, None) \<Rightarrow> (if get_dir d p = None then put_dir d p vm_dir_empty else d, Inr ()))"

definition fs_write_file :: "Disk \<Rightarrow> Dir \<Rightarrow> (VmDir \<Rightarrow> VmDir) \<Rightarrow> (Disk, string, unit) attempt" where
  "fs_write_file d p upd =
     (case fs_call d of
        (d, Some f) \<Rightarrow> (if get_dir d p = None then d else put_dir d p (fault_left f), Inl (fault_error f))
      | (d, None) \<Rightarrow> (case get_dir d p of
            None \<Rightarrow> (d, Inl ''not found'')
          | Some v \<Rightarrow> (put_dir d p (upd v), Inr ())))"

definition fs_read_to_string :: "Disk \<Rightarrow> Dir \<Rightarrow> (VmDir \<Rightarrow> string option) \<Rightarrow> Disk \<times> string option" where
  "fs_read_to_string d p file =
     (case fs_call d of
        (d, Some f) \<Rightarrow> (d, None)
      | (d, None) \<Rightarrow> (d, Option.bind (get_dir d p) file))"

text \<open>Removing a directory that is not there counts as success, as the only caller treats it.\<close>

definition fs_remove_dir_all :: "Disk \<Rightarrow> Dir \<Rightarrow> (Disk, string, unit) attempt" where
  "fs_remove_dir_all d p =
     (case fs_call d of
        (d, Some f) \<Rightarrow>
          ((case p of
              BaseDir \<Rightarrow> d\<lparr>disk_dirs := filter (fault_kept f \<circ> fst) (disk_dirs d)\<rparr>
            | SubDir n \<Rightarrow> (if get_dir d p = None then d
                else if fault_kept f p then put_dir d p (fault_left f)
                else d\<lparr>disk_dirs := AList.delete p (disk_dirs d)\<rparr>)), Inl (fault_error f))
      | (d, None) \<Rightarrow>
          (d\<lparr>disk_dirs := (case p of BaseDir \<Rightarrow> [] | SubDir n \<Rightarrow> AList.delete p (disk_dirs d))\<rparr>, Inr ()))"

section \<open>The store\<close>

record PersistedState =
  ps_state :: VmState
  created_at :: u64
  updated_at :: u64

record Serde =
  config_to_json :: "VmConfig \<Rightarrow> string + string"
  config_from_json :: "string \<Rightarrow> VmConfig option"
  state_to_json :: "PersistedState \<Rightarrow> string + string"
  state_from_json :: "string \<Rightarrow> PersistedState option"

definition serde_law :: "Serde \<Rightarrow> bool" where
  "serde_law S \<longleftrightarrow>
     (\<forall>c t. config_to_json S c = Inr t \<longrightarrow> config_from_json S t = Some c) \<and>
     (\<forall>p t. state_to_json S p = Inr t \<longrightarrow> state_from_json S t = Some p)"

definition vm_dir :: "string \<Rightarrow> Dir" where
  "vm_dir vid = (if vid = '''' \<or> vid = ''.'' then BaseDir else SubDir vid)"

definition now_ms :: "Disk \<Rightarrow> u64" where
  "now_ms d = disk_clock d (disk_ops d)"

definition store_new :: "Disk \<Rightarrow> (Disk, DaemonError, unit) attempt" where
  "store_new d = lift_err DaemonIo (fs_create_dir_all d BaseDir)"

definition to_json :: "('a \<Rightarrow> string + string) \<Rightarrow> 'a \<Rightarrow> Disk \<Rightarrow> (Disk, DaemonError, string) attempt" where
  "to_json f x d = (d, map_err Internal (f x))"

definition save_config :: "Serde \<Rightarrow> Disk \<Rightarrow> string \<Rightarrow> VmConfig \<Rightarrow> (Disk, DaemonError, unit) attempt" where
  "save_config S d vid config =
     (let dir = vm_dir vid in
      try_bind (lift_err DaemonIo (fs_create_dir_all d dir)) (\<lambda>_ d.
      try_bind (to_json (config_to_json S) config d) (\<lambda>json d.
      lift_err DaemonIo (fs_write_file d dir (\<lambda>v. v\<lparr>dir_config := Some json\<rparr>)))))"

definition load_raw_state :: "Serde \<Rightarrow> Disk \<Rightarrow> string \<Rightarrow> Disk \<times> PersistedState option" where
  "load_raw_state S d vid =
     (case fs_read_to_string d (vm_dir vid) dir_state of (d, json) \<Rightarrow> (d, Option.bind json (state_from_json S)))"

definition save_state :: "Serde \<Rightarrow> Disk \<Rightarrow> string \<Rightarrow> VmState \<Rightarrow> (Disk, DaemonError, unit) attempt" where
  "save_state S d vid st =
     (let dir = vm_dir vid in
      try_bind (lift_err DaemonIo (fs_create_dir_all d dir)) (\<lambda>_ d.
      let now = now_ms d in
      case load_raw_state S d vid of (d, raw) \<Rightarrow>
        let persisted = \<lparr>ps_state = st, created_at = (case raw of None \<Rightarrow> now | Some s \<Rightarrow> created_at s), updated_at = now\<rparr> in
        try_bind (to_json (state_to_json S) persisted d) (\<lambda>json d.
        lift_err DaemonIo (fs_write_file d dir (\<lambda>v. v\<lparr>dir_state := Some json\<rparr>)))))"

definition store_delete :: "Disk \<Rightarrow> string \<Rightarrow> (Disk, DaemonError, unit) attempt" where
  "store_delete d vid = lift_err DaemonIo (fs_remove_dir_all d (vm_dir vid))"

fun dir_name :: "Dir \<Rightarrow> string option" where
  "dir_name BaseDir = None"
| "dir_name (SubDir n) = Some n"

definition clamp_state :: "PersistedState option \<Rightarrow> VmState" where
  "clamp_state raw = (case raw of None \<Rightarrow> Created | Some s \<Rightarrow> if ps_state s = Running then Stopped else ps_state s)"

text \<open>One entry of the directory listing: reading the entry and asking whether it is a directory may fail.\<close>

definition load_entry :: "Serde \<Rightarrow> Disk \<Rightarrow> string \<Rightarrow> Disk \<times> (string \<times> VmConfig \<times> VmState) option" where
  "load_entry S d vid =
     (case fs_call d of
        (d, Some f) \<Rightarrow> (d, None)
      | (d, None) \<Rightarrow>
         (case fs_call d of
            (d, Some f) \<Rightarrow> (d, None)
          | (d, None) \<Rightarrow>
             (case fs_read_to_string d (SubDir vid) dir_config of
                (d, None) \<Rightarrow> (d, None)
              | (d, Some config_json) \<Rightarrow>
                 (case config_from_json S config_json of
                    None \<Rightarrow> (d, None)
                  | Some config \<Rightarrow>
                      (case load_raw_state S d vid of (d, raw) \<Rightarrow> (d, Some (vid, config, clamp_state raw)))))))"

fun load_entries ::
  "Serde \<Rightarrow> Disk \<Rightarrow> string list \<Rightarrow> (string \<times> VmConfig \<times> VmState) list \<Rightarrow> Disk \<times> (string \<times> VmConfig \<times> VmState) list" where
  "load_entries S d [] results = (d, results)"
| "load_entries S d (vid # ids) results =
     (case load_entry S d vid of (d, r) \<Rightarrow>
        load_entries S d ids (case r of None \<Rightarrow> results | Some x \<Rightarrow> results @ [x]))"

definition load_all :: "Serde \<Rightarrow> Disk \<Rightarrow> (Disk, DaemonError, (string \<times> VmConfig \<times> VmState) list) attempt" where
  "load_all S d =
     (case fs_call d of
        (d, Some f) \<Rightarrow> (d, Inl (DaemonIo (fault_error f)))
      | (d, None) \<Rightarrow>
          (case load_entries S d (List.map_filter (dir_name \<circ> fst) (disk_dirs d)) [] of (d, results) \<Rightarrow> (d, Inr results)))"

section \<open>The store on a host that works\<close>

text \<open>
  What the files of a VM say, and a host on which no call fails. A state can always be serialised; a
  configuration may not, when one of its paths is not Unicode.
\<close>

definition plain_id :: "string \<Rightarrow> bool" where
  "plain_id vid \<longleftrightarrow> vid \<noteq> '''' \<and> vid \<noteq> ''.''"

definition stored_config :: "Serde \<Rightarrow> Disk \<Rightarrow> string \<Rightarrow> VmConfig option" where
  "stored_config S d vid = Option.bind (Option.bind (get_dir d (vm_dir vid)) dir_config) (config_from_json S)"

definition stored_raw :: "Serde \<Rightarrow> Disk \<Rightarrow> string \<Rightarrow> PersistedState option" where
  "stored_raw S d vid = Option.bind (Option.bind (get_dir d (vm_dir vid)) dir_state) (state_from_json S)"

definition disk_ok :: "Disk \<Rightarrow> bool" where
  "disk_ok d \<longleftrightarrow> distinct (map fst (disk_dirs d)) \<and> (\<forall>n. get_dir d (SubDir n) \<noteq> None \<longrightarrow> plain_id n)"

definition healthy :: "Disk \<Rightarrow> bool" where
  "healthy d \<longleftrightarrow> disk_faults d = (\<lambda>_. None) \<and> disk_ok d"

definition serde_total :: "Serde \<Rightarrow> bool" where
  "serde_total S \<longleftrightarrow> serde_law S \<and> (\<forall>p. \<exists>t. state_to_json S p = Inr t)"

lemma vm_dir_plain: "plain_id vid \<Longrightarrow> vm_dir vid = SubDir vid"
  by (simp add: vm_dir_def plain_id_def)

lemma get_dir_simps [simp]:
  "get_dir (put_dir d p v) q = (if q = p then Some v else get_dir d q)"
  "get_dir (d\<lparr>disk_ops := n\<rparr>) q = get_dir d q" "disk_faults (put_dir d p v) = disk_faults d"
  "get_dir (d\<lparr>disk_dirs := AList.delete p (disk_dirs d)\<rparr>) q = (if q = p then None else get_dir d q)"
  by (simp_all add: get_dir_def put_dir_def update_conv' delete_conv')

lemma healthy_put [intro]: "healthy d \<Longrightarrow> (\<forall>n. p = SubDir n \<longrightarrow> plain_id n) \<Longrightarrow> healthy (put_dir d p v)"
  by (auto simp: healthy_def disk_ok_def) (auto simp: put_dir_def distinct_update)

lemma healthy_ops [simp]: "healthy (d\<lparr>disk_ops := n\<rparr>) = healthy d"
  by (simp add: healthy_def disk_ok_def)

lemma healthy_call: "healthy d \<Longrightarrow> fs_call d = (d\<lparr>disk_ops := Suc (disk_ops d)\<rparr>, None)"
  by (simp add: fs_call_def healthy_def)

lemma fs_create_healthy:
  assumes "healthy d" "\<forall>n. p = SubDir n \<longrightarrow> plain_id n"
  shows "\<exists>d'. fs_create_dir_all d p = (d', Inr ()) \<and> healthy d' \<and>
    get_dir d' = (get_dir d)(p := Some (case get_dir d p of None \<Rightarrow> vm_dir_empty | Some v \<Rightarrow> v))"
  using assms healthy_put [OF assms, of vm_dir_empty] healthy_put [of "d\<lparr>disk_ops := Suc (disk_ops d)\<rparr>" p vm_dir_empty]
  by (auto simp: fs_create_dir_all_def healthy_call fun_eq_iff)

lemma fs_write_healthy:
  assumes "healthy d" "\<forall>n. p = SubDir n \<longrightarrow> plain_id n" "get_dir d p = Some v"
  shows "\<exists>d'. fs_write_file d p upd = (d', Inr ()) \<and> healthy d' \<and> get_dir d' = (get_dir d)(p := Some (upd v))"
  using assms healthy_put [of "d\<lparr>disk_ops := Suc (disk_ops d)\<rparr>" p "upd v"]
  by (auto simp: fs_write_file_def healthy_call fun_eq_iff)

lemma fs_read_healthy:
  "healthy d \<Longrightarrow> fs_read_to_string d p f = (d\<lparr>disk_ops := Suc (disk_ops d)\<rparr>, Option.bind (get_dir d p) f)"
  by (simp add: fs_read_to_string_def healthy_call)

lemma load_raw_healthy:
  "healthy d \<Longrightarrow> load_raw_state S d vid = (d\<lparr>disk_ops := Suc (disk_ops d)\<rparr>, stored_raw S d vid)"
  by (simp add: load_raw_state_def fs_read_healthy stored_raw_def)

lemma save_config_healthy:
  assumes "serde_total S" "healthy d" "plain_id vid" "config_to_json S config = Inr t"
  shows "\<exists>d'. save_config S d vid config = (d', Inr ()) \<and> healthy d' \<and> stored_config S d' vid = Some config \<and>
    stored_raw S d' vid = stored_raw S d vid \<and> (\<forall>p. p \<noteq> vm_dir vid \<longrightarrow> get_dir d' p = get_dir d p)"
proof -
  let ?p = "vm_dir vid"
  have p: "\<forall>n. ?p = SubDir n \<longrightarrow> plain_id n" using assms(3) by (simp add: vm_dir_plain)
  have t: "config_to_json S config = Inr t" "config_from_json S t = Some config"
    using assms(1,4) unfolding serde_total_def serde_law_def by blast+
  obtain d1 where d1: "fs_create_dir_all d ?p = (d1, Inr ())" "healthy d1"
    "get_dir d1 = (get_dir d)(?p := Some (case get_dir d ?p of None \<Rightarrow> vm_dir_empty | Some v \<Rightarrow> v))"
    using fs_create_healthy [OF assms(2) p] by blast
  obtain d2 where d2: "fs_write_file d1 ?p (\<lambda>v. v\<lparr>dir_config := Some t\<rparr>) = (d2, Inr ())" "healthy d2"
    "get_dir d2 = (get_dir d1)(?p := Some ((case get_dir d ?p of None \<Rightarrow> vm_dir_empty | Some v \<Rightarrow> v)\<lparr>dir_config := Some t\<rparr>))"
    using fs_write_healthy [OF d1(2) p] d1(3) by fastforce
  have "save_config S d vid config = (d2, Inr ())"
    using d1(1) d2(1) t(1) by (simp add: save_config_def to_json_def map_err_def Let_def)
  then show ?thesis
    using d2 d1(3) t(2)
    by (auto simp: stored_config_def stored_raw_def vm_dir_empty_def split: option.split)
qed

lemma save_config_refused:
  assumes "healthy d" "plain_id vid" "config_to_json S config = Inl e"
  shows "\<exists>d'. save_config S d vid config = (d', Inl (Internal e)) \<and> healthy d' \<and> stored_config S d' vid = stored_config S d vid \<and>
    (\<forall>p. p \<noteq> vm_dir vid \<longrightarrow> get_dir d' p = get_dir d p)"
proof -
  have "\<forall>n. vm_dir vid = SubDir n \<longrightarrow> plain_id n" using assms(2) by (simp add: vm_dir_plain)
  then obtain d1 where d1: "fs_create_dir_all d (vm_dir vid) = (d1, Inr ())" "healthy d1"
    "get_dir d1 = (get_dir d)(vm_dir vid := Some (case get_dir d (vm_dir vid) of None \<Rightarrow> vm_dir_empty | Some v \<Rightarrow> v))"
    using fs_create_healthy [OF assms(1)] by blast
  then show ?thesis
    using assms(3)
    by (auto simp: save_config_def to_json_def map_err_def Let_def stored_config_def vm_dir_empty_def split: option.split)
qed

lemma save_state_healthy:
  assumes "serde_total S" "healthy d" "plain_id vid"
  shows "\<exists>d' raw. save_state S d vid st = (d', Inr ()) \<and> healthy d' \<and> stored_raw S d' vid = Some raw \<and> ps_state raw = st \<and>
    (\<forall>old. stored_raw S d vid = Some old \<longrightarrow> created_at raw = created_at old) \<and>
    stored_config S d' vid = stored_config S d vid \<and> (\<forall>p. p \<noteq> vm_dir vid \<longrightarrow> get_dir d' p = get_dir d p)"
proof -
  let ?p = "vm_dir vid"
  have p: "\<forall>n. ?p = SubDir n \<longrightarrow> plain_id n" using assms(3) by (simp add: vm_dir_plain)
  obtain d1 where d1: "fs_create_dir_all d ?p = (d1, Inr ())" "healthy d1"
    "get_dir d1 = (get_dir d)(?p := Some (case get_dir d ?p of None \<Rightarrow> vm_dir_empty | Some v \<Rightarrow> v))"
    using fs_create_healthy [OF assms(2) p] by blast
  define raw where "raw = \<lparr>ps_state = st, created_at = (case stored_raw S d1 vid of None \<Rightarrow> now_ms d1 | Some s \<Rightarrow> created_at s),
    updated_at = now_ms d1\<rparr>"
  obtain t where t: "state_to_json S raw = Inr t" "state_from_json S t = Some raw"
    using assms(1) unfolding serde_total_def serde_law_def by blast
  let ?d1 = "d1\<lparr>disk_ops := Suc (disk_ops d1)\<rparr>"
  obtain d2 where d2: "fs_write_file ?d1 ?p (\<lambda>v. v\<lparr>dir_state := Some t\<rparr>) = (d2, Inr ())" "healthy d2"
    "get_dir d2 = (get_dir ?d1)(?p := Some ((case get_dir d ?p of None \<Rightarrow> vm_dir_empty | Some v \<Rightarrow> v)\<lparr>dir_state := Some t\<rparr>))"
    using fs_write_healthy [of ?d1 ?p] d1(2,3) p by fastforce
  have "save_state S d vid st = (d2, Inr ())"
    using d1(1) d2(1) t(1)
    by (simp add: save_state_def to_json_def map_err_def Let_def load_raw_healthy [OF d1(2)] raw_def)
  moreover have "stored_raw S d1 vid = stored_raw S d vid"
    using d1(3) by (auto simp: stored_raw_def vm_dir_empty_def split: option.split)
  ultimately show ?thesis
    using d2 d1(3) t(2)
    by (auto simp: stored_config_def stored_raw_def vm_dir_empty_def raw_def split: option.split)
qed

lemma store_delete_healthy:
  assumes "healthy d" "plain_id vid"
  shows "\<exists>d'. store_delete d vid = (d', Inr ()) \<and> healthy d' \<and> get_dir d' = (get_dir d)(vm_dir vid := None)"
proof -
  let ?d = "d\<lparr>disk_ops := Suc (disk_ops d), disk_dirs := AList.delete (SubDir vid) (disk_dirs d)\<rparr>"
  have "store_delete d vid = (?d, Inr ())"
    using assms by (simp add: store_delete_def fs_remove_dir_all_def healthy_call vm_dir_plain)
  moreover have "healthy ?d" using assms(1) by (auto simp: healthy_def disk_ok_def distinct_delete get_dir_def delete_conv')
  moreover have "get_dir ?d = (get_dir d)(vm_dir vid := None)"
    using assms(2) by (auto simp: fun_eq_iff get_dir_def delete_conv' vm_dir_plain)
  ultimately show ?thesis by blast
qed

text \<open>Loading: every directory whose configuration can be read is a VM, and running VMs come back stopped.\<close>

definition recovered :: "Serde \<Rightarrow> Disk \<Rightarrow> string \<Rightarrow> (string \<times> VmConfig \<times> VmState) option" where
  "recovered S d vid = map_option (\<lambda>c. (vid, c, clamp_state (stored_raw S d vid))) (stored_config S d vid)"

lemma recovered_ops [simp]: "recovered S (d\<lparr>disk_ops := n\<rparr>) vid = recovered S d vid"
  by (simp add: recovered_def stored_config_def stored_raw_def)

lemma load_entry_healthy:
  assumes "healthy d" "plain_id vid"
  shows "\<exists>n. load_entry S d vid = (d\<lparr>disk_ops := n\<rparr>, recovered S d vid)"
proof -
  let ?d = "\<lambda>k. d\<lparr>disk_ops := k\<rparr>"
  have h: "healthy (?d k)" for k using assms(1) by simp
  have c: "fs_call (?d k) = (?d (Suc k), None)" for k using healthy_call [OF h] by simp
  have c0: "fs_call d = (?d (Suc (disk_ops d)), None)" by (rule healthy_call [OF assms(1)])
  have r: "fs_read_to_string (?d k) p f = (?d (Suc k), Option.bind (get_dir d p) f)" for k p and f :: "VmDir \<Rightarrow> string option"
    using fs_read_healthy [OF h] by simp
  have l: "load_raw_state S (?d k) vid = (?d (Suc k), stored_raw S d vid)" for k
    using load_raw_healthy [OF h] by (simp add: stored_raw_def)
  show ?thesis
    using vm_dir_plain [OF assms(2)]
    by (auto simp: load_entry_def c0 c r l recovered_def stored_config_def simp del: bind_assoc split: option.split)
qed

lemma load_entries_healthy:
  assumes "healthy d" "list_all plain_id ids"
  shows "\<exists>n. load_entries S d ids rs = (d\<lparr>disk_ops := n\<rparr>, rs @ List.map_filter (recovered S d) ids)"
  using assms
proof (induction ids arbitrary: d rs)
  case Nil
  show ?case by (simp, rule exI [of _ "disk_ops d"]) simp
next
  case (Cons vid ids)
  obtain n where n: "load_entry S d vid = (d\<lparr>disk_ops := n\<rparr>, recovered S d vid)"
    using load_entry_healthy [of d vid S] Cons.prems by auto
  have "recovered S (d\<lparr>disk_ops := n\<rparr>) = recovered S d" by (simp add: fun_eq_iff)
  then show ?case
    using n Cons.IH [of "d\<lparr>disk_ops := n\<rparr>" "rs @ [the (recovered S d vid)]"] Cons.IH [of "d\<lparr>disk_ops := n\<rparr>" rs] Cons.prems
    by (cases "recovered S d vid") auto
qed

lemma keyed_filter:
  assumes "\<And>x y. g x = Some y \<Longrightarrow> fst y = x"
  shows "map_of (List.map_filter g xs) x = (if x \<in> set xs then map_option snd (g x) else None)"
    and "fst ` set (List.map_filter g xs) \<subseteq> set xs"
    and "distinct xs \<Longrightarrow> distinct (map fst (List.map_filter g xs))"
proof (induction xs)
  case (Cons z zs)
  show "map_of (List.map_filter g (z # zs)) x = (if x \<in> set (z # zs) then map_option snd (g x) else None)"
    using Cons(1) assms [of z] by (cases "g z") (auto split: if_splits)
  show "fst ` set (List.map_filter g (z # zs)) \<subseteq> set (z # zs)"
    using Cons(2) assms [of z] by (cases "g z") auto
  show "distinct (map fst (List.map_filter g (z # zs)))" if "distinct (z # zs)"
    using Cons(2,3) assms [of z] that by (cases "g z") auto
qed simp_all

lemma load_all_healthy:
  assumes "healthy d"
  shows "\<exists>n rs. load_all S d = (d\<lparr>disk_ops := n\<rparr>, Inr rs) \<and> distinct (map fst rs) \<and>
    (\<forall>vid. map_of rs vid = (if plain_id vid then map_option snd (recovered S d vid) else None))"
proof -
  let ?ids = "List.map_filter (dir_name \<circ> fst) (disk_dirs d)"
  have ids: "set ?ids = {n. get_dir d (SubDir n) \<noteq> None}"
  proof -
    have "dir_name p = Some n \<longleftrightarrow> p = SubDir n" for p n by (cases p) auto
    then show ?thesis by (force simp: List.map_filter_def get_dir_def map_of_eq_None_iff image_iff)
  qed
  have dis: "distinct ?ids"
  proof -
    have "inj_on (the \<circ> (dir_name \<circ> fst)) {x \<in> set (disk_dirs d). (dir_name \<circ> fst) x \<noteq> None}"
    proof (rule inj_onI)
      fix x y assume xy: "x \<in> {x \<in> set (disk_dirs d). (dir_name \<circ> fst) x \<noteq> None}" "y \<in> {x \<in> set (disk_dirs d). (dir_name \<circ> fst) x \<noteq> None}"
        "(the \<circ> (dir_name \<circ> fst)) x = (the \<circ> (dir_name \<circ> fst)) y"
      then have "fst x = fst y" by (cases "fst x"; cases "fst y") auto
      moreover have "inj_on fst (set (disk_dirs d))" using assms by (simp add: healthy_def disk_ok_def distinct_map)
      ultimately show "x = y" using xy by (auto dest: inj_onD)
    qed
    moreover have "distinct (disk_dirs d)" using assms by (auto simp: healthy_def disk_ok_def distinct_map)
    ultimately show ?thesis by (simp add: List.map_filter_def distinct_map)
  qed
  have pl: "list_all plain_id ?ids"
    using assms unfolding list_all_iff ids by (auto simp: healthy_def disk_ok_def)
  have "recovered S (d\<lparr>disk_ops := Suc (disk_ops d)\<rparr>) = recovered S d" by (simp add: fun_eq_iff)
  then obtain n where n: "load_entries S (d\<lparr>disk_ops := Suc (disk_ops d)\<rparr>) ?ids [] = (d\<lparr>disk_ops := n\<rparr>, List.map_filter (recovered S d) ?ids)"
    using load_entries_healthy [of "d\<lparr>disk_ops := Suc (disk_ops d)\<rparr>" ?ids S "[]"] assms pl by auto
  then have l: "load_all S d = (d\<lparr>disk_ops := n\<rparr>, Inr (List.map_filter (recovered S d) ?ids))"
    by (simp add: load_all_def healthy_call [OF assms])
  note k = keyed_filter [of "recovered S d"]
  have g: "recovered S d x = Some y \<Longrightarrow> fst y = x" for x y by (auto simp: recovered_def)
  have none: "recovered S d vid = None" if "plain_id vid" "vid \<notin> set ?ids" for vid
    using that unfolding ids by (simp add: recovered_def stored_config_def vm_dir_plain)
  have "map_of (List.map_filter (recovered S d) ?ids) vid = (if plain_id vid then map_option snd (recovered S d vid) else None)" for vid
    using k(1) [OF g] none [of vid] pl by (auto simp: list_all_iff)
  with l k(3) [OF g dis] show ?thesis by blast
qed

end
