(* ===== verification/Cpio.thy ===== *)
theory Cpio
  imports Boot_Types
begin

text \<open>
  The newc archive builder (\<open>hitz-boot/src/cpio.rs\<close>). A name is its UTF-8 bytes. The header length
  assertion and the overflow check of the inode counter are panics, here \<open>None\<close>. A reader of the
  format, written from its description, gives the archive its meaning.
\<close>

section \<open>Model\<close>

record CpioBuilder =
  cpio_data :: bytes
  cpio_inode :: u32

definition cpio_new :: CpioBuilder where
  "cpio_new = \<lparr>cpio_data = [], cpio_inode = 1\<rparr>"

definition hex8 :: "u32 \<Rightarrow> string" where
  "hex8 w = pad_zero 8 (show_hex (unat w))"

definition cpio_header :: "u32 \<Rightarrow> u32 \<Rightarrow> u32 \<Rightarrow> u32 \<Rightarrow> bytes" where
  "cpio_header inode mode filesize32 namesize32 =
     ascii_bytes (''070701'' @ hex8 inode @ hex8 mode @ hex8 0 @ hex8 0 @ hex8 1 @ hex8 0 @ hex8 filesize32 @
       hex8 0 @ hex8 0 @ hex8 0 @ hex8 0 @ hex8 namesize32 @ hex8 0)"

definition append_entry :: "CpioBuilder \<Rightarrow> bytes \<Rightarrow> bytes \<Rightarrow> u32 \<Rightarrow> CpioBuilder option" where
  "append_entry b name content mode =
     (let namesize = length name + 1;
          filesize = length content;
          namesize32 = of_nat namesize;
          filesize32 = of_nat filesize;
          start_len = length (cpio_data b);
          data = cpio_data b @ cpio_header (cpio_inode b) mode filesize32 namesize32
      in if length data - start_len \<noteq> 110 then None
         else case checked_add (cpio_inode b) 1 of
           None \<Rightarrow> None
         | Some inode \<Rightarrow>
             let data = data @ name @ [0];
                 name_total = 110 + namesize;
                 name_pad = (4 - name_total mod 4) mod 4;
                 data = data @ replicate name_pad 0;
                 data = data @ content;
                 data_pad = (4 - filesize mod 4) mod 4
             in Some \<lparr>cpio_data = data @ replicate data_pad 0, cpio_inode = inode\<rparr>)"

definition cpio_add_file :: "CpioBuilder \<Rightarrow> bytes \<Rightarrow> bytes \<Rightarrow> u32 \<Rightarrow> CpioBuilder option" where
  "cpio_add_file b path content mode = append_entry b path content (0x8000 OR (mode AND 0xFFF))"

definition cpio_finish :: "CpioBuilder \<Rightarrow> bytes option" where
  "cpio_finish b = map_option cpio_data (append_entry b (ascii_bytes ''TRAILER!!!'') [] 0)"

text \<open>A client: the files are added in order and the archive is finished.\<close>

record CpioFile =
  file_path :: bytes
  file_content :: bytes
  file_mode :: u32

fun cpio_add_files :: "CpioBuilder \<Rightarrow> CpioFile list \<Rightarrow> CpioBuilder option" where
  "cpio_add_files b [] = Some b"
| "cpio_add_files b (f # fs) =
     (case cpio_add_file b (file_path f) (file_content f) (file_mode f) of
        None \<Rightarrow> None
      | Some b \<Rightarrow> cpio_add_files b fs)"

definition cpio_archive :: "CpioFile list \<Rightarrow> bytes option" where
  "cpio_archive fs = Option.bind (cpio_add_files cpio_new fs) cpio_finish"

section \<open>Reading an archive\<close>

text \<open>
  The format: a header of 110 ASCII characters, the magic and thirteen fields of eight hexadecimal
  digits; the name with its terminating zero; padding to a multiple of four; the data; padding to a
  multiple of four. The entry named \<open>TRAILER!!!\<close> ends the archive.
\<close>

definition header_field :: "bytes \<Rightarrow> nat \<Rightarrow> nat option" where
  "header_field bs k = parse_digits 16 (2 ^ 32) 0 (map (\<lambda>b. char_of (unat b)) (take 8 (drop (6 + 8 * k) bs)))"

definition round4 :: "nat \<Rightarrow> nat" where
  "round4 n = (n + 3) div 4 * 4"

definition read_entry :: "bytes \<Rightarrow> (bytes \<times> bytes \<times> nat \<times> bytes) option" where
  "read_entry bs =
     (if take 6 bs \<noteq> ascii_bytes ''070701'' then None
      else case (header_field bs 1, header_field bs 6, header_field bs 11) of
        (Some mode, Some filesize, Some namesize) \<Rightarrow>
          let data_off = round4 (110 + namesize); next_off = data_off + round4 filesize in
          if namesize = 0 \<or> length bs < next_off \<or> bs ! (110 + namesize - 1) \<noteq> 0 then None
          else Some (take (namesize - 1) (drop 110 bs), take filesize (drop data_off bs), mode, drop next_off bs)
      | _ \<Rightarrow> None)"

lemma read_entry_shorter: "read_entry bs = Some (nm, c, m, rest) \<Longrightarrow> length rest < length bs"
proof (rule ccontr)
  assume r: "read_entry bs = Some (nm, c, m, rest)" and n: "\<not> length rest < length bs"
  then obtain k where k: "rest = drop k bs" "k \<le> length bs" "110 \<le> k"
    by (auto simp: read_entry_def Let_def round4_def split: if_splits option.splits)
  then show False using n by simp
qed

function read_archive :: "bytes \<Rightarrow> CpioFile list option" where
  "read_archive bs =
     (case read_entry bs of
        None \<Rightarrow> None
      | Some (nm, c, m, rest) \<Rightarrow>
          if nm = ascii_bytes ''TRAILER!!!'' then Some []
          else map_option (Cons \<lparr>file_path = nm, file_content = c, file_mode = of_nat m\<rparr>) (read_archive rest))"
  by pat_completeness auto
termination
  by (relation "measure length") (auto dest: read_entry_shorter)


declare read_archive.simps [simp del]

section \<open>Entries\<close>

definition pad4 :: "nat \<Rightarrow> bytes" where
  "pad4 n = replicate ((4 - n mod 4) mod 4) 0"

definition entry_bytes :: "u32 \<Rightarrow> bytes \<Rightarrow> bytes \<Rightarrow> u32 \<Rightarrow> bytes" where
  "entry_bytes inode name content mode =
     cpio_header inode mode (of_nat (length content)) (of_nat (length name + 1)) @ name @ [0] @
     pad4 (110 + (length name + 1)) @ content @ pad4 (length content)"

lemma length_pad4: "n + length (pad4 n) = round4 n"
proof -
  have "(n + 3) div 4 = n div 4 + (n mod 4 + 3) div 4"
    using div_mult_self1 [of 4 "n mod 4 + 3" "n div 4"] by (simp add: ac_simps)
  moreover have "n mod 4 + (4 - n mod 4) mod 4 = (n mod 4 + 3) div 4 * 4"
  proof -
    have "n mod 4 < 4" by simp
    then consider "n mod 4 = 0" | "n mod 4 = 1" | "n mod 4 = 2" | "n mod 4 = 3" by linarith
    then show ?thesis by cases simp_all
  qed
  moreover have "n = n div 4 * 4 + n mod 4" by simp
  ultimately show ?thesis unfolding pad4_def round4_def length_replicate by (metis add.assoc add_mult_distrib)
qed

lemma length_hex8 [simp]: "length (hex8 w) = 8"
  using length_show_radix_le [of 16 "unat w" 8] unat_u32_less [of w]
  by (simp add: hex8_def show_hex_def length_pad_zero)

lemma length_cpio_header [simp]: "length (cpio_header i m f n) = 110"
  by (simp add: cpio_header_def)

lemma take_drop_concat:
  assumes "\<forall>x\<in>set xss. length x = n" "k < length xss"
  shows "take n (drop (n * k) (concat xss @ ys)) = xss ! k"
  using assms
proof (induction xss arbitrary: k)
  case (Cons x xss)
  then show ?case by (cases k) simp_all
qed simp

lemma chars_of_ascii_bytes: "map (\<lambda>b. char_of (unat b)) (ascii_bytes s) = s"
  by (induction s) (simp_all add: ascii_bytes_def unat_of_nat take_bit_nat_eq_self [of 8])

lemma cpio_header_fields:
  "cpio_header inode mode fs ns = ascii_bytes ''070701'' @
     concat (map (\<lambda>w. ascii_bytes (hex8 w)) [inode, mode, 0, 0, 1, 0, fs, 0, 0, 0, 0, ns, 0])"
  by (simp add: cpio_header_def ascii_bytes_def)

lemma header_field_entry:
  assumes "k < 13"
  shows "header_field (cpio_header inode mode fs ns @ ys) k =
     Some (unat ([inode, mode, 0, 0, 1, 0, fs, 0, 0, 0, 0, ns, 0] ! k))"
proof -
  define ws where "ws = [inode, mode, 0, 0, 1, 0, fs, 0, 0, 0, 0, ns, 0]"
  have "take 8 (drop (8 * k) (concat (map (\<lambda>w. ascii_bytes (hex8 w)) ws) @ ys)) = map (\<lambda>w. ascii_bytes (hex8 w)) ws ! k"
    using assms by (intro take_drop_concat) (auto simp: ws_def)
  also have "\<dots> = ascii_bytes (hex8 (ws ! k))" using assms by (intro nth_map) (simp add: ws_def)
  finally have "take 8 (drop (6 + 8 * k) (cpio_header inode mode fs ns @ ys)) = ascii_bytes (hex8 (ws ! k))"
    unfolding cpio_header_fields ws_def [symmetric] by simp
  then have "header_field (cpio_header inode mode fs ns @ ys) k = Some (unat (ws ! k))"
    using parse_pad_zero [of 16 "unat (ws ! k)" "2 ^ 32" 8] unat_u32_less [of "ws ! k"]
    by (simp add: header_field_def chars_of_ascii_bytes hex8_def show_hex_def)
  then show ?thesis by (simp add: ws_def)
qed

lemma append_entry_bytes:
  assumes "unat (cpio_inode b) + 1 < 2 ^ 32"
  shows "append_entry b name content mode =
    Some \<lparr>cpio_data = cpio_data b @ entry_bytes (cpio_inode b) name content mode, cpio_inode = cpio_inode b + 1\<rparr>"
  using assms by (simp add: append_entry_def checked_add_def Let_def entry_bytes_def pad4_def)

lemma read_entry_bytes:
  assumes "length name + 1 < 2 ^ 32" "length content < 2 ^ 32"
  shows "read_entry (entry_bytes inode name content mode @ rest) = Some (name, content, unat mode, rest)"
proof -
  define h where "h = cpio_header inode mode (of_nat (length content)) (of_nat (length name + 1))"
  define p where "p = h @ name @ [0] @ pad4 (110 + (length name + 1))"
  define c where "c = content @ pad4 (length content)"
  have e: "entry_bytes inode name content mode @ rest = p @ c @ rest" by (simp add: entry_bytes_def h_def p_def c_def)
  have lh: "length h = 110" by (simp add: h_def)
  have lp: "length p = round4 (110 + (length name + 1))" using length_pad4 [of "110 + (length name + 1)"] lh by (simp add: p_def)
  have lc: "length c = round4 (length content)" using length_pad4 [of "length content"] by (simp add: c_def)
  have u: "unat (of_nat (length content) :: u32) = length content" "unat (of_nat (length name + 1) :: u32) = length name + 1"
    by (rule unat_of_nat_eq, use assms in simp)+
  have f: "header_field (p @ c @ rest) 1 = Some (unat mode)" "header_field (p @ c @ rest) 6 = Some (length content)"
    "header_field (p @ c @ rest) 11 = Some (length name + 1)"
    using u by (simp_all add: p_def h_def header_field_entry)
  have m: "take 6 (p @ c @ rest) = ascii_bytes ''070701''" by (simp add: p_def h_def cpio_header_fields)
  have z: "(p @ c @ rest) ! (110 + (length name + 1) - 1) = 0" by (simp add: p_def lh nth_append)
  have n: "take (length name) (drop 110 (p @ c @ rest)) = name" by (simp add: p_def lh)
  have d: "take (length content) (drop (length p) (p @ c @ rest)) = content" by (simp add: c_def)
  have r: "drop (length p + length c) (p @ c @ rest) = rest" by simp
  show ?thesis unfolding e using f m z n d r lp lc by (simp add: read_entry_def Let_def)
qed

section \<open>Property\<close>

definition file_ok :: "CpioFile \<Rightarrow> bool" where
  "file_ok f \<longleftrightarrow> length (file_path f) + 1 < 2 ^ 32 \<and> length (file_content f) < 2 ^ 32 \<and>
     file_path f \<noteq> ascii_bytes ''TRAILER!!!''"

text \<open>What a reader gets for a file: the mode with the regular-file type in place of the caller's type bits.\<close>

definition as_regular :: "CpioFile \<Rightarrow> CpioFile" where
  "as_regular f = f\<lparr>file_mode := 0x8000 OR (file_mode f AND 0xFFF)\<rparr>"

fun files_bytes :: "u32 \<Rightarrow> CpioFile list \<Rightarrow> bytes" where
  "files_bytes i [] = []"
| "files_bytes i (f # fs) =
     entry_bytes i (file_path f) (file_content f) (file_mode (as_regular f)) @ files_bytes (i + 1) fs"

lemma cpio_add_files_bytes:
  assumes "unat (cpio_inode b) + length fs < 2 ^ 32"
  shows "cpio_add_files b fs =
    Some \<lparr>cpio_data = cpio_data b @ files_bytes (cpio_inode b) fs, cpio_inode = cpio_inode b + of_nat (length fs)\<rparr>"
  using assms
proof (induction fs arbitrary: b)
  case (Cons f fs)
  let ?b = "\<lparr>cpio_data = cpio_data b @ entry_bytes (cpio_inode b) (file_path f) (file_content f) (file_mode (as_regular f)),
    cpio_inode = cpio_inode b + 1\<rparr>"
  have i: "unat (cpio_inode b) + 1 < 2 ^ LENGTH(32)" using Cons.prems by simp
  then have "unat (cpio_inode b + 1) = unat (cpio_inode b) + 1" using unat_add_nowrap [of "cpio_inode b" 1] by simp
  then have "cpio_add_files ?b fs = Some \<lparr>cpio_data = cpio_data ?b @ files_bytes (cpio_inode ?b) fs,
      cpio_inode = cpio_inode ?b + of_nat (length fs)\<rparr>"
    using Cons.prems by (intro Cons.IH) simp
  moreover have "cpio_add_file b (file_path f) (file_content f) (file_mode f) = Some ?b"
    using append_entry_bytes [of b] i by (simp add: cpio_add_file_def as_regular_def)
  ultimately show ?case by (simp add: add.assoc)
qed simp

lemma read_archive_bytes:
  assumes "list_all file_ok fs"
  shows "read_archive (files_bytes i fs @ entry_bytes j (ascii_bytes ''TRAILER!!!'') [] 0) = Some (map as_regular fs)"
  using assms
proof (induction fs arbitrary: i)
  case Nil
  then show ?case
    using read_entry_bytes [of "ascii_bytes ''TRAILER!!!''" "[]" j 0 "[]"] by (simp add: read_archive.simps)
next
  case (Cons f fs)
  let ?rest = "files_bytes (i + 1) fs @ entry_bytes j (ascii_bytes ''TRAILER!!!'') [] 0"
  have "read_entry (files_bytes i (f # fs) @ entry_bytes j (ascii_bytes ''TRAILER!!!'') [] 0) =
      Some (file_path f, file_content f, unat (file_mode (as_regular f)), ?rest)"
    using Cons.prems read_entry_bytes [of "file_path f" "file_content f" i "file_mode (as_regular f)" ?rest]
    by (simp add: file_ok_def)
  moreover have "\<lparr>file_path = file_path f, file_content = file_content f, file_mode = of_nat (unat (file_mode (as_regular f)))\<rparr> = as_regular f"
    by (simp add: as_regular_def)
  ultimately show ?case
    using Cons by (subst read_archive.simps) (simp add: file_ok_def)
qed

lemma archive_readable:
  assumes "list_all file_ok fs" "length fs < 2 ^ 32 - 2"
  shows "\<exists>archive. cpio_archive fs = Some archive \<and> 4 dvd length archive \<and> read_archive archive = Some (map as_regular fs)"
proof -
  define b where "b = \<lparr>cpio_data = files_bytes 1 fs, cpio_inode = 1 + of_nat (length fs)\<rparr>"
  have "cpio_add_files cpio_new fs = Some b"
    using cpio_add_files_bytes [of cpio_new fs] assms(2) by (simp add: cpio_new_def b_def)
  moreover have "unat (cpio_inode b) + 1 < 2 ^ 32"
    using unat_add_of_nat [of "1 :: u32" "length fs"] assms(2) by (simp add: b_def)
  ultimately have "cpio_archive fs =
      Some (files_bytes 1 fs @ entry_bytes (cpio_inode b) (ascii_bytes ''TRAILER!!!'') [] 0)"
    using append_entry_bytes [of b] by (simp add: cpio_archive_def cpio_finish_def b_def)
  moreover have d: "4 dvd length (entry_bytes i n c m)" for i n c m
  proof -
    have "length (entry_bytes i n c m) = round4 (110 + (length n + 1)) + round4 (length c)"
      using length_pad4 [of "110 + (length n + 1)"] length_pad4 [of "length c"] by (simp add: entry_bytes_def)
    then show ?thesis by (simp add: round4_def)
  qed
  moreover have "4 dvd length (files_bytes i fs)" for i by (induction fs arbitrary: i) (simp_all add: d)
  ultimately show ?thesis using read_archive_bytes [OF assms(1)] by simp
qed

text \<open>Round trip of archives. For any files with paths and contents below 4 GiB, none of them named
  like the trailer, building the archive succeeds, its length is a multiple of four, and a reader of
  the newc format finds exactly these files in order, with their contents and permission bits and
  marked as regular files.\<close>

theorem cpio_roundtrip:
  assumes "list_all file_ok fs" "length fs < 2 ^ 32 - 2"
  shows "\<exists>archive. cpio_archive fs = Some archive \<and> 4 dvd length archive \<and> read_archive archive = Some (map as_regular fs)"
  by (rule archive_readable [OF assms])

theorem cpio_roundtrip_witness:
  "\<exists>archive. cpio_archive [\<lparr>file_path = ascii_bytes ''init'', file_content = [35, 33], file_mode = 0x1ED\<rparr>] = Some archive \<and>
     read_archive archive = Some [\<lparr>file_path = ascii_bytes ''init'', file_content = [35, 33], file_mode = 0x81ED\<rparr>]"
  using cpio_roundtrip [of "[\<lparr>file_path = ascii_bytes ''init'', file_content = [35, 33], file_mode = 0x1ED\<rparr>]"]
  by (auto simp: file_ok_def as_regular_def ascii_bytes_def)

end
