(* ===== verification/Agent.thy ===== *)
theory Agent
  imports Cpio Daemon_Types
begin

text \<open>
  The guest agent overlay (\<open>hitz-daemon/src/agent.rs\<close> and \<open>inject_guest_agent\<close> of
  \<open>hitz-daemon/src/vm_manager.rs\<close>): the agent binary and its start script are put into an archive
  behind the initramfs of the VM. The embedded binary is a file of the build; it, the temporary
  directory and writing to it are parameters.
\<close>

record AgentHost =
  agent_bin :: bytes
  temp_file :: "string \<Rightarrow> Path"
  temp_write :: "Path \<Rightarrow> bytes \<Rightarrow> bool"

definition INIT_SCRIPT :: bytes where
  "INIT_SCRIPT = ascii_bytes (''#!/bin/sh'' @ [CHR 0x0A] @ ''/sbin/hitz-agent &'' @ [CHR 0x0A])"

definition build_agent_overlay :: "bytes \<Rightarrow> bytes option" where
  "build_agent_overlay agent_bytes =
     Option.bind (cpio_add_file cpio_new (ascii_bytes ''sbin/hitz-agent'') agent_bytes 0x1ED) (\<lambda>b.
     Option.bind (cpio_add_file b (ascii_bytes ''etc/init.d/S99hitz-agent'') INIT_SCRIPT 0x1ED) cpio_finish)"

definition resolve_agent_bytes :: "AgentHost \<Rightarrow> HostFs \<Rightarrow> GuestAgentMode \<Rightarrow> bytes option" where
  "resolve_agent_bytes A H mode =
     (case mode of
        Disabled \<Rightarrow> None
      | Auto \<Rightarrow> if agent_bin A = [] then None else Some (agent_bin A)
      | Custom path \<Rightarrow> (case fs_read H path of Inr bytes \<Rightarrow> Some bytes | Inl e \<Rightarrow> None))"

text \<open>The file written, if any, and the configuration to boot. Building the archive does not panic (below).\<close>

definition combined_initramfs :: "HostFs \<Rightarrow> VmConfig \<Rightarrow> bytes \<Rightarrow> bytes" where
  "combined_initramfs H config overlay =
     (case cfg_initramfs_path config of
        None \<Rightarrow> []
      | Some path \<Rightarrow> (case fs_read H path of Inr data \<Rightarrow> data | Inl e \<Rightarrow> [])) @ overlay"

definition inject_guest_agent :: "AgentHost \<Rightarrow> HostFs \<Rightarrow> VmConfig \<Rightarrow> string \<Rightarrow> (VmConfig \<times> (Path \<times> bytes) option) option" where
  "inject_guest_agent A H config vid =
     (case resolve_agent_bytes A H (cfg_guest_agent config) of
        None \<Rightarrow> Some (config, None)
      | Some agent_bytes \<Rightarrow>
          Option.bind (build_agent_overlay agent_bytes) (\<lambda>overlay.
          let combined = combined_initramfs H config overlay;
              tmp = temp_file A (''hitz-initrd-'' @ vid @ ''.cpio'')
          in if temp_write A tmp combined then Some (config\<lparr>cfg_initramfs_path := Some tmp\<rparr>, Some (tmp, combined))
             else Some (config, None)))"

section \<open>The overlay\<close>

definition agent_files :: "bytes \<Rightarrow> CpioFile list" where
  "agent_files agent_bytes =
     [\<lparr>file_path = ascii_bytes ''sbin/hitz-agent'', file_content = agent_bytes, file_mode = 0x1ED\<rparr>,
      \<lparr>file_path = ascii_bytes ''etc/init.d/S99hitz-agent'', file_content = INIT_SCRIPT, file_mode = 0x1ED\<rparr>]"

lemma build_agent_overlay_files: "build_agent_overlay b = cpio_archive (agent_files b)"
  by (auto simp: build_agent_overlay_def cpio_archive_def agent_files_def split: option.split bind_splits)

text \<open>The archive holds the agent and its script; it can be built from any binary below 4 GiB.\<close>

lemma agent_overlay_readable:
  assumes "length b < 2 ^ 32"
  shows "\<exists>overlay. build_agent_overlay b = Some overlay \<and> 4 dvd length overlay \<and>
    read_archive overlay = Some (map as_regular (agent_files b))"
  unfolding build_agent_overlay_files
  by (rule archive_readable) (use assms in \<open>simp_all add: agent_files_def file_ok_def INIT_SCRIPT_def ascii_bytes_def\<close>)

lemma inject_guest_agent_runs: "length (agent_bin A) < 2 ^ 32 \<Longrightarrow> cfg_guest_agent config = Auto \<Longrightarrow> inject_guest_agent A H config vid \<noteq> None"
  using agent_overlay_readable [of "agent_bin A"] by (auto simp: inject_guest_agent_def resolve_agent_bytes_def Let_def)

end
