(* ===== verification/Serial_Buf.thy ===== *)
theory Serial_Buf
  imports Hitz_Prelude
begin

text \<open>
  The serial output ring of \<open>hitz-vmm/src/serial_buf.rs\<close>: writers append with at most two bulk copies,
  independent readers follow with their own position and skip what was overwritten. Positions are
  natural numbers: the byte counter of the code is 64 bits wide and reaches its end only after
  \<open>2\<^sup>6\<^sup>4\<close> bytes of console output. The mutex makes each operation atomic. The refinement: the ring always
  holds the end of the stream of everything written.
\<close>

section \<open>Model\<close>

record Inner =
  rb_buf :: bytes
  rb_write_pos :: nat
  rb_total_written :: nat
  rb_closed :: bool

definition DEFAULT_CAPACITY :: nat where
  "DEFAULT_CAPACITY = 64 * 1024"

definition serial_with_capacity :: "nat \<Rightarrow> Inner option" where
  "serial_with_capacity capacity =
     (if 0 < capacity
      then Some \<lparr>rb_buf = replicate capacity 0, rb_write_pos = 0, rb_total_written = 0, rb_closed = False\<rparr>
      else None)"

definition serial_reader :: "Inner \<Rightarrow> nat" where
  "serial_reader inner = rb_total_written inner"

definition serial_close :: "Inner \<Rightarrow> Inner" where
  "serial_close inner = inner\<lparr>rb_closed := True\<rparr>"

definition serial_write :: "Inner \<Rightarrow> bytes \<Rightarrow> Inner \<times> nat" where
  "serial_write inner data =
     (let cap = length (rb_buf inner); len = length data;
          data_to_write = (if cap < len then drop (len - cap) data else data);
          write_len = length data_to_write;
          skipped = len - cap;
          pos = (rb_write_pos inner + skipped) mod cap;
          space_to_end = cap - pos;
          inner' =
            (if write_len \<le> space_to_end
             then inner\<lparr>rb_buf := copy_at (rb_buf inner) pos data_to_write, rb_write_pos := (pos + write_len) mod cap\<rparr>
             else let remaining = write_len - space_to_end in
               inner\<lparr>rb_buf := copy_at (copy_at (rb_buf inner) pos (take space_to_end data_to_write)) 0
                        (drop space_to_end data_to_write),
                     rb_write_pos := remaining\<rparr>)
      in (inner'\<lparr>rb_total_written := rb_total_written inner + len\<rparr>, len))"

text \<open>One pass of the loop of \<open>read_chunk\<close>: a chunk, the end of a closed buffer, or parking.\<close>

datatype ReadPoll = Chunk bytes | Ended | Parked

definition read_chunk :: "Inner \<Rightarrow> nat \<Rightarrow> nat \<times> ReadPoll" where
  "read_chunk inner read_pos =
     (if read_pos < rb_total_written inner then
        let available = rb_total_written inner - read_pos; cap = length (rb_buf inner);
            read_pos = (if cap < available then rb_total_written inner - cap else read_pos);
            to_read = rb_total_written inner - read_pos;
            res = (if 0 < to_read then
                     let start = (rb_write_pos inner + cap - to_read mod cap) mod cap in
                     if start + to_read \<le> cap then take to_read (drop start (rb_buf inner))
                     else drop start (rb_buf inner) @ take (to_read - (cap - start)) (rb_buf inner)
                   else [])
        in (rb_total_written inner, Chunk res)
      else if rb_closed inner then (read_pos, Ended)
      else (read_pos, Parked))"

section \<open>The ring holds the end of the stream\<close>

definition ring_holds :: "Inner \<Rightarrow> bytes \<Rightarrow> bool" where
  "ring_holds inner h \<longleftrightarrow>
     (let cap = length (rb_buf inner) in
      0 < cap \<and> rb_total_written inner = length h \<and> rb_write_pos inner = length h mod cap \<and>
      (\<forall>i<length h. length h \<le> i + cap \<longrightarrow> rb_buf inner ! (i mod cap) = h ! i))"

lemma ring_holds_new: "serial_with_capacity cap = Some r \<Longrightarrow> ring_holds r []"
  by (auto simp: serial_with_capacity_def ring_holds_def Let_def split: if_splits)

lemma ring_copy_nth:
  assumes "p < cap" "length buf = cap" "length d \<le> cap" "j < cap"
  shows "(if length d \<le> cap - p then copy_at buf p d
          else copy_at (copy_at buf p (take (cap - p) d)) 0 (drop (cap - p) d)) ! j =
    (let k = (j + cap - p) mod cap in if k < length d then d ! k else buf ! j)"
proof -
  have k: "(j + cap - p) mod cap = (if p \<le> j then j - p else j + cap - p)"
  proof (cases "p \<le> j")
    case True
    then have "j + cap - p = (j - p) + cap" using assms(1) by simp
    then show ?thesis using True assms(4) by (simp only: mod_add_self2) simp
  qed (use assms in simp)
  show ?thesis
  proof (cases "length d \<le> cap - p")
    case True
    then show ?thesis using assms k by (auto simp: nth_copy_at Let_def)
  next
    case False
    then have "length (copy_at buf p (take (cap - p) d)) = cap" using assms by (simp add: min_def)
    with False show ?thesis using assms k
      by (auto simp: nth_copy_at Let_def min_def add.commute)
  qed
qed

lemma mod_apart: "i < m \<Longrightarrow> m < i + cap \<Longrightarrow> i mod cap \<noteq> m mod (cap :: nat)"
proof
  assume a: "i < m" "m < i + cap" and "i mod cap = m mod cap"
  then have "cap dvd m - i" by (metis less_imp_le mod_eq_dvd_iff_nat)
  with a show False by (auto dest!: dvd_imp_le)
qed

lemma mod_dist:
  assumes "0 < (cap :: nat)"
  shows "((n + k) mod cap + cap - n mod cap) mod cap = k mod cap"
proof -
  have "n mod cap \<le> cap" using assms by (simp add: less_imp_le)
  then have "((n + k) mod cap + cap - n mod cap) mod cap = ((n + k) mod cap + (cap - n mod cap)) mod cap" by simp
  also have "\<dots> = (n + k + (cap - n mod cap)) mod cap" by (simp add: mod_simps)
  also have "n + k + (cap - n mod cap) = k + cap + cap * (n div cap)"
    using \<open>n mod cap \<le> cap\<close> mult_div_mod_eq [of cap n] by linarith
  finally show ?thesis by simp
qed

lemma serial_write_holds:
  assumes "ring_holds r h" "serial_write r data = (r', n)"
  shows "ring_holds r' (h @ data) \<and> n = length data \<and> length (rb_buf r') = length (rb_buf r)"
proof -
  define cap where "cap = length (rb_buf r)"
  define sk where "sk = length data - cap"
  define d where "d = (if cap < length data then drop sk data else data)"
  define p where "p = (length h + sk) mod cap"
  define buf' where "buf' = (if length d \<le> cap - p then copy_at (rb_buf r) p d
    else copy_at (copy_at (rb_buf r) p (take (cap - p) d)) 0 (drop (cap - p) d))"
  have c: "0 < cap" and wp: "rb_write_pos r = length h mod cap" and tw: "rb_total_written r = length h"
    and old: "\<And>i. i < length h \<Longrightarrow> length h \<le> i + cap \<Longrightarrow> rb_buf r ! (i mod cap) = h ! i"
    using assms(1) by (auto simp: ring_holds_def Let_def cap_def)
  have pc: "p < cap" using c by (simp add: p_def)
  have pp: "(rb_write_pos r + sk) mod cap = p" by (simp add: wp p_def mod_simps)
  have dl: "length d = length data - sk" "length d \<le> cap" "\<And>k. k < length d \<Longrightarrow> d ! k = data ! (sk + k)"
    by (auto simp: d_def sk_def)
  have r': "r' = r\<lparr>rb_buf := buf', rb_write_pos := (p + length d) mod cap, rb_total_written := length h + length data\<rparr>"
    and n: "n = length data"
  proof -
    have "\<not> length d \<le> cap - p \<Longrightarrow> length d - (cap - p) = (p + length d) mod cap"
      using pc dl(2) by (subst mod_if) (auto simp: mod_if add.commute)
    then show "r' = r\<lparr>rb_buf := buf', rb_write_pos := (p + length d) mod cap, rb_total_written := length h + length data\<rparr>"
      "n = length data"
      using assms(2) unfolding serial_write_def Let_def cap_def [symmetric] d_def [symmetric] sk_def [symmetric] pp buf'_def
      by (auto simp: tw)
  qed
  have lb: "length buf' = cap"
    using pc dl(2) by (auto simp: buf'_def cap_def min_def)
  have "sk + length d = length data" using dl(1) by (simp add: sk_def)
  moreover have "(p + length d) mod cap = (length h + (sk + length d)) mod cap"
    by (simp add: p_def mod_simps add.assoc)
  ultimately have "(p + length d) mod cap = (length h + length data) mod cap" by simp
  moreover have "buf' ! (i mod cap) = (h @ data) ! i"
    if i: "i < length h + length data" "length h + length data \<le> i + cap" for i
  proof -
    have nth: "buf' ! (i mod cap) = (let k = (i mod cap + cap - p) mod cap in if k < length d then d ! k else rb_buf r ! (i mod cap))"
      unfolding buf'_def using pc dl(2) c by (intro ring_copy_nth) (simp_all add: cap_def)
    show ?thesis
    proof (cases "length h + sk \<le> i")
      case True
      define k where "k = i - (length h + sk)"
      have ik: "i = length h + sk + k" and kd: "k < length d" using True i dl(1) by (auto simp: k_def sk_def)
      have "(i mod cap + cap - p) mod cap = k"
        using mod_dist [OF c, of "length h + sk" k] kd dl(2) by (simp add: ik p_def)
      with nth kd dl(3) [OF kd] show ?thesis by (simp add: ik nth_append add.assoc)
    next
      case False
      then have s0: "sk = 0" "i < length h" using i by (auto simp: sk_def)
      then have ld: "length d = length data" "p = length h mod cap" using dl(1) by (simp_all add: p_def)
      have "\<not> (i mod cap + cap - p) mod cap < length d"
      proof
        let ?k = "(i mod cap + cap - p) mod cap"
        assume k: "?k < length d"
        have "(p + ?k) mod cap = (p + (i mod cap + cap - p)) mod cap" by (simp add: mod_simps)
        also have "\<dots> = i mod cap" using pc by simp
        finally have "(length h + ?k) mod cap = i mod cap" by (simp add: ld(2) mod_simps)
        then show False using mod_apart [of i "length h + ?k" cap] s0(2) i(2) k ld(1) by simp
      qed
      then show ?thesis using nth old [of i] s0(2) i(2) ld(1) by (simp add: Let_def nth_append)
    qed
  qed
  ultimately show ?thesis using c lb n by (simp add: r' ring_holds_def Let_def cap_def [symmetric])
qed

lemma serial_write_closed: "rb_closed (fst (serial_write r data)) = rb_closed r"
  unfolding serial_write_def Let_def by simp

lemma ring_read:
  assumes "st < cap" "t \<le> cap" "length buf = cap"
  shows "(if st + t \<le> cap then take t (drop st buf) else drop st buf @ take (t - (cap - st)) buf) =
    map (\<lambda>j. buf ! ((st + j) mod cap)) [0..<t]"
proof (rule nth_equalityI)
  fix j assume "j < length (if st + t \<le> cap then take t (drop st buf) else drop st buf @ take (t - (cap - st)) buf)"
  then have j: "j < t" using assms by (auto split: if_splits)
  have "(st + j) mod cap = (if st + j < cap then st + j else st + j - cap)"
    using assms j by (auto simp: mod_if)
  then show "(if st + t \<le> cap then take t (drop st buf) else drop st buf @ take (t - (cap - st)) buf) ! j =
      map (\<lambda>j. buf ! ((st + j) mod cap)) [0..<t] ! j"
    using j assms by (auto simp: nth_append intro!: arg_cong [of _ _ "nth buf"])
qed (use assms in auto)

text \<open>What a reader gets from a ring that holds a stream.\<close>

lemma read_chunk_holds:
  assumes "ring_holds r h" "length (rb_buf r) = cap" "p \<le> length h"
  shows "read_chunk r p =
    (if p < length h then (length h, Chunk (drop (max p (length h - cap)) h)) else (p, if rb_closed r then Ended else Parked))"
proof (cases "p < length h")
  case False
  then show ?thesis using assms by (simp add: read_chunk_def ring_holds_def Let_def)
next
  case True
  have c: "0 < cap" and f: "rb_total_written r = length h" "rb_write_pos r = length h mod cap"
    and nth: "\<And>i. i < length h \<Longrightarrow> length h \<le> i + cap \<Longrightarrow> rb_buf r ! (i mod cap) = h ! i"
    using assms(1,2) by (auto simp: ring_holds_def Let_def)
  define q where "q = max p (length h - cap)"
  define t where "t = length h - q"
  define st where "st = (length h mod cap + cap - t mod cap) mod cap"
  have q: "q < length h" "length h \<le> q + cap" "0 < t" "t \<le> cap" "h = take q h @ drop q h"
    using True c by (auto simp: q_def t_def)
  have st: "st = q mod cap"
    using mod_dist [OF c, of t q] q(1) by (simp add: st_def t_def)
  have "map (\<lambda>j. rb_buf r ! ((st + j) mod cap)) [0..<t] = drop q h"
    using nth q by (intro nth_equalityI) (auto simp: st t_def mod_simps)
  moreover have "(if st + t \<le> cap then take t (drop st (rb_buf r)) else drop st (rb_buf r) @ take (t - (cap - st)) (rb_buf r)) =
      map (\<lambda>j. rb_buf r ! ((st + j) mod cap)) [0..<t]"
    using c q(4) assms(2) by (intro ring_read) (simp_all add: st)
  moreover have "(if cap < length h - p then length h - cap else p) = q"
    using True by (auto simp: q_def max_def)
  ultimately have "read_chunk r p = (length h, Chunk (drop q h))"
    using True q(3) unfolding read_chunk_def f assms(2) Let_def by (simp add: t_def [symmetric] st_def [symmetric] split: if_splits)
  then show ?thesis using True by (simp add: q_def)
qed

lemma serial_close_holds: "ring_holds (serial_close r) h = ring_holds r h"
  by (simp add: ring_holds_def serial_close_def Let_def)

lemma serial_writes_hold:
  assumes "serial_with_capacity cap = Some r0"
  shows "ring_holds (foldl (\<lambda>r w. fst (serial_write r w)) r0 ws) (concat ws) \<and>
    length (rb_buf (foldl (\<lambda>r w. fst (serial_write r w)) r0 ws)) = cap \<and> \<not> rb_closed (foldl (\<lambda>r w. fst (serial_write r w)) r0 ws)"
proof (induction ws rule: rev_induct)
  case Nil
  show ?case using assms ring_holds_new by (auto simp: serial_with_capacity_def split: if_splits)
next
  case (snoc w ws)
  let ?r = "foldl (\<lambda>r w. fst (serial_write r w)) r0 ws"
  obtain r' n where w: "serial_write ?r w = (r', n)" by fastforce
  with serial_write_closed [of ?r w] serial_write_holds [of ?r "concat ws" w] snoc w show ?case by simp
qed

section \<open>Properties\<close>

text \<open>C22: the ring refines the stream of everything written. After any sequence of writes, however they
  wrap around or exceed the capacity, a reader at position \<open>p\<close> gets exactly the bytes written since
  \<open>p\<close>, or the last \<open>cap\<close> of them when more were written, and moves to the end; with nothing unread it
  parks, and ends only when the buffer is closed.\<close>

theorem serial_ring_refines_stream:
  assumes "serial_with_capacity cap = Some r0" "p \<le> length (concat ws)"
  defines "r \<equiv> foldl (\<lambda>r w. fst (serial_write r w)) r0 ws" and "h \<equiv> concat ws"
  shows "read_chunk r p =
      (if p < length h then (length h, Chunk (drop (max p (length h - cap)) h)) else (p, Parked)) \<and>
    read_chunk (serial_close r) p =
      (if p < length h then (length h, Chunk (drop (max p (length h - cap)) h)) else (p, Ended))"
proof -
  note inv = serial_writes_hold [OF assms(1), of ws, folded r_def h_def]
  have p: "p \<le> length h" using assms(2) by (simp add: h_def)
  have "length (rb_buf (serial_close r)) = cap" "rb_closed (serial_close r)" using inv by (simp_all add: serial_close_def)
  with read_chunk_holds [of r h cap p] read_chunk_holds [of "serial_close r" h cap p] inv p show ?thesis
    by (simp add: serial_close_holds)
qed

theorem serial_ring_refines_stream_witness:
  "\<exists>r0. serial_with_capacity 4 = Some r0 \<and>
     read_chunk (foldl (\<lambda>r w. fst (serial_write r w)) r0 [[1, 2, 3], [4, 5, 6]]) 0 = (6, Chunk [3, 4, 5, 6])"
proof -
  obtain r0 where r0: "serial_with_capacity 4 = Some r0" by (simp add: serial_with_capacity_def)
  from serial_ring_refines_stream [OF r0, of 0 "[[1, 2, 3], [4, 5, 6]]", THEN conjunct1] r0 show ?thesis by simp
qed

end
