(* ===== verification/Vm_Manager.thy ===== *)
theory Vm_Manager
  imports State_Store Agent Serial_Buf Run_Loop Boot_Image
begin

text \<open>
  The manager of \<open>hitz-daemon/src/vm_manager.rs\<close>. Every operation takes the lock of the VM map for a
  section and does its file system work outside it, so an operation is two definitions: the section
  under the lock and what follows. The operation itself is their composition; \<open>mg_step\<close> lets
  the parts of concurrent operations and of the VM tasks interleave. The sections under the lock do
  not panic, so that the lock is never poisoned and its error branch is left out. A stop flag and a
  serial buffer are shared between an entry and its task: both name the run they belong to. The map
  is an association list; the order of a listing is unspecified in the code.
\<close>

section \<open>State\<close>

record VmEntry =
  en_config :: VmConfig
  en_state :: VmState
  en_exit_reason :: "string option"
  en_stop_flag :: "nat option"
  en_serial_buf :: "nat option"

record Run =
  run_vm :: string
  run_stop :: bool
  run_serial :: Inner

text \<open>Work in flight: what remains of an operation after its section under the lock, and the VM tasks.\<close>

datatype Pending =
    CreatePersist string VmConfig
  | StartPersist string nat VmConfig
  | DeleteStore string
  | RunTask string nat VmConfig
  | ExitPersist string VmState
  | Notify string

record Manager =
  mg_vms :: "(string \<times> VmEntry) list"
  mg_disk :: Disk
  mg_runs :: "Run list"
  mg_pending :: "Pending list"
  mg_completions :: "string list"
  mg_count :: int

definition to_info :: "VmEntry \<Rightarrow> string \<Rightarrow> VmInfo" where
  "to_info e vid = \<lparr>vi_id = vid, vi_state = en_state e, vi_config = en_config e, vi_exit_reason = en_exit_reason e\<rparr>"

definition lookup_vm :: "Manager \<Rightarrow> string \<Rightarrow> VmEntry option" where
  "lookup_vm mg vid = map_of (mg_vms mg) vid"

definition put_vm :: "Manager \<Rightarrow> string \<Rightarrow> VmEntry \<Rightarrow> Manager" where
  "put_vm mg vid e = mg\<lparr>mg_vms := AList.update vid e (mg_vms mg)\<rparr>"

definition remove_vm :: "Manager \<Rightarrow> string \<Rightarrow> Manager" where
  "remove_vm mg vid = mg\<lparr>mg_vms := AList.delete vid (mg_vms mg)\<rparr>"

definition on_disk :: "(Disk \<Rightarrow> (Disk, DaemonError, 'a) attempt) \<Rightarrow> Manager \<Rightarrow> (Manager, DaemonError, 'a) attempt" where
  "on_disk f mg = (case f (mg_disk mg) of (d, r) \<Rightarrow> (mg\<lparr>mg_disk := d\<rparr>, r))"

definition add_pending :: "Pending \<Rightarrow> Manager \<Rightarrow> Manager" where
  "add_pending p mg = mg\<lparr>mg_pending := mg_pending mg @ [p]\<rparr>"

definition fresh_entry :: "VmConfig \<Rightarrow> VmState \<Rightarrow> VmEntry" where
  "fresh_entry config st = \<lparr>en_config = config, en_state = st, en_exit_reason = None, en_stop_flag = None, en_serial_buf = None\<rparr>"

section \<open>Operations\<close>

definition manager_new :: "Serde \<Rightarrow> Disk \<Rightarrow> Disk \<times> (DaemonError + Manager)" where
  "manager_new S d =
     try_bind (store_new d) (\<lambda>_ d.
     try_bind (load_all S d) (\<lambda>existing d.
     (d, Inr \<lparr>mg_vms = foldl (\<lambda>m (vid, config, st). AList.update vid (fresh_entry config st) m) [] existing,
        mg_disk = d, mg_runs = [], mg_pending = [], mg_completions = [], mg_count = 0\<rparr>)))"

definition valid_id :: "string \<Rightarrow> bool" where
  "valid_id vid \<longleftrightarrow> CHR ''/'' \<notin> set vid \<and> CHR 0x5C \<notin> set vid \<and> \<not> (\<exists>i<length vid. take 2 (drop i vid) = ''..'')"

definition create_insert :: "HostFs \<Rightarrow> string \<Rightarrow> VmConfig \<Rightarrow> Manager \<Rightarrow> (Manager, DaemonError, VmInfo) attempt" where
  "create_insert H vid config mg =
     (if \<not> valid_id vid then (mg, Inl (Internal ''Invalid VM ID''))
      else case validate_config H config of
        Err e \<Rightarrow> (mg, Inl (Vmm e))
      | Panic \<Rightarrow> (mg, Inl (Internal ''''))
      | Ok _ \<Rightarrow>
          if lookup_vm mg vid \<noteq> None then (mg, Inl (AlreadyExists vid))
          else let entry = fresh_entry config Created in (put_vm mg vid entry, Inr (to_info entry vid)))"

definition create_persist :: "Serde \<Rightarrow> string \<Rightarrow> VmConfig \<Rightarrow> Manager \<Rightarrow> (Manager, DaemonError, unit) attempt" where
  "create_persist S vid config mg =
     (case try_bind (on_disk (\<lambda>d. save_config S d vid config) mg) (\<lambda>_. on_disk (\<lambda>d. save_state S d vid Created)) of
        (mg, Inl e) \<Rightarrow> (remove_vm mg vid, Inl e)
      | (mg, Inr _) \<Rightarrow> (mg, Inr ()))"

definition create_vm :: "Serde \<Rightarrow> HostFs \<Rightarrow> string \<Rightarrow> VmConfig \<Rightarrow> Manager \<Rightarrow> (Manager, DaemonError, VmInfo) attempt" where
  "create_vm S H vid config mg =
     try_bind (create_insert H vid config mg) (\<lambda>info mg.
     try_bind (create_persist S vid config mg) (\<lambda>_ mg. (mg, Inr info)))"

definition clone_vm :: "Serde \<Rightarrow> HostFs \<Rightarrow> string \<Rightarrow> string \<Rightarrow> Manager \<Rightarrow> (Manager, DaemonError, VmInfo) attempt" where
  "clone_vm S H src_id dest_id mg =
     (case lookup_vm mg src_id of
        None \<Rightarrow> (mg, Inl (NotFound src_id))
      | Some e \<Rightarrow> create_vm S H dest_id (en_config e) mg)"

definition start_mark :: "string \<Rightarrow> Manager \<Rightarrow> (Manager, DaemonError, VmConfig \<times> nat \<times> VmInfo) attempt" where
  "start_mark vid mg =
     (case lookup_vm mg vid of
        None \<Rightarrow> (mg, Inl (NotFound vid))
      | Some entry \<Rightarrow>
          if en_state entry \<noteq> Created then (mg, Inl (InvalidState vid (en_state entry) ''Created''))
          else
            let r = length (mg_runs mg);
                run = \<lparr>run_vm = vid, run_stop = False, run_serial = the (serial_with_capacity DEFAULT_CAPACITY)\<rparr>;
                entry = entry\<lparr>en_stop_flag := Some r, en_state := Running, en_serial_buf := Some r\<rparr>
            in ((put_vm mg vid entry)\<lparr>mg_runs := mg_runs mg @ [run]\<rparr>, Inr (en_config entry, r, to_info entry vid)))"

text \<open>After the section: the state is saved, the agent injected, and the task spawned.\<close>

definition start_spawn ::
  "Serde \<Rightarrow> AgentHost \<Rightarrow> HostFs \<Rightarrow> string \<Rightarrow> nat \<Rightarrow> VmConfig \<Rightarrow> Manager \<Rightarrow> (Manager, DaemonError, unit) attempt" where
  "start_spawn S A H vid r config mg =
     try_bind (on_disk (\<lambda>d. save_state S d vid Running) mg) (\<lambda>_ mg.
     let boot_config = (case inject_guest_agent A H config vid of None \<Rightarrow> config | Some (c, _) \<Rightarrow> c) in
     (add_pending (RunTask vid r boot_config) (mg\<lparr>mg_count := mg_count mg + 1\<rparr>), Inr ()))"

definition start_vm :: "Serde \<Rightarrow> AgentHost \<Rightarrow> HostFs \<Rightarrow> string \<Rightarrow> Manager \<Rightarrow> (Manager, DaemonError, VmInfo) attempt" where
  "start_vm S A H vid mg =
     try_bind (start_mark vid mg) (\<lambda>(config, r, info) mg.
     try_bind (start_spawn S A H vid r config mg) (\<lambda>_ mg. (mg, Inr info)))"

definition raise_flag :: "nat option \<Rightarrow> Run list \<Rightarrow> Run list" where
  "raise_flag f runs = (case f of None \<Rightarrow> runs | Some r \<Rightarrow> runs[r := (runs ! r)\<lparr>run_stop := True\<rparr>])"

definition stop_vm :: "string \<Rightarrow> Manager \<Rightarrow> (Manager, DaemonError, VmInfo) attempt" where
  "stop_vm vid mg =
     (case lookup_vm mg vid of
        None \<Rightarrow> (mg, Inl (NotFound vid))
      | Some entry \<Rightarrow>
          if en_state entry \<noteq> Running then (mg, Inl (InvalidState vid (en_state entry) ''Running''))
          else (mg\<lparr>mg_runs := raise_flag (en_stop_flag entry) (mg_runs mg)\<rparr>, Inr (to_info entry vid)))"

definition get_vm :: "string \<Rightarrow> Manager \<Rightarrow> DaemonError + VmInfo" where
  "get_vm vid mg = (case lookup_vm mg vid of None \<Rightarrow> Inl (NotFound vid) | Some e \<Rightarrow> Inr (to_info e vid))"

definition list_vms :: "Manager \<Rightarrow> VmInfo list" where
  "list_vms mg = map (\<lambda>(vid, e). to_info e vid) (mg_vms mg)"

definition manager_serial_reader :: "string \<Rightarrow> Manager \<Rightarrow> DaemonError + nat \<times> nat" where
  "manager_serial_reader vid mg =
     (case lookup_vm mg vid of
        None \<Rightarrow> Inl (NotFound vid)
      | Some e \<Rightarrow>
          (case en_serial_buf e of
             None \<Rightarrow> Inl (InvalidState vid (en_state e) ''Running (with serial buffer)'')
           | Some r \<Rightarrow> Inr (r, serial_reader (run_serial (mg_runs mg ! r)))))"

definition delete_remove :: "string \<Rightarrow> Manager \<Rightarrow> (Manager, DaemonError, unit) attempt" where
  "delete_remove vid mg =
     (case lookup_vm mg vid of
        None \<Rightarrow> (mg, Inl (NotFound vid))
      | Some entry \<Rightarrow>
          if en_state entry = Running then (mg, Inl (InvalidState vid (en_state entry) ''Created, Stopped, or Failed''))
          else (remove_vm mg vid, Inr ()))"

definition delete_vm :: "string \<Rightarrow> Manager \<Rightarrow> (Manager, DaemonError, unit) attempt" where
  "delete_vm vid mg = try_bind (delete_remove vid mg) (\<lambda>_. on_disk (\<lambda>d. store_delete d vid))"

definition stop_all :: "Manager \<Rightarrow> Manager" where
  "stop_all mg =
     mg\<lparr>mg_runs := foldl (\<lambda>runs (vid, e). if en_state e = Running then raise_flag (en_stop_flag e) runs else runs)
          (mg_runs mg) (mg_vms mg)\<rparr>"

text \<open>
  \<open>restart_vm\<close> sleeps up to fifty times between stopping and starting; \<open>env i\<close> is what the rest of the
  daemon does to the manager during sleep \<open>i\<close>, and \<open>env 50\<close> what it does before the start.
\<close>

fun await_stop :: "(nat \<Rightarrow> Manager \<Rightarrow> Manager) \<Rightarrow> string \<Rightarrow> nat list \<Rightarrow> Manager \<Rightarrow> (Manager, DaemonError, bool) attempt" where
  "await_stop env vid [] mg = (mg, Inr False)"
| "await_stop env vid (i # is) mg =
     (let mg = env i mg in
      case get_vm vid mg of
        Inl e \<Rightarrow> (mg, Inl e)
      | Inr info \<Rightarrow> if vi_state info = Stopped \<or> vi_state info = Failed then (mg, Inr True) else await_stop env vid is mg)"

definition restart_vm ::
  "Serde \<Rightarrow> AgentHost \<Rightarrow> HostFs \<Rightarrow> (nat \<Rightarrow> Manager \<Rightarrow> Manager) \<Rightarrow> string \<Rightarrow> Manager \<Rightarrow> (Manager, DaemonError, VmInfo) attempt" where
  "restart_vm S A H env vid mg =
     try_bind (stop_vm vid mg) (\<lambda>_ mg.
     try_bind (await_stop env vid [0..<50] mg) (\<lambda>stopped mg.
     if \<not> stopped then (mg, Inl (Internal (''VM '' @ vid @ '' failed to stop within 5 seconds for restart'')))
     else start_vm S A H vid (env 50 mg)))"

text \<open>The wait of \<open>stop_all_and_wait\<close>: an empty channel after \<open>env\<close> is the timeout.\<close>

fun await_completions :: "(nat \<Rightarrow> Manager \<Rightarrow> Manager) \<Rightarrow> nat \<Rightarrow> Manager \<Rightarrow> Manager" where
  "await_completions env 0 mg = mg"
| "await_completions env (Suc n) mg =
     (let mg = env n mg in
      case mg_completions mg of [] \<Rightarrow> mg | _ # rest \<Rightarrow> await_completions env n (mg\<lparr>mg_completions := rest\<rparr>))"

definition running_count :: "Manager \<Rightarrow> nat" where
  "running_count mg = length (filter (\<lambda>(vid, e). en_state e = Running) (mg_vms mg))"

definition stop_all_and_wait :: "(nat \<Rightarrow> Manager \<Rightarrow> Manager) \<Rightarrow> Manager \<Rightarrow> Manager" where
  "stop_all_and_wait env mg =
     (let running_count = running_count mg; mg = stop_all mg in
      if running_count = 0 then mg else await_completions env running_count mg)"

section \<open>The end of a VM task\<close>

datatype TaskResult = Finished ExitReason | BootFailed VmError | TaskPanicked string

fun exit_status :: "TaskResult \<Rightarrow> VmState \<times> string" where
  "exit_status (Finished (Unexpected reason)) = (Failed, reason)"
| "exit_status (Finished Halt) = (Stopped, ''Halt'')"
| "exit_status (Finished Shutdown) = (Stopped, ''Shutdown'')"
| "exit_status (Finished Canceled) = (Stopped, ''Canceled'')"
| "exit_status (BootFailed e) = (Failed, vm_error_to_string e)"
| "exit_status (TaskPanicked e) = (Failed, ''task panicked: '' @ e)"

definition close_serial :: "nat option \<Rightarrow> Run list \<Rightarrow> Run list" where
  "close_serial b runs = (case b of None \<Rightarrow> runs | Some r \<Rightarrow> runs[r := (runs ! r)\<lparr>run_serial := serial_close (run_serial (runs ! r))\<rparr>])"

text \<open>The section under the lock, and whether a state is left to save.\<close>

definition task_exit :: "string \<Rightarrow> TaskResult \<Rightarrow> Manager \<Rightarrow> Manager \<times> VmState option" where
  "task_exit vid res mg =
     (let mg = mg\<lparr>mg_count := mg_count mg - 1\<rparr> in
      case lookup_vm mg vid of
        None \<Rightarrow> (mg, None)
      | Some entry \<Rightarrow>
          let (st, reason) = exit_status res;
              entry = entry\<lparr>en_state := st, en_exit_reason := Some reason, en_stop_flag := None\<rparr>
          in ((put_vm mg vid entry)\<lparr>mg_runs := close_serial (en_serial_buf entry) (mg_runs mg)\<rparr>, Some st))"

definition exit_persist :: "Serde \<Rightarrow> string \<Rightarrow> VmState \<Rightarrow> Manager \<Rightarrow> Manager" where
  "exit_persist S vid st mg = fst (on_disk (\<lambda>d. save_state S d vid st) mg)"

definition notify :: "string \<Rightarrow> Manager \<Rightarrow> Manager" where
  "notify vid mg = mg\<lparr>mg_completions := mg_completions mg @ [vid]\<rparr>"

section \<open>Interleaving\<close>

definition take_pending :: "Pending \<Rightarrow> Manager \<Rightarrow> Manager" where
  "take_pending p mg = mg\<lparr>mg_pending := remove1 p (mg_pending mg)\<rparr>"

datatype MgLabel = Client string | Background

inductive mg_step :: "Serde \<Rightarrow> AgentHost \<Rightarrow> HostFs \<Rightarrow> MgLabel \<Rightarrow> Manager \<Rightarrow> Manager \<Rightarrow> bool" for S A H where
  create: "create_insert H vid config mg = (mg', Inr info) \<Longrightarrow>
    mg_step S A H (Client vid) mg (add_pending (CreatePersist vid config) mg')"
| start: "start_mark vid mg = (mg', Inr (config, r, info)) \<Longrightarrow>
    mg_step S A H (Client vid) mg (add_pending (StartPersist vid r config) mg')"
| delete: "delete_remove vid mg = (mg', Inr ()) \<Longrightarrow> mg_step S A H (Client vid) mg (add_pending (DeleteStore vid) mg')"
| stop: "stop_vm vid mg = (mg', Inr info) \<Longrightarrow> mg_step S A H Background mg mg'"
| stop_every: "mg_step S A H Background mg (stop_all mg)"
| created: "CreatePersist vid config \<in> set (mg_pending mg) \<Longrightarrow>
    create_persist S vid config (take_pending (CreatePersist vid config) mg) = (mg', res) \<Longrightarrow> mg_step S A H Background mg mg'"
| started: "StartPersist vid r config \<in> set (mg_pending mg) \<Longrightarrow>
    start_spawn S A H vid r config (take_pending (StartPersist vid r config) mg) = (mg', res) \<Longrightarrow> mg_step S A H Background mg mg'"
| deleted: "DeleteStore vid \<in> set (mg_pending mg) \<Longrightarrow>
    on_disk (\<lambda>d. store_delete d vid) (take_pending (DeleteStore vid) mg) = (mg', res) \<Longrightarrow> mg_step S A H Background mg mg'"
| exit: "RunTask vid r config \<in> set (mg_pending mg) \<Longrightarrow> task_exit vid res (take_pending (RunTask vid r config) mg) = (mg', save) \<Longrightarrow>
    mg_step S A H Background mg (add_pending (case save of None \<Rightarrow> Notify vid | Some st \<Rightarrow> ExitPersist vid st) mg')"
| saved: "ExitPersist vid st \<in> set (mg_pending mg) \<Longrightarrow>
    mg_step S A H Background mg (add_pending (Notify vid) (exit_persist S vid st (take_pending (ExitPersist vid st) mg)))"
| notified: "Notify vid \<in> set (mg_pending mg) \<Longrightarrow> mg_step S A H Background mg (notify vid (take_pending (Notify vid) mg))"
| received: "mg_completions mg = c # cs \<Longrightarrow> mg_step S A H Background mg (mg\<lparr>mg_completions := cs\<rparr>)"
| printed: "r < length (mg_runs mg) \<Longrightarrow>
    mg_step S A H Background mg (mg\<lparr>mg_runs := (mg_runs mg)[r := (mg_runs mg ! r)\<lparr>run_serial := fst (serial_write (run_serial (mg_runs mg ! r)) bs)\<rparr>]\<rparr>)"

section \<open>Basic facts\<close>

lemma lookup_simps [simp]:
  "lookup_vm (put_vm mg vid e) v = (if v = vid then Some e else lookup_vm mg v)"
  "lookup_vm (remove_vm mg vid) v = (if v = vid then None else lookup_vm mg v)"
  "lookup_vm (mg\<lparr>mg_runs := rs\<rparr>) v = lookup_vm mg v" "lookup_vm (mg\<lparr>mg_disk := d\<rparr>) v = lookup_vm mg v"
  "lookup_vm (mg\<lparr>mg_count := n\<rparr>) v = lookup_vm mg v" "lookup_vm (mg\<lparr>mg_completions := cs\<rparr>) v = lookup_vm mg v"
  "lookup_vm (add_pending p mg) v = lookup_vm mg v" "lookup_vm (take_pending p mg) v = lookup_vm mg v"
  "lookup_vm (stop_all mg) v = lookup_vm mg v" "lookup_vm (notify v' mg) v = lookup_vm mg v"
  by (simp_all add: lookup_vm_def put_vm_def remove_vm_def add_pending_def take_pending_def stop_all_def notify_def
      update_conv' delete_conv')

lemma fresh_entry_fields [simp]:
  "en_config (fresh_entry c st) = c" "en_state (fresh_entry c st) = st" "en_exit_reason (fresh_entry c st) = None"
  "en_stop_flag (fresh_entry c st) = None" "en_serial_buf (fresh_entry c st) = None"
  by (simp_all add: fresh_entry_def)

lemma manager_fields [simp]:
  "mg_runs (put_vm mg vid e) = mg_runs mg" "mg_disk (put_vm mg vid e) = mg_disk mg" "mg_pending (put_vm mg vid e) = mg_pending mg"
  "mg_runs (remove_vm mg vid) = mg_runs mg" "mg_disk (remove_vm mg vid) = mg_disk mg" "mg_pending (remove_vm mg vid) = mg_pending mg"
  "mg_runs (add_pending p mg) = mg_runs mg" "mg_disk (add_pending p mg) = mg_disk mg" "mg_pending (add_pending p mg) = mg_pending mg @ [p]"
  "mg_runs (take_pending p mg) = mg_runs mg" "mg_disk (take_pending p mg) = mg_disk mg" "mg_pending (take_pending p mg) = remove1 p (mg_pending mg)"
  "mg_disk (stop_all mg) = mg_disk mg" "mg_pending (stop_all mg) = mg_pending mg"
  "mg_runs (notify v mg) = mg_runs mg" "mg_disk (notify v mg) = mg_disk mg" "mg_pending (notify v mg) = mg_pending mg"
  "mg_vms (add_pending p mg) = mg_vms mg" "mg_vms (take_pending p mg) = mg_vms mg" "mg_vms (stop_all mg) = mg_vms mg" "mg_vms (notify v mg) = mg_vms mg"
  by (simp_all add: put_vm_def remove_vm_def add_pending_def take_pending_def stop_all_def notify_def)

lemma validate_config_no_panic: "validate_config H config \<noteq> Panic"
  by (auto simp: validate_config_def safe_path_def safe_path_opt_def split: option.split GuestAgentMode.split)

lemma on_disk_keeps:
  assumes "on_disk f mg = (mg', r)"
  shows "lookup_vm mg' = lookup_vm mg" "mg_runs mg' = mg_runs mg" "mg_pending mg' = mg_pending mg" "mg_vms mg' = mg_vms mg"
  using assms by (auto simp: on_disk_def fun_eq_iff split: prod.splits)

lemma create_persist_keeps:
  assumes "create_persist S vid config mg = (mg', r)"
  shows "mg_runs mg' = mg_runs mg" "mg_pending mg' = mg_pending mg"
    "mg_vms mg' = mg_vms mg \<or> mg_vms mg' = AList.delete vid (mg_vms mg)"
  using assms
  by (auto simp: create_persist_def try_bind_def remove_vm_def on_disk_def split: prod.splits sum.splits)

lemma start_spawn_keeps:
  assumes "start_spawn S A H vid r config mg = (mg', res)"
  shows "mg_runs mg' = mg_runs mg" "mg_vms mg' = mg_vms mg"
    "mg_pending mg' = mg_pending mg \<or> (\<exists>c. mg_pending mg' = mg_pending mg @ [RunTask vid r c])"
  using assms by (auto simp: start_spawn_def try_bind_def add_pending_def on_disk_def Let_def split: prod.splits sum.splits)

section \<open>Flags\<close>

text \<open>Names are unique, and a VM is running exactly when it has a stop flag, which is that of a run of this VM.\<close>

definition run_of :: "Manager \<Rightarrow> string \<Rightarrow> nat option \<Rightarrow> bool" where
  "run_of mg vid h \<longleftrightarrow> (case h of None \<Rightarrow> True | Some r \<Rightarrow> r < length (mg_runs mg) \<and> run_vm (mg_runs mg ! r) = vid)"

lemma run_of_simps [simp]: "run_of mg vid None" "run_of (add_pending p mg) vid h = run_of mg vid h"
  by (simp_all add: run_of_def split: option.split)

definition entry_ok :: "Manager \<Rightarrow> string \<Rightarrow> VmEntry \<Rightarrow> bool" where
  "entry_ok mg vid e \<longleftrightarrow> (en_state e = Running \<longleftrightarrow> en_stop_flag e \<noteq> None) \<and> run_of mg vid (en_stop_flag e) \<and> run_of mg vid (en_serial_buf e)"

definition flags_ok :: "Manager \<Rightarrow> bool" where
  "flags_ok mg \<longleftrightarrow> distinct (map fst (mg_vms mg)) \<and> (\<forall>(vid, e)\<in>set (mg_vms mg). entry_ok mg vid e)"

definition same_runs :: "Run list \<Rightarrow> Run list \<Rightarrow> bool" where
  "same_runs rs rs' \<longleftrightarrow> length rs \<le> length rs' \<and> (\<forall>r<length rs. run_vm (rs' ! r) = run_vm (rs ! r))"

lemma same_runs_refl [simp]: "same_runs rs rs" by (simp add: same_runs_def)

lemma same_runs_trans: "same_runs a b \<Longrightarrow> same_runs b c \<Longrightarrow> same_runs a c" by (auto simp: same_runs_def)

lemma same_runs_set: "run_vm x = run_vm (rs ! r) \<Longrightarrow> same_runs rs (rs[r := x])"
  unfolding same_runs_def by (metis length_list_update nth_list_update_eq nth_list_update_neq order_refl)

lemma same_runs_append: "same_runs rs (rs @ [x])"
  by (simp add: same_runs_def nth_append)

lemma same_runs_ops: "same_runs rs (raise_flag f rs)" "same_runs rs (close_serial f rs)"
  by (simp_all add: raise_flag_def close_serial_def same_runs_set split: option.split)

lemma same_runs_stop_all: "same_runs (mg_runs mg) (mg_runs (stop_all mg))"
proof -
  have "same_runs rs (foldl (\<lambda>runs (vid, e). if en_state e = Running then raise_flag (en_stop_flag e) runs else runs) rs es)" for rs es
  proof (induction es arbitrary: rs)
    case (Cons x es)
    then show ?case by (cases x) (simp add: same_runs_trans [OF same_runs_ops(1) Cons.IH])
  qed simp
  then show ?thesis by (simp add: stop_all_def)
qed

lemma entry_ok_mono: "entry_ok mg vid e \<Longrightarrow> same_runs (mg_runs mg) (mg_runs mg') \<Longrightarrow> entry_ok mg' vid e"
  by (auto simp: entry_ok_def run_of_def same_runs_def split: option.splits)

lemma flags_ok_runs: "flags_ok mg \<Longrightarrow> mg_vms mg' = mg_vms mg \<Longrightarrow> same_runs (mg_runs mg) (mg_runs mg') \<Longrightarrow> flags_ok mg'"
  by (auto simp: flags_ok_def intro: entry_ok_mono)

lemma flags_ok_put:
  assumes "flags_ok mg" "mg_vms mg' = AList.update vid e (mg_vms mg)" "same_runs (mg_runs mg) (mg_runs mg')" "entry_ok mg' vid e"
  shows "flags_ok mg'"
proof -
  have "distinct (map fst (mg_vms mg'))" using assms(1,2) by (simp add: flags_ok_def distinct_update)
  moreover have "entry_ok mg' v e'" if "(v, e') \<in> set (mg_vms mg')" for v e'
  proof -
    have "map_of (mg_vms mg') v = Some e'" using that calculation by (simp add: map_of_is_SomeI)
    then have "v = vid \<and> e' = e \<or> (v, e') \<in> set (mg_vms mg)"
      using assms(2) by (auto simp: update_conv' split: if_splits dest: map_of_SomeD)
    then show ?thesis using assms(1,3,4) by (auto simp: flags_ok_def intro: entry_ok_mono)
  qed
  ultimately show ?thesis by (auto simp: flags_ok_def)
qed

lemma flags_ok_delete:
  assumes "flags_ok mg" "mg_vms mg' = AList.delete vid (mg_vms mg)" "mg_runs mg' = mg_runs mg"
  shows "flags_ok mg'"
proof -
  have "set (AList.delete vid (mg_vms mg)) \<subseteq> set (mg_vms mg)" by (auto simp: AList.delete_eq)
  moreover have "entry_ok mg' v e" if "entry_ok mg v e" for v e using that assms(3) by (auto intro: entry_ok_mono)
  ultimately show ?thesis using assms(1,2) by (force simp: flags_ok_def distinct_delete)
qed

lemma flags_ok_entry: "flags_ok mg \<Longrightarrow> lookup_vm mg vid = Some e \<Longrightarrow> entry_ok mg vid e"
  by (auto simp: flags_ok_def lookup_vm_def dest: map_of_SomeD)

lemma create_insert_cases:
  assumes "create_insert H vid config mg = (mg', Inr info)"
  shows "valid_id vid \<and> validate_config H config = Ok () \<and> lookup_vm mg vid = None \<and> mg' = put_vm mg vid (fresh_entry config Created)"
  using assms by (auto simp: create_insert_def Let_def split: if_splits outcome.splits)

lemma start_mark_cases:
  assumes "start_mark vid mg = (mg', Inr (config, r, info))"
  obtains e where "lookup_vm mg vid = Some e" "en_state e = Created" "r = length (mg_runs mg)" "config = en_config e"
    "mg' = (put_vm mg vid (e\<lparr>en_stop_flag := Some r, en_state := Running, en_serial_buf := Some r\<rparr>))
       \<lparr>mg_runs := mg_runs mg @ [\<lparr>run_vm = vid, run_stop = False, run_serial = the (serial_with_capacity DEFAULT_CAPACITY)\<rparr>]\<rparr>"
  using assms by (auto simp: start_mark_def Let_def split: option.splits if_splits)

lemma delete_remove_cases:
  assumes "delete_remove vid mg = (mg', Inr ())"
  shows "\<exists>e. lookup_vm mg vid = Some e \<and> en_state e \<noteq> Running \<and> mg' = remove_vm mg vid"
  using assms by (auto simp: delete_remove_def split: option.splits if_splits)

lemma stop_vm_cases:
  assumes "stop_vm vid mg = (mg', Inr info)"
  shows "\<exists>e. lookup_vm mg vid = Some e \<and> en_state e = Running \<and> mg' = mg\<lparr>mg_runs := raise_flag (en_stop_flag e) (mg_runs mg)\<rparr>"
  using assms by (auto simp: stop_vm_def split: option.splits if_splits)

lemma exit_status_terminal: "exit_status res = (st, reason) \<Longrightarrow> terminal st"
  by (cases res rule: exit_status.cases) (auto simp: terminal_def)

lemma task_exit_cases:
  assumes "task_exit vid res mg = (mg', save)"
  obtains "lookup_vm mg vid = None" "mg_vms mg' = mg_vms mg" "mg_runs mg' = mg_runs mg" "mg_disk mg' = mg_disk mg"
      "mg_pending mg' = mg_pending mg" "save = None"
  | e st reason where "lookup_vm mg vid = Some e" "terminal st" "save = Some st"
      "mg_vms mg' = AList.update vid (e\<lparr>en_state := st, en_exit_reason := Some reason, en_stop_flag := None\<rparr>) (mg_vms mg)"
      "mg_runs mg' = close_serial (en_serial_buf e) (mg_runs mg)" "mg_disk mg' = mg_disk mg" "mg_pending mg' = mg_pending mg"
proof (cases "lookup_vm mg vid")
  case None
  then show thesis using assms by (intro that(1)) (auto simp: task_exit_def Let_def)
next
  case (Some e)
  obtain st reason where s: "exit_status res = (st, reason)" by (cases "exit_status res")
  show thesis
    using assms Some s exit_status_terminal [OF s]
    by (intro that(2) [of e st reason]) (auto simp: task_exit_def Let_def put_vm_def)
qed

lemma flags_ok_step: "mg_step S A H l mg mg' \<Longrightarrow> flags_ok mg \<Longrightarrow> flags_ok mg'"
proof (induction rule: mg_step.induct)
  case (create vid config mg mg' info)
  note c = create_insert_cases [OF create(1)]
  show ?case
    by (rule flags_ok_put [of mg _ vid "fresh_entry config Created"])
      (use create c in \<open>simp_all add: put_vm_def entry_ok_def run_of_def fresh_entry_def\<close>)
next
  case (start vid mg mg' config r info)
  obtain e where e: "lookup_vm mg vid = Some e" "r = length (mg_runs mg)"
    "mg' = (put_vm mg vid (e\<lparr>en_stop_flag := Some r, en_state := Running, en_serial_buf := Some r\<rparr>))
       \<lparr>mg_runs := mg_runs mg @ [\<lparr>run_vm = vid, run_stop = False, run_serial = the (serial_with_capacity DEFAULT_CAPACITY)\<rparr>]\<rparr>"
    using start_mark_cases [OF start(1)] by metis
  show ?case
    by (rule flags_ok_put [of mg _ vid "e\<lparr>en_stop_flag := Some r, en_state := Running, en_serial_buf := Some r\<rparr>"])
      (use start e in \<open>simp_all add: put_vm_def entry_ok_def run_of_def same_runs_append\<close>)
next
  case (delete vid mg mg')
  have "mg' = remove_vm mg vid" using delete_remove_cases [OF delete(1)] by blast
  then show ?case using delete(2) by (intro flags_ok_delete [OF delete(2), of _ vid]) (simp_all add: remove_vm_def add_pending_def)
next
  case (stop vid mg mg' info)
  obtain e :: VmEntry where "mg' = mg\<lparr>mg_runs := raise_flag (en_stop_flag e) (mg_runs mg)\<rparr>" using stop_vm_cases [OF stop(1)] by blast
  then show ?case using stop(2) by (intro flags_ok_runs [OF stop(2)]) (simp_all add: same_runs_ops)
next
  case (stop_every mg)
  then show ?case by (intro flags_ok_runs [OF stop_every]) (simp_all add: same_runs_stop_all)
next
  case (created vid config mg mg' res)
  note k = create_persist_keeps [OF created(2)]
  from k(3) show ?case
  proof
    assume "mg_vms mg' = mg_vms (take_pending (CreatePersist vid config) mg)"
    then show ?thesis using created(3) k(1) by (intro flags_ok_runs [OF created(3)]) simp_all
  next
    assume "mg_vms mg' = AList.delete vid (mg_vms (take_pending (CreatePersist vid config) mg))"
    then show ?thesis using created(3) k(1) by (intro flags_ok_delete [OF created(3), of _ vid]) simp_all
  qed
next
  case (started vid r config mg mg' res)
  then show ?case using start_spawn_keeps(1,2) [OF started(2)] by (intro flags_ok_runs [OF started(3)]) simp_all
next
  case (deleted vid mg mg' res)
  then show ?case using on_disk_keeps(2,4) [OF deleted(2)] by (intro flags_ok_runs [OF deleted(3)]) simp_all
next
  case (exit vid r config mg res mg' save)
  from exit(2) show ?case
  proof (cases rule: task_exit_cases)
    case 1
    then show ?thesis using exit(3) by (intro flags_ok_runs [OF exit(3)]) simp_all
  next
    case (2 e st reason)
    have e: "entry_ok mg vid e" using flags_ok_entry exit(3) 2(1) by auto
    have sr: "same_runs (mg_runs mg) (close_serial (en_serial_buf e) (mg_runs mg))" by (rule same_runs_ops)
    have "run_of mg' vid (en_serial_buf e)"
      using e sr 2(5) by (auto simp: entry_ok_def run_of_def same_runs_def split: option.splits)
    then show ?thesis
      using exit(3) 2 sr
      by (intro flags_ok_put [OF exit(3), of _ vid "e\<lparr>en_state := st, en_exit_reason := Some reason, en_stop_flag := None\<rparr>"])
        (auto simp: entry_ok_def terminal_def)
  qed
next
  case (saved vid st mg)
  obtain mg1 res where o: "on_disk (\<lambda>d. save_state S d vid st) (take_pending (ExitPersist vid st) mg) = (mg1, res)" by fastforce
  then show ?case using saved(2) on_disk_keeps(2,4) [OF o] by (intro flags_ok_runs [OF saved(2)]) (simp_all add: exit_persist_def)
next
  case (printed r mg bs)
  then show ?case by (intro flags_ok_runs [OF printed(2)]) (simp_all add: same_runs_set)
next
  case (notified vid mg)
  then show ?case by (intro flags_ok_runs [OF notified(2)]) (simp_all add: notify_def)
next
  case (received mg c cs)
  then show ?case by (intro flags_ok_runs [OF received(2)]) simp_all
qed

section \<open>Memory and disk\<close>

text \<open>
  Operations on one VM do not overlap: a client starts one only when no file system work for that VM
  is in flight. The work for a VM is then at most one item, and it tells how memory and disk differ.
\<close>

fun work_id :: "Pending \<Rightarrow> string option" where
  "work_id (CreatePersist vid config) = Some vid"
| "work_id (StartPersist vid r config) = Some vid"
| "work_id (DeleteStore vid) = Some vid"
| "work_id (RunTask vid r config) = Some vid"
| "work_id (ExitPersist vid st) = Some vid"
| "work_id (Notify vid) = None"

fun disk_work :: "Pending \<Rightarrow> bool" where
  "disk_work (RunTask vid r config) = False"
| "disk_work (Notify vid) = False"
| "disk_work p = True"

definition work :: "Manager \<Rightarrow> string \<Rightarrow> Pending list" where
  "work mg vid = filter (\<lambda>p. work_id p = Some vid) (mg_pending mg)"

definition serial_step :: "Serde \<Rightarrow> AgentHost \<Rightarrow> HostFs \<Rightarrow> Manager \<Rightarrow> Manager \<Rightarrow> bool" where
  "serial_step S A H mg mg' \<longleftrightarrow>
     (\<exists>l. mg_step S A H l mg mg' \<and> (\<forall>vid. l = Client vid \<longrightarrow> plain_id vid \<and> \<not> list_ex disk_work (work mg vid)))"

fun agree :: "Pending list \<Rightarrow> VmEntry option \<Rightarrow> VmConfig option \<Rightarrow> PersistedState option \<Rightarrow> bool" where
  "agree [] None c raw \<longleftrightarrow> c = None"
| "agree [DeleteStore v] None c raw \<longleftrightarrow> True"
| "agree [] (Some e) c raw \<longleftrightarrow> en_state e \<noteq> Running \<and> c = Some (en_config e) \<and> clamp_state raw = en_state e"
| "agree [CreatePersist v config] (Some e) c raw \<longleftrightarrow> en_state e = Created \<and> en_config e = config \<and> c = None"
| "agree [StartPersist v r config] (Some e) c raw \<longleftrightarrow> en_state e = Running \<and> en_stop_flag e = Some r \<and> c = Some (en_config e)"
| "agree [RunTask v r config] (Some e) c raw \<longleftrightarrow>
     en_state e = Running \<and> en_stop_flag e = Some r \<and> c = Some (en_config e) \<and> map_option ps_state raw = Some Running"
| "agree [ExitPersist v st] (Some e) c raw \<longleftrightarrow> en_state e = st \<and> terminal st \<and> c = Some (en_config e)"
| "agree _ _ c raw \<longleftrightarrow> False"

definition agrees :: "Serde \<Rightarrow> Manager \<Rightarrow> string \<Rightarrow> bool" where
  "agrees S mg vid = agree (work mg vid) (lookup_vm mg vid) (stored_config S (mg_disk mg) vid) (stored_raw S (mg_disk mg) vid)"

definition mg_inv :: "Serde \<Rightarrow> Manager \<Rightarrow> bool" where
  "mg_inv S mg \<longleftrightarrow> healthy (mg_disk mg) \<and>
     (\<forall>vid. plain_id vid \<longrightarrow> agrees S mg vid) \<and> (\<forall>vid. \<not> plain_id vid \<longrightarrow> lookup_vm mg vid = None \<and> work mg vid = [])"

lemma work_simps [simp]:
  "work (put_vm mg v e) vid = work mg vid" "work (remove_vm mg v) vid = work mg vid"
  "work (mg\<lparr>mg_runs := rs\<rparr>) vid = work mg vid" "work (mg\<lparr>mg_disk := d\<rparr>) vid = work mg vid"
  "work (mg\<lparr>mg_count := n\<rparr>) vid = work mg vid" "work (mg\<lparr>mg_completions := cs\<rparr>) vid = work mg vid"
  "work (add_pending p mg) vid = (if work_id p = Some vid then work mg vid @ [p] else work mg vid)"
  "work (take_pending p mg) vid = (if work_id p = Some vid then remove1 p (work mg vid) else work mg vid)"
  "work (stop_all mg) vid = work mg vid" "work (notify v mg) vid = work mg vid"
  by (simp_all add: work_def filter_remove1 remove1_filter_not)

lemma mg_inv_update:
  assumes "mg_inv S mg" "plain_id vid" "healthy (mg_disk mg')" "agrees S mg' vid"
    and "\<And>v. v \<noteq> vid \<Longrightarrow> lookup_vm mg' v = lookup_vm mg v \<and> work mg' v = work mg v"
    and "\<And>p. p \<noteq> vm_dir vid \<Longrightarrow> get_dir (mg_disk mg') p = get_dir (mg_disk mg) p"
  shows "mg_inv S mg'"
proof -
  have "agrees S mg' v" if v: "v \<noteq> vid" "plain_id v" for v
  proof -
    have "vm_dir v \<noteq> vm_dir vid" using v assms(2) by (simp add: vm_dir_plain)
    then have "stored_config S (mg_disk mg') v = stored_config S (mg_disk mg) v" "stored_raw S (mg_disk mg') v = stored_raw S (mg_disk mg) v"
      using assms(6) by (simp_all add: stored_config_def stored_raw_def)
    moreover have "agrees S mg v" using assms(1) v(2) by (simp add: mg_inv_def)
    ultimately show ?thesis using assms(5) [OF v(1)] by (simp add: agrees_def)
  qed
  then have "agrees S mg' v" if "plain_id v" for v using assms(4) that by (cases "v = vid") auto
  moreover have "lookup_vm mg' v = None \<and> work mg' v = []" if "\<not> plain_id v" for v
  proof -
    have "lookup_vm mg v = None \<and> work mg v = []" using assms(1) that by (simp add: mg_inv_def)
    moreover have "v \<noteq> vid" using assms(2) that by auto
    ultimately show ?thesis using assms(5) by simp
  qed
  ultimately show ?thesis using assms(3) by (simp add: mg_inv_def)
qed

lemma mg_inv_same:
  assumes "mg_inv S mg" "mg_disk mg' = mg_disk mg" "lookup_vm mg' = lookup_vm mg" "work mg' = work mg"
  shows "mg_inv S mg'"
  using assms by (simp add: mg_inv_def agrees_def)

lemma agree_short: "agree ws e c raw \<Longrightarrow> length ws \<le> 1"
  by (cases "(ws, e, c, raw)" rule: agree.cases) auto

lemma work_single:
  assumes "mg_inv S mg" "p \<in> set (mg_pending mg)" "work_id p = Some vid"
  shows "plain_id vid" "work mg vid = [p]" "agrees S mg vid"
proof -
  have p: "p \<in> set (work mg vid)" using assms(2,3) by (simp add: work_def)
  then show pl: "plain_id vid" using assms(1) by (auto simp: mg_inv_def)
  then show ag: "agrees S mg vid" using assms(1) by (simp add: mg_inv_def)
  have "length (work mg vid) \<le> 1" using agree_short ag unfolding agrees_def .
  then show "work mg vid = [p]" using p by (cases "work mg vid") auto
qed

lemma client_idle:
  assumes "mg_inv S mg" "plain_id vid" "\<not> list_ex disk_work (work mg vid)" "\<And>e. lookup_vm mg vid = Some e \<Longrightarrow> en_state e \<noteq> Running"
  shows "work mg vid = []" "lookup_vm mg vid = None \<Longrightarrow> stored_config S (mg_disk mg) vid = None"
    "lookup_vm mg vid = Some e \<Longrightarrow> stored_config S (mg_disk mg) vid = Some (en_config e) \<and> clamp_state (stored_raw S (mg_disk mg) vid) = en_state e"
proof -
  have ag: "agrees S mg vid" using assms(1,2) by (simp add: mg_inv_def)
  then show w: "work mg vid = []"
    using assms(3,4) unfolding agrees_def
    by (cases "(work mg vid, lookup_vm mg vid, stored_config S (mg_disk mg) vid, stored_raw S (mg_disk mg) vid)" rule: agree.cases) auto
  show "lookup_vm mg vid = None \<Longrightarrow> stored_config S (mg_disk mg) vid = None"
    "lookup_vm mg vid = Some e \<Longrightarrow> stored_config S (mg_disk mg) vid = Some (en_config e) \<and> clamp_state (stored_raw S (mg_disk mg) vid) = en_state e"
    using ag w by (simp_all add: agrees_def)
qed

lemma on_disk_Inr:
  assumes "f (mg_disk mg) = (d, r)"
  shows "on_disk f mg = (mg\<lparr>mg_disk := d\<rparr>, r)"
  using assms by (simp add: on_disk_def)

lemma mg_inv_created:
  assumes "serde_total S" "mg_inv S mg" "CreatePersist vid config \<in> set (mg_pending mg)"
    and "create_persist S vid config (take_pending (CreatePersist vid config) mg) = (mg', res)"
  shows "mg_inv S mg'"
proof -
  note w = work_single [OF assms(2,3), of vid, simplified]
  have h: "healthy (mg_disk mg)" using assms(2) by (simp add: mg_inv_def)
  obtain e where e: "lookup_vm mg vid = Some e" "en_state e = Created" "en_config e = config" "stored_config S (mg_disk mg) vid = None"
    using w(2,3) unfolding agrees_def by (cases "lookup_vm mg vid") auto
  show ?thesis
  proof (cases "config_to_json S config")
    case (Inl err)
    obtain d1 where d1: "save_config S (mg_disk mg) vid config = (d1, Inl (Internal err))" "healthy d1"
      "stored_config S d1 vid = None" "\<forall>p. p \<noteq> vm_dir vid \<longrightarrow> get_dir d1 p = get_dir (mg_disk mg) p"
      using save_config_refused [OF h w(1) Inl] e(4) by auto
    have mg': "mg' = remove_vm ((take_pending (CreatePersist vid config) mg)\<lparr>mg_disk := d1\<rparr>) vid"
      using assms(4) d1(1) by (simp add: create_persist_def on_disk_def)
    show ?thesis
      using w(2) d1(2-4) unfolding mg' by (intro mg_inv_update [OF assms(2) w(1)]) (auto simp: agrees_def)
  next
    case (Inr t)
    obtain d1 where d1: "save_config S (mg_disk mg) vid config = (d1, Inr ())" "healthy d1" "stored_config S d1 vid = Some config"
      "\<forall>p. p \<noteq> vm_dir vid \<longrightarrow> get_dir d1 p = get_dir (mg_disk mg) p"
      using save_config_healthy [OF assms(1) h w(1) Inr] by blast
    obtain d2 raw where d2: "save_state S d1 vid Created = (d2, Inr ())" "healthy d2" "stored_raw S d2 vid = Some raw" "ps_state raw = Created"
      "stored_config S d2 vid = Some config" "\<forall>p. p \<noteq> vm_dir vid \<longrightarrow> get_dir d2 p = get_dir d1 p"
      using save_state_healthy [OF assms(1) d1(2) w(1)] d1(3) by metis
    have mg': "mg' = (take_pending (CreatePersist vid config) mg)\<lparr>mg_disk := d2\<rparr>"
      using assms(4) d1(1) d2(1) by (simp add: create_persist_def on_disk_def)
    show ?thesis
      using w(2) d2 d1(4) e unfolding mg'
      by (intro mg_inv_update [OF assms(2) w(1)]) (auto simp: agrees_def clamp_state_def)
  qed
qed

lemma mg_inv_started:
  assumes "serde_total S" "mg_inv S mg" "StartPersist vid r config \<in> set (mg_pending mg)"
    and "start_spawn S A H vid r config (take_pending (StartPersist vid r config) mg) = (mg', res)"
  shows "mg_inv S mg'"
proof -
  note w = work_single [OF assms(2,3), of vid, simplified]
  have h: "healthy (mg_disk mg)" using assms(2) by (simp add: mg_inv_def)
  obtain d raw where d: "save_state S (mg_disk mg) vid Running = (d, Inr ())" "healthy d" "stored_raw S d vid = Some raw" "ps_state raw = Running"
    "stored_config S d vid = stored_config S (mg_disk mg) vid" "\<forall>p. p \<noteq> vm_dir vid \<longrightarrow> get_dir d p = get_dir (mg_disk mg) p"
    using save_state_healthy [OF assms(1) h w(1)] by metis
  obtain c where mg': "mg' = add_pending (RunTask vid r c) ((take_pending (StartPersist vid r config) mg)\<lparr>mg_disk := d, mg_count := mg_count mg + 1\<rparr>)"
    using assms(4) d(1) by (auto simp: start_spawn_def on_disk_def Let_def take_pending_def)
  obtain e where e: "lookup_vm mg vid = Some e" "en_state e = Running" "en_stop_flag e = Some r"
    "stored_config S (mg_disk mg) vid = Some (en_config e)"
    using w(2,3) unfolding agrees_def by (cases "lookup_vm mg vid") auto
  show ?thesis
    using assms(2) w(1,2) d e unfolding mg'
    by (intro mg_inv_update [OF assms(2) w(1)]) (auto simp: agrees_def)
qed

lemma mg_inv_deleted:
  assumes "mg_inv S mg" "DeleteStore vid \<in> set (mg_pending mg)"
    and "on_disk (\<lambda>d. store_delete d vid) (take_pending (DeleteStore vid) mg) = (mg', res)"
  shows "mg_inv S mg'"
proof -
  note w = work_single [OF assms(1,2), of vid, simplified]
  have h: "healthy (mg_disk mg)" using assms(1) by (simp add: mg_inv_def)
  obtain d where d: "store_delete (mg_disk mg) vid = (d, Inr ())" "healthy d" "get_dir d = (get_dir (mg_disk mg))(vm_dir vid := None)"
    using store_delete_healthy [OF h w(1)] by blast
  have mg': "mg' = (take_pending (DeleteStore vid) mg)\<lparr>mg_disk := d\<rparr>" using assms(3) d(1) by (simp add: on_disk_def)
  have "lookup_vm mg vid = None" using w(2,3) unfolding agrees_def by (cases "lookup_vm mg vid") auto
  then show ?thesis
    using assms(1) w(1,2) d unfolding mg'
    by (intro mg_inv_update [OF assms(1) w(1)]) (auto simp: agrees_def stored_config_def)
qed

lemma mg_inv_exit:
  assumes "mg_inv S mg" "RunTask vid r config \<in> set (mg_pending mg)"
    and "task_exit vid res (take_pending (RunTask vid r config) mg) = (mg', save)"
  shows "mg_inv S (add_pending (case save of None \<Rightarrow> Notify vid | Some st \<Rightarrow> ExitPersist vid st) mg')"
proof -
  note w = work_single [OF assms(1,2), of vid, simplified]
  have h: "healthy (mg_disk mg)" using assms(1) by (simp add: mg_inv_def)
  obtain e where e: "lookup_vm mg vid = Some e" "stored_config S (mg_disk mg) vid = Some (en_config e)"
    using w(2,3) unfolding agrees_def by (cases "lookup_vm mg vid") auto
  from assms(3) show ?thesis
  proof (cases rule: task_exit_cases)
    case (2 e' st reason)
    then have "lookup_vm mg' = (lookup_vm mg)(vid \<mapsto> e'\<lparr>en_state := st, en_exit_reason := Some reason, en_stop_flag := None\<rparr>)"
      by (simp add: lookup_vm_def fun_eq_iff update_conv')
    moreover have "work mg' v = (if v = vid then [] else work mg v)" for v
      using 2(7) w(2) work_simps(8) [of "RunTask vid r config" mg v] by (simp add: work_def)
    ultimately show ?thesis
      using assms(1) w(1) e 2 h
      by (intro mg_inv_update [OF assms(1) w(1)]) (auto simp: agrees_def)
  qed (use e in simp)
qed

lemma mg_inv_saved:
  assumes "serde_total S" "mg_inv S mg" "ExitPersist vid st \<in> set (mg_pending mg)"
  shows "mg_inv S (add_pending (Notify vid) (exit_persist S vid st (take_pending (ExitPersist vid st) mg)))"
proof -
  note w = work_single [OF assms(2,3), of vid, simplified]
  have h: "healthy (mg_disk mg)" using assms(2) by (simp add: mg_inv_def)
  obtain d raw where d: "save_state S (mg_disk mg) vid st = (d, Inr ())" "healthy d" "stored_raw S d vid = Some raw" "ps_state raw = st"
    "stored_config S d vid = stored_config S (mg_disk mg) vid" "\<forall>p. p \<noteq> vm_dir vid \<longrightarrow> get_dir d p = get_dir (mg_disk mg) p"
    using save_state_healthy [OF assms(1) h w(1)] by metis
  have mg': "exit_persist S vid st (take_pending (ExitPersist vid st) mg) = (take_pending (ExitPersist vid st) mg)\<lparr>mg_disk := d\<rparr>"
    using d(1) by (simp add: exit_persist_def on_disk_def)
  obtain e where e: "lookup_vm mg vid = Some e" "en_state e = st" "terminal st" "stored_config S (mg_disk mg) vid = Some (en_config e)"
    using w(2,3) unfolding agrees_def by (cases "lookup_vm mg vid") auto
  show ?thesis
    using assms(2) w(1,2) d e unfolding mg'
    by (intro mg_inv_update [OF assms(2) w(1)]) (auto simp: agrees_def clamp_state_def terminal_def)
qed

lemma mg_inv_step:
  assumes "serde_total S" "mg_inv S mg" "serial_step S A H mg mg'"
  shows "mg_inv S mg'"
proof -
  obtain l where l: "mg_step S A H l mg mg'" "\<forall>vid. l = Client vid \<longrightarrow> plain_id vid \<and> \<not> list_ex disk_work (work mg vid)"
    using assms(3) by (auto simp: serial_step_def)
  have h: "healthy (mg_disk mg)" using assms(2) by (simp add: mg_inv_def)
  from l(1) l(2) assms(2) h show ?thesis
  proof (induction rule: mg_step.induct)
    case (create vid config mg mg' info)
    note c = create_insert_cases [OF create(1)]
    have pl: "plain_id vid" using create(2) by simp
    have "work mg vid = []" "stored_config S (mg_disk mg) vid = None" using client_idle(1,2) [OF create(3) pl] create(2) c by simp_all
    then show ?case using c create(4) by (intro mg_inv_update [OF create(3) pl]) (auto simp: agrees_def fresh_entry_def)
  next
    case (start vid mg mg' config r info)
    obtain e where e: "lookup_vm mg vid = Some e" "en_state e = Created" "config = en_config e"
      "mg' = (put_vm mg vid (e\<lparr>en_stop_flag := Some r, en_state := Running, en_serial_buf := Some r\<rparr>))
         \<lparr>mg_runs := mg_runs mg @ [\<lparr>run_vm = vid, run_stop = False, run_serial = the (serial_with_capacity DEFAULT_CAPACITY)\<rparr>]\<rparr>"
      using start_mark_cases [OF start(1)] by metis
    have pl: "plain_id vid" using start(2) by simp
    have "work mg vid = []" "stored_config S (mg_disk mg) vid = Some (en_config e)"
      using client_idle(1,3) [OF start(3) pl] start(2) e by simp_all
    then show ?case using e start(4) by (intro mg_inv_update [OF start(3) pl]) (auto simp: agrees_def)
  next
    case (delete vid mg mg')
    obtain e where e: "lookup_vm mg vid = Some e" "en_state e \<noteq> Running" "mg' = remove_vm mg vid"
      using delete_remove_cases [OF delete(1)] by blast
    have pl: "plain_id vid" using delete(2) by simp
    have "work mg vid = []" using client_idle(1) [OF delete(3) pl] delete(2) e by simp
    then show ?case using e delete(4) by (intro mg_inv_update [OF delete(3) pl]) (auto simp: agrees_def)
  next
    case (stop vid mg mg' info)
    obtain e :: VmEntry where "mg' = mg\<lparr>mg_runs := raise_flag (en_stop_flag e) (mg_runs mg)\<rparr>" using stop_vm_cases [OF stop(1)] by blast
    then show ?case by (intro mg_inv_same [OF stop(3)]) (simp_all add: fun_eq_iff)
  next
    case (stop_every mg)
    then show ?case by (intro mg_inv_same [OF stop_every(2)]) (simp_all add: fun_eq_iff)
  next
    case (created vid config mg mg' res)
    then show ?case using mg_inv_created [OF assms(1)] by blast
  next
    case (started vid r config mg mg' res)
    then show ?case using mg_inv_started [OF assms(1)] by blast
  next
    case (deleted vid mg mg' res)
    then show ?case using mg_inv_deleted by blast
  next
    case (exit vid r config mg res mg' save)
    then show ?case using mg_inv_exit by blast
  next
    case (saved vid st mg)
    then show ?case using mg_inv_saved [OF assms(1)] by blast
  next
    case (notified vid mg)
    then show ?case by (intro mg_inv_same [OF notified(3)]) (simp_all add: fun_eq_iff)
  next
    case (received mg c cs)
    then show ?case by (intro mg_inv_same [OF received(3)]) (simp_all add: fun_eq_iff)
  next
    case (printed r mg bs)
    then show ?case by (intro mg_inv_same [OF printed(3)]) (simp_all add: fun_eq_iff)
  qed
qed

text \<open>A manager recovered from a disk.\<close>

lemma recovered_map:
  assumes "distinct (map fst rs)"
  shows "map_of (foldl (\<lambda>m (vid, config, st). AList.update vid (fresh_entry config st) m) m0 rs) v =
    (case map_of rs v of None \<Rightarrow> map_of m0 v | Some (config, st) \<Rightarrow> Some (fresh_entry config st))"
  using assms
proof (induction rs arbitrary: m0)
  case (Cons r rs)
  obtain vid config st where r: "r = (vid, config, st)" by (cases r)
  have "map_of rs vid = None" using Cons.prems by (auto simp: r map_of_eq_None_iff)
  then show ?case using Cons by (auto simp: r update_conv' split: option.split)
qed simp

lemma recovered_keys:
  assumes "distinct (map fst m0)"
  shows "distinct (map fst (foldl (\<lambda>m (vid, config, st). AList.update vid (fresh_entry config st) m) m0 rs))"
  using assms by (induction rs arbitrary: m0) (auto simp: distinct_update)

lemma manager_new_healthy:
  assumes "serde_total S" "healthy d"
  shows "\<exists>d' mg. manager_new S d = (d', Inr mg) \<and> mg_inv S mg \<and> flags_ok mg \<and> mg_pending mg = [] \<and>
    (\<forall>vid. lookup_vm mg vid = (if plain_id vid
       then map_option (\<lambda>c. fresh_entry c (clamp_state (stored_raw S d vid))) (stored_config S d vid) else None))"
proof -
  obtain d1 where d1: "fs_create_dir_all d BaseDir = (d1, Inr ())" "healthy d1"
    "get_dir d1 = (get_dir d)(BaseDir := Some (case get_dir d BaseDir of None \<Rightarrow> vm_dir_empty | Some v \<Rightarrow> v))"
    using fs_create_healthy [OF assms(2), of BaseDir] by blast
  obtain n rs where l: "load_all S d1 = (d1\<lparr>disk_ops := n\<rparr>, Inr rs)" "distinct (map fst rs)"
    "\<forall>vid. map_of rs vid = (if plain_id vid then map_option snd (recovered S d1 vid) else None)"
    using load_all_healthy [OF d1(2)] by blast
  let ?vms = "foldl (\<lambda>m (vid, config, st). AList.update vid (fresh_entry config st) m) [] rs"
  define mg where "mg = \<lparr>mg_vms = ?vms, mg_disk = d1\<lparr>disk_ops := n\<rparr>, mg_runs = [], mg_pending = [], mg_completions = [], mg_count = 0\<rparr>"
  have n: "manager_new S d = (d1\<lparr>disk_ops := n\<rparr>, Inr mg)"
    using d1(1) l(1) by (simp add: manager_new_def store_new_def mg_def)
  have lk: "lookup_vm mg vid = (if plain_id vid then map_option (\<lambda>c. fresh_entry c (clamp_state (stored_raw S d1 vid))) (stored_config S d1 vid) else None)" for vid
    using recovered_map [OF l(2), of "[]" vid] l(3) by (auto simp: mg_def lookup_vm_def recovered_def split: option.split)
  have f: "mg_disk mg = d1\<lparr>disk_ops := n\<rparr>" "mg_pending mg = []" "mg_vms mg = ?vms" by (simp_all add: mg_def)
  have cl: "clamp_state raw \<noteq> Running" for raw by (simp add: clamp_state_def split: option.split)
  have so: "stored_config S (d1\<lparr>disk_ops := n\<rparr>) vid = stored_config S d1 vid" "stored_raw S (d1\<lparr>disk_ops := n\<rparr>) vid = stored_raw S d1 vid" for vid
    by (simp_all add: stored_config_def stored_raw_def)
  have "agrees S mg vid" if "plain_id vid" for vid
    using cl that f by (cases "stored_config S d1 vid") (auto simp: agrees_def lk work_def so)
  then have "mg_inv S mg" using d1(2) f by (auto simp: mg_inv_def lk work_def)
  moreover have "flags_ok mg"
  proof -
    have "entry_ok mg vid e" if "(vid, e) \<in> set ?vms" for vid e
    proof -
      have "lookup_vm mg vid = Some e" using that recovered_keys [of "[]" rs] by (simp add: lookup_vm_def f)
      then show ?thesis using cl by (auto simp: lk entry_ok_def split: if_splits)
    qed
    then show ?thesis using recovered_keys [of "[]" rs] by (auto simp: flags_ok_def f)
  qed
  moreover have "stored_config S d1 vid = stored_config S d vid" "stored_raw S d1 vid = stored_raw S d vid" if "plain_id vid" for vid
    using d1(3) that by (simp_all add: stored_config_def stored_raw_def vm_dir_plain)
  ultimately show ?thesis using n f by (intro exI [of _ "d1\<lparr>disk_ops := n\<rparr>"] exI [of _ mg]) (auto simp: lk)
qed

lemma mg_inv_reachable: "serde_total S \<Longrightarrow> (serial_step S A H)\<^sup>*\<^sup>* mg mg' \<Longrightarrow> mg_inv S mg \<Longrightarrow> mg_inv S mg'"
  by (rotate_tac, induction rule: rtranclp_induct) (auto intro: mg_inv_step)

text \<open>Whatever the host does, a recovered VM is not running.\<close>

lemma load_entries_states:
  assumes "load_entries S d ids rs = (d', rs')" "\<forall>(v, c, st)\<in>set rs. st \<noteq> Running"
  shows "\<forall>(v, c, st)\<in>set rs'. st \<noteq> Running"
  using assms
proof (induction ids arbitrary: d rs)
  case (Cons vid ids)
  obtain d1 r where r: "load_entry S d vid = (d1, r)" by fastforce
  have "st \<noteq> Running" if "r = Some (v, c, st)" for v c st
    using r that by (auto simp: load_entry_def clamp_state_def split: prod.splits option.splits if_splits)
  then show ?case using Cons.prems r by (intro Cons.IH [of d1 "case r of None \<Rightarrow> rs | Some x \<Rightarrow> rs @ [x]"]) (auto split: option.splits)
qed simp

lemma manager_new_flags:
  assumes "manager_new S d = (d', Inr mg)"
  shows "flags_ok mg"
proof -
  obtain d1 rs where l: "load_all S d1 = (d', Inr rs)"
    "mg_vms mg = foldl (\<lambda>m (vid, config, st). AList.update vid (fresh_entry config st) m) [] rs"
    using assms unfolding manager_new_def try_bind_Inr_iff by fastforce
  have st: "\<forall>(v, c, st)\<in>set rs. st \<noteq> Running"
    using l(1) by (auto simp: load_all_def split: prod.splits option.splits dest!: load_entries_states)
  define good :: "string \<times> VmEntry \<Rightarrow> bool" where "good x \<longleftrightarrow> en_state (snd x) \<noteq> Running \<and> en_stop_flag (snd x) = None \<and> en_serial_buf (snd x) = None" for x
  have "\<forall>x\<in>set (foldl (\<lambda>m (vid, config, st). AList.update vid (fresh_entry config st) m) m0 rs). good x" if "\<forall>x\<in>set m0. good x" for m0
    using that st
  proof (induction rs arbitrary: m0)
    case (Cons r rs)
    obtain vid c s where r: "r = (vid, c, s)" by (cases r)
    have "set (AList.update vid (fresh_entry c s) m0) \<subseteq> insert (vid, fresh_entry c s) (set m0)" by (induction m0) auto
    moreover have "good (vid, fresh_entry c s)" using Cons.prems(2) by (simp add: r good_def)
    ultimately have "\<forall>x\<in>set (AList.update vid (fresh_entry c s) m0). good x" using Cons.prems(1) by blast
    then show ?case using Cons.prems(2) Cons.IH by (simp add: r)
  qed simp
  from this [of "[]"] have "\<forall>x\<in>set (mg_vms mg). good x" by (simp add: l(2))
  then have "entry_ok mg v e" if "(v, e) \<in> set (mg_vms mg)" for v e
    using that by (fastforce simp: good_def entry_ok_def)
  then show ?thesis using recovered_keys [of "[]" rs] by (auto simp: flags_ok_def l(2))
qed

definition any_step :: "Serde \<Rightarrow> AgentHost \<Rightarrow> HostFs \<Rightarrow> Manager \<Rightarrow> Manager \<Rightarrow> bool" where
  "any_step S A H mg mg' \<longleftrightarrow> (\<exists>l. mg_step S A H l mg mg')"

lemma flags_ok_reachable: "(any_step S A H)\<^sup>*\<^sup>* mg mg' \<Longrightarrow> flags_ok mg \<Longrightarrow> flags_ok mg'"
  by (induction rule: rtranclp_induct) (auto simp: any_step_def intro: flags_ok_step)

section \<open>Properties\<close>

text \<open>C10: the manager under concurrency. From any start, in every interleaving of clients, VM tasks and
  file system work and with any failures of the host: names are unique, a VM is in the running state
  exactly when it has a stop flag, that flag and its serial buffer belong to a run of this very VM,
  and stopping the VM raises the flag of such a run.\<close>

theorem manager_flags:
  assumes "manager_new S d = (d', Inr mg0)" "(any_step S A H)\<^sup>*\<^sup>* mg0 mg" "lookup_vm mg vid = Some e"
  shows "distinct (map fst (mg_vms mg)) \<and> (en_state e = Running \<longleftrightarrow> en_stop_flag e \<noteq> None) \<and>
    run_of mg vid (en_stop_flag e) \<and> run_of mg vid (en_serial_buf e) \<and>
    (en_state e = Running \<longrightarrow> (\<exists>mg' r. stop_vm vid mg = (mg', Inr (to_info e vid)) \<and> run_vm (mg_runs mg ! r) = vid \<and> run_stop (mg_runs mg' ! r)))"
proof -
  have f: "flags_ok mg" by (rule flags_ok_reachable [OF assms(2) manager_new_flags [OF assms(1)]])
  note o = flags_ok_entry [OF f assms(3), unfolded entry_ok_def]
  have "\<exists>mg' r. stop_vm vid mg = (mg', Inr (to_info e vid)) \<and> run_vm (mg_runs mg ! r) = vid \<and> run_stop (mg_runs mg' ! r)" if run: "en_state e = Running"
  proof -
    obtain r where "en_stop_flag e = Some r" "r < length (mg_runs mg)" "run_vm (mg_runs mg ! r) = vid"
      using o run by (auto simp: run_of_def)
    then show ?thesis using assms(3) run by (auto simp: stop_vm_def raise_flag_def)
  qed
  then show ?thesis using o f by (simp add: flags_ok_def)
qed

text \<open>A manager with one VM, on a host that serialises one configuration.\<close>

definition state_text :: "PersistedState \<Rightarrow> string" where
  "state_text p = (case ps_state p of Created \<Rightarrow> CHR ''c'' | Running \<Rightarrow> CHR ''r'' | Stopped \<Rightarrow> CHR ''s'' | Failed \<Rightarrow> CHR ''f'') #
     map (\<lambda>b. char_of (unat b)) (le_bytes 8 (created_at p) @ le_bytes 8 (updated_at p))"

definition parse_state :: "string \<Rightarrow> PersistedState option" where
  "parse_state t = (let bs = map (\<lambda>c. of_nat (of_char c) :: u8) (tl t) in
     Some \<lparr>ps_state = (if hd t = CHR ''c'' then Created else if hd t = CHR ''r'' then Running else if hd t = CHR ''s'' then Stopped else Failed),
       created_at = of_le_bytes (take 8 bs), updated_at = of_le_bytes (drop 8 bs)\<rparr>)"

definition demo_serde :: Serde where
  "demo_serde = \<lparr>config_to_json = (\<lambda>c. if c = demo_config then Inr ''config'' else Inl ''not Unicode''),
     config_from_json = (\<lambda>t. if t = ''config'' then Some demo_config else None),
     state_to_json = (\<lambda>p. Inr (state_text p)), state_from_json = parse_state\<rparr>"

lemma parse_state_text: "parse_state (state_text p) = Some p"
proof -
  have c: "map (\<lambda>c. of_nat (of_char c) :: u8) (map (\<lambda>b. char_of (unat b)) bs) = bs" for bs :: bytes
  proof -
    have "of_nat (of_char (char_of (unat b) :: char)) = b" for b :: u8
    proof -
      have "unat b < 256" using unsigned_less [of b] by simp
      then show ?thesis by (simp add: of_char_of)
    qed
    then show ?thesis by (simp add: map_idI)
  qed
  have b: "map (\<lambda>c. of_nat (of_char c) :: u8) (tl (state_text p)) = le_bytes 8 (created_at p) @ le_bytes 8 (updated_at p)"
    unfolding state_text_def list.sel c by (rule refl)
  show ?thesis
    unfolding parse_state_def Let_def b
    by (cases "ps_state p") (simp_all add: state_text_def of_le_bytes_le_bytes)
qed

lemma demo_serde_total: "serde_total demo_serde"
  by (auto simp: serde_total_def serde_law_def demo_serde_def parse_state_text split: if_splits)

definition demo_disk :: Disk where
  "demo_disk = \<lparr>disk_dirs = [], disk_ops = 0, disk_faults = (\<lambda>i. None), disk_clock = (\<lambda>i. 7)\<rparr>"

definition demo_agent :: AgentHost where
  "demo_agent = \<lparr>agent_bin = [], temp_file = (\<lambda>n. \<lparr>path_components = [Normal n], path_display = n\<rparr>), temp_write = (\<lambda>p b. False)\<rparr>"

abbreviation demo_step :: "Manager \<Rightarrow> Manager \<Rightarrow> bool" where
  "demo_step \<equiv> serial_step demo_serde demo_agent demo_fs"

lemma demo_created:
  "\<exists>d' mg0 mg. manager_new demo_serde demo_disk = (d', Inr mg0) \<and> demo_step\<^sup>*\<^sup>* mg0 mg \<and> mg_pending mg = [] \<and>
     lookup_vm mg ''vm'' = Some (fresh_entry demo_config Created)"
proof -
  have h: "healthy demo_disk" by (simp add: healthy_def disk_ok_def demo_disk_def get_dir_def)
  obtain d' mg0 where m0: "manager_new demo_serde demo_disk = (d', Inr mg0)" "mg_inv demo_serde mg0" "mg_pending mg0 = []"
    "lookup_vm mg0 ''vm'' = None"
    using manager_new_healthy [OF demo_serde_total h] by (auto simp: stored_config_def demo_disk_def get_dir_def)
  have pl: "plain_id ''vm''" by (simp add: plain_id_def)
  define mg1 where "mg1 = add_pending (CreatePersist ''vm'' demo_config) (put_vm mg0 ''vm'' (fresh_entry demo_config Created))"
  have v: "valid_id ''vm''" by (auto simp: valid_id_def less_Suc_eq drop_Cons split: nat.splits)
  have "create_insert demo_fs ''vm'' demo_config mg0 = (put_vm mg0 ''vm'' (fresh_entry demo_config Created), Inr (to_info (fresh_entry demo_config Created) ''vm''))"
    using v demo_config_valid m0(4) by (simp add: create_insert_def Let_def)
  then have s1: "demo_step mg0 mg1"
    unfolding serial_step_def mg1_def using mg_step.create pl m0(3) by (fastforce simp: work_def)
  have i1: "mg_inv demo_serde mg1" by (rule mg_inv_step [OF demo_serde_total m0(2) s1])
  have p1: "CreatePersist ''vm'' demo_config \<in> set (mg_pending mg1)" by (simp add: mg1_def)
  obtain mg2 res where c2: "create_persist demo_serde ''vm'' demo_config (take_pending (CreatePersist ''vm'' demo_config) mg1) = (mg2, res)" by fastforce
  have s2: "demo_step mg1 mg2"
    unfolding serial_step_def using mg_step.created [OF p1 c2] by blast
  have "mg_inv demo_serde mg2" by (rule mg_inv_step [OF demo_serde_total i1 s2])
  have pe: "mg_pending mg2 = []" using create_persist_keeps(2) [OF c2] m0(3) by (simp add: mg1_def)
  have "lookup_vm mg2 ''vm'' = Some (fresh_entry demo_config Created)"
  proof -
    have h1: "healthy (mg_disk mg1)" using i1 by (simp add: mg_inv_def)
    have t: "config_to_json demo_serde demo_config = Inr ''config''" by (simp add: demo_serde_def)
    obtain d1 where d1: "save_config demo_serde (mg_disk mg1) ''vm'' demo_config = (d1, Inr ())" "healthy d1"
      using save_config_healthy [OF demo_serde_total h1 pl t] by blast
    obtain d2 where "save_state demo_serde d1 ''vm'' Created = (d2, Inr ())"
      using save_state_healthy [OF demo_serde_total d1(2) pl] by blast
    then show ?thesis using c2 d1(1) by (auto simp: create_persist_def on_disk_def mg1_def)
  qed
  then show ?thesis using m0(1) s1 s2 pe by (meson converse_rtranclp_into_rtranclp rtranclp.rtrancl_refl)
qed

lemma serial_any: "serial_step S A H mg mg' \<Longrightarrow> any_step S A H mg mg'"
  by (auto simp: serial_step_def any_step_def)

theorem manager_flags_witness:
  "\<exists>d' mg0 mg e. manager_new demo_serde demo_disk = (d', Inr mg0) \<and> (any_step demo_serde demo_agent demo_fs)\<^sup>*\<^sup>* mg0 mg \<and>
     lookup_vm mg ''vm'' = Some e \<and> en_state e = Running \<and> run_of mg ''vm'' (en_stop_flag e) \<and> en_stop_flag e \<noteq> None"
proof -
  obtain d' mg0 mg where m: "manager_new demo_serde demo_disk = (d', Inr mg0)" "demo_step\<^sup>*\<^sup>* mg0 mg"
    "lookup_vm mg ''vm'' = Some (fresh_entry demo_config Created)" using demo_created by blast
  obtain mg1 c r info where s: "start_mark ''vm'' mg = (mg1, Inr (c, r, info))" using m(3) by (auto simp: start_mark_def Let_def)
  let ?mg = "add_pending (StartPersist ''vm'' r c) mg1"
  have "(any_step demo_serde demo_agent demo_fs)\<^sup>*\<^sup>* mg0 mg" using m(2) by (rule rtranclp_mono [THEN predicate2D, rotated]) (auto intro: serial_any)
  then have r: "(any_step demo_serde demo_agent demo_fs)\<^sup>*\<^sup>* mg0 ?mg"
    using mg_step.start [OF s, of demo_serde demo_agent demo_fs] by (meson any_step_def rtranclp.rtrancl_into_rtrancl)
  have e: "lookup_vm ?mg ''vm'' = Some ((fresh_entry demo_config Created)\<lparr>en_stop_flag := Some r, en_state := Running, en_serial_buf := Some r\<rparr>)"
    using s m(3) by (auto simp: start_mark_def Let_def)
  from manager_flags [OF m(1) r e] show ?thesis using m(1) r e by fastforce
qed



text \<open>C37: restarting never works. \<open>restart_vm\<close> waits until the VM is stopped or failed and then calls
  \<open>start_vm\<close>, which accepts a created VM only: whatever the daemon does in the meantime, the call
  returns an error, unless another client deletes and creates the VM again between its last look and
  the start.\<close>

theorem restart_never_succeeds:
  assumes "\<And>mg e e'. lookup_vm mg vid = Some e \<Longrightarrow> terminal (en_state e) \<Longrightarrow> lookup_vm (env 50 mg) vid = Some e' \<Longrightarrow> en_state e' \<noteq> Created"
  shows "\<exists>mg' err. restart_vm S A H env vid mg = (mg', Inl err)"
proof -
  have w: "\<exists>e. lookup_vm mg2 vid = Some e \<and> terminal (en_state e)" if "await_stop env vid is mg1 = (mg2, Inr True)" for "is" mg1 mg2
    using that
    by (induction "is" arbitrary: mg1)
      (auto simp: Let_def get_vm_def to_info_def terminal_def split: option.splits if_splits)
  have s: "\<exists>mg' err. start_vm S A H vid (env 50 mg2) = (mg', Inl err)" if "await_stop env vid is mg1 = (mg2, Inr True)" for "is" mg1 mg2
    using w [OF that] assms
    by (cases "lookup_vm (env 50 mg2) vid") (auto simp: start_vm_def start_mark_def)
  obtain mg1 r1 where a: "stop_vm vid mg = (mg1, r1)" by fastforce
  obtain mg2 r2 where b: "await_stop env vid [0..<50] mg1 = (mg2, r2)" by fastforce
  show ?thesis
  proof (cases r1)
    case (Inr i1)
    show ?thesis
    proof (cases r2)
      case (Inr stopped)
      show ?thesis
      proof (cases stopped)
        case True
        then obtain mg' err where "start_vm S A H vid (env 50 mg2) = (mg', Inl err)" using s [of "[0..<50]" mg1 mg2] b Inr by auto
        then show ?thesis using a b \<open>r1 = Inr i1\<close> Inr True by (simp add: restart_vm_def)
      qed (use a b \<open>r1 = Inr i1\<close> Inr in \<open>simp add: restart_vm_def\<close>)
    qed (use a b Inr in \<open>simp add: restart_vm_def\<close>)
  qed (use a in \<open>simp add: restart_vm_def\<close>)
qed

definition running_demo :: "Disk \<Rightarrow> VmState \<Rightarrow> Manager" where
  "running_demo d st = \<lparr>mg_vms = [(''vm'', (fresh_entry demo_config st)\<lparr>en_stop_flag := (if st = Running then Some 0 else None)\<rparr>)], mg_disk = d,
     mg_runs = [\<lparr>run_vm = ''vm'', run_stop = False, run_serial = the (serial_with_capacity 1)\<rparr>], mg_pending = [], mg_completions = [], mg_count = 1\<rparr>"

definition halt_env :: "nat \<Rightarrow> Manager \<Rightarrow> Manager" where
  "halt_env i mg = (if i = 0 then fst (task_exit ''vm'' (Finished Halt) mg) else mg)"

theorem restart_never_succeeds_witness:
  "\<exists>mg' err. restart_vm demo_serde demo_agent demo_fs halt_env ''vm'' (running_demo demo_disk Running) = (mg', Inl err) \<and>
     snd (await_stop halt_env ''vm'' [0..<50] (fst (stop_vm ''vm'' (running_demo demo_disk Running)))) = Inr True"
proof -
  have "\<exists>mg' err. restart_vm demo_serde demo_agent demo_fs halt_env ''vm'' (running_demo demo_disk Running) = (mg', Inl err)"
    by (rule restart_never_succeeds) (auto simp: halt_env_def terminal_def)
  moreover have "snd (await_stop halt_env ''vm'' [0..<50] (fst (stop_vm ''vm'' (running_demo demo_disk Running)))) = Inr True"
    by (subst upt_rec) (simp add: stop_vm_def running_demo_def lookup_vm_def raise_flag_def halt_env_def task_exit_def put_vm_def
        get_vm_def to_info_def Let_def)
  ultimately show ?thesis by blast
qed

text \<open>A VM that is running although no work for it is in flight stays so.\<close>

definition stuck :: "string \<Rightarrow> Manager \<Rightarrow> bool" where
  "stuck vid mg \<longleftrightarrow> (\<exists>e. lookup_vm mg vid = Some e \<and> en_state e = Running) \<and> work mg vid = []"

lemma stuck_no_work: "stuck vid mg \<Longrightarrow> p \<in> set (mg_pending mg) \<Longrightarrow> work_id p \<noteq> Some vid"
  by (auto simp: stuck_def work_def filter_empty_conv)

lemma stuck_keep:
  assumes "stuck vid mg" "p \<in> set (mg_pending mg)" "lookup_vm mg' vid = lookup_vm mg vid"
    "mg_pending mg' = mg_pending (take_pending p mg) @ ps" "\<forall>q\<in>set ps. work_id q = work_id p \<or> work_id q = None"
  shows "stuck vid mg'"
proof -
  have "work_id p \<noteq> Some vid" by (rule stuck_no_work [OF assms(1,2)])
  then have "work mg' vid = work mg vid"
    using assms(4,5) work_simps(8) [of p mg vid] by (auto simp: work_def filter_empty_conv)
  then show ?thesis using assms(1,3) by (simp add: stuck_def)
qed

lemma stuck_step: "mg_step S A H l mg mg' \<Longrightarrow> stuck vid mg \<Longrightarrow> stuck vid mg'"
proof (induction rule: mg_step.induct)
  case (create v config m m' info)
  then show ?case using create_insert_cases [OF create(1)] by (auto simp: stuck_def)
next
  case (start v m m' config r info)
  show ?case by (rule start_mark_cases [OF start(1)]) (use start(2) in \<open>auto simp: stuck_def\<close>)
next
  case (delete v m m')
  then show ?case using delete_remove_cases [OF delete(1)] by (auto simp: stuck_def)
next
  case (stop v m m' info)
  then show ?case using stop_vm_cases [OF stop(1)] by (auto simp: stuck_def)
next
  case (created v config m m' res)
  have "v \<noteq> vid" using stuck_no_work [OF created(3,1)] by auto
  then show ?case
    using create_persist_keeps(2,3) [OF created(2)]
    by (intro stuck_keep [OF created(3,1), of _ "[]"]) (auto simp: lookup_vm_def delete_conv')
next
  case (started v r config m m' res)
  have "lookup_vm m' vid = lookup_vm m vid" using start_spawn_keeps(2) [OF started(2)] by (simp add: lookup_vm_def)
  moreover obtain ps where "mg_pending m' = mg_pending (take_pending (StartPersist v r config) m) @ ps" "\<forall>q\<in>set ps. work_id q = Some v"
    using start_spawn_keeps(3) [OF started(2)] by fastforce
  ultimately show ?case using stuck_keep [OF started(3,1)] by simp
next
  case (deleted v m m' res)
  then show ?case using on_disk_keeps(1,3) [OF deleted(2)] by (intro stuck_keep [OF deleted(3,1), of _ "[]"]) simp_all
next
  case (exit v r config m res m' save)
  have v: "v \<noteq> vid" using stuck_no_work [OF exit(3,1)] by auto
  have "lookup_vm m' vid = lookup_vm m vid"
    using exit(2) v by (cases rule: task_exit_cases) (simp_all add: lookup_vm_def update_conv')
  moreover have "mg_pending m' = mg_pending (take_pending (RunTask v r config) m)"
    using exit(2) by (cases rule: task_exit_cases) simp_all
  ultimately show ?case
    by (intro stuck_keep [OF exit(3,1), of _ "[case save of None \<Rightarrow> Notify v | Some st \<Rightarrow> ExitPersist v st]"]) (auto split: option.split)
next
  case (saved v st m)
  obtain m1 res where o: "on_disk (\<lambda>d. save_state S d v st) (take_pending (ExitPersist v st) m) = (m1, res)" by fastforce
  then show ?case
    using on_disk_keeps(1,3) [OF o] by (intro stuck_keep [OF saved(2,1), of _ "[Notify v]"]) (simp_all add: exit_persist_def)
qed (auto simp: stuck_def)

lemma stuck_reachable: "(any_step S A H)\<^sup>*\<^sup>* mg mg' \<Longrightarrow> stuck vid mg \<Longrightarrow> stuck vid mg'"
  by (induction rule: rtranclp_induct) (auto simp: any_step_def dest: stuck_step)

text \<open>A start that cannot save its state wedges the VM. When \<open>save_state\<close> fails, \<open>start_vm\<close> returns the
  error but leaves the VM running without a task. From then on, whatever clients, tasks and the host do, the
  VM stays in the running state with no task that could end it, so it can be neither started nor
  deleted.\<close>

theorem failed_start_wedges:
  assumes "lookup_vm mg vid = Some e" "en_state e = Created" "work mg vid = []" "save_state S (mg_disk mg) vid Running = (d, Inl err)"
  shows "\<exists>mg1. start_vm S A H vid mg = (mg1, Inl err) \<and>
    (\<forall>mg2. (any_step S A H)\<^sup>*\<^sup>* mg1 mg2 \<longrightarrow>
       (\<exists>e'. lookup_vm mg2 vid = Some e' \<and> en_state e' = Running) \<and> work mg2 vid = [] \<and>
       start_vm S A H vid mg2 = (mg2, Inl (InvalidState vid Running ''Created'')) \<and>
       delete_vm vid mg2 = (mg2, Inl (InvalidState vid Running ''Created, Stopped, or Failed'')))"
proof -
  let ?r = "length (mg_runs mg)"
  let ?e = "e\<lparr>en_stop_flag := Some ?r, en_state := Running, en_serial_buf := Some ?r\<rparr>"
  define mg1 where "mg1 = (put_vm mg vid ?e)\<lparr>mg_runs := mg_runs mg @ [\<lparr>run_vm = vid, run_stop = False,
    run_serial = the (serial_with_capacity DEFAULT_CAPACITY)\<rparr>], mg_disk := d\<rparr>"
  have st: "start_vm S A H vid mg = (mg1, Inl err)"
    using assms by (simp add: start_vm_def start_mark_def start_spawn_def on_disk_def Let_def mg1_def)
  have "stuck vid mg1" using assms(3) by (simp add: stuck_def mg1_def)
  then have "stuck vid mg2" if "(any_step S A H)\<^sup>*\<^sup>* mg1 mg2" for mg2 using stuck_reachable that by blast
  then show ?thesis
    using st by (fastforce simp: stuck_def start_vm_def start_mark_def delete_vm_def delete_remove_def)
qed

definition broken_disk :: Disk where
  "broken_disk = demo_disk\<lparr>disk_faults := (\<lambda>i. Some \<lparr>fault_error = ''disk full'', fault_left = vm_dir_empty, fault_kept = (\<lambda>p. True)\<rparr>)\<rparr>"

theorem failed_start_wedges_witness:
  "\<exists>mg1. start_vm demo_serde demo_agent demo_fs ''vm'' (running_demo broken_disk Created) = (mg1, Inl (DaemonIo ''disk full'')) \<and>
     delete_vm ''vm'' mg1 = (mg1, Inl (InvalidState ''vm'' Running ''Created, Stopped, or Failed''))"
proof -
  let ?mg = "running_demo broken_disk Created"
  have m: "lookup_vm ?mg ''vm'' = Some (fresh_entry demo_config Created)" "work ?mg ''vm'' = []"
    by (simp_all add: running_demo_def lookup_vm_def work_def fresh_entry_def)
  obtain d where d: "save_state demo_serde (mg_disk ?mg) ''vm'' Running = (d, Inl (DaemonIo ''disk full''))"
    by (simp add: save_state_def fs_create_dir_all_def fs_call_def running_demo_def broken_disk_def demo_disk_def)
  from failed_start_wedges [OF m(1) _ m(2) d, of demo_agent demo_fs] show ?thesis by fastforce
qed

section \<open>Two more observations\<close>

text \<open>
  The name \<open>.\<close> is accepted. Its directory is the store itself, so that deleting this VM removes the
  persisted state of all of them.
\<close>

lemma dot_id_deletes_all:
  assumes "healthy (mg_disk mg)" "lookup_vm mg ''.'' = Some e" "en_state e \<noteq> Running"
  shows "valid_id ''.'' \<and> (\<exists>mg'. delete_vm ''.'' mg = (mg', Inr ()) \<and> (\<forall>p. get_dir (mg_disk mg') p = None))"
proof -
  have "delete_vm ''.'' mg = ((remove_vm mg ''.'')\<lparr>mg_disk := (mg_disk mg)\<lparr>disk_ops := Suc (disk_ops (mg_disk mg)), disk_dirs := []\<rparr>\<rparr>, Inr ())"
    using assms healthy_call [OF assms(1)]
    by (simp add: delete_vm_def delete_remove_def on_disk_def store_delete_def fs_remove_dir_all_def vm_dir_def)
  moreover have "valid_id ''.''" by (auto simp: valid_id_def)
  ultimately show ?thesis by (simp add: get_dir_def)
qed

text \<open>
  The completion channel keeps the messages of VMs that ended earlier. With as many of them as VMs
  are running, \<open>stop_all_and_wait\<close> returns at once and every running VM is still running.
\<close>

lemma await_completions_stale:
  "n \<le> length (mg_completions mg) \<Longrightarrow> await_completions (\<lambda>i mg. mg) n mg = mg\<lparr>mg_completions := drop n (mg_completions mg)\<rparr>"
proof (induction n arbitrary: mg)
  case (Suc n)
  then obtain c cs where c: "mg_completions mg = c # cs" by (cases "mg_completions mg") auto
  then show ?case using Suc.IH [of "mg\<lparr>mg_completions := cs\<rparr>"] Suc.prems by (simp add: Let_def)
qed simp

lemma stop_all_counts_stale:
  assumes "running_count mg \<le> length (mg_completions mg)"
  shows "lookup_vm (stop_all_and_wait (\<lambda>i mg. mg) mg) = lookup_vm mg \<and>
    mg_completions (stop_all_and_wait (\<lambda>i mg. mg) mg) = drop (running_count mg) (mg_completions mg)"
proof -
  have "mg_completions (stop_all mg) = mg_completions mg" by (simp add: stop_all_def)
  then show ?thesis
    using await_completions_stale [of "running_count mg" "stop_all mg"] assms
    by (auto simp: stop_all_and_wait_def Let_def fun_eq_iff)
qed

end
