(* ===== verification/Router.thy ===== *)
theory Router
  imports Vm_Manager
begin

text \<open>
  The HTTP interface of the daemon (\<open>hitz-daemon/src/router.rs\<close>): paths are split into the VM name and a
  suffix, requests become calls of the manager, errors become status codes. The JSON library and the
  transport of request bodies are parameters. \<open>env\<close> is what the daemon does while a restart sleeps.
\<close>

section \<open>Model\<close>

datatype Method = GET | PUT | POST | DELETE | OtherMethod

datatype Body = JsonBody string | ErrorBody string | EmptyBody | SerialStream nat nat

record Response =
  rs_status :: nat
  rs_body :: Body

record Request =
  rq_method :: Method
  rq_path :: string
  rq_body :: "string + bytes"

record RouterSerde =
  info_to_json :: "VmInfo \<Rightarrow> string + string"
  list_to_json :: "VmInfo list \<Rightarrow> string + string"
  create_from_json :: "bytes \<Rightarrow> string + VmConfig"
  action_from_json :: "bytes \<Rightarrow> string + VmAction"
  clone_from_json :: "bytes \<Rightarrow> string + string"

fun splitn :: "nat \<Rightarrow> char \<Rightarrow> string \<Rightarrow> string list" where
  "splitn 0 c s = []"
| "splitn (Suc 0) c s = [s]"
| "splitn (Suc (Suc n)) c s =
     takeWhile (\<lambda>x. x \<noteq> c) s # (case dropWhile (\<lambda>x. x \<noteq> c) s of [] \<Rightarrow> [] | _ # rest \<Rightarrow> splitn (Suc n) c rest)"

definition error_response :: "nat \<Rightarrow> string \<Rightarrow> Response" where
  "error_response status message = \<lparr>rs_status = status, rs_body = ErrorBody message\<rparr>"

fun error_status :: "DaemonError \<Rightarrow> nat" where
  "error_status (NotFound i) = 404"
| "error_status (AlreadyExists i) = 409"
| "error_status (InvalidState i s e) = 409"
| "error_status (Vmm (VmConfigError e)) = 400"
| "error_status e = 500"

definition daemon_error_response :: "DaemonError \<Rightarrow> Response" where
  "daemon_error_response err = error_response (error_status err) (daemon_error_to_string err)"

definition json_response :: "nat \<Rightarrow> string + string \<Rightarrow> DaemonError + Response" where
  "json_response status json =
     (case json of
        Inl e \<Rightarrow> Inl (Internal (''JSON serialize: '' @ e))
      | Inr t \<Rightarrow> Inr \<lparr>rs_status = status, rs_body = JsonBody t\<rparr>)"

definition read_body :: "(bytes \<Rightarrow> string + 'a) \<Rightarrow> Request \<Rightarrow> DaemonError + 'a" where
  "read_body parse req =
     (case rq_body req of
        Inl e \<Rightarrow> Inl (Internal (''failed to read request body: '' @ e))
      | Inr body \<Rightarrow> map_err (\<lambda>e. Internal (''invalid JSON: '' @ e)) (parse body))"

definition reply :: "(Manager, DaemonError, 'a) attempt \<Rightarrow> ('a \<Rightarrow> DaemonError + Response) \<Rightarrow> (Manager, DaemonError, Response) attempt" where
  "reply r f = try_bind r (\<lambda>x mg. (mg, f x))"

definition handle_create :: "Serde \<Rightarrow> HostFs \<Rightarrow> RouterSerde \<Rightarrow> Request \<Rightarrow> string \<Rightarrow> Manager \<Rightarrow> (Manager, DaemonError, Response) attempt" where
  "handle_create S H J req vid mg =
     try_bind (mg, read_body (create_from_json J) req) (\<lambda>config mg.
     reply (create_vm S H vid config mg) (\<lambda>info. json_response 201 (info_to_json J info)))"

definition handle_get :: "RouterSerde \<Rightarrow> string \<Rightarrow> Manager \<Rightarrow> (Manager, DaemonError, Response) attempt" where
  "handle_get J vid mg = reply (mg, get_vm vid mg) (\<lambda>info. json_response 200 (info_to_json J info))"

definition handle_list :: "RouterSerde \<Rightarrow> Manager \<Rightarrow> (Manager, DaemonError, Response) attempt" where
  "handle_list J mg = (mg, json_response 200 (list_to_json J (list_vms mg)))"

definition handle_delete :: "string \<Rightarrow> Manager \<Rightarrow> (Manager, DaemonError, Response) attempt" where
  "handle_delete vid mg = reply (delete_vm vid mg) (\<lambda>_. Inr \<lparr>rs_status = 204, rs_body = EmptyBody\<rparr>)"

definition handle_action ::
  "Serde \<Rightarrow> AgentHost \<Rightarrow> HostFs \<Rightarrow> (nat \<Rightarrow> Manager \<Rightarrow> Manager) \<Rightarrow> RouterSerde \<Rightarrow> Request \<Rightarrow> string \<Rightarrow> Manager \<Rightarrow>
   (Manager, DaemonError, Response) attempt" where
  "handle_action S A H env J req vid mg =
     try_bind (mg, read_body (action_from_json J) req) (\<lambda>action mg.
     reply (case action of
              Start \<Rightarrow> start_vm S A H vid mg
            | Stop \<Rightarrow> stop_vm vid mg
            | Restart \<Rightarrow> restart_vm S A H env vid mg) (\<lambda>info. json_response 200 (info_to_json J info)))"

definition handle_clone :: "Serde \<Rightarrow> HostFs \<Rightarrow> RouterSerde \<Rightarrow> Request \<Rightarrow> string \<Rightarrow> Manager \<Rightarrow> (Manager, DaemonError, Response) attempt" where
  "handle_clone S H J req vid mg =
     try_bind (mg, read_body (clone_from_json J) req) (\<lambda>dest_id mg.
     reply (clone_vm S H vid dest_id mg) (\<lambda>info. json_response 201 (info_to_json J info)))"

definition handle_serial :: "string \<Rightarrow> Manager \<Rightarrow> (Manager, DaemonError, Response) attempt" where
  "handle_serial vid mg =
     reply (mg, manager_serial_reader vid mg) (\<lambda>(run, pos). Inr \<lparr>rs_status = 200, rs_body = SerialStream run pos\<rparr>)"

text \<open>\<open>request_metrics_snapshot\<close> always returns \<open>None\<close>.\<close>

definition handle_metrics :: "string \<Rightarrow> Manager \<Rightarrow> (Manager, DaemonError, Response) attempt" where
  "handle_metrics vid mg =
     (mg, Inr (error_response 503 ''vsock metrics not available (push-to-OTel mode active; on-demand pull not yet implemented)''))"

definition route_vm ::
  "Serde \<Rightarrow> AgentHost \<Rightarrow> HostFs \<Rightarrow> (nat \<Rightarrow> Manager \<Rightarrow> Manager) \<Rightarrow> RouterSerde \<Rightarrow> Request \<Rightarrow> string \<Rightarrow> string option \<Rightarrow> Manager \<Rightarrow>
   (Manager, DaemonError, Response) attempt" where
  "route_vm S A H env J req vid suffix mg =
     (let m = rq_method req in
      if m = PUT \<and> suffix = None then handle_create S H J req vid mg
      else if m = GET \<and> suffix = None then handle_get J vid mg
      else if m = GET \<and> suffix = Some ''serial'' then handle_serial vid mg
      else if m = GET \<and> suffix = Some ''metrics'' then handle_metrics vid mg
      else if m = DELETE \<and> suffix = None then handle_delete vid mg
      else if m = POST \<and> suffix = Some ''action'' then handle_action S A H env J req vid mg
      else if m = POST \<and> suffix = Some ''clone'' then handle_clone S H J req vid mg
      else (mg, Inr (error_response 405 ''method not allowed'')))"

definition route ::
  "Serde \<Rightarrow> AgentHost \<Rightarrow> HostFs \<Rightarrow> (nat \<Rightarrow> Manager \<Rightarrow> Manager) \<Rightarrow> RouterSerde \<Rightarrow> Request \<Rightarrow> Manager \<Rightarrow> Manager \<times> Response" where
  "route S A H env J req mg =
     (case (if rq_method req = GET \<and> rq_path req = ''/vms'' then handle_list J mg
            else if take 5 (rq_path req) = ''/vms/'' then
              (let segments = splitn 4 (CHR ''/'') (rq_path req) in
               case drop 2 segments of
                 vid # rest \<Rightarrow>
                   if vid \<noteq> '''' then route_vm S A H env J req vid (case rest of [] \<Rightarrow> None | suffix # _ \<Rightarrow> Some suffix) mg
                   else (mg, Inr (error_response 400 ''missing VM ID''))
               | [] \<Rightarrow> (mg, Inr (error_response 400 ''missing VM ID'')))
            else (mg, Inr (error_response 404 ''not found''))) of
        (mg, Inl e) \<Rightarrow> (mg, daemon_error_response e)
      | (mg, Inr r) \<Rightarrow> (mg, r))"

section \<open>Routing\<close>

text \<open>The two shapes of path that reach a VM.\<close>

lemma splitn_path:
  assumes "CHR ''/'' \<notin> set vid"
  shows "splitn 4 (CHR ''/'') (''/vms/'' @ vid) = ['''', ''vms'', vid]"
    "splitn 4 (CHR ''/'') (''/vms/'' @ vid @ ''/'' @ rest) = ['''', ''vms'', vid, rest]"
proof -
  have 1: "takeWhile (\<lambda>x. x \<noteq> CHR ''/'') vid = vid" "dropWhile (\<lambda>x. x \<noteq> CHR ''/'') vid = []"
    using assms by (auto simp: takeWhile_eq_all_conv dropWhile_eq_Nil_conv)
  have 2: "takeWhile (\<lambda>x. x \<noteq> CHR ''/'') (vid @ CHR ''/'' # rest) = vid" "dropWhile (\<lambda>x. x \<noteq> CHR ''/'') (vid @ CHR ''/'' # rest) = CHR ''/'' # rest"
    using assms by (induction vid) auto
  show "splitn 4 (CHR ''/'') (''/vms/'' @ vid) = ['''', ''vms'', vid]"
    "splitn 4 (CHR ''/'') (''/vms/'' @ vid @ ''/'' @ rest) = ['''', ''vms'', vid, rest]"
    by (simp_all add: numeral_eq_Suc 1 2)
qed

text \<open>Reading requests change nothing; a name in a path has no slash and is not empty.\<close>

lemma get_changes_nothing:
  assumes "rq_method req = GET"
  shows "fst (route S A H env J req mg) = mg"
proof -
  have r: "fst (case x of (mg, Inl e) \<Rightarrow> (mg, daemon_error_response e) | (mg, Inr r) \<Rightarrow> (mg, r)) = fst x"
    for x :: "(Manager, DaemonError, Response) attempt" by (simp split: prod.split sum.split)
  have k: "fst (reply (mg, x) f) = mg" for x :: "DaemonError + 'a" and f
    by (cases x) (simp_all add: reply_def)
  show ?thesis
    using assms unfolding route_def r
    by (simp add: route_vm_def handle_list_def handle_get_def handle_serial_def handle_metrics_def k Let_def split: list.split)
qed

lemma route_create:
  assumes "CHR ''/'' \<notin> set vid" "vid \<noteq> ''''" "rq_method req = PUT" "rq_path req = ''/vms/'' @ vid"
    and "rq_body req = Inr body" "create_from_json J body = Inr config"
  shows "route S A H env J req mg =
    (case create_vm S H vid config mg of
       (mg', Inl e) \<Rightarrow> (mg', daemon_error_response e)
     | (mg', Inr info) \<Rightarrow> (mg', case json_response 201 (info_to_json J info) of Inl e \<Rightarrow> daemon_error_response e | Inr r \<Rightarrow> r))"
  using assms splitn_path(1) [OF assms(1)]
  by (simp add: route_def route_vm_def handle_create_def read_body_def map_err_def reply_def try_bind_def Let_def split: prod.split sum.split)

end
