(* ===== verification/Daemon_Server.thy ===== *)
theory Daemon_Server
  imports Router
begin

text \<open>
  The daemon around the router: the listeners of \<open>hitz-daemon/src/server.rs\<close> on the named pipe and on
  TCP, the tasks that serve the connections, the body \<open>run_daemon_inner\<close> of
  \<open>hitz-cli/src/main.rs\<close>, which starts the server and drains the VMs, and the OpenTelemetry guard of
  \<open>hitz-daemon/src/telemetry.rs\<close>. What the operating system answers (creating a pipe instance,
  connecting, accepting, building an exporter) is a parameter of each operation. The channel
  \<open>shutdown\<close> carries one value, sent at most once: a listener sees a change exactly when it was sent.
\<close>

section \<open>Listeners\<close>

text \<open>\<open>Creating\<close>: at the head of the loop (pipe) or before \<open>bind\<close> (TCP). \<open>Waiting\<close>: in the \<open>select!\<close>.\<close>

datatype ListenerState = Creating | Waiting | ListenerEnded "string + unit"

text \<open>A TCP connection has the address of its peer.\<close>

datatype Transport = PipeConn | TcpConn string

record Conn =
  cn_transport :: Transport
  cn_replies :: "Response list"
  cn_open :: bool

record Server =
  sv_manager :: Manager
  sv_shutdown :: bool
  sv_first :: bool
  sv_pipe :: ListenerState
  sv_addr :: string
  sv_tcp :: "ListenerState option"
  sv_conns :: "Conn list"
  sv_log :: "string list"

text \<open>\<open>sv_log\<close> has the lines of the levels info and error.\<close>

definition run_server :: "string option \<Rightarrow> Manager \<Rightarrow> Server" where
  "run_server tcp_addr mg =
     \<lparr>sv_manager = mg, sv_shutdown = False, sv_first = True, sv_pipe = Creating,
      sv_addr = (case tcp_addr of None \<Rightarrow> '''' | Some addr \<Rightarrow> addr), sv_tcp = map_option (\<lambda>_. Creating) tcp_addr, sv_conns = [], sv_log = []\<rparr>"

definition sv_trace :: "string \<Rightarrow> Server \<Rightarrow> Server" where
  "sv_trace line sv = sv\<lparr>sv_log := sv_log sv @ [line]\<rparr>"

definition spawn_conn :: "Transport \<Rightarrow> Server \<Rightarrow> Server" where
  "spawn_conn t sv = sv\<lparr>sv_conns := sv_conns sv @ [\<lparr>cn_transport = t, cn_replies = [], cn_open = True\<rparr>]\<rparr>"

text \<open>\<open>run_pipe_listener\<close>: the pipe instance, then the first of a client and the shutdown.\<close>

definition pipe_create :: "(bool \<Rightarrow> string + unit) \<Rightarrow> Server \<Rightarrow> Server" where
  "pipe_create create sv =
     (case create (sv_first sv) of
        Inl e \<Rightarrow> sv\<lparr>sv_pipe := ListenerEnded (Inl e)\<rparr>
      | Inr _ \<Rightarrow> sv\<lparr>sv_first := False, sv_pipe := Waiting\<rparr>)"

definition pipe_connect :: "string + unit \<Rightarrow> Server \<Rightarrow> Server" where
  "pipe_connect result sv =
     (case result of
        Inl e \<Rightarrow> sv\<lparr>sv_pipe := ListenerEnded (Inl e)\<rparr>
      | Inr _ \<Rightarrow> spawn_conn PipeConn (sv\<lparr>sv_pipe := Creating\<rparr>))"

definition pipe_shutdown :: "Server \<Rightarrow> Server" where
  "pipe_shutdown sv = sv_trace ''pipe listener shutting down'' (sv\<lparr>sv_pipe := ListenerEnded (Inr ())\<rparr>)"

text \<open>\<open>run_tcp_listener\<close>, in the task that logs its error.\<close>

definition tcp_failed :: "string \<Rightarrow> Server \<Rightarrow> Server" where
  "tcp_failed e sv = sv_trace (''TCP listener error: '' @ e) (sv\<lparr>sv_tcp := Some (ListenerEnded (Inl e))\<rparr>)"

definition tcp_bind :: "string + unit \<Rightarrow> Server \<Rightarrow> Server" where
  "tcp_bind result sv = (case result of Inl e \<Rightarrow> tcp_failed e sv | Inr _ \<Rightarrow> sv_trace (''TCP listener bound to '' @ sv_addr sv) (sv\<lparr>sv_tcp := Some Waiting\<rparr>))"

definition tcp_accept :: "string + string \<Rightarrow> Server \<Rightarrow> Server" where
  "tcp_accept result sv = (case result of Inl e \<Rightarrow> tcp_failed e sv | Inr peer \<Rightarrow> spawn_conn (TcpConn peer) sv)"

definition tcp_shutdown :: "Server \<Rightarrow> Server" where
  "tcp_shutdown sv = sv_trace ''TCP listener shutting down'' (sv\<lparr>sv_tcp := Some (ListenerEnded (Inr ()))\<rparr>)"

text \<open>\<open>serve_connection\<close> with the router as its service.\<close>

definition serve_request ::
  "Serde \<Rightarrow> AgentHost \<Rightarrow> HostFs \<Rightarrow> (nat \<Rightarrow> Manager \<Rightarrow> Manager) \<Rightarrow> RouterSerde \<Rightarrow> nat \<Rightarrow> Request \<Rightarrow> Server \<Rightarrow> Server" where
  "serve_request S A H env J i req sv =
     (case route S A H env J req (sv_manager sv) of
        (mg, r) \<Rightarrow> sv\<lparr>sv_manager := mg, sv_conns := (sv_conns sv)[i := (sv_conns sv ! i)\<lparr>cn_replies := cn_replies (sv_conns sv ! i) @ [r]\<rparr>]\<rparr>)"

definition end_connection :: "string + unit \<Rightarrow> nat \<Rightarrow> Server \<Rightarrow> Server" where
  "end_connection result i sv =
     (let sv' = sv\<lparr>sv_conns := (sv_conns sv)[i := (sv_conns sv ! i)\<lparr>cn_open := False\<rparr>]\<rparr>;
          name = (case cn_transport (sv_conns sv ! i) of PipeConn \<Rightarrow> ''pipe connection error: '' | TcpConn peer \<Rightarrow> ''TCP connection error ('' @ peer @ ''): '')
      in case result of Inl e \<Rightarrow> sv_trace (name @ e) sv' | Inr _ \<Rightarrow> sv')"

text \<open>Requests of different connections and the VM tasks also interleave inside the manager: \<open>work\<close>.\<close>

inductive server_step :: "Serde \<Rightarrow> AgentHost \<Rightarrow> HostFs \<Rightarrow> RouterSerde \<Rightarrow> Server \<Rightarrow> Server \<Rightarrow> bool" for S A H J where
  pipe_created: "sv_pipe sv = Creating \<Longrightarrow> server_step S A H J sv (pipe_create create sv)"
| pipe_connected: "sv_pipe sv = Waiting \<Longrightarrow> server_step S A H J sv (pipe_connect result sv)"
| pipe_stopped: "sv_pipe sv = Waiting \<Longrightarrow> sv_shutdown sv \<Longrightarrow> server_step S A H J sv (pipe_shutdown sv)"
| tcp_bound: "sv_tcp sv = Some Creating \<Longrightarrow> server_step S A H J sv (tcp_bind result sv)"
| tcp_accepted: "sv_tcp sv = Some Waiting \<Longrightarrow> server_step S A H J sv (tcp_accept result sv)"
| tcp_stopped: "sv_tcp sv = Some Waiting \<Longrightarrow> sv_shutdown sv \<Longrightarrow> server_step S A H J sv (tcp_shutdown sv)"
| served: "i < length (sv_conns sv) \<Longrightarrow> cn_open (sv_conns sv ! i) \<Longrightarrow> (\<forall>j mg. (any_step S A H)\<^sup>*\<^sup>* mg (env j mg)) \<Longrightarrow>
    server_step S A H J sv (serve_request S A H env J i req sv)"
| conn_ended: "i < length (sv_conns sv) \<Longrightarrow> cn_open (sv_conns sv ! i) \<Longrightarrow> server_step S A H J sv (end_connection result i sv)"
| work: "any_step S A H (sv_manager sv) mg \<Longrightarrow> server_step S A H J sv (sv\<lparr>sv_manager := mg\<rparr>)"

section \<open>The daemon\<close>

text \<open>
  \<open>run_daemon_inner\<close>. \<open>Draining n\<close>: \<open>stop_all_and_wait\<close> waits for \<open>n\<close> more completions;
  \<open>Joining\<close>: it awaits the server task.
\<close>

datatype DaemonPhase = Serving | Draining nat | Joining | Finished

record Daemon =
  dm_server :: Server
  dm_phase :: DaemonPhase

definition daemon_start :: "Serde \<Rightarrow> string + unit \<Rightarrow> string option \<Rightarrow> Disk \<Rightarrow> Disk \<times> (string + Daemon)" where
  "daemon_start S whp tcp_addr d =
     (case whp of
        Inl e \<Rightarrow> (d, Inl (''WHP not available: '' @ e))
      | Inr _ \<Rightarrow>
          (case manager_new S d of
             (d', Inl e) \<Rightarrow> (d', Inl (''failed to initialize VM state store: '' @ daemon_error_to_string e))
           | (d', Inr mg) \<Rightarrow> (d', Inr \<lparr>dm_server = run_server tcp_addr mg, dm_phase = Serving\<rparr>)))"

definition daemon_stop :: "Daemon \<Rightarrow> Daemon" where
  "daemon_stop dm =
     (let sv = dm_server dm; n = running_count (sv_manager sv) in
      dm\<lparr>dm_server := sv\<lparr>sv_shutdown := True, sv_manager := stop_all (sv_manager sv)\<rparr>,
         dm_phase := if n = 0 then Joining else Draining n\<rparr>)"

definition daemon_recv :: "nat \<Rightarrow> Daemon \<Rightarrow> Daemon" where
  "daemon_recv n dm =
     (let sv = dm_server dm; mg = sv_manager sv in
      dm\<lparr>dm_server := sv\<lparr>sv_manager := mg\<lparr>mg_completions := tl (mg_completions mg)\<rparr>\<rparr>,
         dm_phase := if n = 0 then Joining else Draining n\<rparr>)"

inductive daemon_step :: "Serde \<Rightarrow> AgentHost \<Rightarrow> HostFs \<Rightarrow> RouterSerde \<Rightarrow> Daemon \<Rightarrow> Daemon \<Rightarrow> bool" for S A H J where
  serve: "server_step S A H J (dm_server dm) sv \<Longrightarrow> dm_phase dm \<noteq> Finished \<Longrightarrow> daemon_step S A H J dm (dm\<lparr>dm_server := sv\<rparr>)"
| stopped: "dm_phase dm = Serving \<Longrightarrow> daemon_step S A H J dm (daemon_stop dm)"
| received: "dm_phase dm = Draining (Suc n) \<Longrightarrow> mg_completions (sv_manager (dm_server dm)) \<noteq> [] \<Longrightarrow> daemon_step S A H J dm (daemon_recv n dm)"
| timed_out: "dm_phase dm = Draining n \<Longrightarrow> daemon_step S A H J dm (dm\<lparr>dm_phase := Joining\<rparr>)"
| joined: "dm_phase dm = Joining \<Longrightarrow> sv_pipe (dm_server dm) = ListenerEnded r \<Longrightarrow> daemon_step S A H J dm (dm\<lparr>dm_phase := Finished\<rparr>)"

section \<open>Telemetry\<close>

text \<open>
  A provider is named by its endpoint. Building an exporter may fail, or panic outside a runtime. The
  actions are those on the global state of OpenTelemetry and the log lines.
\<close>

record TelemetryGuard =
  tracer_provider :: "string option"
  meter_provider :: "string option"

datatype TelemetryAct = SetTracer string | SetMeter string | ShutMeter string | ShutTracer string | TelemetryLog string

definition telemetry_init ::
  "(string \<Rightarrow> (string, unit) outcome) \<Rightarrow> (string \<Rightarrow> (string, unit) outcome) \<Rightarrow> string option \<Rightarrow> (string, TelemetryAct list \<times> TelemetryGuard) outcome" where
  "telemetry_init span_exporter metric_exporter endpoint =
     (case endpoint of
        None \<Rightarrow> Ok ([], \<lparr>tracer_provider = None, meter_provider = None\<rparr>)
      | Some ep \<Rightarrow>
          (case span_exporter ep of
             Panic \<Rightarrow> Panic
           | Err e \<Rightarrow> Ok ([TelemetryLog (''OTel span exporter init failed: '' @ e @ ''; running without traces'')],
               \<lparr>tracer_provider = None, meter_provider = None\<rparr>)
           | Ok _ \<Rightarrow>
               (case metric_exporter ep of
                  Panic \<Rightarrow> Panic
                | Err e \<Rightarrow> Ok ([SetTracer ep, TelemetryLog (''OTel metric exporter init failed: '' @ e @ ''; running without metrics'')],
                    \<lparr>tracer_provider = Some ep, meter_provider = None\<rparr>)
                | Ok _ \<Rightarrow> Ok ([SetTracer ep, SetMeter ep, TelemetryLog ''OTel OTLP exporter initialised''],
                    \<lparr>tracer_provider = Some ep, meter_provider = Some ep\<rparr>))))"

definition tracing_layer :: "TelemetryGuard \<Rightarrow> string option" where
  "tracing_layer g = map_option (\<lambda>_. ''hitz'') (tracer_provider g)"

definition telemetry_drop :: "(string \<Rightarrow> string + unit) \<Rightarrow> (string \<Rightarrow> string + unit) \<Rightarrow> TelemetryGuard \<Rightarrow> TelemetryAct list" where
  "telemetry_drop shut_meter shut_tracer g =
     (case meter_provider g of
        None \<Rightarrow> []
      | Some ep \<Rightarrow> ShutMeter ep # (case shut_meter ep of Inl e \<Rightarrow> [TelemetryLog (''OpenTelemetry meter provider shutdown error: '' @ e)] | Inr _ \<Rightarrow> []))
     @ (case tracer_provider g of
        None \<Rightarrow> []
      | Some ep \<Rightarrow> ShutTracer ep # (case shut_tracer ep of Inl e \<Rightarrow> [TelemetryLog (''OpenTelemetry tracer provider shutdown error: '' @ e)] | Inr _ \<Rightarrow> []))"


section \<open>Laws of the manager carry over to requests\<close>

text \<open>
  A relation on managers that every step of the manager respects, and that does not look at the list
  of work in flight, is respected by every request: a handler runs the same sections one after the other.
\<close>

locale manager_law =
  fixes S :: Serde and A :: AgentHost and H :: HostFs and R :: "Manager \<Rightarrow> Manager \<Rightarrow> bool"
  assumes law_refl: "R mg mg"
    and law_trans: "R a b \<Longrightarrow> R b c \<Longrightarrow> R a c"
    and law_step: "mg_step S A H l a b \<Longrightarrow> R a b"
    and law_pending: "R mg (mg\<lparr>mg_pending := ps\<rparr>)"
begin

lemma law_steps: "(any_step S A H)\<^sup>*\<^sup>* a b \<Longrightarrow> R a b"
  by (induction rule: rtranclp_induct) (auto simp: any_step_def intro: law_refl law_trans law_step)

lemma law_unpend: "R a (b\<lparr>mg_pending := ps\<rparr>) \<Longrightarrow> R a b"
  using law_trans [of a "b\<lparr>mg_pending := ps\<rparr>" b] law_pending [of "b\<lparr>mg_pending := ps\<rparr>" "mg_pending b"] by simp

lemma law_section: "mg_step S A H l a (add_pending p b) \<Longrightarrow> R a b"
  by (rule law_unpend [where ps = "mg_pending b @ [p]"]) (auto simp: add_pending_def dest: law_step)

lemma law_rest:
  assumes "mg_step S A H Background (mg\<lparr>mg_pending := [p]\<rparr>) (mg'\<lparr>mg_pending := ps\<rparr>)"
  shows "R mg mg'"
  by (rule law_unpend [where ps = ps]) (rule law_trans [OF law_pending [of mg "[p]"] law_step [OF assms]])

lemma law_create: "R mg (fst (create_vm S H vid config mg))"
proof (cases "create_insert H vid config mg")
  case (Pair mg1 r)
  show ?thesis
  proof (cases r)
    case (Inl e)
    then have "mg1 = mg" using Pair by (auto simp: create_insert_def Let_def split: if_splits outcome.splits)
    then show ?thesis using Pair Inl by (simp add: create_vm_def law_refl)
  next
    case (Inr info)
    obtain mg2 res where p: "create_persist S vid config mg1 = (mg2, res)" by fastforce
    have "create_persist S vid config (mg1\<lparr>mg_pending := []\<rparr>) = (mg2\<lparr>mg_pending := []\<rparr>, res)"
      using p by (auto simp: create_persist_def try_bind_def on_disk_def remove_vm_def split: prod.splits sum.splits)
    then have "R mg1 mg2"
      by (intro law_rest [where p = "CreatePersist vid config" and ps = "[]"] mg_step.created [where vid = vid and config = config and res = res])
        (simp_all add: take_pending_def)
    moreover have "R mg mg1" using mg_step.create [of H vid config mg mg1 info S A] Pair Inr by (simp add: law_section)
    ultimately show ?thesis using Pair Inr p law_trans by (cases res) (auto simp: create_vm_def)
  qed
qed

lemma law_start: "R mg (fst (start_vm S A H vid mg))"
proof (cases "start_mark vid mg")
  case (Pair mg1 r)
  show ?thesis
  proof (cases r)
    case (Inl e)
    then have "mg1 = mg" using Pair by (auto simp: start_mark_def Let_def split: if_splits option.splits)
    then show ?thesis using Pair Inl by (simp add: start_vm_def law_refl)
  next
    case (Inr x)
    obtain config n info where x: "x = (config, n, info)" by (cases x)
    obtain mg2 res where p: "start_spawn S A H vid n config mg1 = (mg2, res)" by fastforce
    define ps where "ps = drop (length (mg_pending mg1)) (mg_pending mg2)"
    have "start_spawn S A H vid n config (mg1\<lparr>mg_pending := []\<rparr>) = (mg2\<lparr>mg_pending := ps\<rparr>, res)"
      using p by (auto simp: ps_def start_spawn_def try_bind_def on_disk_def add_pending_def Let_def split: prod.splits sum.splits)
    then have "R mg1 mg2"
      by (intro law_rest [where p = "StartPersist vid n config" and ps = ps] mg_step.started [where vid = vid and config = config and r = n and res = res])
        (simp_all add: take_pending_def)
    moreover have "R mg mg1" using mg_step.start [of vid mg mg1 config n info S A H] Pair Inr x by (simp add: law_section)
    ultimately show ?thesis using Pair Inr p x law_trans by (cases res) (auto simp: start_vm_def)
  qed
qed

lemma law_stop: "R mg (fst (stop_vm vid mg))"
proof (cases "stop_vm vid mg")
  case (Pair mg' r)
  show ?thesis
  proof (cases r)
    case (Inl e)
    then have "mg' = mg" using Pair by (auto simp: stop_vm_def split: if_splits option.splits)
    then show ?thesis using Pair by (simp add: law_refl)
  qed (use Pair law_step [OF mg_step.stop] in auto)
qed

lemma law_delete: "R mg (fst (delete_vm vid mg))"
proof (cases "delete_remove vid mg")
  case (Pair mg1 r)
  show ?thesis
  proof (cases r)
    case (Inl e)
    then have "mg1 = mg" using Pair by (auto simp: delete_remove_def split: if_splits option.splits)
    then show ?thesis using Pair Inl by (simp add: delete_vm_def law_refl)
  next
    case (Inr x)
    obtain mg2 res where p: "on_disk (\<lambda>d. store_delete d vid) mg1 = (mg2, res)" by fastforce
    then have "on_disk (\<lambda>d. store_delete d vid) (mg1\<lparr>mg_pending := []\<rparr>) = (mg2\<lparr>mg_pending := []\<rparr>, res)"
      by (auto simp: on_disk_def split: prod.splits)
    then have "R mg1 mg2"
      by (intro law_rest [where p = "DeleteStore vid" and ps = "[]"] mg_step.deleted [where vid = vid and res = res]) (simp_all add: take_pending_def)
    moreover have "R mg mg1" using mg_step.delete [of vid mg mg1 S A H] Pair Inr by (simp add: law_section)
    ultimately show ?thesis using Pair Inr p law_trans by (auto simp: delete_vm_def)
  qed
qed

lemma law_await: "(\<And>i mg. R mg (env i mg)) \<Longrightarrow> R mg (fst (await_stop env vid is mg))"
  by (induction "is" arbitrary: mg) (auto simp: Let_def law_refl split: sum.split intro: law_trans)

lemma law_bind: "R mg (fst x) \<Longrightarrow> (\<And>y mg'. R mg' (fst (f y mg'))) \<Longrightarrow> R mg (fst (try_bind x f))"
  by (auto simp: try_bind_def split: prod.split sum.split intro: law_trans)

lemma law_restart:
  assumes "\<And>i mg. R mg (env i mg)"
  shows "R mg (fst (restart_vm S A H env vid mg))"
  unfolding restart_vm_def
  by (intro law_bind law_stop law_await assms) (auto intro: law_refl law_trans assms law_start)

lemma law_reply: "R mg (fst x) \<Longrightarrow> R mg (fst (reply x f))"
  unfolding reply_def by (intro law_bind) (simp_all add: law_refl)

lemma law_route:
  assumes "\<And>i mg. R mg (env i mg)"
  shows "R mg (fst (route S A H env J req mg))"
proof -
  have x: "fst (case x of (mg, Inl e) \<Rightarrow> (mg, daemon_error_response e) | (mg, Inr r) \<Rightarrow> (mg, r)) = fst x"
    for x :: "(Manager, DaemonError, Response) attempt" by (simp split: prod.split sum.split)
  have "R mg (fst (handle_create S H J req vid mg))" "R mg (fst (handle_delete vid mg))" for vid
    unfolding handle_create_def handle_delete_def
    by (intro law_bind law_reply; simp add: law_refl law_create law_delete law_reply)+
  moreover have "R mg (fst (handle_action S A H env J req vid mg))" for vid
    unfolding handle_action_def
    by (intro law_bind law_reply) (auto simp: law_refl law_start law_stop law_restart assms split: VmAction.split)
  moreover have "R mg (fst (handle_clone S H J req vid mg))" for vid
    unfolding handle_clone_def clone_vm_def
    by (intro law_bind law_reply) (auto simp: law_refl law_create split: option.split)
  moreover have "R mg (fst (handle_get J vid mg))" "R mg (fst (handle_serial vid mg))" for vid
    unfolding handle_get_def handle_serial_def by (intro law_reply; simp add: law_refl)+
  ultimately have "R mg (fst (route_vm S A H env J req vid suffix mg))" for vid suffix
    by (simp add: route_vm_def handle_metrics_def law_refl Let_def)
  then show ?thesis
    unfolding route_def x by (simp add: handle_list_def law_refl Let_def split: list.split)
qed

lemma law_server:
  assumes "server_step S A H J sv sv'"
  shows "R (sv_manager sv) (sv_manager sv')"
  using assms
proof cases
  case (served i env req)
  have "R mg (env j mg)" for j mg using served(4) law_steps by blast
  then have "R (sv_manager sv) (fst (route S A H env J req (sv_manager sv)))" by (rule law_route)
  then show ?thesis using served(1) by (simp add: serve_request_def split: prod.splits)
qed (auto simp: pipe_create_def pipe_connect_def pipe_shutdown_def tcp_bind_def tcp_accept_def tcp_shutdown_def tcp_failed_def
    sv_trace_def spawn_conn_def end_connection_def any_step_def Let_def law_refl law_step split: sum.splits)

lemma law_daemon:
  assumes "daemon_step S A H J dm dm'"
  shows "R (sv_manager (dm_server dm)) (sv_manager (dm_server dm'))"
  using assms
proof cases
  case (received n)
  then obtain c cs where "mg_completions (sv_manager (dm_server dm)) = c # cs" by (cases "mg_completions (sv_manager (dm_server dm))") auto
  then show ?thesis using received(1) law_step [OF mg_step.received] by (simp add: daemon_recv_def Let_def)
qed (auto simp: daemon_stop_def Let_def law_refl law_step [OF mg_step.stop_every] dest: law_server)

lemma law_daemon_run: "(daemon_step S A H J)\<^sup>*\<^sup>* dm dm' \<Longrightarrow> R (sv_manager (dm_server dm)) (sv_manager (dm_server dm'))"
  by (induction rule: rtranclp_induct) (auto intro: law_refl law_trans law_daemon)

end


section \<open>Stop requests are kept\<close>

definition stops_kept :: "Run list \<Rightarrow> Run list \<Rightarrow> bool" where
  "stops_kept rs rs' \<longleftrightarrow> same_runs rs rs' \<and> (\<forall>r<length rs. run_stop (rs ! r) \<longrightarrow> run_stop (rs' ! r))"

lemma stops_kept_refl [simp]: "stops_kept rs rs" by (simp add: stops_kept_def)

lemma stops_kept_trans: "stops_kept a b \<Longrightarrow> stops_kept b c \<Longrightarrow> stops_kept a c"
  by (auto simp: stops_kept_def same_runs_def)

lemma stops_kept_set: "run_vm x = run_vm (rs ! r) \<Longrightarrow> (run_stop (rs ! r) \<longrightarrow> run_stop x) \<Longrightarrow> stops_kept rs (rs[r := x])"
  by (cases "r < length rs") (auto simp: stops_kept_def same_runs_set nth_list_update)

lemma stops_kept_ops: "stops_kept rs (raise_flag f rs)" "stops_kept rs (close_serial f rs)" "stops_kept rs (rs @ [x])"
proof -
  show "stops_kept rs (raise_flag f rs)" "stops_kept rs (close_serial f rs)"
    by (auto simp: raise_flag_def close_serial_def intro: stops_kept_set split: option.split)
  show "stops_kept rs (rs @ [x])" by (simp add: stops_kept_def same_runs_append nth_append)
qed

text \<open>\<open>stop_all\<close>, one VM after the other.\<close>

definition raise_flags :: "(string \<times> VmEntry) list \<Rightarrow> Run list \<Rightarrow> Run list" where
  "raise_flags vms rs = foldl (\<lambda>runs (vid, e). if en_state e = Running then raise_flag (en_stop_flag e) runs else runs) rs vms"

lemma raise_flags_simps [simp]:
  "raise_flags [] rs = rs"
  "raise_flags ((vid, e) # vms) rs = raise_flags vms (if en_state e = Running then raise_flag (en_stop_flag e) rs else rs)"
  by (simp_all add: raise_flags_def)

lemma stop_all_runs: "mg_runs (stop_all mg) = raise_flags (mg_vms mg) (mg_runs mg)"
  by (simp add: stop_all_def raise_flags_def)

lemma raise_flags_kept: "stops_kept rs (raise_flags vms rs)"
proof (induction vms arbitrary: rs)
  case (Cons x vms)
  then show ?case by (cases x) (auto intro: stops_kept_trans stops_kept_ops(1))
qed simp

lemma raise_flags_raises:
  "(vid, e) \<in> set vms \<Longrightarrow> en_state e = Running \<Longrightarrow> en_stop_flag e = Some r \<Longrightarrow> r < length rs \<Longrightarrow> run_stop (raise_flags vms rs ! r)"
proof (induction vms arbitrary: rs)
  case (Cons x vms)
  obtain v e' where x: "x = (v, e')" by (cases x)
  define rs' where "rs' = (if en_state e' = Running then raise_flag (en_stop_flag e') rs else rs)"
  have l: "length rs' = length rs" by (simp add: rs'_def raise_flag_def split: option.split)
  show ?case
  proof (cases "(vid, e) \<in> set vms")
    case True
    then show ?thesis using Cons l by (simp add: x flip: rs'_def)
  next
    case False
    then have "run_stop (rs' ! r)" using Cons.prems x by (simp add: rs'_def raise_flag_def)
    then show ?thesis using raise_flags_kept [of rs' vms] l Cons.prems(4) by (simp add: x stops_kept_def flip: rs'_def)
  qed
qed simp

lemma stops_kept_step: "mg_step S A H l mg mg' \<Longrightarrow> stops_kept (mg_runs mg) (mg_runs mg')"
proof (induction rule: mg_step.induct)
  case (start vid mg mg' config r info)
  then show ?case using start_mark_cases [OF start] by (force simp: stops_kept_ops)
next
  case (stop vid mg mg' info)
  then show ?case using stop_vm_cases [OF stop] by (auto simp: stops_kept_ops)
next
  case (exit vid r config mg res mg' save)
  from exit(2) show ?case by (cases rule: task_exit_cases) (auto simp: stops_kept_ops)
next
  case (saved vid st mg)
  obtain mg1 res where x: "on_disk (\<lambda>d. save_state S d vid st) (take_pending (ExitPersist vid st) mg) = (mg1, res)" by fastforce
  then show ?case using on_disk_keeps(2) [OF x] by (simp add: exit_persist_def)
qed (auto simp: stop_all_runs raise_flags_kept stops_kept_set put_vm_def remove_vm_def dest: create_insert_cases delete_remove_cases
    create_persist_keeps(1) start_spawn_keeps(1) on_disk_keeps(2))

interpretation flags: manager_law S A H "\<lambda>mg mg'. flags_ok mg \<longrightarrow> flags_ok mg'" for S A H
  by unfold_locales (auto dest: flags_ok_step intro: flags_ok_runs)

interpretation stops: manager_law S A H "\<lambda>mg mg'. stops_kept (mg_runs mg) (mg_runs mg')" for S A H
  by unfold_locales (auto dest: stops_kept_step intro: stops_kept_trans)

section \<open>Shutdown\<close>

text \<open>The phase tells whether the shutdown was sent, and the daemon ends only after its pipe listener.\<close>

definition phase_ok :: "Daemon \<Rightarrow> bool" where
  "phase_ok dm \<longleftrightarrow> (sv_shutdown (dm_server dm) \<longleftrightarrow> dm_phase dm \<noteq> Serving) \<and>
     (dm_phase dm = Finished \<longrightarrow> (\<exists>r. sv_pipe (dm_server dm) = ListenerEnded r))"

lemmas server_op_defs = pipe_create_def pipe_connect_def pipe_shutdown_def tcp_bind_def tcp_accept_def tcp_shutdown_def
  tcp_failed_def sv_trace_def spawn_conn_def end_connection_def serve_request_def

lemma server_keeps:
  assumes "server_step S A H J sv sv'"
  shows "sv_shutdown sv' = sv_shutdown sv" "sv_pipe sv = ListenerEnded r \<Longrightarrow> sv_pipe sv' = ListenerEnded r"
  using assms by (cases; auto simp: server_op_defs Let_def split: sum.splits prod.splits)+

lemma phase_ok_step: "daemon_step S A H J dm dm' \<Longrightarrow> phase_ok dm \<Longrightarrow> phase_ok dm'"
  by (induction rule: daemon_step.induct) (auto simp: phase_ok_def daemon_stop_def daemon_recv_def Let_def server_keeps)

lemma phase_ok_run: "(daemon_step S A H J)\<^sup>*\<^sup>* dm dm' \<Longrightarrow> phase_ok dm \<Longrightarrow> phase_ok dm'"
  by (induction rule: rtranclp_induct) (auto intro: phase_ok_step)

lemma stopping_run: "(daemon_step S A H J)\<^sup>*\<^sup>* dm dm' \<Longrightarrow> dm_phase dm \<noteq> Serving \<Longrightarrow> dm_phase dm' \<noteq> Serving"
  by (induction rule: rtranclp_induct) (auto simp: daemon_recv_def Let_def elim!: daemon_step.cases split: if_splits)

lemma daemon_start_ok:
  assumes "daemon_start S whp tcp_addr d = (d', Inr dm)"
  shows "phase_ok dm" "flags_ok (sv_manager (dm_server dm))" "dm_phase dm = Serving"
  using assms manager_new_flags [of S d d']
  by (auto simp: daemon_start_def phase_ok_def run_server_def split: sum.splits prod.splits)

text \<open>After the shutdown was sent the daemon can end without touching the manager, whatever the system answers.\<close>

lemma daemon_can_finish:
  assumes "phase_ok dm" "dm_phase dm \<noteq> Serving"
  shows "\<exists>dm'. (daemon_step S A H J)\<^sup>*\<^sup>* dm dm' \<and> dm_phase dm' = Finished \<and> sv_manager (dm_server dm') = sv_manager (dm_server dm)"
proof -
  let ?R = "(daemon_step S A H J)\<^sup>*\<^sup>*"
  have join: "\<exists>dm'. ?R dm dm' \<and> dm_phase dm' = Finished \<and> sv_manager (dm_server dm') = sv_manager (dm_server dm)"
    if "dm_phase dm = Joining" "sv_pipe (dm_server dm) = ListenerEnded r" for dm r
    using daemon_step.joined [OF that, of S A H J] by (intro exI [of _ "dm\<lparr>dm_phase := Finished\<rparr>"]) auto
  have wait: "\<exists>dm'. ?R dm dm' \<and> dm_phase dm' = Finished \<and> sv_manager (dm_server dm') = sv_manager (dm_server dm)"
    if d: "dm_phase dm = Joining" "sv_pipe (dm_server dm) = Waiting" "sv_shutdown (dm_server dm)" for dm
  proof -
    let ?d = "dm\<lparr>dm_server := pipe_shutdown (dm_server dm)\<rparr>"
    have "daemon_step S A H J dm ?d" using d by (intro daemon_step.serve server_step.pipe_stopped) auto
    moreover have "dm_phase ?d = Joining" "sv_pipe (dm_server ?d) = ListenerEnded (Inr ())" "sv_manager (dm_server ?d) = sv_manager (dm_server dm)"
      using d by (simp_all add: server_op_defs)
    ultimately show ?thesis using join [of ?d] by (metis converse_rtranclp_into_rtranclp)
  qed
  have any: "\<exists>dm'. ?R dm dm' \<and> dm_phase dm' = Finished \<and> sv_manager (dm_server dm') = sv_manager (dm_server dm)"
    if d: "dm_phase dm = Joining" "sv_shutdown (dm_server dm)" for dm
  proof (cases "sv_pipe (dm_server dm)")
    case Creating
    let ?d = "dm\<lparr>dm_server := pipe_create (\<lambda>_. Inr ()) (dm_server dm)\<rparr>"
    have "daemon_step S A H J dm ?d" using d Creating by (intro daemon_step.serve server_step.pipe_created) auto
    moreover have "dm_phase ?d = Joining" "sv_pipe (dm_server ?d) = Waiting" "sv_shutdown (dm_server ?d)"
      "sv_manager (dm_server ?d) = sv_manager (dm_server dm)"
      using d by (simp_all add: server_op_defs)
    ultimately show ?thesis using wait [of ?d] by (metis converse_rtranclp_into_rtranclp)
  qed (use d wait join in auto)
  show ?thesis
  proof (cases "dm_phase dm")
    case (Draining n)
    have "daemon_step S A H J dm (dm\<lparr>dm_phase := Joining\<rparr>)" by (rule daemon_step.timed_out [OF Draining])
    then show ?thesis using any [of "dm\<lparr>dm_phase := Joining\<rparr>"] assms Draining
      by (auto simp: phase_ok_def intro: converse_rtranclp_into_rtranclp)
  qed (use assms any in \<open>auto simp: phase_ok_def\<close>)
qed


section \<open>Replies\<close>

text \<open>The shape of a reply: which status codes come with which body.\<close>

fun body_status :: "Body \<Rightarrow> nat set" where
  "body_status (JsonBody t) = {200, 201}"
| "body_status (SerialStream run pos) = {200}"
| "body_status EmptyBody = {204}"
| "body_status (ErrorBody t) = {400, 404, 405, 409, 500, 503}"

definition response_ok :: "Response \<Rightarrow> bool" where
  "response_ok r \<longleftrightarrow> rs_status r \<in> body_status (rs_body r)"

definition reply_ok :: "(Manager, DaemonError, Response) attempt \<Rightarrow> bool" where
  "reply_ok x \<longleftrightarrow> (case snd x of Inl e \<Rightarrow> True | Inr r \<Rightarrow> response_ok r)"

lemma daemon_error_ok: "response_ok (daemon_error_response e)"
  by (cases e rule: error_status.cases) (simp_all add: daemon_error_response_def error_response_def response_ok_def)

lemma reply_okI:
  "(\<And>mg. reply_ok (mg, json_response 200 j))" "(\<And>mg. reply_ok (mg, json_response 201 j))"
  "(\<And>y mg. reply_ok (mg, f y)) \<Longrightarrow> reply_ok (reply x f)" "(\<And>y mg. reply_ok (g y mg)) \<Longrightarrow> reply_ok (try_bind z g)"
proof -
  show "reply_ok (mg, json_response 200 j)" "reply_ok (mg, json_response 201 j)" for mg
    by (simp_all add: reply_ok_def json_response_def response_ok_def split: sum.split)
  show bind: "reply_ok (try_bind z g)" if "\<And>y mg. reply_ok (g y mg)"
    for z :: "(Manager, DaemonError, 'c) attempt" and g
    using that by (cases z; cases "snd z") (auto simp: reply_ok_def)
  show "reply_ok (reply x f)" if "\<And>y mg. reply_ok (mg, f y)"
    unfolding reply_def using that by (cases x; cases "snd x") (auto simp: reply_ok_def)
qed

lemma route_vm_ok: "reply_ok (route_vm S A H env J req vid suffix mg)"
proof -
  have "reply_ok (handle_create S H J req vid mg)" "reply_ok (handle_get J vid mg)" "reply_ok (handle_action S A H env J req vid mg)"
    "reply_ok (handle_clone S H J req vid mg)"
    unfolding handle_create_def handle_get_def handle_action_def handle_clone_def by (intro reply_okI)+
  moreover have "reply_ok (handle_delete vid mg)" "reply_ok (handle_serial vid mg)"
    unfolding handle_delete_def handle_serial_def by (intro reply_okI(3); simp add: reply_ok_def response_ok_def split: prod.split)+
  moreover have "reply_ok (handle_metrics vid mg)" "reply_ok (mg, Inr (error_response 405 ''method not allowed''))"
    by (simp_all add: handle_metrics_def reply_ok_def response_ok_def error_response_def)
  ultimately show ?thesis by (simp add: route_vm_def Let_def)
qed

lemma route_ok: "response_ok (snd (route S A H env J req mg))"
proof -
  have "response_ok (snd (case x of (mg, Inl e) \<Rightarrow> (mg, daemon_error_response e) | (mg, Inr r) \<Rightarrow> (mg, r)))" if "reply_ok x"
    for x :: "(Manager, DaemonError, Response) attempt"
    using that by (auto simp: reply_ok_def daemon_error_ok split: prod.split sum.split)
  moreover have "reply_ok (mg, Inr (error_response 400 t))" "reply_ok (mg, Inr (error_response 404 t))" for t
    by (simp_all add: reply_ok_def response_ok_def error_response_def)
  moreover have "reply_ok (handle_list J mg)" unfolding handle_list_def by (rule reply_okI)
  ultimately show ?thesis unfolding route_def by (simp add: route_vm_ok Let_def split: list.split)
qed

definition replies_ok :: "Server \<Rightarrow> bool" where
  "replies_ok sv \<longleftrightarrow> (\<forall>c\<in>set (sv_conns sv). \<forall>r\<in>set (cn_replies c). response_ok r)"

lemma replies_ok_step:
  assumes "server_step S A H J sv sv'" "replies_ok sv"
  shows "replies_ok sv'"
  using assms(1)
proof cases
  case (served i env req)
  have "response_ok r" if "route S A H env J req (sv_manager sv) = (mg, r)" for mg r
    using route_ok [of S A H env J req "sv_manager sv"] that by simp
  then show ?thesis
    using assms(2) served(1,2) by (auto simp: serve_request_def replies_ok_def dest!: set_update_subset_insert [THEN subsetD] nth_mem split: prod.splits)
next
  case (conn_ended i result)
  then show ?thesis
    using assms(2) by (auto simp: end_connection_def sv_trace_def replies_ok_def Let_def dest!: set_update_subset_insert [THEN subsetD] nth_mem split: sum.splits)
qed (use assms(2) in \<open>auto simp: server_op_defs replies_ok_def split: sum.splits\<close>)

section \<open>Properties\<close>

text \<open>C12: The shutdown of the daemon. Whatever clients, VM tasks and the system do before and
  after it, the manager stays consistent; once the shutdown is requested, the stop flag of every VM
  that was running at that moment is raised and stays raised until the daemon ends; the daemon
  ends only when its pipe listener has, and it can always reach its end.\<close>

theorem daemon_shutdown_sound:
  assumes "daemon_start S whp tcp_addr d = (d', Inr dm0)" "(daemon_step S A H J)\<^sup>*\<^sup>* dm0 dm1" "dm_phase dm1 = Serving"
    and "(daemon_step S A H J)\<^sup>*\<^sup>* (daemon_stop dm1) dm2"
  shows "flags_ok (sv_manager (dm_server dm2)) \<and>
    (\<forall>vid e. lookup_vm (sv_manager (dm_server dm1)) vid = Some e \<and> en_state e = Running \<longrightarrow>
       (\<exists>r. en_stop_flag e = Some r \<and> run_vm (mg_runs (sv_manager (dm_server dm2)) ! r) = vid \<and>
            run_stop (mg_runs (sv_manager (dm_server dm2)) ! r))) \<and>
    (dm_phase dm2 = Finished \<longrightarrow> (\<exists>res. sv_pipe (dm_server dm2) = ListenerEnded res)) \<and>
    (\<exists>dm3. (daemon_step S A H J)\<^sup>*\<^sup>* dm2 dm3 \<and> dm_phase dm3 = Finished)"
proof -
  let ?mg1 = "sv_manager (dm_server dm1)" and ?mg2 = "sv_manager (dm_server dm2)"
  note start = daemon_start_ok [OF assms(1)]
  have step: "daemon_step S A H J dm1 (daemon_stop dm1)" by (rule daemon_step.stopped [OF assms(3)])
  have f1: "flags_ok ?mg1" using flags.law_daemon_run [OF assms(2)] start(2) by simp
  have f2: "flags_ok ?mg2" using flags.law_daemon_run [OF assms(4)] flags.law_daemon [OF step] f1 by blast
  have p2: "phase_ok dm2" by (rule phase_ok_run [OF assms(4) phase_ok_step [OF step phase_ok_run [OF assms(2) start(1)]]])
  have k: "stops_kept (mg_runs (stop_all ?mg1)) (mg_runs ?mg2)"
    using stops.law_daemon_run [OF assms(4)] by (simp add: daemon_stop_def Let_def)
  have s2: "dm_phase dm2 \<noteq> Serving"
    by (rule stopping_run [OF assms(4)]) (simp add: daemon_stop_def Let_def)
  have "\<exists>r. en_stop_flag e = Some r \<and> run_vm (mg_runs ?mg2 ! r) = vid \<and> run_stop (mg_runs ?mg2 ! r)"
    if e: "lookup_vm ?mg1 vid = Some e" "en_state e = Running" for vid e
  proof -
    obtain r where r: "en_stop_flag e = Some r" "r < length (mg_runs ?mg1)" "run_vm (mg_runs ?mg1 ! r) = vid"
      using flags_ok_entry [OF f1 e(1)] e(2) by (auto simp: entry_ok_def run_of_def)
    have "run_stop (mg_runs (stop_all ?mg1) ! r)"
      using e r by (auto simp: stop_all_runs lookup_vm_def dest: map_of_SomeD intro: raise_flags_raises)
    then show ?thesis using r k same_runs_stop_all [of ?mg1] by (auto simp: stops_kept_def same_runs_def)
  qed
  then show ?thesis using f2 p2 daemon_can_finish [OF p2 s2, of S A H J] by (auto simp: phase_ok_def)
qed

lemma conns_kept:
  assumes "cn_transport c = cn_transport (cs ! i)"
  shows "length (filter (\<lambda>c. cn_transport c = t) (cs[i := c])) = length (filter (\<lambda>c. cn_transport c = t) cs)"
proof -
  have "map cn_transport (cs[i := c]) = map cn_transport cs" by (metis assms list_update_id map_update)
  then have "length (filter (\<lambda>x. x = t) (map cn_transport (cs[i := c]))) = length (filter (\<lambda>x. x = t) (map cn_transport cs))" by simp
  then show ?thesis by (simp add: filter_map comp_def)
qed

text \<open>A failed connection attempt ends the pipe listener: no client reaches the daemon through the
  pipe any more, although the daemon goes on until it is asked to stop, and its result is success.\<close>

theorem failed_connect_ends_listener:
  assumes "phase_ok dm" "dm_phase dm = Serving" "sv_pipe (dm_server dm) = Waiting"
    and "(daemon_step S A H J)\<^sup>*\<^sup>* (dm\<lparr>dm_server := pipe_connect (Inl e) (dm_server dm)\<rparr>) dm'"
  shows "daemon_step S A H J dm (dm\<lparr>dm_server := pipe_connect (Inl e) (dm_server dm)\<rparr>) \<and>
    sv_pipe (dm_server dm') = ListenerEnded (Inl e) \<and>
    length (filter (\<lambda>c. cn_transport c = PipeConn) (sv_conns (dm_server dm'))) =
      length (filter (\<lambda>c. cn_transport c = PipeConn) (sv_conns (dm_server dm))) \<and>
    (\<not> sv_shutdown (dm_server dm') \<longrightarrow> dm_phase dm' = Serving)"
proof -
  let ?dm = "dm\<lparr>dm_server := pipe_connect (Inl e) (dm_server dm)\<rparr>"
  let ?n = "\<lambda>sv. length (filter (\<lambda>c. cn_transport c = PipeConn) (sv_conns sv))"
  have s: "daemon_step S A H J dm ?dm" using assms(2,3) by (intro daemon_step.serve server_step.pipe_connected) auto
  have n: "?n sv' = ?n sv" if "server_step S A H J sv sv'" "sv_pipe sv = ListenerEnded (Inl e)" for sv sv'
    using that(1)
    by cases (use that(2) in \<open>auto simp: server_op_defs conns_kept Let_def split: sum.splits prod.splits\<close>)
  have "sv_pipe (dm_server dm') = ListenerEnded (Inl e) \<and> ?n (dm_server dm') = ?n (dm_server dm)"
    using assms(4)
  proof (induction rule: rtranclp_induct)
    case base
    then show ?case by (simp add: pipe_connect_def)
  next
    case (step y z)
    from step(2) show ?case
      by cases (use step(3) n server_keeps(2) in \<open>auto simp: daemon_stop_def daemon_recv_def Let_def\<close>)
  qed
  then show ?thesis using s phase_ok_run [OF assms(4) phase_ok_step [OF s assms(1)]] by (auto simp: phase_ok_def)
qed



text \<open>
  The listeners stop, the connections do not: a client connected before the shutdown can still start
  a VM after \<open>stop_all_and_wait\<close> has raised the flags, and the daemon ends while that VM runs
  with its stop flag down.
\<close>

lemma start_vm_marks:
  assumes "lookup_vm mg vid = Some e" "en_state e = Created"
  shows "\<exists>e'. lookup_vm (fst (start_vm S A H vid mg)) vid = Some e' \<and> en_state e' = Running \<and> en_stop_flag e' = Some (length (mg_runs mg)) \<and>
    \<not> run_stop (mg_runs (fst (start_vm S A H vid mg)) ! length (mg_runs mg))"
proof -
  obtain mg1 config r info where m: "start_mark vid mg = (mg1, Inr (config, r, info))"
    using assms by (auto simp: start_mark_def Let_def)
  obtain mg2 res where p: "start_spawn S A H vid r config mg1 = (mg2, res)" by fastforce
  have "fst (start_vm S A H vid mg) = mg2" using m p by (cases res) (auto simp: start_vm_def)
  moreover have "lookup_vm mg2 vid = lookup_vm mg1 vid" "mg_runs mg2 = mg_runs mg1"
    using start_spawn_keeps(1,2) [OF p] by (simp_all add: lookup_vm_def)
  moreover have "r = length (mg_runs mg)" "mg_runs mg1 ! r = \<lparr>run_vm = vid, run_stop = False, run_serial = the (serial_with_capacity DEFAULT_CAPACITY)\<rparr>"
    "lookup_vm mg1 vid = Some (e\<lparr>en_stop_flag := Some r, en_state := Running, en_serial_buf := Some r\<rparr>)"
    using m assms by (auto simp: start_mark_def Let_def)
  ultimately show ?thesis by simp
qed

lemma late_start_outlives_shutdown:
  fixes req :: Request
  assumes "phase_ok dm" "dm_phase dm \<in> {Draining n, Joining}" "i < length (sv_conns (dm_server dm))" "cn_open (sv_conns (dm_server dm) ! i)"
    and "lookup_vm (sv_manager (dm_server dm)) vid = Some e" "en_state e = Created" "vid \<noteq> ''''" "CHR ''/'' \<notin> set vid"
    and "rq_method req = POST" "rq_path req = ''/vms/'' @ vid @ ''/action''" "rq_body req = Inr body" "action_from_json J body = Inr Start"
  shows "\<exists>dm' e' r. (daemon_step S A H J)\<^sup>*\<^sup>* dm dm' \<and> dm_phase dm' = Finished \<and>
    lookup_vm (sv_manager (dm_server dm')) vid = Some e' \<and> en_state e' = Running \<and> en_stop_flag e' = Some r \<and>
    \<not> run_stop (mg_runs (sv_manager (dm_server dm')) ! r)"
proof -
  let ?env = "\<lambda>i :: nat. \<lambda>mg :: Manager. mg" and ?mg = "sv_manager (dm_server dm)"
  let ?d = "dm\<lparr>dm_server := serve_request S A H ?env J i req (dm_server dm)\<rparr>"
  have s: "daemon_step S A H J dm ?d" using assms(2-4) by (intro daemon_step.serve server_step.served) auto
  have "fst (route S A H ?env J req ?mg) = fst (start_vm S A H vid ?mg)"
    using splitn_path(2) [OF assms(8), of "''action''"] assms(7,9-12)
    by (simp add: route_def route_vm_def handle_action_def read_body_def map_err_def reply_def try_bind_def Let_def split: prod.split sum.split)
  then have m: "sv_manager (dm_server ?d) = fst (start_vm S A H vid ?mg)" 
    by (cases "route S A H ?env J req ?mg") (simp add: serve_request_def)
  have "dm_phase ?d \<noteq> Serving" using assms(2) by auto
  from daemon_can_finish [OF phase_ok_step [OF s assms(1)] this, of S A H J]
  obtain dm' where d: "(daemon_step S A H J)\<^sup>*\<^sup>* ?d dm'" "dm_phase dm' = Finished" "sv_manager (dm_server dm') = sv_manager (dm_server ?d)" by auto
  have "(daemon_step S A H J)\<^sup>*\<^sup>* dm dm'" using s d(1) by (rule converse_rtranclp_into_rtranclp)
  with d(2,3) m start_vm_marks [OF assms(5,6), of S A H] show ?thesis by (metis (no_types, lifting))
qed

text \<open>Every provider that was installed is shut down exactly once by the guard, meters first.\<close>

lemma telemetry_balanced:
  assumes "telemetry_init span metric endpoint = Ok (acts, g)"
  shows "filter (\<lambda>a. case a of TelemetryLog _ \<Rightarrow> False | _ \<Rightarrow> True) (telemetry_drop shut_meter shut_tracer g) =
    rev (concat (map (\<lambda>a. case a of SetTracer ep \<Rightarrow> [ShutTracer ep] | SetMeter ep \<Rightarrow> [ShutMeter ep] | _ \<Rightarrow> []) acts))"
  using assms by (auto simp: telemetry_init_def telemetry_drop_def split: option.splits outcome.splits sum.splits)

lemma telemetry_off: "telemetry_init span metric None = Ok ([], \<lparr>tracer_provider = None, meter_provider = None\<rparr>)"
  by (simp add: telemetry_init_def)

section \<open>An example\<close>

lemma work_run:
  assumes "(any_step S A H)\<^sup>*\<^sup>* (sv_manager (dm_server dm)) mg" "dm_phase dm \<noteq> Finished"
  shows "(daemon_step S A H J)\<^sup>*\<^sup>* dm (dm\<lparr>dm_server := (dm_server dm)\<lparr>sv_manager := mg\<rparr>\<rparr>)"
  using assms(1)
proof (induction rule: rtranclp_induct)
  case (step y z)
  let ?d = "\<lambda>mg. dm\<lparr>dm_server := (dm_server dm)\<lparr>sv_manager := mg\<rparr>\<rparr>"
  have "daemon_step S A H J (?d y) ((?d y)\<lparr>dm_server := (dm_server (?d y))\<lparr>sv_manager := z\<rparr>\<rparr>)"
    using assms(2) step(2) by (intro daemon_step.serve server_step.work) simp_all
  then show ?case using step(3) by simp
qed simp

text \<open>A daemon that has created and started one VM, and is then asked to stop.\<close>

lemma demo_daemon:
  "\<exists>d' dm0 dm1 e. daemon_start demo_serde (Inr ()) None demo_disk = (d', Inr dm0) \<and> (daemon_step demo_serde demo_agent demo_fs J)\<^sup>*\<^sup>* dm0 dm1 \<and>
     dm_phase dm1 = Serving \<and> sv_pipe (dm_server dm1) = Creating \<and> sv_conns (dm_server dm1) = [] \<and>
     lookup_vm (sv_manager (dm_server dm1)) ''vm'' = Some e \<and> en_state e = Running"
proof -
  obtain d' mg0 mg where m: "manager_new demo_serde demo_disk = (d', Inr mg0)" "demo_step\<^sup>*\<^sup>* mg0 mg"
    "lookup_vm mg ''vm'' = Some (fresh_entry demo_config Created)" using demo_created by blast
  obtain mg1 c r info where s: "start_mark ''vm'' mg = (mg1, Inr (c, r, info))" using m(3) by (auto simp: start_mark_def Let_def)
  let ?mg = "add_pending (StartPersist ''vm'' r c) mg1"
  have "(any_step demo_serde demo_agent demo_fs)\<^sup>*\<^sup>* mg0 mg" using m(2) by (rule rtranclp_mono [THEN predicate2D, rotated]) (auto intro: serial_any)
  then have r: "(any_step demo_serde demo_agent demo_fs)\<^sup>*\<^sup>* mg0 ?mg"
    using mg_step.start [OF s, of demo_serde demo_agent demo_fs] by (meson any_step_def rtranclp.rtrancl_into_rtrancl)
  define dm0 where "dm0 = \<lparr>dm_server = run_server None mg0, dm_phase = Serving\<rparr>"
  have "daemon_start demo_serde (Inr ()) None demo_disk = (d', Inr dm0)" using m(1) by (simp add: daemon_start_def dm0_def)
  moreover have "(daemon_step demo_serde demo_agent demo_fs J)\<^sup>*\<^sup>* dm0 (dm0\<lparr>dm_server := (dm_server dm0)\<lparr>sv_manager := ?mg\<rparr>\<rparr>)"
    using r by (intro work_run) (simp_all add: dm0_def run_server_def)
  moreover have "\<exists>e. lookup_vm ?mg ''vm'' = Some e \<and> en_state e = Running" using s m(3) by (auto simp: start_mark_def Let_def)
  ultimately show ?thesis by (fastforce simp: dm0_def run_server_def)
qed

definition demo_replies :: RouterSerde where
  "demo_replies = \<lparr>info_to_json = (\<lambda>i. Inr (vi_id i)), list_to_json = (\<lambda>is. Inr (concat (map vi_id is))),
     create_from_json = (\<lambda>b. Inl ''expected value''), action_from_json = (\<lambda>b. Inr Start), clone_from_json = (\<lambda>b. Inl ''expected value'')\<rparr>"

theorem daemon_shutdown_sound_witness:
  "\<exists>d' dm0 dm1 e r. daemon_start demo_serde (Inr ()) None demo_disk = (d', Inr dm0) \<and>
     (daemon_step demo_serde demo_agent demo_fs demo_replies)\<^sup>*\<^sup>* dm0 dm1 \<and> dm_phase dm1 = Serving \<and>
     lookup_vm (sv_manager (dm_server dm1)) ''vm'' = Some e \<and> en_state e = Running \<and> en_stop_flag e = Some r \<and>
     run_stop (mg_runs (sv_manager (dm_server (daemon_stop dm1))) ! r)"
proof -
  obtain d' dm0 dm1 e where d: "daemon_start demo_serde (Inr ()) None demo_disk = (d', Inr dm0)"
    "(daemon_step demo_serde demo_agent demo_fs demo_replies)\<^sup>*\<^sup>* dm0 dm1" "dm_phase dm1 = Serving"
    "lookup_vm (sv_manager (dm_server dm1)) ''vm'' = Some e" "en_state e = Running" using demo_daemon by blast
  from daemon_shutdown_sound [OF d(1-3) rtranclp.rtrancl_refl] d show ?thesis by blast
qed

theorem failed_connect_ends_listener_witness:
  "\<exists>dm. dm_phase dm = Serving \<and> sv_pipe (dm_server dm) = Waiting \<and>
     daemon_step demo_serde demo_agent demo_fs demo_replies dm (dm\<lparr>dm_server := pipe_connect (Inl ''pipe is being closed'') (dm_server dm)\<rparr>)"
proof -
  obtain d' dm0 where d: "daemon_start demo_serde (Inr ()) None demo_disk = (d', Inr dm0)"
    using demo_daemon [of demo_replies] by blast
  define dm where "dm = dm0\<lparr>dm_server := pipe_create (\<lambda>_. Inr ()) (dm_server dm0)\<rparr>"
  have c: "sv_pipe (dm_server dm0) = Creating" using d by (auto simp: daemon_start_def run_server_def split: sum.splits prod.splits)
  have s: "daemon_step demo_serde demo_agent demo_fs demo_replies dm0 dm"
    unfolding dm_def using c daemon_start_ok(3) [OF d] by (intro daemon_step.serve server_step.pipe_created) auto
  have "dm_phase dm = Serving" "sv_pipe (dm_server dm) = Waiting"
    using daemon_start_ok(3) [OF d] by (simp_all add: dm_def pipe_create_def)
  then show ?thesis using failed_connect_ends_listener [OF phase_ok_step [OF s daemon_start_ok(1) [OF d]] _ _ rtranclp.rtrancl_refl] by blast
qed


end
