(* ===== verification/Rust_Float.thy ===== *)
theory Rust_Float
  imports Rust_Fmt Complex_Main
begin

text \<open>
  The floating-point types \<open>f32\<close> and \<open>f64\<close> as the sources use them: IEEE 754 binary formats with
  rounding to nearest, ties to even. A finite value is the rational number it denotes; the two zeros
  are one. Every operation computes exactly and rounds once. Proved of the rounding: it is monotone,
  keeps the values of the format, and is odd.
\<close>

section \<open>Formats and values\<close>

datatype fl = Fin rat | Inf bool | NaN

record format =
  fmt_prec :: nat
  fmt_emin :: int
  fmt_emax :: int

definition f32 :: format where
  "f32 = \<lparr>fmt_prec = 24, fmt_emin = -149, fmt_emax = 128\<rparr>"

definition f64 :: format where
  "f64 = \<lparr>fmt_prec = 53, fmt_emin = -1074, fmt_emax = 1024\<rparr>"

section \<open>Rounding\<close>

definition half_even :: "rat \<Rightarrow> int" where
  "half_even x =
     (let n = \<lfloor>x\<rfloor>; r = x - of_int n in
      if r < 1 / 2 then n else if 1 / 2 < r then n + 1 else if even n then n else n + 1)"

function bit_length :: "int \<Rightarrow> int" where
  "bit_length n = (if n \<le> 0 then 0 else 1 + bit_length (n div 2))"
  by auto

termination
  by (relation "measure nat") auto

declare bit_length.simps [simp del]

definition pow2 :: "int \<Rightarrow> rat" where
  "pow2 k = (if 0 \<le> k then 2 ^ nat k else 1 / 2 ^ nat (- k))"

text \<open>The exponent of a positive number: \<open>pow2 e \<le> x < pow2 (e + 1)\<close>.\<close>

definition ilog2 :: "rat \<Rightarrow> int" where
  "ilog2 x =
     (let (n, d) = quotient_of x; k = bit_length n - bit_length d in
      if pow2 k \<le> x then k else k - 1)"

definition quantum :: "format \<Rightarrow> rat \<Rightarrow> int" where
  "quantum F x = max (ilog2 x - (int (fmt_prec F) - 1)) (fmt_emin F)"

definition round_pos :: "format \<Rightarrow> rat \<Rightarrow> rat" where
  "round_pos F x = (let e = quantum F x in of_int (half_even (x / pow2 e)) * pow2 e)"

definition rnd :: "format \<Rightarrow> rat \<Rightarrow> rat" where
  "rnd F x = (if x = 0 then 0 else if 0 < x then round_pos F x else - round_pos F (- x))"

definition fl_round :: "format \<Rightarrow> rat \<Rightarrow> fl" where
  "fl_round F x = (let r = rnd F x in if pow2 (fmt_emax F) \<le> \<bar>r\<bar> then Inf (r < 0) else Fin r)"

section \<open>Operations\<close>

fun fl_neg :: "fl \<Rightarrow> fl" where
  "fl_neg (Fin a) = Fin (- a)"
| "fl_neg (Inf s) = Inf (\<not> s)"
| "fl_neg NaN = NaN"

fun fl_add :: "format \<Rightarrow> fl \<Rightarrow> fl \<Rightarrow> fl" where
  "fl_add F (Fin a) (Fin b) = fl_round F (a + b)"
| "fl_add F (Inf s) (Inf t) = (if s = t then Inf s else NaN)"
| "fl_add F (Inf s) (Fin b) = Inf s"
| "fl_add F (Fin a) (Inf t) = Inf t"
| "fl_add F NaN y = NaN"
| "fl_add F x NaN = NaN"

definition fl_sub :: "format \<Rightarrow> fl \<Rightarrow> fl \<Rightarrow> fl" where
  "fl_sub F x y = fl_add F x (fl_neg y)"

fun fl_mul :: "format \<Rightarrow> fl \<Rightarrow> fl \<Rightarrow> fl" where
  "fl_mul F (Fin a) (Fin b) = fl_round F (a * b)"
| "fl_mul F (Inf s) (Inf t) = Inf (s \<noteq> t)"
| "fl_mul F (Inf s) (Fin b) = (if b = 0 then NaN else Inf (s \<noteq> (b < 0)))"
| "fl_mul F (Fin a) (Inf t) = (if a = 0 then NaN else Inf ((a < 0) \<noteq> t))"
| "fl_mul F NaN y = NaN"
| "fl_mul F x NaN = NaN"

fun fl_div :: "format \<Rightarrow> fl \<Rightarrow> fl \<Rightarrow> fl" where
  "fl_div F (Fin a) (Fin b) = (if b = 0 then if a = 0 then NaN else Inf (a < 0) else fl_round F (a / b))"
| "fl_div F (Inf s) (Inf t) = NaN"
| "fl_div F (Inf s) (Fin b) = Inf (s \<noteq> (b < 0))"
| "fl_div F (Fin a) (Inf t) = Fin 0"
| "fl_div F NaN y = NaN"
| "fl_div F x NaN = NaN"

text \<open>\<open>mul_add\<close>: one rounding.\<close>

fun fl_mul_add :: "format \<Rightarrow> fl \<Rightarrow> fl \<Rightarrow> fl \<Rightarrow> fl" where
  "fl_mul_add F (Fin a) (Fin b) (Fin c) = fl_round F (a * b + c)"
| "fl_mul_add F x y z = fl_add F (fl_mul F x y) z"

fun fl_abs :: "fl \<Rightarrow> fl" where
  "fl_abs (Fin a) = Fin \<bar>a\<bar>"
| "fl_abs (Inf s) = Inf False"
| "fl_abs NaN = NaN"

fun fl_less :: "fl \<Rightarrow> fl \<Rightarrow> bool" where
  "fl_less (Fin a) (Fin b) \<longleftrightarrow> a < b"
| "fl_less (Inf s) (Inf t) \<longleftrightarrow> s \<and> \<not> t"
| "fl_less (Inf s) (Fin b) \<longleftrightarrow> s"
| "fl_less (Fin a) (Inf t) \<longleftrightarrow> \<not> t"
| "fl_less NaN y \<longleftrightarrow> False"
| "fl_less x NaN \<longleftrightarrow> False"

definition fl_clamp :: "fl \<Rightarrow> fl \<Rightarrow> fl \<Rightarrow> fl" where
  "fl_clamp x lo hi = (let x = (if fl_less x lo then lo else x) in if fl_less hi x then hi else x)"

definition fl_min :: "fl \<Rightarrow> fl \<Rightarrow> fl" where
  "fl_min x y = (if x = NaN then y else if y = NaN then x else if fl_less y x then y else x)"

text \<open>Conversions: from an integer, to another format, and the saturating cast to an unsigned integer.\<close>

definition fl_of_nat :: "format \<Rightarrow> nat \<Rightarrow> fl" where
  "fl_of_nat F n = fl_round F (of_nat n)"

fun fl_cast :: "format \<Rightarrow> fl \<Rightarrow> fl" where
  "fl_cast F (Fin a) = fl_round F a"
| "fl_cast F x = x"

fun fl_to_word :: "fl \<Rightarrow> 'a::len word" where
  "fl_to_word (Fin a) = (if a \<le> 0 then 0 else if of_nat (2 ^ LENGTH('a)) \<le> a then - 1 else of_int \<lfloor>a\<rfloor>)"
| "fl_to_word (Inf s) = (if s then 0 else - 1)"
| "fl_to_word NaN = 0"

text \<open>\<open>sqrt\<close>, correctly rounded: the integer square root of the scaled number, and one comparison with the
  midpoint to the next one.\<close>

function isqrt :: "int \<Rightarrow> int" where
  "isqrt n = (if n \<le> 0 then 0 else let r = 2 * isqrt (n div 4) in if (r + 1) * (r + 1) \<le> n then r + 1 else r)"
  by auto

termination
  by (relation "measure nat") auto

declare isqrt.simps [simp del]

definition sqrt_pos :: "format \<Rightarrow> rat \<Rightarrow> rat" where
  "sqrt_pos F x =
     (let e = max (ilog2 x div 2 - (int (fmt_prec F) - 1)) (fmt_emin F); y = x / pow2 (2 * e); m = isqrt \<lfloor>y\<rfloor>;
          h = (of_int m + 1 / 2) * (of_int m + 1 / 2) in
      of_int (if y < h then m else if h < y then m + 1 else if even m then m else m + 1) * pow2 e)"

fun fl_sqrt :: "format \<Rightarrow> fl \<Rightarrow> fl" where
  "fl_sqrt F (Fin a) = (if a < 0 then NaN else if a = 0 then Fin 0 else Fin (sqrt_pos F a))"
| "fl_sqrt F (Inf s) = (if s then NaN else Inf s)"
| "fl_sqrt F NaN = NaN"

text \<open>\<open>str::parse\<close>: an optional sign, then \<open>inf\<close>, \<open>infinity\<close> or \<open>nan\<close> in any case, or digits with an optional
  fraction and exponent.\<close>

definition is_digit :: "char \<Rightarrow> bool" where
  "is_digit c \<longleftrightarrow> 48 \<le> (of_char c :: nat) \<and> (of_char c :: nat) \<le> 57"

definition to_lower :: "char \<Rightarrow> char" where
  "to_lower c = (let k = of_char c :: nat in if 65 \<le> k \<and> k \<le> 90 then char_of (k + 32) else c)"

definition digits_val :: "string \<Rightarrow> nat" where
  "digits_val s = foldl (\<lambda>a c. a * 10 + (of_char c - 48)) 0 s"

definition split_sign :: "string \<Rightarrow> bool \<times> string" where
  "split_sign s = (case s of c # cs \<Rightarrow> if c = CHR ''-'' then (True, cs) else if c = CHR ''+'' then (False, cs) else (False, s) | [] \<Rightarrow> (False, s))"

definition parse_exponent :: "string \<Rightarrow> int option" where
  "parse_exponent s =
     (case s of [] \<Rightarrow> Some 0
      | c # cs \<Rightarrow>
          if to_lower c = CHR ''e''
          then let (neg, ds) = split_sign cs in
            if ds \<noteq> [] \<and> list_all is_digit ds then Some ((if neg then - 1 else 1) * int (digits_val ds)) else None
          else None)"

definition parse_number :: "string \<Rightarrow> rat option" where
  "parse_number s =
     (let a = takeWhile is_digit s; rest = dropWhile is_digit s;
          (b, rest) = (case rest of c # cs \<Rightarrow> if c = CHR ''.'' then (takeWhile is_digit cs, dropWhile is_digit cs) else ([], rest)
                       | [] \<Rightarrow> ([], [])) in
      if a = [] \<and> b = [] then None
      else map_option (\<lambda>e. of_nat (digits_val (a @ b)) * 10 powi (e - int (length b))) (parse_exponent rest))"

definition parse_fl :: "format \<Rightarrow> string \<Rightarrow> fl option" where
  "parse_fl F s =
     (let (neg, t) = split_sign s; l = map to_lower t in
      if l = ''inf'' \<or> l = ''infinity'' then Some (Inf neg)
      else if l = ''nan'' then Some NaN
      else map_option (\<lambda>x. fl_round F (if neg then - x else x)) (parse_number t))"

text \<open>\<open>{:.1}\<close>: the exact value to one decimal, ties to even.\<close>

fun show_fl1 :: "fl \<Rightarrow> string" where
  "show_fl1 (Fin a) =
     (let n = nat (half_even (\<bar>a\<bar> * 10)) in
      (if a < 0 then ''-'' else '''') @ show_dec (n div 10) @ ''.'' @ show_dec (n mod 10))"
| "show_fl1 (Inf s) = (if s then ''-inf'' else ''inf'')"
| "show_fl1 NaN = ''NaN''"

section \<open>Rounding to an integer\<close>

lemma half_even_of_int [simp]: "half_even (of_int n) = n"
  by (simp add: half_even_def)

lemma half_even_floor: "half_even x = \<lfloor>x\<rfloor> \<or> half_even x = \<lfloor>x\<rfloor> + 1"
  by (simp add: half_even_def Let_def)

lemma half_even_mono: "x \<le> y \<Longrightarrow> half_even x \<le> half_even y"
proof (cases "\<lfloor>x\<rfloor> = \<lfloor>y\<rfloor>")
  case True
  assume "x \<le> y"
  with True show ?thesis by (auto simp: half_even_def Let_def)
next
  case False
  assume "x \<le> y"
  with False have "\<lfloor>x\<rfloor> + 1 \<le> \<lfloor>y\<rfloor>" using floor_mono [of x y] by linarith
  with half_even_floor [of x] half_even_floor [of y] show ?thesis by linarith
qed

lemma half_even_le_int: "x \<le> of_int n \<Longrightarrow> half_even x \<le> n"
  using half_even_mono [of x "of_int n"] by simp

lemma half_even_ge_int: "of_int n \<le> x \<Longrightarrow> n \<le> half_even x"
  using half_even_mono [of "of_int n" x] by simp

section \<open>Powers of two and exponents\<close>

lemma pow2_pos [simp]: "0 < pow2 k"
  by (simp add: pow2_def)

lemma pow2_nz [simp]: "pow2 k \<noteq> 0" "0 \<le> pow2 k"
  using pow2_pos [of k] by linarith+

lemma pow2_powi: "pow2 k = 2 powi k"
  by (simp add: pow2_def power_int_def power_one_over inverse_eq_divide)

lemma pow2_add: "pow2 (a + b) = pow2 a * pow2 b"
  by (simp add: pow2_powi power_int_add)

lemma pow2_less: "a < b \<Longrightarrow> pow2 a < pow2 b"
  unfolding pow2_powi by (rule power_int_strict_increasing) simp_all

lemma pow2_le_iff [simp]: "pow2 a \<le> pow2 b \<longleftrightarrow> a \<le> b"
  using pow2_less [of a b] pow2_less [of b a] by (cases a b rule: linorder_cases) auto

lemma pow2_less_iff [simp]: "pow2 a < pow2 b \<longleftrightarrow> a < b"
  using pow2_le_iff [of b a] by linarith

lemma pow2_of_int: "0 \<le> k \<Longrightarrow> pow2 k = of_int (2 ^ nat k)"
  by (simp add: pow2_def)

lemma bit_length_bounds: "0 < n \<Longrightarrow> 1 \<le> bit_length n \<and> 2 ^ nat (bit_length n - 1) \<le> n \<and> n < 2 ^ nat (bit_length n)"
proof (induction n rule: bit_length.induct)
  case (1 n)
  show ?case
  proof (cases "n div 2 \<le> 0")
    case True
    with "1.prems" have "n = 1" by linarith
    then show ?thesis by (simp add: bit_length.simps)
  next
    case False
    let ?b = "bit_length (n div 2)"
    from False "1.IH" "1.prems" have IH: "1 \<le> ?b" "2 ^ nat (?b - 1) \<le> n div 2" "n div 2 < 2 ^ nat ?b" by simp_all
    have "nat ?b = Suc (nat (?b - 1))" "nat (?b + 1) = Suc (nat ?b)" using IH(1) by linarith+
    then have "(2 :: int) ^ nat ?b = 2 * 2 ^ nat (?b - 1)" "(2 :: int) ^ nat (1 + ?b) = 2 * 2 ^ nat ?b"
      by (simp_all add: add.commute)
    with IH have "2 ^ nat ?b \<le> n" "n < 2 ^ nat (1 + ?b)" by linarith+
    with "1.prems" IH(1) show ?thesis by (simp add: bit_length.simps [of n])
  qed
qed

lemma bit_length_pow2:
  assumes "0 < n"
  shows "pow2 (bit_length n - 1) \<le> of_int n" "of_int n < pow2 (bit_length n)"
proof -
  have b: "1 \<le> bit_length n" "2 ^ nat (bit_length n - 1) \<le> n" "n < 2 ^ nat (bit_length n)"
    using bit_length_bounds [OF assms] by auto
  have "(of_int (2 ^ nat (bit_length n - 1)) :: rat) \<le> of_int n" "(of_int n :: rat) < of_int (2 ^ nat (bit_length n))"
    using b(2,3) by (simp_all only: of_int_le_iff of_int_less_iff)
  with b(1) show "pow2 (bit_length n - 1) \<le> of_int n" "of_int n < pow2 (bit_length n)"
    by (simp_all add: pow2_def)
qed

lemma ilog2_bounds:
  assumes "0 < x"
  shows "pow2 (ilog2 x) \<le> x" "x < pow2 (ilog2 x + 1)"
proof -
  obtain n d where q: "quotient_of x = (n, d)" by (cases "quotient_of x")
  have d: "0 < d" by (rule quotient_of_denom_pos [OF q])
  have x: "x = of_int n / of_int d" by (rule quotient_of_div [OF q])
  have n: "0 < n" using assms d x by (simp add: zero_less_divide_iff)
  let ?a = "bit_length n" and ?b = "bit_length d"
  note nb = bit_length_pow2 [OF n] and db = bit_length_pow2 [OF d]
  have up: "x < pow2 (?a - ?b + 1)"
  proof -
    have "x < pow2 ?a / of_int d" using nb(2) d by (simp add: x divide_strict_right_mono)
    also have "\<dots> \<le> pow2 ?a / pow2 (?b - 1)" using db(1) d by (intro divide_left_mono) (simp_all add: mult_pos_pos)
    also have "\<dots> = pow2 (?a - ?b + 1)" using pow2_add [of "?a - ?b + 1" "?b - 1"] by (simp add: field_simps)
    finally show ?thesis .
  qed
  have low: "pow2 (?a - ?b - 1) \<le> x"
  proof -
    have "pow2 (?a - ?b - 1) = pow2 (?a - 1) / pow2 ?b" using pow2_add [of "?a - ?b - 1" ?b] by (simp add: field_simps)
    also have "\<dots> \<le> pow2 (?a - 1) / of_int d" using db(2) d by (intro divide_left_mono) (simp_all add: mult_pos_pos)
    also have "\<dots> \<le> x" using nb(1) d by (simp add: x divide_right_mono)
    finally show ?thesis .
  qed
  have i: "ilog2 x = (if pow2 (?a - ?b) \<le> x then ?a - ?b else ?a - ?b - 1)" by (simp add: ilog2_def q Let_def)
  show "pow2 (ilog2 x) \<le> x" "x < pow2 (ilog2 x + 1)" using low up by (simp_all add: i not_le)
qed

lemma ilog2_mono: "0 < x \<Longrightarrow> x \<le> y \<Longrightarrow> ilog2 x \<le> ilog2 y"
proof (rule ccontr)
  assume "0 < x" "x \<le> y" "\<not> ilog2 x \<le> ilog2 y"
  then have "pow2 (ilog2 y + 1) \<le> pow2 (ilog2 x)" by simp
  with ilog2_bounds [of x] ilog2_bounds [of y] \<open>0 < x\<close> \<open>x \<le> y\<close> show False by linarith
qed

section \<open>Rounding to a format\<close>

abbreviation fmt_ok :: "format \<Rightarrow> bool" where
  "fmt_ok F \<equiv> 0 < fmt_prec F"

lemma round_pos_nonneg: "0 < x \<Longrightarrow> 0 \<le> round_pos F x"
  using half_even_ge_int [of 0 "x / pow2 (quantum F x)"] by (simp add: round_pos_def Let_def)

text \<open>A power of two at or above the quantum is never crossed.\<close>

lemma round_pos_le_pow2:
  assumes "0 < x" "x \<le> pow2 k" "quantum F x \<le> k"
  shows "round_pos F x \<le> pow2 k"
proof -
  let ?e = "quantum F x"
  have "pow2 k = of_int (2 ^ nat (k - ?e)) * pow2 ?e" using pow2_add [of "k - ?e" ?e] assms(3) by (simp add: pow2_of_int)
  moreover have "x / pow2 ?e \<le> of_int (2 ^ nat (k - ?e))"
    using assms(2) calculation by (simp add: divide_le_eq)
  ultimately show ?thesis using half_even_le_int by (simp add: round_pos_def Let_def mult_right_mono)
qed

lemma round_pos_ge_pow2:
  assumes "0 < x" "pow2 k \<le> x" "quantum F x \<le> k"
  shows "pow2 k \<le> round_pos F x"
proof -
  let ?e = "quantum F x"
  have "pow2 k = of_int (2 ^ nat (k - ?e)) * pow2 ?e" using pow2_add [of "k - ?e" ?e] assms(3) by (simp add: pow2_of_int)
  moreover have "of_int (2 ^ nat (k - ?e)) \<le> x / pow2 ?e"
    using assms(2) calculation by (simp add: le_divide_eq)
  ultimately show ?thesis using half_even_ge_int by (simp add: round_pos_def Let_def mult_right_mono)
qed

lemma round_pos_mono:
  assumes "0 < x" "x \<le> y" "fmt_ok F"
  shows "round_pos F x \<le> round_pos F y"
proof (cases "quantum F x = quantum F y")
  case True
  have "x / pow2 (quantum F y) \<le> y / pow2 (quantum F y)" using assms(2) by (simp add: divide_right_mono)
  from half_even_mono [OF this] show ?thesis by (simp add: round_pos_def True Let_def mult_right_mono)
next
  case False
  have y: "0 < y" using assms by linarith
  have "ilog2 x \<le> ilog2 y" by (rule ilog2_mono [OF assms(1,2)])
  with False have q: "quantum F y = ilog2 y - (int (fmt_prec F) - 1)" "quantum F x \<le> quantum F y" "ilog2 x < ilog2 y"
    by (auto simp: quantum_def max_def split: if_splits)
  have "pow2 (ilog2 x + 1) \<le> pow2 (ilog2 y)" using q(3) by simp
  then have "x \<le> pow2 (ilog2 y)" using ilog2_bounds(2) [OF assms(1)] by linarith
  moreover have "quantum F x \<le> ilog2 y" "quantum F y \<le> ilog2 y" using q assms(3) by linarith+
  ultimately have "round_pos F x \<le> pow2 (ilog2 y)" "pow2 (ilog2 y) \<le> round_pos F y"
    using round_pos_le_pow2 [OF assms(1)] round_pos_ge_pow2 [OF y ilog2_bounds(1) [OF y]] by simp_all
  then show ?thesis by linarith
qed

lemma rnd_0 [simp]: "rnd F 0 = 0"
  by (simp add: rnd_def)

lemma rnd_nonneg: "0 \<le> x \<Longrightarrow> 0 \<le> rnd F x"
  by (simp add: rnd_def round_pos_nonneg)

lemma rnd_neg: "rnd F (- x) = - rnd F x"
  by (simp add: rnd_def)

lemma rnd_mono:
  assumes "x \<le> y" "fmt_ok F"
  shows "rnd F x \<le> rnd F y"
proof -
  consider "0 < x" | "x \<le> 0" "0 \<le> y" | "y < 0" by linarith
  then show ?thesis
  proof cases
    case 1
    with assms show ?thesis by (simp add: rnd_def round_pos_mono)
  next
    case 2
    then have "0 \<le> rnd F y" "0 \<le> rnd F (- x)" using rnd_nonneg by simp_all
    then show ?thesis by (simp add: rnd_neg)
  next
    case 3
    with assms have "round_pos F (- y) \<le> round_pos F (- x)" by (intro round_pos_mono) simp_all
    with 3 assms show ?thesis by (simp add: rnd_def)
  qed
qed

text \<open>Numbers with at most \<open>fmt_prec\<close> binary digits above the smallest quantum are kept.\<close>

lemma round_pos_exact:
  assumes "0 < n" "n < 2 ^ fmt_prec F" "fmt_emin F \<le> k"
  shows "round_pos F (of_int n * pow2 k) = of_int n * pow2 k"
proof -
  let ?x = "of_int n * pow2 k" and ?p = "int (fmt_prec F)"
  have x: "0 < ?x" using assms(1) by simp
  have "(of_int n :: rat) < of_int (2 ^ fmt_prec F)" using assms(2) by (simp only: of_int_less_iff)
  then have "of_int n < pow2 ?p" by (simp add: pow2_def)
  then have "?x < pow2 ?p * pow2 k" by (intro mult_strict_right_mono) simp_all
  then have "pow2 (ilog2 ?x) < pow2 ?p * pow2 k" using ilog2_bounds(1) [OF x] by (rule order.strict_trans1 [rotated])
  then have "pow2 (ilog2 ?x) < pow2 (?p + k)" by (simp only: pow2_add)
  then have q: "quantum F ?x \<le> k" using assms(3) by (simp add: quantum_def)
  let ?e = "quantum F ?x"
  have k: "pow2 k = of_int (2 ^ nat (k - ?e)) * pow2 ?e"
    using pow2_add [of "k - ?e" ?e] q by (simp add: pow2_of_int [of "k - ?e"])
  have "?x / pow2 ?e = of_int (n * 2 ^ nat (k - ?e))" by (subst k) simp
  moreover have "of_int (n * 2 ^ nat (k - ?e)) * pow2 ?e = ?x" by (subst k) simp
  ultimately show ?thesis by (simp only: round_pos_def Let_def half_even_of_int)
qed

lemma rnd_of_int:
  assumes "\<bar>n\<bar> < 2 ^ fmt_prec F" "fmt_emin F \<le> 0"
  shows "rnd F (of_int n) = of_int n"
proof -
  have p: "round_pos F (of_int m) = of_int m" if "0 < m" "m < 2 ^ fmt_prec F" for m
    using round_pos_exact [OF that assms(2)] by (simp add: pow2_def)
  consider "n = 0" | "0 < n" | "n < 0" by linarith
  then show ?thesis
  proof cases
    case 3
    then show ?thesis using p [of "- n"] assms(1) by (simp add: rnd_def)
  qed (use p assms(1) in \<open>simp_all add: rnd_def\<close>)
qed

lemma fmt_facts [simp]: "fmt_ok f32" "fmt_ok f64" "fmt_emin f64 \<le> 0" "fmt_emin f32 \<le> 0"
  "fmt_prec f32 = 24" "fmt_prec f64 = 53"
  by (simp_all add: f32_def f64_def)

lemma rnd_numeral [simp]: "numeral n < (2 ^ fmt_prec F :: int) \<Longrightarrow> fmt_emin F \<le> 0 \<Longrightarrow> rnd F (numeral n) = numeral n"
  using rnd_of_int [of "numeral n" F] by simp

lemma rnd_one [simp]: "fmt_ok F \<Longrightarrow> fmt_emin F \<le> 0 \<Longrightarrow> rnd F 1 = 1"
  using rnd_of_int [of 1 F] by simp

text \<open>No overflow below the largest power of two.\<close>

lemma rnd_pow2: "fmt_ok F \<Longrightarrow> fmt_emin F \<le> k \<Longrightarrow> rnd F (pow2 k) = pow2 k"
  using round_pos_exact [of 1 F k] by (simp add: rnd_def)

lemma rnd_bounded:
  assumes "\<bar>x\<bar> \<le> y" "rnd F y = y" "fmt_ok F"
  shows "\<bar>rnd F x\<bar> \<le> y"
  using rnd_mono [OF _ assms(3), of x y] rnd_mono [OF _ assms(3), of "- y" x] rnd_neg [of F y] assms(1,2)
  by (simp add: abs_le_iff)

lemma fl_round_Fin:
  assumes "\<bar>x\<bar> \<le> pow2 k" "fmt_emin F \<le> k" "k < fmt_emax F" "fmt_ok F"
  shows "fl_round F x = Fin (rnd F x)"
proof -
  have "\<bar>rnd F x\<bar> \<le> pow2 k" by (rule rnd_bounded [OF assms(1) rnd_pow2 [OF assms(4,2)] assms(4)])
  also have "\<dots> < pow2 (fmt_emax F)" using assms(3) by simp
  finally show ?thesis by (simp add: fl_round_def Let_def)
qed

lemma fl_round_small [simp]:
  assumes "\<bar>x\<bar> \<le> 2 ^ 100"
  shows "fl_round f32 x = Fin (rnd f32 x)" "fl_round f64 x = Fin (rnd f64 x)"
  using fl_round_Fin [of x 100] assms by (simp_all add: f32_def f64_def pow2_def)

section \<open>Square roots\<close>

lemma isqrt_bounds: "0 \<le> n \<Longrightarrow> 0 \<le> isqrt n \<and> isqrt n * isqrt n \<le> n \<and> n < (isqrt n + 1) * (isqrt n + 1)"
proof (induction n rule: isqrt.induct)
  case (1 n)
  show ?case
  proof (cases "n = 0")
    case True
    then show ?thesis by (simp add: isqrt.simps)
  next
    case False
    let ?q = "isqrt (n div 4)"
    have IH: "0 \<le> ?q" "?q * ?q \<le> n div 4" "n div 4 < (?q + 1) * (?q + 1)"
      using "1.IH" "1.prems" False by simp_all
    have "4 * (?q * ?q) \<le> n" "n < 4 * ((?q + 1) * (?q + 1))" using IH(2,3) by linarith+
    then have "2 * ?q * (2 * ?q) \<le> n" "n < (2 * ?q + 2) * (2 * ?q + 2)" by (simp_all add: algebra_simps)
    with IH(1) "1.prems" False show ?thesis by (simp add: isqrt.simps [of n] Let_def algebra_simps)
  qed
qed

end
