(* ===== verification/Metrics.thy ===== *)
theory Metrics
  imports Rust_Float
begin

text \<open>
  The metrics of a guest (\<open>hitz-api/src/metrics.rs\<close>) and the arithmetic shared by the agent that collects
  them and the analyses that judge them: saturating operations, sums that panic on overflow, and
  percentages computed in floating point.
\<close>

section \<open>Types\<close>

record CpuMetrics =
  cm_total_pct :: fl
  cm_per_core :: "fl list"
  cm_load_avg :: "fl list"

record MemoryMetrics =
  mm_total_bytes :: u64
  mm_used_bytes :: u64
  mm_free_bytes :: u64
  mm_buffers_bytes :: u64
  mm_cached_bytes :: u64
  mm_swap_total :: u64
  mm_swap_used :: u64

record DiskMetrics =
  dm_name :: string
  dm_read_bytes :: u64
  dm_write_bytes :: u64
  dm_reads_total :: u64
  dm_writes_total :: u64

record NetMetrics =
  nm_interface :: string
  nm_rx_bytes :: u64
  nm_tx_bytes :: u64
  nm_rx_packets :: u64
  nm_tx_packets :: u64
  nm_rx_errors :: u64
  nm_tx_errors :: u64

record ProcMetrics =
  pm_pid :: u32
  pm_name :: string
  pm_cpu_pct :: fl
  pm_rss_bytes :: u64
  pm_state :: char

record MetricsSnapshot =
  ms_timestamp_ms :: u64
  ms_cpu :: CpuMetrics
  ms_memory :: MemoryMetrics
  ms_disks :: "DiskMetrics list"
  ms_networks :: "NetMetrics list"
  ms_processes :: "ProcMetrics list"

section \<open>Integer arithmetic\<close>

definition saturating_sub :: "'a::len word \<Rightarrow> 'a word \<Rightarrow> 'a word" where
  "saturating_sub a b = (if a < b then 0 else a - b)"

definition saturating_mul :: "'a::len word \<Rightarrow> 'a word \<Rightarrow> 'a word" where
  "saturating_mul a b = (case checked_mul a b of None \<Rightarrow> - 1 | Some c \<Rightarrow> c)"

text \<open>\<open>Iterator::sum\<close> on \<open>u64\<close>: \<open>None\<close> is the panic of an overflowing addition.\<close>

fun sum_from :: "u64 \<Rightarrow> u64 option list \<Rightarrow> u64 option" where
  "sum_from acc [] = Some acc"
| "sum_from acc (x # xs) = Option.bind x (\<lambda>x. Option.bind (checked_add acc x) (\<lambda>acc. sum_from acc xs))"

abbreviation sum_u64 :: "u64 option list \<Rightarrow> u64 option" where
  "sum_u64 xs \<equiv> sum_from 0 xs"

lemma unat_saturating_sub: "unat (saturating_sub a b) = unat a - unat b"
proof (cases "a < b")
  case True
  then show ?thesis by (simp add: saturating_sub_def word_less_nat_alt)
next
  case False
  then show ?thesis by (simp add: saturating_sub_def unat_sub_if' word_less_nat_alt)
qed

lemma unat_saturating_mul: "unat (saturating_mul a b) = min (unat a * unat b) (2 ^ LENGTH('a) - 1)"
  for a b :: "'a::len word"
proof (cases "unat a * unat b < 2 ^ LENGTH('a)")
  case True
  then show ?thesis by (simp add: saturating_mul_def checked_mul_def unat_mult_nowrap)
next
  case False
  then show ?thesis by (simp add: saturating_mul_def checked_mul_def unsigned_minus_1_eq_mask mask_eq_exp_minus_1)
qed

lemma sum_from_unat: "sum_from acc (map Some xs) = Some s \<Longrightarrow> unat s = unat acc + sum_list (map unat xs)"
proof (induction xs arbitrary: acc)
  case (Cons x xs)
  then obtain acc' where "checked_add acc x = Some acc'" "sum_from acc' (map Some xs) = Some s"
    by (auto simp: bind_eq_Some_conv)
  with Cons.IH [of acc'] checked_add_unat [of acc x] show ?case by simp
qed simp

section \<open>Percentages\<close>

definition u64_val :: "u64 \<Rightarrow> rat" where
  "u64_val x = of_nat (unat x)"

definition fl_of_u64 :: "format \<Rightarrow> u64 \<Rightarrow> fl" where
  "fl_of_u64 F x = fl_round F (u64_val x)"

lemma u64_val_facts: "0 \<le> u64_val x" "u64_val x < 2 ^ 64" "x \<noteq> 0 \<Longrightarrow> 1 \<le> u64_val x" "x \<le> y \<Longrightarrow> u64_val x \<le> u64_val y"
proof -
  have b: "of_nat n < (2 ^ 64 :: rat)" if "n < 2 ^ 64" for n
    using that by (metis of_nat_less_iff of_nat_numeral of_nat_power)
  have p: "(1 :: rat) \<le> of_nat n" if "n \<noteq> 0" for n using that by simp
  show "0 \<le> u64_val x" unfolding u64_val_def by (rule of_nat_0_le_iff)
  show "u64_val x < 2 ^ 64" unfolding u64_val_def by (rule b) (use unat_u64_less [of x] in simp)
  show "1 \<le> u64_val x" if "x \<noteq> 0" unfolding u64_val_def by (rule p) (use that in \<open>simp add: unat_eq_0\<close>)
  show "u64_val x \<le> u64_val y" if "x \<le> y" unfolding u64_val_def using that by (simp only: word_le_nat_alt of_nat_le_iff)
qed

lemma u64_val_compare:
  "of_nat c * u64_val t < u64_val u * of_nat d \<longleftrightarrow> c * unat t < unat u * d"
  "of_nat c * u64_val t \<le> u64_val u * of_nat d \<longleftrightarrow> c * unat t \<le> unat u * d"
  unfolding u64_val_def by (simp_all only: of_nat_less_iff of_nat_le_iff flip: of_nat_mult)

lemma rnd_u64_exact: "unat x < 2 ^ 53 \<Longrightarrow> rnd f64 (u64_val x) = u64_val x"
proof -
  assume a: "unat x < 2 ^ 53"
  have "rnd f64 (of_nat n) = of_nat n" if "n < 2 ^ 53" for n
  proof -
    have "int n < 2 ^ 53" using that by simp
    then show ?thesis using rnd_of_int [of "int n" f64] by simp
  qed
  from this [OF a] show ?thesis unfolding u64_val_def .
qed

lemma rnd_u64_bounds: "0 \<le> rnd f64 (u64_val x)" "rnd f64 (u64_val x) \<le> 2 ^ 64" "x \<noteq> 0 \<Longrightarrow> 1 \<le> rnd f64 (u64_val x)"
proof -
  have "rnd f64 (2 ^ 64) = 2 ^ 64" using rnd_pow2 [of f64 64] by (simp add: pow2_def f64_def)
  then show "rnd f64 (u64_val x) \<le> 2 ^ 64" using rnd_mono [of "u64_val x" "2 ^ 64" f64] u64_val_facts(2) [of x] by simp
  show "0 \<le> rnd f64 (u64_val x)" by (rule rnd_nonneg [OF u64_val_facts(1)])
  show "1 \<le> rnd f64 (u64_val x)" if "x \<noteq> 0" using rnd_mono [OF u64_val_facts(3) [OF that], of f64] by simp
qed

text \<open>\<open>(used as f64 / total as f64) * 100.0\<close>, and the rational number behind it, with its three roundings.\<close>

definition percent :: "u64 \<Rightarrow> u64 \<Rightarrow> fl" where
  "percent used tot = fl_mul f64 (fl_div f64 (fl_of_u64 f64 used) (fl_of_u64 f64 tot)) (Fin 100)"

definition pct_val :: "u64 \<Rightarrow> u64 \<Rightarrow> rat" where
  "pct_val used tot = rnd f64 (rnd f64 (rnd f64 (u64_val used) / rnd f64 (u64_val tot)) * 100)"

lemma percent_val:
  assumes "tot \<noteq> 0"
  shows "percent used tot = Fin (pct_val used tot)" "0 \<le> pct_val used tot"
proof -
  let ?u = "rnd f64 (u64_val used)" and ?t = "rnd f64 (u64_val tot)"
  note u = rnd_u64_bounds [of used] and t = rnd_u64_bounds [of tot]
  have n: "fl_of_u64 f64 x = Fin (rnd f64 (u64_val x))" for x
    using u64_val_facts [of x] by (simp add: fl_of_u64_def)
  have q0: "0 \<le> ?u / ?t" using u t by simp
  have "?u / ?t \<le> 2 ^ 64 / 1" using u t(3) [OF assms] by (intro frac_le) simp_all
  then have q: "?u / ?t \<le> 2 ^ 64" by simp
  have p: "rnd f64 (2 ^ 64) = 2 ^ 64" using rnd_pow2 [of f64 64] by (simp add: pow2_def f64_def)
  have r: "0 \<le> rnd f64 (?u / ?t)" "rnd f64 (?u / ?t) \<le> 2 ^ 64"
    using rnd_nonneg [OF q0] rnd_mono [OF q, of f64] p by simp_all
  have "fl_div f64 (Fin ?u) (Fin ?t) = Fin (rnd f64 (?u / ?t))" using q q0 t(3) [OF assms] by auto
  moreover have "fl_mul f64 (Fin (rnd f64 (?u / ?t))) (Fin 100) = Fin (rnd f64 (rnd f64 (?u / ?t) * 100))" using r by simp
  ultimately show "percent used tot = Fin (pct_val used tot)" by (simp add: percent_def n pct_val_def)
  show "0 \<le> pct_val used tot" using r(1) by (simp add: pct_val_def rnd_nonneg)
qed

lemma pct_val_mono:
  assumes "used \<le> used'"
  shows "pct_val used tot \<le> pct_val used' tot"
  unfolding pct_val_def using u64_val_facts(4) [OF assms] rnd_u64_bounds(1) [of tot]
  by (intro rnd_mono mult_right_mono divide_right_mono) simp_all

text \<open>
  Comparison with a threshold \<open>c\<close> of which \<open>c / 100\<close> rounds to a number whose hundredfold rounds back to \<open>c\<close>:
  below \<open>2 ^ 53\<close> bytes a ratio of at most \<open>c\<close> percent never counts as more, nor one of at least \<open>c\<close> as less.
\<close>

definition good_pct :: "nat \<Rightarrow> bool" where
  "good_pct c \<longleftrightarrow> rnd f64 (rnd f64 (of_nat c / 100) * 100) = of_nat c"

lemma pct_val_compare:
  assumes "tot \<noteq> 0" "unat used < 2 ^ 53" "unat tot < 2 ^ 53" "good_pct c"
  shows "of_nat c < pct_val used tot \<Longrightarrow> c * unat tot < unat used * 100"
    and "c * unat tot \<le> unat used * 100 \<Longrightarrow> of_nat c \<le> pct_val used tot"
proof -
  have t: "0 < u64_val tot" using u64_val_facts(3) [OF assms(1)] by linarith
  have p: "pct_val used tot = rnd f64 (rnd f64 (u64_val used / u64_val tot) * 100)"
    unfolding pct_val_def rnd_u64_exact [OF assms(2)] rnd_u64_exact [OF assms(3)] ..
  have m: "rnd f64 (rnd f64 x * 100) \<le> rnd f64 (rnd f64 y * 100)" if "x \<le> y" for x y
    using that by (intro rnd_mono mult_right_mono) simp_all
  note c = assms(4) [unfolded good_pct_def]
  show "c * unat tot < unat used * 100" if "of_nat c < pct_val used tot"
  proof (rule ccontr)
    assume "\<not> c * unat tot < unat used * 100"
    then have "\<not> of_nat c * u64_val tot < u64_val used * of_nat 100" unfolding u64_val_compare .
    then have "u64_val used / u64_val tot \<le> of_nat c / 100" using t by (simp add: field_simps)
    from m [OF this] c p that show False by simp
  qed
  show "of_nat c \<le> pct_val used tot" if "c * unat tot \<le> unat used * 100"
  proof -
    have "of_nat c * u64_val tot \<le> u64_val used * of_nat 100" using that unfolding u64_val_compare .
    then have "of_nat c / 100 \<le> u64_val used / u64_val tot" using t by (simp add: field_simps)
    from m [OF this] c p show ?thesis by simp
  qed
qed

text \<open>The thresholds of the analyses.\<close>

lemma pct_thresholds: "good_pct 20" "good_pct 21" "good_pct 50" "good_pct 51" "good_pct 75" "good_pct 76" "good_pct 90" "good_pct 91"
  by code_simp+

end
