(* ===== verification/Api_Analytics.thy ===== *)
theory Api_Analytics
  imports Metrics Vm_Boot
begin

text \<open>
  The analyses of \<open>hitz-api\<close> over metrics snapshots: health, workload class, sizing advice, efficiency,
  core imbalance, sentinel rules, rates between snapshots, carbon estimate, fingerprint, the simulator
  and the Terraform export. \<open>None\<close> is a panic of unchecked integer arithmetic. The decimal logarithm of
  the fingerprint is a parameter.
\<close>

section \<open>Health\<close>

datatype HealthStatus = Healthy | Warning | Critical

fun health_rank :: "HealthStatus \<Rightarrow> nat" where
  "health_rank Healthy = 0"
| "health_rank Warning = 1"
| "health_rank Critical = 2"

lemma health_rank_inj: "health_rank a = health_rank b \<longleftrightarrow> a = b"
  by (cases a; cases b) simp_all

instantiation HealthStatus :: linorder
begin

definition less_eq_HealthStatus :: "HealthStatus \<Rightarrow> HealthStatus \<Rightarrow> bool" where
  "less_eq_HealthStatus a b \<longleftrightarrow> health_rank a \<le> health_rank b"

definition less_HealthStatus :: "HealthStatus \<Rightarrow> HealthStatus \<Rightarrow> bool" where
  "less_HealthStatus a b \<longleftrightarrow> health_rank a < health_rank b"

instance
  by standard (auto simp: less_eq_HealthStatus_def less_HealthStatus_def simp flip: health_rank_inj)

end

record SystemHealth =
  sh_status :: HealthStatus
  sh_reasons :: "string list"

text \<open>One check: nothing, or a level with its message. The two thresholds are in percent.\<close>

definition level_check :: "fl \<Rightarrow> fl \<Rightarrow> string \<Rightarrow> fl \<Rightarrow> string \<Rightarrow> (HealthStatus \<times> string) option" where
  "level_check pct crit crit_text warn warn_text =
     (if fl_less crit pct then Some (Critical, crit_text @ show_fl1 pct @ ''%'')
      else if fl_less warn pct then Some (Warning, warn_text @ show_fl1 pct @ ''%'') else None)"

definition cpu_check :: "MetricsSnapshot \<Rightarrow> (HealthStatus \<times> string) option" where
  "cpu_check s = level_check (cm_total_pct (ms_cpu s)) (Fin 90) ''Critical CPU usage: '' (Fin 75) ''High CPU usage: ''"

definition memory_check :: "MetricsSnapshot \<Rightarrow> (HealthStatus \<times> string) option" where
  "memory_check s =
     (if 0 < mm_total_bytes (ms_memory s)
      then level_check (percent (mm_used_bytes (ms_memory s)) (mm_total_bytes (ms_memory s)))
             (Fin 90) ''Critical memory usage: '' (Fin 75) ''High memory usage: ''
      else None)"

definition swap_check :: "MetricsSnapshot \<Rightarrow> (HealthStatus \<times> string) option" where
  "swap_check s =
     (if 0 < mm_swap_total (ms_memory s)
      then level_check (percent (mm_swap_used (ms_memory s)) (mm_swap_total (ms_memory s)))
             (Fin 50) ''Critical swap usage: '' (Fin 20) ''High swap usage: ''
      else None)"

definition total_net_errors :: "MetricsSnapshot \<Rightarrow> u64 option" where
  "total_net_errors s = sum_u64 (map (\<lambda>n. checked_add (nm_rx_errors n) (nm_tx_errors n)) (ms_networks s))"

definition net_check :: "u64 \<Rightarrow> (HealthStatus \<times> string) option" where
  "net_check errs =
     (if 100 < errs then Some (Critical, ''Critical network errors: '' @ show_dec (unat errs))
      else if 10 < errs then Some (Warning, ''Elevated network errors: '' @ show_dec (unat errs)) else None)"

definition apply_check :: "SystemHealth \<Rightarrow> (HealthStatus \<times> string) option \<Rightarrow> SystemHealth" where
  "apply_check h c = (case c of None \<Rightarrow> h
     | Some (level, reason) \<Rightarrow> \<lparr>sh_status = max (sh_status h) level, sh_reasons = sh_reasons h @ [reason]\<rparr>)"

definition assess_health :: "MetricsSnapshot \<Rightarrow> SystemHealth option" where
  "assess_health s = Option.bind (total_net_errors s) (\<lambda>errs.
     Some (foldl apply_check \<lparr>sh_status = Healthy, sh_reasons = []\<rparr> [cpu_check s, memory_check s, swap_check s, net_check errs]))"

section \<open>Rates\<close>

record DiskRate =
  dr_name :: string
  dr_reads_per_sec :: fl
  dr_writes_per_sec :: fl
  dr_read_bytes_per_sec :: fl
  dr_write_bytes_per_sec :: fl

record NetRate =
  nr_interface :: string
  nr_rx_bytes_per_sec :: fl
  nr_tx_bytes_per_sec :: fl
  nr_rx_packets_per_sec :: fl
  nr_tx_packets_per_sec :: fl

record MetricsDiff =
  md_elapsed_secs :: fl
  md_disks :: "DiskRate list"
  md_networks :: "NetRate list"

definition rate :: "fl \<Rightarrow> u64 \<Rightarrow> u64 \<Rightarrow> fl" where
  "rate elapsed cur prev = fl_div f64 (fl_of_u64 f64 (saturating_sub cur prev)) elapsed"

definition disk_rate :: "fl \<Rightarrow> DiskMetrics list \<Rightarrow> DiskMetrics \<Rightarrow> DiskRate option" where
  "disk_rate elapsed previous cur = map_option (\<lambda>prev.
     \<lparr>dr_name = dm_name cur, dr_reads_per_sec = rate elapsed (dm_reads_total cur) (dm_reads_total prev),
      dr_writes_per_sec = rate elapsed (dm_writes_total cur) (dm_writes_total prev),
      dr_read_bytes_per_sec = rate elapsed (dm_read_bytes cur) (dm_read_bytes prev),
      dr_write_bytes_per_sec = rate elapsed (dm_write_bytes cur) (dm_write_bytes prev)\<rparr>)
     (find (\<lambda>d. dm_name d = dm_name cur) previous)"

definition net_rate :: "fl \<Rightarrow> NetMetrics list \<Rightarrow> NetMetrics \<Rightarrow> NetRate option" where
  "net_rate elapsed previous cur = map_option (\<lambda>prev.
     \<lparr>nr_interface = nm_interface cur, nr_rx_bytes_per_sec = rate elapsed (nm_rx_bytes cur) (nm_rx_bytes prev),
      nr_tx_bytes_per_sec = rate elapsed (nm_tx_bytes cur) (nm_tx_bytes prev),
      nr_rx_packets_per_sec = rate elapsed (nm_rx_packets cur) (nm_rx_packets prev),
      nr_tx_packets_per_sec = rate elapsed (nm_tx_packets cur) (nm_tx_packets prev)\<rparr>)
     (find (\<lambda>n. nm_interface n = nm_interface cur) previous)"

definition metrics_diff :: "MetricsSnapshot \<Rightarrow> MetricsSnapshot \<Rightarrow> MetricsDiff option" where
  "metrics_diff s previous =
     (if ms_timestamp_ms s \<le> ms_timestamp_ms previous then None
      else let elapsed_secs = fl_div f64 (fl_of_u64 f64 (ms_timestamp_ms s - ms_timestamp_ms previous)) (Fin 1000) in
        Some \<lparr>md_elapsed_secs = elapsed_secs,
          md_disks = List.map_filter (disk_rate elapsed_secs (ms_disks previous)) (ms_disks s),
          md_networks = List.map_filter (net_rate elapsed_secs (ms_networks previous)) (ms_networks s)\<rparr>)"

section \<open>Workload class\<close>

datatype WorkloadClass = ComputeBound | MemoryBound | IoHeavy | Idle

definition disk_io_heavy :: "DiskRate \<Rightarrow> bool" where
  "disk_io_heavy d \<longleftrightarrow> fl_less (Fin 500) (dr_reads_per_sec d) \<or> fl_less (Fin 500) (dr_writes_per_sec d)"

definition net_io_heavy :: "NetRate \<Rightarrow> bool" where
  "net_io_heavy n \<longleftrightarrow> fl_less (Fin 10000000) (nr_rx_bytes_per_sec n) \<or> fl_less (Fin 10000000) (nr_tx_bytes_per_sec n)"

definition classify_workload :: "MetricsSnapshot \<Rightarrow> MetricsDiff \<Rightarrow> WorkloadClass" where
  "classify_workload s diff =
     (if fl_less (Fin 80) (cm_total_pct (ms_cpu s)) then ComputeBound
      else if 0 < mm_total_bytes (ms_memory s) \<and>
        fl_less (Fin 80) (percent (mm_used_bytes (ms_memory s)) (mm_total_bytes (ms_memory s))) then MemoryBound
      else if list_ex disk_io_heavy (md_disks diff) \<or> list_ex net_io_heavy (md_networks diff) then IoHeavy
      else Idle)"

section \<open>Sizing advice\<close>

datatype ResizeRecommendation =
    ScaleUpCpu u32 u32 string
  | ScaleDownCpu u32 u32 string
  | ScaleUpRam u32 u32 string
  | ScaleDownRam u32 u32 string

definition cpu_sizing :: "fl \<Rightarrow> u32 \<Rightarrow> ResizeRecommendation list" where
  "cpu_sizing pct cpus =
     (if fl_less (Fin 90) pct
      then [ScaleUpCpu cpus (saturating_add cpus 1) (''CPU utilization is critically high at '' @ show_fl1 pct @ ''%'')]
      else if fl_less pct (Fin 10) \<and> 1 < cpus
      then [ScaleDownCpu cpus (max (saturating_sub cpus 1) 1) (''CPU utilization is very low at '' @ show_fl1 pct @ ''%'')]
      else [])"

definition ram_sizing :: "u64 \<Rightarrow> u32 \<Rightarrow> ResizeRecommendation list" where
  "ram_sizing used_bytes ram_mib =
     (let ram_bytes = (ucast ram_mib :: u64) * 1024 * 1024 in
      if ram_bytes = 0 then []
      else let mem_pct = percent used_bytes ram_bytes in
        if fl_less (Fin 90) mem_pct
        then [ScaleUpRam ram_mib (saturating_mul ram_mib 2) (''Memory utilization is critically high at '' @ show_fl1 mem_pct @ ''%'')]
        else if fl_less mem_pct (Fin 20) \<and> 128 < ram_mib
        then [ScaleDownRam ram_mib (max (ram_mib div 2) 128) (''Memory utilization is very low at '' @ show_fl1 mem_pct @ ''%'')]
        else [])"

definition recommend_sizing :: "MetricsSnapshot \<Rightarrow> VmConfig \<Rightarrow> ResizeRecommendation list" where
  "recommend_sizing s config =
     cpu_sizing (cm_total_pct (ms_cpu s)) (cfg_cpus config) @ ram_sizing (mm_used_bytes (ms_memory s)) (cfg_ram_mib config)"

section \<open>Efficiency\<close>

record EfficiencyScore =
  es_score :: fl
  es_insights :: "string list"

definition efficiency_cpu :: "MetricsSnapshot \<Rightarrow> EfficiencyScore \<Rightarrow> EfficiencyScore" where
  "efficiency_cpu s e =
     (let cpu_usage = cm_total_pct (ms_cpu s) in
      if fl_less cpu_usage (Fin 40)
      then let penalty = fl_mul f64 (fl_sub f64 (Fin 40) cpu_usage) (Fin (5 / 4)) in
        \<lparr>es_score = fl_sub f64 (es_score e) penalty,
         es_insights = es_insights e @ [''CPU underutilized: '' @ show_fl1 cpu_usage @ ''%. Consider reducing vCPU count.'']\<rparr>
      else e)"

definition efficiency_memory :: "MetricsSnapshot \<Rightarrow> EfficiencyScore \<Rightarrow> EfficiencyScore" where
  "efficiency_memory s e =
     (if mm_total_bytes (ms_memory s) = 0 then e
      else let mem_usage_pct = percent (mm_used_bytes (ms_memory s)) (mm_total_bytes (ms_memory s)) in
        if fl_less mem_usage_pct (Fin 50)
        then let penalty = fl_sub f64 (Fin 50) mem_usage_pct in
          \<lparr>es_score = fl_sub f64 (es_score e) penalty,
           es_insights = es_insights e @ [''Memory underutilized: '' @ show_fl1 mem_usage_pct @ ''%. Consider reducing allocated RAM.'']\<rparr>
        else e)"

definition calculate_efficiency :: "MetricsSnapshot \<Rightarrow> EfficiencyScore" where
  "calculate_efficiency s =
     (let e = efficiency_memory s (efficiency_cpu s \<lparr>es_score = Fin 100, es_insights = []\<rparr>) in
      e\<lparr>es_score := fl_clamp (es_score e) (Fin 0) (Fin 100)\<rparr>)"

section \<open>Core imbalance\<close>

record ImbalanceResult =
  ir_std_dev :: fl
  ir_imbalance_score :: fl
  ir_is_imbalanced :: bool

definition fl_sum :: "format \<Rightarrow> fl list \<Rightarrow> fl" where
  "fl_sum F xs = foldl (fl_add F) (Fin 0) xs"

definition analyze_imbalance :: "MetricsSnapshot \<Rightarrow> ImbalanceResult" where
  "analyze_imbalance s =
     (let cores = cm_per_core (ms_cpu s); n = length cores in
      if n \<le> 1 then \<lparr>ir_std_dev = Fin 0, ir_imbalance_score = Fin 0, ir_is_imbalanced = False\<rparr>
      else
        let n_f64 = fl_of_nat f64 n; mean = fl_div f64 (fl_sum f64 cores) n_f64;
            variance = fl_div f64 (fl_sum f64 (map (\<lambda>c. let diff = fl_sub f64 c mean in fl_mul f64 diff diff) cores)) n_f64;
            std_dev = fl_sqrt f64 variance;
            max_std_dev = fl_mul f64 (Fin 100) (fl_sqrt f64 (fl_div f64 (fl_sub f64 n_f64 (Fin 1)) (fl_mul f64 n_f64 n_f64)));
            imbalance_score = (if fl_less (Fin 0) max_std_dev then fl_clamp (fl_div f64 std_dev max_std_dev) (Fin 0) (Fin 1) else Fin 0)
        in \<lparr>ir_std_dev = std_dev, ir_imbalance_score = imbalance_score, ir_is_imbalanced = fl_less (Fin (1 / 2)) imbalance_score\<rparr>)"

section \<open>Sentinel rules\<close>

datatype ConditionOperator = GreaterThan | LessThan | Equals

datatype MetricTarget = CpuTotalPct | MemoryUsedBytes

record SentinelCondition =
  sc_target :: MetricTarget
  sc_operator :: ConditionOperator
  sc_threshold :: fl

record SentinelRule =
  sr_name :: string
  sr_condition :: SentinelCondition

definition f32_epsilon :: fl where
  "f32_epsilon = Fin (1 / 2 ^ 23)"

definition sentinel_evaluate :: "SentinelRule \<Rightarrow> MetricsSnapshot \<Rightarrow> bool" where
  "sentinel_evaluate r snapshot =
     (let v = (case sc_target (sr_condition r) of
                 CpuTotalPct \<Rightarrow> cm_total_pct (ms_cpu snapshot)
               | MemoryUsedBytes \<Rightarrow> fl_of_u64 f32 (mm_used_bytes (ms_memory snapshot)));
          threshold = sc_threshold (sr_condition r) in
      case sc_operator (sr_condition r) of
        GreaterThan \<Rightarrow> fl_less threshold v
      | LessThan \<Rightarrow> fl_less v threshold
      | Equals \<Rightarrow> fl_less (fl_abs (fl_sub f32 v threshold)) f32_epsilon)"

section \<open>Carbon estimate\<close>

record EmissionFactors =
  ef_grid_intensity_g_per_kwh :: fl
  ef_cpu_power_watts_max :: fl
  ef_cpu_power_watts_idle :: fl
  ef_ram_power_watts_per_gb :: fl
  ef_pue :: fl

definition emission_factors_new :: "fl \<Rightarrow> EmissionFactors" where
  "emission_factors_new grid = \<lparr>ef_grid_intensity_g_per_kwh = grid, ef_cpu_power_watts_max = Fin 10,
     ef_cpu_power_watts_idle = Fin 2, ef_ram_power_watts_per_gb = Fin (1 / 2), ef_pue = Fin (3 / 2)\<rparr>"

definition estimate_carbon :: "MetricsSnapshot \<Rightarrow> EmissionFactors \<Rightarrow> u32 \<Rightarrow> fl" where
  "estimate_carbon s factors vcpus =
     (let cpu_utilization = fl_div f64 (fl_clamp (cm_total_pct (ms_cpu s)) (Fin 0) (Fin 100)) (Fin 100);
          vcpus_f64 = fl_of_nat f64 (unat vcpus);
          cpu_power_watts = fl_mul_add f64 vcpus_f64 (ef_cpu_power_watts_idle factors)
            (fl_mul f64 (fl_mul f64 (fl_sub f64 (ef_cpu_power_watts_max factors) (ef_cpu_power_watts_idle factors)) vcpus_f64) cpu_utilization);
          ram_gb = fl_div f64 (fl_of_u64 f64 (mm_total_bytes (ms_memory s))) (Fin (1024 * 1024 * 1024));
          ram_power_watts = fl_mul f64 ram_gb (ef_ram_power_watts_per_gb factors);
          total_power_watts = fl_mul f64 (fl_add f64 cpu_power_watts ram_power_watts) (ef_pue factors);
          power_kw = fl_div f64 total_power_watts (Fin 1000);
          emissions_g_per_hour = fl_mul f64 power_kw (ef_grid_intensity_g_per_kwh factors)
      in fl_div f64 (fl_mul f64 emissions_g_per_hour (Fin 1000)) (Fin 3600))"

section \<open>Fingerprint\<close>

definition log_bucket :: "(fl \<Rightarrow> fl) \<Rightarrow> u64 \<Rightarrow> u32" where
  "log_bucket log10 b = (if 0 < b then fl_to_word (fl_clamp (log10 (fl_of_u64 f64 b)) (Fin 0) (Fin 9)) else 0)"

definition generate_fingerprint :: "(fl \<Rightarrow> fl) \<Rightarrow> MetricsSnapshot \<Rightarrow> string option" where
  "generate_fingerprint log10 s =
     (let cpu_bucket = (fl_to_word (fl_clamp (fl_div f32 (cm_total_pct (ms_cpu s)) (Fin 10)) (Fin 0) (Fin 10)) :: u32);
          mem = ms_memory s;
          ram_bucket = (if 0 < mm_total_bytes mem
             then fl_to_word (fl_clamp (fl_div f64 (percent (mm_used_bytes mem) (mm_total_bytes mem)) (Fin 10)) (Fin 0) (Fin 10))
             else 0 :: u32) in
      Option.bind (sum_u64 (map (\<lambda>d. checked_add (dm_read_bytes d) (dm_write_bytes d)) (ms_disks s))) (\<lambda>total_disk_bytes.
      Option.bind (sum_u64 (map (\<lambda>n. checked_add (nm_rx_bytes n) (nm_tx_bytes n)) (ms_networks s))) (\<lambda>total_net_bytes.
      Some (''FP-C'' @ show_dec (unat cpu_bucket) @ ''-R'' @ show_dec (unat ram_bucket) @
            ''-D'' @ show_dec (unat (log_bucket log10 total_disk_bytes)) @ ''-N'' @ show_dec (unat (log_bucket log10 total_net_bytes))))))"

section \<open>Simulator\<close>

datatype WorkloadProfile = CpuSpike | MemoryLeak | IdleProfile

record VmSimulator =
  sim_profile :: WorkloadProfile
  sim_iteration :: u64

definition simulator_new :: "WorkloadProfile \<Rightarrow> VmSimulator" where
  "simulator_new p = \<lparr>sim_profile = p, sim_iteration = 0\<rparr>"

text \<open>CPU percentage and memory used: \<open>None\<close> where the multiplication or the addition overflows.\<close>

definition simulated_load :: "VmSimulator \<Rightarrow> (fl \<times> u64) option" where
  "simulated_load v =
     (case sim_profile v of
        CpuSpike \<Rightarrow> Some (fl_min (fl_mul f32 (fl_of_u64 f32 (sim_iteration v)) (Fin 15)) (Fin 95), 100 * 1024 * 1024)
      | MemoryLeak \<Rightarrow>
          Option.bind (checked_mul (sim_iteration v) 50) (\<lambda>x. Option.bind (checked_mul x 1024) (\<lambda>x.
          Option.bind (checked_mul x 1024) (\<lambda>x. map_option (Pair (Fin 10)) (checked_add (100 * 1024 * 1024) x))))
      | IdleProfile \<Rightarrow> Some (Fin 5, 100 * 1024 * 1024))"

definition simulator_next :: "VmSimulator \<Rightarrow> (VmSimulator \<times> MetricsSnapshot) option" where
  "simulator_next v =
     Option.bind (simulated_load v) (\<lambda>(cpu_pct, mem_used).
     Option.bind (checked_add (sim_iteration v) 1) (\<lambda>iteration.
     Option.bind (checked_mul iteration 1000) (\<lambda>timestamp.
     Option.bind (checked_sub (1024 * 1024 * 1024) mem_used) (\<lambda>free.
     Some (v\<lparr>sim_iteration := iteration\<rparr>,
       \<lparr>ms_timestamp_ms = timestamp,
        ms_cpu = \<lparr>cm_total_pct = cpu_pct, cm_per_core = [cpu_pct], cm_load_avg = replicate 3 (fl_round f32 (1 / 10))\<rparr>,
        ms_memory = \<lparr>mm_total_bytes = 1024 * 1024 * 1024, mm_used_bytes = mem_used, mm_free_bytes = free,
          mm_buffers_bytes = 0, mm_cached_bytes = 0, mm_swap_total = 0, mm_swap_used = 0\<rparr>,
        ms_disks = [], ms_networks = [], ms_processes = []\<rparr>)))))"

fun simulator_run :: "nat \<Rightarrow> VmSimulator \<Rightarrow> (VmSimulator \<times> MetricsSnapshot list) option" where
  "simulator_run 0 v = Some (v, [])"
| "simulator_run (Suc n) v = Option.bind (simulator_next v) (\<lambda>(v, s). map_option (map_prod id ((#) s)) (simulator_run n v))"

section \<open>Terraform\<close>

definition hcl_line :: "string \<Rightarrow> string \<Rightarrow> string" where
  "hcl_line name v = ''  '' @ name @ '' = '' @ v @ [CHR 0x0A]"

definition hcl_quoted :: "string \<Rightarrow> string" where
  "hcl_quoted s = [CHR 0x22] @ s @ [CHR 0x22]"

definition hcl_opt :: "string \<Rightarrow> string option \<Rightarrow> string" where
  "hcl_opt name v = (case v of None \<Rightarrow> [] | Some s \<Rightarrow> hcl_line name (hcl_quoted s))"

definition to_terraform :: "VmConfig \<Rightarrow> string \<Rightarrow> string" where
  "to_terraform config resource_name =
     ''resource '' @ hcl_quoted ''hitz_vm'' @ '' '' @ hcl_quoted resource_name @ '' {'' @ [CHR 0x0A] @
     hcl_line ''kernel_path'' (hcl_quoted (path_display (cfg_kernel_path config))) @
     hcl_opt ''initramfs_path'' (map_option path_display (cfg_initramfs_path config)) @
     hcl_opt ''disk_path'' (map_option path_display (cfg_disk_path config)) @
     hcl_line ''ram_mib'' (show_dec (unat (cfg_ram_mib config))) @
     hcl_line ''cpus'' (show_dec (unat (cfg_cpus config))) @
     hcl_opt ''cmdline'' (cfg_cmdline config) @
     hcl_line ''guest_cid'' (show_dec (unat (cfg_guest_cid config))) @ ''}'' @ [CHR 0x0A]"

section \<open>Levels\<close>

lemma apply_checks:
  "sh_reasons (foldl apply_check h cs) = sh_reasons h @ map snd (List.map_filter id cs)"
  "sh_status (foldl apply_check h cs) = foldl max (sh_status h) (map fst (List.map_filter id cs))"
  by (induction cs arbitrary: h) (auto simp: apply_check_def List.map_filter_simps split: option.splits)

lemma max_Healthy [simp]: "max Healthy l = l" "max l Healthy = l"
  by (cases l; simp add: max_def less_eq_HealthStatus_def)+

lemma level_check_level: "level_check p c ct w wt = Some (l, r) \<Longrightarrow> l \<noteq> Healthy"
  by (auto simp: level_check_def split: if_splits)

lemma foldl_max_Healthy: "\<forall>l\<in>set ls. l \<noteq> Healthy \<Longrightarrow> foldl max s ls = Healthy \<longleftrightarrow> s = Healthy \<and> ls = []"
proof (induction ls arbitrary: s)
  case (Cons l ls)
  have "max s l \<noteq> Healthy"
    using Cons.prems by (cases s; cases l) (auto simp: max_def less_eq_HealthStatus_def)
  with Cons show ?case by simp
qed simp

fun check_level :: "(HealthStatus \<times> string) option \<Rightarrow> HealthStatus" where
  "check_level None = Healthy"
| "check_level (Some (l, _)) = l"

lemma apply_check_levels:
  "sh_status (foldl apply_check h cs) = foldl max (sh_status h) (map check_level cs)"
proof (induction cs arbitrary: h)
  case (Cons c cs)
  then show ?case by (cases c) (auto simp: apply_check_def)
qed simp

text \<open>
  What a check with the thresholds \<open>c\<close> and \<open>w\<close> promises, in integers: no alarm at or below the threshold, an
  alarm from one percentage point above it.
\<close>

definition alarm_exact :: "nat \<Rightarrow> nat \<Rightarrow> u64 \<Rightarrow> u64 \<Rightarrow> HealthStatus \<Rightarrow> bool" where
  "alarm_exact c w used tot l \<longleftrightarrow>
     (l = Critical \<longrightarrow> c * unat tot < unat used * 100) \<and> (l \<noteq> Healthy \<longrightarrow> w * unat tot < unat used * 100) \<and>
     ((c + 1) * unat tot \<le> unat used * 100 \<longrightarrow> l = Critical) \<and> ((w + 1) * unat tot \<le> unat used * 100 \<longrightarrow> l \<noteq> Healthy)"

lemma level_check_percent:
  assumes "tot \<noteq> 0" "unat used < 2 ^ 53" "unat tot < 2 ^ 53"
    and g: "good_pct c" "good_pct (c + 1)" "good_pct w" "good_pct (w + 1)" and "w \<le> c"
  shows "alarm_exact c w used tot (check_level (level_check (percent used tot) (Fin (of_nat c)) ct (Fin (of_nat w)) wt))"
proof -
  let ?p = "pct_val used tot"
  note cmp = pct_val_compare [OF assms(1-3)]
  have l: "check_level (level_check (percent used tot) (Fin (of_nat c)) ct (Fin (of_nat w)) wt) =
      (if of_nat c < ?p then Critical else if of_nat w < ?p then Warning else Healthy)"
    by (simp add: level_check_def percent_val [OF assms(1)])
  have "c * unat tot < unat used * 100" if "of_nat c < ?p" by (rule cmp(1) [OF g(1) that])
  moreover have "w * unat tot < unat used * 100" if "of_nat w < ?p" by (rule cmp(1) [OF g(3) that])
  moreover have "of_nat w < ?p" if "of_nat c < ?p"
    using that assms(8) by (meson le_less_trans of_nat_mono)
  moreover have "of_nat c < ?p" if "(c + 1) * unat tot \<le> unat used * 100" using cmp(2) [OF g(2) that] by simp
  moreover have "of_nat w < ?p" if "(w + 1) * unat tot \<le> unat used * 100" using cmp(2) [OF g(4) that] by simp
  ultimately show ?thesis unfolding alarm_exact_def l by auto
qed

section \<open>Properties\<close>

text \<open>The health report. Its status is the worst of the four checks and healthy exactly when there is no
  reason. For memory and swap of less than 8 PiB the checks are exact in spite of the floating-point
  arithmetic: no alarm is raised at or below its threshold, and every alarm is raised from one
  percentage point above it.\<close>

theorem health_sound:
  assumes "assess_health s = Some h"
    and "\<forall>x\<in>{mm_used_bytes (ms_memory s), mm_total_bytes (ms_memory s), mm_swap_used (ms_memory s), mm_swap_total (ms_memory s)}. unat x < 2 ^ 53"
  shows "(sh_status h = Healthy \<longleftrightarrow> sh_reasons h = []) \<and> length (sh_reasons h) \<le> 4 \<and>
    (\<exists>errs. total_net_errors s = Some errs \<and>
       sh_status h = Max (check_level ` {cpu_check s, memory_check s, swap_check s, net_check errs})) \<and>
    (mm_total_bytes (ms_memory s) \<noteq> 0 \<longrightarrow>
       alarm_exact 90 75 (mm_used_bytes (ms_memory s)) (mm_total_bytes (ms_memory s)) (check_level (memory_check s))) \<and>
    (mm_swap_total (ms_memory s) \<noteq> 0 \<longrightarrow>
       alarm_exact 50 20 (mm_swap_used (ms_memory s)) (mm_swap_total (ms_memory s)) (check_level (swap_check s)))"
proof -
  obtain errs where e: "total_net_errors s = Some errs"
    and h: "h = foldl apply_check \<lparr>sh_status = Healthy, sh_reasons = []\<rparr> [cpu_check s, memory_check s, swap_check s, net_check errs]"
    using assms(1) by (auto simp: assess_health_def bind_eq_Some_conv)
  let ?cs = "[cpu_check s, memory_check s, swap_check s, net_check errs]"
  have "\<forall>l\<in>set (map fst (List.map_filter id ?cs)). l \<noteq> Healthy"
    by (auto simp: map_filter_def cpu_check_def memory_check_def swap_check_def net_check_def dest: level_check_level split: if_splits)
  then have 1: "sh_status h = Healthy \<longleftrightarrow> sh_reasons h = []"
    unfolding h apply_checks by (subst foldl_max_Healthy) auto
  have 2: "length (sh_reasons h) \<le> 4"
    unfolding h apply_checks by (simp add: map_filter_def)
  have 3: "sh_status h = Max (check_level ` set ?cs)"
    unfolding h apply_check_levels by (simp add: max.assoc)
  have 4: "alarm_exact 90 75 (mm_used_bytes (ms_memory s)) (mm_total_bytes (ms_memory s)) (check_level (memory_check s))"
    if "mm_total_bytes (ms_memory s) \<noteq> 0"
    using level_check_percent [of "mm_total_bytes (ms_memory s)" "mm_used_bytes (ms_memory s)" 90 75] that assms(2) pct_thresholds
    by (simp add: memory_check_def word_neq_0_conv)
  have 5: "alarm_exact 50 20 (mm_swap_used (ms_memory s)) (mm_swap_total (ms_memory s)) (check_level (swap_check s))"
    if "mm_swap_total (ms_memory s) \<noteq> 0"
    using level_check_percent [of "mm_swap_total (ms_memory s)" "mm_swap_used (ms_memory s)" 50 20] that assms(2) pct_thresholds
    by (simp add: swap_check_def word_neq_0_conv)
  show ?thesis using 1 2 3 4 5 e by auto
qed

text \<open>A guest with nine tenths of a gigabyte in use.\<close>

definition demo_snapshot :: MetricsSnapshot where
  "demo_snapshot = \<lparr>ms_timestamp_ms = 1000, ms_cpu = \<lparr>cm_total_pct = Fin 5, cm_per_core = [Fin 5], cm_load_avg = []\<rparr>,
     ms_memory = \<lparr>mm_total_bytes = 1000, mm_used_bytes = 900, mm_free_bytes = 100, mm_buffers_bytes = 0, mm_cached_bytes = 0,
       mm_swap_total = 0, mm_swap_used = 0\<rparr>, ms_disks = [], ms_networks = [], ms_processes = []\<rparr>"

theorem health_sound_witness:
  "\<exists>h. assess_health demo_snapshot = Some h \<and> check_level (memory_check demo_snapshot) = Warning"
proof -
  obtain h where h: "assess_health demo_snapshot = Some h"
    by (simp add: assess_health_def total_net_errors_def demo_snapshot_def)
  have "alarm_exact 90 75 900 1000 (check_level (memory_check demo_snapshot))"
    using health_sound [OF h] by (simp add: demo_snapshot_def)
  then have "check_level (memory_check demo_snapshot) = Warning"
    by (cases "check_level (memory_check demo_snapshot)") (simp_all add: alarm_exact_def)
  with h show ?thesis by blast
qed

section \<open>Sizing\<close>

lemma ram_bytes_unat: "unat ((ucast r :: u64) * 1024 * 1024) = unat r * 1048576" for r :: u32
proof -
  have u: "unat (ucast r :: u64) = unat r" by (rule unat_ucast_up) simp
  have "unat ((ucast r :: u64) * 1048576) = unat (ucast r :: u64) * unat (1048576 :: u64)"
    using unat_u32_less [of r] u by (intro unat_mult_nowrap) simp
  then show ?thesis by (simp add: u mult.assoc)
qed

lemma ram_sizing_cases:
  fixes ram :: u32
  assumes "unat used < 2 ^ 53"
  defines "p \<equiv> pct_val used ((ucast ram :: u64) * 1024 * 1024)"
  shows "ScaleUpRam a b x \<in> set (ram_sizing used ram) \<longleftrightarrow> ram \<noteq> 0 \<and> 90 < p \<and> a = ram \<and> b = saturating_mul ram 2 \<and>
      x = ''Memory utilization is critically high at '' @ show_fl1 (Fin p) @ ''%''"
    and "ScaleDownRam a b x \<in> set (ram_sizing used ram) \<longleftrightarrow> 128 < ram \<and> p < 20 \<and> a = ram \<and> b = max (ram div 2) 128 \<and>
      x = ''Memory utilization is very low at '' @ show_fl1 (Fin p) @ ''%''"
proof -
  let ?t = "(ucast ram :: u64) * 1024 * 1024"
  have z: "?t = 0 \<longleftrightarrow> ram = 0" using ram_bytes_unat [of ram] by (metis mult_eq_0_iff unat_eq_0 zero_neq_numeral)
  show "ScaleUpRam a b x \<in> set (ram_sizing used ram) \<longleftrightarrow> ram \<noteq> 0 \<and> 90 < p \<and> a = ram \<and> b = saturating_mul ram 2 \<and>
      x = ''Memory utilization is critically high at '' @ show_fl1 (Fin p) @ ''%''"
    "ScaleDownRam a b x \<in> set (ram_sizing used ram) \<longleftrightarrow> 128 < ram \<and> p < 20 \<and> a = ram \<and> b = max (ram div 2) 128 \<and>
      x = ''Memory utilization is very low at '' @ show_fl1 (Fin p) @ ''%''"
    using percent_val [of ?t used] z by (auto simp: ram_sizing_def Let_def p_def)
qed

lemma ram_pct_compare:
  fixes ram :: u32
  assumes "unat used < 2 ^ 53" "ram \<noteq> 0"
  defines "p \<equiv> pct_val used ((ucast ram :: u64) * 1024 * 1024)"
  shows "90 < p \<Longrightarrow> 90 * (unat ram * 1048576) < unat used * 100"
    and "p < 20 \<Longrightarrow> unat used * 100 < 20 * (unat ram * 1048576)"
proof -
  have t: "(ucast ram :: u64) * 1024 * 1024 \<noteq> 0" "unat ((ucast ram :: u64) * 1024 * 1024) < 2 ^ 53"
    using ram_bytes_unat [of ram] assms(2) unat_u32_less [of ram] by (auto simp: unat_gt_0 unat_eq_0)
  note c = pct_val_compare [OF t(1) assms(1) t(2), unfolded ram_bytes_unat]
  show "90 * (unat ram * 1048576) < unat used * 100" if "90 < p" using c(1) [OF pct_thresholds(7)] that by (simp add: p_def)
  show "unat used * 100 < 20 * (unat ram * 1048576)" if "p < 20"
    using c(2) [OF pct_thresholds(1)] that by (intro notI [THEN not_le [THEN iffD1]]) (simp add: p_def)
qed

lemma ram_sizing_up:
  assumes "unat used < 2 ^ 53" "ScaleUpRam a b x \<in> set (ram_sizing used ram)"
  shows "a = ram" "a < b \<or> b = - 1" "ScaleDownRam a' b' x' \<notin> set (ram_sizing used b)"
proof -
  note u = assms(2) [unfolded ram_sizing_cases(1) [OF assms(1)]]
  have b: "unat b = min (unat ram * 2) (2 ^ 32 - 1)" using u unat_saturating_mul [of ram 2] by simp
  show "a = ram" using u by simp
  show "a < b \<or> b = - 1"
  proof (cases "unat ram * 2 < 2 ^ 32")
    case True
    with b u show ?thesis by (simp add: word_less_nat_alt unat_gt_0)
  next
    case False
    then have "checked_mul ram 2 = None" by (simp add: checked_mul_def)
    with u show ?thesis by (simp add: saturating_mul_def)
  qed
  show "ScaleDownRam a' b' x' \<notin> set (ram_sizing used b)"
  proof
    assume "ScaleDownRam a' b' x' \<in> set (ram_sizing used b)"
    then have d: "b \<noteq> 0" "pct_val used ((ucast b :: u64) * 1024 * 1024) < 20"
      unfolding ram_sizing_cases(2) [OF assms(1)] by auto
    have "unat used * 100 < 20 * (unat b * 1048576)" by (rule ram_pct_compare(2) [OF assms(1) d])
    moreover have "90 * (unat ram * 1048576) < unat used * 100" using ram_pct_compare(1) [OF assms(1)] u by blast
    ultimately show False using b by linarith
  qed
qed

lemma ram_sizing_down:
  assumes "unat used < 2 ^ 53" "ScaleDownRam a b x \<in> set (ram_sizing used ram)"
  shows "a = ram" "128 \<le> b" "b < a" "ScaleUpRam a' b' x' \<notin> set (ram_sizing used b)"
proof -
  note u = assms(2) [unfolded ram_sizing_cases(2) [OF assms(1)]]
  have r: "128 < unat ram" using u by (simp add: word_less_nat_alt)
  have b: "unat b = max (unat ram div 2) 128" using u by (simp add: max_def word_le_nat_alt unat_div)
  show "a = ram" using u by simp
  show "128 \<le> b" using b by (simp add: word_le_nat_alt)
  have "unat b < unat ram" using b r by linarith
  then show "b < a" using u by (simp add: word_less_nat_alt)
  show "ScaleUpRam a' b' x' \<notin> set (ram_sizing used b)"
  proof
    assume "ScaleUpRam a' b' x' \<in> set (ram_sizing used b)"
    then have d: "b \<noteq> 0" "90 < pct_val used ((ucast b :: u64) * 1024 * 1024)"
      unfolding ram_sizing_cases(1) [OF assms(1)] by auto
    have "90 * (unat b * 1048576) < unat used * 100" by (rule ram_pct_compare(1) [OF assms(1) d])
    moreover have "unat used * 100 < 20 * (unat ram * 1048576)"
      using ram_pct_compare(2) [OF assms(1) _ conjunct1 [OF conjunct2 [OF u]]] r by (simp add: unat_gt_0 [symmetric])
    ultimately have "90 * unat b < 20 * unat ram" by linarith
    then show False using b r by linarith
  qed
qed

text \<open>The sizing advice does not oscillate. With less than 8 PiB in use there are at most two
  recommendations; a larger RAM size is larger, unless it is already the largest, a smaller one is
  smaller and at least 128 MiB, a smaller processor count is at least one; and following a memory
  recommendation never leads, at the same usage, to the opposite one.\<close>

theorem sizing_stable:
  assumes "unat (mm_used_bytes (ms_memory s)) < 2 ^ 53"
  shows "length (recommend_sizing s config) \<le> 2 \<and>
    (\<forall>a b x. ScaleUpRam a b x \<in> set (recommend_sizing s config) \<longrightarrow> a = cfg_ram_mib config \<and> (a < b \<or> b = - 1) \<and>
       (\<forall>a' b' x'. ScaleDownRam a' b' x' \<notin> set (recommend_sizing s (config\<lparr>cfg_ram_mib := b\<rparr>)))) \<and>
    (\<forall>a b x. ScaleDownRam a b x \<in> set (recommend_sizing s config) \<longrightarrow> a = cfg_ram_mib config \<and> 128 \<le> b \<and> b < a \<and>
       (\<forall>a' b' x'. ScaleUpRam a' b' x' \<notin> set (recommend_sizing s (config\<lparr>cfg_ram_mib := b\<rparr>)))) \<and>
    (\<forall>a b x. ScaleDownCpu a b x \<in> set (recommend_sizing s config) \<longrightarrow> a = cfg_cpus config \<and> 1 \<le> b \<and> b < a)"
proof -
  let ?u = "mm_used_bytes (ms_memory s)"
  have ram: "ScaleUpRam a b x \<in> set (recommend_sizing s c) \<longleftrightarrow> ScaleUpRam a b x \<in> set (ram_sizing ?u (cfg_ram_mib c))"
    "ScaleDownRam a b x \<in> set (recommend_sizing s c) \<longleftrightarrow> ScaleDownRam a b x \<in> set (ram_sizing ?u (cfg_ram_mib c))" for a b x c
    by (auto simp: recommend_sizing_def cpu_sizing_def)
  have cpu: "a = cfg_cpus config \<and> 1 \<le> b \<and> b < a" if "ScaleDownCpu a b x \<in> set (recommend_sizing s config)" for a b x
  proof -
    have c: "a = cfg_cpus config" "b = max (saturating_sub (cfg_cpus config) 1) 1" "1 < cfg_cpus config"
      using that by (auto simp: recommend_sizing_def cpu_sizing_def ram_sizing_def Let_def split: if_splits)
    then have "unat b = unat a - 1" "1 < unat a" by (auto simp: unat_saturating_sub max_def word_le_nat_alt word_less_nat_alt)
    with c show ?thesis by (simp add: word_less_nat_alt word_le_nat_alt)
  qed
  have "length (recommend_sizing s config) \<le> 2"
    by (simp add: recommend_sizing_def cpu_sizing_def ram_sizing_def Let_def)
  moreover have "a = cfg_ram_mib config \<and> (a < b \<or> b = - 1) \<and>
      (\<forall>a' b' x'. ScaleDownRam a' b' x' \<notin> set (recommend_sizing s (config\<lparr>cfg_ram_mib := b\<rparr>)))"
    if "ScaleUpRam a b x \<in> set (recommend_sizing s config)" for a b x
    using ram_sizing_up [OF assms that [unfolded ram]] by (simp add: ram)
  moreover have "a = cfg_ram_mib config \<and> 128 \<le> b \<and> b < a \<and>
      (\<forall>a' b' x'. ScaleUpRam a' b' x' \<notin> set (recommend_sizing s (config\<lparr>cfg_ram_mib := b\<rparr>)))"
    if "ScaleDownRam a b x \<in> set (recommend_sizing s config)" for a b x
    using ram_sizing_down [OF assms that [unfolded ram]] by (simp add: ram)
  ultimately show ?thesis using cpu by blast
qed

text \<open>A guest with 1024 MiB that uses next to nothing.\<close>

definition demo_sizing :: VmConfig where
  "demo_sizing = \<lparr>cfg_kernel_path = \<lparr>path_components = [], path_display = ''vmlinux''\<rparr>, cfg_initramfs_path = None,
     cfg_disk_path = None, cfg_ram_mib = 1024, cfg_cpus = 1, cfg_cmdline = None, cfg_net = None, cfg_ports = [],
     cfg_guest_cid = 3, cfg_guest_agent = Disabled\<rparr>"

theorem sizing_stable_witness:
  "\<exists>x. ScaleDownRam 1024 512 x \<in> set (recommend_sizing demo_snapshot demo_sizing) \<and>
     (\<forall>a b y. ScaleUpRam a b y \<notin> set (recommend_sizing demo_snapshot (demo_sizing\<lparr>cfg_ram_mib := 512\<rparr>)))"
proof -
  have u: "unat (mm_used_bytes (ms_memory demo_snapshot)) < 2 ^ 53" by (simp add: demo_snapshot_def)
  have "good_pct 19" by code_simp
  from pct_val_compare(1) [OF _ _ _ this, of "1024 * 1024 * 1024" 900]
  have "pct_val 900 (1024 * 1024 * 1024) \<le> 19" by (simp add: not_less [symmetric]) auto
  then have "pct_val 900 ((ucast (1024 :: u32) :: u64) * 1024 * 1024) < 20" by simp
  then have "\<exists>x. ScaleDownRam 1024 512 x \<in> set (ram_sizing 900 1024)"
    using ram_sizing_cases(2) [of 900 1024 512 _ 1024] by auto
  then obtain x where x: "ScaleDownRam 1024 512 x \<in> set (recommend_sizing demo_snapshot demo_sizing)"
    by (auto simp: recommend_sizing_def demo_sizing_def demo_snapshot_def)
  from sizing_stable [OF u, of demo_sizing] x show ?thesis by blast
qed

section \<open>Rates\<close>

lemma rnd_le_2_100: "0 \<le> x \<Longrightarrow> x \<le> 2 ^ 100 \<Longrightarrow> 0 \<le> rnd f64 x \<and> rnd f64 x \<le> 2 ^ 100"
proof -
  assume "0 \<le> x" "x \<le> 2 ^ 100"
  moreover have "rnd f64 (2 ^ 100) = 2 ^ 100" using rnd_pow2 [of f64 100] by (simp add: pow2_def f64_def)
  ultimately show ?thesis using rnd_mono [of x "2 ^ 100" f64] rnd_nonneg by simp
qed

lemma elapsed_bounds:
  assumes "x \<noteq> 0"
  shows "\<exists>r. fl_div f64 (fl_of_u64 f64 x) (Fin 1000) = Fin r \<and> 1 / 1024 \<le> r"
proof -
  let ?q = "rnd f64 (u64_val x) / 1000"
  have "1 \<le> rnd f64 (u64_val x)" "rnd f64 (u64_val x) \<le> 2 ^ 64" using rnd_u64_bounds [of x] assms by simp_all
  then have q: "1 / 1024 \<le> ?q" "?q \<le> 2 ^ 100" by simp_all
  have "rnd f64 (1 / 1024) = 1 / 1024" using rnd_pow2 [of f64 "- 10"] by (simp add: pow2_def f64_def)
  then have "1 / 1024 \<le> rnd f64 ?q" using rnd_mono [OF q(1), of f64] by simp
  moreover have "fl_div f64 (fl_of_u64 f64 x) (Fin 1000) = Fin (rnd f64 ?q)"
    using q u64_val_facts [of x] by (simp add: fl_of_u64_def)
  ultimately show ?thesis by blast
qed

lemma rate_finite:
  assumes "1 / 1024 \<le> e"
  shows "\<exists>r. rate (Fin e) cur prev = Fin r \<and> 0 \<le> r \<and> (cur \<le> prev \<longrightarrow> r = 0)"
proof -
  let ?d = "saturating_sub cur prev" and ?u = "rnd f64 (u64_val (saturating_sub cur prev))"
  have u: "0 \<le> ?u" "?u \<le> 2 ^ 64" using rnd_u64_bounds [of ?d] by simp_all
  have e: "0 < e" using assms by linarith
  have "?u / e \<le> 2 ^ 64 / (1 / 1024)" using u assms by (intro frac_le) simp_all
  then have q: "0 \<le> ?u / e" "?u / e \<le> 2 ^ 100" using u e by simp_all
  have r: "rate (Fin e) cur prev = Fin (rnd f64 (?u / e))"
    using q e u64_val_facts [of ?d] by (simp add: rate_def fl_of_u64_def)
  have "?u = 0" if "cur \<le> prev"
  proof -
    have "?d = 0" using that by (auto simp: saturating_sub_def)
    then show ?thesis by (simp add: u64_val_def)
  qed
  with r rnd_nonneg [OF q(1)] show ?thesis by auto
qed

definition disk_rates :: "DiskRate \<Rightarrow> fl list" where
  "disk_rates d = [dr_reads_per_sec d, dr_writes_per_sec d, dr_read_bytes_per_sec d, dr_write_bytes_per_sec d]"

definition net_rates :: "NetRate \<Rightarrow> fl list" where
  "net_rates n = [nr_rx_bytes_per_sec n, nr_tx_bytes_per_sec n, nr_rx_packets_per_sec n, nr_tx_packets_per_sec n]"

lemma find_key: "map_option (\<lambda>x. n) (find (\<lambda>x. k x = n) xs) = (if n \<in> k ` set xs then Some n else None)"
  by (induction xs) auto

lemma map_filter_keys:
  assumes "\<And>x. map_option g (f x) = (if P (k x) then Some (k x) else None)"
  shows "map g (List.map_filter f xs) = filter P (map k xs)"
proof (induction xs)
  case (Cons x xs)
  with assms [of x] show ?case by (cases "f x") (auto simp: List.map_filter_simps split: if_splits)
qed (simp add: List.map_filter_simps)

text \<open>Rates between two snapshots. There are rates exactly when time has passed; then the elapsed time is
  positive, the rates are those of the devices present in both snapshots, in order, and every rate is
  a finite number that is not negative, whatever the counters are, a counter that was reset included.\<close>

theorem rates_finite:
  "(metrics_diff s p = None \<longleftrightarrow> ms_timestamp_ms s \<le> ms_timestamp_ms p) \<and>
   (\<forall>d. metrics_diff s p = Some d \<longrightarrow>
      (\<exists>e > 0. md_elapsed_secs d = Fin e) \<and>
      map dr_name (md_disks d) = filter (\<lambda>n. n \<in> dm_name ` set (ms_disks p)) (map dm_name (ms_disks s)) \<and>
      map nr_interface (md_networks d) = filter (\<lambda>n. n \<in> nm_interface ` set (ms_networks p)) (map nm_interface (ms_networks s)) \<and>
      (\<forall>x \<in> set (concat (map disk_rates (md_disks d) @ map net_rates (md_networks d))). \<exists>r \<ge> 0. x = Fin r))"
proof (intro conjI allI impI)
  show "metrics_diff s p = None \<longleftrightarrow> ms_timestamp_ms s \<le> ms_timestamp_ms p" by (simp add: metrics_diff_def Let_def)
next
  fix d assume d: "metrics_diff s p = Some d"
  then have t: "ms_timestamp_ms s - ms_timestamp_ms p \<noteq> 0" by (auto simp: metrics_diff_def split: if_splits)
  obtain e where e: "fl_div f64 (fl_of_u64 f64 (ms_timestamp_ms s - ms_timestamp_ms p)) (Fin 1000) = Fin e" "1 / 1024 \<le> e"
    using elapsed_bounds [OF t] by blast
  have f: "md_elapsed_secs d = Fin e" "md_disks d = List.map_filter (disk_rate (Fin e) (ms_disks p)) (ms_disks s)"
    "md_networks d = List.map_filter (net_rate (Fin e) (ms_networks p)) (ms_networks s)"
    using d e(1) by (auto simp: metrics_diff_def Let_def split: if_splits)
  have "0 < e" using e(2) by linarith
  with f(1) show "\<exists>e > 0. md_elapsed_secs d = Fin e" by blast
  show "map dr_name (md_disks d) = filter (\<lambda>n. n \<in> dm_name ` set (ms_disks p)) (map dm_name (ms_disks s))"
    unfolding f by (rule map_filter_keys)
      (simp add: disk_rate_def find_key option.map_comp comp_def)
  show "map nr_interface (md_networks d) = filter (\<lambda>n. n \<in> nm_interface ` set (ms_networks p)) (map nm_interface (ms_networks s))"
    unfolding f by (rule map_filter_keys)
      (simp add: net_rate_def find_key option.map_comp comp_def)
  have r: "\<exists>r \<ge> 0. rate (Fin e) a b = Fin r" for a b using rate_finite [OF e(2), of a b] by blast
  show "\<forall>x \<in> set (concat (map disk_rates (md_disks d) @ map net_rates (md_networks d))). \<exists>r \<ge> 0. x = Fin r"
    unfolding f by (auto simp: map_filter_def disk_rate_def net_rate_def disk_rates_def net_rates_def r)
qed

section \<open>The simulator\<close>

lemma checked_mul_of_nat: "a * b < 2 ^ 64 \<Longrightarrow> checked_mul (of_nat a) (of_nat b :: u64) = Some (of_nat (a * b))"
  if "a < 2 ^ 64" "b < 2 ^ 64" for a b
  using that by (simp add: checked_mul_def unat_of_nat_eq)

lemma leak_load:
  assumes "i < 2 ^ 30"
  shows "simulated_load \<lparr>sim_profile = MemoryLeak, sim_iteration = of_nat i\<rparr> = Some (Fin 10, of_nat (104857600 + i * 52428800))"
proof -
  have "checked_mul (of_nat i) (50 :: u64) = Some (of_nat (i * 50))"
    "checked_mul (of_nat (i * 50)) (1024 :: u64) = Some (of_nat (i * 50 * 1024))"
    "checked_mul (of_nat (i * 50 * 1024)) (1024 :: u64) = Some (of_nat (i * 50 * 1024 * 1024))"
    using checked_mul_of_nat [of i 50] checked_mul_of_nat [of "i * 50" 1024] checked_mul_of_nat [of "i * 50 * 1024" 1024] assms
    by simp_all
  moreover have "checked_add (104857600 :: u64) (of_nat k) = Some (of_nat (104857600 + k))" if "k < 2 ^ 63" for k
    using that by (simp add: checked_add_of_nat)
  from this [of "i * 52428800"] assms
  have "checked_add (104857600 :: u64) (of_nat (i * 52428800)) = Some (of_nat (104857600 + i * 52428800))" by simp
  ultimately show ?thesis by (simp add: simulated_load_def mult.assoc)
qed

lemma leak_next:
  assumes "i < 2 ^ 30"
  shows "map_option fst (simulator_next \<lparr>sim_profile = MemoryLeak, sim_iteration = of_nat i\<rparr>) =
    (if i < 19 then Some \<lparr>sim_profile = MemoryLeak, sim_iteration = of_nat (Suc i)\<rparr> else None)"
proof -
  have n: "of_nat (Suc i) = (of_nat i + 1 :: u64)" by simp
  have a: "checked_add (of_nat i) (1 :: u64) = Some (of_nat (Suc i))"
    unfolding n using assms by (simp add: checked_add_def unat_of_nat_eq)
  obtain t where m: "checked_mul (of_nat (Suc i)) (1000 :: u64) = Some t"
    using checked_mul_of_nat [of "Suc i" 1000] assms by (simp del: of_nat_Suc)
  have s: "checked_sub (1073741824 :: u64) (of_nat k) = (if k \<le> 1073741824 then Some (1073741824 - of_nat k) else None)"
    if "k < 2 ^ 63" for k using that by (simp add: checked_sub_def word_le_nat_alt unat_of_nat_eq)
  have "104857600 + i * 52428800 \<le> 1073741824 \<longleftrightarrow> i < 19" by linarith
  with s [of "104857600 + i * 52428800"] assms
  have "checked_sub (1073741824 :: u64) (of_nat (104857600 + i * 52428800)) =
      (if i < 19 then Some (1073741824 - of_nat (104857600 + i * 52428800)) else None)" by simp
  with leak_load [OF assms] a m show ?thesis by (simp add: simulator_next_def del: of_nat_Suc of_nat_add of_nat_mult)
qed

lemma simulator_run_snoc:
  "simulator_run (Suc n) v =
     Option.bind (simulator_run n v) (\<lambda>(v, ss). map_option (map_prod id (\<lambda>s. ss @ [s])) (simulator_next v))"
proof (induction n arbitrary: v)
  case (Suc n)
  show ?case
  proof (cases "simulator_next v")
    case (Some vs)
    obtain a b where ab: "vs = (a, b)" by (cases vs)
    have r: "simulator_run (Suc m) v = map_option (map_prod id ((#) b)) (simulator_run m a)" for m by (simp add: Some ab)
    show ?thesis unfolding r [of "Suc n"] r [of n] Suc.IH [of a]
      by (cases "simulator_run n a") (auto simp: option.map_comp comp_def map_prod_def case_prod_beta split: option.splits)
  qed simp
next
  case 0
  show ?case by (cases "simulator_next v") (auto simp: map_prod_def)
qed

text \<open>The memory leak profile of the simulator does not run for ever: it yields exactly 19 snapshots, and
  the call for the next one panics, because the memory in use has outgrown the total.\<close>

theorem simulator_leak_panics:
  "simulator_run n (simulator_new MemoryLeak) = None \<longleftrightarrow> 19 < n"
proof -
  have ok: "map_option fst (simulator_run n (simulator_new MemoryLeak)) = Some \<lparr>sim_profile = MemoryLeak, sim_iteration = of_nat n\<rparr>"
    if "n \<le> 19" for n using that
  proof (induction n)
    case (Suc n)
    then obtain ss where ss: "simulator_run n (simulator_new MemoryLeak) = Some (\<lparr>sim_profile = MemoryLeak, sim_iteration = of_nat n\<rparr>, ss)"
      by fastforce
    with leak_next [of n] Suc.prems show ?case unfolding simulator_run_snoc ss
      by (auto simp del: of_nat_Suc)
  qed (simp add: simulator_new_def)
  have bad: "simulator_run (20 + k) (simulator_new MemoryLeak) = None" for k
  proof (induction k)
    case 0
    obtain ss where ss: "simulator_run 19 (simulator_new MemoryLeak) = Some (\<lparr>sim_profile = MemoryLeak, sim_iteration = of_nat 19\<rparr>, ss)"
      using ok [of 19] by fastforce
    have "simulator_run (Suc 19) (simulator_new MemoryLeak) = None"
      unfolding simulator_run_snoc ss using leak_next [of 19] by simp
    then show ?case by simp
  next
    case (Suc k)
    have "simulator_run (Suc (20 + k)) (simulator_new MemoryLeak) = None" unfolding simulator_run_snoc Suc by simp
    then show ?case by (simp only: add_Suc_right)
  qed
  show ?thesis
  proof (cases "n \<le> 19")
    case True
    with ok [OF True] show ?thesis by auto
  next
    case False
    then obtain k where "n = 20 + k" using le_Suc_ex [of 20 n] by auto
    with bad False show ?thesis by simp
  qed
qed

text \<open>\<open>Equals\<close> on a byte count compares after rounding to 24 binary digits: distinct counts are equal.\<close>

lemma sentinel_equals_coarse:
  "sentinel_evaluate \<lparr>sr_name = ''r'', sr_condition = \<lparr>sc_target = MemoryUsedBytes, sc_operator = Equals, sc_threshold = Fin 16777216\<rparr>\<rparr>
     (demo_snapshot\<lparr>ms_memory := (ms_memory demo_snapshot)\<lparr>mm_used_bytes := 16777217\<rparr>\<rparr>)"
proof -
  have "rnd f32 16777217 = 16777216" by code_simp
  then have "fl_of_u64 f32 16777217 = Fin 16777216" by (simp add: fl_of_u64_def u64_val_def)
  then show ?thesis by (simp add: sentinel_evaluate_def fl_sub_def f32_epsilon_def)
qed

end
