(* ===== verification/Rust_Text.thy ===== *)
theory Rust_Text
  imports Rust_Fmt
begin

text \<open>
  Operations of the Rust core library on ASCII text: lines, words, splitting, trimming, searching and
  parsing of unsigned integers, with the lemmas that printed numbers are read back.
\<close>

section \<open>Operations\<close>

text \<open>\<open>str::lines\<close>, \<open>split_ascii_whitespace\<close>, \<open>split_once\<close>, \<open>trim\<close> and \<open>parse\<close> of unsigned integers.\<close>

definition strip_cr :: "string \<Rightarrow> string" where
  "strip_cr s = (if s \<noteq> [] \<and> last s = CHR 0x0D then butlast s else s)"

definition lines :: "string \<Rightarrow> string list" where
  "lines s = (let ps = split_on (CHR 0x0A) s in map strip_cr (butlast ps) @ (if last ps = [] then [] else [last ps]))"

definition is_space :: "char \<Rightarrow> bool" where
  "is_space c \<longleftrightarrow> c \<in> {CHR 0x20, CHR 0x09, CHR 0x0A, CHR 0x0C, CHR 0x0D}"

fun words_acc :: "string \<Rightarrow> string \<Rightarrow> string list" where
  "words_acc w [] = (if w = [] then [] else [rev w])"
| "words_acc w (c # cs) = (if is_space c then (if w = [] then [] else [rev w]) @ words_acc [] cs else words_acc (c # w) cs)"

definition words_of :: "string \<Rightarrow> string list" where
  "words_of s = words_acc [] s"

definition split_once :: "char \<Rightarrow> string \<Rightarrow> (string \<times> string) option" where
  "split_once c s = (if c \<in> set s then Some (takeWhile (\<lambda>x. x \<noteq> c) s, tl (dropWhile (\<lambda>x. x \<noteq> c) s)) else None)"

definition trim_space :: "char \<Rightarrow> bool" where
  "trim_space c \<longleftrightarrow> is_space c \<or> c = CHR 0x0B"

definition trim :: "string \<Rightarrow> string" where
  "trim s = rev (dropWhile trim_space (rev (dropWhile trim_space s)))"

definition parse_u64 :: "string \<Rightarrow> u64 option" where
  "parse_u64 s = map_option of_nat (from_str_radix 10 (2 ^ 64) s)"

definition parse_u32 :: "string \<Rightarrow> u32 option" where
  "parse_u32 s = map_option of_nat (from_str_radix 10 (2 ^ 32) s)"

text \<open>The \<open>i\<close>th item of an iterator.\<close>

definition get_nth :: "'a list \<Rightarrow> nat \<Rightarrow> 'a option" where
  "get_nth xs i = (if i < length xs then Some (xs ! i) else None)"

definition unwrap_or :: "'a option \<Rightarrow> 'a \<Rightarrow> 'a" where
  "unwrap_or x d = (case x of None \<Rightarrow> d | Some y \<Rightarrow> y)"

definition index_of :: "char \<Rightarrow> string \<Rightarrow> nat option" where
  "index_of c s = (if c \<in> set s then Some (length (takeWhile (\<lambda>x. x \<noteq> c) s)) else None)"

definition last_index_of :: "char \<Rightarrow> string \<Rightarrow> nat option" where
  "last_index_of c s = (if c \<in> set s then Some (length s - 1 - length (takeWhile (\<lambda>x. x \<noteq> c) (rev s))) else None)"

section \<open>Reading printed text\<close>

lemma split_on_lines: "\<forall>l\<in>set ls. c \<notin> set l \<Longrightarrow> split_on c (concat (map (\<lambda>l. l @ [c]) ls)) = ls @ [[]]"
  by (induction ls) (simp_all add: split_on_append_sep)

lemma lines_concat: "\<forall>l\<in>set ls. CHR 0x0A \<notin> set l \<Longrightarrow> lines (concat (map (\<lambda>l. l @ [CHR 0x0A]) ls)) = map strip_cr ls"
  by (simp add: lines_def split_on_lines)

lemma words_acc_word: "\<forall>c\<in>set w. \<not> is_space c \<Longrightarrow> words_acc a (w @ s) = words_acc (rev w @ a) s"
  by (induction w arbitrary: a) simp_all

lemma words_acc_spaces: "\<forall>c\<in>set p. is_space c \<Longrightarrow> words_acc [] (p @ s) = words_acc [] s"
  by (induction p) simp_all

lemma words_of_word:
  assumes "\<forall>c\<in>set w. \<not> is_space c" "w \<noteq> []" "is_space c"
  shows "words_of (w @ c # s) = w # words_of s"
  using assms by (simp add: words_of_def words_acc_word)

lemma words_of_spaces: "\<forall>c\<in>set p. is_space c \<Longrightarrow> words_of (p @ s) = words_of s"
  by (simp add: words_of_def words_acc_spaces)

lemma show_dec_digits: "c \<in> set (show_dec n) \<Longrightarrow> digit_val 10 c \<noteq> None"
proof (induction n rule: less_induct)
  case (less n)
  show ?case
  proof (cases "n < 10")
    case True
    with less.prems digit_val_digit_char [of n 10] show ?thesis by (simp add: show_dec_def show_radix.simps [of 10 n])
  next
    case False
    then have "show_dec n = show_dec (n div 10) @ [digit_char (n mod 10)]" by (simp add: show_dec_def show_radix.simps [of 10 n])
    then consider "c \<in> set (show_dec (n div 10))" | "c = digit_char (n mod 10)" using less.prems by auto
    then show ?thesis
      by cases (use less.IH [of "n div 10"] False digit_val_digit_char [of "n mod 10" 10] in auto)
  qed
qed

lemma space_not_digit: "is_space c \<Longrightarrow> digit_val 10 c = None"
  by (auto simp: is_space_def digit_val_def)

lemma show_dec_not_space: "c \<in> set (show_dec n) \<Longrightarrow> \<not> is_space c"
  using show_dec_digits space_not_digit by blast

lemma parse_u64_show: "v < 2 ^ 64 \<Longrightarrow> parse_u64 (show_dec v) = Some (of_nat v)"
  by (simp add: parse_u64_def show_dec_def from_str_radix_show)

lemma space_chars [simp]: "is_space (CHR '' '')" "\<not> is_space (CHR ''k'')" "\<not> is_space (CHR ''B'')" "is_space (CHR 0x0A)"
  by (simp_all add: is_space_def)

end
