(* ===== verification/Cli_Reports.thy ===== *)
theory Cli_Reports
  imports Api_Analytics Daemon_Types Rust_Text
begin

text \<open>
  The reports of the command line client: the analysis of one snapshot (\<open>hitz-cli/src/analyzer.rs\<close>), the
  health timeline of a recording, the bars of the metrics view (\<open>hitz-cli/src/main.rs\<close>). \<open>None\<close> is a panic of
  unchecked integer arithmetic. A table is the list of the texts of its rows.
\<close>

section \<open>Analysis\<close>

datatype WarningLevel = LevelInfo | LevelWarning | LevelCritical

fun warning_level_to_string :: "WarningLevel \<Rightarrow> string" where
  "warning_level_to_string LevelInfo = ''INFO''"
| "warning_level_to_string LevelWarning = ''WARN''"
| "warning_level_to_string LevelCritical = ''CRIT''"

record ResourceInsight =
  ri_level :: WarningLevel
  ri_message :: string

definition insight :: "WarningLevel \<Rightarrow> string \<Rightarrow> ResourceInsight" where
  "insight l m = \<lparr>ri_level = l, ri_message = m\<rparr>"

definition cpu_insight :: "fl \<Rightarrow> ResourceInsight" where
  "cpu_insight pct =
     (if fl_less (Fin 90) pct then insight LevelCritical (''High CPU utilization: '' @ show_fl1 pct @ ''%'')
      else if fl_less (Fin 75) pct then insight LevelWarning (''Elevated CPU utilization: '' @ show_fl1 pct @ ''%'')
      else insight LevelInfo (''Healthy CPU utilization: '' @ show_fl1 pct @ ''%''))"

definition memory_insight :: "fl \<Rightarrow> ResourceInsight" where
  "memory_insight used_pct =
     (if fl_less (Fin 90) used_pct then insight LevelCritical (''High Memory utilization: '' @ show_fl1 used_pct @ ''% (OOM Risk)'')
      else if fl_less (Fin 75) used_pct then insight LevelWarning (''Elevated Memory utilization: '' @ show_fl1 used_pct @ ''%'')
      else insight LevelInfo (''Healthy Memory utilization: '' @ show_fl1 used_pct @ ''%''))"

definition memory_insights :: "VmInfo \<Rightarrow> MemoryMetrics \<Rightarrow> ResourceInsight list" where
  "memory_insights info m =
     (if 0 < mm_total_bytes m then
        let used_pct = percent (mm_used_bytes m) (mm_total_bytes m) in
        memory_insight used_pct #
        (if fl_less used_pct (Fin 10) \<and> 512 < cfg_ram_mib (vi_config info)
         then [insight LevelInfo ''VM may be over-provisioned for memory (using <10% of >512 MiB)''] else [])
      else [])"

definition process_insights :: "ProcMetrics list \<Rightarrow> ResourceInsight list" where
  "process_insights ps =
     (case ps of
        p # _ \<Rightarrow>
          if fl_less (Fin 80) (pm_cpu_pct p)
          then [insight LevelWarning (''Process '' @ [CHR 0x27] @ pm_name p @ [CHR 0x27] @ '' (PID '' @ show_dec (unat (pm_pid p)) @
                  '') is consuming '' @ show_fl1 (pm_cpu_pct p) @ ''% CPU'')]
          else []
      | [] \<Rightarrow> [])"

definition network_insights :: "u64 \<Rightarrow> u64 \<Rightarrow> ResourceInsight list" where
  "network_insights rx_errs tx_errs =
     (if 0 < rx_errs \<or> 0 < tx_errs
      then [insight LevelWarning (''Network errors detected (RX: '' @ show_dec (unat rx_errs) @ '', TX: '' @ show_dec (unat tx_errs) @ '')'')]
      else [])"

definition analyze_vm :: "VmInfo \<Rightarrow> MetricsSnapshot \<Rightarrow> ResourceInsight list option" where
  "analyze_vm info s =
     Option.bind (sum_u64 (map (Some \<circ> nm_rx_errors) (ms_networks s))) (\<lambda>rx_errs.
     Option.bind (sum_u64 (map (Some \<circ> nm_tx_errors) (ms_networks s))) (\<lambda>tx_errs.
     Some (cpu_insight (cm_total_pct (ms_cpu s)) # memory_insights info (ms_memory s) @ process_insights (ms_processes s) @
           network_insights rx_errs tx_errs)))"

section \<open>Timeline\<close>

record TimelineRow =
  tr_time :: string
  tr_status :: HealthStatus
  tr_added :: string
  tr_removed :: string

record Timeline =
  tl_status :: "HealthStatus option"
  tl_reasons :: "string list"
  tl_count :: nat
  tl_initial :: "u64 option"
  tl_rows :: "TimelineRow list"
  tl_errors :: "string list"

definition timeline_start :: Timeline where
  "timeline_start = \<lparr>tl_status = None, tl_reasons = [], tl_count = 0, tl_initial = None, tl_rows = [], tl_errors = []\<rparr>"

definition join_reasons :: "string \<Rightarrow> string list \<Rightarrow> string" where
  "join_reasons mark rs = foldl (\<lambda>acc r. (if acc = [] then [] else acc @ [CHR 0x0A]) @ mark @ r) [] rs"

definition time_str :: "u64 \<Rightarrow> string" where
  "time_str elapsed_ms =
     (let elapsed_secs = unat (elapsed_ms div 1000) in
      ''T+'' @ pad_zero 2 (show_dec (elapsed_secs div 60)) @ '':'' @ pad_zero 2 (show_dec (elapsed_secs mod 60)))"

definition timeline_sample :: "Timeline \<Rightarrow> MetricsSnapshot \<Rightarrow> Timeline option" where
  "timeline_sample t snap =
     map_option (\<lambda>health.
       let initial = (case tl_initial t of None \<Rightarrow> ms_timestamp_ms snap | Some i \<Rightarrow> i);
           t = t\<lparr>tl_initial := Some initial, tl_count := tl_count t + 1\<rparr>;
           status_changed = (tl_status t \<noteq> Some (sh_status health));
           reasons_changed = (tl_reasons t \<noteq> sh_reasons health) in
       if status_changed \<or> reasons_changed then
         let added = join_reasons ''+ '' (filter (\<lambda>r. r \<notin> set (tl_reasons t)) (sh_reasons health));
             removed = join_reasons ''- '' (filter (\<lambda>r. r \<notin> set (sh_reasons health)) (tl_reasons t));
             row = \<lparr>tr_time = time_str (saturating_sub (ms_timestamp_ms snap) initial), tr_status = sh_status health,
                    tr_added = added, tr_removed = removed\<rparr> in
         t\<lparr>tl_rows := tl_rows t @ (if status_changed \<or> added \<noteq> [] \<or> removed \<noteq> [] then [row] else []),
           tl_status := Some (sh_status health), tl_reasons := sh_reasons health\<rparr>
       else t) (assess_health snap)"

text \<open>One line of the recording: blank lines are skipped, lines that do not parse are reported with their number.\<close>

definition timeline_line :: "(string \<Rightarrow> string + MetricsSnapshot) \<Rightarrow> Timeline \<Rightarrow> nat \<times> string \<Rightarrow> Timeline option" where
  "timeline_line parse t nl =
     (case nl of (line_num, line) \<Rightarrow>
        if trim line = [] then Some t
        else (case parse line of
                Inl e \<Rightarrow> Some (t\<lparr>tl_errors := tl_errors t @ [[CHR 0xE2, CHR 0x9C, CHR 0x97] @ '' Invalid or corrupted metrics data on line '' @ show_dec (line_num + 1) @ '': '' @ e]\<rparr>)
              | Inr snap \<Rightarrow> timeline_sample t snap))"

fun timeline_lines :: "(string \<Rightarrow> string + MetricsSnapshot) \<Rightarrow> Timeline \<Rightarrow> (nat \<times> string) list \<Rightarrow> Timeline option" where
  "timeline_lines parse t [] = Some t"
| "timeline_lines parse t (l # ls) = Option.bind (timeline_line parse t l) (\<lambda>t. timeline_lines parse t ls)"

definition timeline :: "(string \<Rightarrow> string + MetricsSnapshot) \<Rightarrow> string list \<Rightarrow> Timeline option" where
  "timeline parse ls = timeline_lines parse timeline_start (zip [0..<length ls] ls)"

section \<open>Bars\<close>

text \<open>\<open>f64::round\<close>: halves away from zero. The cast to \<open>usize\<close> saturates.\<close>

fun fl_round_away :: "fl \<Rightarrow> fl" where
  "fl_round_away (Fin a) = Fin (if a < 0 then of_int (- \<lfloor>- a + 1 / 2\<rfloor>) else of_int \<lfloor>a + 1 / 2\<rfloor>)"
| "fl_round_away x = x"

datatype BarColor = BarRed | BarYellow | BarGreen

definition color_for_pct :: "fl \<Rightarrow> BarColor" where
  "color_for_pct pct = (if fl_less (Fin 90) pct then BarRed else if fl_less (Fin 75) pct then BarYellow else BarGreen)"

text \<open>The filled and the empty cells of a bar.\<close>

definition make_bar :: "fl \<Rightarrow> nat \<Rightarrow> nat \<times> nat" where
  "make_bar pct width =
     (let filled_chars = unat (fl_to_word (fl_round_away (fl_mul f64 (fl_div f64 pct (Fin 100)) (fl_of_nat f64 width))) :: u64);
          filled_chars = min filled_chars width in
      (filled_chars, width - filled_chars))"

definition bar_text :: "fl \<Rightarrow> nat \<Rightarrow> string" where
  "bar_text pct width =
     (case make_bar pct width of (filled, blank) \<Rightarrow>
        ''['' @ concat (replicate filled [CHR 0xE2, CHR 0x96, CHR 0x88]) @ concat (replicate blank [CHR 0xE2, CHR 0x96, CHR 0x91]) @ '']'')"

section \<open>The metrics view\<close>

text \<open>\<open>{:.2}\<close>: the exact value to two decimals, ties to even.\<close>

fun show_fl2 :: "fl \<Rightarrow> string" where
  "show_fl2 (Fin a) =
     (let n = nat (half_even (\<bar>a\<bar> * 100)) in
      (if a < 0 then ''-'' else []) @ show_dec (n div 100) @ ''.'' @ pad_zero 2 (show_dec (n mod 100)))"
| "show_fl2 (Inf s) = (if s then ''-inf'' else ''inf'')"
| "show_fl2 NaN = ''NaN''"

fun join_str :: "string \<Rightarrow> string list \<Rightarrow> string" where
  "join_str sep [] = []"
| "join_str sep [x] = x"
| "join_str sep (x # y # xs) = x @ sep @ join_str sep (y # xs)"

definition show_u64 :: "u64 \<Rightarrow> string" where
  "show_u64 x = show_dec (unat x)"

definition system_rows :: "MetricsSnapshot \<Rightarrow> string list list" where
  "system_rows snap =
     (let cpu = ms_cpu snap; cores_str = join_str '', '' (map (\<lambda>p. show_fl1 p @ ''%'') (cm_per_core cpu));
          cpu_load = join_str '' / '' (map show_fl2 (cm_load_avg cpu));
          used_mib = mm_used_bytes (ms_memory snap) div (1024 * 1024); total_mib = mm_total_bytes (ms_memory snap) div (1024 * 1024);
          mem_pct = (if 0 < total_mib then percent used_mib total_mib else Fin 0);
          mem_str = show_u64 used_mib @ '' MiB / '' @ show_u64 total_mib @ '' MiB'' in
      [[''CPU Total'', bar_text (cm_total_pct cpu) 15 @ '' '' @ show_fl1 (cm_total_pct cpu) @ ''%'', ''Cores'', cores_str],
       [''CPU Load'', cpu_load, ''Memory'', bar_text mem_pct 15 @ '' '' @ mem_str]])"

definition disk_rows :: "DiskMetrics list \<Rightarrow> string list list" where
  "disk_rows ds = [''Disk'', ''Reads'', ''Writes'', ''Read KB'', ''Write KB''] #
     map (\<lambda>d. [dm_name d, show_u64 (dm_reads_total d), show_u64 (dm_writes_total d),
               show_u64 (dm_read_bytes d div 1024), show_u64 (dm_write_bytes d div 1024)]) ds"

definition net_rows :: "NetMetrics list \<Rightarrow> string list list" where
  "net_rows ns = [''Interface'', ''RX KB'', ''TX KB'', ''RX Pkts'', ''TX Pkts''] #
     map (\<lambda>n. [nm_interface n, show_u64 (nm_rx_bytes n div 1024), show_u64 (nm_tx_bytes n div 1024),
               show_u64 (nm_rx_packets n), show_u64 (nm_tx_packets n)]) ns"

definition proc_rows :: "ProcMetrics list \<Rightarrow> string list list" where
  "proc_rows ps = [''PID'', ''Name'', ''CPU %'', ''RSS MB''] #
     map (\<lambda>p. [show_dec (unat (pm_pid p)), pm_name p, show_fl1 (pm_cpu_pct p) @ ''%'', show_u64 (pm_rss_bytes p div (1024 * 1024))]) ps"

text \<open>The tables of the view, in order.\<close>

definition format_metrics_snapshot :: "MetricsSnapshot \<Rightarrow> string list list list" where
  "format_metrics_snapshot snap =
     [system_rows snap] @ (if ms_disks snap = [] then [] else [disk_rows (ms_disks snap)]) @
     (if ms_networks snap = [] then [] else [net_rows (ms_networks snap)]) @
     (if ms_processes snap = [] then [] else [proc_rows (ms_processes snap)])"

section \<open>The analysis and the health report\<close>

fun level_of_status :: "HealthStatus \<Rightarrow> WarningLevel" where
  "level_of_status Healthy = LevelInfo"
| "level_of_status Warning = LevelWarning"
| "level_of_status Critical = LevelCritical"

lemma insight_simps [simp]: "ri_level (insight l m) = l" "ri_message (insight l m) = m"
  by (simp_all add: insight_def)

lemma cpu_insight_level: "ri_level (cpu_insight (cm_total_pct (ms_cpu s))) = level_of_status (check_level (cpu_check s))"
  by (simp add: cpu_insight_def cpu_check_def level_check_def)

lemma memory_insight_level:
  "0 < mm_total_bytes (ms_memory s) \<Longrightarrow>
   ri_level (memory_insight (percent (mm_used_bytes (ms_memory s)) (mm_total_bytes (ms_memory s)))) = level_of_status (check_level (memory_check s))"
  by (simp add: memory_insight_def memory_check_def level_check_def)

lemma level_of_status_critical [simp]: "level_of_status l = LevelCritical \<longleftrightarrow> l = Critical"
  by (cases l) simp_all

text \<open>The analysis agrees with the health report of the API crate, which is a separate implementation: its first line has the level of
  the CPU check, its second, when the guest reports its memory, that of the memory check, and it has a critical line
  exactly when one of these two checks is critical.\<close>

theorem analysis_agrees_with_health:
  assumes "analyze_vm info s = Some ins"
  shows "ri_level (ins ! 0) = level_of_status (check_level (cpu_check s)) \<and>
    (0 < mm_total_bytes (ms_memory s) \<longrightarrow> ri_level (ins ! 1) = level_of_status (check_level (memory_check s))) \<and>
    (list_ex (\<lambda>i. ri_level i = LevelCritical) ins \<longleftrightarrow> check_level (cpu_check s) = Critical \<or> check_level (memory_check s) = Critical)"
proof -
  obtain rx tx where i: "ins = cpu_insight (cm_total_pct (ms_cpu s)) # memory_insights info (ms_memory s) @
      process_insights (ms_processes s) @ network_insights rx tx"
    using assms by (auto simp: analyze_vm_def bind_eq_Some_conv)
  have p: "\<not> list_ex (\<lambda>i. ri_level i = LevelCritical) (process_insights (ms_processes s) @ network_insights rx tx)"
    by (auto simp: process_insights_def network_insights_def split: list.split)
  show ?thesis
  proof (cases "0 < mm_total_bytes (ms_memory s)")
    case True
    then show ?thesis using p memory_insight_level [OF True] by (auto simp: i cpu_insight_level memory_insights_def Let_def)
  next
    case False
    then show ?thesis using p by (auto simp: i cpu_insight_level memory_insights_def memory_check_def)
  qed
qed

theorem analysis_agrees_with_health_witness:
  "\<exists>ins. analyze_vm \<lparr>vi_id = ''a'', vi_state = Running, vi_config = demo_sizing, vi_exit_reason = None\<rparr> demo_snapshot = Some ins \<and>
     ri_level (ins ! 0) = level_of_status (check_level (cpu_check demo_snapshot))"
proof -
  have "\<exists>ins. analyze_vm \<lparr>vi_id = ''a'', vi_state = Running, vi_config = demo_sizing, vi_exit_reason = None\<rparr> demo_snapshot = Some ins"
    by (simp add: analyze_vm_def demo_snapshot_def)
  then show ?thesis using analysis_agrees_with_health by blast
qed

section \<open>The timeline\<close>

lemma join_reasons_snoc:
  "join_reasons mark (rs @ [r]) = (if join_reasons mark rs = [] then [] else join_reasons mark rs @ [CHR 0x0A]) @ mark @ r"
  by (simp add: join_reasons_def)

lemma join_reasons_Nil_iff: "mark \<noteq> [] \<Longrightarrow> join_reasons mark rs = [] \<longleftrightarrow> rs = []"
  by (cases rs rule: rev_exhaust) (simp_all add: join_reasons_snoc, simp add: join_reasons_def)

text \<open>The reasons in force after a sequence of changes, and the rows that show such a sequence.\<close>

definition replay :: "(string list \<times> string list) list \<Rightarrow> string set" where
  "replay cs = foldl (\<lambda>R (added, removed). (R - set removed) \<union> set added) {} cs"

definition shows_changes :: "TimelineRow list \<Rightarrow> (string list \<times> string list) list \<Rightarrow> bool" where
  "shows_changes rows cs \<longleftrightarrow>
     map (\<lambda>r. (tr_added r, tr_removed r)) rows = map (\<lambda>(added, removed). (join_reasons ''+ '' added, join_reasons ''- '' removed)) cs"

definition timeline_ok :: "Timeline \<Rightarrow> MetricsSnapshot list \<Rightarrow> bool" where
  "timeline_ok t ss \<longleftrightarrow> tl_count t = length ss \<and> (tl_rows t = [] \<longleftrightarrow> ss = []) \<and> (tl_status t = None \<longleftrightarrow> ss = []) \<and>
     (ss = [] \<longrightarrow> tl_reasons t = []) \<and>
     (ss \<noteq> [] \<longrightarrow> (\<exists>h. assess_health (last ss) = Some h \<and> tl_status t = Some (sh_status h) \<and> tl_reasons t = sh_reasons h \<and>
        tr_status (last (tl_rows t)) = sh_status h)) \<and>
     (\<exists>cs. shows_changes (tl_rows t) cs \<and> replay cs = set (tl_reasons t))"

lemma timeline_ok_sample:
  assumes "timeline_ok t ss" "timeline_sample t s = Some t'"
  shows "timeline_ok t' (ss @ [s])"
proof -
  obtain h where h: "assess_health s = Some h" using assms(2) by (auto simp: timeline_sample_def)
  obtain cs where cs: "shows_changes (tl_rows t) cs" "replay cs = set (tl_reasons t)" using assms(1) by (auto simp: timeline_ok_def)
  let ?a = "filter (\<lambda>r. r \<notin> set (tl_reasons t)) (sh_reasons h)" and ?r = "filter (\<lambda>r. r \<notin> set (sh_reasons h)) (tl_reasons t)"
  let ?row = "tl_status t \<noteq> Some (sh_status h) \<or> ?a \<noteq> [] \<or> ?r \<noteq> []"
  have new: "(set (tl_reasons t) - set ?r) \<union> set ?a = set (sh_reasons h)" by auto
  have r: "replay (cs @ [(?a, ?r)]) = set (sh_reasons h)" using cs(2) new by (simp add: replay_def)
  have same: "set (tl_reasons t) = set (sh_reasons h)" if "\<not> ?row"
    using that by (auto simp: filter_empty_conv)
  have shown: "shows_changes (tl_rows t @ [\<lparr>tr_time = m, tr_status = sh_status h, tr_added = join_reasons ''+ '' ?a, tr_removed = join_reasons ''- '' ?r\<rparr>]) (cs @ [(?a, ?r)])" for m
    using cs(1) by (simp add: shows_changes_def)
  have t': "tl_count t' = tl_count t + 1" "tl_status t' = Some (sh_status h)" "tl_reasons t' = sh_reasons h"
    "\<exists>m. tl_rows t' = tl_rows t @ (if ?row then [\<lparr>tr_time = m, tr_status = sh_status h, tr_added = join_reasons ''+ '' ?a, tr_removed = join_reasons ''- '' ?r\<rparr>] else [])"
    using assms(2) h by (auto simp: timeline_sample_def Let_def join_reasons_Nil_iff split: if_splits)
  show ?thesis
  proof (cases ?row)
    case True
    with t' obtain m where "tl_rows t' = tl_rows t @ [\<lparr>tr_time = m, tr_status = sh_status h, tr_added = join_reasons ''+ '' ?a, tr_removed = join_reasons ''- '' ?r\<rparr>]" by auto
    with t'(1-3) h r shown [of m] assms(1) show ?thesis unfolding timeline_ok_def by auto
  next
    case False
    with t'(4) have "tl_rows t' = tl_rows t" by auto
    moreover have "ss \<noteq> []" using False assms(1) by (auto simp: timeline_ok_def)
    ultimately show ?thesis using t'(1-3) h cs same [OF False] False assms(1) unfolding timeline_ok_def by auto
  qed
qed

text \<open>The snapshots of a recording: the lines that are not blank and parse.\<close>

definition recorded :: "(string \<Rightarrow> string + MetricsSnapshot) \<Rightarrow> string list \<Rightarrow> MetricsSnapshot list" where
  "recorded parse ls = List.map_filter (\<lambda>l. if trim l = [] then None else case parse l of Inl e \<Rightarrow> None | Inr s \<Rightarrow> Some s) ls"

lemma recorded_Cons:
  "recorded parse (l # ls) = (if trim l = [] then [] else case parse l of Inl e \<Rightarrow> [] | Inr s \<Rightarrow> [s]) @ recorded parse ls"
  by (simp add: recorded_def List.map_filter_simps split: sum.split)

lemma timeline_ok_errors: "timeline_ok (t\<lparr>tl_errors := es\<rparr>) ss = timeline_ok t ss"
  by (simp add: timeline_ok_def)

lemma timeline_lines_ok:
  "timeline_lines parse t nls = Some t' \<Longrightarrow> timeline_ok t ss \<Longrightarrow> timeline_ok t' (ss @ recorded parse (map snd nls))"
proof (induction nls arbitrary: t ss)
  case Nil
  then show ?case by (simp add: recorded_def)
next
  case (Cons nl nls)
  obtain n l where nl: "nl = (n, l)" by (cases nl)
  obtain u where u: "timeline_line parse t (n, l) = Some u" "timeline_lines parse u nls = Some t'"
    using Cons.prems(1) nl by (auto simp: bind_eq_Some_conv)
  have "timeline_ok u (ss @ (if trim l = [] then [] else case parse l of Inl e \<Rightarrow> [] | Inr s \<Rightarrow> [s]))"
    using u(1) Cons.prems(2) timeline_ok_sample [of t ss]
    by (auto simp: timeline_line_def timeline_ok_errors split: if_splits sum.splits)
  from Cons.IH [OF u(2) this] show ?case by (simp add: nl recorded_Cons)
qed

text \<open>The timeline of a recording accounts for every snapshot in it. It counts them, it has no rows exactly when there
  are none, its last row has the status of the last snapshot, and the reasons added and removed by its rows, applied
  in order to no reasons, leave exactly the reasons of the last snapshot.\<close>

theorem timeline_replays:
  assumes "timeline parse ls = Some t" "ss = recorded parse ls"
  shows "tl_count t = length ss \<and> (tl_rows t = [] \<longleftrightarrow> ss = []) \<and>
    (ss \<noteq> [] \<longrightarrow> (\<exists>h cs. assess_health (last ss) = Some h \<and> tr_status (last (tl_rows t)) = sh_status h \<and>
       shows_changes (tl_rows t) cs \<and> replay cs = set (sh_reasons h)))"
proof -
  have "timeline_ok timeline_start []" by (simp add: timeline_ok_def timeline_start_def shows_changes_def replay_def)
  from timeline_lines_ok [OF assms(1) [unfolded timeline_def] this] have "timeline_ok t ss" by (simp add: assms(2))
  then show ?thesis unfolding timeline_ok_def by metis
qed

theorem timeline_replays_witness:
  "\<exists>t. timeline (\<lambda>l. if l = ''x'' then Inl ''bad'' else Inr demo_snapshot) ['''', ''x'', ''{}'', ''{}''] = Some t \<and> tl_count t = 2 \<and> tl_rows t \<noteq> []"
proof -
  let ?p = "\<lambda>l. if l = ''x'' then Inl ''bad'' else Inr demo_snapshot"
  have tr: "trim '''' = []" "trim ''x'' \<noteq> []" "trim ''{}'' \<noteq> []" by (simp_all add: trim_def trim_space_def is_space_def)
  have s: "\<exists>u. timeline_sample t demo_snapshot = Some u" for t
    by (simp add: timeline_sample_def assess_health_def total_net_errors_def demo_snapshot_def)
  define f where "f t = the (timeline_sample t demo_snapshot)" for t
  have f: "timeline_sample t demo_snapshot = Some (f t)" for t using s [of t] by (auto simp: f_def)
  obtain t where t: "timeline ?p ['''', ''x'', ''{}'', ''{}''] = Some t"
    by (simp add: timeline_def upt_rec timeline_line_def tr f)
  have "recorded ?p ['''', ''x'', ''{}'', ''{}''] = [demo_snapshot, demo_snapshot]"
    by (simp add: recorded_def List.map_filter_simps tr)
  from timeline_replays [OF t this [symmetric]] t show ?thesis by auto
qed

text \<open>A bar always has its width.\<close>

lemma make_bar_width: "fst (make_bar pct w) + snd (make_bar pct w) = w"
  by (simp add: make_bar_def Let_def)

end
