(* ===== verification/Cli_Client.thy ===== *)
theory Cli_Client
  imports Router Cli_Reports
begin

text \<open>
  The command line client (\<open>hitz-cli/src/main.rs\<close>, \<open>pipe_client.rs\<close>): the commands that talk to the daemon, each as a
  function from the state of what it talks to, to the new state, the output and the result. The HTTP library,
  the JSON library and the transport are parameters; at the end the transport is the router of the daemon.
\<close>

section \<open>Output and requests\<close>

datatype Color = Cyan | Green | Red | Yellow | Blue

datatype Out = Text Color string | Line Color string | Blank | ClearLine | TableOut "string list list"

type_synonym ('s, 'a) cli = "'s \<Rightarrow> 's \<times> Out list \<times> (string + 'a)"

definition cli_return :: "'a \<Rightarrow> ('s, 'a) cli" where
  "cli_return x s = (s, [], Inr x)"

definition cli_lift :: "string + 'a \<Rightarrow> ('s, 'a) cli" where
  "cli_lift r s = (s, [], r)"

definition cli_bind :: "('s, 'a) cli \<Rightarrow> ('a \<Rightarrow> ('s, 'b) cli) \<Rightarrow> ('s, 'b) cli" where
  "cli_bind m f s =
     (case m s of
        (s, out, Inl e) \<Rightarrow> (s, out, Inl e)
      | (s, out, Inr x) \<Rightarrow> (case f x s of (s, out', r) \<Rightarrow> (s, out @ out', r)))"

definition say :: "Out list \<Rightarrow> ('s, unit) cli" where
  "say out s = (s, out, Inr ())"

definition with_context :: "string \<Rightarrow> string + 'a \<Rightarrow> string + 'a" where
  "with_context ctx r = map_err (\<lambda>e. ctx @ '': '' @ e) r"

datatype Json = JNull | JBool bool | JNum string | JStr string | JArr "Json list" | JObj "(string \<times> Json) list"

text \<open>The libraries: opening a connection (the error text, if any), the path component of a request target, sending,
  the text of a status code, and the JSON conversions.\<close>

record 's Client =
  cl_open_pipe :: "string \<Rightarrow> string option"
  cl_open_tcp :: "string \<Rightarrow> string option"
  cl_uri :: "string \<Rightarrow> string + string"
  cl_send :: "Request \<Rightarrow> ('s, nat \<times> string) cli"
  cl_status_text :: "nat \<Rightarrow> string"
  cl_api_error :: "string \<Rightarrow> string option"
  cl_json :: "string \<Rightarrow> Json option"
  cl_create_json :: "VmConfig \<Rightarrow> string + string"
  cl_clone_json :: "string \<Rightarrow> string + string"
  cl_action_json :: "VmAction \<Rightarrow> string + string"
  cl_info :: "string \<Rightarrow> string + VmInfo"
  cl_list :: "string \<Rightarrow> string + VmInfo list"
  cl_snapshot :: "string \<Rightarrow> string + MetricsSnapshot"
  cl_snapshot_json :: "MetricsSnapshot \<Rightarrow> string + string"
  cl_write_file :: "Path \<Rightarrow> string \<Rightarrow> ('s, unit) cli"

definition do_request :: "'s Client \<Rightarrow> Method \<Rightarrow> string \<Rightarrow> string option \<Rightarrow> ('s, nat \<times> string) cli" where
  "do_request C meth path body =
     cli_bind (cli_lift (with_context ''build request'' (cl_uri C path))) (\<lambda>p.
     cl_send C \<lparr>rq_method = meth, rq_path = p, rq_body = Inr (ascii_bytes (case body of None \<Rightarrow> [] | Some b \<Rightarrow> b))\<rparr>)"

definition connect_text :: "string \<Rightarrow> string" where
  "connect_text target = ''cannot connect to daemon at '' @ target @ '' '' @ [CHR 0xE2, CHR 0x80, CHR 0x94] @ '' is it running?''"

definition pipe_request :: "'s Client \<Rightarrow> string \<Rightarrow> string option \<Rightarrow> Method \<Rightarrow> string \<Rightarrow> string option \<Rightarrow> ('s, nat \<times> string) cli" where
  "pipe_request C pipe tcp meth path body =
     (let (target, err) = (case tcp of Some addr \<Rightarrow> (addr, cl_open_tcp C addr) | None \<Rightarrow> (pipe, cl_open_pipe C pipe)) in
      case err of
        Some e \<Rightarrow> cli_lift (with_context (connect_text target) (Inl e))
      | None \<Rightarrow> do_request C meth path body)"

section \<open>Errors and results\<close>

fun json_get_str :: "Json \<Rightarrow> string \<Rightarrow> string option" where
  "json_get_str (JObj kvs) k = (case map_of kvs k of Some (JStr s) \<Rightarrow> Some s | _ \<Rightarrow> None)"
| "json_get_str v k = None"

fun json_scalar :: "Json \<Rightarrow> string option" where
  "json_scalar (JStr s) = Some s"
| "json_scalar (JNum n) = Some n"
| "json_scalar (JBool b) = Some (if b then ''true'' else ''false'')"
| "json_scalar JNull = Some ''null''"
| "json_scalar v = None"

fun json_parts :: "Json \<Rightarrow> string" where
  "json_parts (JObj kvs) =
     foldl (\<lambda>acc (k, v). case json_scalar v of None \<Rightarrow> acc | Some t \<Rightarrow> acc @ (if acc = [] then [] else '', '') @ k @ '': '' @ t) [] kvs"
| "json_parts v = []"

definition cross :: string where
  "cross = [CHR 0xE2, CHR 0x9C, CHR 0x97]"

definition tick :: string where
  "tick = [CHR 0xE2, CHR 0x9C, CHR 0x93]"

definition hourglass :: string where
  "hourglass = [CHR 0xE2, CHR 0x8F, CHR 0xB3]"

definition clear_line :: string where
  "clear_line = [CHR 0x0D, CHR 0x1B] @ ''[2K''"

definition error_detail :: "'s Client \<Rightarrow> nat \<Rightarrow> string \<Rightarrow> string" where
  "error_detail C status detail =
     '' ('' @ cl_status_text C status @ '')'' @ (if detail = [] then [] else '': '' @ detail)"

definition format_error_response :: "'s Client \<Rightarrow> nat \<Rightarrow> string \<Rightarrow> string \<Rightarrow> string" where
  "format_error_response C status resp error_prefix =
     clear_line @ cross @ '' '' @ error_prefix @
     (case cl_api_error C resp of
        Some message \<Rightarrow> '': '' @ message
      | None \<Rightarrow>
          (case cl_json C resp of
             Some v \<Rightarrow>
               (case json_get_str v ''message'' of
                  Some m \<Rightarrow> '': '' @ m
                | None \<Rightarrow> (case json_get_str v ''error'' of Some e \<Rightarrow> '': '' @ e | None \<Rightarrow> error_detail C status (json_parts v)))
           | None \<Rightarrow>
               let clean = trim resp in
               error_detail C status (if 200 < length clean then take 200 clean @ ''...'' else clean)))"

definition print_error_response :: "'s Client \<Rightarrow> nat \<Rightarrow> string \<Rightarrow> string \<Rightarrow> Out list" where
  "print_error_response C status resp error_prefix = [ClearLine, Line Red (format_error_response C status resp error_prefix)]"

definition is_success :: "nat \<Rightarrow> bool" where
  "is_success status \<longleftrightarrow> 200 \<le> status \<and> status < 300"

definition print_action_result :: "'s Client \<Rightarrow> nat \<Rightarrow> string \<Rightarrow> string \<Rightarrow> string \<Rightarrow> Out list" where
  "print_action_result C status resp success_msg error_prefix =
     (if is_success status then [ClearLine, Line Green success_msg] else print_error_response C status resp error_prefix)"

definition squoted :: "string \<Rightarrow> string" where
  "squoted s = [CHR 0x27] @ s @ [CHR 0x27]"

definition progress :: "string \<Rightarrow> ('s, unit) cli" where
  "progress t = say [Text Cyan (hourglass @ '' '' @ t @ ''...'')]"

section \<open>Arguments\<close>

record VmIdArgs =
  va_id :: string
  va_pipe :: string
  va_tcp :: "string option"

record VmListArgs =
  vl_pipe :: string
  vl_tcp :: "string option"

record VmCloneArgs =
  vc_src_id :: string
  vc_dest_id :: string
  vc_pipe :: string
  vc_tcp :: "string option"

record VmExportArgs =
  ve_id :: string
  ve_out :: Path
  ve_pipe :: string
  ve_tcp :: "string option"

record VmCreateArgs =
  ca_id :: string
  ca_kernel :: Path
  ca_initramfs :: "Path option"
  ca_disk :: "Path option"
  ca_ram :: u32
  ca_cpus :: u32
  ca_cmdline :: string
  ca_pipe :: string
  ca_tcp :: "string option"
  ca_net :: bool
  ca_host_ip :: string
  ca_guest_ip :: string
  ca_mac :: "string option"
  ca_ports :: "PortForward list"

definition DEFAULT_GUEST_CID :: u32 where
  "DEFAULT_GUEST_CID = 3"

definition debug_ascii :: "string \<Rightarrow> string" where
  "debug_ascii s = [CHR 0x22] @ concat (map (\<lambda>c.
     if c = CHR 0x22 then [CHR 0x5C, c] else if c = CHR 0x5C then [CHR 0x5C, c]
     else if c = CHR 0x09 then [CHR 0x5C, CHR ''t''] else if c = CHR 0x0A then [CHR 0x5C, CHR ''n'']
     else if c = CHR 0x0D then [CHR 0x5C, CHR ''r''] else if c = CHR 0x00 then [CHR 0x5C, CHR ''0'']
     else let k = of_char c :: nat in if k < 32 \<or> k = 127 then [CHR 0x5C] @ ''u{'' @ show_hex k @ ''}'' else [c]) s) @ [CHR 0x22]"

definition parse_u16 :: "string \<Rightarrow> u16 option" where
  "parse_u16 s = map_option of_nat (from_str_radix 10 (2 ^ 16) s)"

definition parse_port_forward :: "string \<Rightarrow> string + PortForward" where
  "parse_port_forward s =
     (case split_once (CHR '':'') s of
        None \<Rightarrow> Inl (''expected HOST:GUEST (e.g. 2222:22), got '' @ debug_ascii s)
      | Some (host, guest) \<Rightarrow>
          (case parse_u16 host of
             None \<Rightarrow> Inl (''invalid host port '' @ debug_ascii host @ '': must be 0-65535'')
           | Some h \<Rightarrow>
               (case parse_u16 guest of
                  None \<Rightarrow> Inl (''invalid guest port '' @ debug_ascii guest @ '': must be 0-65535'')
                | Some g \<Rightarrow> Inr \<lparr>pf_host_port = h, pf_guest_port = g\<rparr>)))"

definition config_of_args :: "VmCreateArgs \<Rightarrow> VmConfig" where
  "config_of_args args =
     \<lparr>cfg_kernel_path = ca_kernel args, cfg_initramfs_path = ca_initramfs args, cfg_disk_path = ca_disk args,
      cfg_ram_mib = ca_ram args, cfg_cpus = ca_cpus args, cfg_cmdline = Some (ca_cmdline args),
      cfg_net = (if ca_net args
                 then Some \<lparr>net_cfg_mac = ca_mac args, net_cfg_host_ip = ca_host_ip args, net_cfg_guest_ip = ca_guest_ip args,
                            net_cfg_adapter_name = None\<rparr>
                 else None),
      cfg_ports = ca_ports args, cfg_guest_cid = DEFAULT_GUEST_CID, cfg_guest_agent = Auto\<rparr>"

section \<open>Commands that change a VM\<close>

definition handle_vm_create :: "'s Client \<Rightarrow> VmCreateArgs \<Rightarrow> ('s, unit) cli" where
  "handle_vm_create C args =
     cli_bind (progress (''Creating VM '' @ squoted (ca_id args))) (\<lambda>_.
     cli_bind (cli_lift (with_context ''serialize request'' (cl_create_json C (config_of_args args)))) (\<lambda>body.
     cli_bind (pipe_request C (ca_pipe args) (ca_tcp args) PUT (''/vms/'' @ ca_id args) (Some body)) (\<lambda>(status, resp).
     say (print_action_result C status resp (tick @ '' Successfully created VM '' @ ca_id args) (''Failed to create VM '' @ ca_id args)))))"

definition handle_vm_clone :: "'s Client \<Rightarrow> VmCloneArgs \<Rightarrow> ('s, unit) cli" where
  "handle_vm_clone C args =
     cli_bind (progress (''Cloning VM '' @ squoted (vc_src_id args) @ '' to '' @ squoted (vc_dest_id args))) (\<lambda>_.
     cli_bind (cli_lift (with_context ''serialize request'' (cl_clone_json C (vc_dest_id args)))) (\<lambda>body.
     cli_bind (pipe_request C (vc_pipe args) (vc_tcp args) POST (''/vms/'' @ vc_src_id args @ ''/clone'') (Some body)) (\<lambda>(status, resp).
     say (print_action_result C status resp (tick @ '' Successfully cloned VM '' @ vc_src_id args @ '' to '' @ vc_dest_id args)
            (''Failed to clone VM '' @ vc_src_id args)))))"

definition handle_vm_action :: "'s Client \<Rightarrow> VmIdArgs \<Rightarrow> VmAction \<Rightarrow> ('s, unit) cli" where
  "handle_vm_action C args action =
     cli_bind (progress (gerund action @ '' VM '' @ squoted (va_id args))) (\<lambda>_.
     cli_bind (cli_lift (with_context ''serialize request'' (cl_action_json C action))) (\<lambda>body.
     cli_bind (pipe_request C (va_pipe args) (va_tcp args) POST (''/vms/'' @ va_id args @ ''/action'') (Some body)) (\<lambda>(status, resp).
     say (print_action_result C status resp (tick @ '' Successfully '' @ past_tense action @ '' VM '' @ va_id args)
            (''Failed to '' @ action_to_string action @ '' VM '' @ va_id args)))))"

definition handle_vm_delete :: "'s Client \<Rightarrow> VmIdArgs \<Rightarrow> ('s, unit) cli" where
  "handle_vm_delete C args =
     cli_bind (progress (''Deleting VM '' @ squoted (va_id args))) (\<lambda>_.
     cli_bind (pipe_request C (va_pipe args) (va_tcp args) DELETE (''/vms/'' @ va_id args) None) (\<lambda>(status, resp).
     say (print_action_result C status resp (tick @ '' Successfully deleted VM '' @ va_id args) (''Failed to delete VM '' @ va_id args))))"

text \<open>The exit code of a \<open>vm\<close> command (\<open>main\<close>).\<close>

definition exit_code :: "string + unit \<Rightarrow> nat" where
  "exit_code r = (case r of Inl e \<Rightarrow> 1 | Inr _ \<Rightarrow> 0)"

section \<open>Commands that report\<close>

fun state_cell_text :: "VmState \<Rightarrow> string" where
  "state_cell_text Running = ''Running''"
| "state_cell_text Stopped = ''Stopped''"
| "state_cell_text Failed = ''Failed''"
| "state_cell_text Created = ''Created''"

fun agent_text :: "GuestAgentMode \<Rightarrow> string" where
  "agent_text Auto = ''Auto''"
| "agent_text (Custom p) = ''Custom ('' @ path_display p @ '')''"
| "agent_text Disabled = ''Disabled''"

definition opt_row :: "string \<Rightarrow> string option \<Rightarrow> string list list" where
  "opt_row name v = (case v of None \<Rightarrow> [] | Some t \<Rightarrow> [[name, t]])"

definition net_text :: "NetConfig \<Rightarrow> string" where
  "net_text n = ''Host IP: '' @ net_cfg_host_ip n @ '', Guest IP: '' @ net_cfg_guest_ip n @ '', MAC: '' @
     (case net_cfg_mac n of None \<Rightarrow> ''Auto'' | Some m \<Rightarrow> m)"

definition ports_text :: "PortForward list \<Rightarrow> string" where
  "ports_text ps = join_str '', '' (map (\<lambda>p. ''0.0.0.0:'' @ show_dec (unat (pf_host_port p)) @ '' -> '' @ show_dec (unat (pf_guest_port p))) ps)"

definition status_rows :: "VmInfo \<Rightarrow> string list list" where
  "status_rows info =
     (let c = vi_config info in
      [[''ID:'', vi_id info], [''State:'', state_cell_text (vi_state info)], [''Kernel:'', path_display (cfg_kernel_path c)]] @
      opt_row ''Initramfs:'' (map_option path_display (cfg_initramfs_path c)) @
      opt_row ''Disk:'' (map_option path_display (cfg_disk_path c)) @
      [[''RAM:'', show_dec (unat (cfg_ram_mib c)) @ '' MiB''], [''CPUs:'', show_dec (unat (cfg_cpus c))],
       [''Guest Agent:'', agent_text (cfg_guest_agent c)], [''Guest CID:'', show_dec (unat (cfg_guest_cid c))]] @
      opt_row ''Network:'' (map_option net_text (cfg_net c)) @
      (if cfg_ports c = [] then [] else [[''Ports:'', ports_text (cfg_ports c)]]) @
      opt_row ''Exit:'' (vi_exit_reason info))"

definition handle_vm_status :: "'s Client \<Rightarrow> VmIdArgs \<Rightarrow> ('s, unit) cli" where
  "handle_vm_status C args =
     cli_bind (progress (''Fetching status for VM '' @ squoted (va_id args))) (\<lambda>_.
     cli_bind (pipe_request C (va_pipe args) (va_tcp args) GET (''/vms/'' @ va_id args) None) (\<lambda>(status, resp).
     say (ClearLine #
       (if is_success status
        then (case cl_info C resp of
                Inr info \<Rightarrow> [TableOut (status_rows info)]
              | Inl e \<Rightarrow> print_error_response C status resp (''Failed to parse VM '' @ va_id args @ '' status''))
        else print_error_response C status resp (''Failed to get VM '' @ va_id args @ '' status'')))))"

definition list_row :: "VmInfo \<Rightarrow> string list" where
  "list_row info = [vi_id info, state_cell_text (vi_state info), show_dec (unat (cfg_ram_mib (vi_config info))),
     show_dec (unat (cfg_cpus (vi_config info))), case vi_exit_reason info of None \<Rightarrow> ''-'' | Some r \<Rightarrow> r]"

definition handle_vm_list :: "'s Client \<Rightarrow> VmListArgs \<Rightarrow> ('s, unit) cli" where
  "handle_vm_list C args =
     cli_bind (progress ''Fetching VM list'') (\<lambda>_.
     cli_bind (pipe_request C (vl_pipe args) (vl_tcp args) GET ''/vms'' None) (\<lambda>(status, resp).
     say (ClearLine #
       (if is_success status
        then (case cl_list C resp of
                Inr vms \<Rightarrow>
                  if vms = [] then [Line Blue ([CHR 0xE2, CHR 0x84, CHR 0xB9, CHR 0xEF, CHR 0xB8, CHR 0x8F] @ ''  No VMs found.'')]
                  else [TableOut ([''ID'', ''State'', ''RAM (MiB)'', ''CPUs'', ''Exit Reason''] # map list_row vms)]
              | Inl e \<Rightarrow> print_error_response C status resp ''Failed to parse VMs list'')
        else print_error_response C status resp ''Failed to list VMs''))))"

section \<open>Commands on metrics\<close>

definition handle_vm_metrics :: "'s Client \<Rightarrow> VmIdArgs \<Rightarrow> ('s, unit) cli" where
  "handle_vm_metrics C args =
     cli_bind (progress (''Fetching metrics for VM '' @ squoted (va_id args))) (\<lambda>_.
     cli_bind (pipe_request C (va_pipe args) (va_tcp args) GET (''/vms/'' @ va_id args @ ''/metrics'') None) (\<lambda>(status, resp).
     cli_bind (say [ClearLine]) (\<lambda>_.
     if is_success status
     then cli_bind (cli_lift (with_context ''failed to parse metrics response'' (cl_snapshot C resp))) (\<lambda>snap.
            say (map TableOut (format_metrics_snapshot snap)))
     else say (print_error_response C status resp (''Failed to get VM '' @ va_id args @ '' metrics'')))))"

definition handle_vm_export_metrics :: "'s Client \<Rightarrow> VmExportArgs \<Rightarrow> ('s, unit) cli" where
  "handle_vm_export_metrics C args =
     cli_bind (progress (''Exporting metrics for VM '' @ squoted (ve_id args))) (\<lambda>_.
     cli_bind (pipe_request C (ve_pipe args) (ve_tcp args) GET (''/vms/'' @ ve_id args @ ''/metrics'') None) (\<lambda>(status, resp).
     if is_success status
     then cli_bind (cli_lift (with_context ''failed to parse metrics response'' (cl_snapshot C resp))) (\<lambda>snap.
          cli_bind (cli_lift (with_context ''failed to serialize metrics'' (cl_snapshot_json C snap))) (\<lambda>json.
          cli_bind (\<lambda>s. case cl_write_file C (ve_out args) json s of (s, out, r) \<Rightarrow> (s, out, with_context ''failed to write metrics export to file'' r)) (\<lambda>_.
          say [ClearLine, Line Green (tick @ '' Exported metrics to '' @ path_display (ve_out args))])))
     else say (print_action_result C status resp [] (''Failed to export VM '' @ ve_id args @ '' metrics''))))"

text \<open>The report of \<open>vm analyze\<close>; \<open>None\<close> when the analysis panics.\<close>

definition level_cell :: "WarningLevel \<Rightarrow> string" where
  "level_cell l = (case l of
     LevelCritical \<Rightarrow> '' '' @ [CHR 0xF0, CHR 0x9F, CHR 0x9A, CHR 0xA8] @ '' CRIT ''
   | LevelWarning \<Rightarrow> '' '' @ [CHR 0xE2, CHR 0x9A, CHR 0xA0, CHR 0xEF, CHR 0xB8, CHR 0x8F] @ '' WARN ''
   | LevelInfo \<Rightarrow> '' '' @ [CHR 0xE2, CHR 0x84, CHR 0xB9, CHR 0xEF, CHR 0xB8, CHR 0x8F] @ '' INFO '')"

definition white_check :: string where
  "white_check = [CHR 0xE2, CHR 0x9C, CHR 0x85]"

definition analysis_report :: "string \<Rightarrow> ResourceInsight list \<Rightarrow> Out list" where
  "analysis_report vid ins =
     [ClearLine, Text Green white_check, Line Cyan ('' Analyzed VM '' @ squoted vid), Blank,
      Line Blue ('' '' @ [CHR 0xF0, CHR 0x9F, CHR 0x94, CHR 0x8D] @ '' Analysis Report for VM '' @ squoted vid @ '' ''), Blank] @
     (if ins = [] then [Line Green (''  '' @ white_check @ '' System is healthy. No issues detected.'')]
      else [TableOut ([''Level'', ''Insight''] # map (\<lambda>i. [level_cell (ri_level i), ri_message i]) ins)])"

definition handle_vm_analyze :: "'s Client \<Rightarrow> VmIdArgs \<Rightarrow> 's \<Rightarrow> ('s \<times> Out list \<times> (string + unit)) option" where
  "handle_vm_analyze C args s =
     (let start = [Text Cyan (hourglass @ '' Analyzing VM '' @ squoted (va_id args) @ ''...'')];
          stop = (\<lambda>s out. Some (s, start @ out, Inr ())) in
      case pipe_request C (va_pipe args) (va_tcp args) GET (''/vms/'' @ va_id args) None s of
        (s, out, Inl e) \<Rightarrow> Some (s, start @ out, Inl e)
      | (s, out, Inr (status, resp)) \<Rightarrow>
          if \<not> is_success status then stop s (out @ print_error_response C status resp (''Failed to get VM '' @ va_id args @ '' info''))
          else (case cl_info C resp of
                  Inl e \<Rightarrow> stop s (out @ print_error_response C status resp (''Failed to parse VM '' @ va_id args @ '' info ('' @ e @ '')''))
                | Inr info \<Rightarrow>
                    if vi_state info \<noteq> Running
                    then stop s (out @ [Line Yellow (''VM is not running (State: '' @ state_cell_text (vi_state info) @ ''). Metrics analysis requires a running VM.'')])
                    else (case pipe_request C (va_pipe args) (va_tcp args) GET (''/vms/'' @ va_id args @ ''/metrics'') None s of
                            (s, out', Inl e) \<Rightarrow> Some (s, start @ out @ out', Inl e)
                          | (s, out', Inr (status, resp)) \<Rightarrow>
                              if \<not> is_success status
                              then stop s (out @ out' @ print_error_response C status resp (''Failed to get VM '' @ va_id args @ '' metrics''))
                              else (case cl_snapshot C resp of
                                      Inl e \<Rightarrow> stop s (out @ out' @ print_error_response C status resp (''Failed to parse VM '' @ va_id args @ '' metrics ('' @ e @ '')''))
                                    | Inr snap \<Rightarrow> Option.bind (analyze_vm info snap) (\<lambda>ins. stop s (out @ out' @ analysis_report (va_id args) ins))))))"

section \<open>The client on the daemon\<close>

text \<open>The daemon behind the connection: every request is routed, and the client sees the status and the text of the body.\<close>

definition daemon_send ::
  "Serde \<Rightarrow> AgentHost \<Rightarrow> HostFs \<Rightarrow> (nat \<Rightarrow> Manager \<Rightarrow> Manager) \<Rightarrow> RouterSerde \<Rightarrow> (Body \<Rightarrow> string) \<Rightarrow> Request \<Rightarrow> (Manager, nat \<times> string) cli" where
  "daemon_send S A H env J T req mg = (case route S A H env J req mg of (mg, r) \<Rightarrow> (mg, [], Inr (rs_status r, T (rs_body r))))"

definition on_daemon ::
  "Serde \<Rightarrow> AgentHost \<Rightarrow> HostFs \<Rightarrow> (nat \<Rightarrow> Manager \<Rightarrow> Manager) \<Rightarrow> RouterSerde \<Rightarrow> (Body \<Rightarrow> string) \<Rightarrow> Manager Client \<Rightarrow> Manager Client" where
  "on_daemon S A H env J T C = C\<lparr>cl_open_pipe := \<lambda>_. None, cl_open_tcp := \<lambda>_. None, cl_send := daemon_send S A H env J T\<rparr>"

definition plain_char :: "char \<Rightarrow> bool" where
  "plain_char c \<longleftrightarrow> (let k = of_char c :: nat in (48 \<le> k \<and> k \<le> 57) \<or> (65 \<le> k \<and> k \<le> 90) \<or> (97 \<le> k \<and> k \<le> 122)) \<or>
     c \<in> {CHR ''-'', CHR ''.'', CHR ''_'', CHR ''~''}"

definition url_plain :: "string \<Rightarrow> bool" where
  "url_plain vid \<longleftrightarrow> vid \<noteq> [] \<and> list_all plain_char vid"

text \<open>
  What is relied on of the libraries: a target of unreserved characters is its own path (RFC 3986), and what one side
  serialises the other side parses to the same value.
\<close>

locale daemon_link =
  fixes J :: RouterSerde and T :: "Body \<Rightarrow> string" and C :: "Manager Client"
  assumes uri_plain: "list_all (\<lambda>c. plain_char c \<or> c = CHR ''/'') p \<Longrightarrow> cl_uri C (CHR ''/'' # p) = Inr (CHR ''/'' # p)"
    and action_wire: "cl_action_json C a = Inr b \<Longrightarrow> action_from_json J (ascii_bytes b) = Inr a"
    and create_wire: "cl_create_json C c = Inr b \<Longrightarrow> create_from_json J (ascii_bytes b) = Inr c"
    and clone_wire: "cl_clone_json C d = Inr b \<Longrightarrow> clone_from_json J (ascii_bytes b) = Inr d"
    and error_wire: "cl_api_error C (T (ErrorBody m)) = Some m"
begin

lemma request_plain:
  assumes "list_all (\<lambda>c. plain_char c \<or> c = CHR ''/'') p"
  shows "pipe_request (on_daemon S A H env J T C) pipe tcp meth (CHR ''/'' # p) body mg =
    daemon_send S A H env J T \<lparr>rq_method = meth, rq_path = CHR ''/'' # p, rq_body = Inr (ascii_bytes (case body of None \<Rightarrow> [] | Some b \<Rightarrow> b))\<rparr> mg"
  using uri_plain [OF assms]
  by (simp add: pipe_request_def on_daemon_def do_request_def cli_bind_def cli_lift_def with_context_def split: option.split prod.split sum.split)

end

definition finish :: "(Manager, DaemonError, Response) attempt \<Rightarrow> Manager \<times> Response" where
  "finish r = (case r of (mg, Inl e) \<Rightarrow> (mg, daemon_error_response e) | (mg, Inr x) \<Rightarrow> (mg, x))"

lemma plain_no_slash: "list_all plain_char vid \<Longrightarrow> CHR ''/'' \<notin> set vid"
  by (induction vid) (auto simp: plain_char_def)

lemma route_vm_path:
  assumes "url_plain vid"
  shows "rq_path req = ''/vms/'' @ vid \<Longrightarrow> route S A H env J req mg = finish (route_vm S A H env J req vid None mg)"
    "rq_path req = ''/vms/'' @ vid @ ''/'' @ suffix \<Longrightarrow> route S A H env J req mg = finish (route_vm S A H env J req vid (Some suffix) mg)"
  using assms splitn_path [OF plain_no_slash] by (simp_all add: url_plain_def route_def finish_def)

section \<open>The commands reach the manager\<close>

text \<open>What the user is told about an operation: the progress line, then success or the error of the daemon.\<close>

definition told_result :: "string \<Rightarrow> string \<Rightarrow> DaemonError + 'a \<Rightarrow> Out list" where
  "told_result ok err r =
     (case r of
        Inr _ \<Rightarrow> [ClearLine, Line Green ok]
      | Inl e \<Rightarrow> [ClearLine, Line Red (clear_line @ cross @ '' '' @ err @ '': '' @ daemon_error_to_string e)])"

definition told :: "string \<Rightarrow> string \<Rightarrow> string \<Rightarrow> Manager \<times> (DaemonError + 'a) \<Rightarrow> Manager \<times> Out list \<times> (string + unit)" where
  "told doing ok err r = (case r of (mg, r) \<Rightarrow> (mg, Text Cyan (hourglass @ '' '' @ doing @ ''...'') # told_result (tick @ '' '' @ ok) err r, Inr ()))"

definition info_total :: "RouterSerde \<Rightarrow> bool" where
  "info_total J \<longleftrightarrow> (\<forall>i. is_ok (info_to_json J i))"

text \<open>The operation behind an action.\<close>

definition vm_operation ::
  "Serde \<Rightarrow> AgentHost \<Rightarrow> HostFs \<Rightarrow> (nat \<Rightarrow> Manager \<Rightarrow> Manager) \<Rightarrow> VmAction \<Rightarrow> string \<Rightarrow> Manager \<Rightarrow> (Manager, DaemonError, VmInfo) attempt" where
  "vm_operation S A H env action vid mg =
     (case action of Start \<Rightarrow> start_vm S A H vid mg | Stop \<Rightarrow> stop_vm vid mg | Restart \<Rightarrow> restart_vm S A H env vid mg)"

lemma error_status_no_success: "\<not> is_success (error_status e)"
  by (cases e rule: error_status.cases) (simp_all add: is_success_def)

lemma on_daemon_fields [simp]:
  "cl_api_error (on_daemon S A H env J T C) = cl_api_error C" "cl_action_json (on_daemon S A H env J T C) = cl_action_json C"
  "cl_create_json (on_daemon S A H env J T C) = cl_create_json C" "cl_clone_json (on_daemon S A H env J T C) = cl_clone_json C"
  "cl_info (on_daemon S A H env J T C) = cl_info C" "cl_list (on_daemon S A H env J T C) = cl_list C"
  by (simp_all add: on_daemon_def)

lemma url_plain_path: "url_plain vid \<Longrightarrow> list_all (\<lambda>c. plain_char c \<or> c = CHR ''/'') (''vms/'' @ vid)"
  by (auto simp: url_plain_def plain_char_def list_all_iff)

lemma url_plain_path_suffix:
  "url_plain vid \<Longrightarrow> list_all plain_char x \<Longrightarrow> list_all (\<lambda>c. plain_char c \<or> c = CHR ''/'') (''vms/'' @ vid @ ''/'' @ x)"
  by (auto simp: url_plain_def plain_char_def list_all_iff)

context daemon_link
begin

lemma printed_reply:
  assumes "is_success st" "\<And>x. is_ok (f x)" "cl_api_error C' = cl_api_error C"
  shows "case finish (reply r (\<lambda>x. json_response st (f x))) of
    (mg', x) \<Rightarrow> mg' = fst r \<and> print_action_result C' (rs_status x) (T (rs_body x)) ok err = told_result ok err (snd r)"
proof -
  obtain mg' y where r: "r = (mg', y)" by (cases r)
  show ?thesis
  proof (cases y)
    case (Inl e)
    then show ?thesis using error_status_no_success [of e] error_wire assms(3)
      by (simp add: r reply_def finish_def daemon_error_response_def error_response_def print_action_result_def print_error_response_def
          format_error_response_def told_result_def)
  next
    case (Inr i)
    obtain t where "f i = Inr t" using assms(2) [of i] by (cases "f i") (simp_all add: is_ok_def)
    with Inr assms(1) show ?thesis
      by (simp add: r reply_def finish_def json_response_def print_action_result_def told_result_def)
  qed
qed

text \<open>The common end of the commands: the request is routed to an operation and its result is printed.\<close>

lemma command_told:
  assumes "list_all (\<lambda>c. plain_char c \<or> c = CHR ''/'') p" "is_success st" "\<And>x. is_ok (f x)"
    and "route S A H env J \<lparr>rq_method = meth, rq_path = CHR ''/'' # p, rq_body = Inr (ascii_bytes (case body of None \<Rightarrow> [] | Some b \<Rightarrow> b))\<rparr> mg =
      finish (reply r (\<lambda>x. json_response st (f x)))"
  shows "cli_bind (pipe_request (on_daemon S A H env J T C) pipe tcp meth (CHR ''/'' # p) body)
      (\<lambda>(status, resp). say (print_action_result (on_daemon S A H env J T C) status resp ok err)) mg = (fst r, told_result ok err (snd r), Inr ())"
proof -
  obtain mg' x where x: "finish (reply r (\<lambda>x. json_response st (f x))) = (mg', x)" by (cases "finish (reply r (\<lambda>x. json_response st (f x)))")
  have "mg' = fst r" "print_action_result (on_daemon S A H env J T C) (rs_status x) (T (rs_body x)) ok err = told_result ok err (snd r)"
    using printed_reply [where f = f, OF assms(2,3), of "on_daemon S A H env J T C" r ok err] x by simp_all
  then show ?thesis using assms(4) x by (simp add: cli_bind_def request_plain [OF assms(1)] daemon_send_def say_def)
qed

lemma action_reaches:
  assumes "url_plain (va_id args)" "cl_action_json C action = Inr b" "info_total J"
  shows "handle_vm_action (on_daemon S A H env J T C) args action mg =
    told (gerund action @ '' VM '' @ squoted (va_id args)) (''Successfully '' @ past_tense action @ '' VM '' @ va_id args)
      (''Failed to '' @ action_to_string action @ '' VM '' @ va_id args) (vm_operation S A H env action (va_id args) mg)"
proof -
  let ?p = "''vms/'' @ va_id args @ ''/'' @ ''action''"
  let ?req = "\<lparr>rq_method = POST, rq_path = CHR ''/'' # ?p, rq_body = Inr (ascii_bytes b)\<rparr>"
  have p: "list_all (\<lambda>c. plain_char c \<or> c = CHR ''/'') ?p" by (rule url_plain_path_suffix [OF assms(1)]) (simp add: plain_char_def)
  have "route S A H env J ?req mg = finish (route_vm S A H env J ?req (va_id args) (Some ''action'') mg)"
    by (rule route_vm_path(2) [OF assms(1)]) simp
  also have "\<dots> = finish (reply (vm_operation S A H env action (va_id args) mg) (\<lambda>info. json_response 200 (info_to_json J info)))"
    using action_wire [OF assms(2)] by (simp add: route_vm_def handle_action_def read_body_def vm_operation_def)
  finally have "route S A H env J \<lparr>rq_method = POST, rq_path = CHR ''/'' # ?p, rq_body = Inr (ascii_bytes (case Some b of None \<Rightarrow> [] | Some b \<Rightarrow> b))\<rparr> mg =
      finish (reply (vm_operation S A H env action (va_id args) mg) (\<lambda>info. json_response 200 (info_to_json J info)))" by simp
  from command_told [OF p _ _ this, where ok = ok and err = err and pipe = "va_pipe args" and tcp = "va_tcp args" for ok err] assms(2,3) show ?thesis
    by (simp add: handle_vm_action_def cli_bind_def progress_def say_def cli_lift_def with_context_def told_def is_success_def info_total_def
        split: prod.splits)
qed


lemma create_reaches:
  assumes "url_plain (ca_id args)" "cl_create_json C (config_of_args args) = Inr b" "info_total J"
  shows "handle_vm_create (on_daemon S A H env J T C) args mg =
    told (''Creating VM '' @ squoted (ca_id args)) (''Successfully created VM '' @ ca_id args) (''Failed to create VM '' @ ca_id args)
      (create_vm S H (ca_id args) (config_of_args args) mg)"
proof -
  let ?p = "''vms/'' @ ca_id args"
  have "route S A H env J \<lparr>rq_method = PUT, rq_path = CHR ''/'' # ?p, rq_body = Inr (ascii_bytes b)\<rparr> mg =
      finish (reply (create_vm S H (ca_id args) (config_of_args args) mg) (\<lambda>info. json_response 201 (info_to_json J info)))"
    using route_vm_path(1) [OF assms(1)] create_wire [OF assms(2)] by (simp add: route_vm_def handle_create_def read_body_def)
  then have "route S A H env J \<lparr>rq_method = PUT, rq_path = CHR ''/'' # ?p, rq_body = Inr (ascii_bytes (case Some b of None \<Rightarrow> [] | Some b \<Rightarrow> b))\<rparr> mg =
      finish (reply (create_vm S H (ca_id args) (config_of_args args) mg) (\<lambda>info. json_response 201 (info_to_json J info)))" by simp
  from command_told [OF url_plain_path [OF assms(1)] _ _ this, where ok = ok and err = err and pipe = "ca_pipe args" and tcp = "ca_tcp args" for ok err] assms(2,3)
  show ?thesis
    by (simp add: handle_vm_create_def cli_bind_def progress_def say_def cli_lift_def with_context_def told_def is_success_def info_total_def
        split: prod.splits)
qed

lemma clone_reaches:
  assumes "url_plain (vc_src_id args)" "cl_clone_json C (vc_dest_id args) = Inr b" "info_total J"
  shows "handle_vm_clone (on_daemon S A H env J T C) args mg =
    told (''Cloning VM '' @ squoted (vc_src_id args) @ '' to '' @ squoted (vc_dest_id args))
      (''Successfully cloned VM '' @ vc_src_id args @ '' to '' @ vc_dest_id args) (''Failed to clone VM '' @ vc_src_id args)
      (clone_vm S H (vc_src_id args) (vc_dest_id args) mg)"
proof -
  let ?p = "''vms/'' @ vc_src_id args @ ''/'' @ ''clone''"
  have p: "list_all (\<lambda>c. plain_char c \<or> c = CHR ''/'') ?p" by (rule url_plain_path_suffix [OF assms(1)]) (simp add: plain_char_def)
  have "route S A H env J \<lparr>rq_method = POST, rq_path = CHR ''/'' # ?p, rq_body = Inr (ascii_bytes b)\<rparr> mg =
      finish (reply (clone_vm S H (vc_src_id args) (vc_dest_id args) mg) (\<lambda>info. json_response 201 (info_to_json J info)))"
    using route_vm_path(2) [OF assms(1), of _ "''clone''"] clone_wire [OF assms(2)] by (simp add: route_vm_def handle_clone_def read_body_def)
  then have "route S A H env J \<lparr>rq_method = POST, rq_path = CHR ''/'' # ?p, rq_body = Inr (ascii_bytes (case Some b of None \<Rightarrow> [] | Some b \<Rightarrow> b))\<rparr> mg =
      finish (reply (clone_vm S H (vc_src_id args) (vc_dest_id args) mg) (\<lambda>info. json_response 201 (info_to_json J info)))" by simp
  from command_told [OF p _ _ this, where ok = ok and err = err and pipe = "vc_pipe args" and tcp = "vc_tcp args" for ok err] assms(2,3) show ?thesis
    by (simp add: handle_vm_clone_def cli_bind_def progress_def say_def cli_lift_def with_context_def told_def is_success_def info_total_def
        split: prod.splits)
qed

lemma delete_reaches:
  assumes "url_plain (va_id args)"
  shows "handle_vm_delete (on_daemon S A H env J T C) args mg =
    told (''Deleting VM '' @ squoted (va_id args)) (''Successfully deleted VM '' @ va_id args) (''Failed to delete VM '' @ va_id args)
      (delete_vm (va_id args) mg)"
proof -
  obtain mg' r where r: "delete_vm (va_id args) mg = (mg', r)" by (cases "delete_vm (va_id args) mg")
  have "route S A H env J \<lparr>rq_method = DELETE, rq_path = CHR ''/'' # ''vms/'' @ va_id args, rq_body = Inr (ascii_bytes [])\<rparr> mg =
      finish (reply (delete_vm (va_id args) mg) (\<lambda>_. Inr \<lparr>rs_status = 204, rs_body = EmptyBody\<rparr>))"
    using route_vm_path(1) [OF assms(1)] by (simp add: route_vm_def handle_delete_def)
  with request_plain [OF url_plain_path [OF assms(1)], where body = None] r show ?thesis
    using error_status_no_success error_wire
    by (cases r) (simp_all add: handle_vm_delete_def cli_bind_def progress_def say_def told_def told_result_def daemon_send_def reply_def finish_def
        print_action_result_def print_error_response_def format_error_response_def daemon_error_response_def error_response_def is_success_def)
qed

text \<open>An identifier is not encoded: with a question mark in it, the rest becomes the query and the command acts on another VM.\<close>

lemma query_in_identifier:
  assumes "url_plain vid" "cl_uri C (''/vms/'' @ vid @ ''?'' @ q) = Inr (''/vms/'' @ vid)"
  shows "fst (handle_vm_delete (on_daemon S A H env J T C) \<lparr>va_id = vid @ ''?'' @ q, va_pipe = pipe, va_tcp = tcp\<rparr> mg) = fst (delete_vm vid mg)"
proof -
  obtain mg' r where r: "delete_vm vid mg = (mg', r)" by (cases "delete_vm vid mg")
  have "route S A H env J \<lparr>rq_method = DELETE, rq_path = ''/vms/'' @ vid, rq_body = Inr (ascii_bytes [])\<rparr> mg =
      finish (reply (delete_vm vid mg) (\<lambda>_. Inr \<lparr>rs_status = 204, rs_body = EmptyBody\<rparr>))"
    using route_vm_path(1) [OF assms(1)] by (simp add: route_vm_def handle_delete_def)
  then show ?thesis using assms(2) r
    by (cases r) (simp_all add: handle_vm_delete_def cli_bind_def progress_def say_def pipe_request_def do_request_def cli_lift_def with_context_def
        on_daemon_def daemon_send_def reply_def finish_def split: option.split)
qed

text \<open>Metrics are never delivered: the daemon answers every request for them with 503.\<close>

lemma metrics_unavailable:
  assumes "url_plain vid"
  shows "pipe_request (on_daemon S A H env J T C) pipe tcp GET (''/vms/'' @ vid @ ''/metrics'') None mg =
    (mg, [], Inr (503, T (ErrorBody ''vsock metrics not available (push-to-OTel mode active; on-demand pull not yet implemented)'')))"
proof -
  have p: "list_all (\<lambda>c. plain_char c \<or> c = CHR ''/'') (''vms/'' @ vid @ ''/'' @ ''metrics'')"
    by (rule url_plain_path_suffix [OF assms]) (simp add: plain_char_def)
  have "route S A H env J \<lparr>rq_method = GET, rq_path = CHR ''/'' # ''vms/'' @ vid @ ''/'' @ ''metrics'', rq_body = Inr (ascii_bytes [])\<rparr> mg =
      finish (handle_metrics vid mg)"
    using route_vm_path(2) [OF assms, of _ "''metrics''"] by (simp add: route_vm_def)
  with request_plain [OF p, where body = None] show ?thesis
    by (simp add: daemon_send_def handle_metrics_def finish_def error_response_def)
qed

lemma metrics_commands_fail:
  assumes "url_plain vid"
  shows "handle_vm_export_metrics (on_daemon S A H env J T C) \<lparr>ve_id = vid, ve_out = path, ve_pipe = pipe, ve_tcp = tcp\<rparr> mg =
    (mg, [Text Cyan (hourglass @ '' Exporting metrics for VM '' @ squoted vid @ ''...''), ClearLine,
       Line Red (clear_line @ cross @ '' Failed to export VM '' @ vid @
         '' metrics: vsock metrics not available (push-to-OTel mode active; on-demand pull not yet implemented)'')], Inr ())"
  using metrics_unavailable [OF assms] error_wire
  by (simp add: handle_vm_export_metrics_def cli_bind_def progress_def say_def is_success_def print_action_result_def print_error_response_def
      format_error_response_def told_result_def)

end


text \<open>The reports also rely on the answers of the daemon being read back.\<close>

locale daemon_view = daemon_link J T C
  for J :: RouterSerde and T :: "Body \<Rightarrow> string" and C :: "Manager Client" +
  assumes info_wire: "info_to_json J i = Inr t \<Longrightarrow> cl_info C (T (JsonBody t)) = Inr i"
    and list_wire: "list_to_json J l = Inr t \<Longrightarrow> cl_list C (T (JsonBody t)) = Inr l"
begin

lemma status_shows:
  assumes "url_plain vid" "get_vm vid mg = Inr info" "info_to_json J info = Inr t"
  shows "handle_vm_status (on_daemon S A H env J T C) \<lparr>va_id = vid, va_pipe = pipe, va_tcp = tcp\<rparr> mg =
    (mg, [Text Cyan (hourglass @ '' Fetching status for VM '' @ squoted vid @ ''...''), ClearLine, TableOut (status_rows info)], Inr ())"
proof -
  have "route S A H env J \<lparr>rq_method = GET, rq_path = CHR ''/'' # ''vms/'' @ vid, rq_body = Inr (ascii_bytes [])\<rparr> mg =
      (mg, \<lparr>rs_status = 200, rs_body = JsonBody t\<rparr>)"
    using route_vm_path(1) [OF assms(1)] assms(2,3) by (simp add: route_vm_def handle_get_def reply_def json_response_def finish_def)
  with request_plain [OF url_plain_path [OF assms(1)], where body = None] info_wire [OF assms(3)] show ?thesis
    by (simp add: handle_vm_status_def cli_bind_def progress_def say_def daemon_send_def is_success_def)
qed

lemma list_shows:
  assumes "list_vms mg \<noteq> []" "list_to_json J (list_vms mg) = Inr t"
  shows "handle_vm_list (on_daemon S A H env J T C) args mg =
    (mg, [Text Cyan (hourglass @ '' Fetching VM list...''), ClearLine,
          TableOut ([''ID'', ''State'', ''RAM (MiB)'', ''CPUs'', ''Exit Reason''] # map list_row (list_vms mg))], Inr ())"
proof -
  have p: "list_all (\<lambda>c. plain_char c \<or> c = CHR ''/'') ''vms''" by (simp add: plain_char_def)
  have "route S A H env J \<lparr>rq_method = GET, rq_path = ''/vms'', rq_body = Inr (ascii_bytes [])\<rparr> mg = (mg, \<lparr>rs_status = 200, rs_body = JsonBody t\<rparr>)"
    using assms(2) by (simp add: route_def handle_list_def json_response_def)
  with request_plain [OF p, where body = None] list_wire [OF assms(2)] assms(1) show ?thesis
    by (simp add: handle_vm_list_def cli_bind_def progress_def say_def daemon_send_def is_success_def)
qed

end

section \<open>A link\<close>

text \<open>Libraries that meet the contracts. The printers of configurations and reports know one value each.\<close>

definition demo_args :: VmCreateArgs where
  "demo_args = \<lparr>ca_id = ''web'', ca_kernel = cfg_kernel_path demo_config, ca_initramfs = None, ca_disk = None, ca_ram = 256, ca_cpus = 1,
     ca_cmdline = DEFAULT_CMDLINE, ca_pipe = ''p'', ca_tcp = None, ca_net = False, ca_host_ip = [], ca_guest_ip = [], ca_mac = None, ca_ports = []\<rparr>"

definition demo_info :: VmInfo where
  "demo_info = \<lparr>vi_id = ''vm'', vi_state = Created, vi_config = demo_config, vi_exit_reason = None\<rparr>"

definition only :: "'a \<Rightarrow> 'b \<Rightarrow> 'a \<Rightarrow> string + 'b" where
  "only x y z = (if z = x then Inr y else Inl ''unsupported'')"

fun demo_body :: "Body \<Rightarrow> string" where
  "demo_body (JsonBody t) = CHR ''J'' # t"
| "demo_body (ErrorBody m) = CHR ''E'' # m"
| "demo_body _ = []"

definition demo_json :: "(VmInfo \<Rightarrow> string + string) \<Rightarrow> RouterSerde" where
  "demo_json f = \<lparr>info_to_json = f, list_to_json = only [demo_info] ''list'', create_from_json = only (ascii_bytes ''demo'') (config_of_args demo_args),
     action_from_json = (\<lambda>bs. if bs = ascii_bytes ''start'' then Inr Start else if bs = ascii_bytes ''stop'' then Inr Stop
       else if bs = ascii_bytes ''restart'' then Inr Restart else Inl ''unsupported''),
     clone_from_json = (\<lambda>bs. Inr (map (char_of \<circ> unat) bs))\<rparr>"

definition demo_client :: "Manager Client" where
  "demo_client = \<lparr>cl_open_pipe = \<lambda>_. None, cl_open_tcp = \<lambda>_. None, cl_uri = \<lambda>p. Inr (takeWhile (\<lambda>c. c \<noteq> CHR ''?'') p),
     cl_send = \<lambda>_ mg. (mg, [], Inl ''closed''), cl_status_text = show_dec,
     cl_api_error = \<lambda>t. (if t \<noteq> [] \<and> hd t = CHR ''E'' then Some (tl t) else None), cl_json = \<lambda>_. None,
     cl_create_json = only (config_of_args demo_args) ''demo'', cl_clone_json = Inr, cl_action_json = Inr \<circ> action_to_string,
     cl_info = only ''Jinfo'' demo_info, cl_list = only ''Jlist'' [demo_info], cl_snapshot = \<lambda>_. Inl ''unsupported'',
     cl_snapshot_json = \<lambda>_. Inl ''unsupported'', cl_write_file = \<lambda>_ _ mg. (mg, [], Inr ())\<rparr>"

lemma of_ascii_bytes: "map (char_of \<circ> unat) (ascii_bytes s) = s"
proof -
  have "char_of (unat (of_nat (of_char c) :: u8)) = c" for c
  proof -
    have "(of_char c :: nat) < 256" by simp
    then have "unat (of_nat (of_char c) :: u8) = of_char c" by (intro unat_of_nat_eq) simp
    then show ?thesis by simp
  qed
  then show ?thesis by (simp add: ascii_bytes_def comp_def)
qed

lemma demo_daemon_link: "daemon_link (demo_json f) demo_body demo_client"
proof
  fix p
  assume "list_all (\<lambda>c. plain_char c \<or> c = CHR ''/'') p"
  then have "\<forall>c\<in>set p. c \<noteq> CHR ''?''" by (auto simp: list_all_iff plain_char_def)
  then show "cl_uri demo_client (CHR ''/'' # p) = Inr (CHR ''/'' # p)" by (simp add: demo_client_def takeWhile_eq_all_conv)
next
  fix a b
  assume "cl_action_json demo_client a = Inr b"
  then show "action_from_json (demo_json f) (ascii_bytes b) = Inr a"
    by (cases a) (auto simp: demo_client_def demo_json_def ascii_bytes_def)
qed (auto simp: demo_client_def demo_json_def only_def of_ascii_bytes split: if_splits)

interpretation demo_link: daemon_view "demo_json (only demo_info ''info'')" demo_body demo_client
proof (intro daemon_view.intro daemon_view_axioms.intro demo_daemon_link)
qed (auto simp: demo_client_def demo_json_def only_def split: if_splits)


section \<open>Port forwards\<close>

lemma parse_u16_show: "parse_u16 (show_dec (unat p)) = Some p"
  using unat_u16_less [of p] by (simp add: parse_u16_def show_dec_def from_str_radix_show)

lemma show_dec_no_colon: "CHR '':'' \<notin> set (show_dec n)"
  using show_dec_digits [of "CHR '':''" n] by (auto simp: digit_val_def)

text \<open>A printed port forward is parsed back.\<close>

lemma port_forward_roundtrip:
  "parse_port_forward (show_dec (unat h) @ '':'' @ show_dec (unat g)) = Inr \<lparr>pf_host_port = h, pf_guest_port = g\<rparr>"
proof -
  have "split_once (CHR '':'') (show_dec (unat h) @ '':'' @ show_dec (unat g)) = Some (show_dec (unat h), show_dec (unat g))"
    using show_dec_no_colon [of "unat h"] by (auto simp: split_once_def takeWhile_append dropWhile_append takeWhile_eq_all_conv)
  then show ?thesis by (simp add: parse_port_forward_def parse_u16_show)
qed

end
