(* ===== verification/Cli_Live.thy ===== *)
theory Cli_Live
  imports Cli_Client
begin

text \<open>
  The commands of \<open>hitz-cli/src/main.rs\<close> that go on for a while: the recording of metrics and its timeline, the live
  views of one VM and of all VMs with the state of the terminal. The clock, the keyboard, Ctrl-C, the
  files and the terminal are parameters, given as what the program sees of them in each round of its loop.
\<close>

section \<open>Recording\<close>

record VmRecordArgs =
  vr_id :: string
  vr_out :: Path
  vr_interval_ms :: u64
  vr_duration_secs :: "u64 option"
  vr_pipe :: string
  vr_tcp :: "string option"

text \<open>The host of a recording: the contents of the file it appends to; whether Ctrl-C was pressed and the whole seconds since
  the start, both at the top of the \<open>i\<close>th round; the result of the \<open>k\<close>th write (the error, and how much was
  written before it); the result of installing the Ctrl-C handler.\<close>

record RecordHost =
  rh_open :: "Path \<Rightarrow> string + string"
  rh_stop :: "nat \<Rightarrow> bool"
  rh_elapsed :: "nat \<Rightarrow> nat"
  rh_write :: "nat \<Rightarrow> (string \<times> nat) option"
  rh_handler :: "string option"

definition record_mark :: string where
  "record_mark = [CHR 0xE2, CHR 0x8F, CHR 0xBA]"

definition stop_mark :: string where
  "stop_mark = [CHR 0xE2, CHR 0x8F, CHR 0xB9]"

text \<open>A round of the loop: it ends the loop, with an error or the number of samples, or has appended a line. The ticker only
  delays it.\<close>

definition duration_over :: "VmRecordArgs \<Rightarrow> nat \<Rightarrow> u64 option" where
  "duration_over args secs = (case vr_duration_secs args of None \<Rightarrow> None | Some d \<Rightarrow> if unat d \<le> secs then Some d else None)"

definition record_round ::
  "'s Client \<Rightarrow> RecordHost \<Rightarrow> VmRecordArgs \<Rightarrow> nat \<Rightarrow> 's \<Rightarrow> string \<Rightarrow> nat \<Rightarrow> Out list \<Rightarrow>
   ('s \<times> string \<times> Out list \<times> (string + nat)) + ('s \<times> string \<times> Out list)" where
  "record_round C R args i s file samples out =
     (if rh_stop R i then Inl (s, file, out @ [Line Yellow (stop_mark @ '' Recording stopped by user.'')], Inr samples)
      else case duration_over args (rh_elapsed R i) of
        Some d \<Rightarrow> Inl (s, file, out @ [Line Yellow (stop_mark @ '' Recording reached duration limit ('' @ show_u64 d @ ''s).'')], Inr samples)
      | None \<Rightarrow>
          (case pipe_request C (vr_pipe args) (vr_tcp args) GET (''/vms/'' @ vr_id args @ ''/metrics'') None s of
             (s, said, Inl e) \<Rightarrow> Inl (s, file, out @ said, Inl e)
           | (s, said, Inr (status, resp)) \<Rightarrow>
               (if is_success status then
                  case with_context ''failed to parse metrics response'' (cl_snapshot C resp) of
                    Inl e \<Rightarrow> Inl (s, file, out @ said, Inl e)
                  | Inr snap \<Rightarrow>
                      (case with_context ''failed to serialize metrics'' (cl_snapshot_json C snap) of
                         Inl e \<Rightarrow> Inl (s, file, out @ said, Inl e)
                       | Inr line \<Rightarrow>
                           (case rh_write R samples of
                              Some (e, n) \<Rightarrow> Inl (s, file @ take n (line @ [CHR 0x0A]), out @ said, Inl (''failed to write metrics line to file: '' @ e))
                            | None \<Rightarrow> Inr (s, file @ line @ [CHR 0x0A],
                                out @ said @ [Text Green ([CHR 0x0D] @ record_mark @ '' Recorded '' @ show_dec (samples + 1) @ '' samples...'')])))
                else Inl (s, file, out @ said @ [Line Red ([CHR 0x0A] @ format_error_response C status resp ''Error'')], Inr samples))))"

text \<open>The loop. \<open>None\<close>: it never ends.\<close>

partial_function (option) record_loop ::
  "'s Client \<Rightarrow> RecordHost \<Rightarrow> VmRecordArgs \<Rightarrow> nat \<Rightarrow> 's \<Rightarrow> string \<Rightarrow> nat \<Rightarrow> Out list \<Rightarrow>
   ('s \<times> string \<times> Out list \<times> (string + nat)) option" where
  "record_loop C R args i s file samples out =
     (case record_round C R args i s file samples out of
        Inl r \<Rightarrow> Some r
      | Inr (s, file, out) \<Rightarrow> record_loop C R args (Suc i) s file (samples + 1) out)"

definition record_banner :: "VmRecordArgs \<Rightarrow> Out list" where
  "record_banner args = [Line Cyan (record_mark @ '' Recording metrics for VM '' @ squoted (vr_id args) @ '' to '' @
     squoted (path_display (vr_out args)) @ '' (interval: '' @ show_u64 (vr_interval_ms args) @ ''ms)...'')]"

text \<open>The command: opening the file, the ticker, which panics for an interval of zero, the handler, the loop. The file is
  \<open>None\<close> when it could not be opened.\<close>

definition handle_vm_record ::
  "'s Client \<Rightarrow> RecordHost \<Rightarrow> VmRecordArgs \<Rightarrow> 's \<Rightarrow> ('s \<times> string option \<times> Out list \<times> (string, unit) outcome) option" where
  "handle_vm_record C R args s =
     (case with_context ''failed to open output file for recording'' (rh_open R (vr_out args)) of
        Inl e \<Rightarrow> Some (s, None, [], Err e)
      | Inr file \<Rightarrow>
          (if vr_interval_ms args = 0 then Some (s, Some file, [], Panic)
           else
             case rh_handler R of
               Some e \<Rightarrow> Some (s, Some file, record_banner args, Err (''failed to set Ctrl-C handler: '' @ e))
             | None \<Rightarrow>
                 (case record_loop C R args 0 s file 0 (record_banner args) of
                    None \<Rightarrow> None
                  | Some (s, file, out, Inl e) \<Rightarrow> Some (s, Some file, out, Err e)
                  | Some (s, file, out, Inr samples) \<Rightarrow>
                      Some (s, Some file, out @ [Blank, Line Green (tick @ '' Finished recording '' @ show_dec samples @ '' samples.'')], Ok ()))))"

section \<open>The timeline command\<close>

text \<open>The lines as the buffered reader delivers them: text or the error of reading it.\<close>

fun timeline_stream :: "(string \<Rightarrow> string + MetricsSnapshot) \<Rightarrow> Timeline \<Rightarrow> (nat \<times> (string + string)) list \<Rightarrow> (Timeline \<times> (string + unit)) option" where
  "timeline_stream parse t [] = Some (t, Inr ())"
| "timeline_stream parse t ((n, Inl e) # ls) = Some (t, Inl (''Failed to read line from file: '' @ e))"
| "timeline_stream parse t ((n, Inr l) # ls) = Option.bind (timeline_line parse t (n, l)) (\<lambda>t. timeline_stream parse t ls)"

definition status_cell :: "HealthStatus \<Rightarrow> string" where
  "status_cell st =
     (case st of
        Healthy \<Rightarrow> '' '' @ white_check @ '' HEALTHY ''
      | Warning \<Rightarrow> '' '' @ [CHR 0xE2, CHR 0x9A, CHR 0xA0, CHR 0xEF, CHR 0xB8, CHR 0x8F] @ '' WARN ''
      | Critical \<Rightarrow> '' '' @ [CHR 0xF0, CHR 0x9F, CHR 0x9A, CHR 0xA8] @ '' CRIT '')"

definition timeline_table :: "TimelineRow list \<Rightarrow> string list list" where
  "timeline_table rows = [''Time'', ''Status'', ''Reasons Added'', ''Reasons Removed''] #
     map (\<lambda>r. [tr_time r, status_cell (tr_status r), tr_added r, tr_removed r]) rows"

definition handle_vm_timeline ::
  "(Path \<Rightarrow> string + (string + string) list) \<Rightarrow> (string \<Rightarrow> string + MetricsSnapshot) \<Rightarrow> Path \<Rightarrow> Out list \<times> (string, unit) outcome" where
  "handle_vm_timeline open_lines parse in_file =
     (case with_context (''Failed to open '' @ path_display in_file) (open_lines in_file) of
        Inl e \<Rightarrow> ([], Err e)
      | Inr ls \<Rightarrow>
          let start = [Line Cyan (''Analyzing health timeline from '' @ path_display in_file @ ''...''), Blank] in
          (case timeline_stream parse timeline_start (zip [0..<length ls] ls) of
             None \<Rightarrow> (start, Panic)
           | Some (t, Inl e) \<Rightarrow> (start @ map (Line Red) (tl_errors t), Err e)
           | Some (t, Inr _) \<Rightarrow>
               (start @ map (Line Red) (tl_errors t) @
                [if tl_rows t = [] then Line Yellow ''No health transitions detected.'' else TableOut (timeline_table (tl_rows t)),
                 Blank, Line Green (tick @ '' Analysis complete. Processed '' @ show_dec (tl_count t) @ '' samples.'')], Ok ())))"

lemma timeline_stream_lines:
  "timeline_stream parse t (zip ns (map Inr ls)) = map_option (\<lambda>t. (t, Inr ())) (timeline_lines parse t (zip ns ls))"
proof (induction ls arbitrary: ns t)
  case (Cons l ls)
  then show ?case by (cases ns) (auto simp: map_option_case split: option.splits bind_splits)
qed simp

section \<open>A recording is replayed\<close>

text \<open>What is relied on of the JSON library: a printed snapshot is one line, not blank, and is read back.\<close>

definition json_lines :: "'s Client \<Rightarrow> bool" where
  "json_lines C \<longleftrightarrow> (\<forall>snap line. cl_snapshot_json C snap = Inr line \<longrightarrow>
     cl_snapshot C line = Inr snap \<and> CHR 0x0A \<notin> set line \<and> CHR 0x0D \<notin> set line \<and> trim line \<noteq> [])"

definition prints :: "'s Client \<Rightarrow> MetricsSnapshot list \<Rightarrow> string list \<Rightarrow> bool" where
  "prints C snaps ls \<longleftrightarrow> list_all2 (\<lambda>snap l. cl_snapshot_json C snap = Inr l) snaps ls"

definition jsonl :: "string list \<Rightarrow> string" where
  "jsonl ls = concat (map (\<lambda>l. l @ [CHR 0x0A]) ls)"

lemma with_context_Inr [simp]: "with_context c r = Inr x \<longleftrightarrow> r = Inr x"
  by (cases r) (simp_all add: with_context_def map_err_def)

lemma record_round_next:
  "record_round C R args i s file samples out = Inr (s', file', out') \<Longrightarrow>
     \<not> rh_stop R i \<and> duration_over args (rh_elapsed R i) = None \<and> (\<exists>snap line. cl_snapshot_json C snap = Inr line \<and> file' = file @ line @ [CHR 0x0A])"
  unfolding record_round_def by (auto split: if_splits option.splits prod.splits sum.splits)

lemma record_round_end:
  assumes "\<And>k. rh_write R k = None" "record_round C R args i s file samples out = Inl (s', file', out', r)"
  shows "file' = file \<and> (\<forall>n. r = Inr n \<longrightarrow> n = samples)"
  using assms(2) unfolding record_round_def assms(1) by (auto split: if_splits option.splits prod.splits sum.splits)

definition appended :: "'s Client \<Rightarrow> string \<Rightarrow> nat \<Rightarrow> 's \<times> string \<times> Out list \<times> (string + nat) \<Rightarrow> bool" where
  "appended C file samples res \<longleftrightarrow>
     (case res of (s', file', out', r) \<Rightarrow>
        \<exists>snaps ls. prints C snaps ls \<and> file' = file @ jsonl ls \<and> (\<forall>n. r = Inr n \<longrightarrow> n = samples + length snaps))"

lemma appended_next:
  assumes "appended C (file @ l @ [CHR 0x0A]) (samples + 1) res" "cl_snapshot_json C snap = Inr l"
  shows "appended C file samples res"
proof -
  obtain s' file' out' r where res: "res = (s', file', out', r)" by (cases res)
  from assms(1) res obtain snaps ls where "prints C snaps ls" "file' = (file @ l @ [CHR 0x0A]) @ jsonl ls"
    "\<forall>n. r = Inr n \<longrightarrow> n = samples + 1 + length snaps" by (auto simp: appended_def)
  with assms(2) have "prints C (snap # snaps) (l # ls)" "file' = file @ jsonl (l # ls)"
    "\<forall>n. r = Inr n \<longrightarrow> n = samples + length (snap # snaps)" by (simp_all add: prints_def jsonl_def)
  then show ?thesis unfolding appended_def res by blast
qed

lemma appended_end:
  assumes "\<And>k. rh_write R k = None" "record_round C R args i s file samples out = Inl res"
  shows "appended C file samples res"
proof -
  obtain s' file' out' r where res: "res = (s', file', out', r)" by (cases res)
  from record_round_end [OF assms(1) assms(2) [unfolded res]] show ?thesis
    unfolding appended_def res by (intro case_prodI exI [of _ "[]"]) (simp add: prints_def jsonl_def)
qed

lemma record_loop_writes:
  assumes "\<And>k. rh_write R k = None" "record_loop C R args i s data samples out = Some res"
  shows "appended C data samples res"
proof -
  have "(\<forall>k. rh_write R k = None) \<longrightarrow> appended C data samples res"
  proof (rule record_loop.raw_induct [where P = "\<lambda>C R args i s data samples out res. (\<forall>k. rh_write R k = None) \<longrightarrow> appended C data samples res", OF _ assms(2)])
    fix loop :: "'a Client \<Rightarrow> RecordHost \<Rightarrow> VmRecordArgs \<Rightarrow> nat \<Rightarrow> 'a \<Rightarrow> string \<Rightarrow> nat \<Rightarrow> Out list \<Rightarrow> ('a \<times> string \<times> Out list \<times> (string + nat)) option"
    fix C R args i s data samples out res
    assume IH: "\<And>C R args i s data samples out res. loop C R args i s data samples out = Some res \<Longrightarrow>
        (\<forall>k. rh_write R k = None) \<longrightarrow> appended C data samples res"
      and body: "(case record_round C R args i s data samples out of Inl r \<Rightarrow> Some r
        | Inr (s, data, out) \<Rightarrow> loop C R args (Suc i) s data (samples + 1) out) = Some res"
    show "(\<forall>k. rh_write R k = None) \<longrightarrow> appended C data samples res"
    proof
      assume w: "\<forall>k. rh_write R k = None"
      show "appended C data samples res"
      proof (cases "record_round C R args i s data samples out")
        case (Inl r)
        with body appended_end [of R] w show ?thesis by simp
      next
        case (Inr x)
        obtain s1 data1 out1 where x: "x = (s1, data1, out1)" by (cases x)
        from record_round_next [OF Inr [unfolded x]] obtain snap l
          where l: "cl_snapshot_json C snap = Inr l" "data1 = data @ l @ [CHR 0x0A]" by blast
        from body Inr x have "loop C R args (Suc i) s1 data1 (samples + 1) out1 = Some res" by simp
        with IH w l(2) have "appended C (data @ l @ [CHR 0x0A]) (samples + 1) res" by blast
        from appended_next [OF this l(1)] show ?thesis .
      qed
    qed
  qed
  with assms(1) show ?thesis by blast
qed

text \<open>The loop ends at the latest when the user stops it or the duration is over.\<close>

lemma record_loop_ends:
  assumes "rh_stop R k \<or> duration_over args (rh_elapsed R k) \<noteq> None" "i \<le> k"
  shows "record_loop C R args i s data samples out \<noteq> None"
  using assms(2)
proof (induction "k - i" arbitrary: i s data samples out)
  case 0
  then have "i = k" by simp
  then obtain r where "record_round C R args i s data samples out = Inl r"
    using assms(1) record_round_next [of C R args i s data samples out] by (cases "record_round C R args i s data samples out") auto
  then show ?case by (simp add: record_loop.simps)
next
  case (Suc n)
  show ?case
  proof (cases "record_round C R args i s data samples out")
    case (Inr x)
    obtain s1 data1 out1 where x: "x = (s1, data1, out1)" by (cases x)
    have "record_loop C R args (Suc i) s1 data1 (samples + 1) out1 \<noteq> None" using Suc by simp
    with Inr x show ?thesis by (subst record_loop.simps) simp
  qed (subst record_loop.simps, simp)
qed

lemma recorded_prints:
  assumes "json_lines C"
  shows "prints C snaps ls \<Longrightarrow> recorded (cl_snapshot C) ls = snaps \<and> (\<forall>l\<in>set ls. CHR 0x0A \<notin> set l \<and> strip_cr l = l)"
  unfolding prints_def
proof (induction rule: list_all2_induct)
  case Nil
  show ?case by (simp add: recorded_def)
next
  case (Cons snap snaps l ls)
  with assms have l: "cl_snapshot C l = Inr snap" "CHR 0x0A \<notin> set l" "CHR 0x0D \<notin> set l" "trim l \<noteq> []" by (auto simp: json_lines_def)
  then have "strip_cr l = l" by (cases l rule: rev_cases) (auto simp: strip_cr_def)
  with Cons l show ?case by (simp add: recorded_Cons)
qed

lemma lines_jsonl:
  assumes "json_lines C" "prints C snaps ls"
  shows "lines (jsonl ls) = ls"
proof -
  have "lines (jsonl ls) = map strip_cr ls" using recorded_prints [OF assms] by (simp add: jsonl_def lines_concat)
  also have "\<dots> = map id ls" using recorded_prints [OF assms] by (intro map_cong) auto
  finally show ?thesis by simp
qed

lemma timeline_lines_clean:
  "timeline_lines parse t nls = Some t' \<Longrightarrow> \<forall>l\<in>set (map snd nls). \<exists>s. parse l = Inr s \<Longrightarrow> tl_errors t' = tl_errors t"
proof (induction nls arbitrary: t)
  case (Cons nl nls)
  obtain n l where nl: "nl = (n, l)" by (cases nl)
  obtain u where u: "timeline_line parse t (n, l) = Some u" "timeline_lines parse u nls = Some t'"
    using Cons.prems(1) nl by (auto simp: bind_eq_Some_conv)
  have "tl_errors u = tl_errors t"
    using u(1) Cons.prems(2) nl by (auto simp: timeline_line_def timeline_sample_def Let_def split: if_splits sum.splits)
  with Cons.IH [OF u(2)] Cons.prems(2) show ?case by simp
qed simp


text \<open>A daemon that answers twice with a snapshot, and a user who then stops the recording.\<close>

definition demo_recorder :: "nat Client" where
  "demo_recorder = \<lparr>cl_open_pipe = \<lambda>_. None, cl_open_tcp = \<lambda>_. None, cl_uri = Inr, cl_send = \<lambda>_ n. (Suc n, [], Inr (200, ''{}'')),
     cl_status_text = show_dec, cl_api_error = \<lambda>_. None, cl_json = \<lambda>_. None, cl_create_json = \<lambda>_. Inl [], cl_clone_json = Inl,
     cl_action_json = \<lambda>_. Inl [], cl_info = \<lambda>_. Inl [], cl_list = \<lambda>_. Inl [], cl_snapshot = \<lambda>t. (if t = ''{}'' then Inr demo_snapshot else Inl ''bad''),
     cl_snapshot_json = \<lambda>s. (if s = demo_snapshot then Inr ''{}'' else Inl ''bad''), cl_write_file = \<lambda>_ _ n. (n, [], Inr ())\<rparr>"

definition demo_record_host :: RecordHost where
  "demo_record_host = \<lparr>rh_open = \<lambda>_. Inr [], rh_stop = \<lambda>i. 2 \<le> i, rh_elapsed = \<lambda>i. i, rh_write = \<lambda>_. None, rh_handler = None\<rparr>"


text \<open>An interval of zero milliseconds, which the argument parser accepts, panics after the file was created.\<close>

lemma record_zero_interval:
  "vr_interval_ms args = 0 \<Longrightarrow> rh_open R (vr_out args) = Inr f \<Longrightarrow> handle_vm_record C R args s = Some (s, Some f, [], Panic)"
  by (simp add: handle_vm_record_def with_context_def map_err_def)

section \<open>The terminal\<close>

record Term =
  term_raw :: bool
  term_alternate :: bool

definition term_plain :: Term where
  "term_plain = \<lparr>term_raw = False, term_alternate = False\<rparr>"

text \<open>The result of each call on the terminal: its error, if it fails.\<close>

record TermOps =
  to_enable_raw :: "string option"
  to_enter_alternate :: "string option"
  to_create :: "string option"
  to_disable_raw :: "string option"
  to_leave_alternate :: "string option"
  to_show_cursor :: "string option"

definition term_call :: "string \<Rightarrow> string option \<Rightarrow> (Term \<Rightarrow> Term) \<Rightarrow> Term \<Rightarrow> Term \<times> (string + unit)" where
  "term_call ctx failure f t = (case failure of Some e \<Rightarrow> (t, Inl (ctx @ '': '' @ e)) | None \<Rightarrow> (f t, Inr ()))"

definition term_then :: "Term \<times> (string + unit) \<Rightarrow> (Term \<Rightarrow> Term \<times> (string + unit)) \<Rightarrow> Term \<times> (string + unit)" where
  "term_then r f = (case r of (t, Inl e) \<Rightarrow> (t, Inl e) | (t, Inr _) \<Rightarrow> f t)"

definition open_screen :: "TermOps \<Rightarrow> Term \<Rightarrow> Term \<times> (string + unit)" where
  "open_screen ops t =
     term_then (term_call ''failed to enable raw mode'' (to_enable_raw ops) (\<lambda>t. t\<lparr>term_raw := True\<rparr>) t) (\<lambda>t.
     term_then (term_call ''failed to enter alternate screen'' (to_enter_alternate ops) (\<lambda>t. t\<lparr>term_alternate := True\<rparr>) t)
       (term_call ''failed to create terminal'' (to_create ops) id))"

definition leave_screen :: "TermOps \<Rightarrow> Term \<Rightarrow> Term \<times> (string + unit)" where
  "leave_screen ops t =
     term_then (term_call ''failed to disable raw mode'' (to_disable_raw ops) (\<lambda>t. t\<lparr>term_raw := False\<rparr>) t)
       (term_call ''failed to leave alternate screen'' (to_leave_alternate ops) (\<lambda>t. t\<lparr>term_alternate := False\<rparr>))"

datatype KeyCode = KeyChar char | KeyEsc | KeyOther

datatype Event = KeyEvent KeyCode bool | OtherEvent

section \<open>The view of one VM\<close>

datatype TopBody =
    TopError string
  | TopLoading
  | TopMetrics string nat string nat "string list list" "string list list" "string list list"

record TopScreen =
  top_header :: string
  top_body :: TopBody

definition top_disks :: "DiskMetrics list \<Rightarrow> string list list" where
  "top_disks ds = [''Device'', ''Read KB'', ''Write KB''] #
     map (\<lambda>d. [dm_name d, show_u64 (dm_read_bytes d div 1024), show_u64 (dm_write_bytes d div 1024)]) ds"

definition top_networks :: "NetMetrics list \<Rightarrow> string list list" where
  "top_networks ns = [''Interface'', ''Rx KB'', ''Tx KB''] #
     map (\<lambda>n. [nm_interface n, show_u64 (nm_rx_bytes n div 1024), show_u64 (nm_tx_bytes n div 1024)]) ns"

definition top_processes :: "ProcMetrics list \<Rightarrow> string list list" where
  "top_processes ps = [''PID'', ''Name'', ''CPU'', ''RSS''] #
     map (\<lambda>p. [show_dec (unat (pm_pid p)), pm_name p, show_fl1 (pm_cpu_pct p) @ ''%'', show_u64 (pm_rss_bytes p div (1024 * 1024)) @ '' MB'']) ps"

text \<open>The gauges: the cast to \<open>u16\<close> saturates, and the percentage is cut at 100, above which the widget panics.\<close>

definition gauge_percent :: "fl \<Rightarrow> nat" where
  "gauge_percent p = min (unat (fl_to_word p :: u16)) 100"

definition top_metrics :: "MetricsSnapshot \<Rightarrow> TopBody" where
  "top_metrics snap =
     (let cpu = ms_cpu snap; used_mb = mm_used_bytes (ms_memory snap) div (1024 * 1024); total_mb = mm_total_bytes (ms_memory snap) div (1024 * 1024);
          load = map show_fl2 (cm_load_avg cpu) in
      TopMetrics (show_fl1 (cm_total_pct cpu) @ ''% (Load: '' @ join_str '', '' load @ '')'') (gauge_percent (cm_total_pct cpu))
        (show_u64 used_mb @ '' MB / '' @ show_u64 total_mb @ '' MB'') (if 0 < total_mb then gauge_percent (percent used_mb total_mb) else 0)
        (top_disks (ms_disks snap)) (top_networks (ms_networks snap)) (top_processes (ms_processes snap)))"

record TopState =
  ts_snap :: "MetricsSnapshot option"
  ts_err :: "string option"

definition draw_vm_top_ui :: "string \<Rightarrow> TopState \<Rightarrow> TopScreen" where
  "draw_vm_top_ui vid st = \<lparr>top_header = ''Hitz Top - VM: '' @ vid,
     top_body = (case ts_err st of Some e \<Rightarrow> TopError e | None \<Rightarrow> (case ts_snap st of Some snap \<Rightarrow> top_metrics snap | None \<Rightarrow> TopLoading))\<rparr>"

definition top_fetch :: "'s Client \<Rightarrow> VmIdArgs \<Rightarrow> TopState \<Rightarrow> ('s, TopState) cli" where
  "top_fetch C args st =
     cli_bind (pipe_request C (va_pipe args) (va_tcp args) GET (''/vms/'' @ va_id args @ ''/metrics'') None) (\<lambda>(status, resp).
     cli_return
       (if is_success status
        then (case cl_snapshot C resp of
                Inr snap \<Rightarrow> \<lparr>ts_snap = Some snap, ts_err = None\<rparr>
              | Inl e \<Rightarrow> st\<lparr>ts_err := Some (''Parse error: '' @ e)\<rparr>)
        else st\<lparr>ts_err := Some (format_error_response C status resp ''Error'')\<rparr>))"

text \<open>A round: the result of drawing, of waiting for an event (whether there is one) and of reading it, and whether a second has passed
  since the last fetch.\<close>

record TopRound =
  rd_draw :: "string option"
  rd_poll :: "string + bool"
  rd_event :: "string + Event"
  rd_due :: bool

fun quits_top :: "Event \<Rightarrow> bool" where
  "quits_top (KeyEvent (KeyChar k) ctrl) = (k = CHR ''q'' \<or> k = CHR ''c'' \<and> ctrl)"
| "quits_top (KeyEvent KeyEsc ctrl) = True"
| "quits_top ev = False"

definition top_key :: "TopRound \<Rightarrow> string + bool" where
  "top_key r = (case rd_poll r of Inl e \<Rightarrow> Inl e | Inr False \<Rightarrow> Inr False
     | Inr True \<Rightarrow> (case rd_event r of Inl e \<Rightarrow> Inl e | Inr ev \<Rightarrow> Inr (quits_top ev)))"

text \<open>The loop on the rounds seen so far: the screens drawn, and the result if it has ended.\<close>

fun top_loop :: "'s Client \<Rightarrow> VmIdArgs \<Rightarrow> TopRound list \<Rightarrow> 's \<Rightarrow> TopState \<Rightarrow> 's \<times> TopScreen list \<times> (string + unit) option" where
  "top_loop C args [] s st = (s, [], None)"
| "top_loop C args (r # rs) s st =
     (case rd_draw r of
        Some e \<Rightarrow> (s, [], Some (Inl e))
      | None \<Rightarrow>
          (let screen = draw_vm_top_ui (va_id args) st in
           case top_key r of
             Inl e \<Rightarrow> (s, [screen], Some (Inl e))
           | Inr True \<Rightarrow> (s, [screen], Some (Inr ()))
           | Inr False \<Rightarrow>
               (if rd_due r then
                  (case top_fetch C args st s of
                     (s, said, Inl e) \<Rightarrow> (s, [screen], Some (Inl e))
                   | (s, said, Inr st) \<Rightarrow> (case top_loop C args rs s st of (s, screens, res) \<Rightarrow> (s, screen # screens, res)))
                else (case top_loop C args rs s st of (s, screens, res) \<Rightarrow> (s, screen # screens, res)))))"

definition handle_vm_top ::
  "'s Client \<Rightarrow> TermOps \<Rightarrow> VmIdArgs \<Rightarrow> TopRound list \<Rightarrow> Term \<Rightarrow> 's \<Rightarrow> Term \<times> 's \<times> TopScreen list \<times> (string + unit) option" where
  "handle_vm_top C ops args rounds t s =
     (case open_screen ops t of
        (t, Inl e) \<Rightarrow> (t, s, [], Some (Inl e))
      | (t, Inr _) \<Rightarrow>
          (case top_loop C args rounds s \<lparr>ts_snap = None, ts_err = None\<rparr> of
             (s, screens, None) \<Rightarrow> (t, s, screens, None)
           | (s, screens, Some res) \<Rightarrow>
               (case term_then (leave_screen ops t) (term_call ''failed to show cursor'' (to_show_cursor ops) id) of
                  (t, Inl e) \<Rightarrow> (t, s, screens, Some (Inl e))
                | (t, Inr _) \<Rightarrow> (t, s, screens, Some res))))"

section \<open>The dashboard\<close>

record DashState =
  ds_vms :: "VmInfo list"
  ds_err :: "string option"

datatype DashBody = NoVmsRunning string | DashRows "string list list"

record DashScreen =
  dash_header :: string
  dash_body :: DashBody

definition draw_dashboard :: "DashState \<Rightarrow> DashScreen" where
  "draw_dashboard st =
     \<lparr>dash_header = '' Hitz VM Dashboard | Polling GET /vms | Press '' @ squoted ''q'' @ '' or '' @ squoted ''ESC'' @ '' to exit '' @
        (case ds_err st of None \<Rightarrow> [] | Some e \<Rightarrow> ''| Error: '' @ e),
      dash_body = (if ds_vms st = [] then NoVmsRunning ([CHR 0xE2, CHR 0x84, CHR 0xB9, CHR 0xEF, CHR 0xB8, CHR 0x8F] @ ''  No VMs running.'')
        else DashRows ([''ID'', ''State'', ''RAM (MiB)'', ''CPUs'', ''Exit Reason''] # map list_row (ds_vms st)))\<rparr>"

text \<open>\<open>outer\<close> is how the error library prints an error without its causes.\<close>

definition dashboard_fetch :: "'s Client \<Rightarrow> (string \<Rightarrow> string) \<Rightarrow> VmListArgs \<Rightarrow> 's \<Rightarrow> DashState \<Rightarrow> 's \<times> DashState" where
  "dashboard_fetch C outer args s st =
     (case pipe_request C (vl_pipe args) (vl_tcp args) GET ''/vms'' None s of
        (s, said, Inl e) \<Rightarrow> (s, st\<lparr>ds_err := Some (''Request failed: '' @ outer e)\<rparr>)
      | (s, said, Inr (status, resp)) \<Rightarrow>
          (s, if is_success status
              then (case cl_list C resp of
                      Inr fetched \<Rightarrow> \<lparr>ds_vms = fetched, ds_err = None\<rparr>
                    | Inl e \<Rightarrow> st\<lparr>ds_err := Some ''Failed to parse JSON''\<rparr>)
              else st\<lparr>ds_err := Some (format_error_response C status resp ''Error'')\<rparr>))"

text \<open>A round: whether a second has passed since the last fetch (true in the first round, unless the clock is younger than ten
  seconds), and the event, \<open>None\<close> also when waiting failed; an event that cannot be read counts as an irrelevant one.\<close>

fun quits_dashboard :: "Event \<Rightarrow> bool" where
  "quits_dashboard (KeyEvent (KeyChar k) ctrl) = (k = CHR ''q'')"
| "quits_dashboard (KeyEvent KeyEsc ctrl) = True"
| "quits_dashboard ev = False"

fun dashboard_loop ::
  "'s Client \<Rightarrow> (string \<Rightarrow> string) \<Rightarrow> VmListArgs \<Rightarrow> (bool \<times> Event option) list \<Rightarrow> 's \<Rightarrow> DashState \<Rightarrow> 's \<times> DashScreen list \<times> bool" where
  "dashboard_loop C outer args [] s st = (s, [], False)"
| "dashboard_loop C outer args ((due, ev) # rs) s st =
     (let (s, st) = (if due then dashboard_fetch C outer args s st else (s, st));
          screen = draw_dashboard st in
      if (case ev of None \<Rightarrow> False | Some e \<Rightarrow> quits_dashboard e) then (s, [screen], True)
      else (case dashboard_loop C outer args rs s st of (s, screens, ended) \<Rightarrow> (s, screen # screens, ended)))"

definition handle_vm_dashboard ::
  "'s Client \<Rightarrow> (string \<Rightarrow> string) \<Rightarrow> TermOps \<Rightarrow> VmListArgs \<Rightarrow> (bool \<times> Event option) list \<Rightarrow> Term \<Rightarrow> 's \<Rightarrow>
   Term \<times> 's \<times> DashScreen list \<times> (string + unit) option" where
  "handle_vm_dashboard C outer ops args rounds t s =
     (case open_screen ops t of
        (t, Inl e) \<Rightarrow> (t, s, [], Some (Inl e))
      | (t, Inr _) \<Rightarrow>
          (case dashboard_loop C outer args rounds s \<lparr>ds_vms = [], ds_err = None\<rparr> of
             (s, screens, False) \<Rightarrow> (t, s, screens, None)
           | (s, screens, True) \<Rightarrow> (case leave_screen ops t of (t, r) \<Rightarrow> (t, s, screens, Some r))))"

section \<open>What the views show and leave behind\<close>

lemma gauges_bounded: "top_body (draw_vm_top_ui vid st) = TopMetrics cl cp ml mp ds ns ps \<Longrightarrow> cp \<le> 100 \<and> mp \<le> 100"
  by (auto simp: draw_vm_top_ui_def top_metrics_def gauge_percent_def Let_def split: option.splits if_splits)

definition term_works :: "TermOps \<Rightarrow> bool" where
  "term_works ops \<longleftrightarrow> to_enable_raw ops = None \<and> to_enter_alternate ops = None \<and> to_create ops = None \<and> to_disable_raw ops = None \<and>
     to_leave_alternate ops = None \<and> to_show_cursor ops = None"

lemmas term_simps = term_works_def open_screen_def leave_screen_def term_call_def term_then_def term_plain_def

text \<open>However a live view ends, by a key, by an error of the terminal or of the daemon, the terminal is left as it was found.\<close>

lemma live_views_restore_terminal:
  assumes "term_works ops"
  shows "handle_vm_top C ops args rounds term_plain s = (t, s', screens, Some r) \<Longrightarrow> t = term_plain"
    and "handle_vm_dashboard C outer ops largs drounds term_plain s = (t, s', dscreens, Some r) \<Longrightarrow> t = term_plain"
  using assms
  by (auto simp: handle_vm_top_def handle_vm_dashboard_def term_simps split: prod.splits option.splits bool.splits)

text \<open>But a failure to open the screen returns at once: raw mode stays on.\<close>

lemma failed_screen_leaves_raw_mode:
  assumes "to_enable_raw ops = None" "to_enter_alternate ops = Some e"
  shows "handle_vm_top C ops args rounds term_plain s = (\<lparr>term_raw = True, term_alternate = False\<rparr>, s, [], Some (Inl (''failed to enter alternate screen: '' @ e)))"
    and "handle_vm_dashboard C outer ops largs drounds term_plain s = (\<lparr>term_raw = True, term_alternate = False\<rparr>, s, [], Some (Inl (''failed to enter alternate screen: '' @ e)))"
  using assms by (simp_all add: handle_vm_top_def handle_vm_dashboard_def open_screen_def term_call_def term_then_def term_plain_def)

context daemon_view
begin

lemma dashboard_fetch_shows:
  assumes "list_to_json J (list_vms mg) = Inr t"
  shows "dashboard_fetch (on_daemon S A H env J T C) outer args mg st = (mg, \<lparr>ds_vms = list_vms mg, ds_err = None\<rparr>)"
proof -
  have p: "list_all (\<lambda>c. plain_char c \<or> c = CHR ''/'') ''vms''" by (simp add: plain_char_def)
  have "route S A H env J \<lparr>rq_method = GET, rq_path = ''/vms'', rq_body = Inr (ascii_bytes [])\<rparr> mg = (mg, \<lparr>rs_status = 200, rs_body = JsonBody t\<rparr>)"
    using assms by (simp add: route_def handle_list_def json_response_def)
  with request_plain [OF p, where body = None] list_wire [OF assms] show ?thesis
    by (simp add: dashboard_fetch_def daemon_send_def is_success_def)
qed

lemma dashboard_goes_on:
  assumes "list_to_json J (list_vms mg) = Inr t" "st = \<lparr>ds_vms = list_vms mg, ds_err = None\<rparr>"
  shows "dashboard_loop (on_daemon S A H env J T C) outer args rs mg st = (mg', screens, ended) \<Longrightarrow>
    mg' = mg \<and> set screens \<subseteq> {draw_dashboard st}"
proof (induction rs arbitrary: screens)
  case (Cons r rs)
  obtain due ev where r: "r = (due, ev)" by (cases r)
  have "(if due then dashboard_fetch (on_daemon S A H env J T C) outer args mg st else (mg, st)) = (mg, st)"
    using dashboard_fetch_shows [OF assms(1)] assms(2) by simp
  with Cons r show ?case by (auto simp: Let_def split: prod.splits if_splits)
qed simp

end

text \<open>The dashboard and the daemon. From the first fetch on, every screen of the dashboard shows exactly the VMs of the manager, one
  row each, and no error; looking changes nothing in the manager.\<close>

theorem dashboard_shows_manager:
  assumes "daemon_view J T C" "list_to_json J (list_vms mg) = Inr t"
    and "dashboard_loop (on_daemon S A H env J T C) outer args ((True, ev) # rs) mg st = (mg', screens, ended)"
  shows "mg' = mg \<and> screens \<noteq> [] \<and> set screens = {draw_dashboard \<lparr>ds_vms = list_vms mg, ds_err = None\<rparr>}"
proof -
  let ?st = "\<lparr>ds_vms = list_vms mg, ds_err = None\<rparr>"
  have f: "dashboard_fetch (on_daemon S A H env J T C) outer args mg st = (mg, ?st)"
    by (rule daemon_view.dashboard_fetch_shows [OF assms(1,2)])
  obtain mg1 scr1 e1 where l: "dashboard_loop (on_daemon S A H env J T C) outer args rs mg ?st = (mg1, scr1, e1)" by (metis prod_cases3)
  note g = daemon_view.dashboard_goes_on [OF assms(1,2) refl l]
  show ?thesis using assms(3) f l g by (auto simp: Let_def split: if_splits)
qed

theorem dashboard_shows_manager_witness:
  "\<exists>mg' screens ended. dashboard_loop (on_daemon demo_serde demo_agent demo_fs halt_env (demo_json (only demo_info ''info'')) demo_body demo_client) id
      \<lparr>vl_pipe = ''p'', vl_tcp = None\<rparr> [(True, None), (False, Some (KeyEvent KeyEsc False))] (running_demo demo_disk Created)
      \<lparr>ds_vms = [], ds_err = None\<rparr> = (mg', screens, ended) \<and>
     mg' = running_demo demo_disk Created \<and> set screens = {draw_dashboard \<lparr>ds_vms = [demo_info], ds_err = None\<rparr>}"
proof -
  have l: "list_vms (running_demo demo_disk Created) = [demo_info]"
    by (simp add: list_vms_def running_demo_def to_info_def fresh_entry_def demo_info_def)
  then have "list_to_json (demo_json (only demo_info ''info'')) (list_vms (running_demo demo_disk Created)) = Inr ''list''"
    by (simp add: demo_json_def only_def)
  note d = dashboard_shows_manager [OF demo_link.daemon_view_axioms this, of demo_serde demo_agent demo_fs halt_env id
      "\<lparr>vl_pipe = ''p'', vl_tcp = None\<rparr>" None "[(False, Some (KeyEvent KeyEsc False))]" "\<lparr>ds_vms = [], ds_err = None\<rparr>"]
  obtain mg' screens ended where r: "dashboard_loop (on_daemon demo_serde demo_agent demo_fs halt_env (demo_json (only demo_info ''info'')) demo_body demo_client) id
      \<lparr>vl_pipe = ''p'', vl_tcp = None\<rparr> [(True, None), (False, Some (KeyEvent KeyEsc False))] (running_demo demo_disk Created)
      \<lparr>ds_vms = [], ds_err = None\<rparr> = (mg', screens, ended)" by (metis prod_cases3)
  from d [OF r] r l show ?thesis by auto
qed

end
