(* ===== verification/Serial_Console.thy ===== *)
theory Serial_Console
  imports Router Cli_Client "HOL-Library.Sublist"
begin

text \<open>
  The serial console from the guest to the terminal: the ring of \<open>Serial_Buf\<close>, the task that
  \<open>handle_serial\<close> of \<open>hitz-daemon/src/router.rs\<close> spawns for a connection, its bounded channel and
  \<open>ChannelBody\<close>, and \<open>handle_vm_serial\<close> of \<open>hitz-cli/src/main.rs\<close> with \<open>request_stream\<close> of
  \<open>pipe_client.rs\<close>. The guest, the task and the client are independent and interleave; the HTTP connection
  delivers the bytes of the frames in their order.
\<close>

section \<open>The daemon's side\<close>

definition SERIAL_CHANNEL_BOUND :: nat where
  "SERIAL_CHANNEL_BOUND = 64"

datatype SerialTask = TaskReading | TaskSending bytes | TaskEnded

text \<open>
  A connection to the console of a running VM. \<open>cs_written\<close>, all bytes the guest has written, and \<open>cs_missed\<close>, the
  number of those that were overwritten before the task read them, are not part of the program.
\<close>

record Console =
  cs_ring :: Inner
  cs_pos :: nat
  cs_task :: SerialTask
  cs_channel :: "bytes list"
  cs_listening :: bool
  cs_out :: bytes
  cs_over :: bool
  cs_written :: bytes
  cs_missed :: nat

definition console_open :: "Inner \<Rightarrow> bytes \<Rightarrow> Console" where
  "console_open ring h = \<lparr>cs_ring = ring, cs_pos = serial_reader ring, cs_task = TaskReading, cs_channel = [],
     cs_listening = True, cs_out = [], cs_over = False, cs_written = h, cs_missed = 0\<rparr>"

text \<open>The loop of the task: \<open>read_chunk\<close>, which parks when there is nothing to read, and \<open>send\<close>, which waits for room in
  the channel and fails when the receiver is gone. \<open>None\<close>: the task waits.\<close>

definition serial_task_read :: "Console \<Rightarrow> Console option" where
  "serial_task_read c =
     (case cs_task c of
        TaskReading \<Rightarrow>
          (case read_chunk (cs_ring c) (cs_pos c) of
             (p, Chunk b) \<Rightarrow> Some (c\<lparr>cs_pos := p, cs_task := TaskSending b, cs_missed := cs_missed c + (p - cs_pos c - length b)\<rparr>)
           | (p, Ended) \<Rightarrow> Some (c\<lparr>cs_task := TaskEnded\<rparr>)
           | (p, Parked) \<Rightarrow> None)
      | _ \<Rightarrow> None)"

definition serial_task_send :: "Console \<Rightarrow> Console option" where
  "serial_task_send c =
     (case cs_task c of
        TaskSending b \<Rightarrow>
          (if \<not> cs_listening c then Some (c\<lparr>cs_task := TaskEnded\<rparr>)
           else if length (cs_channel c) < SERIAL_CHANNEL_BOUND
           then Some (c\<lparr>cs_task := TaskReading, cs_channel := cs_channel c @ [b]\<rparr>)
           else None)
      | _ \<Rightarrow> None)"

datatype 'a Poll = Ready 'a | Pending

definition poll_frame :: "Console \<Rightarrow> Console \<times> bytes option Poll" where
  "poll_frame c =
     (case cs_channel c of
        b # bs \<Rightarrow> (c\<lparr>cs_channel := bs\<rparr>, Ready (Some b))
      | [] \<Rightarrow> (c, if cs_task c = TaskEnded then Ready None else Pending))"

section \<open>The client's side\<close>

datatype FrameResult = DataFrame bytes | OtherFrame | FrameError string

text \<open>\<open>wr i\<close> is the error of the \<open>i\<close>th write to standard output, if it fails. The results: the bytes
  written, the lines on standard error, and the value of the command.\<close>

fun copy_frames :: "(nat \<Rightarrow> string option) \<Rightarrow> nat \<Rightarrow> FrameResult list \<Rightarrow> bytes \<times> string list \<times> (string + unit)" where
  "copy_frames wr i [] = ([], [], Inr ())"
| "copy_frames wr i (DataFrame d # fs) =
     (case wr i of
        Some e \<Rightarrow> ([], [], Inl e)
      | None \<Rightarrow> (case copy_frames wr (Suc i) fs of (out, err, r) \<Rightarrow> (d @ out, err, r)))"
| "copy_frames wr i (OtherFrame # fs) = copy_frames wr i fs"
| "copy_frames wr i (FrameError e # fs) = ([], [''stream error: '' @ e], Inr ())"

text \<open>\<open>handshake\<close> and \<open>stream\<close> stand for the HTTP library: the error of the handshake, and the status and the frames of the
  response, or the error of sending the request.\<close>

definition request_stream ::
  "'s Client \<Rightarrow> string option \<Rightarrow> (string \<Rightarrow> string + (nat \<times> FrameResult list)) \<Rightarrow> string \<Rightarrow> string option \<Rightarrow> string \<Rightarrow> string + (nat \<times> FrameResult list)" where
  "request_stream C handshake stream pipe tcp path =
     (let (target, err) = (case tcp of Some addr \<Rightarrow> (addr, cl_open_tcp C addr) | None \<Rightarrow> (pipe, cl_open_pipe C pipe)) in
      case err of
        Some e \<Rightarrow> with_context (connect_text target) (Inl e)
      | None \<Rightarrow>
          (case handshake of
             Some e \<Rightarrow> with_context ''HTTP handshake failed'' (Inl e)
           | None \<Rightarrow> case with_context ''build request'' (cl_uri C path) of Inl e \<Rightarrow> Inl e | Inr p \<Rightarrow> with_context ''send request failed'' (stream p)))"

fun collect_frames :: "FrameResult list \<Rightarrow> string + bytes" where
  "collect_frames [] = Inr []"
| "collect_frames (DataFrame d # fs) = (case collect_frames fs of Inl e \<Rightarrow> Inl e | Inr b \<Rightarrow> Inr (d @ b))"
| "collect_frames (OtherFrame # fs) = collect_frames fs"
| "collect_frames (FrameError e # fs) = Inl e"

text \<open>What is printed around the stream, the bytes of the stream, the lines on standard error, and the result.\<close>

definition handle_vm_serial ::
  "'s Client \<Rightarrow> string option \<Rightarrow> (string \<Rightarrow> string + (nat \<times> FrameResult list)) \<Rightarrow> (bytes \<Rightarrow> string) \<Rightarrow> (nat \<Rightarrow> string option) \<Rightarrow> VmIdArgs \<Rightarrow>
   Out list \<times> bytes \<times> string list \<times> (string + unit)" where
  "handle_vm_serial C handshake stream lossy wr args =
     (let start = [Text Cyan (hourglass @ '' Connecting to serial console for VM '' @ squoted (va_id args) @ ''...'')] in
      case request_stream C handshake stream (va_pipe args) (va_tcp args) (''/vms/'' @ va_id args @ ''/serial'') of
        Inl e \<Rightarrow> (start, [], [], Inl e)
      | Inr (status, frames) \<Rightarrow>
          (if is_success status then (start @ [ClearLine], copy_frames wr 0 frames)
           else case with_context ''read error body'' (collect_frames frames) of
                  Inl e \<Rightarrow> (start, [], [], Inl e)
                | Inr b \<Rightarrow> (start, [], [], Inl (''serial stream failed ('' @ cl_status_text C status @ ''): '' @ lossy b))))"

lemma copy_frames_all:
  "(\<And>i. wr i = None) \<Longrightarrow> copy_frames wr i (map DataFrame ds) = (concat ds, [], Inr ())"
  by (induction ds arbitrary: i) simp_all

lemma copy_frames_error:
  "(\<And>i. wr i = None) \<Longrightarrow> copy_frames wr i (map DataFrame ds @ FrameError e # fs) = (concat ds, [''stream error: '' @ e], Inr ())"
  by (induction ds arbitrary: i) simp_all

section \<open>The whole path\<close>

text \<open>The ring is closed after the vCPU threads have ended, so nothing is written to a closed ring. Hanging up drops the
  receiver with what it holds.\<close>

inductive console_step :: "Console \<Rightarrow> Console \<Rightarrow> bool" where
  guest_writes: "\<not> rb_closed (cs_ring c) \<Longrightarrow>
    console_step c (c\<lparr>cs_ring := fst (serial_write (cs_ring c) w), cs_written := cs_written c @ w\<rparr>)"
| closes: "console_step c (c\<lparr>cs_ring := serial_close (cs_ring c)\<rparr>)"
| hangs_up: "console_step c (c\<lparr>cs_listening := False, cs_channel := []\<rparr>)"
| task_reads: "serial_task_read c = Some c' \<Longrightarrow> console_step c c'"
| task_sends: "serial_task_send c = Some c' \<Longrightarrow> console_step c c'"
| shows_frame: "cs_listening c \<Longrightarrow> poll_frame c = (c', Ready (Some b)) \<Longrightarrow> console_step c (c'\<lparr>cs_out := cs_out c @ b\<rparr>)"
| sees_end: "cs_listening c \<Longrightarrow> poll_frame c = (c', Ready None) \<Longrightarrow> console_step c (c'\<lparr>cs_over := True\<rparr>)"

text \<open>The bytes that are or will be on the terminal, if the client stays.\<close>

definition in_flight :: "Console \<Rightarrow> bytes" where
  "in_flight c = concat (cs_channel c) @ (case cs_task c of TaskSending b \<Rightarrow> b | _ \<Rightarrow> [])"

definition console_inv :: "nat \<Rightarrow> nat \<Rightarrow> Console \<Rightarrow> bool" where
  "console_inv cap p0 c \<longleftrightarrow>
     ring_holds (cs_ring c) (cs_written c) \<and> length (rb_buf (cs_ring c)) = cap \<and>
     p0 \<le> cs_pos c \<and> cs_pos c \<le> length (cs_written c) \<and> length (cs_channel c) \<le> SERIAL_CHANNEL_BOUND \<and>
     (cs_listening c \<longrightarrow>
        subseq (cs_out c @ in_flight c) (drop p0 (take (cs_pos c) (cs_written c))) \<and>
        length (cs_out c @ in_flight c) + cs_missed c = cs_pos c - p0 \<and>
        (cs_task c = TaskEnded \<longrightarrow> rb_closed (cs_ring c) \<and> cs_pos c = length (cs_written c)) \<and>
        (cs_over c \<longrightarrow> cs_task c = TaskEnded \<and> cs_channel c = []))"

lemma console_inv_open:
  assumes "ring_holds ring h" "length (rb_buf ring) = cap"
  shows "console_inv cap (length h) (console_open ring h)"
  using assms by (simp add: console_inv_def console_open_def in_flight_def serial_reader_def ring_holds_def Let_def)

lemma drop_split:
  assumes "p0 \<le> p"
  shows "drop p0 h = drop p0 (take p h) @ drop p h"
proof -
  have "drop p0 h = drop p0 (take p h @ drop p h)" by simp
  then show ?thesis using assms by (simp only: drop_append) (simp add: min_def)
qed

lemma subseq_drop_le: "p \<le> q \<Longrightarrow> subseq (drop q h) (drop p h)"
  by (metis drop_drop le_add_diff_inverse2 suffix_drop suffix_imp_subseq)

lemma read_step_inv:
  assumes "console_inv cap p0 c" "serial_task_read c = Some c'"
  shows "console_inv cap p0 c'"
proof -
  have t: "cs_task c = TaskReading" using assms(2) by (auto simp: serial_task_read_def split: SerialTask.splits)
  let ?h = "cs_written c" and ?p = "cs_pos c"
  have r: "read_chunk (cs_ring c) ?p =
      (if ?p < length ?h then (length ?h, Chunk (drop (max ?p (length ?h - cap)) ?h)) else (?p, if rb_closed (cs_ring c) then Ended else Parked))"
    using assms(1) by (intro read_chunk_holds) (simp_all add: console_inv_def)
  show ?thesis
  proof (cases "?p < length ?h")
    case True
    let ?q = "max ?p (length ?h - cap)"
    have c': "c' = c\<lparr>cs_pos := length ?h, cs_task := TaskSending (drop ?q ?h), cs_missed := cs_missed c + (length ?h - ?p - (length ?h - ?q))\<rparr>"
      using assms(2) t r True by (simp add: serial_task_read_def)
    have "0 < cap" using assms(1) by (auto simp: console_inv_def ring_holds_def Let_def)
    then have q: "?p \<le> ?q" "?q \<le> length ?h" using True by auto
    have "subseq (cs_out c @ concat (cs_channel c) @ drop ?q ?h) (drop p0 ?h)"
      if "subseq (cs_out c @ concat (cs_channel c)) (drop p0 (take ?p ?h))" "p0 \<le> ?p"
      unfolding drop_split [OF that(2), of ?h] append_assoc [symmetric]
      by (rule list_emb_append_mono [OF that(1) subseq_drop_le [OF q(1)]])
    then show ?thesis using assms(1) t q True by (auto simp: console_inv_def in_flight_def c')
  next
    case False
    then have "c' = c\<lparr>cs_task := TaskEnded\<rparr>" "rb_closed (cs_ring c)"
      using assms(2) t r by (auto simp: serial_task_read_def split: if_splits)
    then show ?thesis using assms(1) t False by (auto simp: console_inv_def in_flight_def)
  qed
qed

lemma send_step_inv: "console_inv cap p0 c \<Longrightarrow> serial_task_send c = Some c' \<Longrightarrow> console_inv cap p0 c'"
  by (auto simp: serial_task_send_def console_inv_def in_flight_def split: SerialTask.splits if_splits)

lemma write_step_inv:
  assumes "console_inv cap p0 c" "\<not> rb_closed (cs_ring c)"
  shows "console_inv cap p0 (c\<lparr>cs_ring := fst (serial_write (cs_ring c) w), cs_written := cs_written c @ w\<rparr>)"
proof -
  obtain r' n where w: "serial_write (cs_ring c) w = (r', n)" by fastforce
  have "ring_holds (cs_ring c) (cs_written c)" using assms(1) by (simp add: console_inv_def)
  from serial_write_holds [OF this w] assms w show ?thesis
    by (auto simp: console_inv_def in_flight_def)
qed

lemma frame_step_inv:
  assumes "console_inv cap p0 c" "poll_frame c = (c', Ready (Some b))"
  shows "console_inv cap p0 (c'\<lparr>cs_out := cs_out c @ b\<rparr>)"
  using assms by (auto simp: poll_frame_def console_inv_def in_flight_def split: list.splits if_splits)

lemma console_step_inv: "console_step c c' \<Longrightarrow> console_inv cap p0 c \<Longrightarrow> console_inv cap p0 c'"
proof (induction rule: console_step.induct)
  case (closes c)
  then show ?case by (auto simp: console_inv_def in_flight_def serial_close_holds) (auto simp: serial_close_def)
next
  case (hangs_up c)
  then show ?case by (auto simp: console_inv_def)
next
  case (sees_end c c')
  then show ?case by (auto simp: poll_frame_def console_inv_def in_flight_def split: list.splits if_splits)
qed (auto intro: write_step_inv read_step_inv send_step_inv frame_step_inv)

section \<open>A closed console drains\<close>

text \<open>The steps of the task and of the client.\<close>

definition console_flow :: "Console \<Rightarrow> Console \<Rightarrow> bool" where
  "console_flow c c' \<longleftrightarrow> serial_task_read c = Some c' \<or> serial_task_send c = Some c' \<or>
     (case poll_frame c of
        (d, Ready (Some b)) \<Rightarrow> c' = d\<lparr>cs_out := cs_out c @ b\<rparr>
      | (d, Ready None) \<Rightarrow> \<not> cs_over c \<and> c' = d\<lparr>cs_over := True\<rparr>
      | (d, Pending) \<Rightarrow> False)"

lemma console_flow_step: "console_flow c c' \<Longrightarrow> cs_listening c \<Longrightarrow> console_step c c'"
  unfolding console_flow_def
  by (elim disjE) (auto intro: task_reads task_sends shows_frame sees_end split: prod.splits Poll.splits option.splits)

lemma console_flow_frame:
  "console_flow c c' \<Longrightarrow> cs_ring c' = cs_ring c \<and> cs_written c' = cs_written c \<and> cs_listening c' = cs_listening c"
  unfolding console_flow_def
  by (auto simp: serial_task_read_def serial_task_send_def poll_frame_def split: SerialTask.splits ReadPoll.splits prod.splits if_splits list.splits)

definition drain_left :: "Console \<Rightarrow> nat" where
  "drain_left c =
     (case cs_task c of
        TaskReading \<Rightarrow> if cs_pos c < length (cs_written c) then 5 else 1
      | TaskSending b \<Rightarrow> if cs_pos c < length (cs_written c) then 7 else 3
      | TaskEnded \<Rightarrow> 0) + length (cs_channel c) + (if cs_over c then 0 else 1)"

lemma read_chunk_console:
  assumes "console_inv cap p0 c"
  shows "read_chunk (cs_ring c) (cs_pos c) =
    (if cs_pos c < length (cs_written c)
     then (length (cs_written c), Chunk (drop (max (cs_pos c) (length (cs_written c) - cap)) (cs_written c)))
     else (cs_pos c, if rb_closed (cs_ring c) then Ended else Parked))"
  using assms by (intro read_chunk_holds) (simp_all add: console_inv_def)

lemma drain_left_decreases:
  assumes "console_inv cap p0 c" "console_flow c c'"
  shows "drain_left c' < drain_left c"
  using assms(2) unfolding console_flow_def
proof (elim disjE)
  assume r: "serial_task_read c = Some c'"
  then have t: "cs_task c = TaskReading" by (auto simp: serial_task_read_def split: SerialTask.splits)
  show ?thesis
  proof (cases "cs_pos c < length (cs_written c)")
    case True
    obtain b m where "c' = c\<lparr>cs_pos := length (cs_written c), cs_task := TaskSending b, cs_missed := m\<rparr>"
      using r t True by (simp add: serial_task_read_def read_chunk_console [OF assms(1)]) (metis (no_types))
    then show ?thesis using t True by (simp add: drain_left_def)
  next
    case False
    then have "c' = c\<lparr>cs_task := TaskEnded\<rparr>"
      using r t by (simp add: serial_task_read_def read_chunk_console [OF assms(1)] split: if_splits)
    then show ?thesis using t False by (simp add: drain_left_def)
  qed
qed (auto simp: serial_task_send_def poll_frame_def drain_left_def split: SerialTask.splits if_splits list.splits prod.splits Poll.splits option.splits)

lemma drain_progress:
  assumes "console_inv cap p0 c" "rb_closed (cs_ring c)" "\<not> cs_over c"
  shows "\<exists>c'. console_flow c c'"
proof (cases "cs_channel c")
  case Nil
  show ?thesis
  proof (cases "cs_task c")
    case TaskReading
    then have "serial_task_read c \<noteq> None"
      using read_chunk_console [OF assms(1)] assms(2) by (simp add: serial_task_read_def)
    then show ?thesis by (auto simp: console_flow_def)
  next
    case (TaskSending b)
    with Nil have "serial_task_send c \<noteq> None" by (simp add: serial_task_send_def SERIAL_CHANNEL_BOUND_def)
    then show ?thesis by (auto simp: console_flow_def)
  next
    case TaskEnded
    with Nil assms(3) show ?thesis by (auto simp: console_flow_def poll_frame_def)
  qed
qed (auto simp: console_flow_def poll_frame_def)

lemma console_drains:
  "console_inv cap p0 c \<Longrightarrow> rb_closed (cs_ring c) \<Longrightarrow> cs_listening c \<Longrightarrow>
   \<exists>c'. console_flow\<^sup>*\<^sup>* c c' \<and> cs_over c' \<and> cs_listening c' \<and> cs_written c' = cs_written c \<and> console_inv cap p0 c'"
proof (induction "drain_left c" arbitrary: c rule: less_induct)
  case less
  show ?case
  proof (cases "cs_over c")
    case True
    with less.prems show ?thesis by blast
  next
    case False
    with drain_progress [OF less.prems(1,2)] obtain d where d: "console_flow c d" by blast
    note f = console_flow_frame [OF d]
    have i: "console_inv cap p0 d" by (rule console_step_inv [OF console_flow_step [OF d less.prems(3)] less.prems(1)])
    have "drain_left d < drain_left c" by (rule drain_left_decreases [OF less.prems(1) d])
    from less.hyps [OF this i] f less.prems(2,3) d show ?thesis by (metis (mono_tags, lifting) converse_rtranclp_into_rtranclp)
  qed
qed

section \<open>Properties\<close>

text \<open>C20: The console shows what the guest writes. Attach to a VM whose guest has already written \<open>concat ws\<close>, and let the
  guest, the daemon's task and the client run in any interleaving. While the client stays, what it has
  printed is a subsequence of what the guest has written since it attached, and a prefix of it as long as nothing was
  overwritten before it was read; the bytes printed, on the way and missed account for everything read.
  When the client sees the end, printed and missed bytes are all that was written; and once the
  buffer is closed task and client alone reach that end.\<close>

theorem console_shows_stream:
  assumes "serial_with_capacity cap = Some r0"
    and "console_step\<^sup>*\<^sup>* (console_open (foldl (\<lambda>r w. fst (serial_write r w)) r0 ws) (concat ws)) c" "cs_listening c"
  defines "new \<equiv> drop (length (concat ws)) (cs_written c)"
  shows "subseq (cs_out c) new \<and> (cs_missed c = 0 \<longrightarrow> prefix (cs_out c) new) \<and>
    (cs_over c \<longrightarrow> length (cs_out c) + cs_missed c = length new) \<and>
    (rb_closed (cs_ring c) \<longrightarrow>
       (\<exists>c'. console_flow\<^sup>*\<^sup>* c c' \<and> cs_over c' \<and> cs_written c' = cs_written c \<and> (cs_missed c' = 0 \<longrightarrow> cs_out c' = new)))"
proof -
  let ?p = "length (concat ws)"
  have inv0: "console_inv cap ?p (console_open (foldl (\<lambda>r w. fst (serial_write r w)) r0 ws) (concat ws))"
    using serial_writes_hold [OF assms(1), of ws] by (intro console_inv_open) simp_all
  from assms(2) have inv: "console_inv cap ?p c"
    by (induction rule: rtranclp_induct) (use inv0 console_step_inv in blast)+
  have shown: "prefix (cs_out d) (drop ?p (cs_written d)) \<and> (cs_over d \<longrightarrow> cs_out d = drop ?p (cs_written d))"
    if "console_inv cap ?p d" "cs_listening d" "cs_missed d = 0" for d
  proof -
    have "length (cs_out d @ in_flight d) = length (drop ?p (take (cs_pos d) (cs_written d)))"
      using that by (auto simp: console_inv_def)
    with that have e: "cs_out d @ in_flight d = drop ?p (take (cs_pos d) (cs_written d))"
      unfolding console_inv_def using subseq_same_length by blast
    have "?p \<le> cs_pos d" using that(1) by (simp add: console_inv_def)
    from drop_split [OF this, of "cs_written d"] have "drop ?p (cs_written d) = cs_out d @ in_flight d @ drop (cs_pos d) (cs_written d)"
      unfolding e [symmetric] by simp
    moreover have "cs_over d \<Longrightarrow> in_flight d = [] \<and> cs_pos d = length (cs_written d)"
      using that by (simp add: console_inv_def in_flight_def)
    ultimately show ?thesis by auto
  qed
  have "subseq (cs_out c) new"
  proof -
    have "subseq (cs_out c @ in_flight c) (drop ?p (take (cs_pos c) (cs_written c)))" "?p \<le> cs_pos c"
      using inv assms(3) by (auto simp: console_inv_def)
    moreover have "subseq (drop ?p (take (cs_pos c) (cs_written c))) new"
      unfolding new_def drop_split [OF calculation(2), of "cs_written c"] by (simp add: subseq_rev_drop_many)
    ultimately show ?thesis
      using subseq_rev_drop_many [of "cs_out c" "cs_out c" "in_flight c"] by (meson subseq_order.dual_order.trans subseq_order.order_refl)
  qed
  moreover have "cs_over c \<Longrightarrow> length (cs_out c) + cs_missed c = length new"
    using inv assms(3) by (auto simp: console_inv_def in_flight_def new_def)
  moreover have "\<exists>c'. console_flow\<^sup>*\<^sup>* c c' \<and> cs_over c' \<and> cs_written c' = cs_written c \<and> (cs_missed c' = 0 \<longrightarrow> cs_out c' = new)"
    if cl: "rb_closed (cs_ring c)"
  proof -
    from console_drains [OF inv cl assms(3)] obtain c' where "console_flow\<^sup>*\<^sup>* c c'" "cs_over c'" "cs_listening c'"
      "cs_written c' = cs_written c" "console_inv cap ?p c'" by blast
    with shown [of c'] show ?thesis unfolding new_def by metis
  qed
  ultimately show ?thesis using shown [OF inv assms(3)] unfolding new_def by blast
qed

text \<open>A ring of four bytes: the guest writes \<open>7\<close> before the client attaches and \<open>8, 9\<close> afterwards.\<close>

theorem console_shows_stream_witness:
  "\<exists>r0 c. serial_with_capacity 4 = Some r0 \<and>
     console_step\<^sup>*\<^sup>* (console_open (foldl (\<lambda>r w. fst (serial_write r w)) r0 [[7]]) (concat [[7]])) c \<and>
     cs_listening c \<and> cs_written c = [7, 8, 9] \<and> prefix (cs_out c) [8, 9] \<and>
     (\<exists>c'. console_flow\<^sup>*\<^sup>* c c' \<and> cs_over c' \<and> (cs_missed c' = 0 \<longrightarrow> cs_out c' = [8, 9]))"
proof -
  obtain r0 where r0: "serial_with_capacity 4 = Some r0" by (simp add: serial_with_capacity_def)
  let ?ring = "foldl (\<lambda>r w. fst (serial_write r w)) r0 [[7]]"
  let ?c0 = "console_open ?ring (concat [[7]])"
  let ?c1 = "?c0\<lparr>cs_ring := fst (serial_write ?ring [8, 9]), cs_written := [7, 8, 9]\<rparr>"
  let ?c2 = "?c1\<lparr>cs_ring := serial_close (fst (serial_write ?ring [8, 9]))\<rparr>"
  have "\<not> rb_closed ?ring" using serial_writes_hold [OF r0, of "[[7]]"] by simp
  then have "console_step ?c0 ?c1" using guest_writes [of ?c0 "[8, 9]"] by (simp add: console_open_def)
  moreover have "console_step ?c1 ?c2" using closes [of ?c1] by (simp add: console_open_def)
  ultimately have r: "console_step\<^sup>*\<^sup>* ?c0 ?c2" by (meson converse_rtranclp_into_rtranclp r_into_rtranclp)
  obtain c where c: "console_step\<^sup>*\<^sup>* ?c0 c" "cs_listening c" "cs_written c = [7, 8, 9]" "cs_missed c = 0" "rb_closed (cs_ring c)"
    by (rule that [OF r]) (simp_all add: console_open_def serial_close_def)
  note p = console_shows_stream [OF r0 c(1,2)]
  have pre: "prefix (cs_out c) [8, 9]" using p c(3,4) by simp
  have "\<exists>c'. console_flow\<^sup>*\<^sup>* c c' \<and> cs_over c' \<and> (cs_missed c' = 0 \<longrightarrow> cs_out c' = [8, 9])"
    using p c(3,5) by auto
  with r0 c(1-3) pre show ?thesis by - (rule exI [of _ r0], rule exI [of _ c], intro conjI; assumption)
qed

end
