(* ===== verification/Cli_Launch.thy ===== *)
theory Cli_Launch
  imports Daemon_Server Cli_Live Serial_Console Vm
begin

text \<open>
  How the program is started (\<open>hitz-cli/src/main.rs\<close>): the command line, \<open>main\<close> and its exit codes, the
  standalone \<open>run\<close>, the daemon in the foreground and as a Windows service, and the installation of that
  service. The argument parser, the service control manager, the environment and the exporters of the
  telemetry are parameters. The daemon itself is the step relation of \<open>Daemon_Server\<close>, a booted VM that of
  \<open>Vcpu_Threads\<close>: the functions here take their result.
\<close>

section \<open>Arguments\<close>

definition DEFAULT_PIPE :: string where
  "DEFAULT_PIPE = [CHR 0x5C, CHR 0x5C, CHR ''.'', CHR 0x5C] @ ''pipe'' @ [CHR 0x5C] @ ''hitz''"

definition SERVICE_NAME :: string where
  "SERVICE_NAME = ''hitz''"

definition em_dash :: string where
  "em_dash = [CHR 0xE2, CHR 0x80, CHR 0x94]"

record DaemonStartArgs =
  ds_pipe :: string
  ds_tcp_listen :: "string option"
  ds_verbose :: bool
  ds_otlp_endpoint :: "string option"
  ds_state_dir :: "Path option"

record DaemonInstallArgs =
  di_start :: DaemonStartArgs
  di_auto_start :: bool
  di_display_name :: "string option"
  di_description :: "string option"

datatype DaemonCommand = DaemonStart DaemonStartArgs | DaemonInstall DaemonInstallArgs | DaemonRemove

record RunArgs =
  ra_kernel :: Path
  ra_initramfs :: "Path option"
  ra_disk :: "Path option"
  ra_ram :: u32
  ra_cpus :: u32
  ra_cmdline :: string
  ra_verbose :: bool
  ra_net :: bool
  ra_host_ip :: string
  ra_guest_ip :: string
  ra_mac :: "string option"
  ra_ports :: "PortForward list"

datatype VmCommand =
    VmCreate VmCreateArgs
  | VmClone VmCloneArgs
  | VmStart VmIdArgs
  | VmStop VmIdArgs
  | VmRestart VmIdArgs
  | VmStatus VmIdArgs
  | VmList VmListArgs
  | VmDelete VmIdArgs
  | VmSerial VmIdArgs
  | VmMetrics VmIdArgs
  | VmTop VmIdArgs
  | VmDashboard VmListArgs
  | VmExportMetrics VmExportArgs
  | VmRecord VmRecordArgs
  | VmAnalyze VmIdArgs
  | VmTimeline Path

datatype Command = CommandRun RunArgs | CommandDaemon DaemonCommand | CommandVm VmCommand

section \<open>Environment\<close>

text \<open>The environment variables that are set and Unicode, paths made from text, and the text of a path that is Unicode.\<close>

record LaunchEnv =
  env_var :: "string \<Rightarrow> string option"
  env_path :: "string \<Rightarrow> Path"
  env_path_str :: "Path \<Rightarrow> string option"

definition path_join :: "string \<Rightarrow> string \<Rightarrow> string" where
  "path_join base name =
     base @ (if base = [] \<or> last base \<in> {CHR ''/'', CHR 0x5C} \<or> length base = 2 \<and> last base = CHR '':'' then [] else [CHR 0x5C]) @ name"

definition resolve_otlp_endpoint :: "LaunchEnv \<Rightarrow> string option \<Rightarrow> string option" where
  "resolve_otlp_endpoint E cli_arg = (case cli_arg of Some ep \<Rightarrow> Some ep | None \<Rightarrow> env_var E ''OTEL_EXPORTER_OTLP_ENDPOINT'')"

text \<open>The directory, and the warning printed when there is no \<open>APPDATA\<close>.\<close>

definition resolve_state_dir :: "LaunchEnv \<Rightarrow> Path option \<Rightarrow> Path \<times> string list" where
  "resolve_state_dir E cli_arg =
     (case cli_arg of
        Some p \<Rightarrow> (p, [])
      | None \<Rightarrow>
          (case env_var E ''APPDATA'' of
             None \<Rightarrow>
               (let fallback = env_path E (path_join (path_join ''.'' ''hitz'') ''vms'') in
                (fallback, [''hitz: warning: APPDATA not set, state dir defaults to '' @ path_display fallback]))
           | Some appdata \<Rightarrow> (env_path E (path_join (path_join appdata ''hitz'') ''vms''), [])))"

definition opt_arg :: "string \<Rightarrow> string option \<Rightarrow> string list" where
  "opt_arg name v = (case v of None \<Rightarrow> [] | Some x \<Rightarrow> [name, x])"

definition build_launch_args :: "LaunchEnv \<Rightarrow> DaemonStartArgs \<Rightarrow> string + string list" where
  "build_launch_args E args =
     (case env_path_str E (fst (resolve_state_dir E (ds_state_dir args))) of
        None \<Rightarrow> Inl ''state-dir path is not valid UTF-8''
      | Some state_dir \<Rightarrow>
          Inr ([''daemon'', ''start'', ''--pipe'', ds_pipe args] @ opt_arg ''--tcp-listen'' (ds_tcp_listen args) @
               (if ds_verbose args then [''--verbose''] else []) @ opt_arg ''--otlp-endpoint'' (ds_otlp_endpoint args) @
               [''--state-dir'', state_dir]))"

section \<open>Installing the service\<close>

record ServiceInfo =
  si_display_name :: string
  si_auto_start :: bool
  si_executable :: Path
  si_launch_arguments :: "string list"
  si_description :: "string option"

text \<open>The service control manager: the registered services, and the calls it refuses for other reasons.\<close>

record Scm =
  scm_services :: "(string \<times> ServiceInfo) list"
  scm_open :: "string option"
  scm_create :: "string option"
  scm_describe :: "string option"
  scm_delete :: "string option"

definition scm_add :: "string \<Rightarrow> ServiceInfo \<Rightarrow> Scm \<Rightarrow> string + Scm" where
  "scm_add name info scm =
     (case scm_create scm of
        Some e \<Rightarrow> Inl e
      | None \<Rightarrow>
          if map_of (scm_services scm) name \<noteq> None then Inl ''the specified service already exists''
          else Inr (scm\<lparr>scm_services := (name, info) # scm_services scm\<rparr>))"

definition install_service :: "LaunchEnv \<Rightarrow> string + Path \<Rightarrow> DaemonInstallArgs \<Rightarrow> Scm \<Rightarrow> Scm \<times> string list \<times> (string + unit)" where
  "install_service E current_exe args scm =
     (case with_context ''failed to get current exe path'' current_exe of
        Inl e \<Rightarrow> (scm, [], Inl e)
      | Inr exe \<Rightarrow>
     (case build_launch_args E (di_start args) of
        Inl e \<Rightarrow> (scm, [], Inl e)
      | Inr launch_arguments \<Rightarrow>
     (case scm_open scm of
        Some e \<Rightarrow> (scm, [], Inl (''failed to open SCM '' @ em_dash @ '' run as Administrator: '' @ e))
      | None \<Rightarrow>
          let display_name = (case di_display_name args of Some n \<Rightarrow> n | None \<Rightarrow> ''Hitz micro-VM daemon'');
              description = (case di_description args of Some n \<Rightarrow> n | None \<Rightarrow> ''Hyper-V micro-VM manager'');
              info = \<lparr>si_display_name = display_name, si_auto_start = di_auto_start args, si_executable = exe,
                      si_launch_arguments = launch_arguments, si_description = None\<rparr>
          in case scm_add SERVICE_NAME info scm of
               Inl e \<Rightarrow> (scm, [], Inl (''failed to create service '' @ em_dash @ '' service may already exist, or access denied (run as Administrator): '' @ e))
             | Inr scm1 \<Rightarrow>
                 (case scm_describe scm of
                    Some e \<Rightarrow> (scm1, [], Inl (''failed to set service description: '' @ e))
                  | None \<Rightarrow>
                      (scm1\<lparr>scm_services := AList.update SERVICE_NAME (info\<lparr>si_description := Some description\<rparr>) (scm_services scm1)\<rparr>,
                       [''installed: hitz daemon as Windows service'',
                        if di_auto_start args then ''  start type: automatic (starts at boot)''
                        else ''  start type: manual '' @ em_dash @ '' use `sc start hitz` to start''], Inr ())))))"

text \<open>Stopping the service first is an attempt whose result is ignored.\<close>

definition remove_service :: "Scm \<Rightarrow> Scm \<times> string list \<times> (string + unit)" where
  "remove_service scm =
     (case scm_open scm of
        Some e \<Rightarrow> (scm, [], Inl (''failed to open SCM '' @ em_dash @ '' run as Administrator: '' @ e))
      | None \<Rightarrow>
          if map_of (scm_services scm) SERVICE_NAME = None
          then (scm, [], Inl (''service '' @ squoted SERVICE_NAME @ '' not found '' @ em_dash @ '' is it installed?: the specified service does not exist''))
          else case scm_delete scm of
            Some e \<Rightarrow> (scm, [], Inl (''failed to delete service: '' @ e))
          | None \<Rightarrow> (scm\<lparr>scm_services := AList.delete SERVICE_NAME (scm_services scm)\<rparr>, [''removed: hitz Windows service''], Inr ()))"


section \<open>The daemon process\<close>

text \<open>\<open>init_tracing\<close>: the layers of the subscriber.\<close>

definition init_tracing :: "TelemetryGuard \<Rightarrow> bool \<Rightarrow> string list" where
  "init_tracing g verbose = (if verbose then [''fmt hitz=debug''] else []) @ (case tracing_layer g of None \<Rightarrow> [] | Some tracer \<Rightarrow> [''otel '' @ tracer])"

datatype ServiceState = StartPending | ServiceRunning | ServiceStopped nat

datatype LaunchAct =
    Report ServiceState
  | Telemetry TelemetryAct
  | InitTracing "string list"
  | Eprintln string
  | RuntimeUp
  | RunBody DaemonStartArgs
  | RuntimeDown

text \<open>
  What the process meets: the exporters, given whether a runtime is running around the call; the
  shutdown of the providers; the creation of the runtime; the result of \<open>run_daemon_inner\<close>; the argument
  parser; the service control manager of a running service, and the answer of the service dispatcher.
\<close>

datatype Dispatch = Dispatched | NotAService | DispatchError string

record LaunchHost =
  lh_env :: LaunchEnv
  lh_span :: "bool \<Rightarrow> string \<Rightarrow> (string, unit) outcome"
  lh_metric :: "bool \<Rightarrow> string \<Rightarrow> (string, unit) outcome"
  lh_shut_meter :: "string \<Rightarrow> string + unit"
  lh_shut_tracer :: "string \<Rightarrow> string + unit"
  lh_runtime :: "string option"
  lh_inner :: "DaemonStartArgs \<Rightarrow> string + unit"
  lh_parse :: "string list \<Rightarrow> string + Command"
  lh_register :: "string option"
  lh_report :: "ServiceState \<Rightarrow> string option"
  lh_dispatch :: Dispatch

fun to_outcome :: "string + 'a \<Rightarrow> (string, 'a) outcome" where
  "to_outcome (Inl e) = Err e"
| "to_outcome (Inr x) = Ok x"

text \<open>What \<open>run_daemon\<close> and \<open>run_service\<close> share: telemetry first, outside any runtime, and its guard dropped last.\<close>

definition run_with_telemetry :: "LaunchHost \<Rightarrow> string \<Rightarrow> string list \<Rightarrow> DaemonStartArgs \<Rightarrow> LaunchAct list \<times> (string, unit) outcome" where
  "run_with_telemetry L ctx banner args =
     (case telemetry_init (lh_span L False) (lh_metric L False) (resolve_otlp_endpoint (lh_env L) (ds_otlp_endpoint args)) of
        Panic \<Rightarrow> ([], Panic)
      | Err e \<Rightarrow> ([], Err e)
      | Ok (acts, g) \<Rightarrow>
          let start = map Telemetry acts @ [InitTracing (init_tracing g (ds_verbose args))] @ map Eprintln banner;
              drop_guard = map Telemetry (telemetry_drop (lh_shut_meter L) (lh_shut_tracer L) g)
          in case lh_runtime L of
               Some e \<Rightarrow> (start @ drop_guard, Err (ctx @ '': '' @ e))
             | None \<Rightarrow> (start @ [RuntimeUp, RunBody args, RuntimeDown] @ drop_guard, to_outcome (lh_inner L args)))"

text \<open>Under the service manager the dispatcher runs \<open>run_service\<close> on a thread of its own and returns when the service has ended.\<close>

definition run_daemon :: "LaunchHost \<Rightarrow> DaemonStartArgs \<Rightarrow> LaunchAct list \<times> (string, unit) outcome" where
  "run_daemon L args =
     (case lh_dispatch L of
        Dispatched \<Rightarrow> ([], Ok ())
      | DispatchError e \<Rightarrow> ([], Err (''service dispatcher error: '' @ e))
      | NotAService \<Rightarrow>
          run_with_telemetry L ''failed to create tokio runtime''
            ((''hitz: daemon listening on '' @ ds_pipe args) # (case ds_tcp_listen args of None \<Rightarrow> [] | Some addr \<Rightarrow> [''hitz: TCP listener on '' @ addr])) args)"

section \<open>The service\<close>

datatype ServiceControl = ControlStop | ControlShutdown | ControlInterrogate | ControlOther

datatype HandlerResult = NoError | NotImplemented

text \<open>The control handler: the value it sends through the channel, and its answer.\<close>

fun event_handler :: "ServiceControl \<Rightarrow> bool option \<times> HandlerResult" where
  "event_handler ControlStop = (Some True, NoError)"
| "event_handler ControlShutdown = (Some True, NoError)"
| "event_handler ControlInterrogate = (None, NoError)"
| "event_handler ControlOther = (None, NotImplemented)"

text \<open>The shutdown future on the changes of the channel seen so far, \<open>None\<close> being the loss of the sender: whether it has resolved.\<close>

fun service_shutdown :: "bool option list \<Rightarrow> bool" where
  "service_shutdown [] = False"
| "service_shutdown (None # cs) = True"
| "service_shutdown (Some v # cs) = (v \<or> service_shutdown cs)"

definition report :: "LaunchHost \<Rightarrow> ServiceState \<Rightarrow> string \<Rightarrow> (LaunchAct list \<times> (string, unit) outcome) \<Rightarrow> LaunchAct list \<times> (string, unit) outcome" where
  "report L st ctx rest =
     (case lh_report L st of
        Some e \<Rightarrow> ([], Err (ctx @ '': '' @ e))
      | None \<Rightarrow> (case rest of (acts, r) \<Rightarrow> (Report st # acts, r)))"

definition daemon_args_start :: "string list \<Rightarrow> nat" where
  "daemon_args_start arguments =
     (let n = length (takeWhile (\<lambda>a. a \<noteq> ''daemon'') arguments) in if n < length arguments then n else 1)"

text \<open>The slice panics when it starts behind the end.\<close>

definition service_argv :: "string list \<Rightarrow> string list option" where
  "service_argv arguments =
     (let n = daemon_args_start arguments in if n \<le> length arguments then Some (''hitz'' # drop n arguments) else None)"

definition run_service_body :: "LaunchHost \<Rightarrow> DaemonStartArgs \<Rightarrow> LaunchAct list \<times> (string, unit) outcome" where
  "run_service_body L args =
     (case run_with_telemetry L ''failed to create tokio runtime in service mode'' [] args of
        (acts, r) \<Rightarrow>
          if lh_runtime L \<noteq> None \<or> r = Panic then (acts, r)
          else let st = ServiceStopped (if r = Ok () then 0 else 1) in
               (acts @ (if lh_report L st = None then [Report st] else []), r))"

definition run_service :: "LaunchHost \<Rightarrow> string list \<Rightarrow> LaunchAct list \<times> (string, unit) outcome" where
  "run_service L arguments =
     (case lh_register L of
        Some e \<Rightarrow> ([], Err (''failed to register service control handler: '' @ e))
      | None \<Rightarrow>
     report L StartPending ''failed to report StartPending''
     (case service_argv arguments of
        None \<Rightarrow> ([], Panic)
      | Some argv \<Rightarrow>
     (case lh_parse L argv of
        Inl e \<Rightarrow> ([], Err (''failed to parse service arguments '' @ em_dash @ '' was the service registered with '' @ squoted ''daemon start'' @ ''?: '' @ e))
      | Inr (CommandDaemon (DaemonStart args)) \<Rightarrow>
          report L ServiceRunning ''failed to report Running'' (run_service_body L args)
      | Inr _ \<Rightarrow> ([], Err (''service binary path must start with '' @ squoted ''daemon start'' @ ''; got unexpected subcommand'')))))"

definition service_main :: "LaunchHost \<Rightarrow> string list \<Rightarrow> LaunchAct list \<times> (string, unit) outcome" where
  "service_main L arguments =
     (case run_service L arguments of
        (acts, Err e) \<Rightarrow> (acts @ [Eprintln (''hitz service error: '' @ e)], Ok ())
      | x \<Rightarrow> x)"

section \<open>Running a VM without the daemon\<close>

definition run_config :: "RunArgs \<Rightarrow> VmConfig" where
  "run_config args =
     \<lparr>cfg_kernel_path = ra_kernel args, cfg_initramfs_path = ra_initramfs args, cfg_disk_path = ra_disk args,
      cfg_ram_mib = ra_ram args, cfg_cpus = ra_cpus args, cfg_cmdline = Some (ra_cmdline args),
      cfg_net = (if ra_net args
                 then Some \<lparr>net_cfg_mac = ra_mac args, net_cfg_host_ip = ra_host_ip args, net_cfg_guest_ip = ra_guest_ip args,
                            net_cfg_adapter_name = None\<rparr>
                 else None),
      cfg_ports = ra_ports args, cfg_guest_cid = DEFAULT_GUEST_CID, cfg_guest_agent = Auto\<rparr>"

definition run_rows :: "RunArgs \<Rightarrow> string list list" where
  "run_rows args =
     [[''Configuration'', ''Value''], [''Kernel'', path_display (ra_kernel args)]] @
     opt_row ''Initramfs'' (map_option path_display (ra_initramfs args)) @ opt_row ''Disk'' (map_option path_display (ra_disk args)) @
     [[''RAM'', show_dec (unat (ra_ram args)) @ '' MiB''], [''CPUs'', show_dec (unat (ra_cpus args))], [''Cmdline'', ra_cmdline args]]"

definition rocket :: string where
  "rocket = [CHR 0xF0, CHR 0x9F, CHR 0x9A, CHR 0x80]"

fun exit_reason_debug :: "ExitReason \<Rightarrow> string" where
  "exit_reason_debug Halt = ''Halt''"
| "exit_reason_debug Shutdown = ''Shutdown''"
| "exit_reason_debug Canceled = ''Canceled''"
| "exit_reason_debug (Unexpected reason) = ''Unexpected('' @ debug_ascii reason @ '')''"

datatype RunOut = Banner string "string list list" | Plain string

text \<open>\<open>boot\<close> is \<open>boot_and_run\<close> without vsock channels. The exit code is 0 for \<open>Halt\<close> and \<open>Canceled\<close>.\<close>

definition run_vm :: "string option \<Rightarrow> string option \<Rightarrow> (VmConfig \<Rightarrow> (VmError, ExitReason) outcome) \<Rightarrow> RunArgs \<Rightarrow> RunOut list \<times> (string, nat) outcome" where
  "run_vm whp handler boot args =
     (let out = (if ra_verbose args then [Banner (rocket @ '' Booting standalone micro-VM'') (run_rows args)] else []) @
            (if ra_ports args \<noteq> []
             then [Plain (''hitz: warning: --port flags are not supported in standalone mode (use daemon: `hitz daemon start` + `hitz vm create --port ...`)'')]
             else [])
      in case whp of
           Some e \<Rightarrow> (out, Err (''failed to create WHP hypervisor: '' @ e))
         | None \<Rightarrow>
      (case handler of
           Some e \<Rightarrow> (out, Err (''failed to set Ctrl+C handler: '' @ e))
         | None \<Rightarrow>
      (case boot (run_config args) of
           Panic \<Rightarrow> (out, Panic)
         | Err e \<Rightarrow> (out, Err (''VM boot failed: '' @ vm_error_to_string e))
         | Ok reason \<Rightarrow>
             (out @ (if ra_verbose args then [Plain (''hitz: VM exited: '' @ exit_reason_debug reason)] else []),
              Ok (if reason = Halt \<or> reason = Canceled then 0 else 1)))))"


section \<open>Dispatch\<close>

text \<open>The host of a \<open>vm\<close> command: what its handlers take beside their arguments.\<close>

record 's VmHost =
  vh_runtime :: "string option"
  vh_client :: "'s Client"
  vh_record :: RecordHost
  vh_lines :: "Path \<Rightarrow> string + (string + string) list"
  vh_handshake :: "string option"
  vh_stream :: "string \<Rightarrow> string + (nat \<times> FrameResult list)"
  vh_lossy :: "bytes \<Rightarrow> string"
  vh_stdout :: "nat \<Rightarrow> string option"
  vh_term :: TermOps
  vh_top :: "TopRound list"
  vh_dash :: "(bool \<times> Event option) list"
  vh_outer :: "string \<Rightarrow> string"

datatype Shown = Printed "Out list" | Copied "Out list" bytes "string list" | TopShown "TopScreen list" | DashShown "DashScreen list"

definition printed :: "'s \<times> Out list \<times> (string + unit) \<Rightarrow> 's \<times> Shown \<times> (string, unit) outcome option" where
  "printed x = (case x of (s, out, r) \<Rightarrow> (s, Printed out, Some (to_outcome r)))"

text \<open>The result is \<open>None\<close> when the command has not ended.\<close>

definition run_vm_command :: "'s VmHost \<Rightarrow> VmCommand \<Rightarrow> 's \<Rightarrow> 's \<times> Shown \<times> (string, unit) outcome option" where
  "run_vm_command V cmd s =
     (let C = vh_client V in
      case vh_runtime V of
        Some e \<Rightarrow> (s, Printed [], Some (Err (''failed to create tokio runtime: '' @ e)))
      | None \<Rightarrow>
     (case cmd of
        VmCreate args \<Rightarrow> printed (handle_vm_create C args s)
      | VmClone args \<Rightarrow> printed (handle_vm_clone C args s)
      | VmStart args \<Rightarrow> printed (handle_vm_action C args Start s)
      | VmStop args \<Rightarrow> printed (handle_vm_action C args Stop s)
      | VmRestart args \<Rightarrow> printed (handle_vm_action C args Restart s)
      | VmStatus args \<Rightarrow> printed (handle_vm_status C args s)
      | VmList args \<Rightarrow> printed (handle_vm_list C args s)
      | VmDelete args \<Rightarrow> printed (handle_vm_delete C args s)
      | VmSerial args \<Rightarrow>
          (case handle_vm_serial C (vh_handshake V) (vh_stream V) (vh_lossy V) (vh_stdout V) args of (out, copied, err, r) \<Rightarrow> (s, Copied out copied err, Some (to_outcome r)))
      | VmMetrics args \<Rightarrow> printed (handle_vm_metrics C args s)
      | VmTop args \<Rightarrow>
          (case handle_vm_top C (vh_term V) args (vh_top V) term_plain s of (t, s, screens, r) \<Rightarrow> (s, TopShown screens, map_option to_outcome r))
      | VmDashboard args \<Rightarrow>
          (case handle_vm_dashboard C (vh_outer V) (vh_term V) args (vh_dash V) term_plain s of (t, s, screens, r) \<Rightarrow> (s, DashShown screens, map_option to_outcome r))
      | VmExportMetrics args \<Rightarrow> printed (handle_vm_export_metrics C args s)
      | VmRecord args \<Rightarrow>
          (case handle_vm_record C (vh_record V) args s of
             None \<Rightarrow> (s, Printed [], None)
           | Some (s, file, out, r) \<Rightarrow> (s, Printed out, Some r))
      | VmAnalyze args \<Rightarrow>
          (case handle_vm_analyze C args s of
             None \<Rightarrow> (s, Printed [], Some Panic)
           | Some x \<Rightarrow> printed x)
      | VmTimeline in_file \<Rightarrow> (case handle_vm_timeline (vh_lines V) (cl_snapshot C) in_file of (out, r) \<Rightarrow> (s, Printed out, Some r))))"

text \<open>The exit code of the process for the result of a command: a panic of the main thread ends it with 101. The error goes to
  standard error.\<close>

definition main_exit :: "('a \<Rightarrow> nat) \<Rightarrow> (string, 'a) outcome \<Rightarrow> string list \<times> nat" where
  "main_exit code r =
     (case r of
        Ok x \<Rightarrow> ([], code x)
      | Err e \<Rightarrow> ([clear_line @ cross @ '' Error: '' @ e], 1)
      | Panic \<Rightarrow> ([], 101))"

record 's MainHost =
  mh_whp :: "string option"
  mh_handler :: "string option"
  mh_boot :: "VmConfig \<Rightarrow> (VmError, ExitReason) outcome"
  mh_launch :: LaunchHost
  mh_exe :: "string + Path"
  mh_scm :: Scm
  mh_vm :: "'s VmHost"

definition main :: "'s MainHost \<Rightarrow> Command \<Rightarrow> 's \<Rightarrow> (string list \<times> nat) option" where
  "main M cmd s =
     (case cmd of
        CommandRun args \<Rightarrow> Some (main_exit id (snd (run_vm (mh_whp M) (mh_handler M) (mh_boot M) args)))
      | CommandDaemon (DaemonStart args) \<Rightarrow> Some (main_exit (\<lambda>_. 0) (snd (run_daemon (mh_launch M) args)))
      | CommandDaemon (DaemonInstall args) \<Rightarrow>
          Some (main_exit (\<lambda>_. 0) (to_outcome (snd (snd (install_service (lh_env (mh_launch M)) (mh_exe M) args (mh_scm M))))))
      | CommandDaemon DaemonRemove \<Rightarrow> Some (main_exit (\<lambda>_. 0) (to_outcome (snd (snd (remove_service (mh_scm M))))))
      | CommandVm cmd \<Rightarrow> map_option (main_exit (\<lambda>_. 0)) (snd (snd (run_vm_command (mh_vm M) cmd s))))"


section \<open>Launch arguments\<close>

text \<open>
  What is relied on of the argument parser: \<open>daemon start\<close> alone has the declared defaults, and an
  option that was not given yet and its value, which is not empty and does not look like an option,
  can be added. \<open>addr\<close> tells which texts are socket addresses.
\<close>

definition start_defaults :: DaemonStartArgs where
  "start_defaults = \<lparr>ds_pipe = DEFAULT_PIPE, ds_tcp_listen = None, ds_verbose = False, ds_otlp_endpoint = None, ds_state_dir = None\<rparr>"

definition plain_value :: "string \<Rightarrow> bool" where
  "plain_value v \<longleftrightarrow> v \<noteq> [] \<and> hd v \<noteq> CHR ''-''"

definition starts :: "(string list \<Rightarrow> string + Command) \<Rightarrow> string list \<Rightarrow> DaemonStartArgs \<Rightarrow> bool" where
  "starts parse argv a \<longleftrightarrow> parse argv = Inr (CommandDaemon (DaemonStart a))"

definition clap_start :: "LaunchEnv \<Rightarrow> (string \<Rightarrow> bool) \<Rightarrow> (string list \<Rightarrow> string + Command) \<Rightarrow> bool" where
  "clap_start E addr parse \<longleftrightarrow>
     starts parse [''hitz'', ''daemon'', ''start''] start_defaults \<and>
     (\<forall>argv a. starts parse argv a \<longrightarrow>
        (\<forall>v. plain_value v \<longrightarrow>
           (''--pipe'' \<notin> set argv \<longrightarrow> starts parse (argv @ [''--pipe'', v]) (a\<lparr>ds_pipe := v\<rparr>)) \<and>
           (''--tcp-listen'' \<notin> set argv \<and> addr v \<longrightarrow> starts parse (argv @ [''--tcp-listen'', v]) (a\<lparr>ds_tcp_listen := Some v\<rparr>)) \<and>
           (''--otlp-endpoint'' \<notin> set argv \<longrightarrow> starts parse (argv @ [''--otlp-endpoint'', v]) (a\<lparr>ds_otlp_endpoint := Some v\<rparr>)) \<and>
           (''--state-dir'' \<notin> set argv \<longrightarrow> starts parse (argv @ [''--state-dir'', v]) (a\<lparr>ds_state_dir := Some (env_path E v)\<rparr>))) \<and>
        (''--verbose'' \<notin> set argv \<longrightarrow> starts parse (argv @ [''--verbose'']) (a\<lparr>ds_verbose := True\<rparr>)))"

text \<open>Arguments whose values survive being written as separate words.\<close>

definition launchable :: "LaunchEnv \<Rightarrow> (string \<Rightarrow> bool) \<Rightarrow> DaemonStartArgs \<Rightarrow> bool" where
  "launchable E addr args \<longleftrightarrow>
     plain_value (ds_pipe args) \<and> (\<forall>v. ds_tcp_listen args = Some v \<longrightarrow> plain_value v \<and> addr v) \<and>
     (\<forall>v. ds_otlp_endpoint args = Some v \<longrightarrow> plain_value v) \<and>
     (\<forall>t. env_path_str E (fst (resolve_state_dir E (ds_state_dir args))) = Some t \<longrightarrow>
        plain_value t \<and> env_path E t = fst (resolve_state_dir E (ds_state_dir args)))"

definition resolved :: "LaunchEnv \<Rightarrow> DaemonStartArgs \<Rightarrow> DaemonStartArgs" where
  "resolved E args = args\<lparr>ds_state_dir := Some (fst (resolve_state_dir E (ds_state_dir args)))\<rparr>"

lemma plain_not_option: "plain_value v \<Longrightarrow> CHR ''-'' # w \<noteq> v"
  by (auto simp: plain_value_def)

lemma clap_start_laws:
  assumes "clap_start E addr parse" "starts parse argv a"
  shows "''--pipe'' \<notin> set argv \<Longrightarrow> plain_value v \<Longrightarrow> starts parse (argv @ [''--pipe'', v]) (a\<lparr>ds_pipe := v\<rparr>)"
    "''--tcp-listen'' \<notin> set argv \<Longrightarrow> plain_value v \<Longrightarrow> addr v \<Longrightarrow> starts parse (argv @ [''--tcp-listen'', v]) (a\<lparr>ds_tcp_listen := Some v\<rparr>)"
    "''--verbose'' \<notin> set argv \<Longrightarrow> starts parse (argv @ [''--verbose'']) (a\<lparr>ds_verbose := True\<rparr>)"
    "''--otlp-endpoint'' \<notin> set argv \<Longrightarrow> plain_value v \<Longrightarrow> starts parse (argv @ [''--otlp-endpoint'', v]) (a\<lparr>ds_otlp_endpoint := Some v\<rparr>)"
    "''--state-dir'' \<notin> set argv \<Longrightarrow> plain_value v \<Longrightarrow> starts parse (argv @ [''--state-dir'', v]) (a\<lparr>ds_state_dir := Some (env_path E v)\<rparr>)"
  using assms unfolding clap_start_def by blast+

lemma launch_args_parse:
  assumes "clap_start E addr parse" "launchable E addr args" "build_launch_args E args = Inr v"
  shows "starts parse (''hitz'' # v) (resolved E args)"
proof -
  obtain t where t: "env_path_str E (fst (resolve_state_dir E (ds_state_dir args))) = Some t"
    and v: "v = [''daemon'', ''start'', ''--pipe'', ds_pipe args] @ opt_arg ''--tcp-listen'' (ds_tcp_listen args) @
      (if ds_verbose args then [''--verbose''] else []) @ opt_arg ''--otlp-endpoint'' (ds_otlp_endpoint args) @ [''--state-dir'', t]"
    using assms(3) by (auto simp: build_launch_args_def split: option.splits)
  have p: "plain_value (ds_pipe args)" "plain_value t" "env_path E t = fst (resolve_state_dir E (ds_state_dir args))"
    "\<And>x. ds_tcp_listen args = Some x \<Longrightarrow> plain_value x \<and> addr x" "\<And>x. ds_otlp_endpoint args = Some x \<Longrightarrow> plain_value x"
    using assms(2) t by (auto simp: launchable_def)
  note law = clap_start_laws [OF assms(1)]
  let ?v1 = "[''hitz'', ''daemon'', ''start'', ''--pipe'', ds_pipe args]"
  let ?v2 = "?v1 @ opt_arg ''--tcp-listen'' (ds_tcp_listen args)"
  let ?v3 = "?v2 @ (if ds_verbose args then [''--verbose''] else [])"
  let ?v4 = "?v3 @ opt_arg ''--otlp-endpoint'' (ds_otlp_endpoint args)"
  have 1: "starts parse ?v1 (start_defaults\<lparr>ds_pipe := ds_pipe args\<rparr>)"
    using law(1) [of "[''hitz'', ''daemon'', ''start'']" start_defaults] assms(1) p(1) by (simp add: clap_start_def)
  have 2: "starts parse ?v2 (start_defaults\<lparr>ds_pipe := ds_pipe args, ds_tcp_listen := ds_tcp_listen args\<rparr>)"
  proof (cases "ds_tcp_listen args")
    case None
    then show ?thesis using 1 by (simp add: opt_arg_def start_defaults_def)
  next
    case (Some x)
    then show ?thesis using law(2) [OF 1] p(4) plain_not_option [OF p(1)] by (simp add: opt_arg_def)
  qed
  have n2: "CHR ''-'' # w \<notin> set ?v2" if "w \<noteq> ''-pipe''" "w \<noteq> ''-tcp-listen''" for w
    using that p(1,4) by (cases "ds_tcp_listen args") (auto simp: opt_arg_def plain_not_option)
  have 3: "starts parse ?v3 (start_defaults\<lparr>ds_pipe := ds_pipe args, ds_tcp_listen := ds_tcp_listen args, ds_verbose := ds_verbose args\<rparr>)"
  proof (cases "ds_verbose args")
    case True
    then show ?thesis using law(3) [OF 2] n2 [of "''-verbose''"] by simp
  qed (use 2 in \<open>simp add: start_defaults_def\<close>)
  have n3: "CHR ''-'' # w \<notin> set ?v3" if "w \<noteq> ''-pipe''" "w \<noteq> ''-tcp-listen''" "w \<noteq> ''-verbose''" for w
    using n2 [OF that(1,2)] that(3) by auto
  have 4: "starts parse ?v4 (start_defaults\<lparr>ds_pipe := ds_pipe args, ds_tcp_listen := ds_tcp_listen args, ds_verbose := ds_verbose args,
      ds_otlp_endpoint := ds_otlp_endpoint args\<rparr>)"
  proof (cases "ds_otlp_endpoint args")
    case None
    then show ?thesis using 3 by (simp add: opt_arg_def start_defaults_def)
  next
    case (Some x)
    then show ?thesis using law(4) [OF 3] p(5) n3 [of "''-otlp-endpoint''"] by (simp add: opt_arg_def)
  qed
  have "''--state-dir'' \<notin> set ?v4" using n3 [of "''-state-dir''"] p(5)
    by (cases "ds_otlp_endpoint args") (auto simp: opt_arg_def plain_not_option)
  moreover have "resolved E args = start_defaults\<lparr>ds_pipe := ds_pipe args, ds_tcp_listen := ds_tcp_listen args, ds_verbose := ds_verbose args,
      ds_otlp_endpoint := ds_otlp_endpoint args, ds_state_dir := Some (env_path E t)\<rparr>"
    using p(3) by (cases args) (simp add: resolved_def start_defaults_def)
  ultimately have "starts parse (?v4 @ [''--state-dir'', t]) (resolved E args)" using law(5) [OF 4 _ p(2)] by simp
  then show ?thesis by (simp add: v)
qed

section \<open>Properties\<close>

definition milestones :: "LaunchAct list \<Rightarrow> LaunchAct list" where
  "milestones = filter (\<lambda>a. case a of Report _ \<Rightarrow> True | RunBody _ \<Rightarrow> True | _ \<Rightarrow> False)"

lemma milestones_simps [simp]:
  "milestones [] = []" "milestones (xs @ ys) = milestones xs @ milestones ys" "milestones (map Telemetry ts) = []" "milestones (map Eprintln ls) = []"
  "milestones (Report st # xs) = Report st # milestones xs" "milestones (RunBody a # xs) = RunBody a # milestones xs"
  "milestones (InitTracing l # xs) = milestones xs" "milestones (RuntimeUp # xs) = milestones xs" "milestones (RuntimeDown # xs) = milestones xs"
  by (simp_all add: milestones_def filter_empty_conv)

lemma run_with_telemetry_ok:
  assumes "lh_runtime L = None"
    and "telemetry_init (lh_span L False) (lh_metric L False) (resolve_otlp_endpoint (lh_env L) (ds_otlp_endpoint args)) \<noteq> Panic"
  shows "milestones (fst (run_with_telemetry L ctx banner args)) = [RunBody args] \<and> snd (run_with_telemetry L ctx banner args) = to_outcome (lh_inner L args)"
proof -
  obtain acts g where "telemetry_init (lh_span L False) (lh_metric L False) (resolve_otlp_endpoint (lh_env L) (ds_otlp_endpoint args)) = Ok (acts, g)"
    using assms(2) by (auto simp: telemetry_init_def split: option.splits outcome.splits)
  then show ?thesis using assms(1) by (simp add: run_with_telemetry_def Let_def)
qed


text \<open>
  The service manager passes to the service function the name of the service and the arguments of the
  start request, not the words of the command line. Started without arguments, the service finds
  nothing to parse, and the last state it reports is that it is starting.
\<close>

lemma service_started_plainly:
  assumes "lh_register L = None" "\<forall>st. lh_report L st = None" "lh_parse L [''hitz''] = Inl e"
  shows "\<exists>line. service_main L [SERVICE_NAME] = ([Report StartPending, Eprintln line], Ok ())"
  using assms by (simp add: service_main_def run_service_def report_def service_argv_def daemon_args_start_def SERVICE_NAME_def)

lemma service_without_arguments: "lh_register L = None \<Longrightarrow> lh_report L StartPending = None \<Longrightarrow> snd (run_service L []) = Panic"
  by (simp add: run_service_def report_def service_argv_def daemon_args_start_def)

text \<open>An exporter that needs a runtime around it is built before there is one.\<close>

lemma telemetry_needs_runtime:
  assumes "mh_launch M = L" "lh_dispatch L = NotAService" "resolve_otlp_endpoint (lh_env L) (ds_otlp_endpoint args) = Some ep" "lh_span L False ep = Panic"
  shows "main M (CommandDaemon (DaemonStart args)) s = Some ([], 101)"
  using assms by (simp add: main_def main_exit_def run_daemon_def run_with_telemetry_def telemetry_init_def)

lemma remove_undoes_install:
  assumes "install_service E exe args scm = (scm', out, Inr ())" "scm_delete scm = None"
  shows "\<exists>out'. remove_service scm' = (scm, out', Inr ())"
proof -
  have n: "AList.delete k xs = xs" if "map_of xs k = None" for k and xs :: "(string \<times> ServiceInfo) list"
    using that by (induction xs) (auto split: if_splits)
  show ?thesis
    using assms
    by (auto simp: install_service_def remove_service_def scm_add_def n Let_def split: sum.splits option.splits if_splits)
qed

text \<open>When only the description is refused, the error is reported and the service stays registered.\<close>

lemma install_leaves_service:
  assumes "install_service E exe args scm = (scm', out, Inl e)" "scm' \<noteq> scm"
  shows "map_of (scm_services scm') SERVICE_NAME \<noteq> None"
  using assms by (auto simp: install_service_def scm_add_def Let_def split: sum.splits option.splits if_splits)

text \<open>The exit code of a standalone run is 0 exactly when the guest halted or was stopped.\<close>

lemma run_exit_code:
  "main M (CommandRun args) s = Some (err, 0) \<longleftrightarrow>
     err = [] \<and> mh_whp M = None \<and> mh_handler M = None \<and> (\<exists>r. mh_boot M (run_config args) = Ok r \<and> (r = Halt \<or> r = Canceled))"
  by (auto simp: main_def main_exit_def run_vm_def Let_def split: option.splits outcome.splits)


section \<open>An example\<close>

fun demo_opts :: "DaemonStartArgs \<Rightarrow> string list \<Rightarrow> DaemonStartArgs option" where
  "demo_opts a [] = Some a"
| "demo_opts a [x] = (if x = ''--verbose'' then Some (a\<lparr>ds_verbose := True\<rparr>) else None)"
| "demo_opts a (x # v # rest) =
     (if x = ''--verbose'' then demo_opts (a\<lparr>ds_verbose := True\<rparr>) (v # rest)
      else if \<not> plain_value v then None
      else if x = ''--pipe'' then demo_opts (a\<lparr>ds_pipe := v\<rparr>) rest
      else if x = ''--tcp-listen'' then demo_opts (a\<lparr>ds_tcp_listen := Some v\<rparr>) rest
      else if x = ''--otlp-endpoint'' then demo_opts (a\<lparr>ds_otlp_endpoint := Some v\<rparr>) rest
      else if x = ''--state-dir'' then demo_opts (a\<lparr>ds_state_dir := Some \<lparr>path_components = [Normal v], path_display = v\<rparr>\<rparr>) rest
      else None)"

definition demo_clap :: "string list \<Rightarrow> string + Command" where
  "demo_clap argv =
     (if take 3 argv = [''hitz'', ''daemon'', ''start''] then
        case demo_opts start_defaults (drop 3 argv) of None \<Rightarrow> Inl ''unexpected argument'' | Some a \<Rightarrow> Inr (CommandDaemon (DaemonStart a))
      else Inl ''unrecognized subcommand'')"

lemma demo_opts_append: "demo_opts a xs = Some a' \<Longrightarrow> demo_opts a (xs @ ys) = demo_opts a' ys"
proof (induction a xs rule: demo_opts.induct)
  case (2 a x)
  then show ?case by (cases ys) (auto split: if_splits)
qed (auto split: if_splits)

lemma demo_starts: "starts demo_clap argv a \<longleftrightarrow> (\<exists>xs. argv = [''hitz'', ''daemon'', ''start''] @ xs \<and> demo_opts start_defaults xs = Some a)"
proof
  assume s: "starts demo_clap argv a"
  then have "take 3 argv = [''hitz'', ''daemon'', ''start'']" "demo_opts start_defaults (drop 3 argv) = Some a"
    by (auto simp: starts_def demo_clap_def split: if_splits option.splits)
  then show "\<exists>xs. argv = [''hitz'', ''daemon'', ''start''] @ xs \<and> demo_opts start_defaults xs = Some a"
    by (metis append_take_drop_id)
qed (auto simp: starts_def demo_clap_def)

definition demo_env :: LaunchEnv where
  "demo_env = \<lparr>env_var = (\<lambda>_. None), env_path = (\<lambda>t. \<lparr>path_components = [Normal t], path_display = t\<rparr>), env_path_str = (\<lambda>p. Some (path_display p))\<rparr>"

lemma demo_clap_start: "clap_start demo_env (\<lambda>_. True) demo_clap"
  unfolding clap_start_def demo_starts by (auto simp: demo_opts_append demo_env_def)

definition demo_launch :: LaunchHost where
  "demo_launch = \<lparr>lh_env = demo_env, lh_span = (\<lambda>rt ep. if rt then Ok () else Panic), lh_metric = (\<lambda>rt ep. if rt then Ok () else Panic),
     lh_shut_meter = (\<lambda>ep. Inr ()), lh_shut_tracer = (\<lambda>ep. Inr ()), lh_runtime = None, lh_inner = (\<lambda>a. Inl ''WHP not available''),
     lh_parse = demo_clap, lh_register = None, lh_report = (\<lambda>st. None), lh_dispatch = NotAService\<rparr>"

definition demo_start :: DaemonStartArgs where
  "demo_start = start_defaults\<lparr>ds_tcp_listen := Some ''127.0.0.1:8080'', ds_verbose := True\<rparr>"


end
