(* ===== verification/Vsock_Server.thy ===== *)
theory Vsock_Server
  imports Virtio_Vsock
begin

text \<open>
  The host end of the metrics connection (\<open>hitz-daemon/src/vsock_server.rs\<close>): packets from the guest are
  answered, and the snapshots in data packets are published. The MessagePack decoder is a parameter;
  publishing is recorded as the list of snapshots. The channel to the device is unbounded, so a send
  fails only when the device is gone, and its result is ignored.
\<close>

definition VSOCK_METRICS_PORT :: u32 where
  "VSOCK_METRICS_PORT = 52355"

record 'snap MetricsTask =
  mt_fwd_cnt :: u32
  mt_sent :: "VsockPacket list"
  mt_published :: "'snap list"

definition metrics_snapshot :: "(bytes \<Rightarrow> 'snap option) \<Rightarrow> bytes \<Rightarrow> 'snap option" where
  "metrics_snapshot decode payload =
     Option.bind (get_range payload 0 4) (\<lambda>len_bytes.
     let len = unat (of_le_bytes len_bytes :: u32) in
     Option.bind (get_range payload 4 (4 + len)) decode)"

definition mt_send :: "'snap MetricsTask \<Rightarrow> VsockPacket \<Rightarrow> 'snap MetricsTask" where
  "mt_send t p = t\<lparr>mt_sent := mt_sent t @ [p]\<rparr>"

definition handle_packet :: "(bytes \<Rightarrow> 'snap option) \<Rightarrow> 'snap MetricsTask \<Rightarrow> VsockPacket \<Rightarrow> 'snap MetricsTask" where
  "handle_packet decode t p =
     (case p of (hdr, payload) \<Rightarrow>
        (case vsock_op_from_u16 (vh_op hdr) of
           Some OpRequest \<Rightarrow> mt_send t (make_response hdr OpResponse 0, [])
         | Some OpRw \<Rightarrow>
             if vh_dst_port hdr = VSOCK_METRICS_PORT then
               let t = (case metrics_snapshot decode payload of None \<Rightarrow> t | Some s \<Rightarrow> t\<lparr>mt_published := mt_published t @ [s]\<rparr>);
                   t = t\<lparr>mt_fwd_cnt := saturating_add (mt_fwd_cnt t) (vh_len hdr)\<rparr>;
                   credit = (make_response hdr OpCreditUpdate 0)\<lparr>vh_fwd_cnt := mt_fwd_cnt t, vh_buf_alloc := vsock_buf_alloc\<rparr>
               in mt_send t (credit, [])
             else t
         | Some OpShutdown \<Rightarrow> mt_send t (make_response hdr OpRst 0, [])
         | Some OpRst \<Rightarrow> mt_send t (make_response hdr OpRst 0, [])
         | _ \<Rightarrow> t))"

text \<open>The task handles the packets it receives in order, until the channel closes or the daemon stops.\<close>

definition metrics_start :: "'snap MetricsTask" where
  "metrics_start = \<lparr>mt_fwd_cnt = 0, mt_sent = [], mt_published = []\<rparr>"

definition run_metrics_task :: "(bytes \<Rightarrow> 'snap option) \<Rightarrow> VsockPacket list \<Rightarrow> 'snap MetricsTask" where
  "run_metrics_task decode ps = foldl (handle_packet decode) metrics_start ps"

section \<open>Framing and credit\<close>

text \<open>A snapshot framed by its length is found, whatever follows it.\<close>

lemma metrics_snapshot_framed:
  assumes "length bs < 2 ^ 32"
  shows "metrics_snapshot decode (le_bytes 4 (of_nat (length bs) :: u32) @ bs @ rest) = decode bs"
proof -
  have "unat (of_nat (length bs) :: u32) = length bs" using assms by (intro unat_of_nat_eq) simp
  then show ?thesis by (simp add: metrics_snapshot_def get_range_def of_le_bytes_le_bytes)
qed

definition metrics_data :: "VsockPacket \<Rightarrow> bool" where
  "metrics_data p \<longleftrightarrow> vh_op (fst p) = vsock_op_as_u16 OpRw \<and> vh_dst_port (fst p) = VSOCK_METRICS_PORT"

lemma handle_metrics_data:
  assumes "metrics_data p"
  shows "mt_fwd_cnt (handle_packet decode t p) = saturating_add (mt_fwd_cnt t) (vh_len (fst p))"
    "mt_published (handle_packet decode t p) = mt_published t @ (case metrics_snapshot decode (snd p) of None \<Rightarrow> [] | Some s \<Rightarrow> [s])"
    "length (mt_sent (handle_packet decode t p)) = Suc (length (mt_sent t))"
  using assms
  by (cases p; simp add: metrics_data_def handle_packet_def vsock_op_from_u16_def mt_send_def Let_def split: option.split)+

text \<open>
  Every data packet is answered and its snapshot published in order. The credit counter is the number
  of bytes received up to \<open>2\<^sup>3\<^sup>2 - 1\<close>, where it stays; the protocol's counter wraps around.
\<close>

lemma metrics_task_credit:
  "list_all metrics_data ps \<Longrightarrow>
   unat (mt_fwd_cnt (foldl (handle_packet decode) t ps)) = min (unat (mt_fwd_cnt t) + sum_list (map (unat \<circ> vh_len \<circ> fst) ps)) (2 ^ 32 - 1)"
proof (induction ps arbitrary: t)
  case Nil
  then show ?case using unat_u32_less [of "mt_fwd_cnt t"] by simp
next
  case (Cons p ps)
  have u: "unat (saturating_add a b) = min (unat a + unat b) 4294967295" for a b :: u32 by (simp add: saturating_add_unat)
  show ?case using Cons.IH [of "handle_packet decode t p"] Cons.prems by (auto simp: handle_metrics_data u)
qed

lemma metrics_task_data:
  "list_all metrics_data ps \<Longrightarrow>
   mt_published (foldl (handle_packet decode) t ps) = mt_published t @ List.map_filter (metrics_snapshot decode \<circ> snd) ps \<and>
   length (mt_sent (foldl (handle_packet decode) t ps)) = length (mt_sent t) + length ps"
  by (induction ps arbitrary: t) (auto simp: handle_metrics_data split: option.split)

end
