(* ===== verification/Guest_Agent.thy ===== *)
theory Guest_Agent
  imports Metrics Rust_Text Vsock_Server "HOL-Library.Multiset"
begin

text \<open>
  The agent inside the guest (\<open>hitz-guest-agent\<close>): the parsers of the \<open>/proc\<close> files (\<open>proc.rs\<close>), the collection
  of a snapshot and its transmission (\<open>main.rs\<close>). Texts are ASCII. The \<open>/proc\<close> files, the clock and the
  MessagePack encoder are parameters.
\<close>

section \<open>CPU\<close>

record CpuSample =
  cs_user :: u64
  cs_nice :: u64
  cs_system :: u64
  cs_idle :: u64
  cs_iowait :: u64
  cs_irq :: u64
  cs_softirq :: u64

definition cpu_active :: "CpuSample \<Rightarrow> u64" where
  "cpu_active c = saturating_add (saturating_add (saturating_add (saturating_add (cs_user c) (cs_nice c)) (cs_system c)) (cs_irq c)) (cs_softirq c)"

definition cpu_total :: "CpuSample \<Rightarrow> u64" where
  "cpu_total c = saturating_add (saturating_add (cpu_active c) (cs_idle c)) (cs_iowait c)"

definition cpu_pct :: "CpuSample \<Rightarrow> CpuSample \<Rightarrow> fl" where
  "cpu_pct prev cur =
     (let total_delta = saturating_sub (cpu_total cur) (cpu_total prev) in
      if total_delta = 0 then Fin 0
      else let active_delta = saturating_sub (cpu_active cur) (cpu_active prev) in
        fl_mul f32 (fl_div f32 (fl_of_u64 f32 active_delta) (fl_of_u64 f32 total_delta)) (Fin 100))"

definition cpu_sample :: "string \<Rightarrow> CpuSample" where
  "cpu_sample line =
     (let nums = map (\<lambda>s. unwrap_or (parse_u64 s) 0) (drop 1 (words_of line)); n = (\<lambda>i. unwrap_or (get_nth nums i) 0) in
      \<lparr>cs_user = n 0, cs_nice = n 1, cs_system = n 2, cs_idle = n 3, cs_iowait = n 4, cs_irq = n 5, cs_softirq = n 6\<rparr>)"

definition parse_proc_stat_sample :: "string \<Rightarrow> CpuSample list" where
  "parse_proc_stat_sample content = map cpu_sample (filter (\<lambda>l. take 3 l = ''cpu'') (lines content))"

section \<open>Memory\<close>

record MemInfo =
  mi_total :: u64
  mi_free :: u64
  mi_buffers :: u64
  mi_cached :: u64
  mi_swap_total :: u64
  mi_swap_free :: u64

definition mem_info_zero :: MemInfo where
  "mem_info_zero = \<lparr>mi_total = 0, mi_free = 0, mi_buffers = 0, mi_cached = 0, mi_swap_total = 0, mi_swap_free = 0\<rparr>"

definition mem_info_set :: "string \<Rightarrow> u64 \<Rightarrow> MemInfo \<Rightarrow> MemInfo" where
  "mem_info_set key v i =
     (if key = ''MemTotal:'' then i\<lparr>mi_total := v\<rparr>
      else if key = ''MemFree:'' then i\<lparr>mi_free := v\<rparr>
      else if key = ''Buffers:'' then i\<lparr>mi_buffers := v\<rparr>
      else if key = ''Cached:'' then i\<lparr>mi_cached := v\<rparr>
      else if key = ''SwapTotal:'' then i\<lparr>mi_swap_total := v\<rparr>
      else if key = ''SwapFree:'' then i\<lparr>mi_swap_free := v\<rparr> else i)"

definition mem_info_line :: "MemInfo \<Rightarrow> string \<Rightarrow> MemInfo" where
  "mem_info_line i line =
     (case words_of line of
        key # val_str # _ \<Rightarrow>
          (case parse_u64 val_str of None \<Rightarrow> i | Some v \<Rightarrow> mem_info_set key (saturating_mul v 1024) i)
      | _ \<Rightarrow> i)"

definition memory_metrics :: "MemInfo \<Rightarrow> MemoryMetrics" where
  "memory_metrics i = \<lparr>mm_total_bytes = mi_total i,
     mm_used_bytes = saturating_sub (mi_total i) (saturating_add (saturating_add (mi_free i) (mi_buffers i)) (mi_cached i)),
     mm_free_bytes = mi_free i, mm_buffers_bytes = mi_buffers i, mm_cached_bytes = mi_cached i,
     mm_swap_total = mi_swap_total i, mm_swap_used = saturating_sub (mi_swap_total i) (mi_swap_free i)\<rparr>"

definition parse_proc_meminfo :: "string \<Rightarrow> MemoryMetrics option" where
  "parse_proc_meminfo content =
     (let i = foldl mem_info_line mem_info_zero (lines content) in if mi_total i = 0 then None else Some (memory_metrics i))"

section \<open>Disks and networks\<close>

definition disk_line :: "string \<Rightarrow> DiskMetrics option" where
  "disk_line line =
     (let cols = words_of line; num = (\<lambda>i. Option.bind (get_nth cols i) parse_u64) in
      Option.bind (get_nth cols 2) (\<lambda>name. Option.bind (num 3) (\<lambda>reads. Option.bind (get_nth cols 4) (\<lambda>_.
      Option.bind (num 5) (\<lambda>read_sec. Option.bind (get_nth cols 6) (\<lambda>_. Option.bind (num 7) (\<lambda>writes.
      Option.bind (get_nth cols 8) (\<lambda>_. Option.bind (num 9) (\<lambda>write_sec.
        Some \<lparr>dm_name = name, dm_read_bytes = saturating_mul read_sec 512, dm_write_bytes = saturating_mul write_sec 512,
          dm_reads_total = reads, dm_writes_total = writes\<rparr>)))))))))"

definition parse_proc_diskstats :: "string \<Rightarrow> DiskMetrics list" where
  "parse_proc_diskstats content = List.map_filter disk_line (lines content)"

definition net_line :: "string \<Rightarrow> NetMetrics option" where
  "net_line line =
     Option.bind (split_once (CHR '':'') line) (\<lambda>(iface, stats).
     let iface = trim iface in
     if iface = ''lo'' then None
     else let cols = map (\<lambda>s. unwrap_or (parse_u64 s) 0) (words_of stats); n = (\<lambda>i. unwrap_or (get_nth cols i) 0) in
       Some \<lparr>nm_interface = iface, nm_rx_bytes = n 0, nm_tx_bytes = n 8, nm_rx_packets = n 1, nm_tx_packets = n 9,
         nm_rx_errors = n 2, nm_tx_errors = n 10\<rparr>)"

definition parse_proc_net_dev :: "string \<Rightarrow> NetMetrics list" where
  "parse_proc_net_dev content = List.map_filter net_line (drop 2 (lines content))"

section \<open>Processes\<close>

text \<open>The result of one process: \<open>Panic\<close> where the unchecked sum or product overflows, \<open>Err ()\<close> for the early
  returns.\<close>

definition read_uptime_secs :: "string option \<Rightarrow> fl" where
  "read_uptime_secs uptime = unwrap_or (Option.bind uptime (\<lambda>s. Option.bind (get_nth (words_of s) 0) (parse_fl f64))) (Fin 1)"

definition uptime_ticks_of :: "string option \<Rightarrow> u64" where
  "uptime_ticks_of uptime = fl_to_word (fl_mul f64 (read_uptime_secs uptime) (Fin 100))"

definition lifetime_pct :: "u64 \<Rightarrow> u64 \<Rightarrow> fl" where
  "lifetime_pct ticks uptime_ticks =
     fl_cast f32 (fl_clamp (fl_mul f64 (fl_div f64 (fl_of_u64 f64 ticks) (fl_of_u64 f64 uptime_ticks)) (Fin 100)) (Fin 0) (Fin 100))"

definition parse_proc_pid_stat :: "string option \<Rightarrow> u32 \<Rightarrow> string \<Rightarrow> (unit, ProcMetrics) outcome" where
  "parse_proc_pid_stat uptime pid content =
     outcome_bind (ok_or (index_of (CHR ''('') content) ()) (\<lambda>opn.
     outcome_bind (ok_or (last_index_of (CHR '')'') content) ()) (\<lambda>close.
     outcome_bind (ok_or (get_range content (opn + 1) close) ()) (\<lambda>name.
     outcome_bind (ok_or (get_range content (close + 2) (length content)) ()) (\<lambda>remaining.
     let it = words_of remaining; num = (\<lambda>i. ok_or (Option.bind (get_nth it i) parse_u64) ()) in
     outcome_bind (ok_or (get_nth it 0) ()) (\<lambda>state_word.
     let st = (case state_word of [] \<Rightarrow> CHR ''?'' | c # _ \<Rightarrow> c) in
     outcome_bind (num 11) (\<lambda>utime. outcome_bind (num 12) (\<lambda>stime. outcome_bind (num 21) (\<lambda>rss_pages.
     let uptime_ticks = uptime_ticks_of uptime in
     outcome_bind (if uptime_ticks = 0 then Ok (Fin 0)
                   else outcome_bind (add_checked_panic utime stime) (\<lambda>ticks. Ok (lifetime_pct ticks uptime_ticks))) (\<lambda>pct.
     case checked_mul rss_pages 4096 of
       None \<Rightarrow> Panic
     | Some rss \<Rightarrow> Ok \<lparr>pm_pid = pid, pm_name = name, pm_cpu_pct = pct, pm_rss_bytes = rss, pm_state = st\<rparr>)))))))))"

text \<open>A stable sort, busiest first; the loop over the directory skips what it cannot parse. An entry of the directory is
  its name with the contents of its \<open>stat\<close> file and what \<open>/proc/uptime\<close> says when that process is parsed.\<close>

type_synonym ProcEntry = "string \<times> string option \<times> string option"

fun insert_proc :: "ProcMetrics \<Rightarrow> ProcMetrics list \<Rightarrow> ProcMetrics list" where
  "insert_proc p [] = [p]"
| "insert_proc p (q # qs) = (if fl_less (pm_cpu_pct p) (pm_cpu_pct q) then q # insert_proc p qs else p # q # qs)"

definition sort_procs :: "ProcMetrics list \<Rightarrow> ProcMetrics list" where
  "sort_procs ps = foldr insert_proc ps []"

fun collect_procs :: "ProcEntry list \<Rightarrow> ProcMetrics list option" where
  "collect_procs [] = Some []"
| "collect_procs ((name, stat, uptime) # es) =
     (case parse_u32 name of
        None \<Rightarrow> collect_procs es
      | Some pid \<Rightarrow>
          (case stat of
             None \<Rightarrow> collect_procs es
           | Some content \<Rightarrow>
               (case parse_proc_pid_stat uptime pid content of
                  Panic \<Rightarrow> None
                | Err _ \<Rightarrow> collect_procs es
                | Ok p \<Rightarrow> map_option ((#) p) (collect_procs es))))"

definition collect_top_procs :: "ProcEntry list \<Rightarrow> nat \<Rightarrow> ProcMetrics list option" where
  "collect_top_procs entries n = map_option (\<lambda>ps. take n (sort_procs ps)) (collect_procs entries)"

section \<open>Snapshots\<close>

text \<open>The host view of the guest's \<open>/proc\<close>: the two readings of \<open>stat\<close>, the other files, the process directory.\<close>

record ProcFs =
  pf_stat1 :: string
  pf_stat2 :: string
  pf_loadavg :: string
  pf_meminfo :: string
  pf_diskstats :: string
  pf_net_dev :: string
  pf_entries :: "ProcEntry list"
  pf_now_ms :: u64

definition TOP_N_PROCS :: nat where
  "TOP_N_PROCS = 10"

definition parse_load_avg :: "string \<Rightarrow> fl list" where
  "parse_load_avg content =
     (let parts = words_of content in map (\<lambda>i. unwrap_or (Option.bind (get_nth parts i) (parse_fl f32)) (Fin 0)) [0, 1, 2])"

definition collect_snapshot :: "ProcFs \<Rightarrow> MetricsSnapshot option" where
  "collect_snapshot fs =
     (let sample1 = parse_proc_stat_sample (pf_stat1 fs); sample2 = parse_proc_stat_sample (pf_stat2 fs);
          total_pct = (case (sample1, sample2) of (a # _, b # _) \<Rightarrow> cpu_pct a b | _ \<Rightarrow> Fin 0);
          per_core = map (\<lambda>(a, b). cpu_pct a b) (zip (drop 1 sample1) (drop 1 sample2));
          memory = unwrap_or (parse_proc_meminfo (pf_meminfo fs)) (memory_metrics mem_info_zero) in
      map_option (\<lambda>processes.
        \<lparr>ms_timestamp_ms = pf_now_ms fs,
         ms_cpu = \<lparr>cm_total_pct = total_pct, cm_per_core = per_core, cm_load_avg = parse_load_avg (pf_loadavg fs)\<rparr>,
         ms_memory = memory, ms_disks = parse_proc_diskstats (pf_diskstats fs), ms_networks = parse_proc_net_dev (pf_net_dev fs),
         ms_processes = processes\<rparr>)
      (collect_top_procs (pf_entries fs) TOP_N_PROCS))"

text \<open>The two writes of a snapshot to the stream.\<close>

definition send_snapshot :: "('snap \<Rightarrow> bytes option) \<Rightarrow> 'snap \<Rightarrow> bytes list option" where
  "send_snapshot encode snap =
     map_option (\<lambda>encoded. let len = (if length encoded < 2 ^ 32 then of_nat (length encoded) else - 1 :: u32) in [le_bytes 4 len, encoded])
       (encode snap)"

section \<open>CPU percentages\<close>

text \<open>Sums that do not reach the top of the type are exact.\<close>

definition ticks_ok :: "CpuSample \<Rightarrow> bool" where
  "ticks_ok c \<longleftrightarrow> unat (cs_user c) + unat (cs_nice c) + unat (cs_system c) + unat (cs_irq c) + unat (cs_softirq c)
     + unat (cs_idle c) + unat (cs_iowait c) < 2 ^ 64"

lemma ticks_exact:
  assumes "ticks_ok c"
  shows "unat (cpu_total c) = unat (cpu_active c) + (unat (cs_idle c) + unat (cs_iowait c))"
  using assms by (simp add: ticks_ok_def cpu_total_def cpu_active_def saturating_add_unat)

lemma rnd_u64_f32: "0 \<le> rnd f32 (u64_val x)" "rnd f32 (u64_val x) \<le> 2 ^ 64" "x \<noteq> 0 \<Longrightarrow> 1 \<le> rnd f32 (u64_val x)"
  "fl_of_u64 f32 x = Fin (rnd f32 (u64_val x))"
proof -
  have "rnd f32 (2 ^ 64) = 2 ^ 64" using rnd_pow2 [of f32 64] by (simp add: pow2_def f32_def)
  then show "rnd f32 (u64_val x) \<le> 2 ^ 64" using rnd_mono [of "u64_val x" "2 ^ 64" f32] u64_val_facts(2) [of x] by simp
  show "0 \<le> rnd f32 (u64_val x)" by (rule rnd_nonneg [OF u64_val_facts(1)])
  show "1 \<le> rnd f32 (u64_val x)" if "x \<noteq> 0" using rnd_mono [OF u64_val_facts(3) [OF that], of f32] by simp
  show "fl_of_u64 f32 x = Fin (rnd f32 (u64_val x))" using u64_val_facts [of x] by (simp add: fl_of_u64_def)
qed

text \<open>The quotient of two counters as a percentage is finite, and at most 100 when the first is not larger.\<close>

lemma ratio_pct_f32:
  assumes "t \<noteq> 0"
  obtains q where "fl_mul f32 (fl_div f32 (fl_of_u64 f32 a) (fl_of_u64 f32 t)) (Fin 100) = Fin q" "0 \<le> q" "a \<le> t \<Longrightarrow> q \<le> 100"
proof
  let ?a = "rnd f32 (u64_val a)" and ?t = "rnd f32 (u64_val t)"
  note a = rnd_u64_f32 [of a] and t = rnd_u64_f32 [of t]
  have q0: "0 \<le> ?a / ?t" using a t by simp
  have "?a / ?t \<le> 2 ^ 64 / 1" using a t(3) [OF assms] by (intro frac_le) simp_all
  then have q: "?a / ?t \<le> 2 ^ 64" by simp
  have p: "rnd f32 (2 ^ 64) = 2 ^ 64" using rnd_pow2 [of f32 64] by (simp add: pow2_def f32_def)
  have r: "0 \<le> rnd f32 (?a / ?t)" "rnd f32 (?a / ?t) \<le> 2 ^ 64"
    using rnd_nonneg [OF q0] rnd_mono [OF q, of f32] p by simp_all
  have "fl_div f32 (Fin ?a) (Fin ?t) = Fin (rnd f32 (?a / ?t))" using q q0 t(3) [OF assms] by auto
  then show "fl_mul f32 (fl_div f32 (fl_of_u64 f32 a) (fl_of_u64 f32 t)) (Fin 100) = Fin (rnd f32 (rnd f32 (?a / ?t) * 100))"
    using r by (simp add: a(4) t(4))
  show "0 \<le> rnd f32 (rnd f32 (?a / ?t) * 100)" using r(1) by (simp add: rnd_nonneg)
  show "rnd f32 (rnd f32 (?a / ?t) * 100) \<le> 100" if "a \<le> t"
  proof -
    have "?a \<le> ?t" by (rule rnd_mono [OF u64_val_facts(4) [OF that]]) simp
    then have "?a / ?t \<le> 1" using t(3) [OF assms] by simp
    then have "rnd f32 (?a / ?t) \<le> 1" using rnd_mono [of "?a / ?t" 1 f32] by simp
    then have "rnd f32 (rnd f32 (?a / ?t) * 100) \<le> rnd f32 100" by (intro rnd_mono) simp_all
    then show ?thesis by simp
  qed
qed

text \<open>The CPU load computed from two readings of \<open>/proc/stat\<close> is always a finite number that is not negative,
  and at most 100 when no counter sum saturates and the idle time does not run backwards between them.\<close>

theorem cpu_pct_bounded:
  "\<exists>q. cpu_pct prev cur = Fin q \<and> 0 \<le> q \<and>
     (ticks_ok prev \<and> ticks_ok cur \<and> unat (cs_idle prev) + unat (cs_iowait prev) \<le> unat (cs_idle cur) + unat (cs_iowait cur) \<longrightarrow> q \<le> 100)"
proof (cases "saturating_sub (cpu_total cur) (cpu_total prev) = 0")
  case True
  then show ?thesis by (simp add: cpu_pct_def)
next
  case False
  let ?a = "saturating_sub (cpu_active cur) (cpu_active prev)" and ?t = "saturating_sub (cpu_total cur) (cpu_total prev)"
  obtain q where q: "cpu_pct prev cur = Fin q" "0 \<le> q" "?a \<le> ?t \<Longrightarrow> q \<le> 100"
    using ratio_pct_f32 [OF False, of ?a] False unfolding cpu_pct_def Let_def by (metis (full_types))
  have "?a \<le> ?t" if "ticks_ok prev" "ticks_ok cur" "unat (cs_idle prev) + unat (cs_iowait prev) \<le> unat (cs_idle cur) + unat (cs_iowait cur)"
    using that by (simp add: word_le_nat_alt unat_saturating_sub ticks_exact)
  with q show ?thesis by blast
qed

theorem cpu_pct_bounded_witness:
  "\<exists>q. cpu_pct \<lparr>cs_user = 1000, cs_nice = 0, cs_system = 200, cs_idle = 8800, cs_iowait = 0, cs_irq = 0, cs_softirq = 0\<rparr>
      \<lparr>cs_user = 1200, cs_nice = 0, cs_system = 250, cs_idle = 9550, cs_iowait = 0, cs_irq = 0, cs_softirq = 0\<rparr> = Fin q \<and> 0 \<le> q \<and> q \<le> 100"
  using cpu_pct_bounded [of "\<lparr>cs_user = 1000, cs_nice = 0, cs_system = 200, cs_idle = 8800, cs_iowait = 0, cs_irq = 0, cs_softirq = 0\<rparr>"
      "\<lparr>cs_user = 1200, cs_nice = 0, cs_system = 250, cs_idle = 9550, cs_iowait = 0, cs_irq = 0, cs_softirq = 0\<rparr>"]
  by (simp add: ticks_ok_def)

text \<open>The kernel documents that the waiting time may decrease; then the percentage is not bounded.\<close>

lemma cpu_pct_exceeds:
  "cpu_pct \<lparr>cs_user = 100, cs_nice = 0, cs_system = 0, cs_idle = 900, cs_iowait = 60, cs_irq = 0, cs_softirq = 0\<rparr>
     \<lparr>cs_user = 200, cs_nice = 0, cs_system = 0, cs_idle = 900, cs_iowait = 10, cs_irq = 0, cs_softirq = 0\<rparr> = Fin 200"
  by (simp add: cpu_pct_def cpu_total_def cpu_active_def saturating_add_def saturating_sub_def fl_of_u64_def u64_val_def checked_add_def)

section \<open>Reading what the kernel prints\<close>

text \<open>\<open>/proc/meminfo\<close> as the kernel prints it: a key that ends in a colon, blanks, the number of kibibytes, the unit.\<close>

type_synonym meminfo_entry = "string \<times> nat \<times> nat"

fun meminfo_line :: "meminfo_entry \<Rightarrow> string" where
  "meminfo_line (key, pad, v) = key @ replicate pad (CHR '' '') @ show_dec v @ '' kB''"

definition meminfo_text :: "meminfo_entry list \<Rightarrow> string" where
  "meminfo_text es = concat (map (\<lambda>e. meminfo_line e @ [CHR 0x0A]) es)"

fun meminfo_entry_ok :: "meminfo_entry \<Rightarrow> bool" where
  "meminfo_entry_ok (key, pad, v) \<longleftrightarrow> key \<noteq> [] \<and> list_all (\<lambda>c. \<not> is_space c) key \<and> 0 < pad \<and> v < 2 ^ 64"

text \<open>The value of a key: its last entry, in bytes, up to the largest representable number.\<close>

definition meminfo_value :: "meminfo_entry list \<Rightarrow> string \<Rightarrow> nat" where
  "meminfo_value es key =
     (case map_of (rev (map (\<lambda>(k, _, v). (k, v)) es)) key of None \<Rightarrow> 0 | Some v \<Rightarrow> min (v * 1024) (2 ^ 64 - 1))"

lemma meminfo_line_words:
  assumes "meminfo_entry_ok (key, pad, v)"
  shows "words_of (meminfo_line (key, pad, v)) = [key, show_dec v, ''kB'']"
proof -
  obtain n where p: "pad = Suc n" using assms by (cases pad) auto
  have "words_of (key @ CHR '' '' # replicate n (CHR '' '') @ show_dec v @ CHR '' '' # ''kB'') =
      key # words_of (replicate n (CHR '' '') @ show_dec v @ CHR '' '' # ''kB'')"
    using assms by (intro words_of_word) (auto simp: list_all_iff)
  also have "words_of (replicate n (CHR '' '') @ show_dec v @ CHR '' '' # ''kB'') = words_of (show_dec v @ CHR '' '' # ''kB'')"
    by (rule words_of_spaces) simp
  also have "\<dots> = show_dec v # words_of ''kB''"
    using show_dec_not_space by (intro words_of_word) (auto simp: show_dec_def)
  finally show ?thesis using p by (simp add: words_of_def)
qed

lemma meminfo_lines:
  assumes "\<forall>e\<in>set es. meminfo_entry_ok e"
  shows "lines (meminfo_text es) = map meminfo_line es"
proof -
  have n: "CHR 0x0A \<notin> set (meminfo_line e)" if "e \<in> set es" for e
    using bspec [OF assms that] show_dec_not_space [of "CHR 0x0A"] by (cases e) (auto simp: list_all_iff)
  have "strip_cr (meminfo_line e) = meminfo_line e" for e by (cases e) (simp add: strip_cr_def)
  then show ?thesis using lines_concat [of "map meminfo_line es"] n by (simp add: meminfo_text_def comp_def)
qed

definition mem_info_of :: "(string \<Rightarrow> nat) \<Rightarrow> MemInfo" where
  "mem_info_of f = \<lparr>mi_total = of_nat (f ''MemTotal:''), mi_free = of_nat (f ''MemFree:''), mi_buffers = of_nat (f ''Buffers:''),
     mi_cached = of_nat (f ''Cached:''), mi_swap_total = of_nat (f ''SwapTotal:''), mi_swap_free = of_nat (f ''SwapFree:'')\<rparr>"

lemma meminfo_value_bound: "meminfo_value es k < 2 ^ 64"
  by (auto simp: meminfo_value_def min_less_iff_disj split: option.split)

lemma meminfo_value_snoc:
  "meminfo_value (es @ [(key, pad, v)]) = (meminfo_value es)(key := min (v * 1024) (2 ^ 64 - 1))"
  by (simp add: meminfo_value_def fun_eq_iff)

lemma mem_info_line_step:
  assumes "meminfo_entry_ok (key, pad, v)"
  shows "mem_info_line (mem_info_of f) (meminfo_line (key, pad, v)) = mem_info_of (f(key := min (v * 1024) (2 ^ 64 - 1)))"
proof -
  have "unat (saturating_mul (of_nat v) (1024 :: u64)) = min (v * 1024) (2 ^ 64 - 1)"
    using assms by (simp add: unat_saturating_mul)
  then have "saturating_mul (of_nat v) (1024 :: u64) = of_nat (min (v * 1024) (2 ^ 64 - 1))"
    by (simp add: word_unat_eq_iff min_less_iff_disj)
  then show ?thesis unfolding mem_info_line_def meminfo_line_words [OF assms]
    using assms by (simp add: parse_u64_show mem_info_set_def mem_info_of_def)
qed

lemma mem_info_lines:
  "\<forall>e\<in>set es. meminfo_entry_ok e \<Longrightarrow> foldl mem_info_line mem_info_zero (map meminfo_line es) = mem_info_of (meminfo_value es)"
proof (induction es rule: rev_induct)
  case Nil
  then show ?case by (simp add: mem_info_zero_def mem_info_of_def meminfo_value_def)
next
  case (snoc e es)
  obtain key pad v where "e = (key, pad, v)" by (cases e)
  with snoc show ?case by (simp add: mem_info_line_step meminfo_value_snoc fun_upd_def del: meminfo_line.simps meminfo_entry_ok.simps)
qed

text \<open>From a \<open>/proc/meminfo\<close> as the kernel prints it, the agent reads the total, free, buffer, cache and swap sizes in bytes
  (the last line of a key counts, a missing key is zero, too large values saturate); the used memory is the total
  less free, buffers and cache, the used swap the total less the free one, neither below zero. It fails exactly when the total
  is missing or zero.\<close>

theorem meminfo_roundtrip:
  assumes "\<forall>e\<in>set es. meminfo_entry_ok e"
  shows "case parse_proc_meminfo (meminfo_text es) of
      None \<Rightarrow> meminfo_value es ''MemTotal:'' = 0
    | Some m \<Rightarrow> 0 < unat (mm_total_bytes m) \<and> unat (mm_total_bytes m) = meminfo_value es ''MemTotal:'' \<and>
        unat (mm_free_bytes m) = meminfo_value es ''MemFree:'' \<and> unat (mm_buffers_bytes m) = meminfo_value es ''Buffers:'' \<and>
        unat (mm_cached_bytes m) = meminfo_value es ''Cached:'' \<and> unat (mm_swap_total m) = meminfo_value es ''SwapTotal:'' \<and>
        unat (mm_used_bytes m) = meminfo_value es ''MemTotal:'' -
          (meminfo_value es ''MemFree:'' + meminfo_value es ''Buffers:'' + meminfo_value es ''Cached:'') \<and>
        unat (mm_swap_used m) = meminfo_value es ''SwapTotal:'' - meminfo_value es ''SwapFree:''"
proof -
  let ?v = "meminfo_value es"
  have u: "unat (of_nat (?v k) :: u64) = ?v k" for k using meminfo_value_bound [of es k] by simp
  have z: "of_nat (?v k) = (0 :: u64) \<longleftrightarrow> ?v k = 0" for k unfolding word_unat_eq_iff u by simp
  have m: "t - min (min (a + b) 18446744073709551615 + c) 18446744073709551615 = t - (a + b + c)"
    if "t < 18446744073709551616" for t a b c :: nat using that by (simp add: min_def)
  have "parse_proc_meminfo (meminfo_text es) =
      (if ?v ''MemTotal:'' = 0 then None else Some (memory_metrics (mem_info_of ?v)))"
    by (simp add: parse_proc_meminfo_def meminfo_lines [OF assms] mem_info_lines [OF assms]) (simp add: mem_info_of_def z)
  then show ?thesis using meminfo_value_bound [of es "''MemTotal:''"]
    by (simp add: memory_metrics_def mem_info_of_def u unat_saturating_sub saturating_add_unat m)
qed

theorem meminfo_roundtrip_witness:
  "parse_proc_meminfo (meminfo_text [(''MemTotal:'', 8, 262144), (''MemFree:'', 9, 131072), (''MemAvailable:'', 4, 150000), (''Cached:'', 11, 20480)])
     \<noteq> None"
  using meminfo_roundtrip [of "[(''MemTotal:'', 8, 262144), (''MemFree:'', 9, 131072), (''MemAvailable:'', 4, 150000), (''Cached:'', 11, 20480)]"]
  by (auto simp: is_space_def meminfo_value_def split: option.splits)

section \<open>The busiest processes\<close>

definition pct_ok :: "fl \<Rightarrow> bool" where
  "pct_ok x \<longleftrightarrow> (case x of Fin q \<Rightarrow> 0 \<le> q \<and> q \<le> 100 | _ \<Rightarrow> False)"

lemma lifetime_pct_ok:
  assumes "uptime_ticks \<noteq> 0"
  shows "pct_ok (lifetime_pct ticks uptime_ticks)"
proof -
  note v = percent_val [OF assms, of ticks]
  have r: "0 \<le> rnd f32 x \<and> rnd f32 x \<le> 100" if "0 \<le> x" "x \<le> 100" for x
    using rnd_nonneg [OF that(1), of f32] rnd_mono [OF that(2), of f32] by simp
  have c: "pct_ok (fl_cast f32 (Fin x))" if "0 \<le> x" "x \<le> 100" for x
    using r [OF that] that by (simp add: pct_ok_def)
  have "lifetime_pct ticks uptime_ticks = fl_cast f32 (fl_clamp (Fin (pct_val ticks uptime_ticks)) (Fin 0) (Fin 100))"
    using v(1) by (simp add: lifetime_pct_def percent_def)
  then show ?thesis using v(2) c [of "pct_val ticks uptime_ticks"] c [of 100] by (simp add: fl_clamp_def not_less)
qed

lemma parse_pid_stat_ok:
  assumes "parse_proc_pid_stat uptime pid content = Ok p"
  shows "pct_ok (pm_cpu_pct p)" "pm_pid p = pid"
  using assms lifetime_pct_ok
  by (auto simp: parse_proc_pid_stat_def Let_def outcome_bind_Ok_iff pct_ok_def split: option.splits if_splits)

lemma collect_procs_ok: "collect_procs es = Some ps \<Longrightarrow> list_all (\<lambda>p. pct_ok (pm_cpu_pct p)) ps"
  by (induction es arbitrary: ps rule: collect_procs.induct)
    (auto dest: parse_pid_stat_ok split: option.splits outcome.splits)

abbreviation not_busier :: "ProcMetrics \<Rightarrow> ProcMetrics \<Rightarrow> bool" where
  "not_busier p q \<equiv> \<not> fl_less (pm_cpu_pct p) (pm_cpu_pct q)"

lemma mset_insert_proc: "mset (insert_proc p ps) = add_mset p (mset ps)"
  by (induction ps) simp_all

lemma mset_sort_procs: "mset (sort_procs ps) = mset ps"
  by (induction ps) (simp_all add: sort_procs_def mset_insert_proc)

lemma not_busier_trans:
  "pct_ok (pm_cpu_pct p) \<Longrightarrow> pct_ok (pm_cpu_pct q) \<Longrightarrow> pct_ok (pm_cpu_pct r) \<Longrightarrow> not_busier p q \<Longrightarrow> not_busier q r \<Longrightarrow> not_busier p r"
  by (auto simp: pct_ok_def split: fl.splits)

lemma not_busier_asym:
  "pct_ok (pm_cpu_pct p) \<Longrightarrow> pct_ok (pm_cpu_pct q) \<Longrightarrow> fl_less (pm_cpu_pct p) (pm_cpu_pct q) \<Longrightarrow> not_busier q p"
  by (auto simp: pct_ok_def split: fl.splits)

lemma set_insert_proc: "set (insert_proc p ps) = insert p (set ps)"
  by (induction ps) auto

lemma sorted_insert_proc:
  "list_all (\<lambda>p. pct_ok (pm_cpu_pct p)) (p # ps) \<Longrightarrow> sorted_wrt not_busier ps \<Longrightarrow> sorted_wrt not_busier (insert_proc p ps)"
proof (induction ps)
  case (Cons q ps)
  have ok: "pct_ok (pm_cpu_pct p)" "pct_ok (pm_cpu_pct q)" "\<forall>r\<in>set ps. pct_ok (pm_cpu_pct r)" and q: "\<forall>r\<in>set ps. not_busier q r"
    and s: "sorted_wrt not_busier ps" using Cons.prems by (simp_all add: list_all_iff)
  show ?case
  proof (cases "fl_less (pm_cpu_pct p) (pm_cpu_pct q)")
    case True
    with not_busier_asym [OF ok(1,2)] q Cons show ?thesis by (simp add: set_insert_proc)
  next
    case False
    with not_busier_trans [OF ok(1,2)] ok(3) q have "\<forall>r\<in>set ps. not_busier p r" by blast
    with False q s show ?thesis by simp
  qed
qed simp

lemma sorted_sort_procs: "list_all (\<lambda>p. pct_ok (pm_cpu_pct p)) ps \<Longrightarrow> sorted_wrt not_busier (sort_procs ps)"
proof (induction ps)
  case (Cons p ps)
  have "set (sort_procs ps) = set ps" using mset_sort_procs by (metis set_mset_mset)
  with Cons show ?case by (auto simp: sort_procs_def list_all_iff intro!: sorted_insert_proc)
qed (simp add: sort_procs_def)

lemma uptime_fallback: "uptime_ticks_of None = 100"
  by (simp add: uptime_ticks_of_def read_uptime_secs_def unwrap_or_def)

lemma lifetime_pct_samples: "lifetime_pct 300 100 = Fin 100" "lifetime_pct 0 100 = Fin 0"
  by (simp_all add: lifetime_pct_def fl_of_u64_def u64_val_def fl_clamp_def)

definition stat_busy :: string where
  "stat_busy = ''123 (my_process) S 1 1 1 1 1 1 1 1 1 1 100 200 1 1 1 1 1 1 1 1 50''"

definition stat_idle :: string where
  "stat_idle = ''7 (a) b) S 1 1 1 1 1 1 1 1 1 1 0 0 1 1 1 1 1 1 1 1 2''"

lemmas stat_eval = parse_proc_pid_stat_def index_of_def last_index_of_def get_range_def ok_or_def words_of_def is_space_def get_nth_def
  parse_u64_def parse_u32_def from_str_radix_def digit_val_def Let_def add_checked_panic_def checked_add_def checked_mul_def uptime_fallback
  lifetime_pct_samples

lemma stat_samples:
  "parse_proc_pid_stat None 123 stat_busy = Ok \<lparr>pm_pid = 123, pm_name = ''my_process'', pm_cpu_pct = Fin 100, pm_rss_bytes = 204800, pm_state = CHR ''S''\<rparr>"
  "parse_proc_pid_stat None 7 stat_idle = Ok \<lparr>pm_pid = 7, pm_name = ''a) b'', pm_cpu_pct = Fin 0, pm_rss_bytes = 8192, pm_state = CHR ''S''\<rparr>"
  unfolding stat_busy_def stat_idle_def by (simp_all add: stat_eval)

text \<open>The process list of a snapshot holds at most the requested number of processes, busiest first with loads between
  0 and 100; it is cut from the processes that could be read, and none of those left out is busier than one kept.\<close>

theorem top_procs_busiest:
  assumes "collect_top_procs entries n = Some ps"
  shows "length ps \<le> n \<and> sorted_wrt not_busier ps \<and> list_all (\<lambda>p. pct_ok (pm_cpu_pct p)) ps \<and>
    (\<exists>alls rest. collect_procs entries = Some alls \<and> mset alls = mset (ps @ rest) \<and>
       (rest \<noteq> [] \<longrightarrow> length ps = n) \<and> (\<forall>p\<in>set ps. \<forall>q\<in>set rest. not_busier p q))"
proof -
  obtain alls where a: "collect_procs entries = Some alls" "ps = take n (sort_procs alls)"
    using assms by (auto simp: collect_top_procs_def)
  define rest where "rest = drop n (sort_procs alls)"
  have e: "sort_procs alls = ps @ rest" by (simp add: a(2) rest_def)
  have l: "length ps \<le> n" "rest \<noteq> [] \<Longrightarrow> length ps = n" by (simp_all add: a(2) rest_def)
  have m: "mset alls = mset (ps @ rest)" using mset_sort_procs [of alls] unfolding e by simp
  then have "set alls = set ps \<union> set rest" by (metis set_mset_mset set_append)
  then have "list_all (\<lambda>p. pct_ok (pm_cpu_pct p)) ps" using collect_procs_ok [OF a(1)] by (simp add: list_all_iff)
  moreover have "sorted_wrt not_busier (ps @ rest)" using sorted_sort_procs [OF collect_procs_ok [OF a(1)]] unfolding e .
  ultimately show ?thesis using a(1) l m by (auto simp: sorted_wrt_append)
qed

theorem top_procs_busiest_witness:
  "\<exists>ps. collect_top_procs [(''self'', Some stat_busy, None), (''7'', Some stat_idle, None), (''123'', Some stat_busy, None), (''9'', None, None)] 1 = Some ps \<and>
     length ps \<le> 1 \<and> sorted_wrt not_busier ps \<and> map pm_pid ps = [123]"
proof -
  have p: "parse_u32 ''self'' = None" "parse_u32 ''7'' = Some 7" "parse_u32 ''123'' = Some 123" "parse_u32 ''9'' = Some 9"
    by (simp_all add: parse_u32_def from_str_radix_def digit_val_def)
  have e: "collect_top_procs [(''self'', Some stat_busy, None), (''7'', Some stat_idle, None), (''123'', Some stat_busy, None), (''9'', None, None)] 1 =
      Some [\<lparr>pm_pid = 123, pm_name = ''my_process'', pm_cpu_pct = Fin 100, pm_rss_bytes = 204800, pm_state = CHR ''S''\<rparr>]"
    by (simp add: collect_top_procs_def p stat_samples sort_procs_def)
  from top_procs_busiest [OF e] e show ?thesis by simp
qed

end
