(* ===== verification/Metrics_Pipeline.thy ===== *)
theory Metrics_Pipeline
  imports Guest_Agent Vsock_Server
begin

text \<open>
  From the agent to the meters: what the daemon makes of the packets that carry a snapshot, and how a
  snapshot is published (\<open>publish_to_otel\<close> of \<open>hitz-daemon/src/vsock_server.rs\<close>). The OpenTelemetry library
  is represented by the calls it receives; of it the text relies on the documented rule that a counter
  accumulates the values added to it.
\<close>

section \<open>Publishing\<close>

datatype KeyValue = StrLabel string string | IntLabel string int

datatype OtelEvent =
  GaugeF string fl "KeyValue list"
| GaugeU string u64 "KeyValue list"
| CounterAdd string u64 "KeyValue list"

definition publish_disk :: "KeyValue \<Rightarrow> DiskMetrics \<Rightarrow> OtelEvent list" where
  "publish_disk vm_kv d =
     [CounterAdd ''hitz.guest.disk_read_bytes_total'' (dm_read_bytes d) [vm_kv, StrLabel ''disk'' (dm_name d)],
      CounterAdd ''hitz.guest.disk_write_bytes_total'' (dm_write_bytes d) [vm_kv, StrLabel ''disk'' (dm_name d)]]"

definition publish_net :: "KeyValue \<Rightarrow> NetMetrics \<Rightarrow> OtelEvent list" where
  "publish_net vm_kv n =
     [CounterAdd ''hitz.guest.net_rx_bytes_total'' (nm_rx_bytes n) [vm_kv, StrLabel ''interface'' (nm_interface n)],
      CounterAdd ''hitz.guest.net_tx_bytes_total'' (nm_tx_bytes n) [vm_kv, StrLabel ''interface'' (nm_interface n)]]"

definition publish_to_otel :: "string \<Rightarrow> MetricsSnapshot \<Rightarrow> OtelEvent list" where
  "publish_to_otel vm_id snap =
     (let vm_kv = StrLabel ''vm.id'' vm_id; cpu = ms_cpu snap; per_core = cm_per_core cpu; m = ms_memory snap in
      GaugeF ''hitz.guest.cpu_usage'' (cm_total_pct cpu) [vm_kv] #
      map (\<lambda>(i, pct). GaugeF ''hitz.guest.cpu_usage_per_core'' pct [vm_kv, IntLabel ''cpu'' (int i)]) (zip [0..<length per_core] per_core) @
      [GaugeU ''hitz.guest.memory_used_bytes'' (mm_used_bytes m) [vm_kv],
       GaugeU ''hitz.guest.memory_total_bytes'' (mm_total_bytes m) [vm_kv]] @
      concat (map (publish_disk vm_kv) (ms_disks snap)) @ concat (map (publish_net vm_kv) (ms_networks snap)))"

text \<open>The value of a counter: the sum of what was added under its name and labels.\<close>

fun counter_add :: "string \<Rightarrow> KeyValue list \<Rightarrow> OtelEvent \<Rightarrow> nat" where
  "counter_add name labels (CounterAdd n v ls) = (if n = name \<and> ls = labels then unat v else 0)"
| "counter_add name labels _ = 0"

definition counter_value :: "string \<Rightarrow> KeyValue list \<Rightarrow> OtelEvent list \<Rightarrow> nat" where
  "counter_value name labels es = sum_list (map (counter_add name labels) es)"

definition disk_reads :: "string \<Rightarrow> MetricsSnapshot \<Rightarrow> nat" where
  "disk_reads name snap = sum_list (map (\<lambda>d. if dm_name d = name then unat (dm_read_bytes d) else 0) (ms_disks snap))"

definition net_received :: "string \<Rightarrow> MetricsSnapshot \<Rightarrow> nat" where
  "net_received name snap = sum_list (map (\<lambda>n. if nm_interface n = name then unat (nm_rx_bytes n) else 0) (ms_networks snap))"

lemma counter_value_append [simp]: "counter_value n ls (xs @ ys) = counter_value n ls xs + counter_value n ls ys"
  by (simp add: counter_value_def)

lemma counter_value_Cons [simp]: "counter_value n ls (x # xs) = counter_add n ls x + counter_value n ls xs"
  by (simp add: counter_value_def)

lemma counter_value_Nil [simp]: "counter_value n ls [] = 0"
  by (simp add: counter_value_def)

lemma counter_value_concat: "counter_value n ls (concat xss) = sum_list (map (counter_value n ls) xss)"
  by (induction xss) simp_all

lemma counter_gauges [simp]: "counter_value n ls (map (\<lambda>(i, pct). GaugeF g pct (l i)) xs) = 0"
  by (induction xs) auto

lemma publish_disk_reads:
  "counter_value ''hitz.guest.disk_read_bytes_total'' [StrLabel ''vm.id'' vm, StrLabel ''disk'' d] (publish_to_otel vm s) = disk_reads d s"
  by (simp add: publish_to_otel_def Let_def counter_value_concat comp_def publish_disk_def publish_net_def disk_reads_def)

lemma publish_net_received:
  "counter_value ''hitz.guest.net_rx_bytes_total'' [StrLabel ''vm.id'' vm, StrLabel ''interface'' i] (publish_to_otel vm s) = net_received i s"
  by (simp add: publish_to_otel_def Let_def counter_value_concat comp_def publish_disk_def publish_net_def net_received_def)

text \<open>The counters of the daemon add up the readings of all snapshots published. The readings are the kernel's totals since boot,
  so after two snapshots of an idle guest the counters show twice what was transferred.\<close>

theorem otel_counters_add_totals:
  "counter_value ''hitz.guest.disk_read_bytes_total'' [StrLabel ''vm.id'' vm, StrLabel ''disk'' d] (concat (map (publish_to_otel vm) ss)) =
     sum_list (map (disk_reads d) ss) \<and>
   counter_value ''hitz.guest.net_rx_bytes_total'' [StrLabel ''vm.id'' vm, StrLabel ''interface'' i] (concat (map (publish_to_otel vm) ss)) =
     sum_list (map (net_received i) ss)"
  by (simp add: counter_value_concat comp_def publish_disk_reads publish_net_received)

section \<open>Framing\<close>

text \<open>The packets of a stream: each write becomes a data packet of its own, as the guest's socket layer sends them.\<close>

definition data_packet :: "VsockHdr \<Rightarrow> bytes \<Rightarrow> VsockPacket" where
  "data_packet hdr bs = (hdr\<lparr>vh_op := vsock_op_as_u16 OpRw, vh_dst_port := VSOCK_METRICS_PORT, vh_len := of_nat (length bs)\<rparr>, bs)"

lemma data_packet_metrics [simp]: "metrics_data (data_packet hdr bs)" "snd (data_packet hdr bs) = bs"
  by (simp_all add: data_packet_def metrics_data_def)

lemma send_snapshot_writes:
  assumes "send_snapshot encode snap = Some ws"
  obtains bs where "encode snap = Some bs" "ws = [le_bytes 4 (if length bs < 2 ^ 32 then of_nat (length bs) else - 1 :: u32), bs]"
  using assms by (auto simp: send_snapshot_def Let_def split: if_splits)

text \<open>A packet with the length alone holds no snapshot.\<close>

lemma metrics_snapshot_short:
  assumes "length bs < 4 + unat (of_le_bytes (take 4 bs) :: u32)"
  shows "metrics_snapshot decode bs = None"
  using assms by (simp add: metrics_snapshot_def get_range_def)

text \<open>
  A MessagePack array of six fields starts with \<open>0x96\<close>; a time in milliseconds after 1970 that needs more than
  32 and at most 48 bits follows as \<open>0xCF 0x00 0x00\<close> and six more bytes.
\<close>

definition msgpack_snapshot :: "bytes \<Rightarrow> bool" where
  "msgpack_snapshot bs \<longleftrightarrow> 4 \<le> length bs \<and> take 4 bs = [0x96, 0xCF, 0, 0]"

text \<open>A snapshot that arrives in one packet is published. Sent as the agent does it, with one write for the length and
  one for the contents, it arrives in two packets, each of which the daemon takes for a complete frame; then nothing is
  published, whatever the decoder accepts, unless the encoding is longer than 53145 bytes.\<close>

theorem split_snapshot_lost:
  assumes "send_snapshot encode snap = Some ws" "encode snap = Some bs" "decode bs = Some snap"
    and "msgpack_snapshot bs" "length bs < 53146"
  shows "mt_published (run_metrics_task decode [data_packet hdr (concat ws)]) = [snap] \<and>
    mt_published (run_metrics_task decode (map (data_packet hdr) ws)) = []"
proof -
  have w: "ws = [le_bytes 4 (of_nat (length bs) :: u32), bs]"
    using assms(1,2,5) by (auto elim!: send_snapshot_writes)
  have one: "metrics_snapshot decode (concat ws) = Some snap"
    using metrics_snapshot_framed [of bs decode "[]"] assms(3,5) w by simp
  have u: "unat (of_nat (length bs) :: u32) = length bs" using assms(5) by (intro unat_of_nat_eq) simp
  have "metrics_snapshot decode (le_bytes 4 (of_nat (length bs) :: u32)) = None"
    using assms(4) u by (intro metrics_snapshot_short) (auto simp: of_le_bytes_le_bytes msgpack_snapshot_def)
  moreover have "metrics_snapshot decode bs = None"
    using assms(4,5) by (intro metrics_snapshot_short) (simp add: msgpack_snapshot_def)
  ultimately show ?thesis using one w
    by (simp add: run_metrics_task_def metrics_start_def handle_metrics_data)
qed

theorem split_snapshot_lost_witness:
  "let encode = (\<lambda>s :: u8. Some [0x96, 0xCF, 0, 0, s]); decode = (\<lambda>bs. if length bs = 5 then Some (bs ! 4) else None);
       ws = [le_bytes 4 (5 :: u32), [0x96, 0xCF, 0, 0, 7]];
       hdr = \<lparr>vh_src_cid = 3, vh_dst_cid = 2, vh_src_port = 1024, vh_dst_port = VSOCK_METRICS_PORT, vh_len = 0, vh_type = 1, vh_op = 5,
         vh_flags = 0, vh_buf_alloc = 65536, vh_fwd_cnt = 0\<rparr> in
   send_snapshot encode 7 = Some ws \<and> mt_published (run_metrics_task decode [data_packet hdr (concat ws)]) = [7] \<and>
   mt_published (run_metrics_task decode (map (data_packet hdr) ws)) = []"
proof -
  let ?encode = "\<lambda>s :: u8. Some [0x96, 0xCF, 0, 0, s]" and ?decode = "\<lambda>bs :: bytes. if length bs = 5 then Some (bs ! 4) else None"
  let ?ws = "[le_bytes 4 (5 :: u32), [0x96, 0xCF, 0, 0, 7]] :: bytes list"
  have s: "send_snapshot ?encode 7 = Some ?ws" by (simp add: send_snapshot_def)
  have d: "?decode [0x96, 0xCF, 0, 0, 7] = Some 7" "msgpack_snapshot [0x96, 0xCF, 0, 0, 7]" by (simp_all add: msgpack_snapshot_def)
  show ?thesis unfolding Let_def using split_snapshot_lost [where encode = ?encode and decode = ?decode and ws = ?ws, OF s refl d] s by simp
qed


section \<open>The threads of the agent\<close>

text \<open>
  A round of the push thread: the files it reads, whether the connection is accepted, and how many of
  the two writes succeed, each as a whole. \<open>None\<close> is a panic while the snapshot is collected. The result has the writes
  of every connection.
\<close>

record PushRound =
  pr_fs :: ProcFs
  pr_connected :: bool
  pr_writes :: nat

definition push_round :: "(MetricsSnapshot \<Rightarrow> bytes option) \<Rightarrow> PushRound \<Rightarrow> bytes list list option" where
  "push_round encode r =
     map_option (\<lambda>snap.
       if pr_connected r then [case send_snapshot encode snap of None \<Rightarrow> [] | Some ws \<Rightarrow> take (pr_writes r) ws] else [])
     (collect_snapshot (pr_fs r))"

fun push_loop :: "(MetricsSnapshot \<Rightarrow> bytes option) \<Rightarrow> PushRound list \<Rightarrow> bytes list list option" where
  "push_loop encode [] = Some []"
| "push_loop encode (r # rs) = Option.bind (push_round encode r) (\<lambda>ws. map_option ((@) ws) (push_loop encode rs))"

text \<open>The pull thread: the error of binding the port, and the connections that were accepted, each with the result of
  reading the request byte. It answers a request as the push thread answers a tick.\<close>

fun pull_server :: "(MetricsSnapshot \<Rightarrow> bytes option) \<Rightarrow> string option \<Rightarrow> (bool \<times> PushRound) list \<Rightarrow> string list \<times> bytes list list option" where
  "pull_server encode (Some e) conns = ([''hitz-agent: failed to bind vsock: '' @ e], Some [])"
| "pull_server encode None conns = ([], push_loop encode (map (\<lambda>(read, r). r\<lparr>pr_connected := True\<rparr>) (filter fst conns)))"

lemma map_filter_none: "(\<And>x. x \<in> set xs \<Longrightarrow> f x = None) \<Longrightarrow> List.map_filter f xs = []"
  by (induction xs) (simp_all add: List.map_filter_simps)

lemma push_loop_writes:
  assumes "push_loop encode rs = Some wss" "ws \<in> set wss" "w \<in> set ws"
  shows "\<exists>snap bs. encode snap = Some bs \<and> w \<in> {le_bytes 4 (if length bs < 2 ^ 32 then of_nat (length bs) else - 1 :: u32), bs}"
  using assms
proof (induction rs arbitrary: wss)
  case (Cons r rs)
  from Cons.prems(1) obtain a b where ab: "push_round encode r = Some a" "push_loop encode rs = Some b" "wss = a @ b"
    by (auto simp: bind_eq_Some_conv)
  show ?case
  proof (cases "ws \<in> set b")
    case True
    then show ?thesis using Cons.IH [OF ab(2)] Cons.prems(3) by blast
  next
    case False
    then have "ws \<in> set a" using Cons.prems(2) ab(3) by simp
    then obtain snap ws' where s: "send_snapshot encode snap = Some ws'" "ws = take (pr_writes r) ws'"
      using ab(1) Cons.prems(3) by (auto simp: push_round_def split: if_splits option.splits)
    obtain bs where b: "encode snap = Some bs" "ws' = [le_bytes 4 (if length bs < 2 ^ 32 then of_nat (length bs) else - 1 :: u32), bs]"
      using s(1) by (rule send_snapshot_writes)
    have "w \<in> set ws'" using s(2) Cons.prems(3) in_set_takeD by metis
    with b show ?thesis unfolding b(2) list.set by blast
  qed
qed simp

text \<open>However long the agent pushes and whichever of its writes succeed, the daemon publishes nothing of what it sends, as long
  as the snapshots are encoded as the library does it and stay below 53146 bytes.\<close>

theorem pushed_snapshots_lost:
  assumes "\<forall>snap bs. encode snap = Some bs \<longrightarrow> msgpack_snapshot bs \<and> length bs < 53146" "push_loop encode rs = Some wss"
  shows "mt_published (run_metrics_task decode (map (data_packet hdr) (concat wss))) = []"
proof -
  have "metrics_snapshot decode w = None" if w0: "w \<in> set (concat wss)" for w
  proof -
    obtain ws where "ws \<in> set wss" "w \<in> set ws" using w0 by auto
    from push_loop_writes [OF assms(2) this] obtain snap bs where e: "encode snap = Some bs"
      and w: "w = le_bytes 4 (if length bs < 2 ^ 32 then of_nat (length bs) else - 1 :: u32) \<or> w = bs" by blast
    have b: "msgpack_snapshot bs" "length bs < 53146" using assms(1) e by auto
    then have u: "unat (of_nat (length bs) :: u32) = length bs" by (intro unat_of_nat_eq) simp
    show ?thesis
      using w b u by (auto intro!: metrics_snapshot_short simp: of_le_bytes_le_bytes msgpack_snapshot_def)
  qed
  then have "(metrics_snapshot decode \<circ> snd) p = None" if "p \<in> data_packet hdr ` set (concat wss)" for p
    using that by (elim imageE) simp
  then have "List.map_filter (metrics_snapshot decode \<circ> snd) (map (data_packet hdr) (concat wss)) = []"
    by (intro map_filter_none) (simp only: set_map)
  moreover have "list_all metrics_data (map (data_packet hdr) ws)" for ws by (simp add: list_all_iff)
  ultimately show ?thesis by (simp add: run_metrics_task_def metrics_task_data metrics_start_def)
qed

end
