(* ===== verification/Prometheus.thy ===== *)
theory Prometheus
  imports Metrics Rust_Text
begin

text \<open>
  The Prometheus export of \<open>hitz-api/src/prometheus.rs\<close>, with the decimal display of floating-point numbers
  by the fewest digits that identify them.
\<close>

section \<open>Display of floating-point numbers\<close>

text \<open>The decimal exponent of a positive number: \<open>10 powi e \<le> x < 10 powi (e + 1)\<close>.\<close>

definition dec_exp :: "rat \<Rightarrow> int" where
  "dec_exp x =
     (let (n, d) = quotient_of x; k = int (length (show_dec (nat n))) - int (length (show_dec (nat d))) in
      if 10 powi k \<le> x then k else k - 1)"

text \<open>The neighbours of \<open>x\<close> with \<open>n\<close> significant digits, as a multiple of a power of ten; the nearest of those that round to
  \<open>x\<close>.\<close>

definition digits_candidate :: "format \<Rightarrow> rat \<Rightarrow> nat \<Rightarrow> (int \<times> int) option" where
  "digits_candidate F x n =
     (let k = dec_exp x - (int n - 1); s = 10 powi k; m = \<lfloor>x / s\<rfloor>;
          ok = (\<lambda>m. rnd F (of_int m * s) = x) in
      if ok m \<and> (\<not> ok (m + 1) \<or> x / s - of_int m \<le> 1 / 2) then Some (m, k)
      else if ok (m + 1) then Some (m + 1, k) else None)"

text \<open>Nine digits identify every \<open>f32\<close>, seventeen every \<open>f64\<close>.\<close>

fun shortest_from :: "format \<Rightarrow> rat \<Rightarrow> nat \<Rightarrow> nat \<Rightarrow> int \<times> int" where
  "shortest_from F x n 0 = (let k = dec_exp x - (int n - 1) in (half_even (x / 10 powi k), k))"
| "shortest_from F x n (Suc left) = (case digits_candidate F x n of Some c \<Rightarrow> c | None \<Rightarrow> shortest_from F x (n + 1) left)"

function strip_zeros :: "int \<times> int \<Rightarrow> int \<times> int" where
  "strip_zeros (m, k) = (if 0 < m \<and> m mod 10 = 0 then strip_zeros (m div 10, k + 1) else (m, k))"
  by auto

termination
  by (relation "measure (nat \<circ> fst)") auto

declare strip_zeros.simps [simp del]

definition show_decimal :: "int \<times> int \<Rightarrow> string" where
  "show_decimal mk =
     (let (m, k) = strip_zeros mk; ds = show_dec (nat m) in
      if 0 \<le> k then ds @ replicate (nat k) (CHR ''0'')
      else let f = nat (- k) in
        if f < length ds then take (length ds - f) ds @ ''.'' @ drop (length ds - f) ds
        else ''0.'' @ replicate (f - length ds) (CHR ''0'') @ ds)"

fun show_fl :: "format \<Rightarrow> nat \<Rightarrow> fl \<Rightarrow> string" where
  "show_fl F n (Fin a) =
     (if a = 0 then ''0''
      else (if a < 0 then ''-'' else []) @ show_decimal (shortest_from F \<bar>a\<bar> 1 n))"
| "show_fl F n (Inf s) = (if s then ''-inf'' else ''inf'')"
| "show_fl F n NaN = ''NaN''"

definition show_f32 :: "fl \<Rightarrow> string" where
  "show_f32 x = show_fl f32 8 x"

section \<open>The export\<close>

record Sample =
  smp_name :: string
  smp_type :: string
  smp_help :: string
  smp_labels :: "string option"
  smp_value :: string

definition dquoted :: "string \<Rightarrow> string" where
  "dquoted s = [CHR 0x22] @ s @ [CHR 0x22]"

definition help_line :: "Sample \<Rightarrow> string" where
  "help_line m = ''# HELP '' @ smp_name m @ '' '' @ smp_help m"

definition type_line :: "Sample \<Rightarrow> string" where
  "type_line m = ''# TYPE '' @ smp_name m @ '' '' @ smp_type m"

definition value_line :: "string \<Rightarrow> u64 \<Rightarrow> Sample \<Rightarrow> string" where
  "value_line vm_id ts m =
     smp_name m @ ''{vm_id='' @ dquoted vm_id @ (case smp_labels m of None \<Rightarrow> [] | Some l \<Rightarrow> '','' @ l) @ ''} '' @
     smp_value m @ '' '' @ show_dec (unat ts)"

definition metric :: "string \<Rightarrow> u64 \<Rightarrow> Sample \<Rightarrow> string" where
  "metric vm_id ts m = help_line m @ [CHR 0x0A] @ type_line m @ [CHR 0x0A] @ value_line vm_id ts m @ [CHR 0x0A]"

abbreviation smp :: "string \<Rightarrow> string \<Rightarrow> string \<Rightarrow> string option \<Rightarrow> string \<Rightarrow> Sample" where
  "smp n t h l v \<equiv> \<lparr>smp_name = n, smp_type = t, smp_help = h, smp_labels = l, smp_value = v\<rparr>"

definition cpu_samples :: "CpuMetrics \<Rightarrow> Sample list" where
  "cpu_samples c =
     smp ''hitz_cpu_total_pct'' ''gauge'' ''Overall CPU utilisation percentage'' None (show_f32 (cm_total_pct c)) #
     map (\<lambda>(i, p). smp ''hitz_cpu_core_pct'' ''gauge'' ''Per-core CPU utilisation percentage'' (Some (''core='' @ dquoted (show_dec i))) (show_f32 p))
       (zip [0..<length (cm_per_core c)] (cm_per_core c)) @
     [smp ''hitz_cpu_load_avg'' ''gauge'' ''System load average over 1 minute'' (Some (''window='' @ dquoted ''1m'')) (show_f32 (cm_load_avg c ! 0)),
      smp ''hitz_cpu_load_avg'' ''gauge'' ''System load average over 5 minutes'' (Some (''window='' @ dquoted ''5m'')) (show_f32 (cm_load_avg c ! 1)),
      smp ''hitz_cpu_load_avg'' ''gauge'' ''System load average over 15 minutes'' (Some (''window='' @ dquoted ''15m'')) (show_f32 (cm_load_avg c ! 2))]"

definition show_count :: "u64 \<Rightarrow> string" where
  "show_count x = show_dec (unat x)"

definition memory_samples :: "MemoryMetrics \<Rightarrow> Sample list" where
  "memory_samples m =
     [smp ''hitz_memory_total_bytes'' ''gauge'' ''Total physical memory in bytes'' None (show_count (mm_total_bytes m)),
      smp ''hitz_memory_used_bytes'' ''gauge'' ''Memory in use in bytes'' None (show_count (mm_used_bytes m)),
      smp ''hitz_memory_free_bytes'' ''gauge'' ''Free memory in bytes'' None (show_count (mm_free_bytes m)),
      smp ''hitz_memory_buffers_bytes'' ''gauge'' ''Memory used for buffers in bytes'' None (show_count (mm_buffers_bytes m)),
      smp ''hitz_memory_cached_bytes'' ''gauge'' ''Memory used for page cache in bytes'' None (show_count (mm_cached_bytes m)),
      smp ''hitz_memory_swap_total_bytes'' ''gauge'' ''Total swap space in bytes'' None (show_count (mm_swap_total m)),
      smp ''hitz_memory_swap_used_bytes'' ''gauge'' ''Swap space in use in bytes'' None (show_count (mm_swap_used m))]"

definition disk_samples :: "DiskMetrics \<Rightarrow> Sample list" where
  "disk_samples d =
     (let l = Some (''device='' @ dquoted (dm_name d)) in
      [smp ''hitz_disk_reads_total'' ''counter'' ''Total completed read operations'' l (show_count (dm_reads_total d)),
       smp ''hitz_disk_writes_total'' ''counter'' ''Total completed write operations'' l (show_count (dm_writes_total d)),
       smp ''hitz_disk_read_bytes_total'' ''counter'' ''Total bytes read'' l (show_count (dm_read_bytes d)),
       smp ''hitz_disk_write_bytes_total'' ''counter'' ''Total bytes written'' l (show_count (dm_write_bytes d))])"

definition net_samples :: "NetMetrics \<Rightarrow> Sample list" where
  "net_samples n =
     (let l = Some (''interface='' @ dquoted (nm_interface n)) in
      [smp ''hitz_net_rx_bytes_total'' ''counter'' ''Total bytes received'' l (show_count (nm_rx_bytes n)),
       smp ''hitz_net_tx_bytes_total'' ''counter'' ''Total bytes transmitted'' l (show_count (nm_tx_bytes n)),
       smp ''hitz_net_rx_packets_total'' ''counter'' ''Total packets received'' l (show_count (nm_rx_packets n)),
       smp ''hitz_net_tx_packets_total'' ''counter'' ''Total packets transmitted'' l (show_count (nm_tx_packets n)),
       smp ''hitz_net_rx_errors_total'' ''counter'' ''Total receive errors'' l (show_count (nm_rx_errors n)),
       smp ''hitz_net_tx_errors_total'' ''counter'' ''Total transmit errors'' l (show_count (nm_tx_errors n))])"

definition proc_samples :: "ProcMetrics \<Rightarrow> Sample list" where
  "proc_samples p =
     (let l = Some (''pid='' @ dquoted (show_dec (unat (pm_pid p))) @ '',name='' @ dquoted (pm_name p)) in
      [smp ''hitz_process_cpu_pct'' ''gauge'' ''CPU utilisation percentage for process'' l (show_f32 (pm_cpu_pct p)),
       smp ''hitz_process_rss_bytes'' ''gauge'' ''Resident set size in bytes for process'' l (show_count (pm_rss_bytes p))])"

definition samples_of :: "MetricsSnapshot \<Rightarrow> Sample list" where
  "samples_of s =
     cpu_samples (ms_cpu s) @ memory_samples (ms_memory s) @ concat (map disk_samples (ms_disks s)) @
     concat (map net_samples (ms_networks s)) @ concat (map proc_samples (ms_processes s))"

definition to_prometheus :: "MetricsSnapshot \<Rightarrow> string \<Rightarrow> string" where
  "to_prometheus s vm_id = concat (map (metric vm_id (ms_timestamp_ms s)) (samples_of s))"

section \<open>Lines of the export\<close>

lemma split_on_append: "split_on c (a @ c # b) = split_on c a @ split_on c b"
  by (induction a) (auto split: list.split)

lemma lines_append: "lines (a @ CHR 0x0A # b) = map strip_cr (split_on (CHR 0x0A) a) @ lines b"
  by (simp add: lines_def split_on_append butlast_append Let_def)

text \<open>The constant parts of a sample are single lines.\<close>

definition one_line :: "string \<Rightarrow> bool" where
  "one_line s \<longleftrightarrow> s \<noteq> [] \<and> list_all (\<lambda>c. c \<noteq> CHR 0x0A \<and> c \<noteq> CHR 0x0D) s"

definition sample_ok :: "Sample \<Rightarrow> bool" where
  "sample_ok m \<longleftrightarrow> one_line (smp_name m) \<and> one_line (smp_help m) \<and> one_line (smp_type m)"

lemma one_line_split: "one_line s \<Longrightarrow> split_on (CHR 0x0A) s = [s] \<and> strip_cr s = s"
  using last_in_set [of s] by (auto simp: one_line_def strip_cr_def list_all_iff intro!: split_on_no_sep)

lemma sample_lines:
  assumes "sample_ok m"
  shows "lines (metric vm ts m @ rest) =
    help_line m # type_line m # map strip_cr (split_on (CHR 0x0A) (value_line vm ts m)) @ lines rest"
proof -
  have h: "one_line (help_line m)" "one_line (type_line m)"
    using assms by (auto simp: sample_ok_def one_line_def help_line_def type_line_def)
  have "lines (metric vm ts m @ rest) = lines (help_line m @ CHR 0x0A # type_line m @ CHR 0x0A # value_line vm ts m @ CHR 0x0A # rest)"
    by (simp add: metric_def)
  also have "\<dots> = help_line m # type_line m # map strip_cr (split_on (CHR 0x0A) (value_line vm ts m)) @ lines rest"
    using one_line_split [OF h(1)] one_line_split [OF h(2)] by (simp add: lines_append)
  finally show ?thesis .
qed

lemma samples_ok: "list_all sample_ok (samples_of s)"
  by (auto simp: samples_of_def list_all_iff cpu_samples_def memory_samples_def disk_samples_def net_samples_def proc_samples_def
      sample_ok_def one_line_def Let_def)

text \<open>Every sample is exported with its description, its type and its value, in order.\<close>

lemma prometheus_lines:
  "lines (to_prometheus s vm) =
   concat (map (\<lambda>m. help_line m # type_line m # map strip_cr (split_on (CHR 0x0A) (value_line vm (ms_timestamp_ms s) m))) (samples_of s))"
proof -
  have "lines (concat (map (metric vm ts) ms)) =
      concat (map (\<lambda>m. help_line m # type_line m # map strip_cr (split_on (CHR 0x0A) (value_line vm ts m))) ms)"
    if "list_all sample_ok ms" for ts ms
    using that by (induction ms) (simp_all add: sample_lines, simp add: lines_def)
  from this [OF samples_ok] show ?thesis by (simp add: to_prometheus_def)
qed

text \<open>Every export has three type lines for the load average, and as many for each disk counter as there are disks. The
  exposition format allows one for a metric name.\<close>

theorem prometheus_repeats_type:
  "3 \<le> length (filter (\<lambda>l. l = ''# TYPE hitz_cpu_load_avg gauge'') (lines (to_prometheus s vm))) \<and>
   length (ms_disks s) \<le> length (filter (\<lambda>l. l = ''# TYPE hitz_disk_reads_total counter'') (lines (to_prometheus s vm)))"
proof -
  have c: "length (filter (\<lambda>m. type_line m = l) ms) \<le> length (filter (\<lambda>x. x = l)
      (concat (map (\<lambda>m. help_line m # type_line m # map strip_cr (split_on (CHR 0x0A) (value_line vm ts m))) ms)))" for l ms ts
    by (induction ms) auto
  have d: "length (filter (\<lambda>m. type_line m = ''# TYPE hitz_disk_reads_total counter'') (concat (map disk_samples ds))) = length ds" for ds
  proof (induction ds)
    case (Cons a ds)
    have "length (filter (\<lambda>m. type_line m = ''# TYPE hitz_disk_reads_total counter'') (disk_samples a)) = 1"
      by (simp add: disk_samples_def type_line_def Let_def)
    with Cons show ?case by simp
  qed simp
  have "3 \<le> length (filter (\<lambda>m. type_line m = ''# TYPE hitz_cpu_load_avg gauge'') (samples_of s))"
    by (simp add: samples_of_def cpu_samples_def type_line_def)
  moreover have "length (ms_disks s) \<le> length (filter (\<lambda>m. type_line m = ''# TYPE hitz_disk_reads_total counter'') (samples_of s))"
    by (simp add: samples_of_def d)
  ultimately show ?thesis unfolding prometheus_lines using c by (meson le_trans)
qed

end
