(* ===== verification/Port_Forwarding.thy ===== *)
theory Port_Forwarding
  imports Vm_Boot
begin

text \<open>
  The port forwarder of a VM (\<open>hitz-daemon/src/port_forward.rs\<close>) as a step relation: listener tasks accept
  connections and spawn a relay task for each, relays connect to the guest, copy and end, and dropping the
  manager aborts tasks. The sockets are the environment: it decides which binds, connections and copies
  succeed and when. The two instruments are counters by host port.
\<close>

section \<open>Model\<close>

datatype RelayState = Connecting | Copying | Done | Aborted

record Relay =
  rl_port :: u16
  rl_state :: RelayState

text \<open>A listener task: its rule, whether it runs, and the relay it has spawned and not yet recorded.\<close>

record Listener =
  ls_rule :: PortForward
  ls_alive :: bool
  ls_pending :: "nat option"

record Forwarder =
  fw_listeners :: "Listener list"
  fw_relays :: "Relay list"
  fw_handles :: "nat list"
  fw_connections_total :: "u16 \<Rightarrow> nat"
  fw_relays_active :: "u16 \<Rightarrow> int"

text \<open>\<open>PortForwardManager::start\<close>: rules that cannot be bound are skipped.\<close>

definition forwarder_start :: "(u16 \<Rightarrow> bool) \<Rightarrow> PortForward list \<Rightarrow> Forwarder" where
  "forwarder_start bind_ok rules =
     \<lparr>fw_listeners = map (\<lambda>r. \<lparr>ls_rule = r, ls_alive = True, ls_pending = None\<rparr>) (filter (\<lambda>r. bind_ok (pf_host_port r)) rules),
      fw_relays = [], fw_handles = [], fw_connections_total = \<lambda>_. 0, fw_relays_active = \<lambda>_. 0\<rparr>"

text \<open>The listener accepts: both instruments are increased and the relay is spawned; then its handle is stored.\<close>

definition accept_connection :: "nat \<Rightarrow> Forwarder \<Rightarrow> Forwarder" where
  "accept_connection i f =
     (let l = fw_listeners f ! i; p = pf_host_port (ls_rule l) in
      f\<lparr>fw_connections_total := (fw_connections_total f)(p := fw_connections_total f p + 1),
        fw_relays_active := (fw_relays_active f)(p := fw_relays_active f p + 1),
        fw_relays := fw_relays f @ [\<lparr>rl_port = p, rl_state = Connecting\<rparr>],
        fw_listeners := (fw_listeners f)[i := l\<lparr>ls_pending := Some (length (fw_relays f))\<rparr>]\<rparr>)"

definition store_handle :: "nat \<Rightarrow> nat \<Rightarrow> Forwarder \<Rightarrow> Forwarder" where
  "store_handle i r f =
     f\<lparr>fw_handles := fw_handles f @ [r], fw_listeners := (fw_listeners f)[i := (fw_listeners f ! i)\<lparr>ls_pending := None\<rparr>]\<rparr>"

definition set_relay :: "nat \<Rightarrow> RelayState \<Rightarrow> Forwarder \<Rightarrow> Forwarder" where
  "set_relay r st f = f\<lparr>fw_relays := (fw_relays f)[r := (fw_relays f ! r)\<lparr>rl_state := st\<rparr>]\<rparr>"

definition relay_ends :: "nat \<Rightarrow> Forwarder \<Rightarrow> Forwarder" where
  "relay_ends r f =
     (let p = rl_port (fw_relays f ! r) in
      (set_relay r Done f)\<lparr>fw_relays_active := (fw_relays_active f)(p := fw_relays_active f p - 1)\<rparr>)"

text \<open>\<open>Drop\<close>: the listeners are aborted; the relays with a stored handle too, if the lock is free. An aborted task
  does nothing more.\<close>

definition abort_relay :: "Relay \<Rightarrow> Relay" where
  "abort_relay r = (if rl_state r = Done then r else r\<lparr>rl_state := Aborted\<rparr>)"

definition forwarder_drop :: "bool \<Rightarrow> Forwarder \<Rightarrow> Forwarder" where
  "forwarder_drop lock_free f =
     (let f = f\<lparr>fw_listeners := map (\<lambda>l. l\<lparr>ls_alive := False, ls_pending := None\<rparr>) (fw_listeners f)\<rparr> in
      if lock_free
      then f\<lparr>fw_relays := map (\<lambda>(i, r). if i \<in> set (fw_handles f) then abort_relay r else r) (zip [0..<length (fw_relays f)] (fw_relays f)),
             fw_handles := []\<rparr>
      else f)"

inductive pf_step :: "Forwarder \<Rightarrow> Forwarder \<Rightarrow> bool" where
  accept: "i < length (fw_listeners f) \<Longrightarrow> ls_alive (fw_listeners f ! i) \<Longrightarrow> ls_pending (fw_listeners f ! i) = None \<Longrightarrow>
    pf_step f (accept_connection i f)"
| store: "i < length (fw_listeners f) \<Longrightarrow> ls_alive (fw_listeners f ! i) \<Longrightarrow> ls_pending (fw_listeners f ! i) = Some r \<Longrightarrow>
    pf_step f (store_handle i r f)"
| connect: "r < length (fw_relays f) \<Longrightarrow> rl_state (fw_relays f ! r) = Connecting \<Longrightarrow> pf_step f (set_relay r Copying f)"
| connect_fails: "r < length (fw_relays f) \<Longrightarrow> rl_state (fw_relays f ! r) = Connecting \<Longrightarrow> pf_step f (relay_ends r f)"
| copied: "r < length (fw_relays f) \<Longrightarrow> rl_state (fw_relays f ! r) = Copying \<Longrightarrow> pf_step f (relay_ends r f)"
| drop: "pf_step f (forwarder_drop lock_free f)"

section \<open>The instruments\<close>

definition relays_of :: "u16 \<Rightarrow> (RelayState \<Rightarrow> bool) \<Rightarrow> Forwarder \<Rightarrow> nat" where
  "relays_of p P f = length (filter (\<lambda>r. rl_port r = p \<and> P (rl_state r)) (fw_relays f))"

definition pending_relays :: "Forwarder \<Rightarrow> nat list" where
  "pending_relays f = List.map_filter ls_pending (fw_listeners f)"

text \<open>While the listeners run, every relay ever spawned has its handle stored or about to be, and none is aborted.\<close>

definition listening_ok :: "Forwarder \<Rightarrow> bool" where
  "listening_ok f \<longleftrightarrow> length (fw_handles f) + length (pending_relays f) = length (fw_relays f) \<and>
     list_all (\<lambda>r. rl_state r \<noteq> Aborted) (fw_relays f)"

definition pf_inv :: "Forwarder \<Rightarrow> bool" where
  "pf_inv f \<longleftrightarrow>
     (\<forall>p. fw_connections_total f p = relays_of p (\<lambda>_. True) f \<and>
          fw_relays_active f p = int (relays_of p (\<lambda>st. st \<noteq> Done) f)) \<and>
     (list_all ls_alive (fw_listeners f) \<and> listening_ok f \<or> \<not> list_ex ls_alive (fw_listeners f))"

lemma filter_update:
  assumes "i < length xs"
  shows "length (filter P (xs[i := y])) + of_bool (P (xs ! i)) = length (filter P xs) + of_bool (P y)"
proof -
  have x: "xs = take i xs @ xs ! i # drop (Suc i) xs" using assms by (rule id_take_nth_drop)
  have "length (filter P xs) = length (filter P (take i xs)) + of_bool (P (xs ! i)) + length (filter P (drop (Suc i) xs))"
    by (subst x) simp
  moreover have "length (filter P (xs[i := y])) = length (filter P (take i xs)) + of_bool (P y) + length (filter P (drop (Suc i) xs))"
    using assms by (simp add: upd_conv_take_nth_drop)
  ultimately show ?thesis by simp
qed

lemma map_filter_update:
  assumes "i < length xs"
  shows "length (List.map_filter g (xs[i := y])) + of_bool (g (xs ! i) \<noteq> None) = length (List.map_filter g xs) + of_bool (g y \<noteq> None)"
  using filter_update [OF assms, of "\<lambda>x. g x \<noteq> None" y] by (simp add: List.map_filter_def comp_def)

lemma alive_listening:
  "pf_inv f \<Longrightarrow> i < length (fw_listeners f) \<Longrightarrow> ls_alive (fw_listeners f ! i) \<Longrightarrow> list_all ls_alive (fw_listeners f) \<and> listening_ok f"
  using nth_mem [of i "fw_listeners f"] by (auto simp: pf_inv_def list_ex_iff)

lemma inv_accept:
  assumes "pf_inv f" "i < length (fw_listeners f)" "ls_alive (fw_listeners f ! i)" "ls_pending (fw_listeners f ! i) = None"
  shows "pf_inv (accept_connection i f)"
proof -
  note alive_listening [OF assms(1-3)]
  with map_filter_update [OF assms(2), of ls_pending] assms(3,4) have
    "list_all ls_alive (fw_listeners (accept_connection i f)) \<and> listening_ok (accept_connection i f)"
    by (auto simp: accept_connection_def listening_ok_def pending_relays_def Let_def list_all_iff dest!: set_update_subset_insert [THEN subsetD])
  moreover have "\<forall>p. fw_connections_total (accept_connection i f) p = relays_of p (\<lambda>_. True) (accept_connection i f) \<and>
      fw_relays_active (accept_connection i f) p = int (relays_of p (\<lambda>st. st \<noteq> Done) (accept_connection i f))"
    using assms(1) by (simp add: pf_inv_def accept_connection_def relays_of_def Let_def)
  ultimately show ?thesis by (simp add: pf_inv_def)
qed

lemma inv_store:
  assumes "pf_inv f" "i < length (fw_listeners f)" "ls_alive (fw_listeners f ! i)" "ls_pending (fw_listeners f ! i) = Some r"
  shows "pf_inv (store_handle i r f)"
proof -
  note alive_listening [OF assms(1-3)]
  with map_filter_update [OF assms(2), of ls_pending "(fw_listeners f ! i)\<lparr>ls_pending := None\<rparr>"] assms(2-4) have
    "list_all ls_alive (fw_listeners (store_handle i r f)) \<and> listening_ok (store_handle i r f)"
    by (auto simp: store_handle_def listening_ok_def pending_relays_def list_all_iff dest!: set_update_subset_insert [THEN subsetD])
  with assms(1) show ?thesis by (simp add: pf_inv_def store_handle_def relays_of_def)
qed

text \<open>A relay that changes its state keeps its port.\<close>

lemma relays_of_set_relay:
  assumes "r < length (fw_relays f)"
  shows "relays_of p P (set_relay r st f) + of_bool (rl_port (fw_relays f ! r) = p \<and> P (rl_state (fw_relays f ! r))) =
    relays_of p P f + of_bool (rl_port (fw_relays f ! r) = p \<and> P st)"
  using filter_update [OF assms, of "\<lambda>x. rl_port x = p \<and> P (rl_state x)" "(fw_relays f ! r)\<lparr>rl_state := st\<rparr>"]
  by (simp add: relays_of_def set_relay_def)

lemma listening_ok_set_relay: "listening_ok f \<Longrightarrow> st \<noteq> Aborted \<Longrightarrow> listening_ok (set_relay r st f)"
  by (auto simp: listening_ok_def set_relay_def pending_relays_def list_all_iff dest!: set_update_subset_insert [THEN subsetD])

lemma inv_connect:
  assumes "pf_inv f" "r < length (fw_relays f)" "rl_state (fw_relays f ! r) = Connecting"
  shows "pf_inv (set_relay r Copying f)"
proof -
  have "relays_of p (\<lambda>st. st \<noteq> Done) (set_relay r Copying f) = relays_of p (\<lambda>st. st \<noteq> Done) f"
    "relays_of p (\<lambda>_. True) (set_relay r Copying f) = relays_of p (\<lambda>_. True) f" for p
    using relays_of_set_relay [OF assms(2), of p "\<lambda>st. st \<noteq> Done" Copying] relays_of_set_relay [OF assms(2), of p "\<lambda>_. True" Copying] assms(3)
    by simp_all
  with assms(1) listening_ok_set_relay [of f Copying r] show ?thesis by (auto simp: pf_inv_def) (simp_all add: set_relay_def)
qed

lemma inv_ends:
  assumes "pf_inv f" "r < length (fw_relays f)" "rl_state (fw_relays f ! r) \<noteq> Done"
  shows "pf_inv (relay_ends r f)"
proof -
  let ?q = "rl_port (fw_relays f ! r)"
  have "relays_of p P (relay_ends r f) = relays_of p P (set_relay r Done f)" for p P by (simp add: relays_of_def relay_ends_def Let_def)
  then have "int (relays_of p (\<lambda>st. st \<noteq> Done) (relay_ends r f)) = int (relays_of p (\<lambda>st. st \<noteq> Done) f) - of_bool (?q = p)"
    "relays_of p (\<lambda>_. True) (relay_ends r f) = relays_of p (\<lambda>_. True) f" for p
    using relays_of_set_relay [OF assms(2), of p "\<lambda>st. st \<noteq> Done" Done] relays_of_set_relay [OF assms(2), of p "\<lambda>_. True" Done] assms(3)
    by (auto simp: of_bool_def split: if_splits)
  moreover have "listening_ok (relay_ends r f)" if "listening_ok f"
    using listening_ok_set_relay [OF that, of Done r] by (simp add: listening_ok_def relay_ends_def pending_relays_def Let_def)
  ultimately show ?thesis using assms(1)
    by (auto simp: pf_inv_def) (simp_all add: relay_ends_def set_relay_def Let_def)
qed

lemma filter_abort:
  assumes "\<And>r. Q (abort_relay r) = Q r"
  shows "length (filter Q (map (\<lambda>(i, r). if i \<in> A then abort_relay r else r) (zip [0..<length rs] rs))) = length (filter Q rs)"
proof -
  have "length (filter Q (map (\<lambda>(i, r). if i \<in> A then abort_relay r else r) (zip is rs))) = length (filter Q rs)" if "length is = length rs" for "is"
    using that assms by (induction "is" rs rule: list_induct2) auto
  then show ?thesis by simp
qed

lemma inv_drop:
  assumes "pf_inv f"
  shows "pf_inv (forwarder_drop lock_free f)"
proof -
  have "relays_of p (\<lambda>st. st \<noteq> Done) (forwarder_drop lock_free f) = relays_of p (\<lambda>st. st \<noteq> Done) f"
    "relays_of p (\<lambda>_. True) (forwarder_drop lock_free f) = relays_of p (\<lambda>_. True) f" for p
    using filter_abort [of "\<lambda>r. rl_port r = p \<and> rl_state r \<noteq> Done" "set (fw_handles f)" "fw_relays f"]
      filter_abort [of "\<lambda>r. rl_port r = p \<and> True" "set (fw_handles f)" "fw_relays f"]
    by (simp_all add: relays_of_def forwarder_drop_def Let_def abort_relay_def)
  moreover have "\<not> list_ex ls_alive (fw_listeners (forwarder_drop lock_free f))"
    by (simp add: forwarder_drop_def Let_def list_ex_iff)
  ultimately show ?thesis using assms by (simp add: pf_inv_def forwarder_drop_def Let_def)
qed

lemma inv_step: "pf_step f f' \<Longrightarrow> pf_inv f \<Longrightarrow> pf_inv f'"
  by (induction rule: pf_step.induct) (auto intro: inv_accept inv_store inv_connect inv_ends inv_drop)

lemma inv_start: "pf_inv (forwarder_start bind_ok rules)"
  by (simp add: pf_inv_def forwarder_start_def relays_of_def listening_ok_def pending_relays_def list_all_iff List.map_filter_def)

lemma inv_reachable: "pf_step\<^sup>*\<^sup>* (forwarder_start bind_ok rules) f \<Longrightarrow> pf_inv f"
  by (induction rule: rtranclp_induct) (auto intro: inv_start inv_step)

text \<open>The instruments of the port forwarder. In every reachable state the connection counter of a port is the number of relays
  spawned for it, and the gauge of active relays is the number that run plus the number that were aborted: while the
  listeners run it is exact, but every connection open when the VM stops is counted as active for ever. While the
  listeners run, the handles of all connections ever accepted are kept.\<close>

theorem forwarder_instruments:
  assumes "pf_step\<^sup>*\<^sup>* (forwarder_start bind_ok rules) f"
  shows "fw_connections_total f p = relays_of p (\<lambda>_. True) f \<and>
    fw_relays_active f p = int (relays_of p (\<lambda>st. st = Connecting \<or> st = Copying) f) + int (relays_of p (\<lambda>st. st = Aborted) f) \<and>
    (list_ex ls_alive (fw_listeners f) \<longrightarrow>
       relays_of p (\<lambda>st. st = Aborted) f = 0 \<and> length (fw_handles f) + length (pending_relays f) = length (fw_relays f))"
proof -
  have i: "pf_inv f" by (rule inv_reachable [OF assms])
  have "relays_of p (\<lambda>st. st \<noteq> Done) f = relays_of p (\<lambda>st. st = Connecting \<or> st = Copying) f + relays_of p (\<lambda>st. st = Aborted) f"
  proof -
    have "length (filter (\<lambda>r. rl_port r = p \<and> rl_state r \<noteq> Done) rs) =
        length (filter (\<lambda>r. rl_port r = p \<and> (rl_state r = Connecting \<or> rl_state r = Copying)) rs) + length (filter (\<lambda>r. rl_port r = p \<and> rl_state r = Aborted) rs)" for rs
    proof (induction rs)
      case (Cons r rs)
      then show ?case by (cases "rl_state r") auto
    qed simp
    then show ?thesis by (simp add: relays_of_def)
  qed
  moreover have "relays_of p (\<lambda>st. st = Aborted) f = 0" if "listening_ok f"
    using that by (auto simp: listening_ok_def relays_of_def list_all_iff filter_empty_conv)
  ultimately show ?thesis using i unfolding pf_inv_def listening_ok_def by auto
qed

definition demo_rule :: PortForward where
  "demo_rule = \<lparr>pf_host_port = 2222, pf_guest_port = 22\<rparr>"

text \<open>One connection that is open when the manager is dropped.\<close>

theorem forwarder_instruments_witness:
  "\<exists>f. pf_step\<^sup>*\<^sup>* (forwarder_start (\<lambda>_. True) [demo_rule]) f \<and> \<not> list_ex ls_alive (fw_listeners f) \<and>
     relays_of 2222 (\<lambda>st. st = Connecting \<or> st = Copying) f = 0 \<and> fw_relays_active f 2222 = 1"
proof -
  let ?f0 = "forwarder_start (\<lambda>_. True) [demo_rule]"
  let ?f1 = "accept_connection 0 ?f0"
  let ?f2 = "store_handle 0 0 ?f1"
  let ?f3 = "forwarder_drop True ?f2"
  have s1: "pf_step ?f0 ?f1" by (rule pf_step.accept) (simp_all add: forwarder_start_def)
  have s2: "pf_step ?f1 ?f2" by (rule pf_step.store) (simp_all add: forwarder_start_def accept_connection_def Let_def)
  have r: "pf_step\<^sup>*\<^sup>* ?f0 ?f3"
    using s1 s2 pf_step.drop by (meson rtranclp.rtrancl_into_rtrancl rtranclp.rtrancl_refl)
  have "relays_of 2222 (\<lambda>st. st = Connecting \<or> st = Copying) ?f3 = 0" "relays_of 2222 (\<lambda>st. st = Aborted) ?f3 = 1"
    "\<not> list_ex ls_alive (fw_listeners ?f3)"
    by (simp_all add: relays_of_def forwarder_drop_def store_handle_def accept_connection_def forwarder_start_def demo_rule_def abort_relay_def)
  then show ?thesis using r forwarder_instruments [OF r, of 2222] by (intro exI [of _ ?f3]) simp
qed


section \<open>Starting the forwarder with a VM\<close>

text \<open>The standard parser of IPv4 addresses: four decimal numbers below 256 without leading zeros.\<close>

definition ipv4_octet :: "string \<Rightarrow> u8 option" where
  "ipv4_octet t =
     (if t \<noteq> [] \<and> length t \<le> 3 \<and> hd t \<noteq> CHR ''+'' \<and> (hd t = CHR ''0'' \<longrightarrow> length t = 1)
      then map_option of_nat (from_str_radix 10 256 t) else None)"

definition parse_ipv4 :: "string \<Rightarrow> bytes option" where
  "parse_ipv4 s =
     (let ps = map ipv4_octet (split_on (CHR ''.'') s) in
      if length ps = 4 \<and> list_all (\<lambda>p. p \<noteq> None) ps then Some (map the ps) else None)"

text \<open>\<open>start_port_forwarding\<close>: the guest address the relays connect to, and the forwarder; otherwise the warning, if any.\<close>

definition start_port_forwarding :: "(u16 \<Rightarrow> bool) \<Rightarrow> VmConfig \<Rightarrow> string option + bytes \<times> Forwarder" where
  "start_port_forwarding bind_ok boot_config =
     (case cfg_net boot_config of
        None \<Rightarrow> Inl None
      | Some net \<Rightarrow>
          if cfg_ports boot_config = [] then Inl None
          else case parse_ipv4 (takeWhile (\<lambda>c. c \<noteq> CHR ''/'') (net_cfg_guest_ip net)) of
            None \<Rightarrow> Inl (Some (''could not parse guest IP from '' @ net_cfg_guest_ip net))
          | Some ip \<Rightarrow> Inr (ip, forwarder_start bind_ok (cfg_ports boot_config)))"

lemma show_dec_nonempty: "show_dec n \<noteq> []"
  by (simp add: show_dec_def show_radix.simps [of 10 n])

lemma hd_show_dec: "hd (show_dec n) = CHR ''0'' \<Longrightarrow> n = 0"
proof (induction n rule: less_induct)
  case (less n)
  show ?case
  proof (cases "n < 10")
    case True
    then have "show_dec n = [digit_char n]" by (simp add: show_dec_def show_radix.simps [of 10 n])
    then have "digit_val 10 (CHR ''0'') = Some n" using digit_val_digit_char [of n 10] True less.prems by simp
    then show ?thesis by (simp add: digit_val_def)
  next
    case False
    then have "show_dec n = show_dec (n div 10) @ [digit_char (n mod 10)]" by (simp add: show_dec_def show_radix.simps [of 10 n])
    then have "hd (show_dec (n div 10)) = CHR ''0''" using less.prems show_dec_nonempty [of "n div 10"] by simp
    then have "n div 10 = 0" using less.IH [of "n div 10"] False by simp
    then show ?thesis using False by simp
  qed
qed

lemma octet_show: "ipv4_octet (show_dec (unat b)) = Some b"
proof -
  have "CHR ''+'' \<notin> set (show_dec (unat b))"
    using show_radix_digits [of 10 "CHR ''+''" "unat b"] by (auto simp: show_dec_def digit_val_def)
  then have "hd (show_dec (unat b)) \<noteq> CHR ''+''" using show_dec_nonempty [of "unat b"] by (metis hd_in_set)
  moreover have "hd (show_dec (unat b)) = CHR ''0'' \<Longrightarrow> length (show_dec (unat b)) = 1"
    by (drule hd_show_dec) (simp add: show_dec_def show_radix.simps [of 10 0])
  moreover have "from_str_radix 10 256 (show_dec (unat b)) = Some (unat b)"
    using unat_u8_less [of b] by (simp add: show_dec_def from_str_radix_show)
  ultimately show ?thesis using length_texts(1) [of b] show_dec_nonempty [of "unat b"] by (simp add: ipv4_octet_def)
qed

text \<open>The address that the guest gets on its kernel command line is the one the relays connect to.\<close>

lemma parse_ipv4_text:
  assumes "length ip = 4"
  shows "parse_ipv4 (ip_text ip) = Some ip"
proof -
  have "split_on (CHR ''.'') (ip_text ip) = map (\<lambda>b. show_dec (unat b)) ip"
    unfolding ip_text_def using assms dec_chars by (intro split_on_join_with) auto
  then show ?thesis using assms by (simp add: parse_ipv4_def octet_show list_all_iff comp_def)
qed

lemma start_port_forwarding_address:
  assumes "cfg_net config = Some net" "net_cfg_guest_ip net = cidr_text ip p" "length ip = 4" "cfg_ports config \<noteq> []"
  shows "start_port_forwarding bind_ok config = Inr (ip, forwarder_start bind_ok (cfg_ports config))"
proof -
  have "CHR ''/'' \<notin> set (ip_text ip)"
    using join_with_chars [of "CHR ''/''" "CHR ''.''" "map (\<lambda>b. show_dec (unat b)) ip"] dec_chars unfolding ip_text_def by auto
  then have "takeWhile (\<lambda>c. c \<noteq> CHR ''/'') (cidr_text ip p) = ip_text ip"
    by (simp add: cidr_text_def while_sep)
  then show ?thesis using assms by (simp add: start_port_forwarding_def parse_ipv4_text)
qed

end
