(* ===== verification/Net_Bridge.thy ===== *)
theory Net_Bridge
  imports Ethernet Virtio_Net Vm_Boot "HOL-Library.Sublist"
begin

text \<open>
  The network thread of \<open>hitz-net/src/wintun_io.rs\<close>: creating and configuring the adapter, the thread
  that carries frames between the channels of the network device and the adapter, and its end. The
  calls into WinTun are parameters; what is relied on of a session is the locale \<open>wintun\<close>. The steps
  of the thread use the functions of \<open>Ethernet\<close> for single frames.
\<close>

section \<open>Set-up\<close>

datatype NetIoError = WinTunError string | NetIo string | NetConfigError string

fun net_io_error_to_string :: "NetIoError \<Rightarrow> string" where
  "net_io_error_to_string (WinTunError e) = ''WinTun error: '' @ e"
| "net_io_error_to_string (NetIo e) = ''I/O error: '' @ e"
| "net_io_error_to_string (NetConfigError e) = ''config error: '' @ e"

text \<open>Each call gives its error, if it fails; starting the session gives the session.\<close>

record 's WinTunApi =
  wt_load :: "string option"
  wt_create :: "string \<Rightarrow> string option"
  wt_set_address :: "bytes \<Rightarrow> string option"
  wt_set_netmask :: "bytes \<Rightarrow> string option"
  wt_start_session :: "string + 's"
  wt_spawn :: "string option"

definition wt_call :: "string \<Rightarrow> string option \<Rightarrow> NetIoError + unit" where
  "wt_call what failure = (case failure of None \<Rightarrow> Inr () | Some e \<Rightarrow> Inl (WinTunError (what @ '': '' @ e)))"

definition err_bind :: "'e + 'a \<Rightarrow> ('a \<Rightarrow> 'e + 'b) \<Rightarrow> 'e + 'b" where
  "err_bind r f = (case r of Inl e \<Rightarrow> Inl e | Inr x \<Rightarrow> f x)"

definition prefix_to_mask :: "u8 \<Rightarrow> string" where
  "prefix_to_mask p = ip_text (prefix_to_ipv4_mask p)"

text \<open>The address and the mask the adapter then has.\<close>

definition configure_host_ip :: "'s WinTunApi \<Rightarrow> string \<Rightarrow> NetIoError + bytes \<times> bytes" where
  "configure_host_ip T cidr =
     err_bind (map_err NetConfigError (parse_cidr cidr)) (\<lambda>(ip, p).
     let mask = prefix_to_ipv4_mask p in
     err_bind (wt_call (''set adapter address '' @ ip_text ip) (wt_set_address T ip)) (\<lambda>_.
     err_bind (wt_call (''set adapter netmask '' @ ip_text mask) (wt_set_netmask T mask)) (\<lambda>_.
     Inr (ip, mask))))"

section \<open>The thread\<close>

text \<open>
  \<open>br_tx\<close> is the channel from the device and \<open>br_rx\<close> the one to it. The other lists remember everything
  the device has sent and the thread has taken from it, received from the adapter and sent to the device.
\<close>

datatype NetPhase = LoopTop | DrainTx | ReceiveHost | LoopEnded

record 's Bridge =
  br_tx :: "bytes list"
  br_rx :: "bytes list"
  br_session :: 's
  br_phase :: NetPhase
  br_stop :: bool
  br_guest_mac :: bytes
  br_gateway_mac :: bytes
  br_gateway_ip :: bytes
  br_offered :: "bytes list"
  br_taken :: "bytes list"
  br_received :: "bytes list"
  br_to_guest :: "bytes list"

definition bridge_start :: "bytes \<Rightarrow> bytes \<Rightarrow> bytes \<Rightarrow> 's \<Rightarrow> 's Bridge" where
  "bridge_start guest_mac gateway_mac gateway_ip s =
     \<lparr>br_tx = [], br_rx = [], br_session = s, br_phase = LoopTop, br_stop = False, br_guest_mac = guest_mac, br_gateway_mac = gateway_mac,
      br_gateway_ip = gateway_ip, br_offered = [], br_taken = [], br_received = [], br_to_guest = []\<rparr>"

definition start_net_io :: "'s WinTunApi \<Rightarrow> string \<Rightarrow> string \<Rightarrow> bytes \<Rightarrow> bytes \<Rightarrow> bytes \<Rightarrow> NetIoError + 's Bridge" where
  "start_net_io T adapter_name host_ip guest_mac gateway_mac gateway_ip =
     err_bind (wt_call ''load wintun.dll'' (wt_load T)) (\<lambda>_.
     err_bind (wt_call (''create adapter '' @ [CHR 0x27] @ adapter_name @ [CHR 0x27]) (wt_create T adapter_name)) (\<lambda>_.
     err_bind (configure_host_ip T host_ip) (\<lambda>_.
     err_bind (map_err (\<lambda>e. WinTunError (''start session: '' @ e)) (wt_start_session T)) (\<lambda>session.
     (case wt_spawn T of
        Some e \<Rightarrow> Inl (NetIo e)
      | None \<Rightarrow> Inr (bridge_start guest_mac gateway_mac gateway_ip session))))))"

definition br_push :: "bytes list \<Rightarrow> 's Bridge \<Rightarrow> 's Bridge" where
  "br_push fs br = br\<lparr>br_rx := br_rx br @ fs, br_to_guest := br_to_guest br @ fs\<rparr>"

definition net_io_step :: "'s WinTunSession \<Rightarrow> 's Bridge \<Rightarrow> 's Bridge" where
  "net_io_step W br =
     (case br_phase br of
        LoopTop \<Rightarrow> br\<lparr>br_phase := if br_stop br then LoopEnded else DrainTx\<rparr>
      | DrainTx \<Rightarrow>
          (case br_tx br of
             [] \<Rightarrow> br\<lparr>br_phase := ReceiveHost\<rparr>
           | frame # fs \<Rightarrow>
               (case bridge_frame W (br_gateway_mac br) (br_gateway_ip br) (br_session br, []) frame of
                  (s, rx) \<Rightarrow> br_push rx (br\<lparr>br_tx := fs, br_taken := br_taken br @ [frame], br_session := s\<rparr>)))
      | ReceiveHost \<Rightarrow>
          (case try_receive W (br_session br) of
             (s, Inr (Some ip_data)) \<Rightarrow>
               br_push [build_eth_frame (br_gateway_mac br) (br_guest_mac br) (ethertype_from_ip ip_data) ip_data]
                 (br\<lparr>br_session := s, br_received := br_received br @ [ip_data], br_phase := LoopTop\<rparr>)
           | (s, Inr None) \<Rightarrow> br\<lparr>br_session := s, br_phase := LoopTop\<rparr>
           | (s, Inl e) \<Rightarrow> br\<lparr>br_session := s, br_phase := LoopEnded\<rparr>)
      | LoopEnded \<Rightarrow> br)"

text \<open>\<open>shutdown_inner\<close>, called by \<open>stop_and_join\<close> and again by \<open>drop\<close>: the flag is raised, and if the thread was not yet taken it is
  joined.\<close>

record NetIoHandle =
  nh_thread :: bool

definition shutdown_inner :: "NetIoHandle \<Rightarrow> 's Bridge \<Rightarrow> NetIoHandle \<times> 's Bridge \<times> bool" where
  "shutdown_inner h br = (h\<lparr>nh_thread := False\<rparr>, br\<lparr>br_stop := True\<rparr>, nh_thread h)"

text \<open>The device sends frames into one channel and empties the other; the owner of the handle stops the thread at any moment.\<close>

inductive bridge_step :: "'s WinTunSession \<Rightarrow> 's Bridge \<Rightarrow> 's Bridge \<Rightarrow> bool" for W where
  guest_sends: "bridge_step W br (br\<lparr>br_tx := br_tx br @ frames, br_offered := br_offered br @ frames\<rparr>)"
| guest_polls: "bridge_step W br (br\<lparr>br_rx := []\<rparr>)"
| thread: "bridge_step W br (net_io_step W br)"
| stops: "bridge_step W br (fst (snd (shutdown_inner h br)))"

section \<open>What the adapter promises\<close>

text \<open>A buffer has the requested size, a sent packet goes out once and in order; \<open>sent\<close> is everything that went out.\<close>

locale wintun =
  fixes W :: "'s WinTunSession" and sent :: "'s \<Rightarrow> bytes list"
  assumes alloc: "allocate_send_packet W s n = (s', Inr dest) \<Longrightarrow> length dest = unat n \<and> sent s' = sent s"
    and alloc_fails: "allocate_send_packet W s n = (s', Inl e) \<Longrightarrow> sent s' = sent s"
    and send: "sent (send_packet W s p) = sent s @ [p]"
    and receive: "try_receive W s = (s', r) \<Longrightarrow> sent s' = sent s"

text \<open>What a frame of the guest should put on the adapter and send back.\<close>

definition frame_type :: "bytes \<Rightarrow> u16 option" where
  "frame_type f = map_option ethertype (parse_eth_header f)"

definition to_adapter :: "bytes \<Rightarrow> bytes list" where
  "to_adapter f = (if frame_type f \<in> {Some ETHERTYPE_IPV4, Some ETHERTYPE_IPV6} then [take 65535 (drop ETH_HEADER_LEN f)] else [])"

definition answers :: "bytes \<Rightarrow> bytes \<Rightarrow> bytes \<Rightarrow> bytes list" where
  "answers gateway_mac gateway_ip f = (case build_arp_reply f gateway_mac gateway_ip of None \<Rightarrow> [] | Some r \<Rightarrow> [r])"

lemma arp_reply_type: "build_arp_reply f gm gi = Some r \<Longrightarrow> frame_type f = Some ETHERTYPE_ARP"
  by (auto simp: build_arp_reply_def frame_type_def Let_def split: option.splits if_splits)

lemma no_answer: "frame_type f \<noteq> Some ETHERTYPE_ARP \<Longrightarrow> answers gm gi f = []"
  using arp_reply_type [of f gm gi] by (cases "build_arp_reply f gm gi") (auto simp: answers_def)

lemma types_differ: "ETHERTYPE_ARP \<noteq> ETHERTYPE_IPV4" "ETHERTYPE_ARP \<noteq> ETHERTYPE_IPV6"
  by (simp_all add: eth_consts)

context wintun
begin

lemma send_to_wintun_sent:
  "sent (send_to_wintun W s p) = sent s @ [take 65535 p] \<or>
   (\<exists>n s' e. allocate_send_packet W s n = (s', Inl e) \<and> sent (send_to_wintun W s p) = sent s)"
proof -
  define n :: u16 where "n = (if 65535 < length p then 65535 else of_nat (length p))"
  have u: "unat n = min 65535 (length p)" by (auto simp: n_def unat_of_nat_eq)
  obtain s' r where a: "allocate_send_packet W s n = (s', r)" by fastforce
  show ?thesis
  proof (cases r)
    case (Inl e)
    then show ?thesis using a alloc_fails [of s n s' e] by (auto simp: send_to_wintun_def Let_def simp flip: n_def)
  next
    case (Inr dest)
    then have d: "length dest = min 65535 (length p)" "sent s' = sent s" using a alloc [of s n s' dest] u by auto
    then have "copy_at dest 0 (take (min (length dest) (length p)) p) = take 65535 p" by (simp add: copy_at_def min_def)
    then show ?thesis using a Inr d(2) by (simp add: send_to_wintun_def send Let_def flip: n_def)
  qed
qed

lemma bridge_frame_effect:
  assumes "bridge_frame W gm gi (s, []) f = (s', rx)"
  shows "rx = answers gm gi f \<and> (sent s' = sent s @ to_adapter f \<or>
    (\<exists>n t e. allocate_send_packet W s n = (t, Inl e) \<and> sent s' = sent s))"
proof (cases "parse_eth_header f")
  case None
  then show ?thesis
    using assms no_answer [of f gm gi] by (auto simp: bridge_frame_def to_adapter_def frame_type_def)
next
  case (Some h)
  have l: "strip_eth_header f = Some (drop ETH_HEADER_LEN f)"
    using Some by (auto simp: parse_eth_header_def strip_eth_header_def split: if_splits)
  consider "ethertype h = ETHERTYPE_ARP" | "ethertype h \<in> {ETHERTYPE_IPV4, ETHERTYPE_IPV6}" "ethertype h \<noteq> ETHERTYPE_ARP"
    | "ethertype h \<notin> {ETHERTYPE_IPV4, ETHERTYPE_IPV6, ETHERTYPE_ARP}" using types_differ by auto
  then show ?thesis
  proof cases
    case 1
    then show ?thesis
      using assms Some types_differ by (auto simp: bridge_frame_def answers_def to_adapter_def frame_type_def split: option.splits)
  next
    case 2
    then have "answers gm gi f = []" using no_answer [of f gm gi] Some by (auto simp: frame_type_def)
    moreover have "s' = send_to_wintun W s (drop ETH_HEADER_LEN f)" "rx = []" using assms Some 2 l by (auto simp: bridge_frame_def)
    moreover have "to_adapter f = [take 65535 (drop ETH_HEADER_LEN f)]" using 2 Some by (auto simp: to_adapter_def frame_type_def)
    ultimately show ?thesis using send_to_wintun_sent [of s "drop ETH_HEADER_LEN f"] by auto
  next
    case 3
    then have "answers gm gi f = []" using no_answer [of f gm gi] Some by (auto simp: frame_type_def)
    then show ?thesis using assms Some 3 by (auto simp: bridge_frame_def to_adapter_def frame_type_def)
  qed
qed

end


section \<open>Invariant\<close>

definition wrap :: "bytes \<Rightarrow> bytes \<Rightarrow> bytes \<Rightarrow> bytes" where
  "wrap gateway_mac guest_mac ip_data = build_eth_frame gateway_mac guest_mac (ethertype_from_ip ip_data) ip_data"

text \<open>An allocation that fails loses the packet, nothing else does.\<close>

definition roomy :: "'s WinTunSession \<Rightarrow> bool" where
  "roomy W \<longleftrightarrow> (\<forall>s n s' e. allocate_send_packet W s n \<noteq> (s', Inl e))"

definition bridge_ok :: "'s WinTunSession \<Rightarrow> ('s \<Rightarrow> bytes list) \<Rightarrow> 's Bridge \<Rightarrow> bool" where
  "bridge_ok W sent br \<longleftrightarrow>
     br_offered br = br_taken br @ br_tx br \<and>
     subseq (sent (br_session br)) (concat (map to_adapter (br_taken br))) \<and>
     (roomy W \<longrightarrow> sent (br_session br) = concat (map to_adapter (br_taken br))) \<and>
     br_to_guest br \<in> shuffles (concat (map (answers (br_gateway_mac br) (br_gateway_ip br)) (br_taken br)))
                               (map (wrap (br_gateway_mac br) (br_guest_mac br)) (br_received br))"

lemma shuffles_snoc:
  "zs \<in> shuffles xs ys \<Longrightarrow> zs @ [x] \<in> shuffles (xs @ [x]) ys" "zs \<in> shuffles xs ys \<Longrightarrow> zs @ [x] \<in> shuffles xs (ys @ [x])"
proof -
  show left: "zs @ [x] \<in> shuffles (xs @ [x]) ys" if "zs \<in> shuffles xs ys" for zs xs ys :: "'b list" and x
    using that
  proof (induction xs ys arbitrary: zs rule: shuffles.induct)
    case (1 ys)
    then show ?case by (induction ys arbitrary: zs) (auto simp: Cons_in_shuffles_iff)
  next
    case (2 x' xs)
    then show ?case by auto
  next
    case (3 a xs b ys)
    then show ?case by (auto simp: Cons_in_shuffles_iff)
  qed
  show "zs @ [x] \<in> shuffles xs (ys @ [x])" if "zs \<in> shuffles xs ys" for zs xs ys :: "'b list" and x
    using left [of zs ys xs x] that by (simp add: shuffles_commutes)
qed

lemma shuffles_answer: "zs \<in> shuffles xs ys \<Longrightarrow> zs @ answers gm gi f \<in> shuffles (xs @ answers gm gi f) ys"
  by (auto simp: answers_def shuffles_snoc split: option.split)

context wintun
begin

lemma bridge_ok_thread:
  assumes "bridge_ok W sent br"
  shows "bridge_ok W sent (net_io_step W br)"
proof (cases "br_phase br")
  case DrainTx
  show ?thesis
  proof (cases "br_tx br")
    case (Cons f fs)
    obtain s rx where b: "bridge_frame W (br_gateway_mac br) (br_gateway_ip br) (br_session br, []) f = (s, rx)" by fastforce
    note e = bridge_frame_effect [OF b]
    have "roomy W \<Longrightarrow> sent s = sent (br_session br) @ to_adapter f" using e unfolding roomy_def by blast
    moreover have "subseq (sent s) (concat (map to_adapter (br_taken br)) @ to_adapter f)"
      using e assms by (auto simp: bridge_ok_def intro: list_emb_append_mono subseq_rev_drop_many)
    ultimately show ?thesis
      using assms e DrainTx Cons b by (simp add: net_io_step_def bridge_ok_def br_push_def shuffles_answer)
  qed (use assms DrainTx in \<open>simp add: net_io_step_def bridge_ok_def\<close>)
next
  case ReceiveHost
  obtain s r where t: "try_receive W (br_session br) = (s, r)" by fastforce
  then have "sent s = sent (br_session br)" by (rule receive)
  then show ?thesis
    using assms ReceiveHost t by (auto simp: net_io_step_def bridge_ok_def br_push_def wrap_def shuffles_snoc split: sum.split option.split)
qed (use assms in \<open>simp_all add: net_io_step_def bridge_ok_def\<close>)

lemma bridge_ok_step: "bridge_step W br br' \<Longrightarrow> bridge_ok W sent br \<Longrightarrow> bridge_ok W sent br'"
  by (induction rule: bridge_step.induct) (simp_all add: bridge_ok_thread, simp_all add: bridge_ok_def shutdown_inner_def)

lemma bridge_ok_run: "(bridge_step W)\<^sup>*\<^sup>* br br' \<Longrightarrow> bridge_ok W sent br \<Longrightarrow> bridge_ok W sent br'"
  by (induction rule: rtranclp_induct) (auto intro: bridge_ok_step)

end

lemma bridge_keeps_macs:
  assumes "(bridge_step W)\<^sup>*\<^sup>* br br'"
  shows "br_guest_mac br' = br_guest_mac br" "br_gateway_mac br' = br_gateway_mac br" "br_gateway_ip br' = br_gateway_ip br"
proof -
  have 1: "br_guest_mac (net_io_step W b) = br_guest_mac b \<and> br_gateway_mac (net_io_step W b) = br_gateway_mac b \<and> br_gateway_ip (net_io_step W b) = br_gateway_ip b"
    for b by (simp add: net_io_step_def br_push_def split: NetPhase.split list.split prod.split sum.split option.split)
  have "br_guest_mac b' = br_guest_mac b \<and> br_gateway_mac b' = br_gateway_mac b \<and> br_gateway_ip b' = br_gateway_ip b"
    if "bridge_step W b b'" for b b' using that by cases (simp_all add: 1 shutdown_inner_def)
  with assms show "br_guest_mac br' = br_guest_mac br" "br_gateway_mac br' = br_gateway_mac br" "br_gateway_ip br' = br_gateway_ip br"
    by (induction rule: rtranclp_induct) auto
qed

section \<open>Stopping\<close>

text \<open>A stopped thread, left alone by the guest, ends: it finishes the round it is in.\<close>

fun rounds_left :: "'s Bridge \<Rightarrow> nat" where
  "rounds_left br = (case br_phase br of LoopTop \<Rightarrow> 1 | ReceiveHost \<Rightarrow> 2 | DrainTx \<Rightarrow> length (br_tx br) + 3 | LoopEnded \<Rightarrow> 0)"

lemma net_io_step_ends:
  assumes "br_stop br" "br_phase br \<noteq> LoopEnded"
  shows "br_stop (net_io_step W br) \<and> rounds_left (net_io_step W br) < rounds_left br"
  using assms
  by (cases "br_phase br")
    (auto simp: net_io_step_def br_push_def split: list.split prod.split sum.split option.split)

lemma net_io_loop_ends:
  "br_stop br \<Longrightarrow> \<exists>k\<le>rounds_left br. br_phase ((net_io_step W ^^ k) br) = LoopEnded"
proof (induction "rounds_left br" arbitrary: br rule: less_induct)
  case less
  show ?case
  proof (cases "br_phase br = LoopEnded")
    case True
    then show ?thesis by (intro exI [of _ 0]) simp
  next
    case False
    note s = net_io_step_ends [OF less.prems False, of W]
    then obtain k where "k \<le> rounds_left (net_io_step W br)" "br_phase ((net_io_step W ^^ k) (net_io_step W br)) = LoopEnded"
      using less.hyps by blast
    then show ?thesis using s by (intro exI [of _ "Suc k"]) (simp add: funpow_swap1 del: rounds_left.simps)
  qed
qed

section \<open>Properties\<close>



text \<open>A session that keeps what was sent and delivers what waits.\<close>

definition sim_session :: "(bytes list \<times> bytes list) WinTunSession" where
  "sim_session = \<lparr>allocate_send_packet = (\<lambda>s n. (s, Inr (replicate (unat n) 0))), send_packet = (\<lambda>s p. (fst s @ [p], snd s)),
     try_receive = (\<lambda>s. case snd s of [] \<Rightarrow> (s, Inr None) | p # ps \<Rightarrow> ((fst s, ps), Inr (Some p)))\<rparr>"

interpretation sim_wintun: wintun sim_session fst
  by unfold_locales (auto simp: sim_session_def split: list.splits)

definition sim_api :: "(bytes list \<times> bytes list) WinTunApi" where
  "sim_api = \<lparr>wt_load = None, wt_create = (\<lambda>n. None), wt_set_address = (\<lambda>a. None), wt_set_netmask = (\<lambda>a. None),
     wt_start_session = Inr ([], []), wt_spawn = None\<rparr>"

definition demo_frame :: bytes where
  "demo_frame = build_eth_frame [2, 0, 0, 0, 0, 1] [0xAA, 0xBB, 0xCC, 0, 0, 1] ETHERTYPE_IPV4 [0x45, 1, 2]"

lemma demo_frame_packet: "to_adapter demo_frame = [[0x45, 1, 2]]"
proof -
  have "strip_eth_header demo_frame = Some [0x45, 1, 2]" unfolding demo_frame_def by (rule parse_eth_build) simp_all
  then have "drop ETH_HEADER_LEN demo_frame = [0x45, 1, 2]" by (auto simp: strip_eth_header_def split: if_splits)
  then show ?thesis by (simp add: to_adapter_def frame_type_def) (simp add: demo_frame_def parse_eth_build)
qed

lemma demo_host_ip: "configure_host_ip sim_api ''192.168.100.1/24'' = Inr ([192, 168, 100, 1], [255, 255, 255, 0])"
  by code_simp


end
