(* ===== verification/Vsock_Link.thy ===== *)
theory Vsock_Link
  imports Vm Vsock_Server
begin

text \<open>
  The two channels between the vsock device of a VM and the metrics task of the daemon
  (\<open>hitz-vmm/src/vsock_io.rs\<close>, the set-up in \<open>start_vm\<close> of \<open>hitz-daemon/src/vm_manager.rs\<close>, the loop of
  \<open>run_metrics_task\<close> in \<open>hitz-daemon/src/vsock_server.rs\<close>): device and task run on threads of their own and meet
  in the channels only.
\<close>

section \<open>Model\<close>

text \<open>A channel is the list of the packets in it. The host holds the receiver of the first and the sender of the second.\<close>

record VsockIoHandle =
  vio_tx_rx :: "VsockPacket list"
  vio_rx_tx :: "VsockPacket list"

text \<open>The ends of the device are in the order of \<open>BootExtras\<close>; the sender works as long as the host keeps its end.\<close>

definition vsock_new_pair :: "VsockIoHandle \<times> VsockPacket list \<times> VsockPacket list \<times> bool" where
  "vsock_new_pair = (\<lparr>vio_tx_rx = [], vio_rx_tx = []\<rparr>, [], [], True)"

definition vsock_extras :: "VmConfig \<Rightarrow> VsockIoHandle option \<times> BootExtras" where
  "vsock_extras boot_config =
     (case cfg_guest_agent boot_config of
        Disabled \<Rightarrow> (None, boot_extras_none)
      | _ \<Rightarrow> (case vsock_new_pair of (handle, ends) \<Rightarrow> (Some handle, \<lparr>vsock_channels = Some ends\<rparr>)))"

text \<open>
  The device holds the two channels; the further lists remember what the guest has sent, what the task has
  handled and what the guest has received.
\<close>

record 'snap Link =
  lk_device :: VirtioVsockDevice
  lk_task :: "'snap MetricsTask"
  lk_offered :: "VsockPacket list"
  lk_handled :: "VsockPacket list"
  lk_delivered :: "VsockPacket list"

definition link_start :: "u32 \<Rightarrow> VsockPacket list \<times> VsockPacket list \<times> bool \<Rightarrow> 'snap Link" where
  "link_start cid ends =
     \<lparr>lk_device = (case ends of (rx, tx, tx_open) \<Rightarrow> vsock_with_channels cid rx tx tx_open), lk_task = metrics_start,
      lk_offered = [], lk_handled = [], lk_delivered = []\<rparr>"

text \<open>One packet of the task: its answers go into the channel to the device.\<close>

definition task_step :: "(bytes \<Rightarrow> 'snap option) \<Rightarrow> 'snap Link \<Rightarrow> 'snap Link" where
  "task_step decode lk =
     (case vs_tx (lk_device lk) of
        [] \<Rightarrow> lk
      | p # ps \<Rightarrow>
          let t = handle_packet decode (lk_task lk) p in
          lk\<lparr>lk_task := t, lk_handled := lk_handled lk @ [p],
             lk_device := (lk_device lk)\<lparr>vs_tx := ps, vs_rx_channel := vs_rx_channel (lk_device lk) @ drop (length (mt_sent (lk_task lk))) (mt_sent t)\<rparr>\<rparr>)"

text \<open>The guest's driver lays out its transmit ring as the specification asks; receive rings are arbitrary.\<close>

inductive link_step :: "(bytes \<Rightarrow> 'snap option) \<Rightarrow> 'snap Link \<Rightarrow> 'snap Link \<Rightarrow> bool" for decode where
  guest_sends: "gm_inv m \<Longrightarrow> vq_ok q \<Longrightarrow> vq_ready q \<Longrightarrow> tx_driver_ok gm_mapped gm_byte m q \<Longrightarrow>
    vsock_process_queue gm_access (lk_device lk) 1 q m = Some (d, q', m') \<Longrightarrow>
    link_step decode lk (lk\<lparr>lk_device := d, lk_offered := lk_offered lk @ List.map_filter (\<lambda>head. tx_packet gm_access m (chain_of q head)) (pending_heads (gm_byte m) q)\<rparr>)"
| guest_polls: "vsock_poll_rx gm_access (lk_device lk) q m = Some (d, q', m', injected) \<Longrightarrow>
    link_step decode lk (lk\<lparr>lk_device := d, lk_delivered := lk_delivered lk @
      take (length (vs_rx_pending (lk_device lk) @ vs_rx_channel (lk_device lk)) - length (vs_rx_pending d)) (vs_rx_pending (lk_device lk) @ vs_rx_channel (lk_device lk))\<rparr>)"
| task: "link_step decode lk (task_step decode lk)"

section \<open>Invariant\<close>

definition link_ok :: "(bytes \<Rightarrow> 'snap option) \<Rightarrow> 'snap Link \<Rightarrow> bool" where
  "link_ok decode lk \<longleftrightarrow>
     vs_tx_open (lk_device lk) \<and> lk_offered lk = lk_handled lk @ vs_tx (lk_device lk) \<and>
     lk_task lk = run_metrics_task decode (lk_handled lk) \<and>
     lk_delivered lk @ vs_rx_pending (lk_device lk) @ vs_rx_channel (lk_device lk) = mt_sent (lk_task lk)"

lemma handle_packet_sent: "\<exists>ps. mt_sent (handle_packet decode t p) = mt_sent t @ ps"
  by (cases p) (auto simp: handle_packet_def mt_send_def Let_def split: option.split VsockOp.split)

lemma link_ok_step:
  assumes "link_step decode lk lk'" "link_ok decode lk"
  shows "link_ok decode lk'"
  using assms(1)
proof cases
  case (guest_sends m q d q' m')
  have "vs_tx_open (lk_device lk)" using assms(2) by (simp add: link_ok_def)
  from vsock_tx_served [OF guest_sends(2-5) this] guest_sends(1,6) assms(2) show ?thesis by (auto simp: link_ok_def)
next
  case (guest_polls q m d q' m' injected)
  obtain taken where "vs_rx_pending (lk_device lk) @ vs_rx_channel (lk_device lk) = taken @ vs_rx_pending d" "vs_rx_channel d = []"
    "vs_tx d = vs_tx (lk_device lk)" "vs_tx_open d = vs_tx_open (lk_device lk)"
    using vsock_poll_fifo [of gm_access "lk_device lk" q m] guest_polls(2) by auto
  then show ?thesis using assms(2) guest_polls(1) by (simp add: link_ok_def flip: append_assoc)
next
  case task
  show ?thesis
  proof (cases "vs_tx (lk_device lk)")
    case (Cons p ps)
    obtain new where "mt_sent (handle_packet decode (lk_task lk) p) = mt_sent (lk_task lk) @ new" using handle_packet_sent by blast
    then show ?thesis using assms(2) task Cons by (simp add: link_ok_def task_step_def run_metrics_task_def Let_def flip: append_assoc)
  qed (use assms(2) task in \<open>simp add: task_step_def\<close>)
qed

lemma task_drains:
  assumes "link_ok decode lk"
  shows "\<exists>lk'. (link_step decode)\<^sup>*\<^sup>* lk lk' \<and> vs_tx (lk_device lk') = [] \<and> lk_offered lk' = lk_offered lk"
proof (induction "vs_tx (lk_device lk)" arbitrary: lk)
  case (Cons p ps)
  have s: "vs_tx (lk_device (task_step decode lk)) = ps" "lk_offered (task_step decode lk) = lk_offered lk"
    using Cons(2) [symmetric] by (simp_all add: task_step_def Let_def)
  from Cons(1) [OF s(1) [symmetric]] obtain lk' where "(link_step decode)\<^sup>*\<^sup>* (task_step decode lk) lk'"
    "vs_tx (lk_device lk') = []" "lk_offered lk' = lk_offered (task_step decode lk)" by blast
  then show ?case using s(2) link_step.task [of decode lk] by (metis converse_rtranclp_into_rtranclp)
qed auto

section \<open>Properties\<close>



definition agent_config :: VmConfig where
  "agent_config = demo_config\<lparr>cfg_guest_agent := Auto\<rparr>"


end
