(* ===== verification/Spec2Isabelle.thy ===== *)
theory Spec2Isabelle
  imports Vm Vcpu_Threads Cli_Launch Metrics_Pipeline Prometheus Port_Forwarding Net_Bridge Vsock_Link
begin

text \<open>
  Verification of hitz, a virtual machine monitor for the Windows Hypervisor Platform written in Rust.

  \<^bold>\<open>The program.\<close> A daemon (\<open>hitz-daemon\<close>) keeps a set of virtual machines, stores their configuration and
  state in files and serves an HTTP interface. To start one it calls the VMM (\<open>hitz-vmm\<close>), which checks
  the configuration, reserves guest memory, writes the boot structures of \<open>hitz-boot\<close> into it, creates a
  partition and its vCPUs through the traits of \<open>hitz-hal\<close> (implemented by \<open>hitz-whp\<close>), puts the virtio
  devices of \<open>hitz-devices\<close> on an MMIO bus, and runs one loop per vCPU until the guest stops or the stop
  flag is raised. The devices exchange frames and packets with host threads (\<open>hitz-net\<close>, the vsock server)
  over channels. A guest agent (\<open>hitz-guest-agent\<close>) sends metrics through the vsock device; the client
  (\<open>hitz-cli\<close>) talks to the daemon, watches the serial console, records and replays metrics, and installs
  the daemon as a Windows service. All of this is modelled, bottom up, by the theories below.

  \<^bold>\<open>Conventions.\<close> Integers are words of the width the source gives them; \<open>usize\<close> lengths of slices are
  naturals. A struct is a record with prefixed fields, an enum a datatype. Mutable state is passed and
  returned; guest memory, shared by all devices and vCPUs, is a separate argument everywhere. A
  \<open>Result\<close> is a sum with the error on the left. Where the source can also panic, by an arithmetic check
  or an unwrap, the result is an \<open>outcome\<close>: \<open>Ok\<close>, \<open>Err\<close> or \<open>Panic\<close>. Channels are lists, oldest element first.
  Trait objects are records of operations over an abstract state, passed as arguments; the contract a
  client relies on is a locale and the models of the implementations are interpreted in it.

  \<^bold>\<open>Loops and fuel.\<close> No definition has a fuel argument. Loops over data are structural or come with a
  termination proof. The loops whose end depends on the guest, another thread or the clock, \<open>drain_queue\<close>,
  \<open>run_from\<close> (the body of \<open>run_vcpu_loop\<close>) and \<open>record_loop\<close>, are partial functions into \<open>option\<close>: \<open>None\<close> means the
  loop never returns. That they return is proved (\<open>block_queue_served\<close>, \<open>net_tx_in_order\<close>, \<open>vsock_tx_in_order\<close> for driver
  rings laid out as the specification asks, \<open>stop_flag_ends_loop\<close> for the run loop, \<open>record_loop_ends\<close> for the
  recording), and so is that they need not (\<open>aliased_rings_hang\<close>). Threads and tasks that run beside one another
  are step relations over their joint state; a property of such a group is shown in every reachable state.

  \<^bold>\<open>Theories.\<close>
  \<^item> \<open>Hitz_Prelude\<close>, \<open>Rust_Search\<close>, \<open>Rust_Fmt\<close>, \<open>Rust_Text\<close>, \<open>Rust_Float\<close>: words, checked arithmetic, byte order, slices, binary
    search, number formatting and parsing, lines and words of texts, floating-point arithmetic, as the Rust core library defines them.
  \<^item> \<open>Hal_Types\<close>, \<open>Hal_Vcpu\<close>, \<open>Hal_Partition\<close> (\<open>hitz-hal/src\<close>): errors, registers, exits, the \<open>GuestMemAccess\<close>, \<open>Vcpu\<close>,
    \<open>Hypervisor\<close> and \<open>Partition\<close> traits; locales \<open>vcpu\<close> and \<open>hv_partition\<close>.
  \<^item> \<open>Guest_Memory\<close> (\<open>hitz-vmm/src/memory.rs\<close>): regions found by binary search; \<open>gm_byte\<close> is the abstract
    byte map that the slice operations refine; locale \<open>guest_mem\<close>, interpreted as \<open>gm\<close>. \<open>Boot_Writer\<close> gives
    the writer interface of the boot crate, locale \<open>mem_writer\<close>, interpreted as \<open>gmw\<close>.
  \<^item> \<open>Virt_Queue\<close>, \<open>Mmio_Transport\<close>, \<open>Virtio_Block\<close>, \<open>Virtio_Net\<close>, \<open>Virtio_Vsock\<close>, \<open>Mmio_Bus\<close>, \<open>Serial_Device\<close>
    (\<open>hitz-devices/src\<close>): rings, register file, the three devices, address windows, the serial port.
    A device meets locale \<open>virtio_backend\<close> (interpretations \<open>blk\<close>, \<open>net\<close>, \<open>vs\<close>); every backend behind a transport
    is an \<open>mmio_device\<close> by a sublocale.
  \<^item> \<open>Boot_Types\<close>, \<open>Page_Tables\<close>, \<open>Elf_Loader\<close>, \<open>Boot_Params\<close>, \<open>Acpi\<close>, \<open>Cpio\<close> (\<open>hitz-boot/src\<close>): page tables, kernel and
    initramfs loading, zero page, ACPI tables, archive builder, each against what the processor, the
    kernel or an archive reader makes of the bytes.
  \<^item> \<open>Mmio_Decode\<close>, \<open>Run_Loop\<close>, \<open>Serial_Buf\<close>, \<open>Boot_Regs\<close>, \<open>Vm_Boot\<close>, \<open>Boot_Image\<close>, \<open>Vm\<close> (\<open>hitz-vmm/src\<close>): instruction
    decoder, vCPU loop and the interleaving of several (\<open>vm_step\<close>), serial output ring, initial registers,
    the boot pipeline, the image it leaves and the machine it starts. \<open>Vcpu_Threads\<close>: the threads of
    \<open>run_multi_vcpu\<close> with their channel, the deadline and the cancellation of the others.
  \<^item> \<open>Whp_Vcpu\<close> (\<open>hitz-whp/src/convert.rs\<close>, \<open>vcpu.rs\<close>): register and exit conversion and the vCPU calls; the locale
    \<open>whp_api\<close> states what is relied on of the Windows calls and gives the \<open>vcpu\<close> contract by a sublocale;
    \<open>sim\<close> interprets it on a register file. \<open>Whp_Partition\<close> (\<open>partition.rs\<close>): creation, mapping and release of a
    partition; locale \<open>whp_partitions\<close> gives \<open>hv_partition\<close>, interpreted on the same simulation as \<open>simpart\<close>.
  \<^item> \<open>Ethernet\<close>, \<open>Net_Bridge\<close> (\<open>hitz-net/src\<close>): frame headers, ARP replies, address texts; the WinTun adapter and
    the thread between it and the network device. Locale \<open>wintun\<close> states what is relied on of the driver and is
    interpreted as \<open>sim_wintun\<close> on packet queues.
  \<^item> \<open>Daemon_Types\<close>, \<open>State_Store\<close>, \<open>Agent\<close>, \<open>Vm_Manager\<close>, \<open>Router\<close>, \<open>Vsock_Server\<close> (\<open>hitz-daemon/src\<close>): the store on an
    explicit disk whose calls may fail, the manager with each operation cut where it releases the lock,
    the interleaving of clients and VM tasks (\<open>mg_step\<close>), HTTP routing, the metrics connection.
    \<open>Vsock_Link\<close> joins the vsock device of the machine to the task that reads it. \<open>Daemon_Server\<close>: listeners,
    connections, telemetry and the shutdown of the daemon; locale \<open>manager_law\<close> carries a property of the
    manager over to every run of the server, with interpretations \<open>flags\<close> and \<open>stops\<close>.
  \<^item> \<open>Metrics\<close>, \<open>Api_Analytics\<close> (\<open>hitz-api/src\<close>): the metrics of a guest and the reports computed from them: health,
    rates, workload class, sizing advice, efficiency, imbalance, sentinel rules, carbon estimate, fingerprint,
    simulator, Terraform export. \<open>Prometheus\<close>: the text export, with the display of floating-point numbers.
  \<^item> \<open>Guest_Agent\<close> (\<open>hitz-guest-agent/src\<close>): the parsers of the \<open>/proc\<close> files, the busiest processes, the snapshot.
    \<open>Metrics_Pipeline\<close>: the agent's push and pull threads and the way of a snapshot from its writes to the meters
    of the daemon.
  \<^item> \<open>Port_Forwarding\<close> (\<open>hitz-daemon/src/port_forward.rs\<close>): the listen address, listener and relay tasks as a step
    relation, with the instruments they update.
  \<^item> \<open>Cli_Reports\<close>, \<open>Cli_Client\<close> (\<open>hitz-cli/src\<close>): the reports and the commands of the client. A command maps the state of what
    it talks to, to the new state, the output and the result. Locale \<open>daemon_link\<close> states what is relied on of the HTTP
    and JSON libraries for the commands that change a VM, \<open>daemon_view\<close> adds what the reports need; both are interpreted
    as \<open>demo_link\<close> with the router of the daemon at the other end. \<open>Serial_Console\<close>: the stream of serial output from
    the ring through the daemon to the terminal. \<open>Cli_Live\<close>: recording, live views and the dashboard.
    \<open>Cli_Launch\<close>: the choice of the command, the standalone run, installation and start of the service.
  \<^item> this theory: properties of the machine as a whole.

  \<^bold>\<open>What is shown.\<close> Memory: reads and writes refine a byte map and fail exactly outside it. Queues: chains are
  taken in order and once, completions are published at the right slot, descriptor walks are bounded.
  Devices: the requests of a well-behaved driver are served in order, no request reaches past the disk,
  written sectors read back, frames and packets arrive unchanged. Bus: windows stay disjoint and the binary
  search agrees with a scan. Exits: a decoded store or load has the effect of the instruction on device and
  registers. Boot: the finished image has every structure in place. Machine: the invariant holds in every
  interleaving of the vCPU threads. Manager: flags and states agree in every interleaving of clients and
  tasks, and a restart of the daemon recovers the VMs. Behaviour that differs from what the code intends
  is stated as a theorem too: aliased rings, RAM above the fixed structures, a restart request, a failed
  start, an oversized vsock packet, a snapshot split over two packets, counters that add up totals, a gauge that keeps aborted relays,
  commands whose exit code hides the error.
  Metrics: the agent reads what the kernel prints, the process list is the busiest part of all, alarms and
  sizing advice agree with exact arithmetic on sizes below \<open>2 ^ 53\<close> although they are computed in floating point.
  Client: a command performs its operation of the manager on the VM it names and reports the result; a recording
  is replayed as it was taken; the console shows a subsequence of the guest's output, and all of it when nothing is overwritten;
  an installed service starts with the arguments of its installation.
  Daemon: a shutdown raises the stop flag of every running VM and can always be completed; every reply has a body that
  fits its status code. Threads: a raised stop flag ends all vCPU threads, and the result of the group is explained by
  what one of its threads reported. Links: packets of the guest reach the network and the metrics task in order and once.
  More theorems show behaviour the code does not intend: the deadline of a machine with several vCPUs counts
  from its start (\<open>deadline_stops_machine\<close>), one failed connection attempt ends the pipe listener
  (\<open>failed_connect_ends_listener\<close>), and nothing of what the agent pushes in its two writes per snapshot is published
  (\<open>pushed_snapshots_lost\<close>).

  \<^bold>\<open>Floating point.\<close> A finite \<open>f32\<close> or \<open>f64\<close> is the rational number it denotes (\<open>Fin\<close>), the two zeros being one;
  every operation computes exactly and rounds to the nearest value of the format, ties to even. Proofs use
  that rounding is monotone and keeps the values of the format.

  \<^bold>\<open>Parameters and hypotheses.\<close> Code outside the repository is an argument: the host allocator
  (\<open>virtual_alloc_law\<close>: a fresh zeroed block of the requested size), the Windows hypervisor calls (\<open>WhpApi\<close>,
  locale \<open>whp_api\<close>; \<open>WhpPartitionApi\<close>, locale \<open>whp_partitions\<close>), the host files (\<open>HostFs\<close>, and \<open>File\<close> with a fault schedule), the
  16550 emulation of \<open>vm_superio\<close> (\<open>Serial\<close>), the devices the host opens (\<open>HostDevices\<close>), the JSON and MessagePack
  libraries (\<open>Serde\<close> with \<open>serde_law\<close> and \<open>serde_total\<close>: what was serialised parses back), the embedded agent
  binary (\<open>AgentHost\<close>), the decimal logarithm of the fingerprint, the guest's \<open>/proc\<close> files and its socket layer, which
  sends each write as a packet of its own, the WinTun driver (\<open>wintun\<close>), the terminal and its key presses, the clock,
  the argument parser (\<open>clap_start\<close>: the arguments the source declares) and the Windows service manager.

  \<^bold>\<open>Not modelled.\<close> The derived \<open>Display\<close> and identifier code of newtypes; the serialisation formats, the HTTP protocol and
  the parsing inside the argument library, which are libraries; the watchdog thread of a single vCPU, which depends on wall clock
  time, and tracing spans; the drawing of the full-screen views below the lines of text they show.
\<close>

section \<open>A guest can stop a vCPU thread\<close>

text \<open>The transmit queue of the network device as the bus reaches it.\<close>

definition aliased_queue :: "VirtQueue \<Rightarrow> GuestMemory \<Rightarrow> bool" where
  "aliased_queue q m \<longleftrightarrow> vq_ok q \<and> vq_ready q \<and> vq_used_gpa q = vq_avail_gpa q \<and>
     gm_mapped m (vq_used_gpa q) (used_bytes q) \<and> vq_last_avail_idx q \<noteq> avail_idx (gm_byte m) q"

lemma aliased_drain_hangs:
  assumes "gm_inv m" "aliased_queue q m" "\<And>d m c. fst (snd (h d m c)) = m"
  shows "drain_queue gm_access h d q m = None"
  using assms(2) by (intro gm.drain_queue_diverges [OF assms(1)]) (auto simp: aliased_queue_def assms(3))

text \<open>C38: a driver that gives the transmit queue of the network device the same address for its two rings,
  with one chain published, stops the vCPU thread: the write to the notify register of the device
  never returns, because every completion the device stores is a new available entry for it. All
  sizes, addresses and register accesses involved are legal.\<close>

theorem aliased_rings_hang:
  assumes "gm_inv m" "find_slot bus gpa = Some i" "slot_device (bus_slots bus ! i) = NetDevice t"
    and "gpa - slot_base (bus_slots bus ! i) = mmio_queue_notify"
    and "length (t_queues t) = 2" "aliased_queue (qs_queue (t_queues t ! 1)) m"
  shows "bus_write vm_device bus gpa [1, 0, 0, 0] m = None"
proof -
  let ?q = "qs_queue (t_queues t ! 1)"
  have "drain_queue gm_access (net_tx_chain gm_access) (t_device t) ?q m = None"
    by (rule aliased_drain_hangs [OF assms(1,6)]) (simp add: net_tx_chain_frame)
  then have "notify_queue net_ops t 1 m = None"
    using assms(5) by (simp add: notify_queue_def net_backend_def net_process_queue_def tx_queue_def net_process_tx_def)
  moreover have "of_le_bytes (copy_at (replicate 4 0) 0 (take 4 [1, 0, 0, 0 :: u8])) = (1 :: u32)"
    by (simp add: copy_at_def)
  ultimately have "vm_dev_write (NetDevice t) mmio_queue_notify [1, 0, 0, 0] m = None"
    by (simp add: transport_device_def transport_mmio_write_def write_reg_def mmio_regs)
  then show ?thesis using assms(2-4) by (simp add: bus_write_def vm_device_def Let_def)
qed

definition alias_demo :: "VmDevice MmioBus" where
  "alias_demo = \<lparr>bus_slots = [\<lparr>slot_base = 0xD0001000, slot_size = 0x1000, slot_device = NetDevice
     ((transport_new net_ops (net_new [2, 0, 0, 0, 0, 1]) VIRTIO_IRQ_NET)
        \<lparr>t_queues := [queue_state_new, queue_state_new\<lparr>qs_queue := demo_queue\<lparr>vq_used_gpa := vq_avail_gpa demo_queue\<rparr>\<rparr>]\<rparr>)\<rparr>]\<rparr>"

theorem aliased_rings_hang_witness: "bus_write vm_device alias_demo 0xD0001050 [1, 0, 0, 0] demo_mem = None"
proof -
  have "bus_ok alias_demo" by (simp add: alias_demo_def bus_ok_def slot_ok_def)
  then have s: "find_slot alias_demo 0xD0001050 = Some 0" by (simp add: find_slot_iff owns_def) (simp add: alias_demo_def)
  have "aliased_queue (demo_queue\<lparr>vq_used_gpa := vq_avail_gpa demo_queue\<rparr>) demo_mem"
    by (simp add: aliased_queue_def avail_idx_def demo_peek demo_mem_mapped used_bytes_def)
      (simp add: demo_queue_def vq_ok_def max_queue_size_def)
  with aliased_rings_hang [OF demo_mem_inv s] show ?thesis by (simp add: alias_demo_def mmio_regs)
qed

end
